(* ===== verification/Prelude.thy ===== *)
theory Prelude
  imports Main "HOL-Library.Word"
begin

text \<open>
  What the components share: names for the machine types, C strings as byte lists, the
  lemma collections the proofs use, and generic facts on lists and byte copies.

  Conventions of the whole development.  A byte (\<open>uint8_t\<close>, \<open>char\<close>) is an \<open>8 word\<close>.  C's
  \<open>int\<close> and pointers are Isabelle's \<open>int\<close>; where the source computes in an unsigned type,
  or where an unchecked caller can drive a sum out of range, the reduction is written out
  (\<open>u32\<close>, \<open>s32\<close>).  A C array passed by pointer is the list of the bytes that may be read from the
  pointer onwards, and an access outside it makes the operation return \<open>None\<close>: undefined
  behaviour is a visible result and never an unspecified value.
\<close>

unbundle bit_operations_syntax

type_synonym u8 = "8 word"
type_synonym memory = "int \<Rightarrow> u8"

named_theorems defs \<open>definitions of the operations, unfolded by the component proofs\<close>
named_theorems frame \<open>fields an operation does not write\<close>
named_theorems kinv \<open>preservation of the kernel invariant\<close>
named_theorems winv \<open>preservation of the game world invariant\<close>

section \<open>Unsigned and signed 32-bit readings\<close>

definition u32 :: "int \<Rightarrow> int" where
  "u32 x = x mod 2 ^ 32"

definition s32 :: "int \<Rightarrow> int" where
  "s32 x = (x + 2 ^ 31) mod 2 ^ 32 - 2 ^ 31"

lemma u32_id [simp]: "0 \<le> x \<Longrightarrow> x < 4294967296 \<Longrightarrow> u32 x = x"
  by (simp add: u32_def)

lemma u32_nonneg [simp]: "0 \<le> u32 x"
  by (simp add: u32_def)

lemma u32_less [simp]: "u32 x < 4294967296"
  by (simp add: u32_def)

lemma s32_id [simp]: "- 2147483648 \<le> x \<Longrightarrow> x < 2147483648 \<Longrightarrow> s32 x = x"
  by (simp add: s32_def)

lemma s32_range: "- 2147483648 \<le> s32 x \<and> s32 x < 2147483648"
  by (simp add: s32_def)

text \<open>C's division and remainder truncate towards zero.\<close>

definition c_div :: "int \<Rightarrow> int \<Rightarrow> int" where
  "c_div a b = sgn a * sgn b * (\<bar>a\<bar> div \<bar>b\<bar>)"

definition c_mod :: "int \<Rightarrow> int \<Rightarrow> int" where
  "c_mod a b = a - b * c_div a b"

lemma c_div_nonneg [simp]: "0 \<le> a \<Longrightarrow> 0 < b \<Longrightarrow> c_div a b = a div b"
  by (cases "a = 0") (simp_all add: c_div_def)

lemma c_mod_nonneg [simp]: "0 \<le> a \<Longrightarrow> 0 < b \<Longrightarrow> c_mod a b = a mod b"
  by (simp add: c_mod_def minus_mult_div_eq_mod)

section \<open>C strings\<close>

definition str :: "string \<Rightarrow> u8 list" where
  "str cs = map of_char cs"

definition cstr :: "string \<Rightarrow> u8 list" where
  "cstr cs = str cs @ [0]"

text \<open>The text a byte list holds as a C string: what stands before its first NUL.\<close>

definition text_of :: "u8 list \<Rightarrow> u8 list" where
  "text_of bs = takeWhile (\<lambda>b. b \<noteq> 0) bs"

lemma str_simps [simp]: "str [] = []" "str (c # cs) = of_char c # str cs"
  by (simp_all add: str_def)

lemma text_of_append [simp]: "0 \<notin> set xs \<Longrightarrow> text_of (xs @ 0 # ys) = xs"
  unfolding text_of_def by (induction xs) auto

lemma text_of_Cons: "text_of (b # bs) = (if b = 0 then [] else b # text_of bs)"
  by (simp add: text_of_def)

lemma text_of_Nil [simp]: "text_of [] = []"
  by (simp add: text_of_def)

lemma zero_not_in_text_of [simp]: "0 \<notin> set (text_of bs)"
  unfolding text_of_def by (induction bs) auto

lemma split_at_nul: "0 \<in> set bs \<Longrightarrow> bs = text_of bs @ 0 # drop (Suc (length (text_of bs))) bs"
  by (induction bs) (auto simp: text_of_def)

section \<open>Byte lists as C arrays\<close>

text \<open>A checked write: \<open>None\<close> when the index is outside the array.\<close>

definition store :: "'a list \<Rightarrow> int \<Rightarrow> 'a \<Rightarrow> 'a list option" where
  "store xs i v = (if 0 \<le> i \<and> i < int (length xs) then Some (xs[nat i := v]) else None)"

definition fetch :: "'a list \<Rightarrow> int \<Rightarrow> 'a option" where
  "fetch xs i = (if 0 \<le> i \<and> i < int (length xs) then Some (xs ! nat i) else None)"

lemma store_length: "store xs i v = Some ys \<Longrightarrow> length ys = length xs"
  by (auto simp: store_def split: if_splits)

lemma store_in [simp]: "0 \<le> i \<Longrightarrow> i < int (length xs) \<Longrightarrow> store xs i v = Some (xs[nat i := v])"
  by (simp add: store_def)

lemma fetch_in [simp]: "0 \<le> i \<Longrightarrow> i < int (length xs) \<Longrightarrow> fetch xs i = Some (xs ! nat i)"
  by (simp add: fetch_def)

section \<open>Flat memory\<close>

text \<open>Little-endian 32-bit reads, as the i386 does them.\<close>

definition le32 :: "memory \<Rightarrow> int \<Rightarrow> int" where
  "le32 m a = uint (m a) + 256 * uint (m (a + 1)) + 65536 * uint (m (a + 2))
     + 16777216 * uint (m (a + 3))"

lemma uint8_less [simp]: "uint (b :: u8) < 256"
  using uint_lt2p [of b] by simp

lemma le32_nonneg [simp]: "0 \<le> le32 m a"
  by (simp add: le32_def)

lemma le32_less: "le32 m a < 4294967296"
  unfolding le32_def using uint8_less [of "m a"] uint8_less [of "m (a + 1)"]
    uint8_less [of "m (a + 2)"] uint8_less [of "m (a + 3)"] by linarith

text \<open>The bytes of a region, and a copy loop over \<open>n\<close> bytes in ascending order.\<close>

definition region :: "memory \<Rightarrow> int \<Rightarrow> nat \<Rightarrow> u8 list" where
  "region m a n = map (\<lambda>i. m (a + int i)) [0..<n]"

primrec copy_bytes :: "nat \<Rightarrow> int \<Rightarrow> int \<Rightarrow> memory \<Rightarrow> memory" where
  "copy_bytes 0 dst src m = m"
| "copy_bytes (Suc n) dst src m = copy_bytes n (dst + 1) (src + 1) (m(dst := m src))"

definition disjoint_regions :: "int \<Rightarrow> int \<Rightarrow> int \<Rightarrow> int \<Rightarrow> bool" where
  "disjoint_regions a n b k \<longleftrightarrow> a + n \<le> b \<or> b + k \<le> a"

lemma length_region [simp]: "length (region m a n) = n"
  by (simp add: region_def)

lemma region_nth [simp]: "i < n \<Longrightarrow> region m a n ! i = m (a + int i)"
  by (simp add: region_def)

lemma copy_bytes_outside:
  "x < dst \<or> dst + int n \<le> x \<Longrightarrow> copy_bytes n dst src m x = m x"
  by (induction n arbitrary: dst src m) auto

text \<open>
  The ascending copy moves the source bytes whenever the target does not start inside the
  source (at or below its start, or past its end).
\<close>

lemma copy_bytes_inside:
  assumes "dst \<le> src \<or> src + int n \<le> dst" and "dst \<le> x" and "x < dst + int n"
  shows "copy_bytes n dst src m x = m (src + (x - dst))"
  using assms
proof (induction n arbitrary: dst src m)
  case 0
  then show ?case by simp
next
  case (Suc n)
  show ?case
  proof (cases "x = dst")
    case True
    then show ?thesis by (simp add: copy_bytes_outside)
  next
    case False
    have "dst + 1 \<le> src + 1 \<or> src + 1 + int n \<le> dst + 1"
      using Suc.prems(1) by auto
    moreover have "dst + 1 \<le> x" and "x < dst + 1 + int n"
      using Suc.prems False by auto
    ultimately have "copy_bytes n (dst + 1) (src + 1) (m(dst := m src)) x
        = (m(dst := m src)) (src + 1 + (x - (dst + 1)))"
      by (rule Suc.IH)
    moreover have "src + (x - dst) \<noteq> dst"
      using Suc.prems False by auto
    ultimately show ?thesis by simp
  qed
qed

lemma copy_bytes_add:
  "copy_bytes (n + k) dst src m = copy_bytes k (dst + int n) (src + int n) (copy_bytes n dst src m)"
  by (induction n arbitrary: dst src m) (simp_all add: add.commute add.left_commute)

section \<open>Bit-fields\<close>

text \<open>A C bit-field of \<open>n\<close> bits at position \<open>lo\<close> of a word.\<close>

definition bf_get :: "nat \<Rightarrow> nat \<Rightarrow> 'a::len word \<Rightarrow> 'a word" where
  "bf_get lo n w = take_bit n (drop_bit lo w)"

definition bf_put :: "nat \<Rightarrow> nat \<Rightarrow> 'a::len word \<Rightarrow> 'a word \<Rightarrow> 'a word" where
  "bf_put lo n v w = (w AND NOT (push_bit lo (mask n))) OR push_bit lo (take_bit n v)"

lemma bit_bf_get: "bit (bf_get lo n (w :: 'a::len word)) i \<longleftrightarrow> i < n \<and> bit w (lo + i)"
  unfolding bf_get_def by (simp add: bit_take_bit_iff bit_drop_bit_eq)

lemma bit_bf_put:
  "bit (bf_put lo n v (w :: 'a::len word)) i \<longleftrightarrow>
     (if lo \<le> i \<and> i < lo + n then i < LENGTH('a) \<and> bit v (i - lo) else bit w i)"
  unfolding bf_put_def
  by (auto simp: bit_or_iff bit_and_iff bit_not_iff bit_push_bit_iff bit_take_bit_iff bit_mask_iff
      dest: bit_imp_le_length)

lemma bf_get_put:
  "lo + n \<le> LENGTH('a) \<Longrightarrow> bf_get lo n (bf_put lo n v (w :: 'a::len word)) = take_bit n v"
  by (rule bit_eqI) (auto simp: bit_bf_get bit_bf_put bit_take_bit_iff)

lemma bf_get_put_other:
  "lo + n \<le> lo' \<or> lo' + n' \<le> lo \<Longrightarrow> bf_get lo n (bf_put lo' n' v (w :: 'a::len word)) = bf_get lo n w"
  by (rule bit_eqI) (auto simp: bit_bf_get bit_bf_put)

section \<open>Loops over an index range\<close>

text \<open>A loop that updates entry \<open>i\<close> of a table from its own old value, for every \<open>i\<close> in turn.\<close>

definition update_each :: "('i \<Rightarrow> 'a \<Rightarrow> 'a) \<Rightarrow> 'i list \<Rightarrow> ('i \<Rightarrow> 'a) \<Rightarrow> 'i \<Rightarrow> 'a" where
  "update_each f is t = fold (\<lambda>i t. t(i := f i (t i))) is t"

lemma update_each_at:
  "distinct is \<Longrightarrow> update_each f is t j = (if j \<in> set is then f j (t j) else t j)"
  unfolding update_each_def by (induction "is" arbitrary: t) auto

section \<open>Simulations\<close>

text \<open>The contract between a routine and its specification: on states that satisfy the invariant the
  concrete step refines the abstract one.  Whole runs then refine whole runs.\<close>

locale simulation =
  fixes inv :: "'c \<Rightarrow> bool"
    and abst :: "'c \<Rightarrow> 'a"
    and cop :: "'i \<Rightarrow> 'c \<Rightarrow> 'c"
    and aop :: "'i \<Rightarrow> 'a \<Rightarrow> 'a"
  assumes step_inv: "inv c \<Longrightarrow> inv (cop i c)"
    and step_abst: "inv c \<Longrightarrow> abst (cop i c) = aop i (abst c)"
begin

lemma run: "inv c \<Longrightarrow> abst (fold cop is c) = fold aop is (abst c) \<and> inv (fold cop is c)"
  by (induction "is" arbitrary: c) (simp_all add: step_inv step_abst)

lemma run_abst: "inv c \<Longrightarrow> abst (fold cop is c) = fold aop is (abst c)"
  using run by blast

end

end
