(* ===== verification/CString.thy ===== *)
theory CString
  imports Prelude
begin

text \<open>
  The string routines of the kernel's \<open>lib.c\<close>: \<open>strlen\<close>, \<open>strncmp\<close>, \<open>strcpy\<close>, \<open>strncpy\<close>,
  \<open>strrev\<close> and \<open>itoa\<close>.  A loop that walks a pointer is a recursion on the byte list; running
  off its end is \<open>None\<close>.
\<close>

section \<open>strlen and strncmp\<close>

fun strlen :: "u8 list \<Rightarrow> nat option" where
  "strlen [] = None"
| "strlen (c # s) = (if c = 0 then Some 0 else map_option Suc (strlen s))"

fun strncmp :: "u8 list \<Rightarrow> u8 list \<Rightarrow> nat \<Rightarrow> int option" where
  "strncmp s1 s2 0 = Some 0"
| "strncmp (a # s1) (b # s2) (Suc n) =
     (if a \<noteq> b \<or> a = 0 then Some (sint a - sint b) else strncmp s1 s2 n)"
| "strncmp s1 s2 (Suc n) = None"

lemma strlen_text: "0 \<in> set s \<Longrightarrow> strlen s = Some (length (text_of s))"
  by (induction s) (auto simp: text_of_Cons)

lemma strlen_Some: "strlen s = Some n \<Longrightarrow> 0 \<in> set s \<and> n = length (text_of s)"
  by (induction s arbitrary: n) (auto simp: text_of_Cons split: if_splits)

lemma sint_eq_iff: "sint (a :: u8) = sint b \<longleftrightarrow> a = b"
  by (metis signed_word_eqI)

text \<open>On two terminated strings \<open>strncmp\<close> is 0 exactly when the first \<open>n\<close> characters agree.\<close>

lemma strncmp_eq_0:
  assumes "0 \<in> set s" and "0 \<in> set t"
  shows "\<exists>r. strncmp s t n = Some r \<and> (r = 0 \<longleftrightarrow> take n (text_of s) = take n (text_of t))"
  using assms
proof (induction s t n rule: strncmp.induct)
  case (2 a s1 b s2 n)
  show ?case
  proof (cases "a \<noteq> b \<or> a = 0")
    case True
    then show ?thesis by (auto simp: sint_eq_iff text_of_Cons)
  next
    case False
    with 2 show ?thesis by (auto simp: text_of_Cons)
  qed
qed auto

section \<open>strcpy and strncpy\<close>

fun strcpy :: "u8 list \<Rightarrow> u8 list \<Rightarrow> u8 list option" where
  "strcpy (d # dest) (c # src) =
     (if c = 0 then Some (0 # dest) else map_option ((#) c) (strcpy dest src))"
| "strcpy dest src = None"

text \<open>\<open>strncpy\<close>: the second loop pads with NULs, the first one copies; \<open>src[i]\<close> is read
  before \<open>i < n\<close> is tested.\<close>

fun strncpy_pad :: "u8 list \<Rightarrow> nat \<Rightarrow> u8 list option" where
  "strncpy_pad dest 0 = Some dest"
| "strncpy_pad (d # dest) (Suc n) = map_option ((#) 0) (strncpy_pad dest n)"
| "strncpy_pad [] (Suc n) = None"

fun strncpy :: "u8 list \<Rightarrow> u8 list \<Rightarrow> nat \<Rightarrow> u8 list option" where
  "strncpy dest [] n = None"
| "strncpy dest (c # src) n =
     (if c \<noteq> 0 \<and> 0 < n
      then (case dest of [] \<Rightarrow> None | d # dest' \<Rightarrow> map_option ((#) c) (strncpy dest' src (n - 1)))
      else strncpy_pad dest n)"

lemma strcpy_spec:
  "0 \<in> set src \<Longrightarrow> length (text_of src) < length dest \<Longrightarrow>
   strcpy dest src = Some (text_of src @ 0 # drop (Suc (length (text_of src))) dest)"
  by (induction dest src rule: strcpy.induct) (auto simp: text_of_Cons split: if_splits)

lemma strncpy_pad_spec:
  "n \<le> length dest \<Longrightarrow> strncpy_pad dest n = Some (replicate n 0 @ drop n dest)"
  by (induction dest n rule: strncpy_pad.induct) auto

lemma strncpy_spec:
  assumes "0 \<in> set src \<or> n < length src" and "n \<le> length dest"
  shows "strncpy dest src n =
    Some (take n (text_of src) @ replicate (n - length (text_of src)) 0 @ drop n dest)"
  using assms
proof (induction dest src n rule: strncpy.induct)
  case (2 dest c src n)
  show ?case
  proof (cases "c \<noteq> 0 \<and> 0 < n")
    case True
    then obtain d ds k where "dest = d # ds" and "n = Suc k"
      using 2(3) by (cases dest; cases n) auto
    with True 2 show ?thesis by (auto simp: text_of_Cons)
  next
    case False
    with 2(3) show ?thesis by (auto simp: strncpy_pad_spec text_of_Cons)
  qed
qed simp

section \<open>strrev: reversal in place\<close>

function strrev_loop :: "u8 list \<Rightarrow> int \<Rightarrow> int \<Rightarrow> u8 list" where
  "strrev_loop s beg en =
     (if beg < en
      then strrev_loop (s[nat en := s ! nat beg, nat beg := s ! nat en]) (beg + 1) (en - 1)
      else s)"
  by pat_completeness auto
termination
  by (relation "measure (\<lambda>(s, beg, en). nat (en - beg))") auto

declare strrev_loop.simps [simp del]

definition strrev :: "u8 list \<Rightarrow> u8 list option" where
  "strrev s = map_option (\<lambda>n. strrev_loop s 0 (int n - 1)) (strlen s)"

text \<open>The loop reverses the window \<open>beg .. en\<close> and leaves the rest alone.\<close>

lemma swap_ends:
  "(xs @ (a # ms @ [b]) @ zs)[Suc (length xs + length ms) := a, length xs := b]
   = (xs @ [b]) @ ms @ (a # zs)"
  by (induction xs) (simp_all add: list_update_append)

lemma nth_ends:
  "(xs @ (a # ms @ [b]) @ zs) ! length xs = a"
  "(xs @ (a # ms @ [b]) @ zs) ! Suc (length xs + length ms) = b"
  by (induction xs) (simp_all add: nth_append)

lemma strrev_loop_step:
  "strrev_loop (xs @ (a # ms @ [b]) @ zs) (int (length xs)) (int (length xs + length (a # ms @ [b])) - 1)
   = strrev_loop ((xs @ [b]) @ ms @ (a # zs)) (int (length (xs @ [b])))
       (int (length (xs @ [b]) + length ms) - 1)"
proof -
  let ?s = "xs @ (a # ms @ [b]) @ zs" let ?i = "length xs" let ?j = "Suc (length xs + length ms)"
  have "int ?i < int ?j" by simp
  then have "strrev_loop ?s (int ?i) (int ?j)
      = strrev_loop (?s[nat (int ?j) := ?s ! nat (int ?i), nat (int ?i) := ?s ! nat (int ?j)])
          (int ?i + 1) (int ?j - 1)"
    by (subst strrev_loop.simps) (rule if_P)
  also have "\<dots> = strrev_loop ((xs @ [b]) @ ms @ (a # zs)) (int ?i + 1) (int ?j - 1)"
    unfolding nat_int nth_ends swap_ends ..
  finally show ?thesis by (simp add: add.commute)
qed

lemma strrev_loop_window:
  "strrev_loop (xs @ ys @ zs) (int (length xs)) (int (length xs + length ys) - 1)
   = xs @ rev ys @ zs"
proof (induction "length ys" arbitrary: xs ys zs rule: less_induct)
  case less
  show ?case
  proof (cases "length ys < 2")
    case True
    then have "\<not> int (length xs) < int (length xs + length ys) - 1" and "rev ys = ys"
      by (simp, cases ys) auto
    then show ?thesis by (subst strrev_loop.simps) (simp only: if_False)
  next
    case False
    then obtain a t where t: "ys = a # t" and "t \<noteq> []"
      by (cases ys; cases "tl ys") auto
    then obtain ms b where "t = ms @ [b]" by (cases t rule: rev_cases) auto
    with t have ys: "ys = a # ms @ [b]" by simp
    have "strrev_loop ((xs @ [b]) @ ms @ (a # zs)) (int (length (xs @ [b])))
        (int (length (xs @ [b]) + length ms) - 1) = (xs @ [b]) @ rev ms @ (a # zs)"
      by (rule less) (simp add: ys)
    with strrev_loop_step [of xs a ms b zs] show ?thesis unfolding ys by simp
  qed
qed

lemma strrev_spec: "0 \<notin> set s \<Longrightarrow> strrev (s @ 0 # rest) = Some (rev s @ 0 # rest)"
  using strrev_loop_window [of "[]" s "0 # rest"] strlen_text [of "s @ 0 # rest"]
  by (simp add: strrev_def)

section \<open>itoa: numbers in a given radix\<close>

definition digit_lookup :: "u8 list" where
  "digit_lookup = cstr ''0123456789ABCDEFGHIJKLMNOPQRSTUVWXYZ''"

text \<open>The conversion loop writes the digits, lowest place first, then the terminating NUL.  A zero radix
  traps, a remainder past the digit table reads outside it; a radix of 1 never
  stops and so runs off the end of any buffer.\<close>

fun itoa_loop :: "nat \<Rightarrow> nat \<Rightarrow> u8 list \<Rightarrow> u8 list option" where
  "itoa_loop newval radix [] = None"
| "itoa_loop newval radix (d # newbuf) =
     (if 0 < newval
      then (if radix = 0 \<or> length digit_lookup \<le> newval mod radix then None
            else map_option ((#) (digit_lookup ! (newval mod radix)))
                   (itoa_loop (newval div radix) radix newbuf))
      else Some (0 # newbuf))"

definition itoa :: "nat \<Rightarrow> u8 list \<Rightarrow> nat \<Rightarrow> u8 list option" where
  "itoa value buf radix =
     (if value = 0
      then Option.bind (store buf 0 48) (\<lambda>b. store b 1 0)
      else Option.bind (itoa_loop value radix buf) strrev)"

text \<open>The numeral the caller expects: its digits from the highest place down, and the number a
  digit string denotes.\<close>

fun low_digits :: "nat \<Rightarrow> nat \<Rightarrow> nat list" where
  "low_digits r v = (if r < 2 \<or> v = 0 then [] else (v mod r) # low_digits r (v div r))"

declare low_digits.simps [simp del]

definition numeral_of :: "nat \<Rightarrow> nat \<Rightarrow> u8 list" where
  "numeral_of r v = (if v = 0 then [48] else map ((!) digit_lookup) (rev (low_digits r v)))"

definition digit_value :: "u8 \<Rightarrow> nat" where
  "digit_value c = (if unat c < 58 then unat c - 48 else unat c - 55)"

definition parse_numeral :: "nat \<Rightarrow> u8 list \<Rightarrow> nat" where
  "parse_numeral r ds = foldl (\<lambda>v c. v * r + digit_value c) 0 ds"

lemma digit_lookup_simps:
  "length digit_lookup = 37"
  "digit_lookup = [48,49,50,51,52,53,54,55,56,57,65,66,67,68,69,70,71,72,73,74,75,76,77,78,
     79,80,81,82,83,84,85,86,87,88,89,90,0]"
  by (simp_all add: digit_lookup_def cstr_def str_def)

lemma digit_lookup_table:
  "list_all (\<lambda>d. digit_lookup ! d \<noteq> 0 \<and> digit_value (digit_lookup ! d) = d) [0..<36]"
  by code_simp

lemma digit_lookup_nonzero: "d < 36 \<Longrightarrow> digit_lookup ! d \<noteq> 0"
  using digit_lookup_table by (simp add: list_all_iff)

lemma digit_value_lookup: "d < 36 \<Longrightarrow> digit_value (digit_lookup ! d) = d"
  using digit_lookup_table by (simp add: list_all_iff)

lemma low_digits_bound: "2 \<le> r \<Longrightarrow> d \<in> set (low_digits r v) \<Longrightarrow> d < r"
  by (induction r v rule: low_digits.induct)
     (subst (asm) low_digits.simps, auto split: if_splits)

lemma low_digits_value:
  "2 \<le> r \<Longrightarrow> foldr (\<lambda>d v. d + v * r) (low_digits r v) 0 = v"
proof (induction r v rule: low_digits.induct)
  case (1 r v)
  then show ?case
    by (cases "v = 0") (simp_all add: low_digits.simps [of r v] low_digits.simps [of r 0])
qed

lemma low_digits_length: "2 \<le> r \<Longrightarrow> v < 2 ^ n \<Longrightarrow> length (low_digits r v) \<le> n"
proof (induction n arbitrary: v)
  case 0
  then show ?case by (simp add: low_digits.simps)
next
  case (Suc n)
  have "v div r < 2 ^ n"
  proof -
    have "v div r \<le> v div 2" using Suc.prems(1) by (intro div_le_mono2) auto
    also have "\<dots> < 2 ^ n" using Suc.prems(2) by auto
    finally show ?thesis .
  qed
  then have "length (low_digits r (v div r)) \<le> n" by (rule Suc.IH [OF Suc.prems(1)])
  then show ?case by (subst low_digits.simps) auto
qed

lemma itoa_loop_spec:
  assumes "2 \<le> r" and "r \<le> 36" and "length (low_digits r v) < length buf"
  shows "itoa_loop v r buf = Some (map ((!) digit_lookup) (low_digits r v)
     @ 0 # drop (Suc (length (low_digits r v))) buf)"
  using assms
proof (induction v r buf rule: itoa_loop.induct)
  case (2 v r d buf)
  show ?case
  proof (cases "v = 0")
    case True
    then show ?thesis by (simp add: low_digits.simps)
  next
    case False
    have "v mod r < r" using 2(2) by simp
    with 2(3) have lt: "v mod r < 36" by simp
    from False 2 have "low_digits r v = v mod r # low_digits r (v div r)"
      by (subst low_digits.simps) simp
    with 2 False lt show ?thesis by (simp add: digit_lookup_simps(1))
  qed
qed simp

lemma itoa_correct:
  assumes "2 \<le> r" and "r \<le> 36" and "v < 2 ^ 32" and "33 \<le> length buf"
  shows "itoa v buf r = Some (numeral_of r v @ 0 # drop (Suc (length (numeral_of r v))) buf)"
proof (cases "v = 0")
  case True
  obtain b0 b1 bs where "buf = b0 # b1 # bs"
    using assms(4) by (cases buf; cases "tl buf") auto
  with True show ?thesis by (simp add: itoa_def numeral_of_def store_def)
next
  case False
  have len: "length (low_digits r v) < length buf"
    using low_digits_length [OF assms(1,3)] assms(4) by linarith
  have "0 \<notin> set (map ((!) digit_lookup) (low_digits r v))"
    using low_digits_bound [OF assms(1)] assms(2) digit_lookup_nonzero by fastforce
  from strrev_spec [OF this] show ?thesis
    using False itoa_loop_spec [OF assms(1,2) len]
    by (simp add: itoa_def numeral_of_def rev_map)
qed

lemma foldl_rev_digits:
  "foldl (\<lambda>v c. v * r + digit_value c) 0 (rev (map ((!) digit_lookup) ds))
   = foldr (\<lambda>d v. v * r + digit_value (digit_lookup ! d)) ds 0"
  by (induction ds) simp_all

lemma parse_numeral_of:
  assumes "2 \<le> r" and "r \<le> 36"
  shows "parse_numeral r (numeral_of r v) = v"
proof (cases "v = 0")
  case True
  then show ?thesis by (simp add: parse_numeral_def numeral_of_def digit_value_def)
next
  case False
  have "foldr (\<lambda>d v. v * r + digit_value (digit_lookup ! d)) ds 0 = foldr (\<lambda>d v. d + v * r) ds 0"
    if "\<forall>d \<in> set ds. d < 36" for ds
    using that by (induction ds) (simp_all add: digit_value_lookup)
  moreover have "\<forall>d \<in> set (low_digits r v). d < 36"
    using low_digits_bound [OF assms(1)] assms(2) by fastforce
  ultimately show ?thesis
    using False low_digits_value [OF assms(1)]
    by (simp add: parse_numeral_def numeral_of_def foldl_rev_digits del: rev_map flip: rev_map)
qed

lemma numeral_of_length: "2 \<le> r \<Longrightarrow> v < 2 ^ 32 \<Longrightarrow> length (numeral_of r v) \<le> 32"
  using low_digits_length [of r v 32] by (simp add: numeral_of_def)

lemma numeral_of_nonzero: "2 \<le> r \<Longrightarrow> r \<le> 36 \<Longrightarrow> 0 \<notin> set (numeral_of r v)"
  using low_digits_bound [of r _ v] digit_lookup_nonzero
  by (auto simp: numeral_of_def) (metis order.strict_trans2)

end
