(* ===== verification/KState.thy ===== *)
theory KState
  imports CString
begin

text \<open>
  The state of the kernel (\<open>student-distrib\<close>): the structs of \<open>types.h\<close> and \<open>x86_desc.h\<close> as
  records, the kernel's globals as one record, and the accesses every component uses (memory
  through the user page, port input and output, the interrupt flag, the current terminal).

  The arrays of the kernel are functions on \<open>int\<close>; an operation that is given an index tests it
  where the source does.  Buffers a caller can overrun (the typing buffer, the argument buffers)
  are lists with checked accesses.  The PCBs lie in the kernel page at fixed addresses and are kept
  apart from the byte memory, as are the page tables.
\<close>

section \<open>Structs\<close>

datatype fops_t = File_fops | Dir_fops | Rtc_fops | Stdin_fops | Stdout_fops

record fd_t =
  db_num :: int
  byte_num :: int
  inode :: int
  fops :: "fops_t option"
  flags :: int

definition empty_fd :: fd_t where
  "empty_fd = \<lparr>db_num = 0, byte_num = 0, inode = 0, fops = None, flags = 0\<rparr>"

record pcb_t =
  p_active :: int
  curr_pid :: int
  parent_pid :: int
  fda :: "int \<Rightarrow> fd_t"
  p_arg :: "u8 list"
  p_cmd :: "u8 list"
  p_esp :: int
  p_ebp :: int
  parent_esp :: int
  parent_ebp :: int

record term_t =
  screen_x :: int
  screen_y :: int
  typing_buf :: "u8 list"
  typing_buf_idx :: int
  t_active :: int
  vidmem :: int
  top_pid :: int
  enter_pressed :: int

record dentry_t =
  d_fname :: int
  d_ftype :: int
  d_inode :: int

record bootBlock_t =
  addr :: int
  dir_count :: int
  inode_count :: int
  data_count :: int

text \<open>An IDT gate: the bit-fields \<open>idt_setup\<close> writes, and the handler its offset points at.\<close>

datatype handler_t = Intr nat | Irq nat | Syscall

record idt_desc_t =
  g_present :: int
  g_reserved4 :: int
  g_reserved0 :: int
  g_reserved1 :: int
  g_reserved2 :: int
  g_reserved3 :: int
  g_size :: int
  g_dpl :: int
  g_selector :: int
  g_handler :: "handler_t option"

section \<open>The kernel's globals\<close>

record kernel =
  mem :: memory
  ports :: "(int \<times> u8) list"
  pin :: "(int \<times> u8) list \<Rightarrow> int \<Rightarrow> u8"
  iflag :: bool
  terminals :: "int \<Rightarrow> term_t"
  currentTerminal :: int
  pcbarray :: "int \<Rightarrow> pcb_t"
  curr_pcb :: int
  bootBlock :: bootBlock_t
  master_mask :: u8
  slave_mask :: u8
  interrupt_count :: int
  rtc_interrupt_occurred :: int
  kb_map_state :: "int \<Rightarrow> int"
  caps_locked :: int
  caps_released :: int
  page_directory :: "int \<Rightarrow> 32 word"
  page_table :: "int \<Rightarrow> 32 word"
  first_page_table :: "int \<Rightarrow> 32 word"
  page_table_addr :: int
  first_page_table_addr :: int
  idt :: "int \<Rightarrow> idt_desc_t"
  tss_esp0 :: int
  tss_ss0 :: int
  retval :: int
  cpu_esp :: int
  cpu_ebp :: int

section \<open>Processor: interrupt flag and ports\<close>

definition cli :: "kernel \<Rightarrow> kernel" where
  "cli s = s\<lparr>iflag := False\<rparr>"

definition sti :: "kernel \<Rightarrow> kernel" where
  "sti s = s\<lparr>iflag := True\<rparr>"

text \<open>The trace of port writes, newest last; a port read answers from the device's function of
  that trace.\<close>

definition outb :: "u8 \<Rightarrow> int \<Rightarrow> kernel \<Rightarrow> kernel" where
  "outb d p s = s\<lparr>ports := ports s @ [(p, d)]\<rparr>"

definition inb :: "kernel \<Rightarrow> int \<Rightarrow> u8" where
  "inb s p = pin s (ports s) p"

section \<open>Memory through the user page\<close>

text \<open>Constants of \<open>systemcall.h\<close> and \<open>paging.h\<close>.\<close>

abbreviation (input) "PHYS8MB \<equiv> 0x800000 :: int"
abbreviation (input) "PHYS4MB \<equiv> 0x400000 :: int"
abbreviation (input) "USER_VIRTUAL \<equiv> 0x8000000 :: int"
abbreviation (input) "IMG_OFFSET \<equiv> 0x48000 :: int"
abbreviation (input) "USER_SP_VIRTUAL \<equiv> 0x83FFFFC :: int"
abbreviation (input) "P0KESP \<equiv> 0x7FFFFC :: int"
abbreviation (input) "OFFSET8KB \<equiv> 0x10000 :: int"
abbreviation (input) "PHYS_BASE_ADDR \<equiv> 2 :: int"
abbreviation (input) "USER_VIDMAP \<equiv> 0x8800000 :: int"
abbreviation (input) "VIDEO \<equiv> 0xB8000 :: int"
abbreviation (input) "FOURKB \<equiv> 4096 :: int"
abbreviation (input) "NAME_LEN \<equiv> 122 :: int"
abbreviation (input) "CHAR_LIM \<equiv> 122 :: int"
abbreviation (input) "SIZEOF_FDA \<equiv> 8 :: int"
abbreviation (input) "NUM_PROC \<equiv> 6 :: int"

text \<open>The \<open>PB_addr\<close> field of a 4 MB entry, and the physical address behind a virtual one: the user
  window at 128 MB goes to the page that entry 32 names, the kernel's own pages are mapped to
  themselves (\<open>Paging\<close> derives this from the tables).\<close>

definition user_page :: "kernel \<Rightarrow> int" where
  "user_page s = uint (bf_get 22 10 (page_directory s 32))"

definition vaddr :: "kernel \<Rightarrow> int \<Rightarrow> int" where
  "vaddr s a = (if USER_VIRTUAL \<le> a \<and> a < USER_VIRTUAL + PHYS4MB
     then user_page s * PHYS4MB + (a - USER_VIRTUAL) else a)"

definition peek :: "kernel \<Rightarrow> int \<Rightarrow> u8" where
  "peek s a = mem s (vaddr s a)"

definition poke :: "int \<Rightarrow> u8 \<Rightarrow> kernel \<Rightarrow> kernel" where
  "poke a b s = s\<lparr>mem := (mem s)(vaddr s a := b)\<rparr>"

text \<open>A loop of one-byte copies, \<open>memcpy(buf, src, 1)\<close> or an assignment, in ascending order.\<close>

primrec copy_virt :: "nat \<Rightarrow> int \<Rightarrow> int \<Rightarrow> kernel \<Rightarrow> kernel" where
  "copy_virt 0 dst src s = s"
| "copy_virt (Suc n) dst src s = copy_virt n (dst + 1) (src + 1) (poke dst (peek s src) s)"

primrec poke_list :: "int \<Rightarrow> u8 list \<Rightarrow> kernel \<Rightarrow> kernel" where
  "poke_list a [] s = s"
| "poke_list a (b # bs) s = poke_list (a + 1) bs (poke a b s)"

section \<open>The current terminal and process\<close>

definition cur_term :: "kernel \<Rightarrow> term_t" where
  "cur_term s = terminals s (currentTerminal s)"

definition upd_term :: "(term_t \<Rightarrow> term_t) \<Rightarrow> kernel \<Rightarrow> kernel" where
  "upd_term f s = s\<lparr>terminals := (terminals s)(currentTerminal s := f (cur_term s))\<rparr>"

definition cur_proc :: "kernel \<Rightarrow> pcb_t" where
  "cur_proc s = pcbarray s (curr_pcb s)"

definition upd_pcb :: "int \<Rightarrow> (pcb_t \<Rightarrow> pcb_t) \<Rightarrow> kernel \<Rightarrow> kernel" where
  "upd_pcb i f s = s\<lparr>pcbarray := (pcbarray s)(i := f (pcbarray s i))\<rparr>"

definition upd_fd :: "int \<Rightarrow> (fd_t \<Rightarrow> fd_t) \<Rightarrow> kernel \<Rightarrow> kernel" where
  "upd_fd fd f s = upd_pcb (curr_pcb s) (\<lambda>p. p\<lparr>fda := (fda p)(fd := f (fda p fd))\<rparr>) s"

definition cur_fd :: "kernel \<Rightarrow> int \<Rightarrow> fd_t" where
  "cur_fd s fd = fda (cur_proc s) fd"

lemmas k_access [defs] = cli_def sti_def outb_def inb_def cur_term_def upd_term_def
  cur_proc_def upd_pcb_def upd_fd_def cur_fd_def

section \<open>Reads after writes\<close>

text \<open>The addresses the kernel uses: its own 8 MB, mapped to themselves, and the user window.  The
  window's page lies above the kernel's when its number is at least 2, and then distinct addresses
  are distinct bytes.\<close>

definition addr_ok :: "int \<Rightarrow> bool" where
  "addr_ok a \<longleftrightarrow> 0 \<le> a \<and> a < PHYS8MB \<or> USER_VIRTUAL \<le> a \<and> a < USER_VIRTUAL + PHYS4MB"

definition user_range :: "int \<Rightarrow> int \<Rightarrow> bool" where
  "user_range a n \<longleftrightarrow> USER_VIRTUAL \<le> a \<and> a + n \<le> USER_VIRTUAL + PHYS4MB"

definition kernel_range :: "int \<Rightarrow> int \<Rightarrow> bool" where
  "kernel_range a n \<longleftrightarrow> 0 \<le> a \<and> a + n \<le> PHYS8MB"

lemma vaddr_inj: "2 \<le> user_page s \<Longrightarrow> addr_ok a \<Longrightarrow> addr_ok b \<Longrightarrow> vaddr s a = vaddr s b \<longleftrightarrow> a = b"
  by (auto simp: addr_ok_def vaddr_def)

lemma user_page_cong: "page_directory s 32 = page_directory t 32 \<Longrightarrow> user_page s = user_page t"
  by (simp add: user_page_def)

lemma vaddr_cong: "page_directory s 32 = page_directory t 32 \<Longrightarrow> vaddr s = vaddr t"
  by (rule ext) (simp add: vaddr_def user_page_def)

lemma poke_frame: "poke a b s = s\<lparr>mem := mem (poke a b s)\<rparr>"
  by (simp add: poke_def)

lemma poke_simps [simp]:
  "page_directory (poke a b s) = page_directory s" "bootBlock (poke a b s) = bootBlock s"
  "pcbarray (poke a b s) = pcbarray s" "curr_pcb (poke a b s) = curr_pcb s"
  "terminals (poke a b s) = terminals s" "currentTerminal (poke a b s) = currentTerminal s"
  "user_page (poke a b s) = user_page s" "vaddr (poke a b s) = vaddr s"
  "cur_fd (poke a b s) = cur_fd s"
  by (simp_all add: poke_def user_page_def fun_eq_iff vaddr_def cur_fd_def cur_proc_def)

lemma peek_poke:
  "2 \<le> user_page s \<Longrightarrow> addr_ok a \<Longrightarrow> addr_ok x \<Longrightarrow>
   peek (poke a b s) x = (if x = a then b else peek s x)"
  using vaddr_inj [of s x a] by (simp add: peek_def) (auto simp: poke_def)

lemma copy_virt_frame: "copy_virt n dst src s = s\<lparr>mem := mem (copy_virt n dst src s)\<rparr>"
proof (induction n arbitrary: dst src s)
  case (Suc n)
  show ?case
    using Suc.IH [of "dst + 1" "src + 1" "poke dst (peek s src) s"]
    by (simp add: poke_def)
qed simp

lemma copy_virt_simps [simp]:
  "page_directory (copy_virt n dst src s) = page_directory s" "bootBlock (copy_virt n dst src s) = bootBlock s"
  "pcbarray (copy_virt n dst src s) = pcbarray s" "curr_pcb (copy_virt n dst src s) = curr_pcb s"
  "user_page (copy_virt n dst src s) = user_page s" "cur_fd (copy_virt n dst src s) = cur_fd s"
  by (subst copy_virt_frame; simp add: user_page_def fun_eq_iff cur_fd_def cur_proc_def)+

text \<open>Copying out of the kernel's pages into the user window.\<close>

lemma peek_copy_virt:
  assumes "2 \<le> user_page s" and "user_range dst (int n)" and "kernel_range src (int n)" and "addr_ok x"
  shows "peek (copy_virt n dst src s) x
    = (if dst \<le> x \<and> x < dst + int n then peek s (src + (x - dst)) else peek s x)"
  using assms
proof (induction n arbitrary: dst src s)
  case 0
  then show ?case by auto
next
  case (Suc n)
  let ?t = "poke dst (peek s src) s"
  have ok: "addr_ok dst" using Suc.prems by (simp add: addr_ok_def user_range_def)
  have pk: "peek ?t y = (if y = dst then peek s src else peek s y)" if "addr_ok y" for y
    using peek_poke [OF Suc.prems(1) ok that] .
  have "peek (copy_virt n (dst + 1) (src + 1) ?t) x
      = (if dst + 1 \<le> x \<and> x < dst + 1 + int n then peek ?t (src + 1 + (x - (dst + 1))) else peek ?t x)"
    by (rule Suc.IH) (use Suc.prems in \<open>simp_all add: user_range_def kernel_range_def\<close>)
  moreover have "addr_ok (src + (x - dst)) \<and> src + (x - dst) \<noteq> dst" if "dst < x" "x < dst + 1 + int n"
    using that Suc.prems by (simp add: addr_ok_def user_range_def kernel_range_def)
  ultimately show ?case
    using pk [OF Suc.prems(4)] pk [of "src + (x - dst)"] by auto
qed

lemma le32_cong:
  assumes "\<And>i. 0 \<le> i \<Longrightarrow> i < 4 \<Longrightarrow> m (a + i) = m' (a + i)"
  shows "le32 m a = le32 m' a"
  using assms [of 0] assms [of 1] assms [of 2] assms [of 3] by (simp add: le32_def)

lemma region_cong: "(\<And>i. i < n \<Longrightarrow> m (a + int i) = m' (a + int i)) \<Longrightarrow> region m a n = region m' a n"
  by (simp add: region_def)

end
