(* ===== verification/Console.thy ===== *)
theory Console
  imports KState
begin

text \<open>
  The text console of \<open>lib.c\<close>: \<open>clear\<close>, \<open>putc\<close>, \<open>scroll_down\<close>, \<open>print_backspace\<close>, \<open>set_cursor\<close>,
  \<open>puts\<close> and \<open>printf\<close>, on the video memory at \<open>0xB8000\<close> and the cursor of the current terminal.
  The abstract console is a list of rows with a cursor; \<open>putc\<close> and \<open>print_backspace\<close> refine it.
\<close>

section \<open>Video memory and the cursor\<close>

abbreviation (input) "NUM_COLS \<equiv> 80 :: int"
abbreviation (input) "NUM_ROWS \<equiv> 25 :: int"
abbreviation (input) "ATTRIB \<equiv> 7 :: u8"

definition set_cursor :: "int \<Rightarrow> int \<Rightarrow> kernel \<Rightarrow> kernel" where
  "set_cursor col row s = (let pos = (row * NUM_COLS + col) mod 2 ^ 16 in
     outb (word_of_int (pos div 256)) 0x3D5 (outb 0x0E 0x3D4
       (outb (word_of_int pos) 0x3D5 (outb 0x0F 0x3D4 s))))"

definition put_cell :: "int \<Rightarrow> u8 \<Rightarrow> memory \<Rightarrow> memory" where
  "put_cell i c m = m(VIDEO + 2 * i := c, VIDEO + 2 * i + 1 := ATTRIB)"

definition clear :: "kernel \<Rightarrow> kernel" where
  "clear s =
     (let s = s\<lparr>mem := fold (\<lambda>i. put_cell (int i) 32) [0..<2000] (mem s)\<rparr>;
          s = upd_term (\<lambda>t. t\<lparr>screen_x := 0, screen_y := 0\<rparr>) s
      in set_cursor (screen_x (cur_term s)) (screen_y (cur_term s)) s)"

definition scroll_cell :: "nat \<Rightarrow> memory \<Rightarrow> memory" where
  "scroll_cell i m =
     (if (NUM_ROWS - 1) * NUM_COLS \<le> int i then put_cell (int i) 32 m
      else put_cell (int i) (m (VIDEO + 2 * int i + NUM_COLS * 2)) m)"

definition scroll_down :: "kernel \<Rightarrow> kernel" where
  "scroll_down s = upd_term (\<lambda>t. t\<lparr>screen_y := screen_y t - 1\<rparr>)
     (s\<lparr>mem := fold scroll_cell [0..<2000] (mem s)\<rparr>)"

definition putc :: "u8 \<Rightarrow> kernel \<Rightarrow> kernel" where
  "putc c s =
     (let s =
       (if c = 10 \<or> c = 13
        then (let s = upd_term (\<lambda>t. t\<lparr>screen_y := screen_y t + 1, screen_x := 0\<rparr>) s
              in if NUM_ROWS - 1 < screen_y (cur_term s) then scroll_down s else s)
        else
          (let s = cli s;
               s = s\<lparr>mem := put_cell (NUM_COLS * screen_y (cur_term s) + screen_x (cur_term s)) c (mem s)\<rparr>;
               s = sti s;
               s = upd_term (\<lambda>t. t\<lparr>screen_x := screen_x t + 1\<rparr>) s
           in if screen_x (cur_term s) = NUM_COLS
              then (let s = upd_term (\<lambda>t. t\<lparr>screen_x := 0, screen_y := screen_y t + 1\<rparr>) s
                    in if NUM_ROWS - 1 < screen_y (cur_term s) then scroll_down s else s)
              else s))
      in set_cursor (screen_x (cur_term s)) (screen_y (cur_term s)) s)"

definition print_backspace :: "kernel \<Rightarrow> kernel" where
  "print_backspace s =
     (let s = upd_term (\<lambda>t. t\<lparr>screen_x := screen_x t - 1\<rparr>) s;
          s = (if screen_x (cur_term s) < 0
               then (let s = upd_term (\<lambda>t. t\<lparr>screen_x := NUM_COLS - 1, screen_y := screen_y t - 1\<rparr>) s
                     in if screen_y (cur_term s) < 0
                        then upd_term (\<lambda>t. t\<lparr>screen_y := 0, screen_x := 0\<rparr>) s else s)
               else s);
          s = s\<lparr>mem := put_cell (NUM_COLS * screen_y (cur_term s) + screen_x (cur_term s)) 32 (mem s)\<rparr>
      in set_cursor (screen_x (cur_term s)) (screen_y (cur_term s)) s)"

definition test_interrupts :: "kernel \<Rightarrow> kernel" where
  "test_interrupts s = s\<lparr>mem := fold (\<lambda>i m. m(VIDEO + 2 * int i := m (VIDEO + 2 * int i) + 1))
     [0..<2000] (mem s)\<rparr>"

section \<open>puts and printf\<close>

fun puts_from :: "int \<Rightarrow> u8 list \<Rightarrow> kernel \<Rightarrow> (int \<times> kernel) option" where
  "puts_from index [] s = None"
| "puts_from index (c # bs) s =
     (if c = 0 then Some (index, s) else puts_from (index + 1) bs (putc c s))"

definition puts :: "u8 list \<Rightarrow> kernel \<Rightarrow> (int \<times> kernel) option" where
  "puts bs s = puts_from 0 bs s"

text \<open>The variable arguments: integers, or pointers to strings.\<close>

datatype parg = PInt int | PStr "u8 list"

text \<open>\<open>%#x\<close>: the digits go to \<open>conv_buf[8..]\<close>, zeroes fill the places from the number of digits
  up to 8.  \<open>conv\<close> is the uninitialised local buffer.\<close>

definition conv_alternate :: "u8 list \<Rightarrow> int \<Rightarrow> u8 list option" where
  "conv_alternate conv v =
     Option.bind (itoa (nat (u32 v)) (drop 8 conv) 16) (\<lambda>tail.
     Option.bind (strlen tail) (\<lambda>starting_index.
       let conv = take 8 conv @ tail;
           conv = fold (\<lambda>i conv. conv[i := 48]) [starting_index..<8] conv
       in Some (drop starting_index conv)))"

definition conv_signed :: "u8 list \<Rightarrow> int \<Rightarrow> u8 list option" where
  "conv_signed conv v =
     (let value = s32 v in
      if value < 0
      then map_option ((#) 45) (itoa (nat (u32 (- value))) (drop 1 conv) 10)
      else itoa (nat (u32 value)) conv 10)"

definition uninit :: "nat \<Rightarrow> u8 list" where
  "uninit n = replicate n 0xCC"

text \<open>One conversion: the character after \<open>%\<close> (and \<open>#\<close>), the remaining arguments and the state.\<close>

definition convert :: "bool \<Rightarrow> u8 \<Rightarrow> parg list \<Rightarrow> kernel \<Rightarrow> (parg list \<times> kernel) option" where
  "convert alternate c args s =
     (if c = 37 then Some (args, putc 37 s)
      else if c = 120 then
        (case args of
           PInt v # args \<Rightarrow>
             Option.bind (if alternate then conv_alternate (uninit 64) v
                          else itoa (nat (u32 v)) (uninit 64) 16) (\<lambda>b.
             map_option (\<lambda>(_, s). (args, s)) (puts b s))
         | _ \<Rightarrow> None)
      else if c = 117 then
        (case args of
           PInt v # args \<Rightarrow> Option.bind (itoa (nat (u32 v)) (uninit 36) 10) (\<lambda>b.
             map_option (\<lambda>(_, s). (args, s)) (puts b s))
         | _ \<Rightarrow> None)
      else if c = 100 then
        (case args of
           PInt v # args \<Rightarrow> Option.bind (conv_signed (uninit 36) v) (\<lambda>b.
             map_option (\<lambda>(_, s). (args, s)) (puts b s))
         | _ \<Rightarrow> None)
      else if c = 99 then
        (case args of PInt v # args \<Rightarrow> Some (args, putc (word_of_int v) s) | _ \<Rightarrow> None)
      else if c = 115 then
        (case args of PStr t # args \<Rightarrow> map_option (\<lambda>(_, s). (args, s)) (puts t s) | _ \<Rightarrow> None)
      else Some (args, s))"

text \<open>The format loop; \<open>Some alternate\<close> while a conversion is being read.  Its result is the distance
  the format pointer moved.\<close>

fun printf_loop ::
  "bool option \<Rightarrow> u8 list \<Rightarrow> parg list \<Rightarrow> int \<Rightarrow> kernel \<Rightarrow> (int \<times> kernel) option" where
  "printf_loop md [] args n s = None"
| "printf_loop None (c # fmt) args n s =
     (if c = 0 then Some (n, s)
      else if c = 37 then printf_loop (Some False) fmt args (n + 1) s
      else printf_loop None fmt args (n + 1) (putc c s))"
| "printf_loop (Some alternate) (c # fmt) args n s =
     (if c = 35 then printf_loop (Some True) fmt args (n + 1) s
      else case convert alternate c args s of
             None \<Rightarrow> None
           | Some (args, s) \<Rightarrow> printf_loop None fmt args (n + 1) s)"

definition printf :: "u8 list \<Rightarrow> parg list \<Rightarrow> kernel \<Rightarrow> (int \<times> kernel) option" where
  "printf fmt args s = printf_loop None fmt args 0 s"

text \<open>A message without conversions, as the kernel's handlers print them.\<close>

definition print_msg :: "string \<Rightarrow> kernel \<Rightarrow> kernel" where
  "print_msg msg s = fold putc (str msg) s"

section \<open>What the console leaves alone\<close>

text \<open>A console operation changes memory, the port trace, the interrupt flag and the cursor of the
  current terminal.\<close>

definition console_frame :: "kernel \<Rightarrow> kernel \<Rightarrow> bool" where
  "console_frame s s' \<longleftrightarrow>
     s' = s\<lparr>mem := mem s', ports := ports s', iflag := iflag s',
       terminals := (terminals s)(currentTerminal s :=
         (cur_term s)\<lparr>screen_x := screen_x (cur_term s'), screen_y := screen_y (cur_term s')\<rparr>)\<rparr>"

lemma console_frame_refl [simp]: "console_frame s s"
  by (simp add: console_frame_def cur_term_def)

lemma console_frame_trans:
  assumes "console_frame s t" and "console_frame t u"
  shows "console_frame s u"
proof -
  obtain m p i x y where t: "t = s\<lparr>mem := m, ports := p, iflag := i,
      terminals := (terminals s)(currentTerminal s := (cur_term s)\<lparr>screen_x := x, screen_y := y\<rparr>)\<rparr>"
    using assms(1) unfolding console_frame_def by blast
  have "u = t\<lparr>mem := mem u, ports := ports u, iflag := iflag u, terminals := (terminals t)
      (currentTerminal t := (cur_term t)\<lparr>screen_x := screen_x (cur_term u), screen_y := screen_y (cur_term u)\<rparr>)\<rparr>"
    using assms(2) unfolding console_frame_def .
  then show ?thesis
    unfolding console_frame_def by (simp add: t cur_term_def)
qed

text \<open>Each step extends a frame: a chain of steps is framed by resolution.\<close>

lemma console_frame_mem: "console_frame s t \<Longrightarrow> console_frame s (t\<lparr>mem := m\<rparr>)"
  by (erule console_frame_trans) (simp add: console_frame_def cur_term_def)

lemma console_frame_outb: "console_frame s t \<Longrightarrow> console_frame s (outb d p t)"
  by (erule console_frame_trans) (simp add: console_frame_def cur_term_def outb_def)

lemma console_frame_cli: "console_frame s t \<Longrightarrow> console_frame s (cli t)"
  by (erule console_frame_trans) (simp add: console_frame_def cur_term_def cli_def)

lemma console_frame_sti: "console_frame s t \<Longrightarrow> console_frame s (sti t)"
  by (erule console_frame_trans) (simp add: console_frame_def cur_term_def sti_def)

lemma console_frame_cursor:
  assumes "\<And>t. f t = t\<lparr>screen_x := screen_x (f t), screen_y := screen_y (f t)\<rparr>"
    and "console_frame s t"
  shows "console_frame s (upd_term f t)"
proof (rule console_frame_trans [OF assms(2)])
  show "console_frame t (upd_term f t)"
    using assms(1) [of "cur_term t"] by (simp add: console_frame_def cur_term_def upd_term_def)
qed

lemma console_frame_if:
  "console_frame s t \<Longrightarrow> console_frame s u \<Longrightarrow> console_frame s (if b then t else u)"
  by simp

lemmas console_frame_steps = console_frame_refl console_frame_mem console_frame_outb
  console_frame_cli console_frame_sti console_frame_if

lemma console_frame_set_cursor: "console_frame s t \<Longrightarrow> console_frame s (set_cursor x y t)"
  unfolding set_cursor_def Let_def by (intro console_frame_steps)

lemma console_frame_scroll_down: "console_frame s t \<Longrightarrow> console_frame s (scroll_down t)"
  unfolding scroll_down_def by (rule console_frame_cursor, simp) (intro console_frame_steps)

lemma console_frame_clear: "console_frame s t \<Longrightarrow> console_frame s (clear t)"
  unfolding clear_def Let_def
  by (rule console_frame_set_cursor, rule console_frame_cursor, simp) (intro console_frame_steps)

lemma console_frame_putc: "console_frame s t \<Longrightarrow> console_frame s (putc c t)"
  unfolding putc_def Let_def
  by (intro console_frame_set_cursor console_frame_steps console_frame_cursor
      console_frame_scroll_down; simp)

lemma console_frame_print_backspace: "console_frame s t \<Longrightarrow> console_frame s (print_backspace t)"
  unfolding print_backspace_def Let_def
  by (intro console_frame_set_cursor console_frame_steps console_frame_cursor; simp)

lemma console_frame_fold_putc: "console_frame s t \<Longrightarrow> console_frame s (fold putc cs t)"
  by (induction cs arbitrary: t) (simp_all add: console_frame_putc)

lemma puts_from_frame: "puts_from i bs t = Some (r, u) \<Longrightarrow> console_frame s t \<Longrightarrow> console_frame s u"
  by (induction i bs t rule: puts_from.induct) (auto split: if_splits intro: console_frame_putc)

lemma convert_frame:
  "convert alt c args t = Some (args', u) \<Longrightarrow> console_frame s t \<Longrightarrow> console_frame s u"
  unfolding convert_def puts_def
  by (auto simp: bind_eq_Some_conv intro: puts_from_frame console_frame_putc
      split: if_splits list.splits parg.splits)

lemma printf_loop_frame:
  "printf_loop md fmt args n t = Some (r, u) \<Longrightarrow> console_frame s t \<Longrightarrow> console_frame s u"
proof (induction md fmt args n t rule: printf_loop.induct)
  case (3 alt c fmt args n t)
  then show ?case
    by (cases "convert alt c args t") (auto split: if_splits dest: convert_frame)
qed (auto split: if_splits intro: console_frame_putc)

lemma printf_frame: "printf fmt args s = Some (r, u) \<Longrightarrow> console_frame s u"
  unfolding printf_def by (erule printf_loop_frame) simp

section \<open>Effect of the steps on memory and cursor\<close>

lemma outb_simps [simp]:
  "mem (outb d p s) = mem s" "terminals (outb d p s) = terminals s"
  "currentTerminal (outb d p s) = currentTerminal s" "cur_term (outb d p s) = cur_term s"
  "iflag (outb d p s) = iflag s"
  by (simp_all add: outb_def cur_term_def)

lemma flag_simps [simp]:
  "mem (cli s) = mem s" "mem (sti s) = mem s" "cur_term (cli s) = cur_term s"
  "cur_term (sti s) = cur_term s" "currentTerminal (cli s) = currentTerminal s"
  "currentTerminal (sti s) = currentTerminal s"
  by (simp_all add: cli_def sti_def cur_term_def)

lemma set_cursor_simps [simp]:
  "mem (set_cursor x y s) = mem s" "terminals (set_cursor x y s) = terminals s"
  "currentTerminal (set_cursor x y s) = currentTerminal s" "cur_term (set_cursor x y s) = cur_term s"
  "iflag (set_cursor x y s) = iflag s"
  by (simp_all add: set_cursor_def Let_def)

lemma upd_term_simps [simp]:
  "mem (upd_term f s) = mem s" "cur_term (upd_term f s) = f (cur_term s)"
  "currentTerminal (upd_term f s) = currentTerminal s" "cur_term (s\<lparr>mem := m\<rparr>) = cur_term s"
  "iflag (upd_term f s) = iflag s"
  by (simp_all add: upd_term_def cur_term_def)

lemma scroll_down_simps [simp]:
  "mem (scroll_down s) = fold scroll_cell [0..<2000] (mem s)"
  "cur_term (scroll_down s) = (cur_term s)\<lparr>screen_y := screen_y (cur_term s) - 1\<rparr>"
  "currentTerminal (scroll_down s) = currentTerminal s"
  by (simp_all add: scroll_down_def)

section \<open>The abstract console\<close>

text \<open>Rows of 80 characters and the position of the next one.\<close>

type_synonym acon = "u8 list list \<times> nat \<times> nat"

definition blank_row :: "u8 list" where
  "blank_row = replicate 80 32"

fun a_newline :: "acon \<Rightarrow> acon" where
  "a_newline (R, x, y) = (if y < 24 then (R, 0, y + 1) else (tl R @ [blank_row], 0, y))"

fun a_put :: "u8 \<Rightarrow> acon \<Rightarrow> acon" where
  "a_put c (R, x, y) = (R[y := (R ! y)[x := c]], x, y)"

fun a_putc :: "u8 \<Rightarrow> acon \<Rightarrow> acon" where
  "a_putc c (R, x, y) =
     (if c = 10 \<or> c = 13 then a_newline (R, x, y)
      else case a_put c (R, x, y) of (R, x, y) \<Rightarrow>
        if x + 1 = 80 then a_newline (R, x, y) else (R, x + 1, y))"

fun a_backspace :: "acon \<Rightarrow> acon" where
  "a_backspace (R, x, y) =
     (if 0 < x then a_put 32 (R, x - 1, y)
      else if 0 < y then a_put 32 (R, 79, y - 1) else a_put 32 (R, 0, 0))"

definition screen_rows :: "memory \<Rightarrow> u8 list list" where
  "screen_rows m = map (\<lambda>y. map (\<lambda>x. m (VIDEO + 2 * (80 * int y + int x))) [0..<80]) [0..<25]"

definition con_abs :: "kernel \<Rightarrow> acon" where
  "con_abs s = (screen_rows (mem s), nat (screen_x (cur_term s)), nat (screen_y (cur_term s)))"

definition cursor_ok :: "kernel \<Rightarrow> bool" where
  "cursor_ok s \<longleftrightarrow> 0 \<le> screen_x (cur_term s) \<and> screen_x (cur_term s) < 80
     \<and> 0 \<le> screen_y (cur_term s) \<and> screen_y (cur_term s) < 25"

lemma screen_rows_length [simp]: "length (screen_rows m) = 25"
  by (simp add: screen_rows_def)

lemma screen_rows_nth:
  "y < 25 \<Longrightarrow> screen_rows m ! y = map (\<lambda>x. m (VIDEO + 2 * (80 * int y + int x))) [0..<80]"
  by (simp add: screen_rows_def)

lemma put_cell_at:
  "put_cell i c m (VIDEO + 2 * j) = (if j = i then c else m (VIDEO + 2 * j))"
proof -
  have "VIDEO + 2 * j \<noteq> VIDEO + 2 * i + 1" by presburger
  then show ?thesis unfolding put_cell_def by auto
qed

lemma cell_index_eq:
  "i < 80 \<Longrightarrow> x < 80 \<Longrightarrow> 80 * int j + int i = 80 * int y + int x \<longleftrightarrow> j = y \<and> i = x"
  by (cases j y rule: linorder_cases) auto

lemma put_cell_rows_nat:
  assumes "x < 80"
  shows "screen_rows (put_cell (80 * int y + int x) c m)
    = (screen_rows m)[y := (screen_rows m ! y)[x := c]]"
proof (rule nth_equalityI)
  fix j assume "j < length (screen_rows (put_cell (80 * int y + int x) c m))"
  then have j: "j < 25" by simp
  have row: "screen_rows (put_cell (80 * int y + int x) c m) ! j
      = map (\<lambda>i. if j = y \<and> i = x then c else m (VIDEO + 2 * (80 * int j + int i))) [0..<80]"
    unfolding screen_rows_nth [OF j] put_cell_at
    by (rule map_cong) (simp_all only: set_upt atLeastLessThan_iff cell_index_eq assms)
  show "screen_rows (put_cell (80 * int y + int x) c m) ! j
      = (screen_rows m)[y := (screen_rows m ! y)[x := c]] ! j"
    unfolding row
    using j by (cases "j = y") (auto simp: screen_rows_nth nth_list_update intro!: nth_equalityI)
qed simp

lemma put_cell_rows:
  "0 \<le> x \<Longrightarrow> x < 80 \<Longrightarrow> 0 \<le> y \<Longrightarrow> screen_rows (put_cell (80 * y + x) c m)
    = (screen_rows m)[nat y := (screen_rows m ! nat y)[nat x := c]]"
  using put_cell_rows_nat [of "nat x" "nat y" c m] by simp

lemma scroll_cell_at:
  "fold scroll_cell [0..<n] m (VIDEO + 2 * int i)
   = (if n \<le> i then m (VIDEO + 2 * int i) else if 1920 \<le> i then 32 else m (VIDEO + 2 * int (i + 80)))"
proof (induction n arbitrary: i)
  case 0
  then show ?case by simp
next
  case (Suc n)
  have ahead: "fold scroll_cell [0..<n] m (VIDEO + 2 * int n + NUM_COLS * 2) = m (VIDEO + 2 * int (n + 80))"
    using Suc.IH [of "n + 80"] by (simp add: algebra_simps)
  have "fold scroll_cell [0..<Suc n] m (VIDEO + 2 * int i)
      = (if i = n then (if 1920 \<le> n then 32 else m (VIDEO + 2 * int (n + 80)))
         else fold scroll_cell [0..<n] m (VIDEO + 2 * int i))"
    by (simp only: upt_Suc_append le0 fold_append comp_apply fold_simps scroll_cell_def ahead)
       (simp add: put_cell_at)
  then show ?case unfolding Suc.IH by auto
qed

lemma scroll_rows: "screen_rows (fold scroll_cell [0..<2000] m) = tl (screen_rows m) @ [blank_row]"
proof (rule nth_equalityI)
  fix j assume "j < length (screen_rows (fold scroll_cell [0..<2000] m))"
  then have j: "j < 25" by simp
  have "fold scroll_cell [0..<2000] m (VIDEO + 2 * (80 * int j + int i))
      = (if j = 24 then 32 else m (VIDEO + 2 * (80 * int (Suc j) + int i)))" if "i < 80" for i
    using scroll_cell_at [of 2000 m "80 * j + i"] j that by (simp add: algebra_simps)
  then have "screen_rows (fold scroll_cell [0..<2000] m) ! j
      = map (\<lambda>i. if j = 24 then 32 else m (VIDEO + 2 * (80 * int (Suc j) + int i))) [0..<80]"
    using j by (simp only: screen_rows_nth) (rule map_cong, simp_all)
  also have "\<dots> = (tl (screen_rows m) @ [blank_row]) ! j"
    using j by (cases "j = 24")
      (auto simp: nth_append nth_tl screen_rows_nth blank_row_def map_replicate_const)
  finally show "screen_rows (fold scroll_cell [0..<2000] m) ! j = (tl (screen_rows m) @ [blank_row]) ! j" .
qed simp

lemma putc_newline_refines:
  assumes "cursor_ok s" and "c = 10 \<or> c = 13"
  shows "con_abs (putc c s) = a_newline (con_abs s) \<and> cursor_ok (putc c s)"
proof (cases "screen_y (cur_term s) < 24")
  case True
  then show ?thesis
    using assms by (auto simp: putc_def Let_def con_abs_def cursor_ok_def nat_add_distrib)
next
  case False
  then have "screen_y (cur_term s) = 24" using assms(1) by (simp add: cursor_ok_def)
  then show ?thesis
    using assms by (auto simp: putc_def Let_def con_abs_def cursor_ok_def scroll_rows)
qed

lemma putc_refines:
  assumes ok: "cursor_ok s"
  shows "con_abs (putc c s) = a_putc c (con_abs s) \<and> cursor_ok (putc c s)"
proof (cases "c = 10 \<or> c = 13")
  case True
  with putc_newline_refines [OF ok True] show ?thesis
    by (cases "con_abs s") auto
next
  case False
  let ?x = "screen_x (cur_term s)" and ?y = "screen_y (cur_term s)"
  have xy: "0 \<le> ?x" "?x < 80" "0 \<le> ?y" "?y < 25" using ok by (simp_all add: cursor_ok_def)
  note rows = put_cell_rows [OF xy(1-3), of c "mem s"]
  consider "?x < 79" | "?x = 79" "?y < 24" | "?x = 79" "?y = 24" using xy by linarith
  then show ?thesis
  proof cases
    case 1
    then show ?thesis
      using False xy by (auto simp: putc_def Let_def con_abs_def cursor_ok_def rows nat_add_distrib)
  next
    case 2
    then show ?thesis
      using False xy rows by (auto simp: putc_def Let_def con_abs_def cursor_ok_def nat_add_distrib)
  next
    case 3
    then show ?thesis
      using False xy rows by (auto simp: putc_def Let_def con_abs_def cursor_ok_def scroll_rows)
  qed
qed

lemma print_backspace_refines:
  assumes ok: "cursor_ok s"
  shows "con_abs (print_backspace s) = a_backspace (con_abs s) \<and> cursor_ok (print_backspace s)"
proof -
  let ?x = "screen_x (cur_term s)" and ?y = "screen_y (cur_term s)"
  have xy: "0 \<le> ?x" "?x < 80" "0 \<le> ?y" "?y < 25" using ok by (simp_all add: cursor_ok_def)
  consider "0 < ?x" | "?x = 0" "0 < ?y" | "?x = 0" "?y = 0" using xy by linarith
  then show ?thesis
  proof cases
    case 1
    then show ?thesis
      using xy put_cell_rows [of "?x - 1" ?y 32 "mem s"]
      by (auto simp: print_backspace_def Let_def con_abs_def cursor_ok_def nat_diff_distrib)
  next
    case 2
    then show ?thesis
      using xy put_cell_rows [of 79 "?y - 1" 32 "mem s"]
      by (auto simp: print_backspace_def Let_def con_abs_def cursor_ok_def nat_diff_distrib)
  next
    case 3
    then show ?thesis
      using xy put_cell_rows [of 0 0 32 "mem s"]
      by (auto simp: print_backspace_def Let_def con_abs_def cursor_ok_def)
  qed
qed

lemma cursor_ok_putc [simp]: "cursor_ok s \<Longrightarrow> cursor_ok (putc c s)"
  using putc_refines by blast

lemma cursor_ok_print_backspace [simp]: "cursor_ok s \<Longrightarrow> cursor_ok (print_backspace s)"
  using print_backspace_refines by blast

lemma cursor_ok_clear [simp]: "cursor_ok (clear s)"
  by (simp add: clear_def Let_def cursor_ok_def)

interpretation console_sim: simulation cursor_ok con_abs putc a_putc
  by unfold_locales (simp_all add: putc_refines)

lemma fold_putc_refines:
  "cursor_ok s \<Longrightarrow> con_abs (fold putc cs s) = fold a_putc cs (con_abs s) \<and> cursor_ok (fold putc cs s)"
  by (rule console_sim.run)

lemma clear_cell_at:
  "fold (\<lambda>i. put_cell (int i) c) [0..<n] m (VIDEO + 2 * int i) = (if i < n then c else m (VIDEO + 2 * int i))"
  by (induction n) (auto simp: put_cell_at)

lemma clear_blank: "con_abs (clear s) = (replicate 25 blank_row, 0, 0)"
proof -
  have "screen_rows (fold (\<lambda>i. put_cell (int i) 32) [0..<2000] m) ! j = blank_row" if j: "j < 25" for m j
  proof -
    have "fold (\<lambda>i. put_cell (int i) 32) [0..<2000] m (VIDEO + 2 * (80 * int j + int i)) = 32"
      if "i < 80" for i
      using clear_cell_at [of 32 2000 m "80 * j + i"] j that by (simp add: algebra_simps)
    then show ?thesis
      unfolding screen_rows_nth [OF j] blank_row_def
      by (intro nth_equalityI) simp_all
  qed
  then have "screen_rows (fold (\<lambda>i. put_cell (int i) 32) [0..<2000] m) = replicate 25 blank_row" for m
    by (intro nth_equalityI) simp_all
  then show ?thesis
    by (simp add: clear_def Let_def con_abs_def)
qed

section \<open>puts and printf print their text\<close>

lemma puts_from_spec:
  "0 \<in> set bs \<Longrightarrow> puts_from i bs s = Some (i + int (length (text_of bs)), fold putc (text_of bs) s)"
  by (induction bs arbitrary: i s) (auto simp: text_of_Cons)

lemma puts_spec:
  "0 \<in> set bs \<Longrightarrow> puts bs s = Some (int (length (text_of bs)), fold putc (text_of bs) s)"
  by (simp add: puts_def puts_from_spec)

lemma printf_loop_plain:
  "0 \<notin> set cs \<Longrightarrow> 37 \<notin> set cs \<Longrightarrow>
   printf_loop None (cs @ fmt) args n s = printf_loop None fmt args (n + int (length cs)) (fold putc cs s)"
  by (induction cs arbitrary: n s) (auto simp: add.assoc)

lemma printf_plain:
  "0 \<notin> set cs \<Longrightarrow> 37 \<notin> set cs \<Longrightarrow>
   printf (cs @ [0]) args s = Some (int (length cs), fold putc cs s)"
  by (simp add: printf_def printf_loop_plain)

lemma fill_zeroes:
  "length pre = 8 \<Longrightarrow> n \<le> 8 \<Longrightarrow>
   fold (\<lambda>i conv. conv[i := 48]) [n..<8] (pre @ tail) = take n pre @ replicate (8 - n) 48 @ tail"
proof (induction "8 - n" arbitrary: n pre)
  case 0
  then show ?case by simp
next
  case (Suc d)
  then have n: "n < 8" by simp
  then have "[n..<8] = n # [Suc n..<8]" by (rule upt_conv_Cons)
  moreover have "fold (\<lambda>i conv. conv[i := 48]) [Suc n..<8] (pre[n := 48] @ tail)
      = take (Suc n) (pre[n := 48]) @ replicate (8 - Suc n) 48 @ tail"
    using Suc n by (intro Suc.hyps(1)) auto
  moreover have "8 - n = Suc (8 - Suc n)" using n by simp
  ultimately show ?case
    using n Suc.prems by (simp only: replicate_Suc) (simp add: list_update_append take_Suc_conv_app_nth)
qed

text \<open>The alternate form is the numeral padded with zeroes to eight digits, whatever the buffer
  held.\<close>

lemma low_digits_length_hex: "v < 16 ^ n \<Longrightarrow> length (low_digits 16 v) \<le> n"
proof (induction n arbitrary: v)
  case 0
  then show ?case by (simp add: low_digits.simps)
next
  case (Suc n)
  then have "v div 16 < 16 ^ n" by (simp add: less_mult_imp_div_less mult.commute)
  from Suc.IH [OF this] show ?case by (subst low_digits.simps) auto
qed

lemma numeral_of_hex_length: "v < 2 ^ 32 \<Longrightarrow> length (numeral_of 16 v) \<le> 8"
  using low_digits_length_hex [of v 8] by (simp add: numeral_of_def)

lemma conv_alternate_spec:
  assumes "length conv = 64" and "0 \<le> v" and "v < 2 ^ 32"
  shows "\<exists>rest. conv_alternate conv v =
    Some (replicate (8 - length (numeral_of 16 (nat v))) 48 @ numeral_of 16 (nat v) @ 0 # rest)"
proof -
  let ?d = "numeral_of 16 (nat v)" and ?rest = "drop (Suc (length (numeral_of 16 (nat v)))) (drop 8 conv)"
  have v: "nat v < 2 ^ 32" using assms(2,3) by (simp add: nat_less_iff)
  have itoa: "itoa (nat v) (drop 8 conv) 16 = Some (?d @ 0 # ?rest)"
    by (rule itoa_correct) (use v assms(1) in auto)
  have "0 \<notin> set ?d" by (rule numeral_of_nonzero) auto
  then have len: "strlen (?d @ 0 # ?rest) = Some (length ?d)" by (simp add: strlen_text)
  have "length (take 8 conv) = 8" using assms(1) by simp
  note fill = fill_zeroes [OF this numeral_of_hex_length [OF v], of "?d @ 0 # ?rest"]
  have "nat (u32 v) = nat v" using assms(2,3) by simp
  then have "conv_alternate conv v = Some (drop (length ?d)
      (take (length ?d) (take 8 conv) @ replicate (8 - length ?d) 48 @ ?d @ 0 # ?rest))"
    unfolding conv_alternate_def by (simp only: itoa len bind.simps Let_def fill)
  moreover have "length (take (length ?d) (take 8 conv)) = length ?d"
    using numeral_of_hex_length [OF v] assms(1) by simp
  ultimately show ?thesis by (metis append_eq_conv_conj)
qed

end
