(* ===== verification/Devices.thy ===== *)
theory Devices
  imports Console
begin

text \<open>
  The interrupt controller (\<open>i8259.c\<close>), the real-time clock (\<open>rtc.c\<close>) and the interval timer
  (\<open>pit.c\<close>).  A port write is an entry of the trace; a blocking read takes the list of what the
  interrupt handlers do between two looks at its flag, and \<open>None\<close> means it is still waiting when the
  list is used up.
\<close>

section \<open>The 8259 pair\<close>

abbreviation (input) "MASTER_8259_PORT \<equiv> 0x20 :: int"
abbreviation (input) "MASTER_8259_DATA \<equiv> 0x21 :: int"
abbreviation (input) "SLAVE_8259_PORT \<equiv> 0xA0 :: int"
abbreviation (input) "SLAVE_8259_DATA \<equiv> 0xA1 :: int"
abbreviation (input) "EOI \<equiv> 0x60 :: int"
abbreviation (input) "MIDDLE_NUM \<equiv> 8 :: int"

definition enable_irq :: "int \<Rightarrow> kernel \<Rightarrow> kernel" where
  "enable_irq irq_num s =
     (if irq_num < MIDDLE_NUM
      then (let s = s\<lparr>master_mask := master_mask s AND NOT (push_bit (nat irq_num) 1)\<rparr>
            in outb (master_mask s) MASTER_8259_DATA s)
      else (let irq_num = irq_num - MIDDLE_NUM;
                s = s\<lparr>master_mask := master_mask s AND 0xFB\<rparr>;
                s = s\<lparr>slave_mask := slave_mask s AND NOT (push_bit (nat irq_num) 1)\<rparr>;
                s = outb (master_mask s) MASTER_8259_DATA s
            in outb (slave_mask s) SLAVE_8259_DATA s))"

definition disable_irq :: "int \<Rightarrow> kernel \<Rightarrow> kernel" where
  "disable_irq irq_num s =
     (if irq_num < MIDDLE_NUM
      then (let s = s\<lparr>master_mask := master_mask s OR push_bit (nat irq_num) 1\<rparr>
            in outb (master_mask s) MASTER_8259_DATA s)
      else (let irq_num = irq_num - MIDDLE_NUM;
                s = s\<lparr>slave_mask := slave_mask s OR push_bit (nat irq_num) 1\<rparr>
            in outb (slave_mask s) SLAVE_8259_DATA s))"

definition send_eoi :: "int \<Rightarrow> kernel \<Rightarrow> kernel" where
  "send_eoi irq_num s =
     (if MIDDLE_NUM \<le> irq_num
      then outb (word_of_int (EOI OR 2)) MASTER_8259_PORT
             (outb (word_of_int (EOI OR (irq_num - MIDDLE_NUM))) SLAVE_8259_PORT s)
      else outb (word_of_int (EOI OR irq_num)) MASTER_8259_PORT s)"

definition i8259_init :: "kernel \<Rightarrow> kernel" where
  "i8259_init s =
     (let s = s\<lparr>master_mask := 0xFF\<rparr>;
          s = s\<lparr>slave_mask := 0xFF\<rparr>;
          s = outb 0x11 MASTER_8259_PORT s;
          s = outb 0x20 MASTER_8259_DATA s;
          s = outb 0x04 MASTER_8259_DATA s;
          s = outb 0x01 MASTER_8259_DATA s;
          s = outb 0x11 SLAVE_8259_PORT s;
          s = outb 0x28 SLAVE_8259_DATA s;
          s = outb 0x02 SLAVE_8259_DATA s;
          s = outb 0x01 SLAVE_8259_DATA s;
          s = outb (master_mask s) MASTER_8259_DATA s;
          s = outb (slave_mask s) SLAVE_8259_DATA s
      in enable_irq 2 s)"

section \<open>The real-time clock\<close>

abbreviation (input) "RTC_INDEX \<equiv> 0x70 :: int"
abbreviation (input) "RTC_CMOS \<equiv> 0x71 :: int"
abbreviation (input) "MAX_FREQ \<equiv> 512 :: int"

definition rtc_init :: "kernel \<Rightarrow> kernel" where
  "rtc_init s =
     (let s = outb 0x8B RTC_INDEX s;
          prev = inb s RTC_CMOS;
          s = outb 0x8B RTC_INDEX s;
          s = outb (prev OR 0x40) RTC_CMOS s;
          s = s\<lparr>interrupt_count := MAX_FREQ div 2\<rparr>;
          s = outb 0x8A RTC_INDEX s;
          prev = inb s RTC_CMOS;
          s = outb 0x8A RTC_INDEX s;
          s = outb ((prev AND 0xF0) OR 0x06) RTC_CMOS s
      in enable_irq 8 s)"

definition handle_rtc :: "kernel \<Rightarrow> kernel" where
  "handle_rtc s =
     (let s = cli s;
          s = send_eoi 8 s;
          s = outb 0x0C RTC_INDEX s;
          s = s\<lparr>rtc_interrupt_occurred := 1\<rparr>
      in sti s)"

definition rtc_open :: "int \<Rightarrow> kernel \<Rightarrow> int \<times> kernel" where
  "rtc_open fd s =
     (let s = upd_fd fd (\<lambda>f. f\<lparr>flags := 1, db_num := 0, byte_num := 0, inode := 0\<rparr>) s
      in (fd, rtc_init s))"

text \<open>The waiting loop of \<open>rtc_read\<close>: \<open>irqs\<close> is what happens between successive looks at the flag.\<close>

function rtc_wait :: "(kernel \<Rightarrow> kernel) list \<Rightarrow> int \<Rightarrow> kernel \<Rightarrow> kernel option" where
  "rtc_wait irqs count s =
     (if count < interrupt_count s
      then if rtc_interrupt_occurred s \<noteq> 0
           then rtc_wait irqs (count + 1) (s\<lparr>rtc_interrupt_occurred := 0\<rparr>)
           else (case irqs of [] \<Rightarrow> None | irq # irqs \<Rightarrow> rtc_wait irqs count (irq s))
      else Some s)"
  by pat_completeness auto
termination
  by (relation "measures [\<lambda>(irqs, _, _). length irqs,
       \<lambda>(_, _, s). if rtc_interrupt_occurred s \<noteq> 0 then 1 else 0]") auto

declare rtc_wait.simps [simp del]

definition rtc_read :: "(kernel \<Rightarrow> kernel) list \<Rightarrow> int \<Rightarrow> int \<Rightarrow> int \<Rightarrow> kernel \<Rightarrow> (int \<times> kernel) option" where
  "rtc_read irqs fd buf nbytes s =
     (let s = sti s;
          s = s\<lparr>rtc_interrupt_occurred := 0\<rparr>
      in map_option (\<lambda>s. (0, s)) (rtc_wait irqs 0 s))"

definition rtc_write :: "int \<Rightarrow> int \<Rightarrow> int \<Rightarrow> kernel \<Rightarrow> int \<times> kernel" where
  "rtc_write fd buf nbytes s =
     (let s = cli s in
      if buf = 0 then (- 1, s)
      else let freq = s32 (le32 (peek s) buf) in
        if freq \<noteq> 0 \<and> freq AND s32 (freq - 1) = 0 \<and> freq \<le> MAX_FREQ
        then (0, s\<lparr>interrupt_count := c_div MAX_FREQ freq\<rparr>)
        else (- 1, sti s))"

definition rtc_close :: "int \<Rightarrow> kernel \<Rightarrow> int \<times> kernel" where
  "rtc_close fd s =
     (0, upd_fd fd (\<lambda>f. f\<lparr>flags := 0, fops := None, db_num := 0, byte_num := 0, inode := 0\<rparr>) s)"

section \<open>The interval timer\<close>

definition pit_init :: "kernel \<Rightarrow> kernel" where
  "pit_init s =
     (let divisor = 1193180 div 30 :: int;
          s = outb 0x36 0x43 s;
          s = outb (word_of_int (divisor AND 0xFF)) 0x40 s;
          s = outb (word_of_int (drop_bit 8 divisor)) 0x40 s
      in enable_irq 0 s)"

definition handle_pit :: "kernel \<Rightarrow> kernel" where
  "handle_pit s = send_eoi 0 (cli s)"

section \<open>Interrupt masks\<close>

text \<open>The last byte written to a port, and what the controllers have in their mask registers: each
  data port must hold the software copy.\<close>

fun last_out :: "int \<Rightarrow> (int \<times> u8) list \<Rightarrow> u8 option" where
  "last_out p tr = map_of (rev tr) p"

definition masks_synced :: "kernel \<Rightarrow> bool" where
  "masks_synced s \<longleftrightarrow> last_out MASTER_8259_DATA (ports s) = Some (master_mask s)
     \<and> last_out SLAVE_8259_DATA (ports s) = Some (slave_mask s)"

text \<open>An interrupt line reaches the processor when no mask on its way is set; lines 8 to 15 come
  through line 2.\<close>

definition irq_open :: "int \<Rightarrow> kernel \<Rightarrow> bool" where
  "irq_open n s = (if n < 8 then \<not> bit (master_mask s) (nat n)
     else \<not> bit (slave_mask s) (nat (n - 8)) \<and> \<not> bit (master_mask s) 2)"

lemma ports_outb [simp]: "ports (outb d p s) = ports s @ [(p, d)]"
  by (simp add: outb_def)

lemma masks_outb [simp]:
  "master_mask (outb d p s) = master_mask s" "slave_mask (outb d p s) = slave_mask s"
  by (simp_all add: outb_def)

lemma bit_clear_mask:
  "bit ((w :: u8) AND NOT (2 ^ n)) i \<longleftrightarrow> bit w i \<and> i \<noteq> n"
  by (auto simp: bit_and_iff bit_not_iff bit_exp_iff dest: bit_imp_le_length)

lemma bit_set_mask:
  "bit ((w :: u8) OR 2 ^ n) i \<longleftrightarrow> bit w i \<or> i = n \<and> i < 8"
  by (auto simp: bit_or_iff bit_exp_iff)

lemma and_FB_eq: "(w :: u8) AND 0xFB = w AND NOT (2 ^ 2)"
proof -
  have "(0xFB :: u8) = NOT (2 ^ 2)" by code_simp
  then show ?thesis by (rule arg_cong)
qed

text \<open>What an enabled or disabled line changes in the masks, bit by bit.\<close>

lemma bit_master_enable_irq:
  "bit (master_mask (enable_irq n s)) i \<longleftrightarrow>
     bit (master_mask s) i \<and> i \<noteq> (if n < 8 then nat n else 2)"
proof (cases "n < 8")
  case True
  then show ?thesis by (simp add: enable_irq_def Let_def bit_clear_mask)
next
  case False
  then have "master_mask (enable_irq n s) = master_mask s AND 0xFB"
    by (simp add: enable_irq_def Let_def)
  then show ?thesis using False unfolding and_FB_eq by (simp only: bit_clear_mask) simp
qed

lemma bit_slave_enable_irq:
  "bit (slave_mask (enable_irq n s)) i \<longleftrightarrow> bit (slave_mask s) i \<and> (n < 8 \<or> i \<noteq> nat (n - 8))"
  by (simp add: enable_irq_def Let_def bit_clear_mask)

lemma bit_master_disable_irq:
  "bit (master_mask (disable_irq n s)) i \<longleftrightarrow> bit (master_mask s) i \<or> n < 8 \<and> i = nat n \<and> i < 8"
  by (auto simp: disable_irq_def Let_def bit_set_mask)

lemma bit_slave_disable_irq:
  "bit (slave_mask (disable_irq n s)) i \<longleftrightarrow>
     bit (slave_mask s) i \<or> 8 \<le> n \<and> i = nat (n - 8) \<and> i < 8"
  by (auto simp: disable_irq_def Let_def bit_set_mask)

lemmas irq_bits = bit_master_enable_irq bit_slave_enable_irq bit_master_disable_irq
  bit_slave_disable_irq

lemma masks_synced_enable_irq: "masks_synced s \<Longrightarrow> masks_synced (enable_irq n s)"
  by (auto simp: masks_synced_def enable_irq_def Let_def)

lemma masks_synced_disable_irq: "masks_synced s \<Longrightarrow> masks_synced (disable_irq n s)"
  by (auto simp: masks_synced_def disable_irq_def Let_def)

lemma masks_synced_i8259_init: "masks_synced (i8259_init s)"
  unfolding i8259_init_def Let_def
  by (rule masks_synced_enable_irq) (simp add: masks_synced_def)

lemma irq_open_enable_irq: "0 \<le> n \<Longrightarrow> irq_open n (enable_irq n s)"
  by (simp add: irq_open_def irq_bits)

lemma irq_open_enable_mono: "irq_open m s \<Longrightarrow> irq_open m (enable_irq n s)"
  by (simp add: irq_open_def irq_bits split: if_splits)

lemma irq_open_disable_irq: "0 \<le> n \<Longrightarrow> n < 16 \<Longrightarrow> \<not> irq_open n (disable_irq n s)"
  by (auto simp: irq_open_def irq_bits)

lemma irq_open_disable_other:
  "0 \<le> n \<Longrightarrow> n < 16 \<Longrightarrow> 0 \<le> m \<Longrightarrow> m \<noteq> n \<Longrightarrow> n \<noteq> 2 \<Longrightarrow> irq_open m (disable_irq n s) = irq_open m s"
  by (auto simp: irq_open_def irq_bits)

lemma masks_frame [simp]:
  "masks_synced (s\<lparr>interrupt_count := c\<rparr>) = masks_synced s"
  by (simp add: masks_synced_def)

lemma masks_synced_outb:
  "p \<noteq> MASTER_8259_DATA \<Longrightarrow> p \<noteq> SLAVE_8259_DATA \<Longrightarrow> masks_synced (outb d p s) = masks_synced s"
  by (simp add: masks_synced_def)

lemma masks_synced_rtc_init: "masks_synced s \<Longrightarrow> masks_synced (rtc_init s)"
  unfolding rtc_init_def Let_def
  by (rule masks_synced_enable_irq) (simp add: masks_synced_outb)

lemma masks_synced_pit_init: "masks_synced s \<Longrightarrow> masks_synced (pit_init s)"
  unfolding pit_init_def Let_def
  by (rule masks_synced_enable_irq) (simp add: masks_synced_outb)

section \<open>Waiting for clock ticks\<close>

lemma handle_rtc_simps [simp]:
  "interrupt_count (handle_rtc s) = interrupt_count s" "rtc_interrupt_occurred (handle_rtc s) = 1"
  by (simp_all add: handle_rtc_def Let_def cli_def sti_def send_eoi_def outb_def)

text \<open>With only clock interrupts arriving, the loop needs one per missing count and no more.\<close>

lemma rtc_wait_ticks:
  "rtc_interrupt_occurred s = 0 \<Longrightarrow>
   (rtc_wait (replicate n handle_rtc) c s \<noteq> None) = (interrupt_count s - c \<le> int n)"
proof (induction n arbitrary: c s)
  case 0
  then show ?case by (simp add: rtc_wait.simps [of "[]" c])
next
  case (Suc n)
  let ?s = "(handle_rtc s)\<lparr>rtc_interrupt_occurred := 0\<rparr>"
  have IH: "(rtc_wait (replicate n handle_rtc) (c + 1) ?s \<noteq> None) = (interrupt_count s - (c + 1) \<le> int n)"
    using Suc.IH [of ?s "c + 1"] by simp
  have "rtc_wait (replicate (Suc n) handle_rtc) c s =
    (if c < interrupt_count s then rtc_wait (replicate n handle_rtc) (c + 1) ?s else Some s)"
    using Suc.prems by (simp add: rtc_wait.simps [of _ c s] rtc_wait.simps [of _ c "handle_rtc s"])
  moreover have "(interrupt_count s - (c + 1) \<le> int n) = (interrupt_count s - c \<le> int (Suc n))"
    by auto
  ultimately show ?case using IH by auto
qed

section \<open>Which rates are accepted\<close>

definition rtc_rate_ok :: "int \<Rightarrow> bool" where
  "rtc_rate_ok freq \<longleftrightarrow> freq \<noteq> 0 \<and> freq AND s32 (freq - 1) = 0 \<and> freq \<le> 512"

lemma rtc_rates_enumerated:
  "list_all (\<lambda>k :: int. (k AND (k - 1) = 0) = (k \<in> set [1, 2, 4, 8, 16, 32, 64, 128, 256, 512])) [1..512]"
  by code_simp

lemma rtc_rate_iff:
  assumes "- (2 ^ 31) \<le> freq" and "freq < 2 ^ 31"
  shows "rtc_rate_ok freq \<longleftrightarrow> freq = - (2 ^ 31) \<or> freq \<in> {1, 2, 4, 8, 16, 32, 64, 128, 256, 512}"
proof -
  consider "freq = - (2 ^ 31)" | "- (2 ^ 31) < freq" "freq < 0" | "freq = 0" | "0 < freq" "freq \<le> 512"
    | "512 < freq" using assms by linarith
  then show ?thesis
  proof cases
    case 1
    then show ?thesis by (simp add: rtc_rate_ok_def s32_def)
  next
    case 2
    then have "s32 (freq - 1) < 0" by simp
    with 2 have "freq AND s32 (freq - 1) < 0" by (simp only: and_negative_int_iff)
    with 2 show ?thesis by (auto simp only: rtc_rate_ok_def)
  next
    case 4
    then have "freq \<in> set [1..512]" by simp
    with rtc_rates_enumerated have "(freq AND (freq - 1) = 0)
        = (freq \<in> set [1, 2, 4, 8, 16, 32, 64, 128, 256, 512])"
      by (simp only: list_all_iff)
    with 4 show ?thesis by (auto simp: rtc_rate_ok_def)
  qed (auto simp: rtc_rate_ok_def)
qed

lemma rtc_write_cases:
  "rtc_write fd buf nbytes s =
     (if buf = 0 then (- 1, cli s)
      else if rtc_rate_ok (s32 (le32 (peek s) buf))
      then (0, (cli s)\<lparr>interrupt_count := c_div 512 (s32 (le32 (peek s) buf))\<rparr>)
      else (- 1, sti (cli s)))"
proof -
  have "peek (cli s) = peek s" by (simp add: fun_eq_iff peek_def vaddr_def user_page_def cli_def)
  then show ?thesis by (simp add: rtc_write_def Let_def rtc_rate_ok_def)
qed

end
