(* ===== verification/FileSys.thy ===== *)
theory FileSys
  imports Devices
begin

text \<open>
  The read-only file system of \<open>filesys.c\<close>: the directory entries of the boot block, the driver
  functions of files and directories, and the data reads.  The image lies in the kernel page at
  \<open>bootBlock.addr\<close>; a read copies bytes from there through the caller's pointer.
\<close>

section \<open>Driver functions without data\<close>

definition open_file :: "int \<Rightarrow> kernel \<Rightarrow> int \<times> kernel" where
  "open_file fd s = (fd, upd_fd fd (\<lambda>f. f\<lparr>db_num := 0, byte_num := 0, flags := 1\<rparr>) s)"

definition close_file :: "int \<Rightarrow> kernel \<Rightarrow> int \<times> kernel" where
  "close_file fd s =
     (0, upd_fd fd (\<lambda>f. f\<lparr>db_num := 0, byte_num := 0, inode := 0, fops := None, flags := 0\<rparr>) s)"

definition write_file :: "int \<Rightarrow> int \<Rightarrow> int \<Rightarrow> kernel \<Rightarrow> int \<times> kernel" where
  "write_file fd_ignore buf_ignore n s = (- 1, s)"

definition open_dir :: "int \<Rightarrow> kernel \<Rightarrow> int \<times> kernel" where
  "open_dir fd s = (fd, upd_fd fd (\<lambda>f. f\<lparr>db_num := 0, byte_num := 0, inode := 0, flags := 1\<rparr>) s)"

definition close_dir :: "int \<Rightarrow> kernel \<Rightarrow> int \<times> kernel" where
  "close_dir fd s =
     (0, upd_fd fd (\<lambda>f. f\<lparr>db_num := 0, byte_num := 0, inode := 0, fops := None, flags := 0\<rparr>) s)"

definition write_dir :: "int \<Rightarrow> int \<Rightarrow> int \<Rightarrow> kernel \<Rightarrow> int \<times> kernel" where
  "write_dir fd_ignore buf_ignore n s = (- 1, s)"

section \<open>Directory entries\<close>

abbreviation (input) "DENTRY_OFFSET \<equiv> 64 :: int"
abbreviation (input) "BOOT_BLOCK_MAX_DENTRIES \<equiv> 63 :: nat"

definition read_dentry_by_index :: "int \<Rightarrow> kernel \<Rightarrow> dentry_t" where
  "read_dentry_by_index index s =
     (let fname = addr (bootBlock s) + DENTRY_OFFSET + DENTRY_OFFSET * index
      in \<lparr>d_fname = fname, d_ftype = uint (peek s (fname + 32)), d_inode = uint (peek s (fname + 36))\<rparr>)"

text \<open>The local copy of an entry's name, NUL-terminated at byte 32.\<close>

definition curname :: "int \<Rightarrow> kernel \<Rightarrow> u8 list" where
  "curname index s =
     (let dentries_addr = addr (bootBlock s) + DENTRY_OFFSET
      in region (peek s) (dentries_addr + DENTRY_OFFSET * index) 32 @ 0 # uninit 89)"

text \<open>The search loop; \<open>None\<close> when the name is read past its end.\<close>

fun find_dentry :: "nat list \<Rightarrow> u8 list \<Rightarrow> kernel \<Rightarrow> dentry_t option option" where
  "find_dentry [] fname s = Some None"
| "find_dentry (index # rest) fname s =
     Option.bind (strncmp (curname (int index) s) fname 122) (\<lambda>r.
       if r = 0 then Some (Some (read_dentry_by_index (int index) s))
       else find_dentry rest fname s)"

definition read_dentry_by_name :: "u8 list \<Rightarrow> kernel \<Rightarrow> (int \<times> dentry_t option) option" where
  "read_dentry_by_name fname s =
     map_option (\<lambda>d. (case d of Some d \<Rightarrow> (0, Some d) | None \<Rightarrow> (- 1, None)))
       (find_dentry [0..<BOOT_BLOCK_MAX_DENTRIES] fname s)"

text \<open>The copying loop of \<open>read_directory\<close>: one byte, then the entry's counters.\<close>

primrec read_dir_loop :: "nat \<Rightarrow> int \<Rightarrow> int \<Rightarrow> int \<Rightarrow> kernel \<Rightarrow> kernel" where
  "read_dir_loop 0 fd buf cur_name s = s"
| "read_dir_loop (Suc n) fd buf cur_name s =
     (let s = poke buf (peek s cur_name) s;
          buf = buf + 1;
          cur_name = cur_name + 1;
          s = upd_fd fd (\<lambda>f. f\<lparr>byte_num := byte_num f + 1\<rparr>) s
      in if byte_num (cur_fd s fd) = 32
         then let s = upd_fd fd (\<lambda>f. f\<lparr>db_num := db_num f + 1, byte_num := 0\<rparr>) s
              in read_dir_loop n fd buf (addr (bootBlock s) + (db_num (cur_fd s fd) + 1) * DENTRY_OFFSET) s
         else read_dir_loop n fd buf cur_name s)"

definition read_directory :: "int \<Rightarrow> int \<Rightarrow> int \<Rightarrow> kernel \<Rightarrow> int \<times> kernel" where
  "read_directory fd buf n s =
     (let index = db_num (cur_fd s fd);
          startingByte = byte_num (cur_fd s fd);
          cur_name = addr (bootBlock s) + (index + 1) * DENTRY_OFFSET + startingByte
      in if startingByte = 0 \<and> peek s cur_name = 0 then (0, s)
         else (max 0 n, read_dir_loop (nat n) fd buf cur_name s))"

section \<open>File data\<close>

text \<open>Where \<open>read_data\<close> starts: the block number is the single byte at \<open>offset / 1024\<close> of the block
  list.\<close>

definition inode_ptr :: "int \<Rightarrow> kernel \<Rightarrow> int" where
  "inode_ptr ino s = addr (bootBlock s) + (ino + 1) * FOURKB"

definition data_ptr :: "int \<Rightarrow> int \<Rightarrow> kernel \<Rightarrow> int" where
  "data_ptr ino offset s =
     addr (bootBlock s) + (inode_count (bootBlock s) + 1) * FOURKB
     + uint (peek s (inode_ptr ino s + 4 + offset div 1024)) * FOURKB
     + offset mod FOURKB"

definition read_data :: "int \<Rightarrow> int \<Rightarrow> int \<Rightarrow> int \<Rightarrow> kernel \<Rightarrow> int \<times> kernel" where
  "read_data ino offset buf len s =
     (s32 len, copy_virt (nat (u32 len)) buf (data_ptr ino offset s) s)"

text \<open>The same read into a local buffer of the kernel.\<close>

definition read_data_local :: "int \<Rightarrow> int \<Rightarrow> nat \<Rightarrow> kernel \<Rightarrow> u8 list" where
  "read_data_local ino offset len s = region (peek s) (data_ptr ino offset s) len"

definition file_len :: "int \<Rightarrow> kernel \<Rightarrow> int" where
  "file_len ino s = le32 (peek s) (inode_ptr ino s)"

partial_function (option) read_file :: "int \<Rightarrow> int \<Rightarrow> int \<Rightarrow> kernel \<Rightarrow> (int \<times> kernel) option" where
  "read_file fd buf n s =
     (let ino = inode (cur_fd s fd);
          offset = u32 (db_num (cur_fd s fd) * FOURKB + byte_num (cur_fd s fd));
          inode_len_b = file_len ino s
      in if inode_len_b < offset then Some (0, s)
         else if FOURKB < s32 (byte_num (cur_fd s fd) + n)
         then (let n2 = n;
                   n = FOURKB - byte_num (cur_fd s fd);
                   n2 = s32 (n2 - n);
                   s = snd (read_data ino offset buf n s);
                   s = upd_fd fd (\<lambda>f. f\<lparr>byte_num := 0\<rparr>) s;
                   s = upd_fd fd (\<lambda>f. f\<lparr>db_num := db_num f + 1\<rparr>) s
               in read_file fd (buf + n) n2 s)
         else if inode_len_b < u32 (offset + n)
         then (let n = s32 (inode_len_b - offset);
                   s = upd_fd fd (\<lambda>f. f\<lparr>byte_num := byte_num f + n\<rparr>) s
               in Some (read_data ino offset buf n s))
         else (let s = upd_fd fd (\<lambda>f. f\<lparr>byte_num := byte_num f + n\<rparr>) s
               in Some (read_data ino offset buf n s)))"

section \<open>Lookup by name\<close>

text \<open>The name an entry holds: its 32 bytes up to the first NUL.\<close>

definition entry_name :: "int \<Rightarrow> kernel \<Rightarrow> u8 list" where
  "entry_name index s = text_of (region (peek s) (addr (bootBlock s) + 64 + 64 * index) 32)"

lemma length_text_of: "length (text_of bs) \<le> length bs"
  by (simp add: text_of_def length_takeWhile_le)

lemma text_of_snoc_nul: "text_of (bs @ 0 # rest) = text_of bs"
  unfolding text_of_def by (induction bs) auto

lemma text_of_curname: "text_of (curname index s) = entry_name index s"
  by (simp add: curname_def entry_name_def Let_def text_of_snoc_nul)

lemma entry_name_length: "length (entry_name index s) \<le> 32"
  using length_text_of [of "region (peek s) (addr (bootBlock s) + 64 + 64 * index) 32"]
  by (simp add: entry_name_def)

lemma strncmp_curname:
  assumes "0 \<in> set fname"
  shows "\<exists>r. strncmp (curname i s) fname 122 = Some r
    \<and> (r = 0 \<longleftrightarrow> entry_name i s = take 122 (text_of fname))"
proof -
  have "0 \<in> set (curname i s)" by (simp add: curname_def Let_def)
  from strncmp_eq_0 [OF this assms, of 122] show ?thesis
    using entry_name_length [of i s] by (simp add: text_of_curname)
qed

lemma find_dentry_spec:
  "0 \<in> set fname \<Longrightarrow> find_dentry is fname s =
    Some (map_option (\<lambda>i. read_dentry_by_index (int i) s)
      (find (\<lambda>i. entry_name (int i) s = take 122 (text_of fname)) is))"
proof (induction "is")
  case (Cons i "is")
  from strncmp_curname [OF Cons.prems, of "int i" s] Cons show ?case by auto
qed simp

text \<open>The search finds the first entry with the name, and fails when there is none.\<close>

lemma read_dentry_by_name_spec:
  "0 \<in> set fname \<Longrightarrow> read_dentry_by_name fname s =
    Some (case find (\<lambda>i. entry_name (int i) s = take 122 (text_of fname)) [0..<63] of
      None \<Rightarrow> (- 1, None) | Some i \<Rightarrow> (0, Some (read_dentry_by_index (int i) s)))"
  by (simp add: read_dentry_by_name_def find_dentry_spec option.case_distrib split: option.split)

section \<open>Reading the directory\<close>

lemma upd_fd_simps [simp]:
  "mem (upd_fd fd f s) = mem s" "bootBlock (upd_fd fd f s) = bootBlock s"
  "page_directory (upd_fd fd f s) = page_directory s" "user_page (upd_fd fd f s) = user_page s"
  "cur_fd (upd_fd fd f s) fd' = (if fd' = fd then f (cur_fd s fd) else cur_fd s fd')"
  "peek (upd_fd fd f s) = peek s" "curr_pcb (upd_fd fd f s) = curr_pcb s"
  "vaddr (upd_fd fd f s) = vaddr s"
  by (simp_all add: upd_fd_def upd_pcb_def cur_fd_def cur_proc_def user_page_def peek_def vaddr_def fun_eq_iff)

text \<open>The directory as a stream: 32 bytes of name per entry.  The descriptor's two counters are a
  position in it, and the loop reads on from there.\<close>

definition dir_pos :: "fd_t \<Rightarrow> int" where
  "dir_pos f = db_num f * 32 + byte_num f"

definition dir_addr :: "int \<Rightarrow> kernel \<Rightarrow> int" where
  "dir_addr k s = addr (bootBlock s) + (k div 32 + 1) * 64 + k mod 32"

definition dir_fd_ok :: "fd_t \<Rightarrow> bool" where
  "dir_fd_ok f \<longleftrightarrow> 0 \<le> db_num f \<and> 0 \<le> byte_num f \<and> byte_num f < 32"

lemma div_mod_next:
  fixes k :: int
  shows "(k + 1) mod 32 = 0 \<Longrightarrow> (k + 1) div 32 = k div 32 + 1"
    and "(k + 1) mod 32 \<noteq> 0 \<Longrightarrow> (k + 1) div 32 = k div 32"
    and "(k + 1) mod 32 \<noteq> 0 \<Longrightarrow> (k + 1) mod 32 = k mod 32 + 1"
proof -
  obtain q r where k: "k = 32 * q + r" "0 \<le> r" "r < 32"
    using that [of "k div 32" "k mod 32"] by simp
  have *: "(k + 1) div 32 = (if r = 31 then q + 1 else q) \<and> (k + 1) mod 32 = (if r = 31 then 0 else r + 1)"
  proof (cases "r = 31")
    case True
    then have "k + 1 = 32 * (q + 1)" using k by simp
    with True show ?thesis by simp
  next
    case False
    have e: "k + 1 = 32 * q + (r + 1)" using k by simp
    have "0 \<le> r + 1" "r + 1 < 32" using k False by simp_all
    with e have "(k + 1) div 32 = q" "(k + 1) mod 32 = r + 1"
      by (rule int_div_pos_eq, rule int_mod_pos_eq)
    with False show ?thesis by simp
  qed
  have "k div 32 = q" "k mod 32 = r"
    using k int_div_pos_eq [of k 32 q r] int_mod_pos_eq [of k 32 q r] by simp_all
  with * k show "(k + 1) mod 32 = 0 \<Longrightarrow> (k + 1) div 32 = k div 32 + 1"
    and "(k + 1) mod 32 \<noteq> 0 \<Longrightarrow> (k + 1) div 32 = k div 32"
    and "(k + 1) mod 32 \<noteq> 0 \<Longrightarrow> (k + 1) mod 32 = k mod 32 + 1"
    by (auto split: if_splits)
qed

lemma dir_addr_next:
  "(k + 1) mod 32 = 0 \<Longrightarrow> dir_addr (k + 1) s = addr (bootBlock s) + (k div 32 + 2) * 64"
  "(k + 1) mod 32 \<noteq> 0 \<Longrightarrow> dir_addr (k + 1) s = dir_addr k s + 1"
proof -
  assume "(k + 1) mod 32 = 0"
  moreover from this have "(k + 1) div 32 = k div 32 + 1" by (rule div_mod_next)
  ultimately show "dir_addr (k + 1) s = addr (bootBlock s) + (k div 32 + 2) * 64"
    by (simp add: dir_addr_def)
next
  assume "(k + 1) mod 32 \<noteq> 0"
  then have "(k + 1) div 32 = k div 32" "(k + 1) mod 32 = k mod 32 + 1" by (rule div_mod_next)+
  then show "dir_addr (k + 1) s = dir_addr k s + 1"
    by (simp add: dir_addr_def)
qed

lemma dir_addr_bound:
  assumes "j \<le> k"
  shows "dir_addr j s \<le> dir_addr k s + 32"
proof -
  have "j div 32 \<le> k div 32" using assms by (rule zdiv_mono1) simp
  moreover have "j mod 32 < 32" "0 \<le> k mod 32" by simp_all
  moreover have "a \<le> b \<Longrightarrow> c < 32 \<Longrightarrow> 0 \<le> d \<Longrightarrow> x + (a + 1) * 64 + c \<le> x + (b + 1) * 64 + d + 32"
    for a b c d x :: int by simp
  ultimately show ?thesis unfolding dir_addr_def by blast
qed

lemma dir_addr_nonneg: "0 \<le> k \<Longrightarrow> 0 \<le> addr (bootBlock s) \<Longrightarrow> 0 \<le> dir_addr k s"
  by (simp add: dir_addr_def)

lemma dir_addr_cong [simp]:
  "dir_addr k (upd_fd fd f s) = dir_addr k s" "dir_addr k (poke a b s) = dir_addr k s"
  by (simp_all add: dir_addr_def)

lemma dir_pos_div_mod: "dir_fd_ok f \<Longrightarrow> dir_pos f div 32 = db_num f \<and> dir_pos f mod 32 = byte_num f"
  by (simp add: dir_fd_ok_def dir_pos_def)

text \<open>One turn of the loop advances the position by one.\<close>

definition dir_step :: "int \<Rightarrow> int \<Rightarrow> int \<Rightarrow> kernel \<Rightarrow> kernel" where
  "dir_step fd buf p s =
     upd_fd fd (\<lambda>f. if byte_num f + 1 = 32 then f\<lparr>db_num := db_num f + 1, byte_num := 0\<rparr>
                    else f\<lparr>byte_num := byte_num f + 1\<rparr>) (poke buf (peek s p) s)"

lemma upd_fd_upd_fd: "upd_fd fd f (upd_fd fd g s) = upd_fd fd (\<lambda>x. f (g x)) s"
  by (simp add: upd_fd_def upd_pcb_def)

lemma upd_fd_cong: "f (cur_fd s fd) = g (cur_fd s fd) \<Longrightarrow> upd_fd fd f s = upd_fd fd g s"
  by (simp add: upd_fd_def upd_pcb_def cur_fd_def cur_proc_def)

lemma dir_step_pos:
  "dir_fd_ok (cur_fd s fd) \<Longrightarrow> dir_fd_ok (cur_fd (dir_step fd buf p s) fd)
    \<and> dir_pos (cur_fd (dir_step fd buf p s) fd) = dir_pos (cur_fd s fd) + 1"
  by (auto simp: dir_step_def dir_fd_ok_def dir_pos_def)

lemma read_dir_loop_step:
  assumes ok: "dir_fd_ok (cur_fd s fd)"
  shows "read_dir_loop (Suc n) fd buf (dir_addr (dir_pos (cur_fd s fd)) s) s =
    (let s' = dir_step fd buf (dir_addr (dir_pos (cur_fd s fd)) s) s
     in read_dir_loop n fd (buf + 1) (dir_addr (dir_pos (cur_fd s' fd)) s') s')"
proof -
  let ?f = "cur_fd s fd" and ?p = "dir_addr (dir_pos (cur_fd s fd)) s"
  let ?u = "poke buf (peek s ?p) s"
  have pos: "dir_pos (cur_fd (dir_step fd buf ?p s) fd) = dir_pos ?f + 1"
    using dir_step_pos [OF ok] by blast
  have rhs: "dir_addr (dir_pos (cur_fd (dir_step fd buf ?p s) fd)) (dir_step fd buf ?p s)
      = dir_addr (dir_pos ?f + 1) s"
    unfolding pos by (simp add: dir_step_def)
  have "read_dir_loop (Suc n) fd buf ?p s
      = read_dir_loop n fd (buf + 1) (dir_addr (dir_pos ?f + 1) s) (dir_step fd buf ?p s)"
  proof (cases "byte_num ?f + 1 = 32")
    case True
    have "dir_step fd buf ?p s = upd_fd fd (\<lambda>f. f\<lparr>db_num := db_num f + 1, byte_num := 0\<rparr>)
        (upd_fd fd (\<lambda>f. f\<lparr>byte_num := byte_num f + 1\<rparr>) ?u)"
      unfolding dir_step_def upd_fd_upd_fd by (rule upd_fd_cong) (simp add: True)
    moreover have "dir_addr (dir_pos ?f + 1) s = addr (bootBlock s) + (db_num ?f + 2) * 64"
      using True dir_addr_next(1) [of "dir_pos ?f" s] dir_pos_div_mod [OF ok]
      by (simp add: dir_pos_def mod_add_eq)
    ultimately show ?thesis
      using True by (simp add: Let_def algebra_simps)
  next
    case False
    have "dir_step fd buf ?p s = upd_fd fd (\<lambda>f. f\<lparr>byte_num := byte_num f + 1\<rparr>) ?u"
      unfolding dir_step_def by (rule upd_fd_cong) (simp add: False)
    moreover have "dir_addr (dir_pos ?f + 1) s = ?p + 1"
    proof (rule dir_addr_next(2))
      show "(dir_pos ?f + 1) mod 32 \<noteq> 0"
        using False ok by (simp add: dir_pos_def dir_fd_ok_def add.assoc)
    qed
    ultimately show ?thesis
      using False by (simp add: Let_def)
  qed
  then show ?thesis by (simp only: Let_def rhs)
qed

lemma peek_dir_step:
  "2 \<le> user_page s \<Longrightarrow> addr_ok buf \<Longrightarrow> addr_ok x \<Longrightarrow>
   peek (dir_step fd buf p s) x = (if x = buf then peek s p else peek s x)"
  by (simp add: dir_step_def peek_poke)

lemma read_dir_loop_spec:
  assumes "dir_fd_ok (cur_fd s fd)" and "2 \<le> user_page s" and "user_range buf (int n)"
    and "0 \<le> addr (bootBlock s)" and "dir_addr (dir_pos (cur_fd s fd) + int n) s + 64 \<le> PHYS8MB"
  shows "dir_fd_ok (cur_fd (read_dir_loop n fd buf (dir_addr (dir_pos (cur_fd s fd)) s) s) fd)
    \<and> dir_pos (cur_fd (read_dir_loop n fd buf (dir_addr (dir_pos (cur_fd s fd)) s) s) fd)
        = dir_pos (cur_fd s fd) + int n
    \<and> (\<forall>x. addr_ok x \<longrightarrow> peek (read_dir_loop n fd buf (dir_addr (dir_pos (cur_fd s fd)) s) s) x
        = (if buf \<le> x \<and> x < buf + int n then peek s (dir_addr (dir_pos (cur_fd s fd) + (x - buf)) s)
           else peek s x))"
  using assms
proof (induction n arbitrary: buf s)
  case 0
  then show ?case by auto
next
  case (Suc n)
  let ?k = "dir_pos (cur_fd s fd)"
  let ?t = "dir_step fd buf (dir_addr ?k s) s"
  have k0: "0 \<le> ?k" using Suc.prems(1) by (simp add: dir_pos_def dir_fd_ok_def)
  have buf: "addr_ok buf" using Suc.prems(3) by (simp add: addr_ok_def user_range_def)
  have bb: "dir_addr j ?t = dir_addr j s" for j by (simp add: dir_addr_def dir_step_def)
  have up: "user_page ?t = user_page s" "bootBlock ?t = bootBlock s" by (simp_all add: dir_step_def)
  note pos = dir_step_pos [OF Suc.prems(1), of buf "dir_addr ?k s"]
  have src: "addr_ok (dir_addr j s) \<and> dir_addr j s \<noteq> buf" if "0 \<le> j" "j \<le> ?k + int (Suc n)" for j
  proof -
    have "dir_addr j s \<le> dir_addr (?k + int (Suc n)) s + 32" using that(2) by (rule dir_addr_bound)
    moreover have "0 \<le> dir_addr j s" using that(1) Suc.prems(4) by (rule dir_addr_nonneg)
    ultimately show ?thesis using Suc.prems by (simp add: addr_ok_def user_range_def)
  qed
  note IH = Suc.IH [of ?t "buf + 1", unfolded bb]
  have IH': "dir_fd_ok (cur_fd (read_dir_loop n fd (buf + 1) (dir_addr (?k + 1) s) ?t) fd)
    \<and> dir_pos (cur_fd (read_dir_loop n fd (buf + 1) (dir_addr (?k + 1) s) ?t) fd) = ?k + 1 + int n
    \<and> (\<forall>x. addr_ok x \<longrightarrow> peek (read_dir_loop n fd (buf + 1) (dir_addr (?k + 1) s) ?t) x
        = (if buf + 1 \<le> x \<and> x < buf + 1 + int n then peek ?t (dir_addr (?k + 1 + (x - (buf + 1))) s)
           else peek ?t x))"
    using IH Suc.prems pos up by (simp add: user_range_def algebra_simps)
  have loop: "read_dir_loop (Suc n) fd buf (dir_addr ?k s) s
      = read_dir_loop n fd (buf + 1) (dir_addr (?k + 1) s) ?t"
    unfolding read_dir_loop_step [OF Suc.prems(1)] using pos by (simp add: Let_def bb)
  note pk = peek_dir_step [OF Suc.prems(2) buf, of _ fd "dir_addr ?k s"]
  show ?case
    unfolding loop
  proof (intro conjI allI impI)
    fix x assume x: "addr_ok x"
    show "peek (read_dir_loop n fd (buf + 1) (dir_addr (?k + 1) s) ?t) x
      = (if buf \<le> x \<and> x < buf + int (Suc n) then peek s (dir_addr (?k + (x - buf)) s) else peek s x)"
      using IH' x pk [OF x] src [of "?k + (x - buf)"] k0 pk [of "dir_addr (?k + (x - buf)) s"]
      by (auto simp: algebra_simps)
  qed (use IH' in simp_all)
qed

section \<open>Reading a file from a block boundary\<close>

text \<open>What the image stores: the block list of an inode has four bytes per block, and a file's byte
  \<open>i\<close> is in its block \<open>i div 4096\<close>.\<close>

definition block_no :: "int \<Rightarrow> int \<Rightarrow> kernel \<Rightarrow> int" where
  "block_no ino k s = le32 (peek s) (inode_ptr ino s + 4 + 4 * k)"

definition blocks_base :: "kernel \<Rightarrow> int" where
  "blocks_base s = addr (bootBlock s) + (inode_count (bootBlock s) + 1) * FOURKB"

definition file_byte :: "int \<Rightarrow> int \<Rightarrow> kernel \<Rightarrow> u8" where
  "file_byte ino i s = peek s (blocks_base s + block_no ino (i div 4096) s * 4096 + i mod 4096)"

definition file_ok :: "int \<Rightarrow> kernel \<Rightarrow> bool" where
  "file_ok ino s \<longleftrightarrow> 0 \<le> addr (bootBlock s) \<and> 0 \<le> inode_count (bootBlock s) \<and> 0 \<le> ino
     \<and> addr (bootBlock s) + (ino + 2) * 4096 \<le> PHYS8MB \<and> file_len ino s \<le> 1023 * 4096
     \<and> (\<forall>k\<in>{0..<1023}. 4096 * k < file_len ino s \<longrightarrow>
          block_no ino k s < 256 \<and> blocks_base s + (block_no ino k s + 1) * 4096 \<le> PHYS8MB)"

text \<open>Two states with the same kernel pages hold the same files.\<close>

definition fs_same :: "kernel \<Rightarrow> kernel \<Rightarrow> bool" where
  "fs_same s t \<longleftrightarrow> bootBlock t = bootBlock s \<and> (\<forall>x. 0 \<le> x \<and> x < PHYS8MB \<longrightarrow> peek t x = peek s x)"

lemma fs_same_simps:
  assumes "fs_same s t"
  shows "inode_ptr ino t = inode_ptr ino s" "blocks_base t = blocks_base s"
  using assms by (simp_all add: fs_same_def inode_ptr_def blocks_base_def)

lemma fs_same_file:
  assumes same: "fs_same s t" and "0 \<le> addr (bootBlock s)" and "0 \<le> ino"
    and "addr (bootBlock s) + (ino + 2) * 4096 \<le> PHYS8MB"
  shows "file_len ino t = file_len ino s"
    and "0 \<le> k \<Longrightarrow> k < 1023 \<Longrightarrow> block_no ino k t = block_no ino k s"
  using assms
  by (auto simp: file_len_def block_no_def fs_same_simps [OF same] fs_same_def inode_ptr_def
      intro!: le32_cong)

lemma file_ok_cong: "fs_same s t \<Longrightarrow> file_ok ino s \<Longrightarrow> file_ok ino t"
  using fs_same_file [of s t ino] fs_same_simps(2) [of s t] by (simp add: file_ok_def fs_same_def)

lemma le32_small: "le32 m a < 256 \<Longrightarrow> le32 m a = uint (m a)"
proof -
  assume *: "le32 m a < 256"
  have nn: "0 \<le> uint (m a)" "0 \<le> uint (m (a + 1))" "0 \<le> uint (m (a + 2))" "0 \<le> uint (m (a + 3))"
    by simp_all
  then have "uint (m (a + 1)) = 0" "uint (m (a + 2)) = 0" "uint (m (a + 3)) = 0"
    using * unfolding le32_def by linarith+
  then show ?thesis by (simp add: le32_def)
qed

lemma file_block:
  assumes ok: "file_ok ino s" and "0 \<le> k" and "4096 * k < file_len ino s"
  shows "block_no ino k s = uint (peek s (inode_ptr ino s + 4 + 4 * k))"
    and "0 \<le> blocks_base s + block_no ino k s * 4096"
    and "blocks_base s + block_no ino k s * 4096 + 4096 \<le> PHYS8MB"
proof -
  have k: "k \<in> {0..<1023}" using assms by (auto simp: file_ok_def)
  then have small: "block_no ino k s < 256" and b: "blocks_base s + (block_no ino k s + 1) * 4096 \<le> PHYS8MB"
    using ok assms(3) by (auto simp: file_ok_def)
  show "block_no ino k s = uint (peek s (inode_ptr ino s + 4 + 4 * k))"
    using small unfolding block_no_def by (rule le32_small)
  show "blocks_base s + block_no ino k s * 4096 + 4096 \<le> PHYS8MB" using b by simp
  show "0 \<le> blocks_base s + block_no ino k s * 4096"
    using ok by (simp add: file_ok_def blocks_base_def block_no_def)
qed

lemma file_byte_cong:
  assumes same: "fs_same s t" and ok: "file_ok ino s" and i: "0 \<le> i" "i < file_len ino s"
  shows "file_byte ino i t = file_byte ino i s"
proof -
  let ?k = "i div 4096"
  have k: "0 \<le> ?k" "4096 * ?k < file_len ino s" "?k < 1023"
    using i ok by (auto simp: file_ok_def)
  have "block_no ino ?k t = block_no ino ?k s"
    using fs_same_file(2) [OF same, of ino ?k] ok k by (simp add: file_ok_def)
  moreover have "0 \<le> i mod 4096" "i mod 4096 < 4096" by simp_all
  ultimately show ?thesis
    using file_block [OF ok k(1,2)] same
    by (simp add: file_byte_def fs_same_simps [OF same] fs_same_def)
qed

text \<open>One whole chunk at a block boundary.\<close>

lemma data_ptr_block:
  assumes "file_ok ino s" and "0 \<le> k" and "4096 * k < file_len ino s"
  shows "data_ptr ino (4096 * k) s = blocks_base s + block_no ino k s * 4096"
  using file_block(1) [OF assms] by (simp add: data_ptr_def blocks_base_def)

lemma read_chunk:
  assumes "file_ok ino s" and "0 \<le> k" and "4096 * k < file_len ino s" and "n \<le> 4096"
    and "2 \<le> user_page s" and "user_range buf (int n)" and x: "addr_ok x"
  shows "peek (copy_virt n buf (data_ptr ino (4096 * k) s) s) x
    = (if buf \<le> x \<and> x < buf + int n then file_byte ino (4096 * k + (x - buf)) s else peek s x)"
proof -
  note b = file_block [OF assms(1-3)]
  have "kernel_range (data_ptr ino (4096 * k) s) (int n)"
    using b assms(4) by (simp add: kernel_range_def data_ptr_block [OF assms(1-3)])
  note c = peek_copy_virt [OF assms(5,6) this x]
  have "file_byte ino (4096 * k + d) s = peek s (data_ptr ino (4096 * k) s + d)"
    if "0 \<le> d" "d < int n" for d
  proof -
    have d: "0 \<le> d" "d < 4096" using that assms(4) by auto
    then have "(4096 * k + d) div 4096 = k" "(4096 * k + d) mod 4096 = d"
      by (simp_all add: div_add1_eq)
    then show ?thesis by (simp add: file_byte_def data_ptr_block [OF assms(1-3)])
  qed
  then show ?thesis using c by auto
qed

text \<open>What a read changes: the bytes of the caller's buffer, by physical address, and the two position
  counters of the descriptor, which get the values \<open>d\<close> and \<open>b\<close>.\<close>

definition read_frame :: "int \<Rightarrow> int \<Rightarrow> int \<Rightarrow> int \<Rightarrow> int \<Rightarrow> kernel \<Rightarrow> kernel \<Rightarrow> bool" where
  "read_frame fd buf n d b s t \<longleftrightarrow>
     (\<exists>m. t = upd_fd fd (\<lambda>f. f\<lparr>db_num := d, byte_num := b\<rparr>) (s\<lparr>mem := m\<rparr>)
       \<and> (\<forall>p. (\<forall>x. buf \<le> x \<and> x < buf + n \<longrightarrow> vaddr s x \<noteq> p) \<longrightarrow> m p = mem s p))"

lemma mem_copy_virt_outside:
  "(\<And>x. dst \<le> x \<Longrightarrow> x < dst + int n \<Longrightarrow> vaddr s x \<noteq> p) \<Longrightarrow> mem (copy_virt n dst src s) p = mem s p"
proof (induction n arbitrary: dst src s)
  case (Suc n)
  have "mem (poke dst (peek s src) s) p = mem s p" using Suc.prems [of dst] by (simp add: poke_def)
  moreover have "mem (copy_virt n (dst + 1) (src + 1) (poke dst (peek s src) s)) p
      = mem (poke dst (peek s src) s) p"
    by (rule Suc.IH) (use Suc.prems in auto)
  ultimately show ?case by simp
qed simp

lemma read_frame_trans:
  assumes "read_frame fd buf m d b s t" and "read_frame fd (buf + m) n d' b' t u" and "0 \<le> m" "0 \<le> n"
  shows "read_frame fd buf (m + n) d' b' s u"
proof -
  obtain m1 where t: "t = upd_fd fd (\<lambda>f. f\<lparr>db_num := d, byte_num := b\<rparr>) (s\<lparr>mem := m1\<rparr>)"
    and m1: "\<And>p. (\<And>x. buf \<le> x \<Longrightarrow> x < buf + m \<Longrightarrow> vaddr s x \<noteq> p) \<Longrightarrow> m1 p = mem s p"
    using assms(1) unfolding read_frame_def by blast
  obtain m2 where u: "u = upd_fd fd (\<lambda>f. f\<lparr>db_num := d', byte_num := b'\<rparr>) (t\<lparr>mem := m2\<rparr>)"
    and m2: "\<And>p. (\<And>x. buf + m \<le> x \<Longrightarrow> x < buf + m + n \<Longrightarrow> vaddr t x \<noteq> p) \<Longrightarrow> m2 p = mem t p"
    using assms(2) unfolding read_frame_def by blast
  have v: "vaddr t = vaddr s" "mem t = m1"
    by (auto simp: t vaddr_def user_page_def upd_fd_def upd_pcb_def)
  have "u = upd_fd fd (\<lambda>f. f\<lparr>db_num := d', byte_num := b'\<rparr>) (s\<lparr>mem := m2\<rparr>)"
    unfolding t u by (simp add: upd_fd_def upd_pcb_def)
  moreover have "m2 p = mem s p" if "\<And>x. buf \<le> x \<Longrightarrow> x < buf + (m + n) \<Longrightarrow> vaddr s x \<noteq> p" for p
  proof -
    have "m2 p = m1 p" using m2 [of p] that assms(3) unfolding v by simp
    also have "\<dots> = mem s p" using m1 [of p] that assms(4) by simp
    finally show ?thesis .
  qed
  ultimately show ?thesis unfolding read_frame_def by blast
qed

lemma upd_fd_mem: "upd_fd fd f (s\<lparr>mem := m\<rparr>) = (upd_fd fd f s)\<lparr>mem := m\<rparr>"
  by (simp add: upd_fd_def upd_pcb_def)

lemma read_frame_copy:
  assumes "db_num (cur_fd s fd) = k"
  shows "read_frame fd buf (int n) (k + 1) 0 s
    (upd_fd fd (\<lambda>f. f\<lparr>byte_num := 0, db_num := db_num f + 1\<rparr>) (copy_virt n buf p s))"
proof -
  let ?m = "mem (copy_virt n buf p s)"
  have "upd_fd fd (\<lambda>f. f\<lparr>byte_num := 0, db_num := db_num f + 1\<rparr>) (copy_virt n buf p s)
      = upd_fd fd (\<lambda>f. f\<lparr>db_num := k + 1, byte_num := 0\<rparr>) (s\<lparr>mem := ?m\<rparr>)"
    using assms
    by (subst copy_virt_frame, intro upd_fd_cong) (cases "cur_fd s fd", simp add: cur_fd_def cur_proc_def)
  then show ?thesis unfolding read_frame_def using mem_copy_virt_outside by blast
qed

lemma read_frame_copy_upd:
  assumes "db_num (cur_fd s fd) = k" and "byte_num (cur_fd s fd) = 0"
  shows "read_frame fd buf (int n) k (int n) s
    (copy_virt n buf p (upd_fd fd (\<lambda>f. f\<lparr>byte_num := byte_num f + int n\<rparr>) s))"
proof -
  let ?s = "upd_fd fd (\<lambda>f. f\<lparr>byte_num := byte_num f + int n\<rparr>) s"
  let ?m = "mem (copy_virt n buf p ?s)"
  have "?s = upd_fd fd (\<lambda>f. f\<lparr>db_num := k, byte_num := int n\<rparr>) s"
    using assms by (intro upd_fd_cong) (cases "cur_fd s fd", simp)
  then have "copy_virt n buf p ?s = upd_fd fd (\<lambda>f. f\<lparr>db_num := k, byte_num := int n\<rparr>) (s\<lparr>mem := ?m\<rparr>)"
    using copy_virt_frame [of n buf p ?s] unfolding upd_fd_mem by simp
  moreover have "vaddr ?s = vaddr s" "mem ?s = mem s"
    by (auto simp: vaddr_def user_page_def upd_fd_def upd_pcb_def)
  moreover from this have "?m p = mem s p" if "\<forall>x. buf \<le> x \<and> x < buf + int n \<longrightarrow> vaddr s x \<noteq> p" for p
    using that mem_copy_virt_outside [of buf n ?s p] by simp
  ultimately show ?thesis unfolding read_frame_def by blast
qed

lemma peek_copy_upd: "peek (copy_virt n b p (upd_fd fd f s)) = peek (copy_virt n b p s)"
proof (induction n arbitrary: b p s)
  case (Suc n)
  have "poke b v (upd_fd fd f s) = upd_fd fd f (poke b v s)" for v
    by (simp add: poke_def upd_fd_def upd_pcb_def vaddr_def user_page_def)
  then show ?case by (simp add: Suc.IH)
qed simp

lemma data_ptr_upd [simp]: "data_ptr ino off (upd_fd fd f s) = data_ptr ino off s"
  "file_len ino (upd_fd fd f s) = file_len ino s"
  by (simp_all add: data_ptr_def inode_ptr_def file_len_def)

text \<open>Reading \<open>n\<close> bytes from the start of block \<open>k\<close>, up to the end of the file at most: the bytes
  arrive in order whatever blocks they lie in, the result is the size of the last chunk only, and
  the position has moved by \<open>n\<close>.\<close>

definition at_block :: "int \<Rightarrow> int \<Rightarrow> int \<Rightarrow> kernel \<Rightarrow> bool" where
  "at_block fd ino k s \<longleftrightarrow> inode (cur_fd s fd) = ino \<and> db_num (cur_fd s fd) = k \<and> byte_num (cur_fd s fd) = 0"

lemma read_file_last:
  assumes at: "at_block fd ino k s" and ok: "file_ok ino s" and k: "0 \<le> k"
    and n: "n \<le> 4096" and len: "4096 * k + int n \<le> file_len ino s"
  shows "read_file fd buf (int n) s = Some (int n,
     copy_virt n buf (data_ptr ino (4096 * k) s) (upd_fd fd (\<lambda>f. f\<lparr>byte_num := byte_num f + int n\<rparr>) s))"
proof -
  have "4096 * k + int n \<le> 1023 * 4096" using ok len by (simp add: file_ok_def)
  then show ?thesis
    using at k n len
    by (subst read_file.simps) (simp add: at_block_def Let_def read_data_def mult.commute)
qed

lemma read_file_first:
  assumes at: "at_block fd ino k s" and ok: "file_ok ino s" and k: "0 \<le> k"
    and n: "4096 < n" and len: "4096 * k + int n \<le> file_len ino s"
  shows "read_file fd buf (int n) s = read_file fd (buf + 4096) (int (n - 4096))
     (upd_fd fd (\<lambda>f. f\<lparr>byte_num := 0, db_num := db_num f + 1\<rparr>)
       (copy_virt 4096 buf (data_ptr ino (4096 * k) s) s))"
proof -
  have b: "4096 * k + int n \<le> 1023 * 4096" using ok len by (simp add: file_ok_def)
  have "s32 (int n - 4096) = int (n - 4096)" using b k n by simp
  then show ?thesis
    using at k n len b
    by (subst read_file.simps) (simp add: at_block_def Let_def read_data_def mult.commute upd_fd_upd_fd)
qed

definition file_read :: "int \<Rightarrow> int \<Rightarrow> int \<Rightarrow> nat \<Rightarrow> int \<Rightarrow> kernel \<Rightarrow> int \<Rightarrow> kernel \<Rightarrow> bool" where
  "file_read fd ino k n buf s r t \<longleftrightarrow>
     r = (if n = 0 then 0 else (int n - 1) mod 4096 + 1)
     \<and> (\<exists>d. 4096 * d + r = 4096 * k + int n \<and> read_frame fd buf (int n) d r s t)
     \<and> (\<forall>x. addr_ok x \<longrightarrow> peek t x
         = (if buf \<le> x \<and> x < buf + int n then file_byte ino (4096 * k + (x - buf)) s else peek s x))"

lemma file_read_last:
  assumes at: "at_block fd ino k s" and ok: "file_ok ino s" and k: "0 \<le> k" and n: "n \<le> 4096"
    and len: "4096 * k + int n \<le> file_len ino s" and up: "2 \<le> user_page s" and rng: "user_range buf (int n)"
  shows "file_read fd ino k n buf s (int n)
    (copy_virt n buf (data_ptr ino (4096 * k) s) (upd_fd fd (\<lambda>f. f\<lparr>byte_num := byte_num f + int n\<rparr>) s))"
  unfolding file_read_def
proof (intro conjI allI impI)
  show "int n = (if n = 0 then 0 else (int n - 1) mod 4096 + 1)" using n by simp
  show "\<exists>d. 4096 * d + int n = 4096 * k + int n \<and> read_frame fd buf (int n) d (int n) s
      (copy_virt n buf (data_ptr ino (4096 * k) s) (upd_fd fd (\<lambda>f. f\<lparr>byte_num := byte_num f + int n\<rparr>) s))"
    using read_frame_copy_upd [of s fd k] at by (auto simp: at_block_def)
  fix x assume x: "addr_ok x"
  show "peek (copy_virt n buf (data_ptr ino (4096 * k) s) (upd_fd fd (\<lambda>f. f\<lparr>byte_num := byte_num f + int n\<rparr>) s)) x
    = (if buf \<le> x \<and> x < buf + int n then file_byte ino (4096 * k + (x - buf)) s else peek s x)"
  proof (cases "n = 0")
    case False
    then have "4096 * k < file_len ino s" using len by simp
    from read_chunk [OF ok k this n up rng x] show ?thesis by (simp only: peek_copy_upd)
  qed auto
qed

lemma mod_minus_4096: "(a - 4096 :: int) mod 4096 = a mod 4096"
  by (simp add: minus_mod_self2)

lemma file_read_step:
  assumes "file_read fd ino (k + 1) (n - 4096) (buf + 4096) t r u" and n: "4096 < n"
    and fr: "read_frame fd buf 4096 (k + 1) 0 s t" and same: "fs_same s t" and ok: "file_ok ino s" and k: "0 \<le> k"
    and len: "4096 * k + int n \<le> file_len ino s"
    and chunk: "\<And>x. addr_ok x \<Longrightarrow> peek t x
      = (if buf \<le> x \<and> x < buf + 4096 then file_byte ino (4096 * k + (x - buf)) s else peek s x)"
  shows "file_read fd ino k n buf s r u"
proof -
  have n': "int (n - 4096) = int n - 4096" "n - 4096 \<noteq> 0" "n \<noteq> 0" using n by simp_all
  note IH = assms(1) [unfolded file_read_def n']
  obtain d where d: "4096 * d + r = 4096 * (k + 1) + (int n - 4096)"
    and fr': "read_frame fd (buf + 4096) (int n - 4096) d r t u" using IH by blast
  have "read_frame fd buf (4096 + (int n - 4096)) d r s u"
    by (rule read_frame_trans [OF fr fr']) (use n in auto)
  then have "\<exists>d. 4096 * d + r = 4096 * k + int n \<and> read_frame fd buf (int n) d r s u"
    using d by auto
  moreover have "r = (int n - 1) mod 4096 + 1"
    using IH mod_minus_4096 [of "int n - 1"] n' by simp
  moreover have "peek u x = (if buf \<le> x \<and> x < buf + int n then file_byte ino (4096 * k + (x - buf)) s else peek s x)"
    if x: "addr_ok x" for x
  proof (cases "buf + 4096 \<le> x \<and> x < buf + int n")
    case True
    have e: "4096 * (k + 1) + (x - (buf + 4096)) = 4096 * k + (x - buf)" by simp
    have "file_byte ino (4096 * k + (x - buf)) t = file_byte ino (4096 * k + (x - buf)) s"
      by (rule file_byte_cong [OF same ok]) (use True k len in auto)
    then show ?thesis using IH x True n unfolding e by auto
  next
    case False
    then have "peek u x = peek t x" using IH x by auto
    then show ?thesis using chunk [OF x] False n by auto
  qed
  ultimately show ?thesis using n' by (simp add: file_read_def)
qed

text \<open>One chunk of a longer read leaves the files as they were and the descriptor at the next block.\<close>

lemma read_first_chunk:
  assumes at: "at_block fd ino k s" and ok: "file_ok ino s" and k: "0 \<le> k" "4096 * k < file_len ino s"
    and up: "2 \<le> user_page s" and rng: "user_range buf 4096"
    and t: "t = upd_fd fd (\<lambda>f. f\<lparr>byte_num := 0, db_num := db_num f + 1\<rparr>)
      (copy_virt 4096 buf (data_ptr ino (4096 * k) s) s)"
  shows "at_block fd ino (k + 1) t" and "fs_same s t" and "read_frame fd buf 4096 (k + 1) 0 s t" and "user_page t = user_page s"
    and "\<And>x. addr_ok x \<Longrightarrow> peek t x
      = (if buf \<le> x \<and> x < buf + 4096 then file_byte ino (4096 * k + (x - buf)) s else peek s x)"
proof -
  show chunk: "peek t x
      = (if buf \<le> x \<and> x < buf + 4096 then file_byte ino (4096 * k + (x - buf)) s else peek s x)"
    if "addr_ok x" for x
    unfolding t using read_chunk [OF ok k _ up _ that, of 4096 buf] rng by simp
  show "fs_same s t"
    using chunk rng by (auto simp: fs_same_def addr_ok_def user_range_def t)
  show "read_frame fd buf 4096 (k + 1) 0 s t"
    using read_frame_copy [of s fd k buf 4096] at unfolding t by (simp add: at_block_def)
  show "at_block fd ino (k + 1) t" "user_page t = user_page s"
    using at by (simp_all add: at_block_def t)
qed

lemma read_file_blocks:
  assumes "at_block fd ino k s" and "file_ok ino s" and "0 \<le> k"
    and "4096 * k + int n \<le> file_len ino s" and "2 \<le> user_page s" and "user_range buf (int n)"
  shows "\<exists>r t. read_file fd buf (int n) s = Some (r, t) \<and> file_read fd ino k n buf s r t"
  using assms
proof (induction n arbitrary: k s buf rule: less_induct)
  case (less n)
  note at = less.prems(1) and ok = less.prems(2) and k = less.prems(3) and len = less.prems(4)
    and up = less.prems(5) and rng = less.prems(6)
  show ?case
  proof (cases "n \<le> 4096")
    case True
    show ?thesis
      unfolding read_file_last [OF at ok k True len]
      using file_read_last [OF at ok k True len up rng] by blast
  next
    case False
    then have n: "4096 < n" by simp
    define t where "t = upd_fd fd (\<lambda>f. f\<lparr>byte_num := 0, db_num := db_num f + 1\<rparr>)
      (copy_virt 4096 buf (data_ptr ino (4096 * k) s) s)"
    have kl: "4096 * k < file_len ino s" and rng1: "user_range buf 4096"
      using len n rng by (simp_all add: user_range_def)
    note chunk = read_first_chunk [OF at ok k kl up rng1 t_def]
    have "file_len ino t = file_len ino s"
      using fs_same_file(1) [OF chunk(2), of ino] ok by (simp add: file_ok_def)
    then have "\<exists>r u. read_file fd (buf + 4096) (int (n - 4096)) t = Some (r, u)
        \<and> file_read fd ino (k + 1) (n - 4096) (buf + 4096) t r u"
      using n len k rng up chunk
      by (intro less.IH file_ok_cong [OF chunk(2) ok]) (simp_all add: user_range_def)
    then obtain r u where "read_file fd (buf + 4096) (int (n - 4096)) t = Some (r, u)"
      and IH: "file_read fd ino (k + 1) (n - 4096) (buf + 4096) t r u" by blast
    moreover have "file_read fd ino k n buf s r u"
      by (rule file_read_step [OF IH n chunk(3,2) ok k len chunk(5)])
    ultimately show ?thesis
      unfolding read_file_first [OF at ok k n len] t_def [symmetric] by blast
  qed
qed

end
