(* ===== verification/Terminal.thy ===== *)
theory Terminal
  imports FileSys
begin

text \<open>
  The terminal driver (\<open>terminal.c\<close>): \<open>terminal_read\<close> waits for Enter and copies the typed line,
  \<open>terminal_write\<close> prints and empties the typing buffer.
\<close>

section \<open>Operations\<close>

definition terminal_clr :: "kernel \<Rightarrow> kernel" where
  "terminal_clr s = clear s"

definition terminal_init :: "kernel \<Rightarrow> kernel" where
  "terminal_init s = terminal_clr s"

text \<open>The busy wait: \<open>irqs\<close> is what interrupts do between successive looks at \<open>enter_pressed\<close>.\<close>

fun term_wait :: "(kernel \<Rightarrow> kernel) list \<Rightarrow> kernel \<Rightarrow> kernel option" where
  "term_wait irqs s =
     (if enter_pressed (cur_term s) = 1 then Some s
      else (case irqs of [] \<Rightarrow> None | irq # irqs \<Rightarrow> term_wait irqs (irq s)))"

declare term_wait.simps [simp del]

lemma cur_term_poke [simp]: "cur_term (poke a b s) = cur_term s"
  by (simp add: cur_term_def)

function term_copy :: "int \<Rightarrow> int \<Rightarrow> int \<Rightarrow> kernel \<Rightarrow> (int \<times> kernel) option" where
  "term_copy i buff nbytes s =
     (if i < typing_buf_idx (cur_term s) + 1
      then if nbytes - 1 < i then Some (i, s)
           else Option.bind (fetch (typing_buf (cur_term s)) i)
                  (\<lambda>c. term_copy (i + 1) buff nbytes (poke (buff + i) c s))
      else Some (i, s))"
  by pat_completeness auto
termination
  by (relation "measure (\<lambda>(i, _, _, s). nat (typing_buf_idx (cur_term s) + 1 - i))") auto

declare term_copy.simps [simp del]

definition terminal_read :: "(kernel \<Rightarrow> kernel) list \<Rightarrow> int \<Rightarrow> int \<Rightarrow> int \<Rightarrow> kernel \<Rightarrow> (int \<times> kernel) option" where
  "terminal_read irqs fd buff nbytes s =
     Option.bind (term_wait irqs (sti s)) (\<lambda>s.
     Option.bind (term_copy 0 buff nbytes s) (\<lambda>(i, s).
       Some (i, upd_term (\<lambda>t. t\<lparr>enter_pressed := 0\<rparr>) s)))"

primrec puts_mem :: "nat \<Rightarrow> int \<Rightarrow> kernel \<Rightarrow> kernel" where
  "puts_mem 0 p s = s"
| "puts_mem (Suc n) p s =
     (let s = (if peek s p = 9 then print_msg ''   '' s else putc (peek s p) s)
      in puts_mem n (p + 1) s)"

definition terminal_puts :: "int \<Rightarrow> int \<Rightarrow> kernel \<Rightarrow> kernel" where
  "terminal_puts buff numChars s = puts_mem (nat numChars) buff s"

definition terminal_write :: "int \<Rightarrow> int \<Rightarrow> int \<Rightarrow> kernel \<Rightarrow> int \<times> kernel" where
  "terminal_write fd buff numToWrite s =
     (let s = terminal_puts buff numToWrite s;
          s = upd_term (\<lambda>t. t\<lparr>typing_buf := fold (\<lambda>i b. b[i := 0]) [0..<122] (typing_buf t)\<rparr>) s;
          s = upd_term (\<lambda>t. t\<lparr>typing_buf_idx := 0\<rparr>) s
      in (numToWrite, s))"

definition terminal_open :: "u8 list \<Rightarrow> int" where
  "terminal_open filename = 0"

definition terminal_close :: "int \<Rightarrow> int" where
  "terminal_close fd = 0"

definition bad_call :: "int \<Rightarrow> kernel \<Rightarrow> int \<times> kernel" where
  "bad_call ignore s = (- 1, s)"

definition bad_read_write :: "int \<Rightarrow> int \<Rightarrow> int \<Rightarrow> kernel \<Rightarrow> int \<times> kernel" where
  "bad_read_write fd_ignore buf_ignore n_ignore s = (- 1, s)"

section \<open>What a read returns\<close>

text \<open>With Enter pressed, \<open>terminal_read\<close> copies the typed line with its newline, cut at the
  caller's size.\<close>

definition line_count :: "int \<Rightarrow> kernel \<Rightarrow> int" where
  "line_count nbytes s = max 0 (min nbytes (typing_buf_idx (cur_term s) + 1))"

lemma term_copy_spec:
  assumes "0 \<le> i" and "i \<le> line_count nbytes s"
    and "typing_buf_idx (cur_term s) < int (length (typing_buf (cur_term s)))"
    and "2 \<le> user_page s" and "user_range (buff + i) (line_count nbytes s - i)"
  shows "\<exists>t. term_copy i buff nbytes s = Some (line_count nbytes s, t)
    \<and> t = s\<lparr>mem := mem t\<rparr>
    \<and> (\<forall>x. addr_ok x \<longrightarrow> peek t x
        = (if buff + i \<le> x \<and> x < buff + line_count nbytes s
           then typing_buf (cur_term s) ! nat (x - buff) else peek s x))"
  using assms
proof (induction i buff nbytes s rule: term_copy.induct)
  case (1 i buff nbytes s)
  let ?n = "line_count nbytes s" and ?b = "typing_buf (cur_term s)"
  show ?case
  proof (cases "i < ?n")
    case False
    then have "i = ?n" using "1.prems" by simp
    then have "term_copy i buff nbytes s = Some (i, s)"
      by (subst term_copy.simps) (auto simp: line_count_def)
    then show ?thesis using \<open>i = ?n\<close> by auto
  next
    case True
    then have idx: "i < typing_buf_idx (cur_term s) + 1" "\<not> nbytes - 1 < i"
      using "1.prems"(1) by (auto simp: line_count_def max_def min_def split: if_splits)
    have f: "fetch ?b i = Some (?b ! nat i)" using idx "1.prems" by simp
    let ?s = "poke (buff + i) (?b ! nat i) s"
    have lc: "line_count nbytes ?s = ?n" by (simp add: line_count_def)
    have bi: "addr_ok (buff + i)" using "1.prems"(5) True by (simp add: addr_ok_def user_range_def)
    have "term_copy i buff nbytes s = term_copy (i + 1) buff nbytes ?s"
      using idx by (subst term_copy.simps) (simp add: f)
    moreover have "\<exists>t. term_copy (i + 1) buff nbytes ?s = Some (?n, t)
        \<and> t = ?s\<lparr>mem := mem t\<rparr>
        \<and> (\<forall>x. addr_ok x \<longrightarrow> peek t x
          = (if buff + (i + 1) \<le> x \<and> x < buff + ?n then ?b ! nat (x - buff) else peek ?s x))"
      using "1.IH" [OF idx f, unfolded cur_term_poke] "1.prems" True
      by (simp add: lc user_range_def)
    then obtain t where t: "term_copy (i + 1) buff nbytes ?s = Some (?n, t)" "t = ?s\<lparr>mem := mem t\<rparr>"
      and pt: "\<And>x. addr_ok x \<Longrightarrow> peek t x
          = (if buff + (i + 1) \<le> x \<and> x < buff + ?n then ?b ! nat (x - buff) else peek ?s x)"
      by blast
    have "t = s\<lparr>mem := mem t\<rparr>" using t(2) by (metis kernel.update_convs(1) poke_def kernel.surjective)
    moreover have "peek t x = (if buff + i \<le> x \<and> x < buff + ?n then ?b ! nat (x - buff) else peek s x)"
      if "addr_ok x" for x
      using pt [OF that] peek_poke [OF "1.prems"(4) bi that, of "?b ! nat i"] True by auto
    ultimately show ?thesis using t(1) by auto
  qed
qed

lemma peek_upd_term: "peek (upd_term f s) = peek s"
  by (simp add: upd_term_def peek_def vaddr_def user_page_def fun_eq_iff)

lemma terminal_read_ready:
  assumes "enter_pressed (cur_term s) = 1" and "0 \<le> typing_buf_idx (cur_term s)"
    and "typing_buf_idx (cur_term s) < int (length (typing_buf (cur_term s)))"
    and "2 \<le> user_page s" and "user_range buff (line_count nbytes s)"
  shows "\<exists>t. terminal_read [] fd buff nbytes s = Some (line_count nbytes s, t)
    \<and> enter_pressed (cur_term t) = 0
    \<and> (\<forall>x. addr_ok x \<longrightarrow> peek t x
        = (if buff \<le> x \<and> x < buff + line_count nbytes s
           then typing_buf (cur_term s) ! nat (x - buff) else peek s x))"
proof -
  have sti: "cur_term (sti s) = cur_term s" "user_page (sti s) = user_page s"
      "line_count nbytes (sti s) = line_count nbytes s" "peek (sti s) = peek s"
    by (simp_all add: sti_def cur_term_def user_page_def line_count_def peek_def vaddr_def fun_eq_iff)
  have "term_wait [] (sti s) = Some (sti s)" using assms(1) by (subst term_wait.simps) simp
  moreover obtain t where "term_copy 0 buff nbytes (sti s) = Some (line_count nbytes s, t)"
    and "\<And>x. addr_ok x \<Longrightarrow> peek t x
        = (if buff \<le> x \<and> x < buff + line_count nbytes s
           then typing_buf (cur_term s) ! nat (x - buff) else peek s x)"
    using term_copy_spec [of 0 nbytes "sti s" buff, unfolded sti] assms(3-5)
    by (auto simp: line_count_def)
  ultimately show ?thesis
    by (simp add: terminal_read_def peek_upd_term)
qed

section \<open>What a write prints\<close>

lemma puts_mem_frame: "console_frame s t \<Longrightarrow> console_frame s (puts_mem n p t)"
  by (induction n arbitrary: p t)
     (auto simp: Let_def print_msg_def console_frame_fold_putc console_frame_putc)

lemma cursor_ok_puts_mem: "cursor_ok s \<Longrightarrow> cursor_ok (puts_mem n p s)"
  by (induction n arbitrary: p s) (auto simp: Let_def print_msg_def fold_putc_refines)

lemma zero_all: "fold (\<lambda>i b. b[i := 0]) [0..<n] xs = replicate (min n (length xs)) (0 :: u8) @ drop n xs"
proof (induction n)
  case (Suc n)
  show ?case
  proof (cases "n < length xs")
    case True
    then obtain y ys where "drop n xs = y # ys" by (metis Cons_nth_drop_Suc)
    moreover from this have "drop (Suc n) xs = ys" by (metis drop_Suc list.sel(3) tl_drop)
    ultimately show ?thesis
      using Suc True by (simp add: list_update_append replicate_append_same [symmetric] min_def)
  next
    case False
    then show ?thesis using Suc by (simp add: min_def list_update_beyond)
  qed
qed simp

lemma terminal_write_result: "fst (terminal_write fd buff n s) = n"
  by (simp add: terminal_write_def Let_def)

lemma terminal_write_clears:
  "length (typing_buf (cur_term (terminal_puts buff n s))) = 122 \<Longrightarrow>
   typing_buf (cur_term (snd (terminal_write fd buff n s))) = replicate 122 0
   \<and> typing_buf_idx (cur_term (snd (terminal_write fd buff n s))) = 0"
  by (simp add: terminal_write_def Let_def zero_all)

text \<open>Printing writes video memory only, so the user's buffer is the same throughout.\<close>

lemma put_cell_outside:
  "0 \<le> i \<Longrightarrow> i < 2000 \<Longrightarrow> x < VIDEO \<or> VIDEO + 4000 \<le> x \<Longrightarrow> put_cell i c m x = m x"
  by (auto simp: put_cell_def)

lemma scroll_outside:
  assumes "x < VIDEO \<or> VIDEO + 4000 \<le> x" and "n \<le> 2000"
  shows "fold scroll_cell [0..<n] m x = m x"
  using assms(2) by (induction n) (auto simp: scroll_cell_def put_cell_outside [OF _ _ assms(1)])

lemma putc_outside:
  assumes "cursor_ok s" and "x < VIDEO \<or> VIDEO + 4000 \<le> x"
  shows "mem (putc c s) x = mem s x"
proof -
  have "put_cell (80 * screen_y (cur_term s) + k) c m x = m x" if "0 \<le> k" "k < 80" for k c m
    by (rule put_cell_outside [OF _ _ assms(2)]) (use assms(1) that in \<open>simp_all add: cursor_ok_def\<close>)
  then show ?thesis
    using assms(1) by (simp add: putc_def Let_def scroll_outside [OF assms(2)] cursor_ok_def)
qed

lemma peek_putc:
  assumes "cursor_ok s" and "2 \<le> user_page s" and "user_range x 1"
  shows "peek (putc c s) x = peek s x"
proof -
  have fr: "console_frame s (putc c s)" by (simp add: console_frame_putc)
  then obtain m p i f where t: "putc c s = s\<lparr>mem := m, ports := p, iflag := i, terminals := f\<rparr>"
    unfolding console_frame_def by blast
  have v: "vaddr (putc c s) x = vaddr s x" by (simp add: t vaddr_def user_page_def)
  have "VIDEO + 4000 \<le> vaddr s x" using assms(2,3) by (simp add: vaddr_def user_range_def)
  then show ?thesis unfolding peek_def v using putc_outside [OF assms(1)] by blast
qed

lemma peek_fold_putc:
  assumes "cursor_ok s" and "2 \<le> user_page s" and "user_range x 1"
  shows "peek (fold putc cs s) x = peek s x \<and> user_page (fold putc cs s) = user_page s"
  using assms
proof (induction cs arbitrary: s)
  case (Cons c cs)
  have fr: "console_frame s (putc c s)" by (simp add: console_frame_putc)
  then obtain m p i f where t: "putc c s = s\<lparr>mem := m, ports := p, iflag := i, terminals := f\<rparr>"
    unfolding console_frame_def by blast
  have "user_page (putc c s) = user_page s" by (simp add: t user_page_def)
  then show ?case
    using Cons.IH [of "putc c s"] Cons.prems peek_putc [OF Cons.prems] putc_refines [OF Cons.prems(1)]
    by simp
qed simp

text \<open>What the bytes of a write put on the screen: a tab is three spaces.\<close>

definition shown_as :: "u8 \<Rightarrow> u8 list" where
  "shown_as b = (if b = 9 then [32, 32, 32] else [b])"

lemma puts_mem_step: "puts_mem (Suc n) p s = puts_mem n (p + 1) (fold putc (shown_as (peek s p)) s)"
  by (simp add: shown_as_def print_msg_def str_def)

lemma region_Suc: "region m a (Suc n) = m a # region m (a + 1) n"
  by (rule nth_equalityI) (auto simp: nth_Cons' algebra_simps of_nat_diff)

lemma puts_mem_refines:
  assumes "cursor_ok s" and "2 \<le> user_page s" and "user_range p (int n)"
  shows "con_abs (puts_mem n p s) = fold a_putc (concat (map shown_as (region (peek s) p n))) (con_abs s)"
  using assms
proof (induction n arbitrary: p s)
  case (Suc n)
  let ?t = "fold putc (shown_as (peek s p)) s"
  have up: "user_page ?t = user_page s"
    using peek_fold_putc [OF Suc.prems(1,2), of p] Suc.prems(3) by (simp add: user_range_def)
  have "region (peek ?t) (p + 1) n = region (peek s) (p + 1) n"
    using peek_fold_putc [OF Suc.prems(1,2)] Suc.prems(3)
    by (intro region_cong) (simp add: user_range_def)
  moreover have "con_abs (puts_mem n (p + 1) ?t)
      = fold a_putc (concat (map shown_as (region (peek ?t) (p + 1) n))) (con_abs ?t)"
    using Suc.prems up fold_putc_refines [OF Suc.prems(1)] by (intro Suc.IH) (auto simp: user_range_def)
  ultimately show ?case
    unfolding puts_mem_step using fold_putc_refines [OF Suc.prems(1)] by (simp add: region_Suc)
qed (simp add: region_def)

end
