(* ===== verification/Paging.thy ===== *)
theory Paging
  imports FileSys
begin

text \<open>
  The page tables: \<open>paging_setup\<close> (\<open>paging.c\<close>) entry by entry, bit-field by bit-field, and the
  translation the processor makes from them.  The control register writes of \<open>page_enabling.S\<close>
  have no counterpart: the translation is what they switch on.
\<close>

section \<open>Bit-fields of the entries\<close>

text \<open>The first ten fields have the same place in all three unions: \<open>present\<close> 0, \<open>read_write\<close> 1,
  \<open>user_supervisor\<close> 2, \<open>write_through\<close> 3, \<open>cache_disabled\<close> 4, \<open>accessed\<close> 5, \<open>dirty\<close> (or
  \<open>reserved0\<close>) 6, \<open>page_size\<close> (or \<open>reserved0\<close>) 7, \<open>ignored\<close> 8, \<open>available\<close> 9 to 11.\<close>

type_synonym pte = "32 word"

definition set_flag :: "nat \<Rightarrow> pte \<Rightarrow> pte \<Rightarrow> pte" where
  "set_flag i v e = bf_put i 1 v e"

definition set_available :: "pte \<Rightarrow> pte \<Rightarrow> pte" where
  "set_available v e = bf_put 9 3 v e"

text \<open>The 20-bit address of a 4 KB entry or page table, and the fields of a 4 MB entry.\<close>

definition set_addr20 :: "pte \<Rightarrow> pte \<Rightarrow> pte" where
  "set_addr20 v e = bf_put 12 20 v e"

definition set_reserved0_MB :: "pte \<Rightarrow> pte \<Rightarrow> pte" where
  "set_reserved0_MB v e = bf_put 12 1 v e"

definition set_reserved_MB :: "pte \<Rightarrow> pte \<Rightarrow> pte" where
  "set_reserved_MB v e = bf_put 13 9 v e"

definition set_PB_addr_MB :: "pte \<Rightarrow> pte \<Rightarrow> pte" where
  "set_PB_addr_MB v e = bf_put 22 10 v e"

section \<open>paging_setup\<close>

abbreviation (input) "ACACHE \<equiv> 0xB9000 :: int"
abbreviation (input) "BCACHE \<equiv> 0xBA000 :: int"
abbreviation (input) "CCACHE \<equiv> 0xBB000 :: int"

definition first_table_entry :: "int \<Rightarrow> pte \<Rightarrow> pte" where
  "first_table_entry i e =
     (let e = set_flag 0 0 e;
          e = set_flag 1 0 e;
          e = (if i * 4096 = VIDEO then set_flag 1 1 (set_flag 0 1 e) else e);
          e = (if i * 4096 = ACACHE then set_flag 1 1 (set_flag 0 1 e) else e);
          e = (if i * 4096 = BCACHE then set_flag 1 1 (set_flag 0 1 e) else e);
          e = (if i * 4096 = CCACHE then set_flag 1 1 (set_flag 0 1 e) else e);
          e = set_flag 2 0 e;
          e = set_flag 3 0 e;
          e = set_flag 4 0 e;
          e = set_flag 5 0 e;
          e = set_flag 6 0 e;
          e = set_flag 7 0 e;
          e = set_flag 8 0 e;
          e = set_available 0 e
      in set_addr20 (word_of_int i) e)"

definition page_table_entry :: "int \<Rightarrow> pte \<Rightarrow> pte" where
  "page_table_entry i e =
     (let e = set_flag 0 0 e;
          e = set_flag 1 1 e;
          e = set_flag 2 1 e;
          e = set_flag 3 0 e;
          e = set_flag 4 0 e;
          e = set_flag 5 0 e;
          e = set_flag 6 0 e;
          e = set_flag 7 0 e;
          e = set_flag 8 0 e;
          e = set_available 0 e
      in if i = 1 then set_addr20 (word_of_int ACACHE) e
         else if i = 2 then set_addr20 (word_of_int BCACHE) e
         else if i = 3 then set_addr20 (word_of_int CCACHE) e
         else set_addr20 (word_of_int i) e)"

definition dir_entry_first :: "int \<Rightarrow> pte \<Rightarrow> pte" where
  "dir_entry_first table_addr e =
     (let e = set_flag 0 1 e;
          e = set_flag 1 1 e;
          e = set_flag 2 0 e;
          e = set_flag 3 0 e;
          e = set_flag 4 0 e;
          e = set_flag 5 0 e;
          e = set_flag 6 0 e;
          e = set_flag 7 0 e;
          e = set_flag 8 0 e;
          e = set_available 0 e
      in set_addr20 (word_of_int (table_addr div 4096)) e)"

definition dir_entry_MB :: "pte \<Rightarrow> pte \<Rightarrow> pte \<Rightarrow> pte \<Rightarrow> pte" where
  "dir_entry_MB prs psz pb e =
     (let e = set_flag 0 prs e;
          e = set_flag 1 prs e;
          e = set_flag 2 0 e;
          e = set_flag 3 0 e;
          e = set_flag 4 0 e;
          e = set_flag 5 0 e;
          e = set_flag 6 0 e;
          e = set_flag 7 psz e;
          e = set_flag 8 0 e;
          e = set_available 0 e;
          e = set_reserved0_MB 0 e;
          e = set_reserved_MB 0 e
      in set_PB_addr_MB pb e)"

definition paging_setup :: "kernel \<Rightarrow> kernel" where
  "paging_setup s =
     (let s = s\<lparr>first_page_table := update_each first_table_entry [0..1023] (first_page_table s)\<rparr>;
          s = s\<lparr>page_table := update_each page_table_entry [0..1023] (page_table s)\<rparr>;
          s = s\<lparr>page_directory := (page_directory s)
                 (0 := dir_entry_first (first_page_table_addr s) (page_directory s 0))\<rparr>;
          s = s\<lparr>page_directory := (page_directory s)(1 := dir_entry_MB 1 1 1 (page_directory s 1))\<rparr>
      in s\<lparr>page_directory := update_each
             (\<lambda>i e. if i = 34 then e else dir_entry_MB 0 0 (word_of_int i) e) [2..1023] (page_directory s)\<rparr>)"

section \<open>Address translation\<close>

definition pte_present :: "pte \<Rightarrow> bool" where "pte_present e = bit e 0"
definition pte_user :: "pte \<Rightarrow> bool" where "pte_user e = bit e 2"
definition pte_addr20 :: "pte \<Rightarrow> int" where "pte_addr20 e = uint (bf_get 12 20 e)"
definition pte_PB_addr :: "pte \<Rightarrow> int" where "pte_PB_addr e = uint (bf_get 22 10 e)"

text \<open>The table a directory entry points to, found by its address.\<close>

definition table_at :: "kernel \<Rightarrow> int \<Rightarrow> (int \<Rightarrow> pte) option" where
  "table_at s a =
     (if a = first_page_table_addr s then Some (first_page_table s)
      else if a = page_table_addr s then Some (page_table s) else None)"

text \<open>The physical address of a virtual one, \<open>None\<close> for a page fault; user mode needs the user bit
  on both levels.\<close>

definition translate :: "kernel \<Rightarrow> bool \<Rightarrow> int \<Rightarrow> int option" where
  "translate s user va =
     (let d = page_directory s (va div 0x400000) in
      if \<not> pte_present d \<or> user \<and> \<not> pte_user d then None
      else if bit d 7 then Some (pte_PB_addr d * 0x400000 + va mod 0x400000)
      else case table_at s (pte_addr20 d * 4096) of
             None \<Rightarrow> None
           | Some tab \<Rightarrow>
               (let e = tab (va div 4096 mod 1024) in
                if \<not> pte_present e \<or> user \<and> \<not> pte_user e then None
                else Some (pte_addr20 e * 4096 + va mod 4096)))"

section \<open>The map that paging_setup makes\<close>

lemma bit_set_flag [simp]: "i < 32 \<Longrightarrow> bit (set_flag i v e) j = (if j = i then bit v 0 else bit e j)"
  by (auto simp: set_flag_def bit_bf_put)

lemma bit_set_low [simp]:
  "j < 9 \<Longrightarrow> bit (set_available v e) j = bit e j"
  "j < 9 \<Longrightarrow> bit (set_addr20 v e) j = bit e j"
  "j < 9 \<Longrightarrow> bit (set_reserved0_MB v e) j = bit e j"
  "j < 9 \<Longrightarrow> bit (set_reserved_MB v e) j = bit e j"
  "j < 9 \<Longrightarrow> bit (set_PB_addr_MB v e) j = bit e j"
  by (simp_all add: set_available_def set_addr20_def set_reserved0_MB_def set_reserved_MB_def
      set_PB_addr_MB_def bit_bf_put)

lemma addr20_set [simp]: "pte_addr20 (set_addr20 w e) = uint (take_bit 20 w)"
  by (simp add: pte_addr20_def set_addr20_def bf_get_put)

lemma uint_take20: "0 \<le> v \<Longrightarrow> v < 2 ^ 20 \<Longrightarrow> uint (take_bit 20 (word_of_int v :: pte)) = v"
  by (simp only: unsigned_take_bit_eq uint_word_of_int_eq) (simp add: take_bit_int_eq_self)

lemma PB_addr_set [simp]: "pte_PB_addr (set_PB_addr_MB v e) = uint (take_bit 10 v)"
  by (simp add: pte_PB_addr_def set_PB_addr_MB_def bf_get_put)

text \<open>The fields of each entry, as the processor reads them.\<close>

lemma first_table_entry_fields:
  assumes "0 \<le> i" and "i < 1024"
  shows "pte_present (first_table_entry i e) = (i \<in> {0xB8, 0xB9, 0xBA, 0xBB})"
    and "\<not> pte_user (first_table_entry i e)" and "pte_addr20 (first_table_entry i e) = i"
  using assms by (auto simp: first_table_entry_def Let_def pte_present_def pte_user_def uint_take20)

lemma page_table_entry_fields:
  assumes "0 \<le> i" and "i < 1024"
  shows "\<not> pte_present (page_table_entry i e)" and "pte_user (page_table_entry i e)"
    and "pte_addr20 (page_table_entry i e) =
      (if i = 1 then 0xB9000 else if i = 2 then 0xBA000 else if i = 3 then 0xBB000 else i)"
  using assms by (auto simp: page_table_entry_def Let_def pte_present_def pte_user_def uint_take20)

lemma dir_entry_first_fields:
  assumes "0 \<le> a" and "a < 2 ^ 32"
  shows "pte_present (dir_entry_first a e)" and "\<not> pte_user (dir_entry_first a e)"
    and "\<not> bit (dir_entry_first a e) 7" and "pte_addr20 (dir_entry_first a e) = a div 4096"
  using assms by (auto simp: dir_entry_first_def Let_def pte_present_def pte_user_def uint_take20)

lemma dir_entry_MB_fields:
  "pte_present (dir_entry_MB p sz pb e) = bit p 0" "\<not> pte_user (dir_entry_MB p sz pb e)"
  "bit (dir_entry_MB p sz pb e) 7 = bit sz 0" "pte_PB_addr (dir_entry_MB p sz pb e) = uint (take_bit 10 pb)"
  by (simp_all add: dir_entry_MB_def Let_def pte_present_def pte_user_def)

lemma update_each_upto: "update_each f [a..b] t j = (if a \<le> j \<and> j \<le> b then f j (t j) else t j)" for a :: int
  by (simp add: update_each_at del: upto_rec_numeral)

lemma paging_setup_tables:
  "0 \<le> i \<Longrightarrow> i < 1024 \<Longrightarrow> first_page_table (paging_setup s) i = first_table_entry i (first_page_table s i)"
  "0 \<le> i \<Longrightarrow> i < 1024 \<Longrightarrow> page_table (paging_setup s) i = page_table_entry i (page_table s i)"
  "page_directory (paging_setup s) 0 = dir_entry_first (first_page_table_addr s) (page_directory s 0)"
  "page_directory (paging_setup s) 1 = dir_entry_MB 1 1 1 (page_directory s 1)"
  "page_directory (paging_setup s) 34 = page_directory s 34"
  "2 \<le> i \<Longrightarrow> i < 1024 \<Longrightarrow> i \<noteq> 34 \<Longrightarrow>
    page_directory (paging_setup s) i = dir_entry_MB 0 0 (word_of_int i) (page_directory s i)"
  "first_page_table_addr (paging_setup s) = first_page_table_addr s"
  by (simp_all add: paging_setup_def Let_def update_each_upto del: upto_rec_numeral)

text \<open>The kernel sees the four text pages and its own 4 MB at their physical addresses and nothing
  else; user mode sees nothing yet.\<close>

definition kernel_mapped :: "int \<Rightarrow> bool" where
  "kernel_mapped a \<longleftrightarrow> 0xB8000 \<le> a \<and> a < 0xBC000 \<or> PHYS4MB \<le> a \<and> a < PHYS8MB"

lemma translate_low:
  assumes a: "0 \<le> a" "a < 0x400000"
    and tab: "first_page_table_addr s mod 4096 = 0" "0 \<le> first_page_table_addr s"
      "first_page_table_addr s < 2 ^ 32"
  shows "translate (paging_setup s) user a = (if \<not> user \<and> kernel_mapped a then Some a else None)"
proof -
  let ?s = "paging_setup s"
  have d: "a div 0x400000 = 0" using a by simp
  have i: "0 \<le> a div 4096" "a div 4096 < 1024" "a div 4096 mod 1024 = a div 4096" using a by simp_all
  note dir = dir_entry_first_fields [OF tab(2,3)]
  have "first_page_table_addr s div 4096 * 4096 = first_page_table_addr s" using tab(1) by auto
  then have t: "table_at ?s (pte_addr20 (page_directory ?s 0) * 4096) = Some (first_page_table ?s)"
    by (simp add: paging_setup_tables dir table_at_def)
  have "(a div 4096 \<in> {0xB8, 0xB9, 0xBA, 0xBB}) = kernel_mapped a"
    using a by (auto simp: kernel_mapped_def)
  moreover have "a div 4096 * 4096 + a mod 4096 = a" by simp
  ultimately show ?thesis
    using t i by (simp add: translate_def Let_def d paging_setup_tables dir first_table_entry_fields)
qed

lemma translate_high:
  assumes a: "0x400000 \<le> a" "a < 2 ^ 32" and n34: "a div 0x400000 \<noteq> 34"
  shows "translate (paging_setup s) user a = (if \<not> user \<and> kernel_mapped a then Some a else None)"
proof (cases "a < 0x800000")
  case True
  with a(1) have d: "a div 0x400000 = 1" by auto
  moreover have "0x400000 + a mod 0x400000 = a" using div_mult_mod_eq [of a "0x400000"] d by simp
  ultimately show ?thesis
    using True a(1) by (simp add: translate_def Let_def paging_setup_tables dir_entry_MB_fields kernel_mapped_def)
next
  case False
  have d: "2 \<le> a div 0x400000" "a div 0x400000 < 1024" using False a(2) by auto
  then show ?thesis
    using False n34 a
    by (simp add: translate_def Let_def paging_setup_tables dir_entry_MB_fields kernel_mapped_def)
qed

end
