(* ===== verification/MemCopy.thy ===== *)
theory MemCopy
  imports Prelude
begin

text \<open>
  The block operations of \<open>lib.c\<close> that are inline assembly: \<open>memset\<close>, \<open>memset_word\<close>,
  \<open>memset_dword\<close>, \<open>memcpy\<close> and \<open>memmove\<close>, register by register on the byte memory, with the
  direction flag where the code sets it.  The lemmas show that the aligned and doubled loops
  compute what their C descriptions say, and for which overlaps.
\<close>

section \<open>String instructions\<close>

text \<open>\<open>rep stosb\<close>, \<open>rep stosw\<close> and \<open>rep stosl\<close> going up: the bytes of one element, lowest first,
  stored \<open>ecx\<close> times.\<close>

primrec put_bytes :: "int \<Rightarrow> u8 list \<Rightarrow> memory \<Rightarrow> memory" where
  "put_bytes a [] m = m"
| "put_bytes a (b # bs) m = put_bytes (a + 1) bs (m(a := b))"

primrec rep_stos :: "nat \<Rightarrow> int \<Rightarrow> u8 list \<Rightarrow> memory \<Rightarrow> memory" where
  "rep_stos 0 edi el m = m"
| "rep_stos (Suc ecx) edi el m = rep_stos ecx (edi + int (length el)) el (put_bytes edi el m)"

text \<open>\<open>rep movsl\<close> reads four bytes, then writes four; \<open>rep movsb\<close> goes up, or down under \<open>std\<close>.\<close>

primrec rep_movsl :: "nat \<Rightarrow> int \<Rightarrow> int \<Rightarrow> memory \<Rightarrow> memory" where
  "rep_movsl 0 edi esi m = m"
| "rep_movsl (Suc ecx) edi esi m = rep_movsl ecx (edi + 4) (esi + 4)
     (put_bytes edi [m esi, m (esi + 1), m (esi + 2), m (esi + 3)] m)"

primrec rep_movsb_down :: "nat \<Rightarrow> int \<Rightarrow> int \<Rightarrow> memory \<Rightarrow> memory" where
  "rep_movsb_down 0 edi esi m = m"
| "rep_movsb_down (Suc ecx) edi esi m = rep_movsb_down ecx (edi - 1) (esi - 1) (m(edi := m esi))"

section \<open>The routines\<close>

definition dword_bytes :: "int \<Rightarrow> u8 list" where
  "dword_bytes c = [word_of_int c, word_of_int (c div 256), word_of_int (c div 65536),
     word_of_int (c div 16777216)]"

text \<open>The byte loops at \<open>memset_top\<close> and \<open>memcpy_top\<close> run until the target is aligned; the
  remaining count is split into double words and a tail.\<close>

fun memset_top :: "nat \<Rightarrow> int \<Rightarrow> int \<Rightarrow> memory \<Rightarrow> memory" where
  "memset_top ecx edi eax m =
     (if ecx = 0 then m
      else if edi mod 4 = 0
      then rep_stos (ecx mod 4) (edi + 4 * int (ecx div 4)) [word_of_int eax]
             (rep_stos (ecx div 4) edi (dword_bytes eax) m)
      else memset_top (ecx - 1) (edi + 1) eax (m(edi := word_of_int eax)))"

definition memset :: "int \<Rightarrow> int \<Rightarrow> nat \<Rightarrow> memory \<Rightarrow> memory" where
  "memset s c n m =
     (let c = c mod 256
      in memset_top n s (s32 (c * 16777216 + c * 65536 + c * 256 + c)) m)"

definition memset_word :: "int \<Rightarrow> int \<Rightarrow> nat \<Rightarrow> memory \<Rightarrow> memory" where
  "memset_word s c n m = rep_stos n s [word_of_int c, word_of_int (c div 256)] m"

definition memset_dword :: "int \<Rightarrow> int \<Rightarrow> nat \<Rightarrow> memory \<Rightarrow> memory" where
  "memset_dword s c n m = rep_stos n s (dword_bytes c) m"

fun memcpy_top :: "nat \<Rightarrow> int \<Rightarrow> int \<Rightarrow> memory \<Rightarrow> memory" where
  "memcpy_top ecx edi esi m =
     (if ecx = 0 then m
      else if edi mod 4 = 0
      then copy_bytes (ecx mod 4) (edi + 4 * int (ecx div 4)) (esi + 4 * int (ecx div 4))
             (rep_movsl (ecx div 4) edi esi m)
      else memcpy_top (ecx - 1) (edi + 1) (esi + 1) (m(edi := m esi)))"

definition memcpy :: "int \<Rightarrow> int \<Rightarrow> nat \<Rightarrow> memory \<Rightarrow> memory" where
  "memcpy dest src n m = memcpy_top n dest src m"

text \<open>\<open>memmove\<close> also returns the direction flag it leaves behind (\<open>True\<close> after \<open>std\<close>).\<close>

definition memmove :: "int \<Rightarrow> int \<Rightarrow> nat \<Rightarrow> memory \<Rightarrow> memory \<times> bool" where
  "memmove dest src n m =
     (if dest \<le> src then (copy_bytes n dest src m, False)
      else (rep_movsb_down n (dest + int n - 1) (src + int n - 1) m, True))"

declare memset_top.simps [simp del] memcpy_top.simps [simp del]

section \<open>What they compute\<close>

definition fill_bytes :: "nat \<Rightarrow> int \<Rightarrow> u8 \<Rightarrow> memory \<Rightarrow> memory" where
  "fill_bytes n a b m = (\<lambda>x. if a \<le> x \<and> x < a + int n then b else m x)"

lemma rep_stos_byte: "rep_stos n a [b] m = fill_bytes n a b m"
proof (induction n arbitrary: a m)
  case 0
  then show ?case by (auto simp: fill_bytes_def fun_eq_iff)
next
  case (Suc n)
  then show ?case by (auto simp: fill_bytes_def fun_eq_iff)
qed

lemma rep_stos_dword: "rep_stos n a [b, b, b, b] m = fill_bytes (4 * n) a b m"
proof (induction n arbitrary: a m)
  case 0
  then show ?case by (auto simp: fill_bytes_def fun_eq_iff)
next
  case (Suc n)
  then show ?case by (auto simp: fill_bytes_def fun_eq_iff)
qed

lemma fill_bytes_add:
  "fill_bytes k (a + int n) b (fill_bytes n a b m) = fill_bytes (n + k) a b m"
  by (auto simp: fill_bytes_def fun_eq_iff)

lemma memset_top_spec:
  "dword_bytes eax = [b, b, b, b] \<Longrightarrow> memset_top n a eax m = fill_bytes n a b m"
proof (induction n a eax m rule: memset_top.induct)
  case (1 n a eax m)
  have b: "word_of_int eax = b" using 1(2) by (simp add: dword_bytes_def)
  consider "n = 0" | "n \<noteq> 0" "a mod 4 = 0" | "n \<noteq> 0" "a mod 4 \<noteq> 0" by blast
  then show ?case
  proof cases
    case 1
    then show ?thesis by (auto simp: memset_top.simps fill_bytes_def fun_eq_iff)
  next
    case 2
    then show ?thesis
      using fill_bytes_add [of "n mod 4" a "4 * (n div 4)" b m] \<open>dword_bytes eax = [b, b, b, b]\<close>
      by (simp add: memset_top.simps [of n a] b rep_stos_byte rep_stos_dword)
  next
    case 3
    have "memset_top (n - 1) (a + 1) eax (m(a := b)) = fill_bytes (n - 1) (a + 1) b (m(a := b))"
      using "1.IH" [OF 3] "1.prems" b by (simp add: fun_upd_def)
    also have "\<dots> = fill_bytes n a b m"
      using 3 by (auto simp: fill_bytes_def fun_eq_iff)
    finally show ?thesis
      using 3 b by (simp add: memset_top.simps [of n a])
  qed
qed

lemma byte_eq_mod: "x mod 256 = y mod 256 \<Longrightarrow> (word_of_int x :: u8) = word_of_int y"
  by (simp add: word_of_int_eq_iff take_bit_eq_mod)

lemma s32_wrap: "2147483648 \<le> v \<Longrightarrow> v < 4294967296 \<Longrightarrow> s32 v = v - 4294967296"
  by (simp add: s32_def mod_pos_geq)

lemma nested_div:
  fixes c :: int
  assumes "0 \<le> c" "c < 256"
  shows "(c + 256 * x) div 256 = x" "(c + 256 * (c + 256 * x)) div 65536 = x"
    "(c + 256 * (c + 256 * (c + 256 * x))) div 16777216 = x"
proof -
  have d: "(c + 256 * x) div 256 = x" for x using assms by simp
  show "(c + 256 * x) div 256 = x" by (rule d)
  have d2: "(c + 256 * (c + 256 * x)) div 65536 = x" for x
    using zdiv_zmult2_eq [of 256 "c + 256 * (c + 256 * x)" 256] by (simp only: d) simp
  show "(c + 256 * (c + 256 * x)) div 65536 = x" by (rule d2)
  show "(c + 256 * (c + 256 * (c + 256 * x))) div 16777216 = x"
    using zdiv_zmult2_eq [of 256 "c + 256 * (c + 256 * (c + 256 * x))" 65536] by (simp only: d d2) simp
qed

lemma memset_pattern:
  assumes c: "0 \<le> c" "c < 256"
  shows "dword_bytes (s32 (c * 16777216 + c * 65536 + c * 256 + c))
    = [word_of_int c, word_of_int c, word_of_int c, word_of_int c]"
proof -
  define h where "h = (if c < 128 then c else c - 256)"
  have s: "s32 (c * 16777216 + c * 65536 + c * 256 + c) = c + 256 * (c + 256 * (c + 256 * h))"
  proof (cases "c < 128")
    case True
    then show ?thesis using c by (simp add: h_def)
  next
    case False
    then show ?thesis using c by (subst s32_wrap) (simp_all add: h_def)
  qed
  have low: "(word_of_int (c + 256 * x) :: u8) = word_of_int c" for x
    by (rule byte_eq_mod) simp
  have high: "(word_of_int h :: u8) = word_of_int c"
    by (cases "c < 128") (simp_all add: h_def byte_eq_mod [of "c - 256" c])
  show ?thesis unfolding dword_bytes_def s nested_div [OF c] low high ..
qed

lemma memset_fills: "memset s c n m = fill_bytes n s (word_of_int c) m"
proof -
  have "0 \<le> c mod 256" "c mod 256 < 256" by simp_all
  from memset_top_spec [OF memset_pattern [OF this], of n s m]
  have "memset s c n m = fill_bytes n s (word_of_int (c mod 256)) m"
    by (simp add: memset_def Let_def)
  also have "(word_of_int (c mod 256) :: u8) = word_of_int c" by (rule byte_eq_mod) simp
  finally show ?thesis .
qed

section \<open>Copies\<close>

lemma rep_movsl_bytes:
  "dst \<le> src \<or> src + 4 * int n \<le> dst \<Longrightarrow> rep_movsl n dst src m = copy_bytes (4 * n) dst src m"
proof (induction n arbitrary: dst src m)
  case 0
  then show ?case by simp
next
  case (Suc n)
  have "4 * Suc n = Suc (Suc (Suc (Suc (4 * n))))" by simp
  then have "copy_bytes (4 * Suc n) dst src m = copy_bytes (4 * n) (dst + 4) (src + 4)
      (copy_bytes 4 dst src m)"
    using copy_bytes_add [of 4 "4 * n" dst src m] by simp
  also have "copy_bytes 4 dst src m = put_bytes dst [m src, m (src + 1), m (src + 2), m (src + 3)] m"
    using Suc.prems by (auto simp: eval_nat_numeral add.assoc)
  finally have "copy_bytes (4 * Suc n) dst src m = copy_bytes (4 * n) (dst + 4) (src + 4)
      (put_bytes dst [m src, m (src + 1), m (src + 2), m (src + 3)] m)" .
  moreover have "dst + 4 \<le> src + 4 \<or> src + 4 + 4 * int n \<le> dst + 4" using Suc.prems by auto
  ultimately show ?case unfolding rep_movsl.simps by (simp only: Suc.IH)
qed

lemma memcpy_top_bytes:
  "dst \<le> src \<or> src + int n \<le> dst \<Longrightarrow> memcpy_top n dst src m = copy_bytes n dst src m"
proof (induction n dst src m rule: memcpy_top.induct)
  case (1 n dst src m)
  consider "n = 0" | "n \<noteq> 0" "dst mod 4 = 0" | "n \<noteq> 0" "dst mod 4 \<noteq> 0" by blast
  then show ?case
  proof cases
    case 1
    then show ?thesis by (simp add: memcpy_top.simps)
  next
    case 2
    have "4 * int (n div 4) \<le> int n" by simp
    then have "dst \<le> src \<or> src + 4 * int (n div 4) \<le> dst" using "1.prems" by linarith
    then show ?thesis
      using 2 copy_bytes_add [of "4 * (n div 4)" "n mod 4" dst src m]
      by (simp add: memcpy_top.simps [of n dst] rep_movsl_bytes)
  next
    case 3
    then obtain k where k: "n = Suc k" by (cases n) auto
    have "memcpy_top k (dst + 1) (src + 1) (m(dst := m src)) = copy_bytes k (dst + 1) (src + 1) (m(dst := m src))"
      using "1.IH" [OF 3] "1.prems" k by (auto simp: fun_upd_def)
    then have "memcpy_top (n - 1) (dst + 1) (src + 1) (m(dst := m src)) = copy_bytes n dst src m"
      unfolding k by simp
    then show ?thesis using 3 by (simp only: memcpy_top.simps [of n dst]) simp
  qed
qed

lemma memcpy_copies:
  assumes "dst \<le> src \<or> src + int n \<le> dst"
  shows "memcpy dst src n m x = (if dst \<le> x \<and> x < dst + int n then m (src + (x - dst)) else m x)"
  unfolding memcpy_def memcpy_top_bytes [OF assms]
  using assms by (auto simp: copy_bytes_inside copy_bytes_outside)

lemma rep_movsb_down_at:
  "src < dst \<Longrightarrow> rep_movsb_down n (dst + int n - 1) (src + int n - 1) m x
     = (if dst \<le> x \<and> x < dst + int n then m (src + (x - dst)) else m x)"
proof (induction n arbitrary: m)
  case 0
  then show ?case by auto
next
  case (Suc n)
  then show ?case by auto
qed

text \<open>\<open>memmove\<close> is right for every overlap.\<close>

lemma memmove_copies:
  "fst (memmove dst src n m) x = (if dst \<le> x \<and> x < dst + int n then m (src + (x - dst)) else m x)"
  using rep_movsb_down_at [of src dst n m x]
  by (auto simp: memmove_def copy_bytes_inside copy_bytes_outside)

end
