(* ===== verification/SysCall.thy ===== *)
theory SysCall
  imports Terminal Paging MemCopy "HOL-Library.Monad_Syntax"
begin

text \<open>
  The system calls (\<open>systemcall.c\<close>), the terminal switch they are entangled with
  (\<open>scheduler.c\<close>) and the dispatcher of \<open>linkage.S\<close>.

  A call that may not come back to its caller has an \<open>outcome\<close>: it returned a value, it left for
  user mode at an address, it returned to the parent's \<open>execute\<close> with a value, it returned on
  another process's kernel stack, it is still waiting for an interrupt, or it
  accessed an array out of bounds.
\<close>

section \<open>parseCmd\<close>

function scan :: "(u8 \<Rightarrow> bool) \<Rightarrow> u8 list \<Rightarrow> nat \<Rightarrow> nat option" where
  "scan P xs i = (if i < length xs then (if P (xs ! i) then scan P xs (Suc i) else Some i) else None)"
  by pat_completeness auto
termination
  by (relation "measure (\<lambda>(_, xs, i). length xs - i)") auto

function scan_arg :: "u8 list \<Rightarrow> nat \<Rightarrow> nat option" where
  "scan_arg xs j =
     (if j < 122
      then (if j < length xs then (if xs ! j = 0 \<or> xs ! j = 10 then Some j else scan_arg xs (Suc j)) else None)
      else Some j)"
  by pat_completeness auto
termination
  by (relation "measure (\<lambda>(_, j). 122 - j)") auto

declare scan.simps [simp del] scan_arg.simps [simp del]

text \<open>\<open>cmd\<close> and \<open>arg\<close> are the caller's two local arrays, with whatever they held before.\<close>

definition parseCmd :: "u8 list \<Rightarrow> u8 list \<Rightarrow> u8 list \<Rightarrow> (u8 list \<times> u8 list) option" where
  "parseCmd input cmd arg = do {
     k \<leftarrow> scan (\<lambda>c. c = 32) input 0;
     i \<leftarrow> scan (\<lambda>c. c \<noteq> 10 \<and> c \<noteq> 0 \<and> c \<noteq> 32) input k;
     cmd \<leftarrow> strncpy cmd (drop k input) (i - k);
     cmd \<leftarrow> store cmd (int i) 0;
     i \<leftarrow> scan (\<lambda>c. c = 32) input i;
     j \<leftarrow> scan_arg input i;
     arg \<leftarrow> strncpy arg (drop i input) j;
     arg \<leftarrow> store arg (int j) 0;
     Some (cmd, arg)
   }"

section \<open>Calls on file descriptors\<close>

definition fd_invalid :: "int \<Rightarrow> kernel \<Rightarrow> bool" where
  "fd_invalid fd s \<longleftrightarrow> (fd < 0 \<or> SIZEOF_FDA \<le> fd) \<or> flags (cur_fd s fd) = 0"

definition buf_rejected :: "int \<Rightarrow> bool" where
  "buf_rejected buf \<longleftrightarrow> (s32 buf < PHYS4MB \<or> PHYS8MB \<le> s32 buf)
     \<and> (s32 buf \<le> USER_VIRTUAL \<or> USER_VIRTUAL + PHYS4MB < s32 buf)"

text \<open>The jump tables that \<open>entry\<close> fills in; a call through a NULL table is \<open>None\<close>.\<close>

definition fops_read ::
  "(kernel \<Rightarrow> kernel) list \<Rightarrow> fops_t \<Rightarrow> int \<Rightarrow> int \<Rightarrow> int \<Rightarrow> kernel \<Rightarrow> (int \<times> kernel) option" where
  "fops_read irqs f fd buf n s = (case f of
     File_fops \<Rightarrow> read_file fd buf n s
   | Dir_fops \<Rightarrow> Some (read_directory fd buf n s)
   | Rtc_fops \<Rightarrow> rtc_read irqs fd buf n s
   | Stdin_fops \<Rightarrow> terminal_read irqs fd buf n s
   | Stdout_fops \<Rightarrow> Some (bad_read_write fd buf n s))"

definition fops_write :: "fops_t \<Rightarrow> int \<Rightarrow> int \<Rightarrow> int \<Rightarrow> kernel \<Rightarrow> int \<times> kernel" where
  "fops_write f fd buf n s = (case f of
     File_fops \<Rightarrow> write_file fd buf n s
   | Dir_fops \<Rightarrow> write_dir fd buf n s
   | Rtc_fops \<Rightarrow> rtc_write fd buf n s
   | Stdin_fops \<Rightarrow> bad_read_write fd buf n s
   | Stdout_fops \<Rightarrow> terminal_write fd buf n s)"

definition fops_open :: "fops_t \<Rightarrow> int \<Rightarrow> kernel \<Rightarrow> int \<times> kernel" where
  "fops_open f fd s = (case f of
     File_fops \<Rightarrow> open_file fd s
   | Dir_fops \<Rightarrow> open_dir fd s
   | Rtc_fops \<Rightarrow> rtc_open fd s
   | Stdin_fops \<Rightarrow> bad_call fd s
   | Stdout_fops \<Rightarrow> bad_call fd s)"

definition fops_close :: "fops_t \<Rightarrow> int \<Rightarrow> kernel \<Rightarrow> int \<times> kernel" where
  "fops_close f fd s = (case f of
     File_fops \<Rightarrow> close_file fd s
   | Dir_fops \<Rightarrow> close_dir fd s
   | Rtc_fops \<Rightarrow> rtc_close fd s
   | Stdin_fops \<Rightarrow> bad_call fd s
   | Stdout_fops \<Rightarrow> bad_call fd s)"

definition sysRead :: "(kernel \<Rightarrow> kernel) list \<Rightarrow> int \<Rightarrow> int \<Rightarrow> int \<Rightarrow> kernel \<Rightarrow> (int \<times> kernel) option" where
  "sysRead irqs fd buf nbytes s =
     (if fd_invalid fd s then Some (- 1, s)
      else if buf_rejected buf then Some (- 1, s)
      else case fops (cur_fd s fd) of
             None \<Rightarrow> None
           | Some f \<Rightarrow> fops_read irqs f fd buf nbytes s)"

definition sysWrite :: "int \<Rightarrow> int \<Rightarrow> int \<Rightarrow> kernel \<Rightarrow> (int \<times> kernel) option" where
  "sysWrite fd buf nbytes s =
     (if fd_invalid fd s then Some (- 1, s)
      else if buf_rejected buf then Some (- 1, s)
      else case fops (cur_fd s fd) of
             None \<Rightarrow> None
           | Some f \<Rightarrow> Some (fops_write f fd buf nbytes s))"

text \<open>The first free descriptor.\<close>

definition free_fd :: "kernel \<Rightarrow> int" where
  "free_fd s = (case find (\<lambda>i. flags (cur_fd s i) = 0) [0, 1, 2, 3, 4, 5, 6, 7] of
     None \<Rightarrow> - 1 | Some i \<Rightarrow> i)"

definition sysOpen :: "u8 list \<Rightarrow> kernel \<Rightarrow> (int \<times> kernel) option" where
  "sysOpen filename s = do {
     r \<leftarrow> strncmp filename (cstr []) 1;
     if r = 0 then Some (- 1, s)
     else if free_fd s < 0 then Some (- 1, s)
     else do {
       (r, d) \<leftarrow> read_dentry_by_name filename s;
       case d of
         None \<Rightarrow> Some (- 1, s)
       | Some dentry \<Rightarrow>
           (let fd = free_fd s in
            if d_ftype dentry = 0
            then Some (fops_open Rtc_fops fd (upd_fd fd (\<lambda>f. f\<lparr>fops := Some Rtc_fops\<rparr>) s))
            else if d_ftype dentry = 1
            then Some (fops_open Dir_fops fd (upd_fd fd (\<lambda>f. f\<lparr>fops := Some Dir_fops\<rparr>) s))
            else if d_ftype dentry = 2
            then Some (fops_open File_fops fd
                   (upd_fd fd (\<lambda>f. f\<lparr>fops := Some File_fops, inode := d_inode dentry\<rparr>) s))
            else Some (- 1, s))
     }
   }"

definition sysClose :: "int \<Rightarrow> kernel \<Rightarrow> (int \<times> kernel) option" where
  "sysClose fd s =
     (if fd_invalid fd s then Some (- 1, s)
      else case fops (cur_fd s fd) of
             None \<Rightarrow> None
           | Some f \<Rightarrow> Some (fops_close f fd s))"

section \<open>vidmap and getargs\<close>

definition dword_le :: "int \<Rightarrow> u8 list" where
  "dword_le v = [word_of_int v, word_of_int (v div 256), word_of_int (v div 65536),
     word_of_int (v div 16777216)]"

definition vidmap :: "int \<Rightarrow> kernel \<Rightarrow> int \<times> kernel" where
  "vidmap screen_start s =
     (if screen_start = 0 \<or> PHYS4MB + USER_VIRTUAL \<le> screen_start \<or> screen_start \<le> PHYS4MB
      then (- 1, s)
      else
        (let e = page_directory s 34;
             e = set_flag 0 1 e;
             e = set_flag 1 1 e;
             e = set_flag 2 1 e;
             e = set_flag 3 0 e;
             e = set_flag 4 0 e;
             e = set_flag 5 0 e;
             e = set_flag 6 0 e;
             e = set_flag 7 0 e;
             e = set_flag 8 0 e;
             e = set_available 0 e;
             e = set_addr20 (word_of_int (page_table_addr s div 4096)) e;
             s = s\<lparr>page_directory := (page_directory s)(34 := e)\<rparr>;
             s = s\<lparr>page_table := (page_table s)
                     (0 := set_flag 0 1 (set_addr20 (word_of_int (VIDEO div 4096)) (page_table s 0)))\<rparr>
         in (0, poke_list screen_start (dword_le USER_VIDMAP) s)))"

text \<open>The source of the copy is the PCB from \<open>arg\<close> on.  The PCB lies at the low end of its process's
  kernel stack, with \<open>arg\<close> at offset 164 and 424 bytes in all: a copy that goes past \<open>arg\<close> takes
  \<open>cmd\<close>, the four saved stack pointers and then the bytes of the kernel page behind the PCB; past the
  end of that page nothing is mapped.\<close>

definition pcb_addr :: "kernel \<Rightarrow> int" where
  "pcb_addr s = PHYS8MB - OFFSET8KB * (curr_pcb s + 1)"

definition arg_bytes :: "nat \<Rightarrow> kernel \<Rightarrow> u8 list" where
  "arg_bytes k s =
     (let p = cur_proc s;
          own = p_arg p @ p_cmd p @ concat (map dword_le [p_esp p, p_ebp p, parent_esp p, parent_ebp p])
      in take k own @ region (peek s) (pcb_addr s + 164 + int (length own)) (k - length own))"

definition sysGetArgs :: "int \<Rightarrow> int \<Rightarrow> kernel \<Rightarrow> (int \<times> kernel) option" where
  "sysGetArgs buf nbytes s = do {
     n \<leftarrow> strlen (p_arg (cur_proc s));
     if n = 0 then Some (- 1, s)
     else if PHYS8MB < pcb_addr s + 164 + u32 nbytes then None
     else Some (0, poke_list buf (arg_bytes (nat (u32 nbytes)) s) s)
   }"

end
