(* ===== verification/Process.thy ===== *)
theory Process
  imports SysCall
begin

text \<open>
  Process control: \<open>sysExecute\<close> and \<open>sysHalt\<close> (\<open>systemcall.c\<close>), \<open>switch_terminal\<close>
  (\<open>scheduler.c\<close>), the exception handlers (\<open>idt.c\<close>) and the system call dispatcher
  (\<open>linkage.S\<close>).  The register values a process is resumed with are those its PCB holds.
\<close>

section \<open>Outcomes\<close>

text \<open>\<open>Waiting\<close> is a call whose read gives no result: it waits for an interrupt that is not among those given, runs for
  ever, or copies past the end of a full typing buffer.  \<open>Fault\<close> is an access outside an array or a jump through a
  table's end.\<close>

datatype outcome =
    Ret int kernel
  | ToUser int int kernel
  | ToParent int kernel
  | Resumed kernel
  | Waiting
  | Fault

text \<open>The address of a NUL-terminated string a user process passes, read up to the end of its page.\<close>

function str_at :: "int \<Rightarrow> kernel \<Rightarrow> u8 list" where
  "str_at p s =
     (if USER_VIRTUAL + PHYS4MB \<le> p then []
      else if peek s p = 0 then [0] else peek s p # str_at (p + 1) s)"
  by pat_completeness auto
termination
  by (relation "measure (\<lambda>(p, _). nat (USER_VIRTUAL + PHYS4MB - p))") auto

declare str_at.simps [simp del]

section \<open>Execute\<close>

definition stdin_fd :: fd_t where
  "stdin_fd = \<lparr>db_num = 0, byte_num = 0, inode = 0, fops = Some Stdin_fops, flags = 1\<rparr>"

definition stdout_fd :: fd_t where
  "stdout_fd = \<lparr>db_num = 0, byte_num = 0, inode = 0, fops = Some Stdout_fops, flags = 1\<rparr>"

text \<open>The descriptor array of a new process.\<close>

definition init_fda :: "(int \<Rightarrow> fd_t) \<Rightarrow> int \<Rightarrow> fd_t" where
  "init_fda old = update_each (\<lambda>j _. empty_fd) [2..7] (old(0 := stdin_fd, 1 := stdout_fd))"

definition full_procs :: "kernel \<Rightarrow> nat" where
  "full_procs s = length (filter (\<lambda>i. p_active (pcbarray s i) = 1) [0..5])"

text \<open>The user page entry is made present, writable, user, 4 MB, on the page of process \<open>pid\<close>.\<close>

definition map_user_page :: "int \<Rightarrow> kernel \<Rightarrow> kernel" where
  "map_user_page pid s =
     (let e = page_directory s 32;
          e = set_flag 0 1 e;
          e = set_flag 1 1 e;
          e = set_flag 2 1 e;
          e = set_flag 7 1 e;
          e = set_PB_addr_MB (word_of_int (PHYS_BASE_ADDR + pid)) e
      in s\<lparr>page_directory := (page_directory s)(32 := e)\<rparr>)"

definition set_tss :: "int \<Rightarrow> kernel \<Rightarrow> kernel" where
  "set_tss pid s = s\<lparr>tss_esp0 := u32 (P0KESP - OFFSET8KB * pid), tss_ss0 := 0x18\<rparr>"

text \<open>The PCB of a new process on an active terminal.\<close>

definition setup_pcb :: "int \<Rightarrow> u8 list \<Rightarrow> u8 list \<Rightarrow> kernel \<Rightarrow> kernel" where
  "setup_pcb newpid cmd arg s =
     (let s = upd_pcb newpid (\<lambda>p. p\<lparr>p_active := 1\<rparr>) s;
          s = upd_pcb newpid (\<lambda>p. p\<lparr>fda := init_fda (fda p)\<rparr>) s;
          s = upd_pcb newpid (\<lambda>p. p\<lparr>p_cmd := cmd\<rparr>) s;
          s = upd_pcb newpid (\<lambda>p. p\<lparr>p_arg := arg\<rparr>) s;
          s = (if t_active (cur_term s) \<noteq> 0
               then (let parent = curr_pid (cur_proc s)
                     in upd_pcb newpid (\<lambda>p. p\<lparr>parent_pid := parent\<rparr>) s) else s);
          s = upd_pcb newpid (\<lambda>p. p\<lparr>curr_pid := newpid\<rparr>) s;
          s = upd_term (\<lambda>t. t\<lparr>top_pid := newpid\<rparr>) s
      in s\<lparr>curr_pcb := newpid\<rparr>)"

text \<open>From the choice of the process on: map its page, load the image, leave for user mode.\<close>

definition load_and_go :: "(kernel \<Rightarrow> kernel) list \<Rightarrow> u8 list \<Rightarrow> int \<Rightarrow> int \<Rightarrow> kernel \<Rightarrow> outcome" where
  "load_and_go irqs cmd ino newpid s =
     (if newpid < 0 then Ret (- 2) (print_msg ''No processes available!'' s)
      else
        (let s = map_user_page newpid s;
             inode_len_b = file_len ino s
         in case sysOpen cmd s of
              None \<Rightarrow> Fault
            | Some (fd, s) \<Rightarrow>
                if fd < 0
                then Ret (- 2) (print_msg ''No available fds to read executable into user memory'' s)
                else case sysRead irqs fd (USER_VIRTUAL + IMG_OFFSET) (s32 inode_len_b) s of
                       None \<Rightarrow> Waiting
                     | Some (_, s) \<Rightarrow>
                         (case sysClose fd s of
                            None \<Rightarrow> Fault
                          | Some (_, s) \<Rightarrow>
                              (let eip_buf = read_data_local ino 24 4 s;
                                   eip = le32 (\<lambda>i. eip_buf ! nat i) 0;
                                   esp_temp = cpu_esp s;
                                   ebp_temp = cpu_ebp s;
                                   s = upd_pcb (curr_pcb s) (\<lambda>p. p\<lparr>parent_esp := esp_temp\<rparr>) s;
                                   s = upd_pcb (curr_pcb s) (\<lambda>p. p\<lparr>parent_ebp := ebp_temp\<rparr>) s;
                                   s = upd_term (\<lambda>t. t\<lparr>t_active := 1\<rparr>) s;
                                   s = set_tss newpid s;
                                   s = sti s
                               in ToUser eip USER_SP_VIRTUAL s))))"

definition sysExecute ::
  "(kernel \<Rightarrow> kernel) list \<Rightarrow> u8 list \<times> u8 list \<Rightarrow> u8 list \<Rightarrow> kernel \<Rightarrow> outcome" where
  "sysExecute irqs locals command s =
     (let s = sti s in
      if full_procs s = 6 \<and> t_active (cur_term s) = 1
      then Ret (- 2) (print_msg (''No Available Processes'' @ [CHR 0x0A]) s)
      else case parseCmd command (fst locals) (snd locals) of
             None \<Rightarrow> Fault
           | Some (cmd, arg) \<Rightarrow>
               (case read_dentry_by_name cmd s of
                  None \<Rightarrow> Fault
                | Some (r, None) \<Rightarrow> Ret (- 2) s
                | Some (r, Some temp) \<Rightarrow>
                    (let buf = read_data_local (d_inode temp) 0 4 s in
                     if buf ! 0 \<noteq> 0x7f \<or> buf ! 1 \<noteq> 0x45 \<or> buf ! 2 \<noteq> 0x4c \<or> buf ! 3 \<noteq> 0x46
                     then Ret (- 2) s
                     else if t_active (cur_term s) = 1
                     then (case find (\<lambda>i. p_active (pcbarray s i) = 0) [0, 1, 2, 3, 4, 5] of
                             None \<Rightarrow> Fault
                           | Some newpid \<Rightarrow>
                               load_and_go irqs cmd (d_inode temp) newpid (setup_pcb newpid cmd arg s))
                     else load_and_go irqs cmd (d_inode temp) (curr_pid (cur_proc s)) s)))"

section \<open>Terminal switch\<close>

text \<open>The PCB and screen of a terminal that is shown for the first time.\<close>

definition init_terminal :: "int \<Rightarrow> int \<Rightarrow> kernel \<Rightarrow> kernel" where
  "init_terminal leaving cur s =
     (let s = upd_term (\<lambda>t. t\<lparr>t_active := 0, screen_x := 0, screen_y := 0, typing_buf_idx := 0,
                top_pid := cur, enter_pressed := 0\<rparr>) s;
          s = upd_pcb cur (\<lambda>p. p\<lparr>p_active := 1\<rparr>) s;
          s = upd_pcb cur (\<lambda>p. p\<lparr>fda := init_fda (fda p)\<rparr>) s;
          s = upd_pcb cur (\<lambda>p. p\<lparr>curr_pid := cur\<rparr>) s;
          s = s\<lparr>curr_pcb := cur\<rparr>;
          s = s\<lparr>mem := memcpy (vidmem (terminals s leaving)) VIDEO 4096 (mem s)\<rparr>
      in s\<lparr>mem := memcpy VIDEO (vidmem (cur_term s)) 4096 (mem s)\<rparr>)"

definition switch_in :: "kernel \<Rightarrow> kernel" where
  "switch_in s =
     (let pid = top_pid (cur_term s);
          s = s\<lparr>curr_pcb := pid\<rparr>;
          s = set_tss pid s;
          s = s\<lparr>page_directory := (page_directory s)
                 (32 := set_PB_addr_MB (word_of_int (PHYS_BASE_ADDR + pid)) (page_directory s 32))\<rparr>;
          s = s\<lparr>mem := memcpy VIDEO (vidmem (cur_term s)) 4096 (mem s)\<rparr>
      in s\<lparr>cpu_esp := p_esp (pcbarray s pid), cpu_ebp := p_ebp (pcbarray s pid)\<rparr>)"

definition switch_out :: "int \<Rightarrow> kernel \<Rightarrow> kernel" where
  "switch_out terminal_num s =
     (let s = s\<lparr>interrupt_count := MAX_FREQ div 32\<rparr>;
          leaving = currentTerminal s;
          s = s\<lparr>currentTerminal := terminal_num\<rparr>;
          s = set_cursor (screen_x (cur_term s)) (screen_y (cur_term s)) s;
          espTemp = cpu_esp s;
          ebpTemp = cpu_ebp s;
          s = upd_pcb (top_pid (terminals s leaving)) (\<lambda>p. p\<lparr>p_esp := espTemp\<rparr>) s;
          s = upd_pcb (top_pid (terminals s leaving)) (\<lambda>p. p\<lparr>p_ebp := ebpTemp\<rparr>) s
      in s\<lparr>mem := memcpy (vidmem (terminals s leaving)) VIDEO 4096 (mem s)\<rparr>)"

definition switch_terminal ::
  "(kernel \<Rightarrow> kernel) list \<Rightarrow> u8 list \<times> u8 list \<Rightarrow> int \<Rightarrow> kernel \<Rightarrow> outcome" where
  "switch_terminal irqs locals terminal_num s =
     (let leaving = currentTerminal s;
          s = switch_out terminal_num s
      in if t_active (terminals s terminal_num) = 0
         then (case sysExecute irqs locals (cstr ''shell'') (init_terminal leaving terminal_num s) of
                 Ret r s \<Rightarrow> Resumed (switch_in s)
               | other \<Rightarrow> other)
         else Resumed (switch_in s))"

section \<open>Halt\<close>

primrec close_all :: "int list \<Rightarrow> kernel \<Rightarrow> kernel" where
  "close_all [] s = s"
| "close_all (i # is) s =
     close_all is (case fops (cur_fd s i) of None \<Rightarrow> s | Some f \<Rightarrow> snd (fops_close f i s))"

text \<open>From the value on: close, give the page and the kernel stack back to the parent, clear the PCB.\<close>

definition halt_to_parent :: "int \<Rightarrow> kernel \<Rightarrow> outcome" where
  "halt_to_parent status s =
     (let s = putc 10 s;
          s = s\<lparr>retval := (if status = 99 then 256 else status)\<rparr>;
          parent_id = parent_pid (cur_proc s) mod 256;
          s = close_all [0..7] s;
          s = map_user_page parent_id s;
          s = set_tss parent_id s;
          esp_temp = parent_esp (cur_proc s);
          ebp_temp = parent_ebp (cur_proc s);
          s = upd_pcb (curr_pcb s) (\<lambda>p. p\<lparr>p_active := 0, p_cmd := replicate 122 0,
                p_arg := replicate 122 0, curr_pid := 0, parent_pid := 0, parent_esp := 0,
                parent_ebp := 0\<rparr>) s;
          s = upd_term (\<lambda>t. t\<lparr>top_pid := parent_id\<rparr>) s
      in if NUM_PROC \<le> parent_id then Fault
         else (let s = s\<lparr>curr_pcb := parent_id\<rparr>;
                   s = s\<lparr>cpu_esp := esp_temp, cpu_ebp := ebp_temp\<rparr>;
                   s = sti s
               in ToParent (retval s) s))"

text \<open>A process without parent is a terminal's shell: it is started again.  Should the switch come
  back, the code goes on to halt with what is then the current process.\<close>

definition sysHalt :: "(kernel \<Rightarrow> kernel) list \<Rightarrow> u8 list \<times> u8 list \<Rightarrow> int \<Rightarrow> kernel \<Rightarrow> outcome" where
  "sysHalt irqs locals status s =
     (if parent_pid (cur_proc s) = - 1
      then (let s = clear s;
                s = upd_term (\<lambda>t. t\<lparr>t_active := 0\<rparr>) s
            in case switch_terminal irqs locals (currentTerminal s) s of
                 Resumed s \<Rightarrow> halt_to_parent status s
               | other \<Rightarrow> other)
      else halt_to_parent status s)"

section \<open>Exceptions\<close>

text \<open>The handlers \<open>intr0\<close> to \<open>intr19\<close>: a message, then the process is halted with status 99.\<close>

definition exception_text :: "nat \<Rightarrow> string option" where
  "exception_text n = map_of
    [(0, ''Divide Error Exception''), (1, ''Debug Exception''), (2, ''NMI Interrupt''),
     (3, ''Breakpoint Exception''), (4, ''Overflow Exception''),
     (5, ''BOUND Range Exceeded Exception''), (6, ''Invalid Opcode Exception''),
     (7, ''Device Not Available Exception''), (8, ''Double Fault Exception''),
     (9, ''Compressor Segment Overrun''), (10, ''Invalid TSS Exception''),
     (11, ''Segment Not Present''), (12, ''Stack Fault Exception''),
     (13, ''General Protection Exception''), (14, ''Page Fault Exception''),
     (16, ''x86 FPU Floating-Point Error''), (17, ''Alignment Check Exception''),
     (18, ''Machine-Check Exception''), (19, ''SIMD Floating-Point Exception'')] n"

definition intr :: "(kernel \<Rightarrow> kernel) list \<Rightarrow> u8 list \<times> u8 list \<Rightarrow> nat \<Rightarrow> kernel \<Rightarrow> outcome" where
  "intr irqs locals n s = (case exception_text n of
     None \<Rightarrow> Fault
   | Some msg \<Rightarrow> sysHalt irqs locals 99 (print_msg (msg @ [CHR 0x0A]) (cli s)))"

section \<open>The dispatcher\<close>

definition lift_call :: "outcome \<Rightarrow> (int \<times> kernel) option \<Rightarrow> outcome" where
  "lift_call none r = (case r of None \<Rightarrow> none | Some (v, s) \<Rightarrow> Ret v (sti s))"

text \<open>\<open>sys_call\<close>: numbers 1 to 8 have an entry in \<open>sys_call_table\<close>; 9 and 10 pass the range test
  and read past it.\<close>

definition sys_call ::
  "(kernel \<Rightarrow> kernel) list \<Rightarrow> u8 list \<times> u8 list \<Rightarrow> int \<Rightarrow> int \<Rightarrow> int \<Rightarrow> int \<Rightarrow> kernel \<Rightarrow> outcome" where
  "sys_call irqs locals eax ebx ecx edx s =
     (if 10 < u32 eax \<or> eax = 0 then Ret (- 1) (sti s)
      else if eax = 1 then sysHalt irqs locals (ebx mod 256) s
      else if eax = 2 then sysExecute irqs locals (str_at ebx s) s
      else if eax = 3 then lift_call Waiting (sysRead irqs ebx ecx edx s)
      else if eax = 4 then lift_call Fault (sysWrite ebx ecx edx s)
      else if eax = 5 then lift_call Fault (sysOpen (str_at ebx s) s)
      else if eax = 6 then lift_call Fault (sysClose ebx s)
      else if eax = 7 then lift_call Fault (sysGetArgs ebx ecx s)
      else if eax = 8 then lift_call Fault (Some (vidmap ebx s))
      else Fault)"

end
