(* ===== verification/Keyboard.thy ===== *)
theory Keyboard
  imports Process
begin

text \<open>
  The keyboard driver (\<open>kb.c\<close>): the scancode switch with its special keys, and the line
  discipline of the ordinary ones.  \<open>None\<close> is a write outside \<open>typing_buf\<close>.
\<close>

section \<open>Key maps\<close>

definition kb_map_l :: "u8 list" where
  "kb_map_l =
    [95, 95, 49, 50, 51, 52, 53, 54, 55, 56, 57, 48, 45, 61, 95, 9, 113, 119, 101, 114, 116,
     121, 117, 105, 111, 112, 91, 93, 10, 95, 97, 115, 100, 102, 103, 104, 106, 107, 108, 59,
     39, 96, 95, 92, 122, 120, 99, 118, 98, 110, 109, 44, 46, 47, 95, 95, 95, 32, 95, 95, 95, 95]"

definition kb_map_sh :: "u8 list" where
  "kb_map_sh =
    [45, 45, 33, 64, 35, 36, 37, 94, 38, 42, 40, 41, 95, 43, 45, 45, 81, 87, 69, 82, 84, 89, 85,
     73, 79, 80, 123, 125, 10, 45, 65, 83, 68, 70, 71, 72, 74, 75, 76, 58, 34, 126, 45, 124,
     90, 88, 67, 86, 66, 78, 77, 60, 62, 63, 45, 45, 45, 32, 45, 45, 45, 45]"

definition kb_map_caps :: "u8 list" where
  "kb_map_caps =
    [95, 95, 49, 50, 51, 52, 53, 54, 55, 56, 57, 48, 45, 61, 95, 9, 81, 87, 69, 82, 84, 89, 85,
     73, 79, 80, 91, 93, 10, 95, 65, 83, 68, 70, 71, 72, 74, 75, 76, 59, 39, 96, 95, 92, 90,
     88, 67, 86, 66, 78, 77, 44, 46, 47, 95, 95, 95, 32, 95, 95, 95, 95]"

lemma kb_map_length [simp]:
  "length kb_map_l = 62" "length kb_map_sh = 62" "length kb_map_caps = 62"
  by (simp_all add: kb_map_l_def kb_map_sh_def kb_map_caps_def)

abbreviation (input) "L_SHIFT_PRESSED \<equiv> 0x2A :: int"
abbreviation (input) "R_SHIFT_PRESSED \<equiv> 0x36 :: int"
abbreviation (input) "CTRL_PRESSED \<equiv> 0x1D :: int"
abbreviation (input) "ALT_PRESSED \<equiv> 0x38 :: int"
abbreviation (input) "CAPS_LOCK_PRESSED \<equiv> 0x3A :: int"
abbreviation (input) "TAB_PRESSED \<equiv> 0x0F :: int"
abbreviation (input) "ESC_PRESSED \<equiv> 0x01 :: int"
abbreviation (input) "BACKSPACE_PRESSED \<equiv> 0x0E :: int"
abbreviation (input) "ENTER_PRESSED \<equiv> 0x1C :: int"
abbreviation (input) "PRT_SC_PRESSED \<equiv> 0x37 :: int"
abbreviation (input) "F1_PRESSED \<equiv> 0x3B :: int"
abbreviation (input) "F2_PRESSED \<equiv> 0x3C :: int"
abbreviation (input) "F3_PRESSED \<equiv> 0x3D :: int"

section \<open>Initialisation and the scancode switch\<close>

definition kb_init :: "kernel \<Rightarrow> kernel" where
  "kb_init s = enable_irq 1 (s\<lparr>caps_locked := 0, caps_released := 1\<rparr>)"

definition set_key :: "int \<Rightarrow> int \<Rightarrow> kernel \<Rightarrow> kernel" where
  "set_key k v s = s\<lparr>kb_map_state := (kb_map_state s)(k := v)\<rparr>"

text \<open>A write to the typing buffer at its index.\<close>

definition store_typed :: "u8 \<Rightarrow> kernel \<Rightarrow> kernel option" where
  "store_typed c s =
     map_option (\<lambda>b. upd_term (\<lambda>t. t\<lparr>typing_buf := b\<rparr>) s)
       (store (typing_buf (cur_term s)) (typing_buf_idx (cur_term s)) c)"

definition bump_idx :: "kernel \<Rightarrow> kernel" where
  "bump_idx s = upd_term (\<lambda>t. t\<lparr>typing_buf_idx := typing_buf_idx t + 1\<rparr>) s"

definition key_backspace :: "kernel \<Rightarrow> (int \<times> kernel) option" where
  "key_backspace s =
     (let s = upd_term (\<lambda>t. t\<lparr>typing_buf_idx := typing_buf_idx t - 1\<rparr>) s in
      if typing_buf_idx (cur_term s) < 0
      then Some (0, upd_term (\<lambda>t. t\<lparr>typing_buf_idx := 0\<rparr>) s)
      else do {
        c \<leftarrow> fetch (typing_buf (cur_term s)) (typing_buf_idx (cur_term s));
        let s = (if c = 9 then print_backspace (print_backspace (print_backspace s)) else print_backspace s);
        Some (1, set_key BACKSPACE_PRESSED 1 s)
      })"

definition key_enter :: "kernel \<Rightarrow> (int \<times> kernel) option" where
  "key_enter s = do {
     let s = set_key ENTER_PRESSED 1 s;
     let s = putc 10 s;
     s \<leftarrow> store_typed 10 s;
     Some (1, upd_term (\<lambda>t. t\<lparr>enter_pressed := 1\<rparr>) s)
   }"

definition key_tab :: "kernel \<Rightarrow> (int \<times> kernel) option" where
  "key_tab s =
     (let s = set_key TAB_PRESSED 1 s in
      if kb_map_state s L_SHIFT_PRESSED \<noteq> 1 \<and> kb_map_state s R_SHIFT_PRESSED \<noteq> 1
      then do {
        let s = putc 32 (putc 32 (putc 32 s));
        s \<leftarrow> store_typed 9 s;
        Some (1, bump_idx s)
      }
      else Some (1, s))"

definition key_caps_lock :: "kernel \<Rightarrow> kernel" where
  "key_caps_lock s =
     (let s = set_key CAPS_LOCK_PRESSED 1 s in
      if caps_released s = 1
      then s\<lparr>caps_locked := NOT (caps_locked s - 2), caps_released := 0\<rparr>
      else s)"

text \<open>The \<open>switch\<close>: the value of \<open>is_special\<close> after it, and the state.\<close>

definition kb_switch :: "int \<Rightarrow> kernel \<Rightarrow> (int \<times> kernel) option" where
  "kb_switch sc s =
     (if sc = BACKSPACE_PRESSED then key_backspace s
      else if sc = ENTER_PRESSED then key_enter s
      else if sc = TAB_PRESSED then key_tab s
      else if sc = CAPS_LOCK_PRESSED then Some (1, key_caps_lock s)
      else if sc \<in> {ESC_PRESSED, PRT_SC_PRESSED, L_SHIFT_PRESSED, R_SHIFT_PRESSED, CTRL_PRESSED,
                    ALT_PRESSED, F1_PRESSED, F2_PRESSED, F3_PRESSED}
      then Some (1, set_key sc 1 s)
      else if sc = 0x9C
      then Some (1, upd_term (\<lambda>t. t\<lparr>enter_pressed := 0\<rparr>) (set_key ENTER_PRESSED 0 s))
      else if sc = 0xBA then Some (1, (set_key CAPS_LOCK_PRESSED 0 s)\<lparr>caps_released := 1\<rparr>)
      else if sc \<in> {0x8E, 0x81, 0xB7, 0xAA, 0xB6, 0x9D, 0xB8, 0x8F, 0xBB, 0xBC, 0xBD}
      then Some (1, set_key (sc - 0x80) 0 s)
      else Some (0, s))"

section \<open>The handler\<close>

text \<open>The character an ordinary key stands for under the modifiers.\<close>

definition key_char :: "int \<Rightarrow> kernel \<Rightarrow> u8" where
  "key_char sc s =
     (if kb_map_state s L_SHIFT_PRESSED = 1 \<or> kb_map_state s R_SHIFT_PRESSED = 1
      then kb_map_sh ! nat sc
      else if caps_locked s = 1 then kb_map_caps ! nat sc
      else if sc = BACKSPACE_PRESSED then 0
      else kb_map_l ! nat sc)"

definition type_key :: "u8 \<Rightarrow> kernel \<Rightarrow> kernel option" where
  "type_key key_out s =
     (if typing_buf_idx (cur_term s) < CHAR_LIM - 1 \<and> key_out \<noteq> 0
      then map_option (\<lambda>s. putc key_out (bump_idx s)) (store_typed key_out s)
      else Some s)"

definition handle_keyboard :: "(kernel \<Rightarrow> kernel) list \<Rightarrow> u8 list \<times> u8 list \<Rightarrow> kernel \<Rightarrow> outcome" where
  "handle_keyboard irqs locals s =
     (let s = cli s; sc = uint (inb s 0x60) in
      case kb_switch sc s of
        None \<Rightarrow> Fault
      | Some (is_special, s) \<Rightarrow>
          if 0 < sc \<and> sc \<le> 57 \<and> is_special = 0 \<and> kb_map_state s ALT_PRESSED = 0
          then (if kb_map_state s CTRL_PRESSED = 1 \<and> kb_map_l ! nat sc = 108
                then Resumed (sti (send_eoi 1 (terminal_clr s)))
                else if kb_map_state s CTRL_PRESSED = 1 \<and> kb_map_l ! nat sc = 99
                then sysHalt irqs locals 0 (sti (send_eoi 1 s))
                else (case type_key (key_char sc s) s of
                        None \<Rightarrow> Fault
                      | Some s \<Rightarrow> Resumed (sti (send_eoi 1 s))))
          else if kb_map_state s ALT_PRESSED = 1 \<and>
                  (kb_map_state s F1_PRESSED = 1 \<or> kb_map_state s F2_PRESSED = 1 \<or> kb_map_state s F3_PRESSED = 1)
          then (let n = (if kb_map_state s F1_PRESSED = 1 then 0
                         else if kb_map_state s F2_PRESSED = 1 then 1 else 2)
                in case switch_terminal irqs locals n (sti (send_eoi 1 s)) of
                     Resumed s \<Rightarrow> Resumed (sti (send_eoi 1 s))
                   | other \<Rightarrow> other)
          else Resumed (sti (send_eoi 1 s)))"

text \<open>\<open>do_irq\<close>: the entry stubs leave the negated line number in \<open>eax\<close>.\<close>

definition do_irq :: "(kernel \<Rightarrow> kernel) list \<Rightarrow> u8 list \<times> u8 list \<Rightarrow> int \<Rightarrow> kernel \<Rightarrow> outcome" where
  "do_irq irqs locals irq s =
     (let real_irq = s32 (NOT (irq - 1)) in
      if real_irq = 0 then Resumed (handle_pit s)
      else if real_irq = 1 then handle_keyboard irqs locals s
      else if real_irq = 8 then Resumed (handle_rtc s)
      else Resumed s)"

end
