(* ===== verification/KInv.thy ===== *)
theory KInv
  imports Keyboard
begin

text \<open>
  The kernel invariant: indices in range, cursors on the screen, typing buffers and argument
  buffers of their size, open descriptors with a jump table.  Every operation of the kernel
  preserves it (collection \<open>kinv\<close>).
\<close>

section \<open>The invariant\<close>

definition fd_ok :: "fd_t \<Rightarrow> bool" where
  "fd_ok f \<longleftrightarrow> (flags f \<noteq> 0 \<longrightarrow> fops f \<noteq> None)"

definition pcb_ok :: "pcb_t \<Rightarrow> bool" where
  "pcb_ok p \<longleftrightarrow> p_active p \<in> {0, 1} \<and> 0 \<le> curr_pid p \<and> curr_pid p < 6
     \<and> - 1 \<le> parent_pid p \<and> parent_pid p < 6 \<and> (\<forall>i. fd_ok (fda p i))
     \<and> length (p_arg p) = 122 \<and> length (p_cmd p) = 122 \<and> 0 \<in> set (p_arg p)"

definition term_ok :: "term_t \<Rightarrow> bool" where
  "term_ok t \<longleftrightarrow> 0 \<le> screen_x t \<and> screen_x t < 80 \<and> 0 \<le> screen_y t \<and> screen_y t < 25
     \<and> length (typing_buf t) = 122 \<and> 0 \<le> typing_buf_idx t \<and> typing_buf_idx t \<le> 122
     \<and> 0 \<le> top_pid t \<and> top_pid t < 6"

definition kernel_ok :: "kernel \<Rightarrow> bool" where
  "kernel_ok s \<longleftrightarrow> 0 \<le> currentTerminal s \<and> currentTerminal s < 3 \<and> 0 \<le> curr_pcb s \<and> curr_pcb s < 6
     \<and> (\<forall>i\<in>{0..2}. term_ok (terminals s i)) \<and> (\<forall>i\<in>{0..5}. pcb_ok (pcbarray s i))"

lemma kernel_ok_fields [simp]:
  "kernel_ok (s\<lparr>mem := a\<rparr>) = kernel_ok s" "kernel_ok (s\<lparr>ports := b\<rparr>) = kernel_ok s"
  "kernel_ok (s\<lparr>pin := c\<rparr>) = kernel_ok s" "kernel_ok (s\<lparr>iflag := d\<rparr>) = kernel_ok s"
  "kernel_ok (s\<lparr>master_mask := e\<rparr>) = kernel_ok s" "kernel_ok (s\<lparr>slave_mask := f\<rparr>) = kernel_ok s"
  "kernel_ok (s\<lparr>interrupt_count := g\<rparr>) = kernel_ok s"
  "kernel_ok (s\<lparr>rtc_interrupt_occurred := h\<rparr>) = kernel_ok s"
  "kernel_ok (s\<lparr>kb_map_state := i\<rparr>) = kernel_ok s" "kernel_ok (s\<lparr>caps_locked := j\<rparr>) = kernel_ok s"
  "kernel_ok (s\<lparr>caps_released := j\<rparr>) = kernel_ok s"
  "kernel_ok (s\<lparr>page_directory := k\<rparr>) = kernel_ok s" "kernel_ok (s\<lparr>page_table := l\<rparr>) = kernel_ok s"
  "kernel_ok (s\<lparr>retval := m\<rparr>) = kernel_ok s" "kernel_ok (s\<lparr>tss_esp0 := n\<rparr>) = kernel_ok s"
  "kernel_ok (s\<lparr>tss_ss0 := n\<rparr>) = kernel_ok s" "kernel_ok (s\<lparr>cpu_esp := n\<rparr>) = kernel_ok s"
  "kernel_ok (s\<lparr>cpu_ebp := n\<rparr>) = kernel_ok s"
  by (simp_all add: kernel_ok_def)

lemma kernel_okD:
  assumes "kernel_ok s"
  shows "term_ok (cur_term s)" "pcb_ok (cur_proc s)" "0 \<le> currentTerminal s" "currentTerminal s < 3"
    "0 \<le> curr_pcb s" "curr_pcb s < 6" "0 \<le> i \<Longrightarrow> i < 3 \<Longrightarrow> term_ok (terminals s i)"
    "0 \<le> p \<Longrightarrow> p < 6 \<Longrightarrow> pcb_ok (pcbarray s p)"
  using assms by (auto simp: kernel_ok_def cur_term_def cur_proc_def)

lemma kernel_ok_upd_term:
  "kernel_ok s \<Longrightarrow> term_ok (f (cur_term s)) \<Longrightarrow> kernel_ok (upd_term f s)"
  by (auto simp: kernel_ok_def upd_term_def)

lemma kernel_ok_upd_pcb:
  "kernel_ok s \<Longrightarrow> pcb_ok (f (pcbarray s i)) \<Longrightarrow> kernel_ok (upd_pcb i f s)"
  by (auto simp: kernel_ok_def upd_pcb_def)

lemma kernel_ok_upd_fd:
  assumes "kernel_ok s" and "fd_ok (f (cur_fd s fd))"
  shows "kernel_ok (upd_fd fd f s)"
  unfolding upd_fd_def
proof (rule kernel_ok_upd_pcb [OF assms(1)])
  have "pcb_ok (pcbarray s (curr_pcb s))" using kernel_okD [OF assms(1)] by (simp add: cur_proc_def)
  then show "pcb_ok (pcbarray s (curr_pcb s)\<lparr>fda := (fda (pcbarray s (curr_pcb s)))
      (fd := f (fda (pcbarray s (curr_pcb s)) fd))\<rparr>)"
    using assms(2) by (auto simp: pcb_ok_def cur_fd_def cur_proc_def)
qed

lemma fd_ok_cur: "kernel_ok s \<Longrightarrow> fd_ok (cur_fd s fd)"
  using kernel_okD(2) [of s] by (simp add: pcb_ok_def cur_fd_def)

lemma kernel_ok_cursor: "kernel_ok s \<Longrightarrow> cursor_ok s"
  using kernel_okD(1) [of s] by (simp add: term_ok_def cursor_ok_def)

lemma kernel_ok_console:
  assumes fr: "console_frame s t" and ok: "kernel_ok s" and cur: "cursor_ok t"
  shows "kernel_ok t"
proof -
  let ?f = "\<lambda>_. (cur_term s)\<lparr>screen_x := screen_x (cur_term t), screen_y := screen_y (cur_term t)\<rparr>"
  let ?s = "s\<lparr>mem := mem t, ports := ports t, iflag := iflag t\<rparr>"
  have "term_ok (?f (cur_term ?s))"
    using kernel_okD(1) [OF ok] cur by (simp add: term_ok_def cursor_ok_def)
  moreover have "kernel_ok ?s" using ok by simp
  ultimately have "kernel_ok (upd_term ?f ?s)" by (intro kernel_ok_upd_term)
  moreover have "t = upd_term ?f ?s"
    using fr by (simp add: console_frame_def upd_term_def cur_term_def)
  ultimately show ?thesis by simp
qed

section \<open>Devices and console\<close>

lemma ok_cli [kinv]: "kernel_ok s \<Longrightarrow> kernel_ok (cli s)" by (simp add: cli_def)
lemma ok_sti [kinv]: "kernel_ok s \<Longrightarrow> kernel_ok (sti s)" by (simp add: sti_def)
lemma ok_outb [kinv]: "kernel_ok s \<Longrightarrow> kernel_ok (outb d p s)" by (simp add: outb_def)
lemma ok_poke [kinv]: "kernel_ok s \<Longrightarrow> kernel_ok (poke a b s)" by (simp add: poke_def)

lemma ok_enable_irq [kinv]: "kernel_ok s \<Longrightarrow> kernel_ok (enable_irq n s)"
  by (simp add: enable_irq_def Let_def kinv)

lemma ok_send_eoi [kinv]: "kernel_ok s \<Longrightarrow> kernel_ok (send_eoi n s)"
  by (simp add: send_eoi_def kinv)

lemma ok_set_cursor [kinv]: "kernel_ok s \<Longrightarrow> kernel_ok (set_cursor x y s)"
  by (simp add: set_cursor_def Let_def kinv)

lemma ok_putc [kinv]: "kernel_ok s \<Longrightarrow> kernel_ok (putc c s)"
  by (rule kernel_ok_console [of s]) (simp_all add: console_frame_putc kernel_ok_cursor)

lemma ok_print_backspace [kinv]: "kernel_ok s \<Longrightarrow> kernel_ok (print_backspace s)"
  by (rule kernel_ok_console [of s]) (simp_all add: console_frame_print_backspace kernel_ok_cursor)

lemma ok_clear [kinv]: "kernel_ok s \<Longrightarrow> kernel_ok (clear s)"
  by (rule kernel_ok_console [of s]) (simp_all add: console_frame_clear)

lemma ok_print_msg [kinv]: "kernel_ok s \<Longrightarrow> kernel_ok (print_msg msg s)"
proof -
  have "kernel_ok s \<Longrightarrow> kernel_ok (fold putc cs s)" for cs
    by (induction cs arbitrary: s) (simp_all add: kinv)
  then show "kernel_ok s \<Longrightarrow> kernel_ok (print_msg msg s)" by (simp add: print_msg_def)
qed

lemma ok_rtc_init [kinv]: "kernel_ok s \<Longrightarrow> kernel_ok (rtc_init s)"
  by (simp add: rtc_init_def Let_def kinv)

lemma ok_handle_rtc [kinv]: "kernel_ok s \<Longrightarrow> kernel_ok (handle_rtc s)"
  by (simp add: handle_rtc_def Let_def kinv)

lemma ok_handle_pit [kinv]: "kernel_ok s \<Longrightarrow> kernel_ok (handle_pit s)"
  by (simp add: handle_pit_def kinv)

lemma ok_poke_list [kinv]: "kernel_ok s \<Longrightarrow> kernel_ok (poke_list a bs s)"
  by (induction bs arbitrary: a s) (simp_all add: kinv)

lemma ok_copy_virt [kinv]: "kernel_ok s \<Longrightarrow> kernel_ok (copy_virt n d p s)"
  by (induction n arbitrary: d p s) (simp_all add: kinv)

section \<open>Reads, writes, open and close\<close>

text \<open>What arrives while a process waits must itself preserve the invariant.\<close>

definition irqs_ok :: "(kernel \<Rightarrow> kernel) list \<Rightarrow> bool" where
  "irqs_ok irqs \<longleftrightarrow> (\<forall>h\<in>set irqs. \<forall>s. kernel_ok s \<longrightarrow> kernel_ok (h s))"

lemma ok_rtc_wait:
  "irqs_ok irqs \<Longrightarrow> kernel_ok s \<Longrightarrow> rtc_wait irqs c s = Some t \<Longrightarrow> kernel_ok t"
proof (induction irqs c s rule: rtc_wait.induct)
  case (1 irqs c s)
  from "1.prems"(3) show ?case
    by (subst (asm) rtc_wait.simps) (use 1 in \<open>auto simp: irqs_ok_def split: if_splits list.splits\<close>)
qed

lemma ok_term_wait:
  "irqs_ok irqs \<Longrightarrow> kernel_ok s \<Longrightarrow> term_wait irqs s = Some t \<Longrightarrow> kernel_ok t"
proof (induction irqs s rule: term_wait.induct)
  case (1 irqs s)
  from "1.prems"(3) show ?case
    by (subst (asm) term_wait.simps) (use 1 in \<open>auto simp: irqs_ok_def split: if_splits list.splits\<close>)
qed

lemma ok_term_copy: "kernel_ok s \<Longrightarrow> term_copy i b n s = Some (r, t) \<Longrightarrow> kernel_ok t"
proof (induction i b n s rule: term_copy.induct)
  case (1 i b n s)
  from "1.prems"(2) show ?case
    by (subst (asm) term_copy.simps)
       (use 1 in \<open>auto simp: kinv split: if_splits bind_splits\<close>)
qed

lemma ok_terminal_read:
  assumes "irqs_ok irqs" and "kernel_ok s" and "terminal_read irqs fd b n s = Some (r, t)"
  shows "kernel_ok t"
proof -
  obtain u v where u: "term_wait irqs (sti s) = Some u" and v: "term_copy 0 b n u = Some (r, v)"
    and t: "t = upd_term (\<lambda>t. t\<lparr>enter_pressed := 0\<rparr>) v"
    using assms(3) by (auto simp: terminal_read_def split: bind_splits)
  have "kernel_ok v" by (rule ok_term_copy [OF ok_term_wait [OF assms(1) ok_sti [OF assms(2)] u] v])
  then show ?thesis
    unfolding t by (rule kernel_ok_upd_term) (use kernel_okD(1) [OF \<open>kernel_ok v\<close>] in \<open>simp add: term_ok_def\<close>)
qed

lemma ok_rtc_read:
  assumes "irqs_ok irqs" and "kernel_ok s" and "rtc_read irqs fd b n s = Some (r, t)"
  shows "kernel_ok t"
proof -
  have k: "kernel_ok ((sti s)\<lparr>rtc_interrupt_occurred := 0\<rparr>)" using assms(2) by (simp add: kinv)
  show ?thesis using assms(3) ok_rtc_wait [OF assms(1) k] by (auto simp: rtc_read_def Let_def)
qed

lemma ok_puts_mem [kinv]: "kernel_ok s \<Longrightarrow> kernel_ok (puts_mem n p s)"
  by (induction n arbitrary: p s) (simp_all add: Let_def kinv)

lemma ok_terminal_write [kinv]: "kernel_ok s \<Longrightarrow> kernel_ok (snd (terminal_write fd b n s))"
proof -
  assume "kernel_ok s"
  then have "kernel_ok (terminal_puts b n s)" by (simp add: terminal_puts_def kinv)
  then show ?thesis
    by (simp add: terminal_write_def Let_def zero_all)
       (intro kernel_ok_upd_term, assumption; use kernel_okD(1) in \<open>force simp: term_ok_def\<close>)
qed

lemma ok_rtc_write [kinv]: "kernel_ok s \<Longrightarrow> kernel_ok (snd (rtc_write fd b n s))"
  by (simp add: rtc_write_cases kinv)

lemma ok_read_dir_loop: "kernel_ok s \<Longrightarrow> kernel_ok (read_dir_loop n fd b p s)"
proof (induction n arbitrary: b p s)
  case (Suc n)
  have upd: "kernel_ok (upd_fd fd f u)" if "kernel_ok u" "\<And>x. fops (f x) = fops x \<and> flags (f x) = flags x"
    for f u
    using kernel_ok_upd_fd [OF that(1)] fd_ok_cur [OF that(1)] that(2) by (simp add: fd_ok_def)
  show ?case using Suc by (simp add: Let_def upd kinv)
qed simp

lemma ok_upd_fd_pos:
  "kernel_ok u \<Longrightarrow> (\<And>x. fops (f x) = fops x \<and> flags (f x) = flags x) \<Longrightarrow> kernel_ok (upd_fd fd f u)"
  using kernel_ok_upd_fd fd_ok_cur by (simp add: fd_ok_def)

lemma ok_read_file: "kernel_ok s \<Longrightarrow> read_file fd b n s = Some (r, t) \<Longrightarrow> kernel_ok t"
proof -
  have "kernel_ok s \<longrightarrow> kernel_ok (snd q)" if "read_file fd b n s = Some q" for q
    using that
  proof (induct rule: read_file.raw_induct [rotated 1, consumes 1])
    case (1 rf fd b n s q)
    have upd: "kernel_ok (upd_fd fd (\<lambda>f. f\<lparr>byte_num := g f\<rparr>) u)"
      "kernel_ok (upd_fd fd (\<lambda>f. f\<lparr>db_num := g f\<rparr>) u)" if "kernel_ok u" for g u
      using ok_upd_fd_pos [OF that] by simp_all
    show ?case
      using 1 by (auto simp: Let_def read_data_def kinv upd split: if_splits)
  qed
  then show "kernel_ok s \<Longrightarrow> read_file fd b n s = Some (r, t) \<Longrightarrow> kernel_ok t" by force
qed

lemma ok_fops_read:
  "irqs_ok irqs \<Longrightarrow> kernel_ok s \<Longrightarrow> fops_read irqs f fd b n s = Some (r, t) \<Longrightarrow> kernel_ok t"
  by (cases f) (auto simp: fops_read_def read_directory_def bad_read_write_def Let_def ok_read_dir_loop
      dest: ok_read_file ok_rtc_read ok_terminal_read split: if_splits)

lemma ok_fops_write [kinv]: "kernel_ok s \<Longrightarrow> kernel_ok (snd (fops_write f fd b n s))"
  by (cases f) (simp_all add: fops_write_def write_file_def write_dir_def bad_read_write_def kinv)

lemma ok_fops_open:
  assumes "kernel_ok s" and "fops (cur_fd s fd) \<noteq> None"
  shows "kernel_ok (snd (fops_open f fd s))"
proof -
  have "kernel_ok (upd_fd fd g s)" if "fops (g (cur_fd s fd)) \<noteq> None" for g
    using kernel_ok_upd_fd [OF assms(1)] that by (simp add: fd_ok_def)
  then show ?thesis
    using assms by (cases f) (simp_all add: fops_open_def open_file_def open_dir_def rtc_open_def
        bad_call_def Let_def kinv)
qed

lemma ok_fops_close [kinv]: "kernel_ok s \<Longrightarrow> kernel_ok (snd (fops_close f fd s))"
  by (cases f) (simp_all add: fops_close_def close_file_def close_dir_def rtc_close_def bad_call_def
      fd_ok_def kernel_ok_upd_fd)

lemma ok_sysRead:
  "irqs_ok irqs \<Longrightarrow> kernel_ok s \<Longrightarrow> sysRead irqs fd b n s = Some (r, t) \<Longrightarrow> kernel_ok t"
  by (auto simp: sysRead_def dest: ok_fops_read split: if_splits option.splits)

lemma ok_sysWrite: "kernel_ok s \<Longrightarrow> sysWrite fd b n s = Some (r, t) \<Longrightarrow> kernel_ok t"
  using ok_fops_write [of s _ fd b n]
  by (auto simp: sysWrite_def split: if_splits option.splits) (metis snd_conv)

lemma ok_sysClose: "kernel_ok s \<Longrightarrow> sysClose fd s = Some (r, t) \<Longrightarrow> kernel_ok t"
  using ok_fops_close [of s _ fd]
  by (auto simp: sysClose_def split: if_splits option.splits) (metis snd_conv)

lemma ok_open_as:
  assumes "kernel_ok s"
  shows "kernel_ok (snd (fops_open f fd (upd_fd fd (\<lambda>x. x\<lparr>fops := Some g\<rparr>) s)))"
    and "kernel_ok (snd (fops_open f fd (upd_fd fd (\<lambda>x. x\<lparr>fops := Some g, inode := k\<rparr>) s)))"
  using assms by (intro ok_fops_open kernel_ok_upd_fd; simp add: fd_ok_def)+

lemma ok_sysOpen: "kernel_ok s \<Longrightarrow> sysOpen name s = Some (r, t) \<Longrightarrow> kernel_ok t"
  using ok_open_as [of s]
  by (auto simp: sysOpen_def Let_def split: if_splits option.splits bind_splits prod.splits)
     (metis snd_conv)+

lemma ok_vidmap [kinv]: "kernel_ok s \<Longrightarrow> kernel_ok (snd (vidmap p s))"
  by (simp add: vidmap_def Let_def kinv)

lemma ok_sysGetArgs: "kernel_ok s \<Longrightarrow> sysGetArgs b n s = Some (r, t) \<Longrightarrow> kernel_ok t"
  by (auto simp: sysGetArgs_def Let_def kinv split: if_splits bind_splits)

section \<open>Process control\<close>

text \<open>The state an outcome leaves, and whether the invariant holds of it.\<close>

primrec outcome_ok :: "outcome \<Rightarrow> bool" where
  "outcome_ok (Ret r s) = kernel_ok s"
| "outcome_ok (ToUser eip esp s) = kernel_ok s"
| "outcome_ok (ToParent r s) = kernel_ok s"
| "outcome_ok (Resumed s) = kernel_ok s"
| "outcome_ok Waiting = True"
| "outcome_ok Fault = True"

lemma strncpy_pad_length: "strncpy_pad d n = Some d' \<Longrightarrow> length d' = length d"
  by (induction d n arbitrary: d' rule: strncpy_pad.induct) auto

lemma strncpy_length: "strncpy d s n = Some d' \<Longrightarrow> length d' = length d"
  by (induction d s n arbitrary: d' rule: strncpy.induct)
     (auto split: if_splits list.splits dest: strncpy_pad_length)

lemma store_zero: "store xs i 0 = Some ys \<Longrightarrow> (0 :: u8) \<in> set ys"
  by (auto simp: store_def set_update_memI split: if_splits)

lemma parseCmd_sizes:
  assumes "parseCmd input c a = Some (cmd, arg)"
  shows "length cmd = length c \<and> length arg = length a \<and> 0 \<in> set cmd \<and> 0 \<in> set arg"
proof -
  have "\<exists>x n c1. strncpy c x n = Some c1 \<and> (\<exists>i. store c1 i 0 = Some cmd)"
    and "\<exists>x n a1. strncpy a x n = Some a1 \<and> (\<exists>i. store a1 i 0 = Some arg)"
    using assms by (auto simp: parseCmd_def bind_eq_Some_conv)
  then show ?thesis
    using strncpy_length store_length store_zero by (metis)
qed

lemma init_fda_at: "init_fda old j = (if j = 0 then stdin_fd else if j = 1 then stdout_fd
   else if 2 \<le> j \<and> j \<le> 7 then empty_fd else old j)"
  unfolding init_fda_def update_each_upto by simp

lemma fd_ok_init: "(\<And>i. fd_ok (old i)) \<Longrightarrow> fd_ok (init_fda old j)"
  by (simp add: init_fda_at fd_ok_def stdin_fd_def stdout_fd_def empty_fd_def)

lemma ok_map_user_page [kinv]: "kernel_ok s \<Longrightarrow> kernel_ok (map_user_page p s)"
  by (simp add: map_user_page_def Let_def)

lemma ok_set_tss [kinv]: "kernel_ok s \<Longrightarrow> kernel_ok (set_tss p s)"
  by (simp add: set_tss_def)

lemma ok_upd_pcb:
  "kernel_ok s \<Longrightarrow> 0 \<le> i \<Longrightarrow> i < 6 \<Longrightarrow> (\<And>p. pcb_ok p \<Longrightarrow> pcb_ok (f p)) \<Longrightarrow> kernel_ok (upd_pcb i f s)"
  by (rule kernel_ok_upd_pcb) (auto dest: kernel_okD(8))

lemma ok_upd_term:
  "kernel_ok s \<Longrightarrow> (\<And>t. term_ok t \<Longrightarrow> term_ok (f t)) \<Longrightarrow> kernel_ok (upd_term f s)"
  by (rule kernel_ok_upd_term) (auto dest: kernel_okD(1))

lemma curr_pcb_upd [simp]:
  "curr_pcb (upd_pcb i f s) = curr_pcb s" "curr_pcb (upd_term g s) = curr_pcb s"
  "currentTerminal (upd_pcb i f s) = currentTerminal s"
  by (simp_all add: upd_pcb_def upd_term_def)

lemma ok_setup_pcb:
  assumes ok: "kernel_ok s" and pid: "0 \<le> pid" "pid < 6"
    and sz: "length cmd = 122" "length arg = 122" "0 \<in> set arg"
  shows "kernel_ok (setup_pcb pid cmd arg s)"
proof -
  let ?a = "upd_pcb pid (\<lambda>p. p\<lparr>p_arg := arg\<rparr>) (upd_pcb pid (\<lambda>p. p\<lparr>p_cmd := cmd\<rparr>)
      (upd_pcb pid (\<lambda>p. p\<lparr>fda := init_fda (fda p)\<rparr>) (upd_pcb pid (\<lambda>p. p\<lparr>p_active := 1\<rparr>) s)))"
  have a: "kernel_ok ?a"
    by (intro ok_upd_pcb ok pid) (use sz in \<open>auto simp: pcb_ok_def intro: fd_ok_init\<close>)
  let ?b = "if t_active (cur_term ?a) \<noteq> 0
     then upd_pcb pid (\<lambda>p. p\<lparr>parent_pid := curr_pid (cur_proc ?a)\<rparr>) ?a else ?a"
  have "pcb_ok (cur_proc ?a)" using kernel_okD(2) [OF a] .
  then have b: "kernel_ok ?b"
    using a pid by (auto intro!: ok_upd_pcb simp: pcb_ok_def)
  let ?c = "upd_term (\<lambda>t. t\<lparr>top_pid := pid\<rparr>) (upd_pcb pid (\<lambda>p. p\<lparr>curr_pid := pid\<rparr>) ?b)"
  have "kernel_ok ?c"
    by (rule ok_upd_term, rule ok_upd_pcb [OF b pid]) (use pid in \<open>auto simp: pcb_ok_def term_ok_def\<close>)
  then have "kernel_ok (?c\<lparr>curr_pcb := pid\<rparr>)" using pid by (simp add: kernel_ok_def)
  then show ?thesis unfolding setup_pcb_def Let_def .
qed

lemma ok_load_and_go:
  assumes irqs: "irqs_ok irqs" and ok: "kernel_ok s"
  shows "outcome_ok (load_and_go irqs cmd ino pid s)"
proof -
  have tail: "kernel_ok (sti (set_tss pid (upd_term (\<lambda>t. t\<lparr>t_active := 1\<rparr>)
      (upd_pcb (curr_pcb u) (\<lambda>p. p\<lparr>parent_ebp := b\<rparr>) (upd_pcb (curr_pcb u) (\<lambda>p. p\<lparr>parent_esp := a\<rparr>) u)))))"
    if "kernel_ok u" for u a b
    using kernel_okD(5,6) [OF that] that
    by (intro ok_sti ok_set_tss ok_upd_term ok_upd_pcb) (auto simp: pcb_ok_def term_ok_def)
  have m: "kernel_ok (map_user_page pid s)" by (rule ok_map_user_page [OF ok])
  show ?thesis
    unfolding load_and_go_def Let_def
    using ok_print_msg [OF ok] ok_sysOpen [OF m]
    by (auto split: option.split prod.split intro!: tail ok_print_msg)
       (blast intro: ok_sysClose ok_sysRead [OF irqs])
qed

lemma find_active: "find P [0, 1, 2, 3, 4, 5 :: int] = Some i \<Longrightarrow> 0 \<le> i \<and> i < 6"
  by (auto split: if_splits)

text \<open>\<open>locals\<close> are the two uninitialised name buffers of \<open>sysExecute\<close>, of \<open>NAME_LEN\<close> bytes.\<close>

definition locals_ok :: "u8 list \<times> u8 list \<Rightarrow> bool" where
  "locals_ok l \<longleftrightarrow> length (fst l) = 122 \<and> length (snd l) = 122"

lemma ok_sysExecute:
  assumes irqs: "irqs_ok irqs" and l: "locals_ok l" and ok: "kernel_ok s"
  shows "outcome_ok (sysExecute irqs l command s)"
proof -
  have s: "kernel_ok (sti s)" by (rule ok_sti [OF ok])
  have made: "outcome_ok (load_and_go irqs cmd ino pid (setup_pcb pid cmd arg (sti s)))"
    if "parseCmd command (fst l) (snd l) = Some (cmd, arg)"
      and "find P [0, 1, 2, 3, 4, 5 :: int] = Some pid" for cmd arg ino pid P
    using parseCmd_sizes [OF that(1)] find_active [OF that(2)] l
    by (intro ok_load_and_go [OF irqs] ok_setup_pcb s) (auto simp: locals_ok_def)
  show ?thesis
    unfolding sysExecute_def Let_def
    by (auto split: option.split prod.split simp: ok_print_msg [OF s] s made ok_load_and_go [OF irqs s]
        simp del: find.simps)
qed

lemma ok_switch_out:
  assumes ok: "kernel_ok s" and n: "0 \<le> n" "n < 3"
  shows "kernel_ok (switch_out n s)"
proof -
  let ?a = "s\<lparr>interrupt_count := MAX_FREQ div 32, currentTerminal := n\<rparr>"
  have a: "kernel_ok ?a" using ok n by (simp add: kernel_ok_def)
  let ?b = "set_cursor (screen_x (cur_term ?a)) (screen_y (cur_term ?a)) ?a"
  have b: "kernel_ok ?b" by (rule ok_set_cursor [OF a])
  have top: "0 \<le> top_pid (terminals ?b (currentTerminal s))" "top_pid (terminals ?b (currentTerminal s)) < 6"
    using kernel_okD(1) [OF ok] by (simp_all add: term_ok_def cur_term_def)
  have "terminals (upd_pcb i f u) = terminals u" for i f u by (simp add: upd_pcb_def)
  then show ?thesis
    unfolding switch_out_def Let_def
    by (simp, intro ok_upd_pcb) (use b top in \<open>auto simp: pcb_ok_def\<close>)
qed

lemma ok_switch_in: "kernel_ok s \<Longrightarrow> kernel_ok (switch_in s)"
proof -
  assume ok: "kernel_ok s"
  let ?a = "s\<lparr>curr_pcb := top_pid (cur_term s)\<rparr>"
  have "kernel_ok ?a" using ok kernel_okD(1) [OF ok] by (simp add: kernel_ok_def term_ok_def)
  then show ?thesis by (simp add: switch_in_def Let_def kinv)
qed

lemma ok_init_terminal:
  assumes ok: "kernel_ok s" and n: "0 \<le> n" "n < 3"
  shows "kernel_ok (init_terminal leaving n s)"
proof -
  let ?a = "upd_term (\<lambda>t. t\<lparr>t_active := 0, screen_x := 0, screen_y := 0, typing_buf_idx := 0,
      top_pid := n, enter_pressed := 0\<rparr>) s"
  have "kernel_ok ?a" by (intro ok_upd_term ok) (use n in \<open>auto simp: term_ok_def\<close>)
  then have "kernel_ok (upd_pcb n (\<lambda>p. p\<lparr>curr_pid := n\<rparr>)
      (upd_pcb n (\<lambda>p. p\<lparr>fda := init_fda (fda p)\<rparr>) (upd_pcb n (\<lambda>p. p\<lparr>p_active := 1\<rparr>) ?a)))"
    by (intro ok_upd_pcb) (use n in \<open>auto simp: pcb_ok_def intro: fd_ok_init\<close>)
  then show ?thesis using n by (simp add: init_terminal_def Let_def kernel_ok_def)
qed

lemma ok_switch_terminal:
  assumes irqs: "irqs_ok irqs" and l: "locals_ok l" and ok: "kernel_ok s" and n: "0 \<le> n" "n < 3"
  shows "outcome_ok (switch_terminal irqs l n s)"
proof -
  have o: "kernel_ok (switch_out n s)" by (rule ok_switch_out [OF ok n])
  have "outcome_ok (sysExecute irqs l (cstr ''shell'') (init_terminal (currentTerminal s) n (switch_out n s)))"
    by (intro ok_sysExecute irqs l ok_init_terminal o n)
  then show ?thesis
    unfolding switch_terminal_def Let_def by (auto split: outcome.split intro: ok_switch_in o)
qed

lemma ok_close_all: "kernel_ok s \<Longrightarrow> kernel_ok (close_all is s)"
  by (induction "is" arbitrary: s) (auto simp: kinv split: option.split)

lemma ok_halt_to_parent:
  assumes ok: "kernel_ok s"
  shows "outcome_ok (halt_to_parent status s)"
proof -
  let ?a = "(putc 10 s)\<lparr>retval := (if status = 99 then 256 else status)\<rparr>"
  have a: "kernel_ok ?a" using ok_putc [OF ok] by simp
  define parent where "parent = parent_pid (cur_proc ?a) mod 256"
  let ?b = "set_tss parent (map_user_page parent (close_all [0..7] ?a))"
  have b: "kernel_ok ?b" by (intro ok_set_tss ok_map_user_page ok_close_all a)
  let ?c = "upd_pcb (curr_pcb ?b) (\<lambda>p. p\<lparr>p_active := 0, p_cmd := replicate 122 0,
      p_arg := replicate 122 0, curr_pid := 0, parent_pid := 0, parent_esp := 0, parent_ebp := 0\<rparr>) ?b"
  have c: "kernel_ok ?c"
    using kernel_okD(5,6) [OF b] by (intro ok_upd_pcb b) (auto simp: pcb_ok_def)
  have "outcome_ok (if 6 \<le> parent then Fault
     else ToParent (retval u) (sti (u\<lparr>curr_pcb := parent, cpu_esp := e, cpu_ebp := f\<rparr>)))"
    if "u = upd_term (\<lambda>t. t\<lparr>top_pid := parent\<rparr>) ?c" for u e f
  proof (cases "6 \<le> parent")
    case False
    then have "kernel_ok u"
      unfolding that using c by (intro ok_upd_term) (auto simp: term_ok_def parent_def)
    with False show ?thesis by (simp add: kernel_ok_def sti_def parent_def)
  qed simp
  then show ?thesis
    unfolding halt_to_parent_def Let_def parent_def [symmetric] by (auto simp: sti_def)
qed

lemma ok_sysHalt:
  assumes irqs: "irqs_ok irqs" and l: "locals_ok l" and ok: "kernel_ok s"
  shows "outcome_ok (sysHalt irqs l status s)"
proof -
  let ?a = "upd_term (\<lambda>t. t\<lparr>t_active := 0\<rparr>) (clear s)"
  have a: "kernel_ok ?a"
    by (intro ok_upd_term ok_clear ok) (simp add: term_ok_def)
  have "outcome_ok (switch_terminal irqs l (currentTerminal ?a) ?a)"
    by (rule ok_switch_terminal [OF irqs l a]) (use kernel_okD(3,4) [OF a] in auto)
  then show ?thesis
    unfolding sysHalt_def Let_def
    using ok_halt_to_parent by (auto simp: ok_halt_to_parent [OF ok] split: outcome.split)
qed

lemma ok_intr:
  "irqs_ok irqs \<Longrightarrow> locals_ok l \<Longrightarrow> kernel_ok s \<Longrightarrow> outcome_ok (intr irqs l n s)"
  by (auto simp: intr_def intro!: ok_sysHalt kinv split: option.split)

lemma ok_sys_call:
  assumes irqs: "irqs_ok irqs" and l: "locals_ok l" and ok: "kernel_ok s"
  shows "outcome_ok (sys_call irqs l eax ebx ecx edx s)"
proof -
  have lift: "outcome_ok (lift_call none r)"
    if "outcome_ok none" "\<And>v t. r = Some (v, t) \<Longrightarrow> kernel_ok t" for none r
    using that by (auto simp: lift_call_def split: option.split intro: ok_sti)
  have vid: "vidmap p s = (v, t) \<Longrightarrow> kernel_ok t" for p v t
    using ok_vidmap [OF ok, of p] by simp
  show ?thesis
    unfolding sys_call_def
    using ok_sysHalt [OF irqs l ok] ok_sysExecute [OF irqs l ok] vid
    by (auto intro!: lift intro: ok_sti ok_sysRead [OF irqs ok] ok_sysWrite [OF ok] ok_sysOpen [OF ok]
        ok_sysClose [OF ok] ok_sysGetArgs [OF ok] ok)
qed

section \<open>Interrupts\<close>

lemma ok_set_key [kinv]: "kernel_ok s \<Longrightarrow> kernel_ok (set_key k v s)"
  by (simp add: set_key_def)

lemma ok_store_typed: "kernel_ok s \<Longrightarrow> store_typed c s = Some t \<Longrightarrow> kernel_ok t"
  by (auto simp: store_typed_def intro!: kernel_ok_upd_term dest!: store_length dest: kernel_okD(1))
     (auto simp: term_ok_def dest: kernel_okD(1))

lemma store_typed_idx:
  "store_typed c s = Some t \<Longrightarrow> typing_buf_idx (cur_term t) = typing_buf_idx (cur_term s)
    \<and> typing_buf_idx (cur_term s) < int (length (typing_buf (cur_term s)))"
  by (auto simp: store_typed_def store_def split: if_splits)

lemma ok_bump_idx: "kernel_ok s \<Longrightarrow> typing_buf_idx (cur_term s) < 122 \<Longrightarrow> kernel_ok (bump_idx s)"
  unfolding bump_idx_def by (rule kernel_ok_upd_term) (auto simp: term_ok_def dest: kernel_okD(1))

lemma ok_bump_stored:
  assumes ok: "kernel_ok s" and st: "store_typed c s = Some t"
  shows "kernel_ok (bump_idx t)"
proof (rule ok_bump_idx)
  show "kernel_ok t" by (rule ok_store_typed [OF ok st])
  show "typing_buf_idx (cur_term t) < 122"
    using store_typed_idx [OF st] kernel_okD(1) [OF ok] by (simp add: term_ok_def)
qed

lemma ok_key_backspace: "kernel_ok s \<Longrightarrow> key_backspace s = Some (r, t) \<Longrightarrow> kernel_ok t"
proof -
  assume ok: "kernel_ok s" and k: "key_backspace s = Some (r, t)"
  let ?s = "upd_term (\<lambda>t. t\<lparr>typing_buf_idx := typing_buf_idx t - 1\<rparr>) s"
  have t: "term_ok (cur_term s)" by (rule kernel_okD(1) [OF ok])
  show "kernel_ok t"
  proof (cases "typing_buf_idx (cur_term ?s) < 0")
    case True
    have "upd_term f (upd_term g s) = upd_term (\<lambda>x. f (g x)) s" for f g
      by (simp add: upd_term_def cur_term_def)
    then have "t = upd_term (\<lambda>t. t\<lparr>typing_buf_idx := 0\<rparr>) s"
      using k True by (simp add: key_backspace_def Let_def)
    then show ?thesis using t by (auto intro!: kernel_ok_upd_term [OF ok] simp: term_ok_def)
  next
    case False
    have "kernel_ok ?s"
      by (rule kernel_ok_upd_term [OF ok]) (use t False in \<open>auto simp: term_ok_def\<close>)
    then show ?thesis
      using k False by (auto simp: key_backspace_def Let_def bind_eq_Some_conv kinv)
  qed
qed

lemma ok_key_enter: "kernel_ok s \<Longrightarrow> key_enter s = Some (r, t) \<Longrightarrow> kernel_ok t"
  by (auto simp: key_enter_def bind_eq_Some_conv term_ok_def intro!: ok_upd_term
      intro: ok_store_typed [OF ok_putc [OF ok_set_key]])

lemma ok_key_tab: "kernel_ok s \<Longrightarrow> key_tab s = Some (r, t) \<Longrightarrow> kernel_ok t"
  by (auto simp: key_tab_def Let_def bind_eq_Some_conv kinv split: if_splits
      intro: ok_bump_stored [OF ok_putc [OF ok_putc [OF ok_putc [OF ok_set_key]]]])

lemma ok_kb_switch:
  assumes "kernel_ok s" and "kb_switch sc s = Some (r, t)"
  shows "kernel_ok t"
proof -
  have caps: "kernel_ok (key_caps_lock s)" using assms(1) by (simp add: key_caps_lock_def Let_def kinv)
  have enter: "kernel_ok (upd_term (\<lambda>t. t\<lparr>enter_pressed := 0\<rparr>) (set_key 28 0 s))"
    by (intro ok_upd_term ok_set_key assms) (simp add: term_ok_def)
  show ?thesis
    using assms caps enter
    unfolding kb_switch_def
    by (auto simp: kinv dest: ok_key_backspace ok_key_enter ok_key_tab split: if_splits)
qed

lemma ok_type_key: "kernel_ok s \<Longrightarrow> type_key c s = Some t \<Longrightarrow> kernel_ok t"
  by (auto simp: type_key_def intro: ok_putc ok_bump_stored split: if_splits)

lemma ok_handle_keyboard:
  assumes irqs: "irqs_ok irqs" and l: "locals_ok l" and ok: "kernel_ok s"
  shows "outcome_ok (handle_keyboard irqs l s)"
proof -
  have sw: "kernel_ok t" if "kb_switch sc (cli s) = Some (r, t)" for sc r t
    by (rule ok_kb_switch [OF ok_cli [OF ok] that])
  have key: "outcome_ok (case type_key c t of None \<Rightarrow> Fault | Some s \<Rightarrow> Resumed (sti (send_eoi 1 s)))"
    if "kernel_ok t" for c t
    using ok_type_key [OF that] by (cases "type_key c t") (simp_all add: kinv)
  have eoi: "outcome_ok q \<Longrightarrow> outcome_ok (case q of Resumed s \<Rightarrow> Resumed (sti (send_eoi 1 s)) | other \<Rightarrow> other)"
    for q by (cases q) (simp_all add: kinv)
  have swt: "outcome_ok (case switch_terminal irqs l n (sti (send_eoi 1 t)) of
      Resumed s \<Rightarrow> Resumed (sti (send_eoi 1 s)) | other \<Rightarrow> other)"
    if "kernel_ok t" "n \<in> {0, 1, 2}" for t n
  proof (rule eoi)
    have "kernel_ok (sti (send_eoi 1 t))" using that(1) by (simp add: kinv)
    then show "outcome_ok (switch_terminal irqs l n (sti (send_eoi 1 t)))"
      by (rule ok_switch_terminal [OF irqs l]) (use that(2) in auto)
  qed
  have ifr: "outcome_ok a \<Longrightarrow> outcome_ok b \<Longrightarrow> outcome_ok (if c then a else b)" for a b c by simp
  show ?thesis
  proof (cases "kb_switch (uint (inb (cli s) 0x60)) (cli s)")
    case None
    then show ?thesis by (simp add: handle_keyboard_def Let_def)
  next
    case (Some p)
    then obtain r t where p: "kb_switch (uint (inb (cli s) 0x60)) (cli s) = Some (r, t)"
      by (cases p) auto
    have t: "kernel_ok t" by (rule sw [OF p])
    have done_ok: "outcome_ok (Resumed (sti (send_eoi 1 t)))"
      "outcome_ok (Resumed (sti (send_eoi 1 (terminal_clr t))))"
      using t by (simp_all add: kinv terminal_clr_def)
    show ?thesis
      unfolding handle_keyboard_def Let_def p option.case prod.case
      by (intro ifr key [OF t] done_ok ok_sysHalt [OF irqs l] ok_sti ok_send_eoi t swt [OF t]) simp
  qed
qed

lemma ok_do_irq:
  "irqs_ok irqs \<Longrightarrow> locals_ok l \<Longrightarrow> kernel_ok s \<Longrightarrow> outcome_ok (do_irq irqs l irq s)"
  by (simp add: do_irq_def Let_def kinv ok_handle_keyboard)

end
