(* ===== verification/LineDisc.thy ===== *)
theory LineDisc
  imports KInv
begin

text \<open>
  The line discipline: the typing buffer as an edited line.  Each keyboard interrupt applies one
  edit to the line and echoes it on the abstract console; Enter makes the line available to
  \<open>terminal_read\<close>.
\<close>

section \<open>What the console leaves alone, field by field\<close>

lemma console_frame_fields:
  assumes "console_frame s t"
  shows "kb_map_state t = kb_map_state s" "caps_locked t = caps_locked s"
    "caps_released t = caps_released s" "currentTerminal t = currentTerminal s"
    "curr_pcb t = curr_pcb s" "pcbarray t = pcbarray s" "pin t = pin s"
    "page_directory t = page_directory s" "bootBlock t = bootBlock s"
    "typing_buf (cur_term t) = typing_buf (cur_term s)"
    "typing_buf_idx (cur_term t) = typing_buf_idx (cur_term s)"
    "enter_pressed (cur_term t) = enter_pressed (cur_term s)"
    "t_active (cur_term t) = t_active (cur_term s)" "top_pid (cur_term t) = top_pid (cur_term s)"
proof -
  obtain m p i f where t: "t = s\<lparr>mem := m, ports := p, iflag := i, terminals := f\<rparr>"
    and f: "\<exists>x y. f = (terminals s)(currentTerminal s := (cur_term s)\<lparr>screen_x := x, screen_y := y\<rparr>)"
    using assms unfolding console_frame_def by blast
  show "kb_map_state t = kb_map_state s" "caps_locked t = caps_locked s"
    "caps_released t = caps_released s" "currentTerminal t = currentTerminal s"
    "curr_pcb t = curr_pcb s" "pcbarray t = pcbarray s" "pin t = pin s"
    "page_directory t = page_directory s" "bootBlock t = bootBlock s"
    by (simp_all add: t)
  show "typing_buf (cur_term t) = typing_buf (cur_term s)"
    "typing_buf_idx (cur_term t) = typing_buf_idx (cur_term s)"
    "enter_pressed (cur_term t) = enter_pressed (cur_term s)"
    "t_active (cur_term t) = t_active (cur_term s)" "top_pid (cur_term t) = top_pid (cur_term s)"
    using f by (auto simp: t cur_term_def)
qed

lemma console_frame_masks:
  assumes "console_frame s t"
  shows "master_mask t = master_mask s" "slave_mask t = slave_mask s"
    "interrupt_count t = interrupt_count s"
proof -
  obtain m p i f where "t = s\<lparr>mem := m, ports := p, iflag := i, terminals := f\<rparr>"
    using assms unfolding console_frame_def by blast
  then show "master_mask t = master_mask s" "slave_mask t = slave_mask s"
    "interrupt_count t = interrupt_count s" by simp_all
qed

lemmas putc_fields [simp] = console_frame_fields [OF console_frame_putc [OF console_frame_refl]]
lemmas backspace_fields [simp] = console_frame_fields [OF console_frame_print_backspace [OF console_frame_refl]]

lemma upd_term_fields:
  "kb_map_state (upd_term f s) = kb_map_state s" "caps_locked (upd_term f s) = caps_locked s"
  "page_directory (upd_term f s) = page_directory s"
  by (simp_all add: upd_term_def)

text \<open>The end of the handler: the acknowledgement and the interrupt flag.\<close>

definition irq_done :: "kernel \<Rightarrow> kernel" where
  "irq_done s = sti (send_eoi 1 s)"

lemma irq_done_fields [simp]:
  "kb_map_state (irq_done s) = kb_map_state s" "caps_locked (irq_done s) = caps_locked s"
  "currentTerminal (irq_done s) = currentTerminal s" "cur_term (irq_done s) = cur_term s"
  "mem (irq_done s) = mem s" "terminals (irq_done s) = terminals s"
  "page_directory (irq_done s) = page_directory s" "con_abs (irq_done s) = con_abs s"
  by (simp_all add: irq_done_def sti_def send_eoi_def outb_def cur_term_def con_abs_def)

lemma ok_irq_done: "kernel_ok s \<Longrightarrow> kernel_ok (irq_done s)"
  by (simp add: irq_done_def kinv)

section \<open>One key at a time\<close>

text \<open>A keyboard interrupt with scancode \<open>sc\<close> in the controller.\<close>

definition press :: "u8 \<Rightarrow> kernel \<Rightarrow> kernel" where
  "press sc s = s\<lparr>pin := (\<lambda>tr p. if p = 0x60 then sc else pin s tr p)\<rparr>"

definition key_irq :: "u8 \<Rightarrow> kernel \<Rightarrow> outcome" where
  "key_irq sc s = handle_keyboard [] ([], []) (press sc s)"

definition line_of :: "kernel \<Rightarrow> u8 list" where
  "line_of s = take (nat (typing_buf_idx (cur_term s))) (typing_buf (cur_term s))"

text \<open>No modifier held, caps lock off.\<close>

definition modifiers_clear :: "kernel \<Rightarrow> bool" where
  "modifiers_clear s \<longleftrightarrow> kb_map_state s 0x2A = 0 \<and> kb_map_state s 0x36 = 0 \<and> kb_map_state s 0x1D = 0
     \<and> kb_map_state s 0x38 = 0 \<and> caps_locked s = 0"

text \<open>The keys that stand for a character.\<close>

definition plain_key :: "u8 \<Rightarrow> bool" where
  "plain_key sc \<longleftrightarrow> 0 < sc \<and> sc \<le> 57 \<and>
     sc \<notin> {0x01, 0x0E, 0x0F, 0x1C, 0x1D, 0x2A, 0x36, 0x37, 0x38, 0x3A, 0x3B, 0x3C, 0x3D}"

definition typing_ok :: "kernel \<Rightarrow> bool" where
  "typing_ok s \<longleftrightarrow> kernel_ok s \<and> modifiers_clear s \<and> typing_buf_idx (cur_term s) \<le> 121"

lemma typing_okD:
  assumes "typing_ok s"
  shows "kernel_ok s" "modifiers_clear s" "0 \<le> typing_buf_idx (cur_term s)"
    "typing_buf_idx (cur_term s) \<le> 121" "length (typing_buf (cur_term s)) = 122" "cursor_ok s"
  using assms kernel_okD(1) [of s] kernel_ok_cursor [of s] by (simp_all add: typing_ok_def term_ok_def)

lemma length_line: "typing_ok s \<Longrightarrow> length (line_of s) = nat (typing_buf_idx (cur_term s))"
  using typing_okD [of s] by (simp add: line_of_def)

text \<open>The state the handler starts from.\<close>

definition kb_start :: "u8 \<Rightarrow> kernel \<Rightarrow> kernel" where
  "kb_start sc s = cli (press sc s)"

lemma kb_start_fields [simp]:
  "kb_map_state (kb_start sc s) = kb_map_state s" "caps_locked (kb_start sc s) = caps_locked s"
  "cur_term (kb_start sc s) = cur_term s" "currentTerminal (kb_start sc s) = currentTerminal s"
  "con_abs (kb_start sc s) = con_abs s" "kernel_ok (kb_start sc s) = kernel_ok s"
  "modifiers_clear (kb_start sc s) = modifiers_clear s" "inb (kb_start sc s) 0x60 = sc"
  "page_directory (kb_start sc s) = page_directory s" "mem (kb_start sc s) = mem s" "line_of (kb_start sc s) = line_of s"
  by (simp_all add: kb_start_def press_def cli_def cur_term_def con_abs_def modifiers_clear_def
      inb_def line_of_def)

lemma type_key_spec:
  assumes ok: "kernel_ok s" and idx: "typing_buf_idx (cur_term s) < 121" and c: "c \<noteq> 0"
  shows "\<exists>t. type_key c s = Some t \<and> line_of t = line_of s @ [c]
    \<and> typing_buf_idx (cur_term t) = typing_buf_idx (cur_term s) + 1
    \<and> con_abs t = a_putc c (con_abs s) \<and> kb_map_state t = kb_map_state s
    \<and> caps_locked t = caps_locked s \<and> currentTerminal t = currentTerminal s
    \<and> page_directory t = page_directory s"
proof -
  let ?i = "typing_buf_idx (cur_term s)" and ?b = "typing_buf (cur_term s)"
  have i: "0 \<le> ?i" "length ?b = 122" using kernel_okD(1) [OF ok] by (simp_all add: term_ok_def)
  let ?u = "bump_idx (upd_term (\<lambda>t. t\<lparr>typing_buf := ?b[nat ?i := c]\<rparr>) s)"
  have t: "type_key c s = Some (putc c ?u)"
    using idx c i by (simp add: type_key_def store_typed_def)
  have cur: "cursor_ok ?u"
    using kernel_ok_cursor [OF ok] by (simp add: cursor_ok_def bump_idx_def)
  have "nat (?i + 1) = Suc (nat ?i)" using i by simp
  moreover have "take (Suc (nat ?i)) (?b[nat ?i := c]) = take (nat ?i) ?b @ [c]"
    using idx i by (simp add: take_Suc_conv_app_nth)
  ultimately have "line_of (putc c ?u) = line_of s @ [c]"
    by (simp add: line_of_def bump_idx_def)
  moreover have "con_abs (putc c ?u) = a_putc c (con_abs s)"
    using putc_refines [OF cur, of c] by (simp add: con_abs_def bump_idx_def)
  ultimately show ?thesis
    unfolding t by (simp add: bump_idx_def upd_term_fields)
qed

lemma kb_map_l_nonzero: "0 \<notin> set kb_map_l"
  by (simp add: kb_map_l_def)

lemma plain_char: "plain_key sc \<Longrightarrow> kb_map_l ! unat sc \<noteq> 0"
proof -
  assume "plain_key sc"
  then have "unat sc < length kb_map_l"
    by (simp add: plain_key_def word_le_nat_alt)
  then show ?thesis using kb_map_l_nonzero nth_mem by metis
qed

lemma uint_ne: "sc \<noteq> k \<Longrightarrow> uint sc \<noteq> uint k" for sc k :: u8
  by (metis unsigned_word_eqI)

lemma plain_switch:
  assumes "plain_key sc"
  shows "kb_switch (uint sc) s = Some (0, s)" and "0 < uint sc" and "uint sc \<le> 57" and "uint sc \<noteq> 14"
proof -
  have "uint sc \<le> uint (57 :: u8)" using assms by (simp add: plain_key_def word_le_def)
  then show le: "uint sc \<le> 57" by simp
  show "0 < uint sc" using assms by (simp add: plain_key_def word_less_def)
  have nn: "uint sc \<notin> {0x01, 0x0E, 0x0F, 0x1C, 0x1D, 0x2A, 0x36, 0x37, 0x38, 0x3A, 0x3B, 0x3C, 0x3D}"
    using assms uint_ne [of sc 1] uint_ne [of sc 14] uint_ne [of sc 15] uint_ne [of sc 28] uint_ne [of sc 29]
      uint_ne [of sc 42] uint_ne [of sc 54] uint_ne [of sc 55] uint_ne [of sc 56] le by (simp add: plain_key_def)
  then show "uint sc \<noteq> 14" by simp
  show "kb_switch (uint sc) s = Some (0, s)" using nn le by (auto simp: kb_switch_def)
qed

text \<open>A character key appends its character, while there is room, and echoes it.\<close>

lemma key_irq_char:
  assumes ok: "typing_ok s" and sc: "plain_key sc"
  shows "\<exists>t. key_irq sc s = Resumed t \<and> typing_ok t \<and> page_directory t = page_directory s
    \<and> line_of t = (if length (line_of s) < 121 then line_of s @ [kb_map_l ! unat sc] else line_of s)
    \<and> con_abs t = (if length (line_of s) < 121 then a_putc (kb_map_l ! unat sc) (con_abs s) else con_abs s)"
proof -
  note k = typing_okD [OF ok]
  let ?s = "kb_start sc s" and ?c = "kb_map_l ! unat sc"
  have c: "key_char (uint sc) ?s = ?c"
    using k(2) plain_switch(4) [OF sc] by (simp add: key_char_def modifiers_clear_def)
  have run: "key_irq sc s = (case type_key ?c ?s of None \<Rightarrow> Fault | Some t \<Rightarrow> Resumed (irq_done t))"
    unfolding key_irq_def handle_keyboard_def Let_def kb_start_def [symmetric] kb_start_fields
    using plain_switch [OF sc] c k(2) by (simp add: modifiers_clear_def irq_done_def cong: option.case_cong)
  show ?thesis
  proof (cases "typing_buf_idx (cur_term s) < 121")
    case True
    from type_key_spec [of ?s, OF _ _ plain_char [OF sc]] k True
    obtain t where t: "type_key ?c ?s = Some t" "line_of t = line_of s @ [?c]"
      "typing_buf_idx (cur_term t) = typing_buf_idx (cur_term s) + 1" "con_abs t = a_putc ?c (con_abs s)"
      "kb_map_state t = kb_map_state s" "caps_locked t = caps_locked s" "page_directory t = page_directory s"
      by auto
    have "kernel_ok t" by (rule ok_type_key [OF _ t(1)]) (use k in simp)
    then have "typing_ok (irq_done t)"
      using t k True by (simp add: typing_ok_def modifiers_clear_def ok_irq_done)
    moreover have "length (line_of s) < 121" using True k(3) length_line [OF ok] by simp
    moreover have "line_of (irq_done t) = line_of t" by (simp add: line_of_def)
    ultimately show ?thesis using run t by simp
  next
    case False
    then have "type_key ?c ?s = Some ?s" by (simp add: type_key_def)
    then show ?thesis
      using run False length_line [OF ok] k
      by (simp add: line_of_def typing_ok_def ok_irq_done modifiers_clear_def)
  qed
qed

text \<open>Backspace takes the last character of the line away; a tab takes three cells.\<close>

definition a_erase :: "u8 \<Rightarrow> acon \<Rightarrow> acon" where
  "a_erase c a = (if c = 9 then a_backspace (a_backspace (a_backspace a)) else a_backspace a)"

lemma key_irq_backspace:
  assumes ok: "typing_ok s"
  shows "\<exists>t. key_irq 14 s = Resumed t \<and> typing_ok t \<and> page_directory t = page_directory s
    \<and> line_of t = butlast (line_of s)
    \<and> con_abs t = (if line_of s = [] then con_abs s else a_erase (last (line_of s)) (con_abs s))"
proof -
  note k = typing_okD [OF ok]
  let ?s = "kb_start 14 s" and ?i = "typing_buf_idx (cur_term s)" and ?b = "typing_buf (cur_term s)"
  have kk: "kernel_ok (cli (press 14 s))" using k(1) by (simp add: kb_start_def [symmetric])
  show ?thesis
  proof (cases "?i = 0")
    case True
    let ?u = "upd_term (\<lambda>t. t\<lparr>typing_buf_idx := 0\<rparr>) (upd_term (\<lambda>t. t\<lparr>typing_buf_idx := typing_buf_idx t - 1\<rparr>) ?s)"
    have sw: "kb_switch 14 ?s = Some (0, ?u)"
      using True by (simp add: kb_switch_def key_backspace_def Let_def)
    have "key_char 14 ?u = 0"
      using k(2) by (simp add: key_char_def modifiers_clear_def upd_term_fields)
    then have ty: "type_key (key_char 14 ?u) ?u = Some ?u" by (simp add: type_key_def)
    have run: "key_irq 14 s = Resumed (irq_done ?u)"
      unfolding key_irq_def handle_keyboard_def Let_def kb_start_def [symmetric] kb_start_fields
      using sw ty k(2) by (simp add: modifiers_clear_def irq_done_def upd_term_fields)
    have "kernel_ok ?u" by (rule ok_kb_switch [OF _ sw]) (use k in simp)
    then have "typing_ok (irq_done ?u)"
      using k by (simp add: typing_ok_def modifiers_clear_def ok_irq_done upd_term_fields)
    then show ?thesis using run True by (simp add: line_of_def con_abs_def upd_term_fields)
  next
    case False
    then have i: "0 < ?i" using k(3) by simp
    let ?u = "upd_term (\<lambda>t. t\<lparr>typing_buf_idx := typing_buf_idx t - 1\<rparr>) ?s" and ?c = "?b ! nat (?i - 1)"
    let ?v = "if ?c = 9 then print_backspace (print_backspace (print_backspace ?u)) else print_backspace ?u"
    have f: "fetch ?b (?i - 1) = Some ?c" using i k by simp
    have sw: "kb_switch 14 ?s = Some (1, set_key 14 1 ?v)"
      using i f by (simp add: kb_switch_def key_backspace_def Let_def)
    have vf: "kb_map_state ?v = kb_map_state s" "typing_buf (cur_term ?v) = ?b"
      "typing_buf_idx (cur_term ?v) = ?i - 1" "caps_locked ?v = caps_locked s"
      "page_directory ?v = page_directory s"
      by (simp_all add: upd_term_fields)
    have run: "key_irq 14 s = Resumed (irq_done (set_key 14 1 ?v))"
      unfolding key_irq_def handle_keyboard_def Let_def kb_start_def [symmetric] kb_start_fields
      using sw k(2) vf(1) by (simp add: modifiers_clear_def irq_done_def set_key_def)
    have vok: "kernel_ok (set_key 14 1 ?v)" by (rule ok_kb_switch [OF _ sw]) (use k in simp)
    have sk: "cur_term (set_key 14 1 ?v) = cur_term ?v" "page_directory (set_key 14 1 ?v) = page_directory s"
      "caps_locked (set_key 14 1 ?v) = caps_locked s" "con_abs (set_key 14 1 ?v) = con_abs ?v"
      "kb_map_state (set_key 14 1 ?v) = (kb_map_state s)(14 := 1)"
      using vf by (simp_all add: set_key_def cur_term_def con_abs_def)
    have "typing_ok (irq_done (set_key 14 1 ?v))"
      unfolding typing_ok_def modifiers_clear_def irq_done_fields sk vf
      using vok k(2,4) by (simp add: modifiers_clear_def ok_irq_done)
    moreover have "line_of (irq_done (set_key 14 1 ?v)) = butlast (line_of s)"
      unfolding line_of_def irq_done_fields sk vf
      using i k by (simp add: butlast_take nat_diff_distrib)
    moreover have "con_abs (irq_done (set_key 14 1 ?v)) = a_erase (last (line_of s)) (con_abs s)"
    proof -
      have cu: "cursor_ok ?u" and au: "con_abs ?u = con_abs s"
        using k(6) by (simp_all add: cursor_ok_def con_abs_def)
      note pb = print_backspace_refines
      have "con_abs ?v = a_erase ?c (con_abs s)"
        using pb [OF cu] pb [OF conjunct2 [OF pb [OF cu]]]
          pb [OF conjunct2 [OF pb [OF conjunct2 [OF pb [OF cu]]]]] au
        by (simp add: a_erase_def)
      moreover have "line_of s \<noteq> []" using i length_line [OF ok] by auto
      from last_conv_nth [OF this] have "last (line_of s) = ?c"
        using i k by (simp add: line_of_def nat_diff_distrib)
      ultimately show ?thesis by (simp add: sk)
    qed
    moreover have "line_of s \<noteq> []" using i length_line [OF ok] by auto
    ultimately show ?thesis using run sk vf by simp
  qed
qed

section \<open>Enter\<close>

lemma key_irq_enter:
  assumes ok: "typing_ok s"
  shows "\<exists>t. key_irq 28 s = Resumed t \<and> typing_ok t \<and> currentTerminal t = currentTerminal s
    \<and> line_of t = line_of s \<and> enter_pressed (cur_term t) = 1
    \<and> typing_buf_idx (cur_term t) = typing_buf_idx (cur_term s)
    \<and> typing_buf (cur_term t) ! nat (typing_buf_idx (cur_term t)) = 10
    \<and> con_abs t = a_newline (con_abs s) \<and> page_directory t = page_directory s"
proof -
  note k = typing_okD [OF ok]
  let ?s = "kb_start 28 s" and ?i = "typing_buf_idx (cur_term s)" and ?b = "typing_buf (cur_term s)"
  let ?p = "putc 10 (set_key 28 1 ?s)"
  let ?u = "upd_term (\<lambda>t. t\<lparr>typing_buf := ?b[nat ?i := 10]\<rparr>) ?p"
  let ?v = "upd_term (\<lambda>t. t\<lparr>enter_pressed := 1\<rparr>) ?u"
  have sk: "cur_term (set_key 28 1 ?s) = cur_term s" "con_abs (set_key 28 1 ?s) = con_abs s"
    "kb_map_state (set_key 28 1 ?s) = (kb_map_state s)(28 := 1)" "caps_locked (set_key 28 1 ?s) = caps_locked s"
    "currentTerminal (set_key 28 1 ?s) = currentTerminal s"
    "page_directory (set_key 28 1 ?s) = page_directory s"
    by (simp_all add: set_key_def cur_term_def con_abs_def kb_start_def press_def cli_def)
  have sw: "kb_switch 28 ?s = Some (1, ?v)"
    using k(3-5) sk by (simp add: kb_switch_def key_enter_def store_typed_def)
  have run: "key_irq 28 s = Resumed (irq_done ?v)"
    unfolding key_irq_def handle_keyboard_def Let_def kb_start_def [symmetric] kb_start_fields
    using sw k(2) sk by (simp add: modifiers_clear_def irq_done_def upd_term_fields)
  have vok: "kernel_ok ?v" by (rule ok_kb_switch [OF _ sw]) (use k in simp)
  have "typing_ok (irq_done ?v)"
    unfolding typing_ok_def modifiers_clear_def
    using vok k(2,4) sk by (simp add: modifiers_clear_def ok_irq_done upd_term_fields)
  moreover have "con_abs (irq_done ?v) = a_newline (con_abs s)"
  proof -
    have "cursor_ok (set_key 28 1 ?s)" using k(6) sk by (simp add: cursor_ok_def)
    from putc_newline_refines [OF this, of 10] have "con_abs ?p = a_newline (con_abs s)"
      using sk by simp
    then show ?thesis by (simp add: con_abs_def)
  qed
  ultimately show ?thesis
    using run k(3-5) sk by (simp add: line_of_def upd_term_fields)
qed

section \<open>A typed line\<close>

text \<open>The line a sequence of character and backspace keys leaves.\<close>

definition edit_key :: "u8 \<Rightarrow> u8 list \<Rightarrow> u8 list" where
  "edit_key sc l = (if sc = 14 then butlast l
     else if length l < 121 then l @ [kb_map_l ! unat sc] else l)"

fun run_keys :: "u8 list \<Rightarrow> kernel \<Rightarrow> kernel option" where
  "run_keys [] s = Some s"
| "run_keys (sc # scs) s = (case key_irq sc s of Resumed t \<Rightarrow> run_keys scs t | _ \<Rightarrow> None)"

lemma run_keys_append:
  "run_keys (xs @ ys) s = Option.bind (run_keys xs s) (run_keys ys)"
  by (induction xs arbitrary: s) (auto split: outcome.split)

lemma run_keys_edit:
  "typing_ok s \<Longrightarrow> \<forall>sc\<in>set scs. sc = 14 \<or> plain_key sc \<Longrightarrow>
   \<exists>t. run_keys scs s = Some t \<and> typing_ok t \<and> page_directory t = page_directory s
     \<and> line_of t = fold edit_key scs (line_of s)"
proof (induction scs arbitrary: s)
  case (Cons sc scs)
  obtain t where t: "key_irq sc s = Resumed t" "typing_ok t" "page_directory t = page_directory s"
    "line_of t = edit_key sc (line_of s)"
  proof (cases "sc = 14")
    case True
    with key_irq_backspace [OF Cons.prems(1)] that show ?thesis by (auto simp: edit_key_def)
  next
    case False
    with Cons.prems have "plain_key sc" by auto
    from key_irq_char [OF Cons.prems(1) this] that False show ?thesis by (auto simp: edit_key_def)
  qed
  then show ?case using Cons.IH [OF t(2)] Cons.prems by auto
qed simp

text \<open>Typing a line and Enter, and then reading it.\<close>

lemma typed_line_read:
  assumes ok: "typing_ok s" and keys: "\<forall>sc\<in>set scs. sc = 14 \<or> plain_key sc"
    and empty: "line_of s = []"
  shows "\<exists>t. run_keys (scs @ [28]) s = Some t \<and> typing_ok t \<and> page_directory t = page_directory s \<and> enter_pressed (cur_term t) = 1
    \<and> take (nat (typing_buf_idx (cur_term t)) + 1) (typing_buf (cur_term t)) = fold edit_key scs [] @ [10]
    \<and> nat (typing_buf_idx (cur_term t)) = length (fold edit_key scs [])"
proof -
  obtain u where u: "run_keys scs s = Some u" "typing_ok u" "page_directory u = page_directory s" "line_of u = fold edit_key scs []"
    using run_keys_edit [OF ok keys] empty by auto
  obtain t where t: "key_irq 28 u = Resumed t" "typing_ok t" "page_directory t = page_directory u" "line_of t = line_of u"
    "enter_pressed (cur_term t) = 1" "typing_buf_idx (cur_term t) = typing_buf_idx (cur_term u)"
    "typing_buf (cur_term t) ! nat (typing_buf_idx (cur_term t)) = 10"
    using key_irq_enter [OF u(2)] by auto
  have "nat (typing_buf_idx (cur_term t)) < length (typing_buf (cur_term t))"
    using typing_okD [OF t(2)] by simp
  then have "take (nat (typing_buf_idx (cur_term t)) + 1) (typing_buf (cur_term t)) = line_of t @ [10]"
    using t(7) by (simp add: line_of_def take_Suc_conv_app_nth)
  then show ?thesis
    using u t length_line [OF u(2)] by (simp add: run_keys_append)
qed

section \<open>Caps lock\<close>

lemma caps_toggle:
  "caps_locked s \<in> {0, 1} \<Longrightarrow> caps_released s = 1 \<Longrightarrow>
   caps_locked (key_caps_lock s) = 1 - caps_locked s \<and> caps_released (key_caps_lock s) = 0"
  by (auto simp: key_caps_lock_def Let_def set_key_def not_int_def)

end
