(* ===== verification/Boot.thy ===== *)
theory Boot
  imports LineDisc
begin

text \<open>
  Start-up: the interrupt descriptor table (\<open>idt.c\<close>) and \<open>entry\<close> (\<open>kernel.c\<close>), from the multiboot
  report to the first terminal.  The segment descriptors of the GDT are left out; the TSS fields the
  kernel uses are in the state.
\<close>

section \<open>Interrupt descriptor table\<close>

abbreviation (input) "KERNEL_CS \<equiv> 0x10 :: int"
abbreviation (input) "KERNEL_DS \<equiv> 0x18 :: int"
abbreviation (input) "NUM_TRAP \<equiv> 32 :: int"

definition idt_entry :: "int \<Rightarrow> idt_desc_t \<Rightarrow> idt_desc_t" where
  "idt_entry i g =
     (let g = (if i < 20 \<and> i \<noteq> 15
               then g\<lparr>g_present := 1, g_reserved4 := 0, g_reserved0 := 0, g_reserved1 := 1,
                      g_reserved2 := 1, g_reserved3 := 1, g_size := 1, g_dpl := 0,
                      g_selector := KERNEL_CS\<rparr> else g);
          g = (if NUM_TRAP \<le> i \<and> i < NUM_TRAP + 16
               then g\<lparr>g_present := 0, g_reserved4 := 0, g_reserved0 := 0, g_reserved1 := 1,
                      g_reserved2 := 1, g_reserved3 := 0, g_size := 1, g_dpl := 0,
                      g_selector := KERNEL_CS\<rparr> else g)
      in if i = 128
         then g\<lparr>g_present := 1, g_reserved4 := 0, g_reserved0 := 0, g_reserved1 := 1,
                g_reserved2 := 1, g_reserved3 := 0, g_size := 1, g_dpl := 3,
                g_selector := KERNEL_CS\<rparr> else g)"

definition set_idt_entry :: "int \<Rightarrow> handler_t \<Rightarrow> (int \<Rightarrow> idt_desc_t) \<Rightarrow> int \<Rightarrow> idt_desc_t" where
  "set_idt_entry i h t = t(i := (t i)\<lparr>g_handler := Some h\<rparr>)"

definition set_present :: "int \<Rightarrow> (int \<Rightarrow> idt_desc_t) \<Rightarrow> int \<Rightarrow> idt_desc_t" where
  "set_present i t = t(i := (t i)\<lparr>g_present := 1\<rparr>)"

definition idt_setup :: "kernel \<Rightarrow> kernel" where
  "idt_setup s =
     (let t = update_each idt_entry [0..255] (idt s);
          t = set_present 0x20 t;
          t = set_present 0x21 t;
          t = set_present 0x28 t;
          t = fold (\<lambda>n. set_idt_entry (int n) (Intr n))
                [0, 1, 2, 3, 4, 5, 6, 7, 8, 9, 10, 11, 12, 13, 14, 16, 17, 18, 19] t;
          t = set_idt_entry 128 Syscall t;
          t = fold (\<lambda>n. set_idt_entry (NUM_TRAP + int n) (Irq n)) [0..<16] t
      in s\<lparr>idt := t\<rparr>)"

section \<open>The multiboot report\<close>

definition kprintf :: "string \<Rightarrow> parg list \<Rightarrow> kernel \<Rightarrow> kernel option" where
  "kprintf fmt args s = map_option snd (printf (cstr fmt) args s)"

text \<open>A 32-bit field of a structure in memory.\<close>

definition field32 :: "int \<Rightarrow> int \<Rightarrow> kernel \<Rightarrow> int" where
  "field32 base off s = le32 (peek s) (base + off)"

primrec print_bytes :: "nat \<Rightarrow> int \<Rightarrow> kernel \<Rightarrow> kernel option" where
  "print_bytes 0 a s = Some s"
| "print_bytes (Suc n) a s =
     Option.bind (kprintf ''0x%x '' [PInt (sint (peek s a))] s) (print_bytes n (a + 1))"

text \<open>The loop over the modules; module 0 is the file system.\<close>

primrec load_modules :: "nat \<Rightarrow> int \<Rightarrow> int \<Rightarrow> kernel \<Rightarrow> kernel option" where
  "load_modules 0 mod_count m s = Some s"
| "load_modules (Suc n) mod_count m s = do {
     let mod_start = field32 m 0 s;
     let s = (if mod_count = 0
              then s\<lparr>bootBlock := \<lparr>addr = mod_start, dir_count = field32 mod_start 0 s,
                       inode_count = field32 mod_start 4 s, data_count = field32 mod_start 8 s\<rparr>\<rparr>
              else s);
     s \<leftarrow> kprintf (''Module %d loaded at address: 0x%#x'' @ [CHR 0x0A]) [PInt mod_count, PInt mod_start] s;
     s \<leftarrow> kprintf (''Module %d ends at address: 0x%#x'' @ [CHR 0x0A]) [PInt mod_count, PInt (field32 m 4 s)] s;
     s \<leftarrow> kprintf (''First few bytes of module:'' @ [CHR 0x0A]) [] s;
     s \<leftarrow> print_bytes 16 mod_start s;
     s \<leftarrow> kprintf [CHR 0x0A] [] s;
     load_modules n (mod_count + 1) (m + 16) s
   }"

partial_function (option) print_mmap :: "int \<Rightarrow> int \<Rightarrow> kernel \<Rightarrow> kernel option" where
  "print_mmap mmap stop s =
     (if mmap < stop
      then Option.bind
        (kprintf (''    size = 0x%x, base_addr = 0x%#x%#x'' @ [CHR 0x0A]
            @ ''    type = 0x%x,  length    = 0x%#x%#x'' @ [CHR 0x0A])
          [PInt (field32 mmap 0 s), PInt (field32 mmap 8 s), PInt (field32 mmap 4 s),
           PInt (field32 mmap 20 s), PInt (field32 mmap 16 s), PInt (field32 mmap 12 s)] s)
        (\<lambda>s. print_mmap (u32 (mmap + field32 mmap 0 s + 4)) stop s)
      else Some s)"

definition check_flag :: "int \<Rightarrow> nat \<Rightarrow> bool" where
  "check_flag fl b = bit fl b"

text \<open>The report: \<open>Inl\<close> when \<open>entry\<close> returns early.\<close>

definition boot_report :: "int \<Rightarrow> int \<Rightarrow> kernel \<Rightarrow> (kernel + kernel) option" where
  "boot_report magic mbi s = do {
     let s = clear s;
     if magic \<noteq> 0x2BADB002
     then map_option Inl (kprintf (''Invalid magic number: 0x%#x'' @ [CHR 0x0A]) [PInt magic] s)
     else do {
       let fl = field32 mbi 0 s;
       s \<leftarrow> kprintf (''flags = 0x%#x'' @ [CHR 0x0A]) [PInt fl] s;
       s \<leftarrow> (if check_flag fl 0
             then kprintf (''mem_lower = %uKB, mem_upper = %uKB'' @ [CHR 0x0A])
                    [PInt (field32 mbi 4 s), PInt (field32 mbi 8 s)] s else Some s);
       s \<leftarrow> (if check_flag fl 1
             then kprintf (''boot_device = 0x%#x'' @ [CHR 0x0A]) [PInt (field32 mbi 12 s)] s else Some s);
       s \<leftarrow> (if check_flag fl 2
             then kprintf (''cmdline = %s'' @ [CHR 0x0A]) [PStr (str_at (field32 mbi 16 s) s)] s else Some s);
       s \<leftarrow> (if check_flag fl 3
             then load_modules (nat (field32 mbi 20 s)) 0 (field32 mbi 24 s) s else Some s);
       if check_flag fl 4 \<and> check_flag fl 5
       then map_option Inl (kprintf (''Both bits 4 and 5 are set.'' @ [CHR 0x0A]) [] s)
       else do {
         s \<leftarrow> (if check_flag fl 5
               then kprintf (''elf_sec: num = %u, size = 0x%#x, addr = 0x%#x, shndx = 0x%#x'' @ [CHR 0x0A])
                      [PInt (field32 mbi 28 s), PInt (field32 mbi 32 s), PInt (field32 mbi 36 s),
                       PInt (field32 mbi 40 s)] s
               else Some s);
         s \<leftarrow> (if check_flag fl 6
               then do {
                 s \<leftarrow> kprintf (''mmap_addr = 0x%#x, mmap_length = 0x%x'' @ [CHR 0x0A])
                        [PInt (field32 mbi 48 s), PInt (field32 mbi 44 s)] s;
                 print_mmap (field32 mbi 48 s) (u32 (field32 mbi 48 s + field32 mbi 44 s)) s
               }
               else Some s);
         Some (Inr s)
       }
     }
   }"

section \<open>Initialisation\<close>

definition init_pcb :: "pcb_t \<Rightarrow> pcb_t" where
  "init_pcb p = p\<lparr>p_active := 0, fda := update_each (\<lambda>_ _. empty_fd) [0..7] (fda p),
     p_cmd := replicate 122 0, p_arg := replicate 122 0, curr_pid := 0, parent_pid := - 1,
     parent_esp := 0, parent_ebp := 0, p_esp := 0, p_ebp := 0\<rparr>"

definition init_term :: "term_t \<Rightarrow> term_t" where
  "init_term t = t\<lparr>t_active := 0, enter_pressed := 0, screen_x := 0, screen_y := 0, typing_buf_idx := 0\<rparr>"

definition set_active :: "pcb_t \<Rightarrow> pcb_t" where
  "set_active p = p\<lparr>p_active := 1\<rparr>"

definition boot_init :: "kernel \<Rightarrow> kernel" where
  "boot_init s =
     (let s = s\<lparr>tss_ss0 := KERNEL_DS, tss_esp0 := 0x800000\<rparr>;
          s = clear s;
          s = s\<lparr>terminals := (terminals s)(0 := (terminals s 0)\<lparr>vidmem := ACACHE\<rparr>)\<rparr>;
          s = s\<lparr>terminals := (terminals s)(1 := (terminals s 1)\<lparr>vidmem := BCACHE\<rparr>)\<rparr>;
          s = s\<lparr>terminals := (terminals s)(2 := (terminals s 2)\<lparr>vidmem := CCACHE\<rparr>)\<rparr>;
          s = s\<lparr>terminals := update_each (\<lambda>_. init_term) [0..2] (terminals s)\<rparr>;
          s = s\<lparr>pcbarray := update_each (\<lambda>_. init_pcb) [0..5] (pcbarray s)\<rparr>;
          s = upd_pcb 0 set_active s;
          s = upd_pcb 1 set_active s;
          s = upd_pcb 2 set_active s;
          s = s\<lparr>curr_pcb := 0\<rparr>;
          s = s\<lparr>terminals := (terminals s)(0 := (terminals s 0)\<lparr>top_pid := 0\<rparr>)\<rparr>;
          s = idt_setup s;
          s = paging_setup s;
          s = i8259_init s;
          s = rtc_init s;
          s = pit_init s;
          s = kb_init s;
          s = print_msg (''Enabling Interrupts'' @ [CHR 0x0A]) s
      in sti s)"

definition entry :: "(kernel \<Rightarrow> kernel) list \<Rightarrow> u8 list \<times> u8 list \<Rightarrow> int \<Rightarrow> int \<Rightarrow> kernel \<Rightarrow> outcome" where
  "entry irqs locals magic mbi s =
     (case boot_report magic mbi s of
        None \<Rightarrow> Fault
      | Some (Inl s) \<Rightarrow> Ret 0 s
      | Some (Inr s) \<Rightarrow> switch_terminal irqs locals 0 (boot_init s))"

section \<open>The gates\<close>

text \<open>Which vectors are present after \<open>idt_setup\<close>, with which handler, type and privilege.\<close>

definition idt_handler :: "int \<Rightarrow> handler_t option" where
  "idt_handler i =
     (if 0 \<le> i \<and> i < 20 \<and> i \<noteq> 15 then Some (Intr (nat i))
      else if 32 \<le> i \<and> i < 48 then Some (Irq (nat (i - 32)))
      else if i = 128 then Some Syscall else None)"

lemma fold_idt_other:
  "i \<notin> f ` set ns \<Longrightarrow> fold (\<lambda>n. set_idt_entry (f n) (h n)) ns t i = t i"
  by (induction ns arbitrary: t) (auto simp: set_idt_entry_def)

lemma fold_idt_at:
  "distinct ns \<Longrightarrow> inj f \<Longrightarrow> n \<in> set ns \<Longrightarrow>
   fold (\<lambda>n. set_idt_entry (f n) (h n)) ns t (f n) = (t (f n))\<lparr>g_handler := Some (h n)\<rparr>"
proof (induction ns arbitrary: t)
  case (Cons m ns)
  show ?case
  proof (cases "n = m")
    case True
    then have "f n \<notin> f ` set ns" using Cons.prems by (auto dest: injD)
    with True show ?thesis by (simp add: fold_idt_other) (simp add: set_idt_entry_def)
  next
    case False
    then have "f n \<noteq> f m" using Cons.prems by (auto dest: injD)
    with False Cons show ?thesis by (simp add: set_idt_entry_def)
  qed
qed simp

lemma fold_idt_bits:
  "g_present (fold (\<lambda>n. set_idt_entry (f n) (h n)) ns t i) = g_present (t i)"
  "g_dpl (fold (\<lambda>n. set_idt_entry (f n) (h n)) ns t i) = g_dpl (t i)"
  "g_reserved3 (fold (\<lambda>n. set_idt_entry (f n) (h n)) ns t i) = g_reserved3 (t i)"
  by (induction ns arbitrary: t) (simp_all add: set_idt_entry_def)

lemma set_present_handler: "g_handler (set_present k t i) = g_handler (t i)"
  by (simp add: set_present_def)

lemma idt_entry_handler: "g_handler (idt_entry i g) = g_handler g"
  by (simp add: idt_entry_def Let_def)

definition intr_numbers :: "nat list" where
  "intr_numbers = [0, 1, 2, 3, 4, 5, 6, 7, 8, 9, 10, 11, 12, 13, 14, 16, 17, 18, 19]"

lemma set_intr_numbers: "set intr_numbers = set [0..<20] - {15}"
  by code_simp

lemma idt_setup_handler:
  assumes "idt s i = g0" and "g_handler g0 = None" and "0 \<le> i" and "i < 256"
  shows "g_handler (idt (idt_setup s) i) = idt_handler i"
proof -
  let ?t = "set_present 0x28 (set_present 0x21 (set_present 0x20 (update_each idt_entry [0..255] (idt s))))"
  let ?u = "fold (\<lambda>n. set_idt_entry (int n) (Intr n)) intr_numbers ?t"
  let ?v = "set_idt_entry 128 Syscall ?u"
  have idt: "idt (idt_setup s) = fold (\<lambda>n. set_idt_entry (32 + int n) (Irq n)) [0..<16] ?v"
    by (simp add: idt_setup_def Let_def intr_numbers_def del: upto_rec_numeral)
  have t: "g_handler (?t i) = None"
    using assms by (simp add: set_present_handler update_each_upto idt_entry_handler del: upto_rec_numeral)
  have inj: "inj int" "inj (\<lambda>n. 32 + int n)" by (auto simp: inj_def)
  consider n where "i = 32 + int n" "n < 16" | "i = 128" | n where "i = int n" "n \<in> set intr_numbers"
    | "i \<notin> (\<lambda>n. 32 + int n) ` set [0..<16]" "i \<noteq> 128" "i \<notin> int ` set intr_numbers"
    by fastforce
  then show ?thesis
  proof cases
    case 1
    then show ?thesis
      unfolding idt by (simp add: fold_idt_at [OF _ inj(2)] idt_handler_def del: upt_rec_numeral)
  next
    case 2
    then have "i \<notin> (\<lambda>n. 32 + int n) ` set [0..<16]" by auto
    from fold_idt_other [OF this] show ?thesis
      unfolding idt by (simp add: 2 set_idt_entry_def idt_handler_def)
  next
    case 3
    then have n: "i \<notin> (\<lambda>n. 32 + int n) ` set [0..<16]" "i \<noteq> 128" "0 \<le> i \<and> i < 20 \<and> i \<noteq> 15"
      by (auto simp: intr_numbers_def)
    have "distinct intr_numbers" by (simp add: intr_numbers_def)
    from fold_idt_at [OF this inj(1) 3(2)] show ?thesis
      unfolding idt fold_idt_other [OF n(1)]
      using 3(1) n by (simp add: set_idt_entry_def idt_handler_def)
  next
    case 4
    have "\<not> (32 \<le> i \<and> i < 48)"
    proof
      assume "32 \<le> i \<and> i < 48"
      then have "i = 32 + int (nat (i - 32))" "nat (i - 32) \<in> set [0..<16]" by auto
      with 4(1) show False by blast
    qed
    moreover have "\<not> (i < 20 \<and> i \<noteq> 15)"
    proof
      assume "i < 20 \<and> i \<noteq> 15"
      then have "nat i \<in> set intr_numbers"
        unfolding set_intr_numbers using assms(3) by auto
      then show False using 4(3) assms(3) by (metis image_eqI nat_0_le)
    qed
    ultimately show ?thesis
      unfolding idt fold_idt_other [OF 4(1)]
      using 4(2) t fold_idt_other [OF 4(3), of Intr ?t] by (simp add: set_idt_entry_def idt_handler_def)
  qed
qed

text \<open>Present are the exceptions, the three used interrupt lines and the system call gate; only that
  gate is open to user mode.\<close>

lemma idt_setup_bits:
  assumes "g_present (idt s i) = 0" and "0 \<le> i" and "i < 256"
  shows "g_present (idt (idt_setup s) i)
      = (if i < 20 \<and> i \<noteq> 15 \<or> i \<in> {0x20, 0x21, 0x28, 128} then 1 else 0)"
    and "g_present (idt (idt_setup s) i) = 1 \<Longrightarrow>
      g_dpl (idt (idt_setup s) i) = (if i = 128 then 3 else 0)
      \<and> g_reserved3 (idt (idt_setup s) i) = (if i < 20 then 1 else 0)"
proof -
  let ?t = "set_present 0x28 (set_present 0x21 (set_present 0x20 (update_each idt_entry [0..255] (idt s))))"
  let ?r = "idt (idt_setup s) i"
  have "g_present ?r = g_present (?t i)" and b: "g_dpl ?r = g_dpl (?t i)" "g_reserved3 ?r = g_reserved3 (?t i)"
    unfolding idt_setup_def Let_def
    by (simp_all add: fold_idt_bits set_idt_entry_def del: upto_rec_numeral upt_rec_numeral fold_simps)
  moreover have p: "g_present (?t i) = (if i < 20 \<and> i \<noteq> 15 \<or> i \<in> {0x20, 0x21, 0x28, 128} then 1 else 0)"
    using assms by (simp add: set_present_def update_each_upto idt_entry_def Let_def del: upto_rec_numeral)
  ultimately show "g_present ?r = (if i < 20 \<and> i \<noteq> 15 \<or> i \<in> {0x20, 0x21, 0x28, 128} then 1 else 0)"
    by simp
  assume "g_present ?r = 1"
  then have "i < 20 \<and> i \<noteq> 15 \<or> i \<in> {0x20, 0x21, 0x28, 128}"
    using p \<open>g_present ?r = g_present (?t i)\<close> by (simp split: if_splits)
  then show "g_dpl ?r = (if i = 128 then 3 else 0) \<and> g_reserved3 ?r = (if i < 20 then 1 else 0)"
    unfolding b using assms(2,3)
    by (auto simp: set_present_def update_each_upto idt_entry_def Let_def simp del: upto_rec_numeral)
qed

section \<open>The state after start-up\<close>

text \<open>The static storage \<open>entry\<close> relies on: terminal 0 is current, the typing buffers have their
  size and the process numbers of the terminals are in range.  The descriptor arrays have eight
  elements; the model's functions are fixed to the empty descriptor elsewhere.\<close>

definition bss_ok :: "kernel \<Rightarrow> bool" where
  "bss_ok s \<longleftrightarrow> currentTerminal s = 0 \<and> (\<forall>p i. i < 0 \<or> 8 \<le> i \<longrightarrow> fda (pcbarray s p) i = empty_fd)
     \<and> (\<forall>i\<in>{0..2}. length (typing_buf (terminals s i)) = 122 \<and> 0 \<le> top_pid (terminals s i) \<and> top_pid (terminals s i) < 6)"

lemma bss_ok_console: "console_frame s t \<Longrightarrow> bss_ok s \<Longrightarrow> bss_ok t"
proof -
  assume fr: "console_frame s t" and ok: "bss_ok s"
  obtain m p i f where t: "t = s\<lparr>mem := m, ports := p, iflag := i, terminals := f\<rparr>"
    and f: "\<exists>x y. f = (terminals s)(currentTerminal s := (cur_term s)\<lparr>screen_x := x, screen_y := y\<rparr>)"
    using fr unfolding console_frame_def by blast
  show "bss_ok t" using ok f by (auto simp: t bss_ok_def cur_term_def)
qed

lemma ok_boot_pcbs:
  "update_each (\<lambda>_. init_pcb) [0..5] ps i = (if 0 \<le> i \<and> i \<le> 5 then init_pcb (ps i) else ps i)"
  "update_each (\<lambda>_. init_term) [0..2] ts i = (if 0 \<le> i \<and> i \<le> 2 then init_term (ts i) else ts i)"
  by (simp_all only: update_each_upto)

lemma pcb_ok_init: "(\<And>i. i < 0 \<or> 8 \<le> i \<Longrightarrow> fda p i = empty_fd) \<Longrightarrow> pcb_ok (init_pcb p)"
  unfolding pcb_ok_def init_pcb_def
  by (simp add: update_each_upto fd_ok_def del: upto_rec_numeral) (auto simp: empty_fd_def)

lemma ok_idt_setup [kinv]: "kernel_ok s \<Longrightarrow> kernel_ok (idt_setup s)"
  by (simp add: idt_setup_def Let_def kernel_ok_def del: upto_rec_numeral upt_rec_numeral)

lemma ok_paging_setup [kinv]: "kernel_ok s \<Longrightarrow> kernel_ok (paging_setup s)"
  by (simp add: paging_setup_def Let_def kernel_ok_def del: upto_rec_numeral)

lemma ok_i8259_init [kinv]: "kernel_ok s \<Longrightarrow> kernel_ok (i8259_init s)"
  by (simp add: i8259_init_def Let_def kinv)

lemma ok_pit_init [kinv]: "kernel_ok s \<Longrightarrow> kernel_ok (pit_init s)"
  by (simp add: pit_init_def Let_def kinv)

lemma ok_kb_init [kinv]: "kernel_ok s \<Longrightarrow> kernel_ok (kb_init s)"
  by (simp add: kb_init_def kinv)

lemma kernel_ok_boot_init:
  assumes "bss_ok s"
  shows "kernel_ok (boot_init s)"
proof -
  let ?a = "clear (s\<lparr>tss_ss0 := KERNEL_DS, tss_esp0 := 0x800000\<rparr>)"
  have a: "bss_ok ?a"
    by (rule bss_ok_console [OF console_frame_clear [OF console_frame_refl]])
       (use assms in \<open>simp add: bss_ok_def\<close>)
  define vids where "vids = (terminals ?a)(0 := (terminals ?a 0)\<lparr>vidmem := ACACHE\<rparr>,
    1 := (terminals ?a 1)\<lparr>vidmem := BCACHE\<rparr>, 2 := (terminals ?a 2)\<lparr>vidmem := CCACHE\<rparr>)"
  define ts where "ts = update_each (\<lambda>_. init_term) [0..2] vids"
  define ps where "ps = update_each (\<lambda>_. init_pcb) [0..5] (pcbarray ?a)"
  let ?b = "?a\<lparr>pcbarray := ps(0 := set_active (ps 0), 1 := set_active (ps 1), 2 := set_active (ps 2)),
      curr_pcb := 0, terminals := ts(0 := (ts 0)\<lparr>top_pid := 0\<rparr>)\<rparr>"
  have "term_ok (ts i)" if "0 \<le> i" "i \<le> 2" for i
    using a that by (auto simp: ts_def vids_def ok_boot_pcbs bss_ok_def term_ok_def init_term_def)
  moreover have "pcb_ok (ps i)" if "0 \<le> i" "i \<le> 5" for i
    using a that by (auto simp: ps_def ok_boot_pcbs bss_ok_def intro!: pcb_ok_init)
  moreover have "pcb_ok (set_active p)" if "pcb_ok p" for p
    using that by (simp add: pcb_ok_def set_active_def)
  ultimately have "kernel_ok ?b"
    using a by (auto simp: kernel_ok_def bss_ok_def term_ok_def)
  moreover have "boot_init s = sti (print_msg (''Enabling Interrupts'' @ [CHR 0x0A]) (kb_init (pit_init (rtc_init
      (i8259_init (paging_setup (idt_setup ?b)))))))"
    unfolding boot_init_def Let_def upd_pcb_def ts_def ps_def vids_def by simp
  ultimately show ?thesis by (simp add: kinv)
qed

text \<open>The interrupt lines that are open: timer, keyboard, cascade and clock.\<close>

lemma masks_after_i8259_init:
  "irq_open m (i8259_init s) = (m = 2)" if "0 \<le> m" "m < 16"
proof -
  have m1: "bit (master_mask (i8259_init s)) i = (i < 8 \<and> i \<noteq> 2)" for i
  proof -
    have "bit (0xFF :: u8) i = (i < 8)" using bit_mask_iff [of 8 i, where ?'a = "u8"]
      by (simp add: mask_eq_exp_minus_1)
    then show ?thesis by (simp add: i8259_init_def Let_def irq_bits)
  qed
  have m2: "bit (slave_mask (i8259_init s)) i = (i < 8)" for i
  proof -
    have "bit (0xFF :: u8) i = (i < 8)" using bit_mask_iff [of 8 i, where ?'a = "u8"]
      by (simp add: mask_eq_exp_minus_1)
    then show ?thesis by (simp add: i8259_init_def Let_def irq_bits)
  qed
  show ?thesis using that by (auto simp: irq_open_def m1 m2)
qed

lemma masks_fields [simp]:
  "master_mask (s\<lparr>interrupt_count := c\<rparr>) = master_mask s" "slave_mask (s\<lparr>interrupt_count := c\<rparr>) = slave_mask s"
  by simp_all

lemma irq_open_cong:
  "master_mask s = master_mask t \<Longrightarrow> slave_mask s = slave_mask t \<Longrightarrow> irq_open m s = irq_open m t"
  by (simp add: irq_open_def)

lemma irq_open_inits:
  assumes "0 \<le> m" "m < 16"
  shows "irq_open m (rtc_init s) = irq_open m (enable_irq 8 s)"
    and "irq_open m (pit_init s) = irq_open m (enable_irq 0 s)"
    and "irq_open m (kb_init s) = irq_open m (enable_irq 1 s)"
  by (rule irq_open_cong; simp add: rtc_init_def pit_init_def kb_init_def enable_irq_def Let_def)+

lemma irq_open_enable_eq:
  assumes "0 \<le> m" "m < 16" "0 \<le> n" "n < 16"
  shows "irq_open m (enable_irq n s) \<longleftrightarrow>
    (if n < 8 then (if m < 8 then m = n \<or> irq_open m s
                    else irq_open m s \<or> n = 2 \<and> \<not> bit (slave_mask s) (nat (m - 8)))
     else if m < 8 then m = 2 \<or> irq_open m s else m = n \<or> \<not> bit (slave_mask s) (nat (m - 8)))"
  using assms by (auto simp: irq_open_def irq_bits nat_eq_iff2)

lemma slave_after_i8259_init: "i < 8 \<Longrightarrow> bit (slave_mask (i8259_init s)) i"
proof -
  assume "i < 8"
  then have "bit (0xFF :: u8) i" using bit_mask_iff [of 8 i, where ?'a = "u8"]
    by (simp add: mask_eq_exp_minus_1)
  then show ?thesis by (simp add: i8259_init_def Let_def irq_bits)
qed

lemma irq_open_print_msg: "irq_open m (print_msg msg s) = irq_open m s"
  by (rule irq_open_cong)
     (simp_all add: print_msg_def console_frame_masks [OF console_frame_fold_putc [OF console_frame_refl]])

lemma irq_open_boot_init:
  assumes m: "0 \<le> m" "m < 16"
  shows "irq_open m (boot_init s) \<longleftrightarrow> m \<in> {0, 1, 2, 8}"
proof -
  have k: "irq_open m (kb_init (pit_init (rtc_init (i8259_init v)))) \<longleftrightarrow> m \<in> {0, 1, 2, 8}" for v
  proof -
    have sl: "m < 8 \<or> bit (slave_mask (i8259_init v)) (nat (m - 8))"
      using m slave_after_i8259_init [of "nat (m - 8)" v] by auto
    show ?thesis
      using m sl masks_after_i8259_init [OF m, of v]
      by (auto simp: irq_open_inits [OF m] irq_open_enable_eq)
  qed
  have "irq_open m (sti v) = irq_open m v" for v by (simp add: irq_open_def sti_def)
  then show ?thesis unfolding boot_init_def Let_def by (simp add: irq_open_print_msg k)
qed

end
