(* ===== verification/KernelSteps.thy ===== *)
theory KernelSteps
  imports Boot
begin

text \<open>
  The kernel as a transition system: interrupts, exceptions, system calls and the user program's
  own memory writes, in any order.  The kernel invariant holds of every state that can be reached
  from start-up, and user programs reach only their own page.  What an event comes to is an
  outcome, \<open>Fault\<close> among them; theory \<open>KernelFaults\<close> says which events can fault and when.
\<close>

section \<open>Events\<close>

primrec outcome_state :: "outcome \<Rightarrow> kernel option" where
  "outcome_state (Ret r s) = Some s"
| "outcome_state (ToUser eip esp s) = Some s"
| "outcome_state (ToParent r s) = Some s"
| "outcome_state (Resumed s) = Some s"
| "outcome_state Waiting = None"
| "outcome_state Fault = None"

text \<open>The physical bytes of the current process's page.\<close>

definition own_page :: "kernel \<Rightarrow> int \<Rightarrow> bool" where
  "own_page s a \<longleftrightarrow> user_page s * PHYS4MB \<le> a \<and> a < (user_page s + 1) * PHYS4MB"

text \<open>An interrupt: the line and what the device's ports answer; the third component is what the two
  name buffers of an \<open>execute\<close> it leads to hold beforehand.  The entry stub of line \<open>n\<close> leaves
  \<open>- n\<close> in \<open>eax\<close>.\<close>

type_synonym arrival = "int \<times> ((int \<times> u8) list \<Rightarrow> int \<Rightarrow> u8) \<times> u8 list \<times> u8 list"

definition interrupt :: "(kernel \<Rightarrow> kernel) list \<Rightarrow> arrival \<Rightarrow> kernel \<Rightarrow> outcome" where
  "interrupt irqs = (\<lambda>(n, device, l) s. do_irq irqs l (- n) (s\<lparr>pin := device\<rparr>))"

text \<open>An interrupt that arrives in the wait of a blocked read and returns to it.  One that does not
  return to the wait (it starts a shell, halts the process or faults) is an event of its own, in the
  state of the wait.\<close>

definition arrives :: "arrival \<Rightarrow> kernel \<Rightarrow> kernel" where
  "arrives a s = (case interrupt [] a s of Resumed t \<Rightarrow> t | _ \<Rightarrow> s)"

datatype event =
    First_shell
  | Line arrival
  | Exception nat
  | Call int int int int

text \<open>\<open>w\<close> are the interrupts during the event's wait, \<open>l\<close> the name buffers of its \<open>execute\<close>.\<close>

definition happens :: "arrival list \<Rightarrow> u8 list \<times> u8 list \<Rightarrow> event \<Rightarrow> kernel \<Rightarrow> outcome" where
  "happens w l ev s =
     (let irqs = List.map arrives w in
      case ev of
        First_shell \<Rightarrow> switch_terminal irqs l 0 s
      | Line a \<Rightarrow> interrupt irqs a s
      | Exception n \<Rightarrow> intr irqs l n s
      | Call eax ebx ecx edx \<Rightarrow> sys_call irqs l (s32 eax) ebx ecx edx s)"

definition buffers_ok :: "arrival list \<Rightarrow> u8 list \<times> u8 list \<Rightarrow> event \<Rightarrow> bool" where
  "buffers_ok w l ev \<longleftrightarrow> list_all (\<lambda>(n, d, l). locals_ok l) w \<and> locals_ok l
     \<and> (case ev of Line (n, d, l) \<Rightarrow> locals_ok l | _ \<Rightarrow> True)"

section \<open>Steps\<close>

text \<open>Besides the events with their outcome and the user's writes: a read that has to wait has set
  the interrupt flag (\<open>terminal_read\<close>), and cleared the clock's flag as well (\<open>rtc_read\<close>).\<close>

inductive kstep :: "kernel \<Rightarrow> kernel \<Rightarrow> bool" where
  Event: "buffers_ok w l ev \<Longrightarrow> outcome_state (happens w l ev s) = Some t \<Longrightarrow> kstep s t"
| Terminal_wait: "kstep s (sti s)"
| Rtc_wait: "kstep s ((sti s)\<lparr>rtc_interrupt_occurred := 0\<rparr>)"
| User: "(\<And>a. \<not> own_page s a \<Longrightarrow> m a = mem s a) \<Longrightarrow> kstep s (s\<lparr>mem := m\<rparr>)"

inductive_cases kstepE: "kstep s t"

inductive reachable :: "kernel \<Rightarrow> kernel \<Rightarrow> bool" for s0 where
  init: "reachable s0 (boot_init s0)"
| step: "reachable s0 s \<Longrightarrow> kstep s t \<Longrightarrow> reachable s0 t"

lemma outcome_state_ok: "outcome_ok q \<Longrightarrow> outcome_state q = Some t \<Longrightarrow> kernel_ok t"
  by (cases q) auto

lemma ok_interrupt:
  "irqs_ok irqs \<Longrightarrow> locals_ok (snd (snd a)) \<Longrightarrow> kernel_ok s \<Longrightarrow> outcome_ok (interrupt irqs a s)"
  by (cases a) (simp add: interrupt_def ok_do_irq)

lemma ok_arrives: "locals_ok (snd (snd a)) \<Longrightarrow> kernel_ok s \<Longrightarrow> kernel_ok (arrives a s)"
  using ok_interrupt [of "[]" a s] by (auto simp: arrives_def irqs_ok_def split: outcome.split)

lemma irqs_ok_arrives: "list_all (\<lambda>(n, d, l). locals_ok l) w \<Longrightarrow> irqs_ok (List.map arrives w)"
  by (auto simp: irqs_ok_def list_all_iff intro!: ok_arrives)

lemma ok_happens:
  assumes "buffers_ok w l ev" and "kernel_ok s"
  shows "outcome_ok (happens w l ev s)"
proof -
  have i: "irqs_ok (List.map arrives w)" and l: "locals_ok l"
    using assms(1) irqs_ok_arrives by (auto simp: buffers_ok_def)
  show ?thesis
  proof (cases ev)
    case (Line a)
    then show ?thesis
      using ok_interrupt [OF i, of a s] assms by (cases a) (simp add: happens_def buffers_ok_def)
  qed (simp_all add: happens_def ok_switch_terminal [OF i l] ok_intr [OF i l] ok_sys_call [OF i l] assms(2))
qed

lemma kstep_ok: "kstep s t \<Longrightarrow> kernel_ok s \<Longrightarrow> kernel_ok t"
  by (induction rule: kstep.induct) (auto dest: outcome_state_ok [OF ok_happens] simp: kinv)

lemma reachable_ok: "reachable s0 s \<Longrightarrow> bss_ok s0 \<Longrightarrow> kernel_ok s"
  by (induction rule: reachable.induct) (auto intro: kernel_ok_boot_init kstep_ok)

section \<open>The lines reach their handlers\<close>

lemma do_irq_dispatch:
  assumes "0 \<le> n" and "n < 16"
  shows "do_irq irqs l (- n) s =
    (if n = 0 then Resumed (handle_pit s) else if n = 1 then handle_keyboard irqs l s
     else if n = 8 then Resumed (handle_rtc s) else Resumed s)"
proof -
  have "NOT (- n - 1) = n" by (simp add: not_int_def)
  moreover have "s32 n = n" using assms by simp
  ultimately show ?thesis by (simp add: do_irq_def Let_def)
qed

end
