(* ===== verification/Descriptors.thy ===== *)
theory Descriptors
  imports SysCall
begin

text \<open>
  The file descriptor interface: what an open and a close of any driver promise, and what the
  system calls make of it.
\<close>

section \<open>The driver contract\<close>

text \<open>Opening marks the descriptor used and returns it, closing empties it, and both leave the other
  descriptors alone.\<close>

locale fd_driver =
  fixes dopen :: "int \<Rightarrow> kernel \<Rightarrow> int \<times> kernel"
    and dclose :: "int \<Rightarrow> kernel \<Rightarrow> int \<times> kernel"
  assumes open_result: "fst (dopen fd s) = fd"
    and open_used: "flags (cur_fd (snd (dopen fd s)) fd) = 1"
    and open_fops: "fops (cur_fd (snd (dopen fd s)) fd) = fops (cur_fd s fd)"
    and open_other: "fd' \<noteq> fd \<Longrightarrow> cur_fd (snd (dopen fd s)) fd' = cur_fd s fd'"
    and close_result: "fst (dclose fd s) = 0"
    and close_empty: "cur_fd (snd (dclose fd s)) fd = empty_fd"
    and close_other: "fd' \<noteq> fd \<Longrightarrow> cur_fd (snd (dclose fd s)) fd' = cur_fd s fd'"
begin

lemma open_close: "cur_fd (snd (dclose fd (snd (dopen fd s)))) = (cur_fd s)(fd := empty_fd)"
  by (rule ext) (simp add: close_empty close_other open_other)

lemma close_all_but: "cur_fd (snd (dclose fd s)) = (cur_fd s)(fd := empty_fd)"
  by (rule ext) (simp add: close_empty close_other)

end

lemma cur_fd_rtc_init [simp]: "cur_fd (rtc_init s) = cur_fd s"
  by (simp add: rtc_init_def Let_def enable_irq_def outb_def cur_fd_def cur_proc_def fun_eq_iff)

interpretation file_driver: fd_driver open_file close_file
  by unfold_locales (simp_all add: open_file_def close_file_def empty_fd_def)

interpretation dir_driver: fd_driver open_dir close_dir
  by unfold_locales (simp_all add: open_dir_def close_dir_def empty_fd_def)

interpretation rtc_driver: fd_driver rtc_open rtc_close
  by unfold_locales (simp_all add: rtc_open_def rtc_close_def empty_fd_def Let_def)

lemmas driver_open_simps = file_driver.open_result file_driver.open_used file_driver.open_fops
  file_driver.open_other dir_driver.open_result dir_driver.open_used dir_driver.open_fops
  dir_driver.open_other rtc_driver.open_result rtc_driver.open_used rtc_driver.open_fops
  rtc_driver.open_other

section \<open>Open\<close>

lemma free_fd_spec:
  "(free_fd s = - 1 \<and> (\<forall>i\<in>{0..7}. flags (cur_fd s i) \<noteq> 0))
   \<or> (0 \<le> free_fd s \<and> free_fd s \<le> 7 \<and> flags (cur_fd s (free_fd s)) = 0
      \<and> (\<forall>i\<in>{0..<free_fd s}. flags (cur_fd s i) \<noteq> 0))"
proof -
  let ?P = "\<lambda>i. flags (cur_fd s i) = 0"
  have l: "[0, 1, 2, 3, 4, 5, 6, 7 :: int] = [0..7]" by code_simp
  show ?thesis
  proof (cases "find ?P [0..7]")
    case None
    moreover have "\<forall>i\<in>{0..7}. \<not> ?P i"
      using None by (simp add: find_None_iff del: upto_rec_numeral)
    ultimately show ?thesis by (simp add: free_fd_def l del: upto_rec_numeral)
  next
    case (Some i)
    then obtain n where n: "n < 8" "?P (int n)" "i = int n" "\<And>j. j < n \<Longrightarrow> \<not> ?P (int j)"
      by (auto simp: find_Some_iff simp del: upto_rec_numeral)
    moreover have "\<not> ?P k" if "k \<in> {0..<i}" for k
      using n(4) [of "nat k"] that n(3) by (auto simp: nat_less_iff)
    ultimately show ?thesis
      using Some by (simp add: free_fd_def l del: upto_rec_numeral)
  qed
qed

text \<open>What a successful open leaves: the lowest free descriptor is used and bound to the driver of the
  entry's type; the others are unchanged.\<close>

definition type_fops :: "int \<Rightarrow> fops_t option" where
  "type_fops t = (if t = 0 then Some Rtc_fops else if t = 1 then Some Dir_fops
     else if t = 2 then Some File_fops else None)"

lemma fops_open_spec:
  assumes "f \<in> {File_fops, Dir_fops, Rtc_fops}" and "fops (cur_fd s fd) = Some f"
  shows "fst (fops_open f fd s) = fd" "flags (cur_fd (snd (fops_open f fd s)) fd) = 1"
    "fops (cur_fd (snd (fops_open f fd s)) fd) = Some f"
    "fd' \<noteq> fd \<Longrightarrow> cur_fd (snd (fops_open f fd s)) fd' = cur_fd s fd'"
  using assms by (auto simp: fops_open_def driver_open_simps)

lemma strncmp_empty:
  "0 \<in> set name \<Longrightarrow> \<exists>r. strncmp name (cstr []) 1 = Some r \<and> (r = 0 \<longleftrightarrow> text_of name = [])"
  using strncmp_eq_0 [of name "cstr []" 1] by (simp add: cstr_def text_of_Cons)

lemma sysOpen_spec:
  assumes name: "0 \<in> set name" and opened: "sysOpen name s = Some (fd, t)" and fd: "0 \<le> fd"
  shows "fd = free_fd s" and "fd \<le> 7" and "flags (cur_fd t fd) = 1"
    and "\<exists>d f. read_dentry_by_name name s = Some (0, Some d) \<and> type_fops (d_ftype d) = Some f
      \<and> fops (cur_fd t fd) = Some f"
    and "\<And>fd'. fd' \<noteq> fd \<Longrightarrow> cur_fd t fd' = cur_fd s fd'"
proof -
  obtain r where r: "strncmp name (cstr []) 1 = Some r" "r \<noteq> 0" and free: "0 \<le> free_fd s"
    using opened fd by (auto simp: sysOpen_def bind_eq_Some_conv split: if_splits)
  obtain q d where look: "read_dentry_by_name name s = Some (q, Some d)"
    using opened r free fd by (auto simp: sysOpen_def bind_eq_Some_conv split: option.splits)
  then have q0: "q = 0" using read_dentry_by_name_spec [OF name, of s] by (auto split: option.splits)
  define g where "g = (if d_ftype d = 0 then Rtc_fops else if d_ftype d = 1 then Dir_fops else File_fops)"
  define u where "u = (\<lambda>f :: fd_t. if d_ftype d = 2 then f\<lparr>fops := Some g, inode := d_inode d\<rparr> else f\<lparr>fops := Some g\<rparr>)"
  have ty: "d_ftype d \<in> {0, 1, 2}" and res: "(fd, t) = fops_open g (free_fd s) (upd_fd (free_fd s) u s)"
    using opened r free fd look
    by (auto simp: sysOpen_def Let_def g_def u_def split: if_splits)
  have g: "g \<in> {File_fops, Dir_fops, Rtc_fops}" "fops (cur_fd (upd_fd (free_fd s) u s) (free_fd s)) = Some g"
    by (simp_all add: g_def u_def)
  note op = fops_open_spec [OF g]
  have ft: "fst (fops_open g (free_fd s) (upd_fd (free_fd s) u s)) = fd"
    "snd (fops_open g (free_fd s) (upd_fd (free_fd s) u s)) = t" using res by (metis fst_conv snd_conv)+
  show f: "fd = free_fd s" using op(1) ft by simp
  show "fd \<le> 7" using f free free_fd_spec [of s] by auto
  show "flags (cur_fd t fd) = 1" using op(2) ft f by simp
  show "\<exists>d f. read_dentry_by_name name s = Some (0, Some d) \<and> type_fops (d_ftype d) = Some f
      \<and> fops (cur_fd t fd) = Some f"
    using look q0 op(3) ft f ty by (auto simp: type_fops_def g_def)
  show "cur_fd t fd' = cur_fd s fd'" if "fd' \<noteq> fd" for fd'
    using op(4) ft f that by simp
qed

section \<open>Close\<close>

lemma fops_close_spec:
  "f \<in> {File_fops, Dir_fops, Rtc_fops} \<Longrightarrow>
   fst (fops_close f fd s) = 0 \<and> cur_fd (snd (fops_close f fd s)) = (cur_fd s)(fd := empty_fd)"
  by (auto simp: fops_close_def file_driver.close_result dir_driver.close_result rtc_driver.close_result
      file_driver.close_all_but dir_driver.close_all_but rtc_driver.close_all_but)

lemma open_close_restores:
  assumes name: "0 \<in> set name" and opened: "sysOpen name s = Some (fd, t)" and fd: "0 \<le> fd"
  shows "\<exists>u. sysClose fd t = Some (0, u) \<and> cur_fd u = (cur_fd s)(fd := empty_fd)"
proof -
  note op = sysOpen_spec [OF name opened fd]
  obtain d :: dentry_t and f where f: "type_fops (d_ftype d) = Some f" "fops (cur_fd t fd) = Some f" using op(4) by blast
  then have "f \<in> {File_fops, Dir_fops, Rtc_fops}" by (auto simp: type_fops_def split: if_splits)
  note cl = fops_close_spec [OF this, of fd t]
  have "sysClose fd t = Some (fops_close f fd t)"
    using fd op(2,3) f(2) by (simp add: sysClose_def fd_invalid_def)
  moreover have "cur_fd (snd (fops_close f fd t)) = (cur_fd s)(fd := empty_fd)"
    using cl op(5) by auto
  ultimately show ?thesis using cl by (cases "fops_close f fd t") auto
qed

section \<open>Rejected calls\<close>

lemma bad_fd_rejected:
  "fd_invalid fd s \<Longrightarrow> sysRead irqs fd b n s = Some (- 1, s) \<and> sysWrite fd b n s = Some (- 1, s)
     \<and> sysClose fd s = Some (- 1, s)"
  by (simp add: sysRead_def sysWrite_def sysClose_def)

section \<open>vidmap\<close>

lemma addr20_set_flag: "i < 12 \<Longrightarrow> pte_addr20 (set_flag i v e) = pte_addr20 e"
  by (simp add: pte_addr20_def set_flag_def bf_get_put_other)

lemma vidmap_bits:
  assumes "0 \<le> page_table_addr s" and "page_table_addr s < 2 ^ 32" and "page_table_addr s mod 4096 = 0"
    and "page_table_addr s \<noteq> first_page_table_addr s" and "0x400000 < p" and "p < 0x8400000"
    and user: "pte_user (page_table s 0)"
    and off: "0 \<le> off" "off < 4096"
  shows "fst (vidmap p s) = 0 \<and> translate (snd (vidmap p s)) True (USER_VIDMAP + off) = Some (VIDEO + off)"
proof -
  define e where "e = page_directory (snd (vidmap p s)) 34"
  have pd: "page_directory (poke_list a bs t) = page_directory t" "page_table (poke_list a bs t) = page_table t"
    "first_page_table_addr (poke_list a bs t) = first_page_table_addr t"
    "page_table_addr (poke_list a bs t) = page_table_addr t" for a bs t
    by (induction bs arbitrary: a t) (simp_all add: poke_def)
  have pt: "page_table_addr s div 4096 * 4096 = page_table_addr s" using assms(3) by auto
  have e: "pte_present e" "pte_user e" "\<not> bit e 7" "pte_addr20 e * 4096 = page_table_addr s"
    using assms(1-3,5,6)
    by (simp_all add: e_def vidmap_def Let_def pd pte_present_def pte_user_def uint_take20 pt)
  have t: "table_at (snd (vidmap p s)) (page_table_addr s) = Some (page_table (snd (vidmap p s)))"
    using assms(4-6) by (simp add: table_at_def vidmap_def Let_def pd)
  have f: "pte_present (page_table (snd (vidmap p s)) 0)" "pte_user (page_table (snd (vidmap p s)) 0)"
    "pte_addr20 (page_table (snd (vidmap p s)) 0) = 0xB8"
    using assms(5,6) user by (simp_all add: vidmap_def Let_def pd pte_present_def pte_user_def addr20_set_flag)
  have d: "(USER_VIDMAP + off) div 0x400000 = 34" "(USER_VIDMAP + off) div 4096 mod 1024 = 0"
    "(USER_VIDMAP + off) mod 4096 = off"
  proof -
    have "USER_VIDMAP + off = 4096 * 34816 + off" by simp
    then have dm: "(USER_VIDMAP + off) div 4096 = 34816 \<and> (USER_VIDMAP + off) mod 4096 = off"
      using off int_div_pos_eq [of "USER_VIDMAP + off" 4096 34816 off]
        int_mod_pos_eq [of "USER_VIDMAP + off" 4096 34816 off] by simp
    then show "(USER_VIDMAP + off) div 4096 mod 1024 = 0" "(USER_VIDMAP + off) mod 4096 = off" by simp_all
    show "(USER_VIDMAP + off) div 0x400000 = 34" using off by auto
  qed
  show ?thesis
    using assms(5,6) e t f d
    by (simp add: translate_def Let_def e_def [symmetric]) (simp add: vidmap_def Let_def)
qed

section \<open>Parsing a command line\<close>

lemma scan_stops:
  "i \<le> n \<Longrightarrow> n < length xs \<Longrightarrow> (\<And>j. i \<le> j \<Longrightarrow> j < n \<Longrightarrow> P (xs ! j)) \<Longrightarrow> \<not> P (xs ! n) \<Longrightarrow>
   scan P xs i = Some n"
proof (induction P xs i rule: scan.induct)
  case (1 P xs i)
  show ?case
  proof (cases "i = n")
    case True
    then show ?thesis using "1.prems" by (subst scan.simps) simp
  next
    case False
    then have "i < length xs" "P (xs ! i)" using "1.prems" by auto
    moreover from this have "scan P xs (Suc i) = Some n"
      using "1.IH" "1.prems" False by simp
    ultimately show ?thesis by (subst scan.simps) simp
  qed
qed

lemma scan_arg_stops:
  "i \<le> n \<Longrightarrow> n < length xs \<Longrightarrow> n < 122 \<Longrightarrow>
   (\<And>j. i \<le> j \<Longrightarrow> j < n \<Longrightarrow> xs ! j \<noteq> 0 \<and> xs ! j \<noteq> 10) \<Longrightarrow> xs ! n = 0 \<or> xs ! n = 10 \<Longrightarrow>
   scan_arg xs i = Some n"
proof (induction xs i rule: scan_arg.induct)
  case (1 xs i)
  show ?case
  proof (cases "i = n")
    case True
    then show ?thesis using "1.prems" by (subst scan_arg.simps) simp
  next
    case False
    then have *: "i < 122" "i < length xs" "\<not> (xs ! i = 0 \<or> xs ! i = 10)" using "1.prems" by auto
    then have "scan_arg xs (Suc i) = Some n"
      using "1.IH" "1.prems" False by simp
    with * show ?thesis by (subst scan_arg.simps) simp
  qed
qed

text \<open>A word, some spaces and the rest of the line: the word becomes the command, the rest the
  argument.\<close>

lemma parseCmd_words:
  assumes w: "w \<noteq> []" "set w \<inter> {0, 10, 32} = {}" and a: "set a \<inter> {0, 10} = {}" "a = [] \<or> hd a \<noteq> 32"
    and len: "length w + k + length a < 122" and bufs: "length c0 = 122" "length a0 = 122"
    and k: "a = [] \<or> 0 < k"
  shows "\<exists>cmd arg. parseCmd (w @ replicate k 32 @ a @ 0 # rest) c0 a0 = Some (cmd, arg)
    \<and> text_of cmd = w \<and> text_of arg = a"
proof -
  let ?in = "w @ replicate k 32 @ a @ 0 # rest"
  let ?n = "length w" and ?m = "length w + k"
  let ?j = "length w + k + length a"
  have w0: "?in ! 0 \<noteq> 32" using w by (cases w) auto
  have s1: "scan (\<lambda>c. c = 32) ?in 0 = Some 0"
    by (rule scan_stops) (use w w0 in auto)
  have atn: "?in ! ?n = (if k = 0 then 0 else 32)"
    using k by (auto simp: nth_append)
  have s2: "scan (\<lambda>c. c \<noteq> 10 \<and> c \<noteq> 0 \<and> c \<noteq> 32) ?in 0 = Some ?n"
  proof (rule scan_stops)
    fix j assume "j < ?n"
    then have "?in ! j \<in> set w" by (simp add: nth_append)
    then show "?in ! j \<noteq> 10 \<and> ?in ! j \<noteq> 0 \<and> ?in ! j \<noteq> 32" using w(2) by auto
  qed (use atn in auto)
  have atm: "?in ! ?m \<noteq> 32"
    using a(2) by (cases a) (auto simp: nth_append)
  have s3: "scan (\<lambda>c. c = 32) ?in ?n = Some ?m"
    by (rule scan_stops) (use atm in \<open>auto simp: nth_append\<close>)
  have s4: "scan_arg ?in ?m = Some ?j"
  proof (rule scan_arg_stops)
    fix j assume "?m \<le> j" "j < ?j"
    then have "?in ! j = a ! (j - ?m)" "j - ?m < length a" by (auto simp: nth_append)
    then have "?in ! j \<in> set a" by simp
    then show "?in ! j \<noteq> 0 \<and> ?in ! j \<noteq> 10" using a(1) by auto
  qed (use len in \<open>auto simp: nth_append\<close>)
  have no0: "0 \<notin> set w" "0 \<notin> set a" "0 \<notin> set (w @ replicate k 32 @ a)" using w(2) a(1) by auto
  have ti: "text_of ?in = w @ replicate k 32 @ a"
    using text_of_append [OF no0(3), of rest] by simp
  have ta: "text_of (drop ?m ?in) = a" "0 \<in> set (drop ?m ?in)"
    using text_of_append [OF no0(2), of rest] by simp_all
  have c1: "strncpy c0 ?in ?n = Some (w @ drop ?n c0)"
    using strncpy_spec [of ?in ?n c0] ti len bufs by simp
  have c2: "store (w @ drop ?n c0) (int ?n) 0 = Some (w @ 0 # drop (Suc ?n) c0)"
    using len bufs by (simp add: store_def list_update_append Cons_nth_drop_Suc [symmetric])
  have a1: "strncpy a0 (drop ?m ?in) ?j = Some (a @ replicate ?m 0 @ drop ?j a0)"
    using strncpy_spec [of "drop ?m ?in" ?j a0] ta len bufs by simp
  obtain r where a2: "store (a @ replicate ?m 0 @ drop ?j a0) (int ?j) 0 = Some (a @ 0 # r)"
  proof -
    obtain m' where m': "?m = Suc m'" using w(1) by (cases w) auto
    have j: "?j = length a + Suc m'" using m' by simp
    have "(a @ replicate (Suc m') 0 @ drop ?j a0)[length a + Suc m' := 0]
        = a @ 0 # (replicate m' 0 @ drop ?j a0)[m' := 0]"
      by (subst list_update_append) simp
    moreover have "int (length a + Suc m') < int (length (a @ replicate (Suc m') 0 @ drop ?j a0))"
      using len bufs j by simp
    ultimately have "store (a @ replicate ?m 0 @ drop ?j a0) (int ?j) 0
        = Some (a @ 0 # (replicate m' 0 @ drop ?j a0)[m' := 0])"
      unfolding store_def j [symmetric] m' by (simp only: nat_int of_nat_0_le_iff simp_thms if_True)
    then show thesis by (rule that)
  qed
  have "parseCmd ?in c0 a0 = Some (w @ 0 # drop (Suc ?n) c0, a @ 0 # r)"
    unfolding parseCmd_def s1 bind.simps s2 drop_0 diff_zero c1 c2 s3 s4 a1 a2 by simp
  then show ?thesis using no0 by simp
qed

end
