(* ===== verification/ProcLemmas.thy ===== *)
theory ProcLemmas
  imports KernelSteps Descriptors
begin

text \<open>
  What the process operations do: a terminal switch exchanges the screens, a halt frees the process
  and puts the parent back.
\<close>

section \<open>Terminal switch\<close>

text \<open>The screen areas \<open>entry\<close> gives the terminals.\<close>

definition screens_ok :: "kernel \<Rightarrow> bool" where
  "screens_ok s \<longleftrightarrow> vidmem (terminals s 0) = 0xB9000 \<and> vidmem (terminals s 1) = 0xBA000
     \<and> vidmem (terminals s 2) = 0xBB000"

lemma screens_vidmem: "screens_ok s \<Longrightarrow> i \<in> {0, 1, 2} \<Longrightarrow> vidmem (terminals s i) = 0xB9000 + 0x1000 * i"
  by (auto simp: screens_ok_def)

lemma upd_pcb_simps [simp]:
  "mem (upd_pcb i f s) = mem s" "terminals (upd_pcb i f s) = terminals s"
  "page_directory (upd_pcb i f s) = page_directory s"
  by (simp_all add: upd_pcb_def)

lemma switch_out_simps [simp]:
  "mem (switch_out n s) = memcpy (vidmem (cur_term s)) VIDEO 4096 (mem s)"
  "terminals (switch_out n s) = terminals s" "currentTerminal (switch_out n s) = n"
  by (simp_all add: switch_out_def Let_def cur_term_def)

lemma switch_in_simps [simp]:
  "mem (switch_in s) = memcpy VIDEO (vidmem (cur_term s)) 4096 (mem s)"
  "terminals (switch_in s) = terminals s" "currentTerminal (switch_in s) = currentTerminal s"
  "curr_pcb (switch_in s) = top_pid (cur_term s)"
  by (simp_all add: switch_in_def Let_def set_tss_def cur_term_def)

lemma user_page_set:
  assumes "0 \<le> pid" and "pid < 1022"
  shows "uint (bf_get 22 10 (set_PB_addr_MB (2 + word_of_int pid) e)) = 2 + pid"
proof -
  have "(2 + word_of_int pid :: pte) = word_of_int (2 + pid)" by simp
  moreover have "uint (take_bit 10 (word_of_int (2 + pid) :: pte)) = 2 + pid"
    using assms by (simp only: unsigned_take_bit_eq uint_word_of_int_eq) (simp add: take_bit_int_eq_self)
  ultimately show ?thesis
    unfolding set_PB_addr_MB_def by (simp only: bf_get_put) (simp add: bf_get_put)
qed

lemma user_page_switch_in:
  "0 \<le> top_pid (cur_term s) \<Longrightarrow> top_pid (cur_term s) < 6 \<Longrightarrow>
   user_page (switch_in s) = 2 + top_pid (cur_term s)"
  unfolding user_page_def
  by (simp add: switch_in_def Let_def set_tss_def user_page_set cur_term_def)

text \<open>Switching to an active terminal: its screen is shown, the old one is saved.\<close>

lemma switch_active:
  assumes act: "t_active (terminals s n) \<noteq> 0" and sc: "screens_ok s"
    and n: "n \<in> {0, 1, 2}" and cur: "currentTerminal s \<in> {0, 1, 2}"
  shows "\<exists>t. switch_terminal irqs l n s = Resumed t \<and> currentTerminal t = n \<and> terminals t = terminals s
    \<and> (\<forall>d. 0 \<le> d \<and> d < 4096 \<longrightarrow>
        mem t (VIDEO + d) = (if n = currentTerminal s then mem s (VIDEO + d)
                             else mem s (vidmem (terminals s n) + d))
        \<and> mem t (vidmem (terminals s (currentTerminal s)) + d) = mem s (VIDEO + d)
        \<and> (\<forall>k\<in>{0, 1, 2}. k \<noteq> currentTerminal s \<longrightarrow>
             mem t (vidmem (terminals s k) + d) = mem s (vidmem (terminals s k) + d)))"
proof -
  define V where "V k = vidmem (terminals s k)" for k
  let ?c = "currentTerminal s" and ?u = "switch_out n s"
  have V: "V k = 0xB9000 + 0x1000 * k" if "k \<in> {0, 1, 2}" for k
    using screens_vidmem [OF sc that] by (simp add: V_def)
  have V_low: "VIDEO + 4096 \<le> V k" if "k \<in> {0, 1, 2}" for k using V [OF that] that by auto
  have V_apart: "V j + 4096 \<le> V k \<or> V k + 4096 \<le> V j" if "j \<in> {0, 1, 2}" "k \<in> {0, 1, 2}" "j \<noteq> k" for j k
    using that V [OF that(1)] V [OF that(2)] by auto
  define mu where "mu = memcpy (V ?c) VIDEO 4096 (mem s)"
  define mt where "mt = memcpy VIDEO (V n) 4096 mu"
  have mu: "mu x = (if V ?c \<le> x \<and> x < V ?c + 4096 then mem s (VIDEO + (x - V ?c)) else mem s x)" for x
    unfolding mu_def using V_low [OF cur] by (subst memcpy_copies) auto
  have mt: "mt x = (if VIDEO \<le> x \<and> x < VIDEO + 4096 then mu (V n + (x - VIDEO)) else mu x)" for x
    unfolding mt_def using V_low [OF n] by (subst memcpy_copies) auto
  have run: "switch_terminal irqs l n s = Resumed (switch_in ?u)"
    using act by (simp add: switch_terminal_def Let_def)
  have mem_t: "mem (switch_in ?u) = mt"
    by (simp add: mt_def mu_def V_def cur_term_def)
  have shown: "mt (VIDEO + d) = (if n = ?c then mem s (VIDEO + d) else mem s (V n + d))"
    if d: "0 \<le> d" "d < 4096" for d
  proof -
    have "mt (VIDEO + d) = mu (V n + d)" using d mt [of "VIDEO + d"] by simp
    also have "\<dots> = (if n = ?c then mem s (VIDEO + d) else mem s (V n + d))"
      using d V_apart [OF n cur] by (cases "n = ?c") (auto simp: mu)
    finally show ?thesis .
  qed
  have saved: "mt (V k + d) = (if k = ?c then mem s (VIDEO + d) else mem s (V k + d))"
    if d: "0 \<le> d" "d < 4096" and k: "k \<in> {0, 1, 2}" for d k
  proof -
    have "mt (V k + d) = mu (V k + d)" using d V_low [OF k] mt [of "V k + d"] by simp
    also have "\<dots> = (if k = ?c then mem s (VIDEO + d) else mem s (V k + d))"
      using d V_apart [OF k cur] by (cases "k = ?c") (auto simp: mu)
    finally show ?thesis .
  qed
  have "currentTerminal (switch_in ?u) = n \<and> terminals (switch_in ?u) = terminals s"
    by simp
  then show ?thesis
    using run shown saved [OF _ _ cur] saved unfolding mem_t [symmetric] V_def by (intro exI [of _ "switch_in ?u"]) auto
qed

text \<open>There and back again: the screen is what it was.\<close>

lemma switch_back:
  assumes act: "t_active (terminals s n) \<noteq> 0" "t_active (terminals s (currentTerminal s)) \<noteq> 0"
    and sc: "screens_ok s" and n: "n \<in> {0, 1, 2}" and cur: "currentTerminal s \<in> {0, 1, 2}"
  shows "\<exists>t u. switch_terminal irqs l n s = Resumed t
    \<and> switch_terminal irqs l (currentTerminal s) t = Resumed u
    \<and> (\<forall>d. 0 \<le> d \<and> d < 4096 \<longrightarrow> mem u (VIDEO + d) = mem s (VIDEO + d))
    \<and> currentTerminal u = currentTerminal s \<and> terminals u = terminals s"
proof -
  obtain t where t: "switch_terminal irqs l n s = Resumed t" "currentTerminal t = n" "terminals t = terminals s"
    and m: "\<And>d. 0 \<le> d \<Longrightarrow> d < 4096 \<Longrightarrow>
        mem t (VIDEO + d) = (if n = currentTerminal s then mem s (VIDEO + d) else mem s (vidmem (terminals s n) + d))"
      "\<And>d. 0 \<le> d \<Longrightarrow> d < 4096 \<Longrightarrow> mem t (vidmem (terminals s (currentTerminal s)) + d) = mem s (VIDEO + d)"
    using switch_active [OF act(1) sc n cur, of irqs l] by auto
  have "screens_ok t" using sc t by (simp add: screens_ok_def)
  from switch_active [OF _ this cur, of irqs l] obtain u where
    "switch_terminal irqs l (currentTerminal s) t = Resumed u" "currentTerminal u = currentTerminal s"
    "terminals u = terminals s"
    and "\<And>d. 0 \<le> d \<Longrightarrow> d < 4096 \<Longrightarrow> mem u (VIDEO + d) = (if currentTerminal s = n then mem t (VIDEO + d)
        else mem t (vidmem (terminals s (currentTerminal s)) + d))"
    using act t n by auto
  then show ?thesis using t m by auto
qed

section \<open>Halt\<close>

lemma close_all_shape:
  "\<exists>g. close_all is s = upd_pcb (curr_pcb s) (\<lambda>p. p\<lparr>fda := g\<rparr>) s"
proof (induction "is" arbitrary: s)
  case Nil
  have "close_all [] s = upd_pcb (curr_pcb s) (\<lambda>p. p\<lparr>fda := fda (cur_proc s)\<rparr>) s"
    by (simp add: upd_pcb_def cur_proc_def)
  then show ?case by blast
next
  case (Cons i "is")
  have "\<exists>g. (case fops (cur_fd s i) of None \<Rightarrow> s | Some f \<Rightarrow> snd (fops_close f i s))
      = upd_pcb (curr_pcb s) (\<lambda>p. p\<lparr>fda := g\<rparr>) s"
  proof -
    have "s = upd_pcb (curr_pcb s) (\<lambda>p. p\<lparr>fda := fda (cur_proc s)\<rparr>) s"
      by (simp add: upd_pcb_def cur_proc_def)
    then have same: "\<exists>g. s = upd_pcb (curr_pcb s) (\<lambda>p. p\<lparr>fda := g\<rparr>) s" by blast
    have "\<exists>g. upd_fd i f s = upd_pcb (curr_pcb s) (\<lambda>p. p\<lparr>fda := g\<rparr>) s" for f
    proof -
      have "upd_fd i f s = upd_pcb (curr_pcb s) (\<lambda>p. p\<lparr>fda := (fda (cur_proc s))(i := f (fda (cur_proc s) i))\<rparr>) s"
        by (simp add: upd_fd_def upd_pcb_def cur_proc_def)
      then show ?thesis by blast
    qed
    then show ?thesis using same
      by (auto simp: fops_close_def close_file_def close_dir_def rtc_close_def bad_call_def
          split: option.split fops_t.split)
  qed
  then obtain g where g: "(case fops (cur_fd s i) of None \<Rightarrow> s | Some f \<Rightarrow> snd (fops_close f i s))
      = upd_pcb (curr_pcb s) (\<lambda>p. p\<lparr>fda := g\<rparr>) s" by blast
  obtain h where "close_all is (upd_pcb (curr_pcb s) (\<lambda>p. p\<lparr>fda := g\<rparr>) s)
      = upd_pcb (curr_pcb s) (\<lambda>p. p\<lparr>fda := h\<rparr>) (upd_pcb (curr_pcb s) (\<lambda>p. p\<lparr>fda := g\<rparr>) s)"
    using Cons.IH [of "upd_pcb (curr_pcb s) (\<lambda>p. p\<lparr>fda := g\<rparr>) s"] by auto
  then have "close_all (i # is) s = upd_pcb (curr_pcb s) (\<lambda>p. p\<lparr>fda := h\<rparr>) s"
    by (simp add: g) (simp add: upd_pcb_def)
  then show ?case by blast
qed

text \<open>A process with a parent halts: its number is free, the parent is current, on its own page and
  kernel stack and with the registers saved at its \<open>execute\<close>.\<close>

lemma halt_child:
  assumes par: "0 \<le> parent_pid (cur_proc s)" "parent_pid (cur_proc s) < 6"
    and ne: "parent_pid (cur_proc s) \<noteq> curr_pcb s"
  shows "\<exists>t. sysHalt irqs l status s = ToParent (if status = 99 then 256 else status) t
    \<and> curr_pcb t = parent_pid (cur_proc s) \<and> p_active (pcbarray t (curr_pcb s)) = 0
    \<and> user_page t = 2 + parent_pid (cur_proc s)
    \<and> tss_esp0 t = 0x7FFFFC - 0x10000 * parent_pid (cur_proc s)
    \<and> cpu_esp t = parent_esp (cur_proc s) \<and> cpu_ebp t = parent_ebp (cur_proc s)
    \<and> top_pid (cur_term t) = parent_pid (cur_proc s)
    \<and> (\<forall>p. p \<noteq> curr_pcb s \<longrightarrow> pcbarray t p = pcbarray s p) \<and> iflag t"
proof -
  let ?p = "parent_pid (cur_proc s)" and ?c = "curr_pcb s"
  let ?r = "if status = 99 then 256 else status"
  let ?a = "(putc 10 s)\<lparr>retval := ?r\<rparr>"
  obtain g where g: "close_all [0..7] ?a = upd_pcb ?c (\<lambda>p. p\<lparr>fda := g\<rparr>) ?a"
    using close_all_shape [of "[0..7]" ?a] by auto
  have cp: "cur_proc ?a = cur_proc s" by (simp add: cur_proc_def)
  have pm: "?p mod 256 = ?p" using par by simp
  define b where "b = set_tss ?p (map_user_page ?p (upd_pcb ?c (\<lambda>p. p\<lparr>fda := g\<rparr>) ?a))"
  have b: "curr_pcb b = ?c" "pcbarray b = (pcbarray s)(?c := (cur_proc s)\<lparr>fda := g\<rparr>)"
    "retval b = ?r" "user_page b = 2 + ?p" "tss_esp0 b = 0x7FFFFC - 0x10000 * ?p"
    using par by (simp_all add: b_def set_tss_def map_user_page_def Let_def upd_pcb_def cur_proc_def
        user_page_def user_page_set)
  have cb: "cur_proc b = (cur_proc s)\<lparr>fda := g\<rparr>" by (simp add: cur_proc_def b)
  have nf: "\<not> 6 \<le> ?p" and nm: "?p \<noteq> - 1" using par by simp_all
  define t where "t = sti ((upd_term (\<lambda>t. t\<lparr>top_pid := ?p\<rparr>)
      (upd_pcb ?c (\<lambda>p. p\<lparr>p_active := 0, p_cmd := replicate 122 0, p_arg := replicate 122 0, curr_pid := 0,
        parent_pid := 0, parent_esp := 0, parent_ebp := 0\<rparr>) b))
      \<lparr>curr_pcb := ?p, cpu_esp := parent_esp (cur_proc s), cpu_ebp := parent_ebp (cur_proc s)\<rparr>)"
  have "sysHalt irqs l status s = ToParent ?r t"
    unfolding sysHalt_def halt_to_parent_def Let_def cp pm g
    unfolding b_def [symmetric]
    using nf nm by (simp add: t_def b cb upd_term_def upd_pcb_def sti_def)
  moreover have "pcbarray t = (pcbarray s)(?c := (pcbarray t ?c))"
    by (simp add: t_def sti_def upd_term_def upd_pcb_def b fun_eq_iff)
  then have "pcbarray t p = pcbarray s p" if "p \<noteq> ?c" for p using that by (metis fun_upd_apply)
  moreover have "p_active (pcbarray t ?c) = 0" "curr_pcb t = ?p" "tss_esp0 t = 0x7FFFFC - 0x10000 * ?p"
    "cpu_esp t = parent_esp (cur_proc s)" "cpu_ebp t = parent_ebp (cur_proc s)" "iflag t"
    "top_pid (cur_term t) = ?p" "user_page t = 2 + ?p"
    using b(4) by (simp_all add: t_def sti_def upd_term_def upd_pcb_def b cur_term_def user_page_def)
  ultimately show ?thesis by blast
qed

end
