(* ===== verification/KernelFaults.thy ===== *)
theory KernelFaults
  imports KernelSteps Descriptors
begin

text \<open>
  Which events leave the kernel's data: in a state that satisfies the invariant, an access outside
  an array is always one of a few kinds, and the ones of the keyboard are exactly two keys at the
  end of a full line.
\<close>

section \<open>Causes\<close>

text \<open>Tab (unshifted) and Enter store at the index without a look at the length of the line; the
  others stop one character earlier.\<close>

definition line_full :: "kernel \<Rightarrow> bool" where
  "line_full s \<longleftrightarrow> typing_buf_idx (cur_term s) = 122"

definition unchecked_key :: "int \<Rightarrow> kernel \<Rightarrow> bool" where
  "unchecked_key sc s \<longleftrightarrow> sc = 0x1C
     \<or> sc = 0x0F \<and> kb_map_state s 0x2A \<noteq> 1 \<and> kb_map_state s 0x36 \<noteq> 1"

text \<open>The halting process has no parent, its terminal's shell cannot be started again, and the
  process that is current after that has no parent either.\<close>

definition no_way_back :: "(kernel \<Rightarrow> kernel) list \<Rightarrow> u8 list \<times> u8 list \<Rightarrow> kernel \<Rightarrow> bool" where
  "no_way_back irqs l s \<longleftrightarrow> parent_pid (cur_proc s) = - 1
     \<and> (case switch_terminal irqs l (currentTerminal s) (upd_term (\<lambda>t. t\<lparr>t_active := 0\<rparr>) (clear s)) of
          Resumed t \<Rightarrow> parent_pid (cur_proc t) = - 1 | _ \<Rightarrow> False)"

definition irq_cause :: "(kernel \<Rightarrow> kernel) list \<Rightarrow> arrival \<Rightarrow> kernel \<Rightarrow> bool" where
  "irq_cause irqs = (\<lambda>(n, device, l) s. n = 1 \<and>
     (let sc = uint (device (ports s) 0x60) in
      line_full s \<and> unchecked_key sc s
      \<or> sc = 0x2E \<and> kb_map_state s 0x1D = 1 \<and> kb_map_state s 0x38 = 0
        \<and> no_way_back irqs l (sti (send_eoi 1 (cli (s\<lparr>pin := device\<rparr>))))))"

definition cause :: "arrival list \<Rightarrow> u8 list \<times> u8 list \<Rightarrow> event \<Rightarrow> kernel \<Rightarrow> bool" where
  "cause w l ev s =
     (let irqs = List.map arrives w in
      case ev of
        First_shell \<Rightarrow> False
      | Line a \<Rightarrow> irq_cause irqs a s
      | Exception n \<Rightarrow> (case exception_text n of
          None \<Rightarrow> True | Some msg \<Rightarrow> no_way_back irqs l (print_msg (msg @ [CHR 0x0A]) (cli s)))
      | Call eax ebx ecx edx \<Rightarrow>
          s32 eax \<in> {9, 10}
          \<or> s32 eax = 1 \<and> no_way_back irqs l s
          \<or> s32 eax = 2 \<and> parseCmd (str_at ebx s) (fst l) (snd l) = None
          \<or> s32 eax = 5 \<and> 0 \<notin> set (str_at ebx s)
          \<or> s32 eax = 7 \<and> PHYS8MB < pcb_addr s + 164 + u32 ecx)"

section \<open>The keyboard\<close>

lemma store_typed_None:
  "kernel_ok s \<Longrightarrow> store_typed c s = None \<longleftrightarrow> line_full s"
  using kernel_okD(1) [of s] by (auto simp: store_typed_def store_def line_full_def term_ok_def)

lemma type_key_returns: "kernel_ok s \<Longrightarrow> type_key c s \<noteq> None"
  using store_typed_None [of s c] by (auto simp: type_key_def line_full_def)

lemma set_key_fields [simp]:
  "cur_term (set_key k v s) = cur_term s" "kb_map_state (set_key k v s) = (kb_map_state s)(k := v)"
  "pcbarray (set_key k v s) = pcbarray s"
  by (simp_all add: set_key_def cur_term_def)

lemma line_full_frame [simp]:
  "line_full (putc c s) = line_full s" "line_full (set_key k v s) = line_full s"
  by (simp_all add: line_full_def)

lemma key_backspace_returns: "kernel_ok s \<Longrightarrow> key_backspace s \<noteq> None"
  using kernel_okD(1) [of s]
  by (auto simp: key_backspace_def Let_def term_ok_def upd_term_def cur_term_def fetch_def bind_eq_None_conv)

lemma key_tab_None:
  assumes "kernel_ok s"
  shows "key_tab s = None \<longleftrightarrow> line_full s \<and> unchecked_key 0x0F s"
proof -
  let ?p = "putc 32 (putc 32 (putc 32 (set_key TAB_PRESSED 1 s)))"
  have "kernel_ok ?p" using assms by (simp add: kinv)
  from store_typed_None [OF this, of 9] show ?thesis
    by (auto simp: key_tab_def Let_def unchecked_key_def bind_eq_None_conv)
qed

lemma key_enter_None:
  assumes "kernel_ok s"
  shows "key_enter s = None \<longleftrightarrow> line_full s"
proof -
  have "kernel_ok (putc 10 (set_key ENTER_PRESSED 1 s))" using assms by (simp add: kinv)
  from store_typed_None [OF this, of 10] show ?thesis
    by (auto simp: key_enter_def Let_def bind_eq_None_conv)
qed

lemma kb_switch_None:
  "kernel_ok s \<Longrightarrow> kb_switch sc s = None \<longleftrightarrow> line_full s \<and> unchecked_key sc s"
  using key_backspace_returns [of s] key_tab_None [of s] key_enter_None [of s]
  by (auto simp: kb_switch_def unchecked_key_def)

section \<open>Execute, switch and halt\<close>

lemma shell_parsed: "locals_ok l \<Longrightarrow> parseCmd (cstr ''shell'') (fst l) (snd l) \<noteq> None"
  using parseCmd_words [of "[115, 104, 101, 108, 108]" "[]" 0 "fst l" "snd l" "[]"]
  by (auto simp: locals_ok_def cstr_def str_def)

lemma sysOpen_returns: "0 \<in> set name \<Longrightarrow> sysOpen name s \<noteq> None"
  using strncmp_empty [of name] read_dentry_by_name_spec [of name s]
  by (auto simp: sysOpen_def Let_def split: option.split)

lemma sysClose_returns: "kernel_ok s \<Longrightarrow> sysClose fd s \<noteq> None"
  using fd_ok_cur [of s fd] by (auto simp: sysClose_def fd_invalid_def fd_ok_def split: option.split)

lemma sysWrite_returns: "kernel_ok s \<Longrightarrow> sysWrite fd b n s \<noteq> None"
  using fd_ok_cur [of s fd] by (auto simp: sysWrite_def fd_invalid_def fd_ok_def split: option.split)

lemma load_and_go_no_fault:
  assumes irqs: "irqs_ok irqs" and ok: "kernel_ok s" and cmd: "0 \<in> set cmd"
  shows "load_and_go irqs cmd ino pid s \<noteq> Fault"
proof -
  let ?m = "map_user_page pid s"
  have m: "kernel_ok ?m" by (rule ok_map_user_page [OF ok])
  obtain fd u where u: "sysOpen cmd ?m = Some (fd, u)" using sysOpen_returns [OF cmd] by fastforce
  have "sysClose fd v \<noteq> None" if "sysRead irqs fd b n u = Some (r, v)" for r v b n
    by (rule sysClose_returns [OF ok_sysRead [OF irqs ok_sysOpen [OF m u] that]])
  then show ?thesis
    unfolding load_and_go_def Let_def u by (auto split: option.split prod.split) (metis option.distinct(1))
qed

lemma free_process:
  assumes ok: "kernel_ok s" and full: "full_procs s \<noteq> 6"
  shows "find (\<lambda>i. p_active (pcbarray s i) = 0) [0, 1, 2, 3, 4, 5] \<noteq> None"
proof
  let ?is = "[0, 1, 2, 3, 4, 5 :: int]"
  assume "find (\<lambda>i. p_active (pcbarray s i) = 0) ?is = None"
  then have nz: "\<forall>i\<in>set ?is. p_active (pcbarray s i) \<noteq> 0"
    unfolding find_None_iff by blast
  have "p_active (pcbarray s i) = 1" if "i \<in> set ?is" for i
  proof -
    have "0 \<le> i \<and> i < 6" using that by auto
    then have "pcb_ok (pcbarray s i)" using kernel_okD(8) [OF ok] by blast
    then show ?thesis using nz that unfolding pcb_ok_def by blast
  qed
  then have "filter (\<lambda>i. p_active (pcbarray s i) = 1) ?is = ?is" by (intro filter_True) blast
  moreover have "[0..5] = ?is" by (simp add: upto.simps)
  ultimately show False using full unfolding full_procs_def by simp
qed

lemma sysExecute_Fault:
  assumes irqs: "irqs_ok irqs" and l: "locals_ok l" and ok: "kernel_ok s"
    and f: "sysExecute irqs l command s = Fault"
  shows "parseCmd command (fst l) (snd l) = None"
proof (rule ccontr)
  assume "parseCmd command (fst l) (snd l) \<noteq> None"
  then obtain cmd arg where p: "parseCmd command (fst l) (snd l) = Some (cmd, arg)" by auto
  have z: "length cmd = 122" "length arg = 122" "0 \<in> set cmd" "0 \<in> set arg"
    using parseCmd_sizes [OF p] l by (auto simp: locals_ok_def)
  have s: "kernel_ok (sti s)" by (rule ok_sti [OF ok])
  obtain q d where d: "read_dentry_by_name cmd (sti s) = Some (q, d)"
    using read_dentry_by_name_spec [OF z(3), of "sti s"] by (auto split: option.splits)
  have old: "load_and_go irqs cmd ino pid (sti s) \<noteq> Fault" for ino pid
    by (rule load_and_go_no_fault [OF irqs s z(3)])
  have new: "load_and_go irqs cmd ino pid (setup_pcb pid cmd arg (sti s)) \<noteq> Fault"
    if "find P [0, 1, 2, 3, 4, 5 :: int] = Some pid" for ino pid P
    using find_active [OF that] by (intro load_and_go_no_fault irqs ok_setup_pcb s z) auto
  show False
    using f free_process [OF s] unfolding sysExecute_def Let_def p
    by (simp add: d old new del: find.simps split: if_splits option.splits)
qed

lemma switch_terminal_no_fault:
  assumes irqs: "irqs_ok irqs" and l: "locals_ok l" and ok: "kernel_ok s" and n: "0 \<le> n" "n < 3"
  shows "switch_terminal irqs l n s \<noteq> Fault"
proof -
  let ?s = "init_terminal (currentTerminal s) n (switch_out n s)"
  have i: "kernel_ok ?s" by (intro ok_init_terminal ok_switch_out ok n)
  have "sysExecute irqs l (cstr ''shell'') ?s \<noteq> Fault"
  proof
    assume "sysExecute irqs l (cstr ''shell'') ?s = Fault"
    from sysExecute_Fault [OF irqs l i this] shell_parsed [OF l] show False by contradiction
  qed
  then show ?thesis
    unfolding switch_terminal_def Let_def by (auto split: outcome.split)
qed

lemma halt_to_parent_Fault:
  assumes "kernel_ok s" and "halt_to_parent status s = Fault"
  shows "parent_pid (cur_proc s) = - 1"
proof -
  have e: "parent_pid (cur_proc ((putc 10 s)\<lparr>retval := r\<rparr>)) = parent_pid (cur_proc s)" for r
    by (simp add: cur_proc_def)
  have "6 \<le> parent_pid (cur_proc s) mod 256"
    using assms(2) unfolding halt_to_parent_def Let_def e by (auto split: if_splits)
  moreover have "- 1 \<le> parent_pid (cur_proc s)" "parent_pid (cur_proc s) < 6"
    using kernel_okD(2) [OF assms(1)] by (simp_all add: pcb_ok_def)
  ultimately show ?thesis by (cases "parent_pid (cur_proc s) = - 1") auto
qed

lemma sysHalt_Fault:
  assumes irqs: "irqs_ok irqs" and l: "locals_ok l" and ok: "kernel_ok s"
    and f: "sysHalt irqs l status s = Fault"
  shows "no_way_back irqs l s"
proof -
  let ?a = "upd_term (\<lambda>t. t\<lparr>t_active := 0\<rparr>) (clear s)"
  have a: "kernel_ok ?a"
    by (intro ok_upd_term ok_clear ok) (simp add: term_ok_def)
  have c: "currentTerminal ?a = currentTerminal s"
    using console_frame_fields(4) [OF console_frame_clear [OF console_frame_refl]] by (simp add: upd_term_def)
  have n: "0 \<le> currentTerminal s" "currentTerminal s < 3" using kernel_okD(3,4) [OF ok] by auto
  have nf: "switch_terminal irqs l (currentTerminal s) ?a \<noteq> Fault"
    by (rule switch_terminal_no_fault [OF irqs l a n])
  have swok: "outcome_ok (switch_terminal irqs l (currentTerminal s) ?a)"
    by (rule ok_switch_terminal [OF irqs l a n])
  have p: "parent_pid (cur_proc s) = - 1"
    using f halt_to_parent_Fault [OF ok] by (auto simp: sysHalt_def split: if_splits)
  then have "(case switch_terminal irqs l (currentTerminal s) ?a of
      Resumed s \<Rightarrow> halt_to_parent status s | other \<Rightarrow> other) = Fault"
    using f c by (simp add: sysHalt_def Let_def)
  then show ?thesis
    using nf swok halt_to_parent_Fault p unfolding no_way_back_def by (auto split: outcome.splits)
qed

section \<open>Events\<close>

lemma sys_call_Fault:
  assumes irqs: "irqs_ok irqs" and l: "locals_ok l" and ok: "kernel_ok s"
    and f: "sys_call irqs l eax ebx ecx edx s = Fault" and e: "s32 eax = eax"
  shows "eax \<in> {9, 10} \<or> eax = 1 \<and> no_way_back irqs l s
    \<or> eax = 2 \<and> parseCmd (str_at ebx s) (fst l) (snd l) = None
    \<or> eax = 5 \<and> 0 \<notin> set (str_at ebx s) \<or> eax = 7 \<and> PHYS8MB < pcb_addr s + 164 + u32 ecx"
proof -
  have lift: "lift_call none r = Fault \<longleftrightarrow> r = None \<and> none = Fault" for none r
    by (auto simp: lift_call_def split: option.split)
  have args: "sysGetArgs ebx ecx s = None \<Longrightarrow> PHYS8MB < pcb_addr s + 164 + u32 ecx"
    using kernel_okD(2) [OF ok] strlen_text [of "p_arg (cur_proc s)"]
    by (auto simp: sysGetArgs_def pcb_ok_def split: if_splits)
  have r: "- 2147483648 \<le> eax" "eax < 2147483648" using s32_range [of eax] e by auto
  have neg: "u32 eax = eax + 4294967296" if "eax < 0"
  proof -
    have "(eax + 4294967296) mod 4294967296 = eax + 4294967296"
      using r that by (intro mod_pos_pos_trivial) auto
    then show ?thesis by (simp add: u32_def)
  qed
  have big: "\<not> 10 < u32 eax \<Longrightarrow> 0 \<le> eax \<and> eax \<le> 10"
    using r neg by (cases "0 \<le> eax") (auto simp: u32_def)
  show ?thesis
    using f sysHalt_Fault [OF irqs l ok] sysExecute_Fault [OF irqs l ok] args big
    unfolding sys_call_def
    by (auto simp: lift sysOpen_returns sysClose_returns [OF ok] sysWrite_returns [OF ok]
        simp del: not_None_eq split: if_splits) presburger
qed

lemma handle_keyboard_Fault:
  assumes irqs: "irqs_ok irqs" and l: "locals_ok l" and ok: "kernel_ok s"
    and f: "handle_keyboard irqs l s = Fault"
  shows "irq_cause irqs (1, pin s, l) s"
proof -
  define sc where "sc = uint (inb (cli s) 0x60)"
  have sc: "sc = uint (pin s (ports s) 0x60)" by (simp add: sc_def inb_def cli_def)
  have c: "kernel_ok (cli s)" by (rule ok_cli [OF ok])
  have fr: "line_full (cli s) = line_full s" "unchecked_key sc (cli s) = unchecked_key sc s"
    by (simp_all add: line_full_def unchecked_key_def cli_def cur_term_def)
  show ?thesis
  proof (cases "kb_switch sc (cli s)")
    case None
    then have "line_full s \<and> unchecked_key sc s" using kb_switch_None [OF c, of sc] fr by simp
    then show ?thesis by (simp add: irq_cause_def sc [symmetric])
  next
    case (Some p)
    then obtain r t where p: "kb_switch sc (cli s) = Some (r, t)" by (cases p) auto
    have t: "kernel_ok t" by (rule ok_kb_switch [OF c p])
    have e: "kernel_ok (sti (send_eoi 1 t))" using t by (simp add: kinv)
    have sw: "switch_terminal irqs l n (sti (send_eoi 1 t)) \<noteq> Fault" if "n \<in> {0, 1, 2}" for n
      by (rule switch_terminal_no_fault [OF irqs l e]) (use that in auto)
    have sw': "(case switch_terminal irqs l n (sti (send_eoi 1 t)) of
        Resumed s \<Rightarrow> Resumed (sti (send_eoi 1 s)) | other \<Rightarrow> other) \<noteq> Fault" if "n \<in> {0, 1, 2}" for n
      using sw [OF that] by (auto split: outcome.split)
    have ty: "(case type_key k t of None \<Rightarrow> Fault | Some s \<Rightarrow> Resumed (sti (send_eoi 1 s))) \<noteq> Fault" for k
      using type_key_returns [OF t] by (auto split: option.split)
    have h: "0 < sc \<and> sc \<le> 57 \<and> r = 0 \<and> kb_map_state t 0x38 = 0 \<and> kb_map_state t 0x1D = 1
        \<and> kb_map_l ! nat sc = 99 \<and> sysHalt irqs l 0 (sti (send_eoi 1 t)) = Fault"
      using f ty sw' unfolding handle_keyboard_def Let_def sc_def [symmetric] p option.case prod.case
      by (auto split: if_splits)
    have "sc = 0x2E"
    proof -
      have "list_all (\<lambda>i. kb_map_l ! i = 99 \<longrightarrow> i = 46) [0..<62]" by code_simp
      moreover have "nat sc < 62" using h by linarith
      ultimately have "nat sc = 46" using h by (auto simp: list_all_iff)
      then show ?thesis by simp
    qed
    moreover from this have "t = cli s" using p by (simp add: kb_switch_def)
    moreover have "no_way_back irqs l (sti (send_eoi 1 t))"
      by (rule sysHalt_Fault [OF irqs l e]) (use h in blast)
    moreover have "s\<lparr>pin := pin s\<rparr> = s" by simp
    ultimately show ?thesis using h sc by (auto simp: irq_cause_def cli_def)
  qed
qed

lemma interrupt_Fault:
  assumes irqs: "irqs_ok irqs" and l: "locals_ok l" and ok: "kernel_ok s" and n: "0 \<le> n" "n < 16"
    and f: "interrupt irqs (n, d, l) s = Fault"
  shows "irq_cause irqs (n, d, l) s"
proof -
  let ?s = "s\<lparr>pin := d\<rparr>"
  have ok': "kernel_ok ?s" using ok by simp
  have "n = 1" and "handle_keyboard irqs l ?s = Fault"
    using f do_irq_dispatch [OF n] by (auto simp: interrupt_def split: if_splits)
  moreover have "irq_cause irqs (1, d, l) ?s \<Longrightarrow> irq_cause irqs (1, d, l) s"
    by (simp add: irq_cause_def line_full_def unchecked_key_def cur_term_def)
  ultimately show ?thesis using handle_keyboard_Fault [OF irqs l ok'] by auto
qed

text \<open>The two unchecked keys at the end of a full line do fault.\<close>

lemma unchecked_key_faults:
  assumes "kernel_ok s" and "line_full s" and "unchecked_key (uint (d (ports s) 0x60)) s"
  shows "interrupt irqs (1, d, l) s = Fault"
proof -
  let ?s = "cli (s\<lparr>pin := d\<rparr>)"
  have "kernel_ok ?s" using assms(1) by (simp add: kinv)
  moreover have "line_full ?s" "unchecked_key (uint (inb ?s 0x60)) ?s"
    using assms(2,3) by (simp_all add: line_full_def unchecked_key_def cli_def cur_term_def inb_def)
  ultimately have "kb_switch (uint (inb ?s 0x60)) ?s = None" using kb_switch_None by blast
  then show ?thesis
    using do_irq_dispatch [of 1 irqs l "s\<lparr>pin := d\<rparr>"] by (simp add: interrupt_def handle_keyboard_def Let_def)
qed

text \<open>The lines of the two controllers are 0 to 15.\<close>

definition event_ok :: "event \<Rightarrow> bool" where
  "event_ok ev \<longleftrightarrow> (case ev of Line (n, d, l) \<Rightarrow> 0 \<le> n \<and> n < 16 | _ \<Rightarrow> True)"

lemma happens_Fault:
  assumes bufs: "buffers_ok w l ev" and ev: "event_ok ev" and ok: "kernel_ok s"
    and f: "happens w l ev s = Fault"
  shows "cause w l ev s"
proof -
  let ?irqs = "List.map arrives w"
  have i: "irqs_ok ?irqs" and l: "locals_ok l"
    using bufs irqs_ok_arrives by (auto simp: buffers_ok_def)
  show ?thesis
  proof (cases ev)
    case First_shell
    then show ?thesis using f switch_terminal_no_fault [OF i l ok, of 0] by (simp add: happens_def)
  next
    case (Line a)
    obtain n d l' where a: "a = (n, d, l')" by (cases a)
    then have "locals_ok l'" "0 \<le> n" "n < 16" using bufs ev Line by (simp_all add: buffers_ok_def event_ok_def)
    then show ?thesis
      using f Line a interrupt_Fault [OF i _ ok] by (simp add: happens_def cause_def)
  next
    case (Exception n)
    then show ?thesis
      using f sysHalt_Fault [OF i l, of "print_msg m (cli s)" for m] ok
      by (auto simp: happens_def cause_def intr_def kinv split: option.splits)
  next
    case (Call eax ebx ecx edx)
    then show ?thesis
      using f sys_call_Fault [OF i l ok, of "s32 eax" ebx ecx edx] s32_range [of eax]
      by (simp add: happens_def cause_def)
  qed
qed

text \<open>A terminal's read that has its Enter leaves the buffer only past a full line.\<close>

lemma term_copy_None:
  assumes "kernel_ok s" and "0 \<le> i" and "term_copy i b n s = None"
  shows "line_full s \<and> 122 < n"
  using assms
proof (induction i b n s rule: term_copy.induct)
  case (1 i b n s)
  have t: "length (typing_buf (cur_term s)) = 122" "typing_buf_idx (cur_term s) \<le> 122"
    using kernel_okD(1) [OF "1.prems"(1)] by (simp_all add: term_ok_def)
  from "1.prems"(3) have le: "i < typing_buf_idx (cur_term s) + 1" "\<not> n - 1 < i"
    by (subst (asm) term_copy.simps; simp split: if_splits)+
  show ?case
  proof (cases "i < 122")
    case False
    then show ?thesis using le t by (simp add: line_full_def)
  next
    case True
    then have f: "fetch (typing_buf (cur_term s)) i = Some (typing_buf (cur_term s) ! nat i)"
      using t "1.prems"(2) by simp
    let ?s = "poke (b + i) (typing_buf (cur_term s) ! nat i) s"
    have "term_copy (i + 1) b n ?s = None"
      using "1.prems"(3) le by (subst (asm) term_copy.simps) (simp add: f)
    then have "line_full ?s \<and> 122 < n"
      using "1.IH" [OF le f] "1.prems" by (simp add: kinv)
    then show ?thesis by (simp add: line_full_def)
  qed
qed

lemma terminal_read_None:
  assumes "kernel_ok s" and "enter_pressed (cur_term s) = 1" and "terminal_read irqs fd b n s = None"
  shows "line_full s \<and> 122 < n"
proof -
  have "cur_term (sti s) = cur_term s" by (simp add: sti_def cur_term_def)
  moreover from this have "term_wait irqs (sti s) = Some (sti s)"
    using assms(2) by (subst term_wait.simps) simp
  ultimately have "term_copy 0 b n (sti s) = None"
    using assms(3) by (auto simp: terminal_read_def bind_eq_None_conv split: option.splits prod.splits)
  then show ?thesis
    using term_copy_None [of "sti s" 0 b n] ok_sti [OF assms(1)] \<open>cur_term (sti s) = cur_term s\<close>
    by (simp add: line_full_def)
qed

end
