(* ===== verification/KernelProps.thy ===== *)
theory KernelProps
  imports ProcLemmas KernelFaults
begin

text \<open>
  The properties of the kernel, each with an instance: the sample state has the three terminals
  running, a file system image with the directory and one file of five bytes, and process 3 as a
  child of process 0.
\<close>

section \<open>A sample state\<close>

definition sample_mem :: memory where
  "sample_mem = (\<lambda>_. 0)
     (0x410040 := 46, 0x410060 := 1,
      0x410080 := 104, 0x410081 := 105, 0x4100A0 := 2,
      0x411000 := 5,
      0x412000 := 72, 0x412001 := 101, 0x412002 := 108, 0x412003 := 108, 0x412004 := 111)"

definition sample_fda :: "int \<Rightarrow> fd_t" where
  "sample_fda i =
     (if i = 0 then empty_fd\<lparr>fops := Some Stdin_fops, flags := 1\<rparr>
      else if i = 1 then empty_fd\<lparr>fops := Some Stdout_fops, flags := 1\<rparr>
      else if i = 2 then empty_fd\<lparr>fops := Some File_fops, flags := 1\<rparr>
      else if i = 3 then empty_fd\<lparr>fops := Some Dir_fops, flags := 1\<rparr>
      else empty_fd)"

definition sample_pcb :: "int \<Rightarrow> pcb_t" where
  "sample_pcb i = \<lparr>p_active = (if i < 4 then 1 else 0), curr_pid = 0, parent_pid = (if i = 3 then 0 else - 1),
     fda = sample_fda, p_arg = replicate 122 0, p_cmd = replicate 122 0, p_esp = 0, p_ebp = 0,
     parent_esp = 0x7FFF00, parent_ebp = 0x7FFF20\<rparr>"

definition sample_term :: "int \<Rightarrow> term_t" where
  "sample_term i = \<lparr>screen_x = 0, screen_y = 0, typing_buf = replicate 122 0, typing_buf_idx = 0,
     t_active = 1, vidmem = 0xB9000 + 0x1000 * i, top_pid = (if i = 0 then 3 else if i = 1 then 1 else 2),
     enter_pressed = 0\<rparr>"

definition sample_kernel :: kernel where
  "sample_kernel = \<lparr>mem = sample_mem, ports = [], pin = (\<lambda>_ _. 0), iflag = True,
     terminals = sample_term, currentTerminal = 0, pcbarray = sample_pcb, curr_pcb = 3,
     bootBlock = \<lparr>addr = 0x410000, dir_count = 2, inode_count = 1, data_count = 1\<rparr>,
     master_mask = 0xFF, slave_mask = 0xFF, interrupt_count = 0, rtc_interrupt_occurred = 0,
     kb_map_state = (\<lambda>_. 0), caps_locked = 0, caps_released = 1,
     page_directory = (\<lambda>i. if i = 32 then 0x00800087 else 0), page_table = (\<lambda>_. 0),
     first_page_table = (\<lambda>_. 0), page_table_addr = 0x420000, first_page_table_addr = 0x421000,
     idt = (\<lambda>_. \<lparr>g_present = 0, g_reserved4 = 0, g_reserved0 = 0, g_reserved1 = 0, g_reserved2 = 0,
       g_reserved3 = 0, g_size = 0, g_dpl = 0, g_selector = 0, g_handler = None\<rparr>),
     tss_esp0 = 0, tss_ss0 = 0, retval = 0, cpu_esp = 0, cpu_ebp = 0\<rparr>"

lemma sample_fields [simp]:
  "mem sample_kernel = sample_mem" "terminals sample_kernel = sample_term"
  "currentTerminal sample_kernel = 0" "pcbarray sample_kernel = sample_pcb" "curr_pcb sample_kernel = 3"
  "bootBlock sample_kernel = \<lparr>addr = 0x410000, dir_count = 2, inode_count = 1, data_count = 1\<rparr>"
  "kb_map_state sample_kernel = (\<lambda>_. 0)" "caps_locked sample_kernel = 0" "caps_released sample_kernel = 1"
  "page_table_addr sample_kernel = 0x420000" "first_page_table_addr sample_kernel = 0x421000"
  "interrupt_count sample_kernel = 0" "rtc_interrupt_occurred sample_kernel = 0"
  "cur_term sample_kernel = sample_term 0" "cur_proc sample_kernel = sample_pcb 3"
  "cur_fd sample_kernel = sample_fda" "page_table sample_kernel = (\<lambda>_. 0)"
  by (simp_all add: sample_kernel_def cur_term_def cur_proc_def cur_fd_def sample_pcb_def fun_eq_iff)

lemma sample_user_page [simp]: "user_page sample_kernel = 2"
proof -
  have "uint (bf_get 22 10 (0x00800087 :: 32 word)) = 2" by code_simp
  then show ?thesis by (simp add: user_page_def sample_kernel_def)
qed

lemma sample_peek: "0 \<le> a \<Longrightarrow> a < PHYS8MB \<Longrightarrow> peek sample_kernel a = sample_mem a"
  by (simp add: peek_def vaddr_def)

lemma sample_kernel_ok: "kernel_ok sample_kernel"
  by (auto simp: kernel_ok_def term_ok_def pcb_ok_def sample_term_def sample_pcb_def sample_fda_def
      fd_ok_def empty_fd_def)


lemma sample_typing_ok: "typing_ok sample_kernel"
  by (simp add: typing_ok_def sample_kernel_ok modifiers_clear_def sample_term_def)

lemma sample_screens_ok: "screens_ok sample_kernel"
  by (simp add: screens_ok_def sample_term_def)

section \<open>The whole kernel\<close>



section \<open>The file system\<close>

lemma sample_file_len: "file_len 0 sample_kernel = 5"
  by (simp add: file_len_def inode_ptr_def le32_def sample_peek sample_mem_def)

lemma sample_file_ok: "file_ok 0 sample_kernel"
proof -
  have "block_no 0 k sample_kernel = 0" if "4096 * k < 5" "0 \<le> k" for k
  proof -
    have "k = 0" using that by simp
    then show ?thesis by (simp add: block_no_def inode_ptr_def le32_def sample_peek sample_mem_def)
  qed
  then show ?thesis
    unfolding file_ok_def sample_file_len by (auto simp: blocks_base_def)
qed

lemma sample_file_byte: "0 \<le> i \<Longrightarrow> i < 4096 \<Longrightarrow> file_byte 0 i sample_kernel = sample_mem (0x412000 + i)"
  by (simp add: file_byte_def block_no_def inode_ptr_def blocks_base_def le32_def sample_peek sample_mem_def)

text \<open>C2: reading from a block boundary of an open file, up to its end at most, delivers the bytes of
  the file in order into the caller's buffer, across any number of blocks, and moves the position by
  that many bytes.  Nothing else changes: the new state is the old one with these two counters of the
  descriptor set (its flags, driver and inode are the old ones) and with memory the same outside the
  physical bytes of the buffer.  The value returned is the size of the last chunk.\<close>

theorem read_file_whole:
  assumes "inode (cur_fd s fd) = ino" and "db_num (cur_fd s fd) = k" and "byte_num (cur_fd s fd) = 0"
    and "file_ok ino s" and "0 \<le> k" and "4096 * k + int n \<le> file_len ino s"
    and "2 \<le> user_page s" and "user_range buf (int n)"
  shows "\<exists>r t d m. r = (if n = 0 then 0 else (int n - 1) mod 4096 + 1)
    \<and> read_file fd buf (int n) s = Some (r, t)
    \<and> t = upd_fd fd (\<lambda>f. f\<lparr>db_num := d, byte_num := r\<rparr>) (s\<lparr>mem := m\<rparr>)
    \<and> 4096 * d + r = 4096 * k + int n
    \<and> (\<forall>p. (\<forall>x. buf \<le> x \<and> x < buf + int n \<longrightarrow> vaddr s x \<noteq> p) \<longrightarrow> m p = mem s p)
    \<and> (\<forall>x. addr_ok x \<longrightarrow> peek t x
        = (if buf \<le> x \<and> x < buf + int n then file_byte ino (4096 * k + (x - buf)) s else peek s x))"
proof -
  have "at_block fd ino k s" using assms(1-3) by (simp add: at_block_def)
  then obtain r t where r: "read_file fd buf (int n) s = Some (r, t)" and f: "file_read fd ino k n buf s r t"
    using read_file_blocks [OF _ assms(4-8)] by blast
  from f obtain d where "4096 * d + r = 4096 * k + int n" and "read_frame fd buf (int n) d r s t"
    unfolding file_read_def by blast
  with r f show ?thesis unfolding file_read_def read_frame_def by blast
qed

theorem read_file_whole_witness:
  "\<exists>t. read_file 2 0x8050000 5 sample_kernel = Some (5, t)
    \<and> region (peek t) 0x8050000 5 = [72, 101, 108, 108, 111]
    \<and> cur_fd t 2 = empty_fd\<lparr>fops := Some File_fops, flags := 1, byte_num := 5\<rparr>"
proof -
  have "\<exists>r t d m. r = (if (5::nat) = 0 then 0 else (int 5 - 1) mod 4096 + 1)
    \<and> read_file 2 0x8050000 (int 5) sample_kernel = Some (r, t)
    \<and> t = upd_fd 2 (\<lambda>f. f\<lparr>db_num := d, byte_num := r\<rparr>) (sample_kernel\<lparr>mem := m\<rparr>)
    \<and> 4096 * d + r = 4096 * 0 + int 5
    \<and> (\<forall>p. (\<forall>x. 0x8050000 \<le> x \<and> x < 0x8050000 + int 5 \<longrightarrow> vaddr sample_kernel x \<noteq> p)
        \<longrightarrow> m p = mem sample_kernel p)
    \<and> (\<forall>x. addr_ok x \<longrightarrow> peek t x = (if 0x8050000 \<le> x \<and> x < 0x8050000 + int 5
        then file_byte 0 (4096 * 0 + (x - 0x8050000)) sample_kernel else peek sample_kernel x))"
    by (rule read_file_whole)
       (simp_all add: sample_fda_def empty_fd_def sample_file_ok sample_file_len user_range_def)
  then obtain r t d m where r: "r = 5" and rd: "read_file 2 0x8050000 5 sample_kernel = Some (r, t)"
    and t: "t = upd_fd 2 (\<lambda>f. f\<lparr>db_num := d, byte_num := r\<rparr>) (sample_kernel\<lparr>mem := m\<rparr>)"
    and d: "4096 * d + r = 5"
    and pk: "\<And>x. addr_ok x \<Longrightarrow> peek t x = (if 0x8050000 \<le> x \<and> x < 0x8050005
        then file_byte 0 (x - 0x8050000) sample_kernel else peek sample_kernel x)"
    by auto
  have "region (peek t) 0x8050000 5 = [72, 101, 108, 108, 111]"
    using pk by (simp add: region_def upt_rec addr_ok_def sample_file_byte sample_mem_def)
  moreover have "cur_fd (sample_kernel\<lparr>mem := m\<rparr>) 2 = sample_fda 2"
    by (simp add: cur_fd_def cur_proc_def sample_kernel_def sample_pcb_def)
  then have "cur_fd t 2 = empty_fd\<lparr>fops := Some File_fops, flags := 1, byte_num := 5\<rparr>"
    using r d by (simp add: t sample_fda_def empty_fd_def)
  ultimately show ?thesis using r rd by blast
qed

text \<open>The lookup by name returns the first directory entry with that name, with its type and
  inode, and fails exactly when no entry of the boot block has it.\<close>

lemma dentry_lookup:
  assumes "0 \<in> set fname" and "length (text_of fname) \<le> 122"
  shows "((\<forall>i<63. entry_name (int i) s \<noteq> text_of fname) \<longrightarrow> read_dentry_by_name fname s = Some (- 1, None))
    \<and> (\<forall>i<63. entry_name (int i) s = text_of fname \<and> (\<forall>j<i. entry_name (int j) s \<noteq> text_of fname) \<longrightarrow>
        read_dentry_by_name fname s = Some (0, Some (read_dentry_by_index (int i) s)))"
proof (intro conjI impI allI)
  have tk: "take 122 (text_of fname) = text_of fname" using assms(2) by simp
  note spec = read_dentry_by_name_spec [OF assms(1), of s, unfolded tk]
  { assume "\<forall>i<63. entry_name (int i) s \<noteq> text_of fname"
    then have "find (\<lambda>i. entry_name (int i) s = text_of fname) [0..<63] = None"
      by (simp add: find_None_iff)
    then show "read_dentry_by_name fname s = Some (- 1, None)" unfolding spec by simp }
  fix i :: nat
  assume "i < 63" and "entry_name (int i) s = text_of fname \<and> (\<forall>j<i. entry_name (int j) s \<noteq> text_of fname)"
  then have "find (\<lambda>i. entry_name (int i) s = text_of fname) [0..<63] = Some i"
    unfolding find_Some_iff by (intro exI [of _ i]) simp
  then show "read_dentry_by_name fname s = Some (0, Some (read_dentry_by_index (int i) s))"
    unfolding spec by simp
qed

lemma sample_entry_names:
  "entry_name 0 sample_kernel = [46]" "entry_name 1 sample_kernel = [104, 105]"
  by (simp_all add: entry_name_def region_def upt_rec sample_peek sample_mem_def text_of_def)

lemma dentry_lookup_witness:
  "read_dentry_by_name (cstr ''hi'') sample_kernel = Some (0, Some \<lparr>d_fname = 0x410080, d_ftype = 2, d_inode = 0\<rparr>)"
proof -
  have "text_of (cstr ''hi'') = [104, 105]" by (simp add: cstr_def str_def text_of_def)
  moreover have "j < 1 \<longrightarrow> entry_name (int j) sample_kernel \<noteq> [104, 105]" for j
    using sample_entry_names by simp
  ultimately have "read_dentry_by_name (cstr ''hi'') sample_kernel
      = Some (0, Some (read_dentry_by_index (int 1) sample_kernel))"
    using conjunct2 [OF dentry_lookup [of "cstr ''hi''" sample_kernel], THEN spec [where x = 1]]
      sample_entry_names by (simp add: cstr_def)
  then show ?thesis by (simp add: read_dentry_by_index_def Let_def sample_peek sample_mem_def)
qed

text \<open>The directory reads as one stream of 32 name bytes per entry: a read in the middle of an
  entry goes on where the last one stopped, and crosses into the next entries.\<close>

lemma read_directory_stream:
  assumes "dir_fd_ok (cur_fd s fd)" and "2 \<le> user_page s" and "user_range buf (int n)"
    and "0 \<le> addr (bootBlock s)" and "dir_addr (dir_pos (cur_fd s fd) + int n) s + 64 \<le> PHYS8MB"
    and "byte_num (cur_fd s fd) \<noteq> 0 \<or> peek s (addr (bootBlock s) + (db_num (cur_fd s fd) + 1) * 64) \<noteq> 0"
  shows "fst (read_directory fd buf (int n) s) = int n
    \<and> dir_pos (cur_fd (snd (read_directory fd buf (int n) s)) fd) = dir_pos (cur_fd s fd) + int n
    \<and> (\<forall>x. addr_ok x \<longrightarrow> peek (snd (read_directory fd buf (int n) s)) x
        = (if buf \<le> x \<and> x < buf + int n then peek s (dir_addr (dir_pos (cur_fd s fd) + (x - buf)) s)
           else peek s x))"
proof -
  have "dir_addr (dir_pos (cur_fd s fd)) s
      = addr (bootBlock s) + (db_num (cur_fd s fd) + 1) * 64 + byte_num (cur_fd s fd)"
    using dir_pos_div_mod [OF assms(1)] by (simp add: dir_addr_def)
  then have "read_directory fd buf (int n) s
      = (int n, read_dir_loop n fd buf (dir_addr (dir_pos (cur_fd s fd)) s) s)"
    using assms(6) by (auto simp: read_directory_def Let_def)
  with read_dir_loop_spec [OF assms(1-5)] show ?thesis by simp
qed

lemma read_directory_stream_witness:
  "region (peek (snd (read_directory 3 0x8050000 34 sample_kernel))) 0x8050000 34
    = 46 # replicate 31 0 @ [104, 105]"
proof -
  have d: "dir_pos (cur_fd sample_kernel 3) = 0" "cur_fd sample_kernel 3 = empty_fd\<lparr>fops := Some Dir_fops, flags := 1\<rparr>"
    by (simp_all add: sample_fda_def empty_fd_def dir_pos_def)
  have a: "dir_addr k sample_kernel = 0x410000 + (k div 32 + 1) * 64 + k mod 32" for k
    by (simp add: dir_addr_def)
  have zeroes: "replicate 31 (0 :: u8) = [0, 0, 0, 0, 0, 0, 0, 0, 0, 0, 0, 0, 0, 0, 0, 0,
      0, 0, 0, 0, 0, 0, 0, 0, 0, 0, 0, 0, 0, 0, 0]"
    by code_simp
  note w = read_directory_stream [of sample_kernel 3 "0x8050000" 34]
  have "\<forall>x. addr_ok x \<longrightarrow> peek (snd (read_directory 3 0x8050000 34 sample_kernel)) x
        = (if 0x8050000 \<le> x \<and> x < 0x8050022 then peek sample_kernel (dir_addr (x - 0x8050000) sample_kernel)
           else peek sample_kernel x)"
    using w d by (simp add: a dir_fd_ok_def user_range_def empty_fd_def sample_peek sample_mem_def)
  then show ?thesis
    unfolding zeroes by (simp add: region_def upt_rec addr_ok_def a sample_peek sample_mem_def)
qed

section \<open>Descriptors\<close>





text \<open>C12: closing a descriptor that an open returned succeeds and gives back the descriptor array the
  process had, with that entry empty.\<close>

theorem open_close_roundtrip:
  assumes "0 \<in> set name" and "sysOpen name s = Some (fd, t)" and "0 \<le> fd"
  shows "\<exists>u. sysClose fd t = Some (0, u) \<and> cur_fd u = (cur_fd s)(fd := empty_fd)"
  by (rule open_close_restores [OF assms])

lemma sample_open:
  "\<exists>t. sysOpen (cstr ''.'') sample_kernel = Some (4, t)"
proof -
  have n: "text_of (cstr ''.'') = [46]" "0 \<in> set (cstr ''.'')"
    by (simp_all add: cstr_def str_def text_of_def)
  have "find (\<lambda>i. entry_name (int i) sample_kernel = [46]) [0..<63] = Some 0"
    unfolding find_Some_iff using sample_entry_names by (intro exI [of _ 0]) simp
  then have look: "read_dentry_by_name (cstr ''.'') sample_kernel
      = Some (0, Some (read_dentry_by_index 0 sample_kernel))"
    using read_dentry_by_name_spec [OF n(2), of sample_kernel] n(1) by simp
  have ff: "free_fd sample_kernel = 4"
    by (simp add: free_fd_def sample_fda_def empty_fd_def)
  obtain r where "strncmp (cstr ''.'') (cstr []) 1 = Some r" "r \<noteq> 0"
    using strncmp_empty [OF n(2)] n(1) by auto
  then show ?thesis
    by (simp add: sysOpen_def look ff Let_def read_dentry_by_index_def sample_peek sample_mem_def
        fops_open_def open_dir_def)
qed

theorem open_close_roundtrip_witness:
  "\<exists>t u. sysOpen (cstr ''.'') sample_kernel = Some (4, t) \<and> sysClose 4 t = Some (0, u)
    \<and> cur_fd u = sample_fda(4 := empty_fd)"
proof -
  obtain t where t: "sysOpen (cstr ''.'') sample_kernel = Some (4, t)" using sample_open by blast
  have "0 \<in> set (cstr ''.'')" by (simp add: cstr_def)
  from open_close_roundtrip [OF this t] t show ?thesis by auto
qed

text \<open>C15: a command line of a word, spaces and the rest of the line splits into that word and that
  rest, both terminated.\<close>

theorem parse_command_line:
  assumes "w \<noteq> []" and "set w \<inter> {0, 10, 32} = {}" and "set a \<inter> {0, 10} = {}" and "a = [] \<or> hd a \<noteq> 32"
    and "length w + k + length a < 122" and "length cmd0 = 122" and "length arg0 = 122" and "a = [] \<or> 0 < k"
  shows "\<exists>cmd arg. parseCmd (w @ replicate k 32 @ a @ 0 # rest) cmd0 arg0 = Some (cmd, arg)
    \<and> text_of cmd = w \<and> text_of arg = a"
  by (rule parseCmd_words [OF assms])

theorem parse_command_line_witness:
  "\<exists>cmd arg. parseCmd (cstr ''cat  a b'') (replicate 122 7) (replicate 122 7) = Some (cmd, arg)
    \<and> text_of cmd = str ''cat'' \<and> text_of arg = str ''a b''"
proof -
  have e: "cstr ''cat  a b'' = str ''cat'' @ replicate 2 32 @ str ''a b'' @ 0 # []"
    by (simp add: cstr_def numeral_2_eq_2)
  show ?thesis
    unfolding e by (rule parse_command_line) simp_all
qed

section \<open>The terminal\<close>

text \<open>C3: what is typed is what is read.  A sequence of character and backspace keys followed by Enter,
  on an empty line, makes a waiting \<open>terminal_read\<close> return the edited line with its newline, cut at
  the caller's size, in the caller's buffer.\<close>

theorem typed_line_delivered:
  assumes "kernel_ok s" and "modifiers_clear s" and "typing_buf_idx (cur_term s) = 0"
    and "\<forall>sc\<in>set scs. sc = 14 \<or> plain_key sc"
    and "2 \<le> user_page s" and "0 \<le> nbytes" and "user_range buf nbytes"
  shows "\<exists>t u. run_keys (scs @ [28]) s = Some t
    \<and> terminal_read [] fd buf nbytes t = Some (min nbytes (int (length (fold edit_key scs [])) + 1), u)
    \<and> region (peek u) buf (min (nat nbytes) (length (fold edit_key scs []) + 1))
        = take (nat nbytes) (fold edit_key scs [] @ [10])
    \<and> enter_pressed (cur_term u) = 0"
proof -
  let ?l = "fold edit_key scs []"
  let ?n = "min (nat nbytes) (length ?l + 1)"
  have "typing_ok s" "line_of s = []"
    using assms(1-3) by (simp_all add: typing_ok_def line_of_def)
  from typed_line_read [OF this(1) assms(4) this(2)] obtain t where
    run: "run_keys (scs @ [28]) s = Some t" and ok: "typing_ok t" and pd: "page_directory t = page_directory s"
    and ent: "enter_pressed (cur_term t) = 1"
    and buf: "take (nat (typing_buf_idx (cur_term t)) + 1) (typing_buf (cur_term t)) = ?l @ [10]"
    and idx: "nat (typing_buf_idx (cur_term t)) = length ?l" by blast
  note k = typing_okD [OF ok]
  have up: "user_page t = user_page s" by (rule user_page_cong) (simp add: pd)
  have lc: "line_count nbytes t = int ?n" using k(3) idx assms(6) by (auto simp: line_count_def)
  have b: "typing_buf_idx (cur_term t) < int (length (typing_buf (cur_term t)))" and upt: "2 \<le> user_page t"
    using k(4,5) up assms(5) by simp_all
  have rng: "user_range buf (line_count nbytes t)"
    unfolding lc using assms(6,7) by (auto simp: user_range_def)
  obtain u where u: "terminal_read [] fd buf nbytes t = Some (int ?n, u)" "enter_pressed (cur_term u) = 0"
    and pk: "\<And>x. addr_ok x \<Longrightarrow> peek u x = (if buf \<le> x \<and> x < buf + int ?n
           then typing_buf (cur_term t) ! nat (x - buf) else peek t x)"
    using terminal_read_ready [OF ent k(3) b upt rng, of fd] unfolding lc by blast
  have "peek u (buf + int i) = (?l @ [10]) ! i" if "i < ?n" for i
  proof -
    have "addr_ok (buf + int i)" using that assms(6,7) by (auto simp: addr_ok_def user_range_def)
    from pk [OF this] have "peek u (buf + int i) = typing_buf (cur_term t) ! i" using that by simp
    also have "\<dots> = (?l @ [10]) ! i" using that idx by (simp flip: buf)
    finally show ?thesis .
  qed
  then have "region (peek u) buf ?n = take (nat nbytes) (?l @ [10])"
    by (intro nth_equalityI) (auto simp del: take_append)
  moreover have "int ?n = min nbytes (int (length ?l) + 1)" using assms(6) by auto
  ultimately show ?thesis using run u by metis
qed

theorem typed_line_delivered_witness:
  "\<exists>t u. run_keys [0x23, 0x17, 14, 0x12, 28] sample_kernel = Some t
    \<and> terminal_read [] 0 0x8050000 128 t = Some (3, u)
    \<and> region (peek u) 0x8050000 3 = str ''he'' @ [10]"
proof -
  have l: "fold edit_key [0x23, 0x17, 14, 0x12] [] = str ''he''" by code_simp
  have "\<exists>t u. run_keys ([0x23, 0x17, 14, 0x12] @ [28]) sample_kernel = Some t
    \<and> terminal_read [] 0 0x8050000 128 t
        = Some (min 128 (int (length (fold edit_key [0x23, 0x17, 14, 0x12] [])) + 1), u)
    \<and> region (peek u) 0x8050000 (min (nat 128) (length (fold edit_key [0x23, 0x17, 14, 0x12] []) + 1))
        = take (nat 128) (fold edit_key [0x23, 0x17, 14, 0x12] [] @ [10])
    \<and> enter_pressed (cur_term u) = 0"
    by (rule typed_line_delivered)
       (use sample_typing_ok in \<open>simp_all add: typing_ok_def sample_term_def plain_key_def user_range_def\<close>)
  then show ?thesis unfolding l by (auto simp: numeral_3_eq_3)
qed




text \<open>C13: a write to the terminal shows the user's bytes on the console, a tab as three spaces, with
  wrapping and scrolling, leaves the cursor on the screen, empties the typing buffer and returns the
  count.\<close>

theorem terminal_write_shows:
  assumes "cursor_ok s" and "2 \<le> user_page s" and "0 \<le> n" and "user_range buf n"
    and "length (typing_buf (cur_term s)) = 122"
  shows "fst (terminal_write fd buf n s) = n
    \<and> con_abs (snd (terminal_write fd buf n s))
        = fold a_putc (concat (map shown_as (region (peek s) buf (nat n)))) (con_abs s)
    \<and> cursor_ok (snd (terminal_write fd buf n s))
    \<and> typing_buf (cur_term (snd (terminal_write fd buf n s))) = replicate 122 0
    \<and> typing_buf_idx (cur_term (snd (terminal_write fd buf n s))) = 0"
proof -
  let ?t = "terminal_puts buf n s"
  have len: "length (typing_buf (cur_term ?t)) = 122"
    using console_frame_fields(10) [OF puts_mem_frame [OF console_frame_refl]] assms(5)
    by (simp add: terminal_puts_def)
  have "con_abs ?t = fold a_putc (concat (map shown_as (region (peek s) buf (nat n)))) (con_abs s)"
    unfolding terminal_puts_def using assms by (intro puts_mem_refines) simp_all
  moreover have "cursor_ok ?t" unfolding terminal_puts_def by (rule cursor_ok_puts_mem [OF assms(1)])
  moreover have "con_abs (snd (terminal_write fd buf n s)) = con_abs ?t"
    "cursor_ok (snd (terminal_write fd buf n s)) = cursor_ok ?t"
    by (simp_all add: terminal_write_def Let_def con_abs_def cursor_ok_def)
  ultimately show ?thesis
    using terminal_write_clears [OF len] by (simp add: terminal_write_result)
qed

theorem terminal_write_shows_witness:
  "con_abs (snd (terminal_write 1 0x8050000 2 (poke 0x8050001 10 (poke 0x8050000 65 sample_kernel))))
    = a_newline (a_putc 65 (con_abs (poke 0x8050001 10 (poke 0x8050000 65 sample_kernel))))"
proof -
  let ?s = "poke 0x8050001 10 (poke 0x8050000 65 sample_kernel)"
  have "peek ?s 0x8050000 = 65" "peek ?s 0x8050001 = 10"
    by (simp_all add: peek_poke addr_ok_def)
  then have r: "region (peek ?s) 0x8050000 (nat 2) = [65, 10]"
    by (simp add: region_def upt_rec numeral_2_eq_2)
  have "con_abs (snd (terminal_write 1 0x8050000 2 ?s))
      = fold a_putc (concat (map shown_as (region (peek ?s) 0x8050000 (nat 2)))) (con_abs ?s)"
    by (rule terminal_write_shows [THEN conjunct2, THEN conjunct1])
       (simp_all add: cursor_ok_def cur_term_def sample_term_def user_range_def)
  moreover have "a_putc 10 c = a_newline c" for c by (cases c) simp
  ultimately show ?thesis unfolding r by (simp add: shown_as_def)
qed

section \<open>Strings, numbers and memory\<close>

text \<open>C16: \<open>itoa\<close> and reading back are inverse: in every radix from 2 to 36 and for every 32-bit
  value it fits in a buffer of 33 bytes, is terminated, and denotes the value.\<close>

theorem itoa_roundtrip:
  assumes "2 \<le> r" and "r \<le> 36" and "v < 2 ^ 32" and "33 \<le> length buf"
  shows "\<exists>out. itoa v buf r = Some out \<and> length out = length buf \<and> 0 \<in> set out
    \<and> parse_numeral r (text_of out) = v"
proof -
  let ?d = "numeral_of r v"
  have "0 \<notin> set ?d" and "length ?d \<le> 32"
    using numeral_of_nonzero [OF assms(1,2)] numeral_of_length [OF assms(1,3)] by auto
  then show ?thesis
    using itoa_correct [OF assms] assms(4) parse_numeral_of [OF assms(1,2), of v] by simp
qed

theorem itoa_roundtrip_witness: "\<exists>out. itoa 3735928559 (replicate 33 7) 16 = Some out \<and> parse_numeral 16 (text_of out) = 3735928559"
  using itoa_roundtrip [of 16 3735928559 "replicate 33 7"] by auto

definition signed_numeral :: "int \<Rightarrow> u8 list" where
  "signed_numeral v = (if v < 0 then 45 # numeral_of 10 (nat (- v)) else numeral_of 10 (nat v))"

lemma numeral_nonzero_10_16 [simp]: "0 \<notin> set (numeral_of 10 v)" "0 \<notin> set (numeral_of 16 v)"
  by (rule numeral_of_nonzero; simp)+

lemma conv_signed_spec:
  assumes "- (2 ^ 31) \<le> v" and "v < 2 ^ 31" and "length conv = 36"
  shows "\<exists>rest. conv_signed conv v = Some (signed_numeral v @ 0 # rest)"
proof (cases "v < 0")
  case True
  have "nat (- v) < 2 ^ 32" using assms(1) by simp
  from itoa_correct [OF _ _ this, of 10 "drop 1 conv"] assms True show ?thesis
    by (simp add: conv_signed_def signed_numeral_def)
next
  case False
  have "nat v < 2 ^ 32" using assms(2) by simp
  from itoa_correct [OF _ _ this, of 10 conv] assms False show ?thesis
    by (simp add: conv_signed_def signed_numeral_def)
qed

lemma printf_d:
  assumes "- (2 ^ 31) \<le> v" and "v < 2 ^ 31"
  shows "printf (cstr ''%d'') [PInt v] s = Some (2, fold putc (signed_numeral v) s)"
proof -
  obtain rest where "conv_signed (uninit 36) v = Some (signed_numeral v @ 0 # rest)"
    using conv_signed_spec [OF assms, of "uninit 36"] by (auto simp: uninit_def)
  moreover have "0 \<notin> set (signed_numeral v)" by (simp add: signed_numeral_def)
  ultimately show ?thesis
    by (simp add: printf_def cstr_def convert_def puts_spec)
qed

lemma printf_x8:
  assumes "0 \<le> v" and "v < 2 ^ 32"
  shows "printf (cstr ''%#x'') [PInt v] s = Some (3, fold putc
      (replicate (8 - length (numeral_of 16 (nat v))) 48 @ numeral_of 16 (nat v)) s)"
proof -
  let ?d = "replicate (8 - length (numeral_of 16 (nat v))) 48 @ numeral_of 16 (nat v)"
  obtain rest where r: "conv_alternate (uninit 64) v = Some (?d @ 0 # rest)"
    using conv_alternate_spec [OF _ assms, of "uninit 64"] by (auto simp: uninit_def)
  have "0 \<notin> set ?d" by (auto simp: set_replicate_conv_if)
  then have "puts (?d @ 0 # rest) s = Some (int (length ?d), fold putc ?d s)"
    by (subst puts_spec) (simp_all del: append_assoc)
  then show ?thesis using r by (simp add: printf_def cstr_def convert_def)
qed

text \<open>The number conversions of the kernel's \<open>printf\<close>: \<open>%d\<close> prints the signed decimal numeral of
  every \<open>int\<close>, the most negative one included, and \<open>%#x\<close> exactly eight hexadecimal digits of the
  same value; both put them on the console in order.\<close>

lemma printf_numbers:
  assumes "- (2 ^ 31) \<le> v" and "v < 2 ^ 31" and "0 \<le> w" and "w < 2 ^ 32" and "cursor_ok s"
  shows "\<exists>r t u. printf (cstr ''%d'') [PInt v] s = Some (2, t)
      \<and> con_abs t = fold a_putc (signed_numeral v) (con_abs s)
    \<and> printf (cstr ''%#x'') [PInt w] s = Some (3, u) \<and> con_abs u = fold a_putc r (con_abs s)
      \<and> length r = 8 \<and> parse_numeral 16 r = nat w"
proof -
  let ?n = "numeral_of 16 (nat w)"
  let ?r = "replicate (8 - length ?n) 48 @ ?n"
  have w: "nat w < 2 ^ 32" using assms(3,4) by (simp add: nat_less_iff)
  have z: "foldl (\<lambda>v c. v * 16 + digit_value c) 0 (replicate k 48) = 0" for k
    by (induction k) (simp_all add: digit_value_def)
  have "parse_numeral 16 ?r = parse_numeral 16 ?n" by (simp add: parse_numeral_def z)
  also have "\<dots> = nat w" by (rule parse_numeral_of) simp_all
  finally have "parse_numeral 16 ?r = nat w" .
  moreover have "length ?r = 8" using numeral_of_hex_length [OF w] by simp
  ultimately show ?thesis
    using printf_d [OF assms(1,2), of s] printf_x8 [OF assms(3,4), of s] fold_putc_refines [OF assms(5)]
    by blast
qed

lemma printf_numbers_witness:
  "\<exists>t. printf (cstr ''%d'') [PInt (- 2147483648)] sample_kernel = Some (2, t)
    \<and> con_abs t = fold a_putc (signed_numeral (- 2147483648)) (con_abs sample_kernel)"
  using printf_numbers [of "- 2147483648" 0 sample_kernel]
  by (auto simp: cursor_ok_def sample_term_def)

text \<open>C18: \<open>memmove\<close> moves its bytes whatever the overlap, \<open>memcpy\<close> whenever the target does not start
  inside the source, and \<open>memset\<close> fills exactly its range with the low byte of its argument, for every
  alignment and length.\<close>

theorem memory_routines:
  "fst (memmove dst src n m) x = (if dst \<le> x \<and> x < dst + int n then m (src + (x - dst)) else m x)
   \<and> memset dst c n m x = (if dst \<le> x \<and> x < dst + int n then word_of_int c else m x)
   \<and> (if dst \<le> src \<or> src + int n \<le> dst then memcpy dst src n m = fst (memmove dst src n m) else True)"
  by (auto simp: memmove_copies memset_fills fill_bytes_def memcpy_copies fun_eq_iff)

section \<open>Paging\<close>

text \<open>C7: after \<open>paging_setup\<close> every virtual address outside the window of \<open>vidmap\<close> is either
  mapped to itself, for the kernel only, when it lies in the four text pages or the kernel's 4 MB, or
  not mapped at all; user mode reaches nothing.\<close>

theorem paging_identity:
  assumes "0 \<le> a" and "a < 2 ^ 32" and "a div 0x400000 \<noteq> 34"
    and "first_page_table_addr s mod 4096 = 0" and "0 \<le> first_page_table_addr s" and "first_page_table_addr s < 2 ^ 32"
  shows "translate (paging_setup s) user a = (if \<not> user \<and> kernel_mapped a then Some a else None)"
proof (cases "a < 0x400000")
  case True
  show ?thesis by (rule translate_low [OF assms(1) True assms(4-6)])
next
  case False
  show ?thesis by (rule translate_high [OF _ assms(2,3)]) (use False in simp)
qed

theorem paging_identity_witness:
  "translate (paging_setup sample_kernel) False 0xB8FA0 = Some 0xB8FA0
    \<and> translate (paging_setup sample_kernel) True 0xB8FA0 = None"
  using paging_identity [of "0xB8FA0" sample_kernel] by (simp add: kernel_mapped_def)

text \<open>A successful \<open>vidmap\<close> maps the user's video page: every byte of the 4 KB at 136 MB is
  readable and writable in user mode and is the byte of video memory at the same offset.\<close>

lemma vidmap_maps_video:
  assumes "0 \<le> page_table_addr s" and "page_table_addr s < 2 ^ 32" and "page_table_addr s mod 4096 = 0"
    and "page_table_addr s \<noteq> first_page_table_addr s" and "0x400000 < p" and "p < 0x8400000"
    and "0 \<le> off" and "off < 4096"
  shows "fst (vidmap p (paging_setup s)) = 0
    \<and> translate (snd (vidmap p (paging_setup s))) True (USER_VIDMAP + off) = Some (VIDEO + off)"
proof (rule vidmap_bits)
  show "pte_user (page_table (paging_setup s) 0)"
    by (simp add: paging_setup_tables page_table_entry_fields)
qed (use assms in \<open>simp_all add: paging_setup_def Let_def del: upto_rec_numeral\<close>)

lemma vidmap_maps_video_witness:
  "translate (snd (vidmap 0x8050000 (paging_setup sample_kernel))) True 0x8800FA0 = Some 0xB8FA0"
  using vidmap_maps_video [of sample_kernel "0x8050000" "0xFA0"] by simp

section \<open>Start-up\<close>

text \<open>The interrupt descriptor table sends every vector to its own stub: the exceptions, the
  sixteen lines and the system call; present are the exceptions but 15, the timer, keyboard and clock
  lines and the system call, which alone is open to user mode.\<close>

lemma idt_gates:
  assumes "g_handler (idt s i) = None" and "g_present (idt s i) = 0" and "0 \<le> i" and "i < 256"
  shows "g_handler (idt (idt_setup s) i) = idt_handler i
    \<and> (g_present (idt (idt_setup s) i) = 1) = (i < 20 \<and> i \<noteq> 15 \<or> i \<in> {0x20, 0x21, 0x28, 128})
    \<and> (g_present (idt (idt_setup s) i) = 1 \<longrightarrow> (g_dpl (idt (idt_setup s) i) = 3) = (i = 128))"
  using idt_setup_handler [OF refl assms(1,3,4)] idt_setup_bits [OF assms(2-4)] by auto

lemma idt_gates_witness:
  "g_handler (idt (idt_setup sample_kernel) 0x80) = Some Syscall \<and> g_present (idt (idt_setup sample_kernel) 0x80) = 1
    \<and> g_dpl (idt (idt_setup sample_kernel) 0x80) = 3"
  using idt_gates [of sample_kernel 128] by (simp add: sample_kernel_def idt_handler_def)

text \<open>After start-up exactly the timer, keyboard, cascade and clock lines are unmasked, and their
  interrupts run their handlers.\<close>

lemma boot_irq_lines:
  assumes "0 \<le> n" and "n < 16"
  shows "irq_open n (boot_init s) = (n \<in> {0, 1, 2, 8})
    \<and> do_irq irqs l (- n) s =
      (if n = 0 then Resumed (handle_pit s) else if n = 1 then handle_keyboard irqs l s
       else if n = 8 then Resumed (handle_rtc s) else Resumed s)"
  using irq_open_boot_init [OF assms] do_irq_dispatch [OF assms] by simp

lemma boot_irq_lines_witness: "irq_open 8 (boot_init sample_kernel) \<and> \<not> irq_open 9 (boot_init sample_kernel)"
  using boot_irq_lines [of 8 sample_kernel] boot_irq_lines [of 9 sample_kernel] by simp

section \<open>The clock\<close>

text \<open>\<open>rtc_write\<close> accepts exactly the powers of two up to 512 among the positive rates, and a
  following \<open>rtc_read\<close> returns after \<open>512 div freq\<close> clock interrupts and not before.\<close>

lemma rtc_virtual_rate:
  assumes "buf \<noteq> 0" and "s32 (le32 (peek s) buf) = freq" and "0 < freq"
  shows "(fst (rtc_write fd buf n s) = 0) = (freq \<in> {1, 2, 4, 8, 16, 32, 64, 128, 256, 512})
    \<and> (fst (rtc_write fd buf n s) = 0 \<longrightarrow>
        (rtc_read (replicate k handle_rtc) fd b m (snd (rtc_write fd buf n s)) \<noteq> None) = (512 div freq \<le> int k))"
proof -
  have rng: "- (2 ^ 31) \<le> freq" "freq < 2 ^ 31" using s32_range [of "le32 (peek s) buf"] assms(2) by auto
  have ok: "rtc_rate_ok freq = (freq \<in> {1, 2, 4, 8, 16, 32, 64, 128, 256, 512})"
    using rtc_rate_iff [OF rng] assms(3) by auto
  have w: "rtc_write fd buf n s = (if rtc_rate_ok freq
      then (0, (cli s)\<lparr>interrupt_count := c_div 512 freq\<rparr>) else (- 1, sti (cli s)))"
    using rtc_write_cases [of fd buf n s] assms(1,2) by simp
  let ?u = "(sti ((cli s)\<lparr>interrupt_count := c_div 512 freq\<rparr>))\<lparr>rtc_interrupt_occurred := 0\<rparr>"
  have "(rtc_wait (replicate k handle_rtc) 0 ?u \<noteq> None) = (512 div freq \<le> int k)"
    using rtc_wait_ticks [of ?u k 0] assms(3) by (simp add: sti_def)
  then show ?thesis unfolding w by (simp add: ok rtc_read_def Let_def)
qed

lemma rtc_virtual_rate_witness:
  "fst (rtc_write 5 0x411000 4 (poke 0x411000 128 sample_kernel)) = 0
    \<and> rtc_read (replicate 4 handle_rtc) 5 0 4 (snd (rtc_write 5 0x411000 4 (poke 0x411000 128 sample_kernel))) \<noteq> None
    \<and> rtc_read (replicate 3 handle_rtc) 5 0 4 (snd (rtc_write 5 0x411000 4 (poke 0x411000 128 sample_kernel))) = None"
proof -
  let ?s = "poke 0x411000 128 sample_kernel"
  have "le32 (peek ?s) 0x411000 = 128"
    by (simp add: le32_def peek_poke addr_ok_def sample_peek sample_mem_def)
  then have f: "s32 (le32 (peek ?s) 0x411000) = 128" by simp
  show ?thesis
    using rtc_virtual_rate [of "0x411000" ?s 128 5 4 4 0 4, OF _ f]
      rtc_virtual_rate [of "0x411000" ?s 128 5 4 3 0 4, OF _ f] by (simp del: not_None_eq)
qed

section \<open>Processes and terminals\<close>

text \<open>C5: when a process with a parent halts, its number is free, the parent is current again with its
  page, its kernel stack and the stack registers saved when it executed the child, the other
  processes are untouched, and the status (256 after an exception) is the value \<open>execute\<close> returns.\<close>

theorem halt_returns_to_parent:
  assumes "0 \<le> parent_pid (cur_proc s)" and "parent_pid (cur_proc s) < 6"
    and "parent_pid (cur_proc s) \<noteq> curr_pcb s"
  shows "\<exists>t. sysHalt irqs l status s = ToParent (if status = 99 then 256 else status) t
    \<and> curr_pcb t = parent_pid (cur_proc s) \<and> p_active (pcbarray t (curr_pcb s)) = 0
    \<and> user_page t = 2 + parent_pid (cur_proc s)
    \<and> tss_esp0 t = 0x7FFFFC - 0x10000 * parent_pid (cur_proc s)
    \<and> cpu_esp t = parent_esp (cur_proc s) \<and> cpu_ebp t = parent_ebp (cur_proc s)
    \<and> top_pid (cur_term t) = parent_pid (cur_proc s)
    \<and> (\<forall>p. p \<noteq> curr_pcb s \<longrightarrow> pcbarray t p = pcbarray s p) \<and> iflag t"
  by (rule halt_child [OF assms])

theorem halt_returns_to_parent_witness:
  "\<exists>t. sysHalt [] ([], []) 7 sample_kernel = ToParent 7 t \<and> curr_pcb t = 0 \<and> cpu_esp t = 0x7FFF00"
  using halt_returns_to_parent [of sample_kernel "[]" "([], [])" 7]
  by (auto simp: sample_pcb_def)

text \<open>C6: switching to a running terminal shows its screen and keeps the old one and all others;
  switching back shows what was there before.\<close>

theorem terminal_switch_screens:
  assumes "t_active (terminals s n) \<noteq> 0" and "t_active (terminals s (currentTerminal s)) \<noteq> 0"
    and "screens_ok s" and "n \<in> {0, 1, 2}" and "currentTerminal s \<in> {0, 1, 2}" and "n \<noteq> currentTerminal s"
  shows "\<exists>t u. switch_terminal irqs l n s = Resumed t \<and> currentTerminal t = n \<and> terminals t = terminals s
    \<and> (\<forall>d. 0 \<le> d \<and> d < 4096 \<longrightarrow> mem t (VIDEO + d) = mem s (vidmem (terminals s n) + d)
        \<and> mem t (vidmem (terminals s (currentTerminal s)) + d) = mem s (VIDEO + d))
    \<and> switch_terminal irqs l (currentTerminal s) t = Resumed u
    \<and> currentTerminal u = currentTerminal s \<and> terminals u = terminals s
    \<and> (\<forall>d. 0 \<le> d \<and> d < 4096 \<longrightarrow> mem u (VIDEO + d) = mem s (VIDEO + d))"
proof -
  obtain t where t: "switch_terminal irqs l n s = Resumed t" "currentTerminal t = n" "terminals t = terminals s"
    "\<forall>d. 0 \<le> d \<and> d < 4096 \<longrightarrow> mem t (VIDEO + d) = mem s (vidmem (terminals s n) + d)
        \<and> mem t (vidmem (terminals s (currentTerminal s)) + d) = mem s (VIDEO + d)"
    using switch_active [OF assms(1,3,4,5), of irqs l] assms(6) by auto
  with switch_back [OF assms(1,2,3,4,5), of irqs l] show ?thesis by auto
qed

theorem terminal_switch_screens_witness:
  "\<exists>t u. switch_terminal [] ([], []) 2 sample_kernel = Resumed t \<and> switch_terminal [] ([], []) 0 t = Resumed u
    \<and> mem u 0xB8000 = mem sample_kernel 0xB8000"
proof -
  have p: "t_active (sample_term 2) \<noteq> 0" "t_active (sample_term 0) \<noteq> 0" "(2::int) \<in> {0, 1, 2}"
    "(0::int) \<in> {0, 1, 2}" "(2::int) \<noteq> 0" by (simp_all add: sample_term_def)
  from terminal_switch_screens [of sample_kernel 2 "[]" "([], [])", unfolded sample_fields,
      OF p(1,2) sample_screens_ok p(3-5)]
  obtain t u where t: "switch_terminal [] ([], []) 2 sample_kernel = Resumed t"
    and u: "switch_terminal [] ([], []) 0 t = Resumed u"
    and m: "\<forall>d. 0 \<le> d \<and> d < 4096 \<longrightarrow> mem u (VIDEO + d) = mem sample_kernel (VIDEO + d)"
    unfolding sample_fields by (elim exE conjE)
  have "mem u 0xB8000 = mem sample_kernel 0xB8000" using m [rule_format, of 0] by simp
  with t u show ?thesis by blast
qed

end
