(* ===== verification/UserLib.thy ===== *)
theory UserLib
  imports ProcLemmas
begin

text \<open>
  The user side of the system calls: the call stubs (\<open>ece391syscall.S\<close>) and the support library
  (\<open>ece391support.c\<close>) the user programs are linked with.  A program is a function of the kernel's
  state, which holds its memory; it is \<open>None\<close> when the program faults, is ended by the kernel, or
  waits for an interrupt that does not come.  The laws say what a program relies on: what a call
  returns, what it prints, and which of the program's memory and descriptors it leaves alone.
\<close>

section \<open>The memory of a program\<close>

abbreviation (input) "USER_END \<equiv> USER_VIRTUAL + PHYS4MB"

definition user_addr :: "int \<Rightarrow> bool" where
  "user_addr a \<longleftrightarrow> USER_VIRTUAL \<le> a \<and> a < USER_END"

definition uload :: "int \<Rightarrow> kernel \<Rightarrow> u8 option" where
  "uload a s = (if user_addr a then Some (peek s a) else None)"

definition ustore :: "int \<Rightarrow> u8 \<Rightarrow> kernel \<Rightarrow> kernel option" where
  "ustore a v s = (if user_addr a then Some (poke a v s) else None)"

section \<open>The call stubs\<close>

text \<open>A call that comes back; the others leave the program for good.\<close>

definition returned :: "outcome \<Rightarrow> (int \<times> kernel) option" where
  "returned out = (case out of Ret v s \<Rightarrow> Some (v, s) | _ \<Rightarrow> None)"

definition ece391_halt :: "(kernel \<Rightarrow> kernel) list \<Rightarrow> u8 list \<times> u8 list \<Rightarrow> int \<Rightarrow> kernel \<Rightarrow> outcome" where
  "ece391_halt irqs locals status s = sys_call irqs locals 1 status 0 0 s"

text \<open>\<open>child\<close> is the run of the program that was started, from its entry point and stack pointer
  to the value \<open>halt\<close> brings back.\<close>

definition ece391_execute ::
  "(kernel \<Rightarrow> kernel) list \<Rightarrow> u8 list \<times> u8 list \<Rightarrow> (int \<Rightarrow> int \<Rightarrow> kernel \<Rightarrow> (int \<times> kernel) option)
    \<Rightarrow> int \<Rightarrow> kernel \<Rightarrow> (int \<times> kernel) option" where
  "ece391_execute irqs locals child command s = (case sys_call irqs locals 2 command 0 0 s of
     ToUser eip esp s \<Rightarrow> child eip esp s
   | out \<Rightarrow> returned out)"

definition ece391_read :: "(kernel \<Rightarrow> kernel) list \<Rightarrow> int \<Rightarrow> int \<Rightarrow> int \<Rightarrow> kernel \<Rightarrow> (int \<times> kernel) option" where
  "ece391_read irqs fd buf nbytes s = returned (sys_call irqs ([], []) 3 fd buf nbytes s)"

definition ece391_write :: "int \<Rightarrow> int \<Rightarrow> int \<Rightarrow> kernel \<Rightarrow> (int \<times> kernel) option" where
  "ece391_write fd buf nbytes s = returned (sys_call [] ([], []) 4 fd buf nbytes s)"

definition ece391_open :: "int \<Rightarrow> kernel \<Rightarrow> (int \<times> kernel) option" where
  "ece391_open filename s = returned (sys_call [] ([], []) 5 filename 0 0 s)"

definition ece391_close :: "int \<Rightarrow> kernel \<Rightarrow> (int \<times> kernel) option" where
  "ece391_close fd s = returned (sys_call [] ([], []) 6 fd 0 0 s)"

definition ece391_getargs :: "int \<Rightarrow> int \<Rightarrow> kernel \<Rightarrow> (int \<times> kernel) option" where
  "ece391_getargs buf nbytes s = returned (sys_call [] ([], []) 7 buf nbytes 0 s)"

definition ece391_vidmap :: "int \<Rightarrow> kernel \<Rightarrow> (int \<times> kernel) option" where
  "ece391_vidmap screen_start s = returned (sys_call [] ([], []) 8 screen_start 0 0 s)"

section \<open>Support routines\<close>

function ece391_strlen :: "int \<Rightarrow> kernel \<Rightarrow> int option" where
  "ece391_strlen p s =
     (if user_addr p
      then (if peek s p = 0 then Some 0 else map_option (\<lambda>len. len + 1) (ece391_strlen (p + 1) s))
      else None)"
  by pat_completeness auto
termination
  by (relation "measure (\<lambda>(p, _). nat (USER_END - p))") (auto simp: user_addr_def)

function ece391_strcpy :: "int \<Rightarrow> int \<Rightarrow> kernel \<Rightarrow> kernel option" where
  "ece391_strcpy dst src s =
     (if user_addr dst \<and> user_addr src
      then (let c = peek s src; s = poke dst c s
            in if c = 0 then Some s else ece391_strcpy (dst + 1) (src + 1) s)
      else None)"
  by pat_completeness auto
termination
  by (relation "measure (\<lambda>(_, src, _). nat (USER_END - src))") (auto simp: user_addr_def)

definition ece391_fdputs :: "int \<Rightarrow> int \<Rightarrow> kernel \<Rightarrow> kernel option" where
  "ece391_fdputs fd p s = do {
     n \<leftarrow> ece391_strlen p s;
     (_, s) \<leftarrow> ece391_write fd p n s;
     Some s
   }"

function ece391_strcmp :: "int \<Rightarrow> int \<Rightarrow> kernel \<Rightarrow> int option" where
  "ece391_strcmp s1 s2 s =
     (if user_addr s1 \<and> user_addr s2
      then (if peek s s1 = peek s s2
            then (if peek s s1 = 0 then Some 0 else ece391_strcmp (s1 + 1) (s2 + 1) s)
            else Some (uint (peek s s1) - uint (peek s s2)))
      else None)"
  by pat_completeness auto
termination
  by (relation "measure (\<lambda>(p, _, _). nat (USER_END - p))") (auto simp: user_addr_def)

text \<open>The loop of \<open>ece391_strncmp\<close>, entered with \<open>n\<close> not 0.\<close>

function ustrncmp_loop :: "int \<Rightarrow> int \<Rightarrow> nat \<Rightarrow> kernel \<Rightarrow> int option" where
  "ustrncmp_loop s1 s2 n s =
     (if user_addr s1 \<and> user_addr s2
      then (if peek s s1 = peek s s2
            then (if peek s s1 = 0 \<or> n - 1 = 0 then Some 0
                  else ustrncmp_loop (s1 + 1) (s2 + 1) (n - 1) s)
            else Some (uint (peek s s1) - uint (peek s s2)))
      else None)"
  by pat_completeness auto
termination
  by (relation "measure (\<lambda>(p, _, _, _). nat (USER_END - p))") (auto simp: user_addr_def)

definition ece391_strncmp :: "int \<Rightarrow> int \<Rightarrow> int \<Rightarrow> kernel \<Rightarrow> int option" where
  "ece391_strncmp s1 s2 n s = (if u32 n = 0 then Some 0 else ustrncmp_loop s1 s2 (nat (u32 n)) s)"

declare ece391_strlen.simps [simp del] ece391_strcpy.simps [simp del] ece391_strcmp.simps [simp del]
  ustrncmp_loop.simps [simp del]

text \<open>The conversion loop stores digits from \<open>newbuf\<close> on and returns where it stopped; a radix
  of 0 traps, a remainder past the digit table reads outside it.\<close>

function uitoa_loop :: "int \<Rightarrow> int \<Rightarrow> int \<Rightarrow> kernel \<Rightarrow> (int \<times> kernel) option" where
  "uitoa_loop newval newbuf radix s =
     (if 0 < newval
      then (if user_addr newbuf \<and> radix \<noteq> 0 \<and> newval mod radix < 37
            then uitoa_loop (newval div radix) (newbuf + 1) radix
                   (poke newbuf (digit_lookup ! nat (newval mod radix)) s)
            else None)
      else Some (newbuf, s))"
  by pat_completeness auto
termination
  by (relation "measure (\<lambda>(_, newbuf, _, _). nat (USER_END - newbuf))") (auto simp: user_addr_def)

function ustrrev_loop :: "int \<Rightarrow> int \<Rightarrow> int \<Rightarrow> kernel \<Rightarrow> kernel" where
  "ustrrev_loop p beg end s =
     (if beg < end
      then (let tmp = peek s (p + end);
                s = poke (p + end) (peek s (p + beg)) s;
                s = poke (p + beg) tmp s
            in ustrrev_loop p (beg + 1) (end - 1) s)
      else s)"
  by pat_completeness auto
termination
  by (relation "measure (\<lambda>(_, beg, end, _). nat (end - beg))") auto

declare uitoa_loop.simps [simp del] ustrrev_loop.simps [simp del]

definition ece391_strrev :: "int \<Rightarrow> kernel \<Rightarrow> kernel option" where
  "ece391_strrev p s = do {
     n \<leftarrow> ece391_strlen p s;
     Some (if n - 1 \<le> 0 then s else ustrrev_loop p 0 (n - 1) s)
   }"

definition ece391_itoa :: "int \<Rightarrow> int \<Rightarrow> int \<Rightarrow> kernel \<Rightarrow> kernel option" where
  "ece391_itoa value buf radix s =
     (if u32 value = 0
      then do { s \<leftarrow> ustore buf 48 s; ustore (buf + 1) 0 s }
      else do {
        (newbuf, s) \<leftarrow> uitoa_loop (u32 value) buf (u32 radix) s;
        s \<leftarrow> ustore newbuf 0 s;
        ece391_strrev buf s
      })"

end
