(* ===== verification/UserProgs.thy ===== *)
theory UserProgs
  imports UserLib
begin

text \<open>
  The user programs of \<open>syscalls/\<close>: \<open>cat\<close>, \<open>ls\<close>, \<open>grep\<close>, \<open>hello\<close>, \<open>counter\<close>, \<open>testprint\<close> and
  the shell.  \<open>buf\<close>, \<open>data\<close> and \<open>search\<close> are the addresses of a program's local arrays, \<open>lit\<close> gives
  the address the compiler put a string literal at, \<open>irqs\<close> is what interrupts do while a read
  waits.  \<open>main\<close> returns the program's exit status.
\<close>

definition nl :: "string \<Rightarrow> string" where
  "nl msg = msg @ [CHR 0x0A]"

text \<open>A message and an exit status.\<close>

definition give_up :: "(string \<Rightarrow> int) \<Rightarrow> string \<Rightarrow> int \<Rightarrow> kernel \<Rightarrow> (int \<times> kernel) option" where
  "give_up lit msg status s = do {
     s \<leftarrow> ece391_fdputs 1 (lit msg) s;
     Some (status, s)
   }"

section \<open>cat\<close>

partial_function (option) cat_loop ::
  "(kernel \<Rightarrow> kernel) list \<Rightarrow> (string \<Rightarrow> int) \<Rightarrow> int \<Rightarrow> int \<Rightarrow> kernel \<Rightarrow> (int \<times> kernel) option" where
  "cat_loop irqs lit buf fd s = do {
     (cnt, s) \<leftarrow> ece391_read irqs fd buf 1024 s;
     if cnt = 0 then Some (0, s)
     else if cnt = - 1 then give_up lit (nl ''file read failed'') 3 s
     else do {
       (r, s) \<leftarrow> ece391_write 1 buf cnt s;
       if r = - 1 then Some (3, s) else cat_loop irqs lit buf fd s
     }
   }"

definition cat_main ::
  "(kernel \<Rightarrow> kernel) list \<Rightarrow> (string \<Rightarrow> int) \<Rightarrow> int \<Rightarrow> kernel \<Rightarrow> (int \<times> kernel) option" where
  "cat_main irqs lit buf s = do {
     (r, s) \<leftarrow> ece391_getargs buf 1024 s;
     if r \<noteq> 0 then give_up lit (nl ''could not read arguments'') 3 s
     else do {
       (fd, s) \<leftarrow> ece391_open buf s;
       if fd = - 1 then give_up lit (nl ''file not found'') 2 s
       else cat_loop irqs lit buf fd s
     }
   }"

section \<open>ls\<close>

definition ls_entry :: "int \<Rightarrow> int \<Rightarrow> kernel \<Rightarrow> (int \<times> kernel) option" where
  "ls_entry buf cnt s = do {
     s \<leftarrow> ustore (buf + cnt) 10 s;
     ece391_write 1 buf (cnt + 1) s
   }"

partial_function (option) ls_loop ::
  "(kernel \<Rightarrow> kernel) list \<Rightarrow> (string \<Rightarrow> int) \<Rightarrow> int \<Rightarrow> int \<Rightarrow> kernel \<Rightarrow> (int \<times> kernel) option" where
  "ls_loop irqs lit buf fd s = do {
     (cnt, s) \<leftarrow> ece391_read irqs fd buf 32 s;
     if cnt = 0 then Some (0, s)
     else if cnt = - 1 then give_up lit (nl ''directory entry read failed'') 3 s
     else do {
       (r, s) \<leftarrow> ls_entry buf cnt s;
       if r = - 1 then Some (3, s) else ls_loop irqs lit buf fd s
     }
   }"

definition ls_main ::
  "(kernel \<Rightarrow> kernel) list \<Rightarrow> (string \<Rightarrow> int) \<Rightarrow> int \<Rightarrow> kernel \<Rightarrow> (int \<times> kernel) option" where
  "ls_main irqs lit buf s = do {
     (fd, s) \<leftarrow> ece391_open (lit ''.'') s;
     if fd = - 1 then give_up lit (nl ''directory open failed'') 2 s
     else ls_loop irqs lit buf fd s
   }"

section \<open>grep\<close>

function find_eol :: "int \<Rightarrow> int \<Rightarrow> int \<Rightarrow> kernel \<Rightarrow> int option" where
  "find_eol data len line_end s =
     (if line_end < len
      then Option.bind (uload (data + line_end) s)
             (\<lambda>c. if c \<noteq> 10 then find_eol data len (line_end + 1) s else Some line_end)
      else Some line_end)"
  by pat_completeness auto
termination
  by (relation "measure (\<lambda>(_, len, line_end, _). nat (len - line_end))") auto

text \<open>The first match of a line prints it after the file's name.\<close>

definition print_match :: "(string \<Rightarrow> int) \<Rightarrow> int \<Rightarrow> int \<Rightarrow> kernel \<Rightarrow> kernel option" where
  "print_match lit fname line s = do {
     s \<leftarrow> ece391_fdputs 1 fname s;
     s \<leftarrow> ece391_fdputs 1 (lit '':'') s;
     s \<leftarrow> ece391_fdputs 1 line s;
     ece391_fdputs 1 (lit (nl '''')) s
   }"

function search_line ::
  "(string \<Rightarrow> int) \<Rightarrow> int \<Rightarrow> int \<Rightarrow> int \<Rightarrow> int \<Rightarrow> int \<Rightarrow> int \<Rightarrow> int \<Rightarrow> kernel \<Rightarrow> kernel option" where
  "search_line lit pat s_len fname data line_start line_end check s =
     (if check < line_end
      then do {
        p \<leftarrow> uload pat s;
        c \<leftarrow> uload (data + check) s;
        m \<leftarrow> (if p = c then ece391_strncmp (data + check) pat s_len s else Some 1);
        if m = 0 then print_match lit fname (data + line_start) s
        else search_line lit pat s_len fname data line_start line_end (check + 1) s
      }
      else Some s)"
  by pat_completeness auto
termination
  by (relation "measure (\<lambda>(_, _, _, _, _, _, line_end, check, _). nat (line_end - check))") auto

declare find_eol.simps [simp del] search_line.simps [simp del]

text \<open>The lines of the buffer: an unfinished last line is moved to its front, unless it fills it.\<close>

partial_function (option) grep_lines ::
  "(string \<Rightarrow> int) \<Rightarrow> int \<Rightarrow> int \<Rightarrow> int \<Rightarrow> int \<Rightarrow> int \<Rightarrow> int \<Rightarrow> int \<Rightarrow> kernel \<Rightarrow> (int \<times> kernel) option" where
  "grep_lines lit pat s_len fname data cnt len line_start s = do {
     line_end \<leftarrow> find_eol data len line_start s;
     c \<leftarrow> uload (data + line_end) s;
     s \<leftarrow> ustore (data + line_end) 0 s;
     if c \<noteq> 10 \<and> cnt \<noteq> 0 \<and> line_start \<noteq> 0
     then do {
       s \<leftarrow> ece391_strcpy data (data + line_start) s;
       Some (len - line_start, s)
     }
     else do {
       s \<leftarrow> search_line lit pat s_len fname data line_start line_end line_start s;
       if len \<le> line_end + 1 then Some (0, s)
       else grep_lines lit pat s_len fname data cnt len (line_end + 1) s
     }
   }"

partial_function (option) grep_file ::
  "(kernel \<Rightarrow> kernel) list \<Rightarrow> (string \<Rightarrow> int) \<Rightarrow> int \<Rightarrow> int \<Rightarrow> int \<Rightarrow> int \<Rightarrow> int \<Rightarrow> int \<Rightarrow> kernel
    \<Rightarrow> (int \<times> kernel) option" where
  "grep_file irqs lit pat s_len fname data fd len s = do {
     (cnt, s) \<leftarrow> ece391_read irqs fd (data + len) (1024 - len) s;
     if cnt = - 1 then give_up lit (nl ''file read failed'') (- 1) s
     else do {
       (len, s) \<leftarrow> grep_lines lit pat s_len fname data cnt (len + cnt) 0 s;
       if cnt = 0
       then do {
         (r, s) \<leftarrow> ece391_close fd s;
         if r = - 1 then give_up lit (nl ''file close failed'') (- 1) s else Some (0, s)
       }
       else grep_file irqs lit pat s_len fname data fd len s
     }
   }"

definition do_one_file ::
  "(kernel \<Rightarrow> kernel) list \<Rightarrow> (string \<Rightarrow> int) \<Rightarrow> int \<Rightarrow> int \<Rightarrow> int \<Rightarrow> kernel \<Rightarrow> (int \<times> kernel) option" where
  "do_one_file irqs lit data pat fname s = do {
     s_len \<leftarrow> ece391_strlen pat s;
     (fd, s) \<leftarrow> ece391_open fname s;
     if fd = - 1 then give_up lit (nl ''file open failed'') (- 1) s
     else grep_file irqs lit pat s_len fname data fd 0 s
   }"

partial_function (option) grep_dir ::
  "(kernel \<Rightarrow> kernel) list \<Rightarrow> (string \<Rightarrow> int) \<Rightarrow> int \<Rightarrow> int \<Rightarrow> int \<Rightarrow> int \<Rightarrow> kernel \<Rightarrow> (int \<times> kernel) option" where
  "grep_dir irqs lit data search buf fd s = do {
     (cnt, s) \<leftarrow> ece391_read irqs fd buf 32 s;
     if cnt = 0 then Some (0, s)
     else if cnt = - 1 then give_up lit (nl ''directory entry read failed'') 3 s
     else do {
       c \<leftarrow> uload buf s;
       if c = 46 then grep_dir irqs lit data search buf fd s
       else do {
         s \<leftarrow> ustore (buf + cnt) 0 s;
         (r, s) \<leftarrow> do_one_file irqs lit data search buf s;
         if r \<noteq> 0 then Some (3, s) else grep_dir irqs lit data search buf fd s
       }
     }
   }"

definition grep_main ::
  "(kernel \<Rightarrow> kernel) list \<Rightarrow> (string \<Rightarrow> int) \<Rightarrow> int \<Rightarrow> int \<Rightarrow> int \<Rightarrow> kernel \<Rightarrow> (int \<times> kernel) option" where
  "grep_main irqs lit data search buf s = do {
     (r, s) \<leftarrow> ece391_getargs search 1024 s;
     if r \<noteq> 0 then give_up lit (nl ''could not read argument'') 3 s
     else do {
       (fd, s) \<leftarrow> ece391_open (lit ''.'') s;
       if fd = - 1 then give_up lit (nl ''directory open failed'') 2 s
       else grep_dir irqs lit data search buf fd s
     }
   }"

section \<open>Programs that read from the keyboard\<close>

definition hello_main ::
  "(kernel \<Rightarrow> kernel) list \<Rightarrow> (string \<Rightarrow> int) \<Rightarrow> int \<Rightarrow> kernel \<Rightarrow> (int \<times> kernel) option" where
  "hello_main irqs lit buf s = do {
     s \<leftarrow> ece391_fdputs 1 (lit ''Hi, what's your name? '') s;
     (cnt, s) \<leftarrow> ece391_read irqs 0 buf 1023 s;
     if cnt = - 1 then give_up lit (nl ''Can't read name from keyboard.'') 3 s
     else do {
       s \<leftarrow> ustore (buf + cnt) 0 s;
       s \<leftarrow> ece391_fdputs 1 (lit ''Hello, '') s;
       s \<leftarrow> ece391_fdputs 1 buf s;
       Some (0, s)
     }
   }"

definition testprint_main :: "(string \<Rightarrow> int) \<Rightarrow> kernel \<Rightarrow> (int \<times> kernel) option" where
  "testprint_main lit s = give_up lit (nl ''Hello, if this ran, the program was correct. Yay!'') 0 s"

primrec counter_loop :: "nat \<Rightarrow> int \<Rightarrow> (string \<Rightarrow> int) \<Rightarrow> int \<Rightarrow> kernel \<Rightarrow> kernel option" where
  "counter_loop 0 i lit buf s = Some s"
| "counter_loop (Suc n) i lit buf s = do {
     s \<leftarrow> ece391_itoa (i + 1) buf 10 s;
     s \<leftarrow> ece391_fdputs 1 buf s;
     s \<leftarrow> ece391_fdputs 1 (lit (nl '''')) s;
     counter_loop n (i + 1) lit buf s
   }"

definition counter_max :: "u8 \<Rightarrow> nat" where
  "counter_max c = (if c = 48 then 100 else if c = 49 then 10000 else if c = 50 then 100000 else 0)"

definition counter_main ::
  "(kernel \<Rightarrow> kernel) list \<Rightarrow> (string \<Rightarrow> int) \<Rightarrow> int \<Rightarrow> kernel \<Rightarrow> (int \<times> kernel) option" where
  "counter_main irqs lit buf s = do {
     s \<leftarrow> ece391_fdputs 1 (lit (nl ''Enter the Test Number: (0): 100, (1): 10000, (2): 100000'')) s;
     (cnt, s) \<leftarrow> ece391_read irqs 0 buf 1023 s;
     if cnt = - 1 then give_up lit (nl ''Can't read the number from keyboard.'') 3 s
     else do {
       s \<leftarrow> ustore (buf + cnt) 0 s;
       len \<leftarrow> ece391_strlen buf s;
       c \<leftarrow> uload buf s;
       if 2 < len \<or> len = 2 \<and> (c < 48 \<or> 50 < c)
       then give_up lit (nl ''Wrong Choice!'') 0 s
       else do {
         s \<leftarrow> counter_loop (counter_max c) 0 lit buf s;
         Some (0, s)
       }
     }
   }"

section \<open>The shell\<close>

text \<open>One \<open>irqs\<close> for each line the shell waits for; after the last it waits for ever.  \<open>locals\<close> are
  the arrays of \<open>sysExecute\<close>, \<open>child\<close> is the run of the program a command starts.\<close>

definition shell_report :: "(string \<Rightarrow> int) \<Rightarrow> int \<Rightarrow> kernel \<Rightarrow> kernel option" where
  "shell_report lit rval s =
     (if rval = - 1 then ece391_fdputs 1 (lit (nl ''no such command'')) s
      else if rval = 256 then ece391_fdputs 1 (lit (nl ''program terminated by exception'')) s
      else if rval \<noteq> 0 then ece391_fdputs 1 (lit (nl ''program terminated abnormally'')) s
      else Some s)"

primrec shell_loop ::
  "(kernel \<Rightarrow> kernel) list list \<Rightarrow> u8 list \<times> u8 list \<Rightarrow> (int \<Rightarrow> int \<Rightarrow> kernel \<Rightarrow> (int \<times> kernel) option)
    \<Rightarrow> (string \<Rightarrow> int) \<Rightarrow> int \<Rightarrow> kernel \<Rightarrow> (int \<times> kernel) option" where
  "shell_loop [] locals child lit buf s = None"
| "shell_loop (irqs # rounds) locals child lit buf s = do {
     s \<leftarrow> ece391_fdputs 1 (lit ''391OS> '') s;
     (cnt, s) \<leftarrow> ece391_read irqs 0 buf 1023 s;
     if cnt = - 1 then give_up lit (nl ''read from keyboard failed'') 3 s
     else do {
       cnt \<leftarrow> (if 0 < cnt
               then map_option (\<lambda>c. if c = 10 then cnt - 1 else cnt) (uload (buf + (cnt - 1)) s)
               else Some cnt);
       s \<leftarrow> ustore (buf + cnt) 0 s;
       r \<leftarrow> ece391_strcmp buf (lit ''exit'') s;
       if r = 0 then Some (0, s)
       else do {
         c \<leftarrow> uload buf s;
         if c = 0 then shell_loop rounds locals child lit buf s
         else do {
           (rval, s) \<leftarrow> ece391_execute [] locals child buf s;
           s \<leftarrow> shell_report lit rval s;
           shell_loop rounds locals child lit buf s
         }
       }
     }
   }"

definition shell_main ::
  "(kernel \<Rightarrow> kernel) list list \<Rightarrow> u8 list \<times> u8 list \<Rightarrow> (int \<Rightarrow> int \<Rightarrow> kernel \<Rightarrow> (int \<times> kernel) option)
    \<Rightarrow> (string \<Rightarrow> int) \<Rightarrow> int \<Rightarrow> kernel \<Rightarrow> (int \<times> kernel) option" where
  "shell_main rounds locals child lit buf s = do {
     s \<leftarrow> ece391_fdputs 1 (lit (nl ''Starting 391 Shell'')) s;
     shell_loop rounds locals child lit buf s
   }"

end
