(* ===== verification/SysErr.thy ===== *)
theory SysErr
  imports UserProgs
begin

text \<open>
  The repository's own test program for the error paths of the system calls, \<open>ece391syserr.c\<close>: eight
  tests, each with a verdict it prints and returns (0 passed, 2 failed), and the choice among them.
\<close>

abbreviation (input) "NEG_FD \<equiv> - 1073741823 :: int"
abbreviation (input) "BIG_FD \<equiv> 1073741823 :: int"
abbreviation (input) "BIG_NUM \<equiv> 1073741823 :: int"
abbreviation (input) "NEG_NUM \<equiv> - 1073741823 :: int"

text \<open>A call that should have returned -1, and the line at the end of a test.\<close>

definition expect_error :: "(string \<Rightarrow> int) \<Rightarrow> string \<Rightarrow> int \<Rightarrow> (int \<times> kernel) option \<Rightarrow> (int \<times> kernel) option" where
  "expect_error lit msg fail call = do {
     (r, s) \<leftarrow> call;
     if r \<noteq> - 1
     then do { s \<leftarrow> ece391_fdputs 1 (lit msg) s; Some (2, s) }
     else Some (fail, s)
   }"

definition verdict :: "(string \<Rightarrow> int) \<Rightarrow> string \<Rightarrow> int \<Rightarrow> kernel \<Rightarrow> (int \<times> kernel) option" where
  "verdict lit name fail s =
     (if fail \<noteq> 0 then give_up lit (nl (name @ '': FAIL'')) fail s
      else give_up lit (nl (name @ '': PASS'')) fail s)"

text \<open>The system call instruction with number \<open>num\<close>; the other registers hold what they hold.\<close>

definition call_sys :: "int \<times> int \<times> int \<Rightarrow> int \<Rightarrow> kernel \<Rightarrow> (int \<times> kernel) option" where
  "call_sys regs num s = (case regs of (ebx, ecx, edx) \<Rightarrow> returned (sys_call [] ([], []) num ebx ecx edx s))"

definition err_neg_fd :: "(string \<Rightarrow> int) \<Rightarrow> int \<Rightarrow> kernel \<Rightarrow> (int \<times> kernel) option" where
  "err_neg_fd lit buf s = do {
     (fail, s) \<leftarrow> expect_error lit (nl ''read fail'') 0 (ece391_read [] NEG_FD buf 31 s);
     (fail, s) \<leftarrow> expect_error lit (nl ''write fail'') fail (ece391_write NEG_FD buf 31 s);
     (fail, s) \<leftarrow> expect_error lit (nl ''close fail'') fail (ece391_close NEG_FD s);
     verdict lit ''err_neg_fd'' fail s
   }"

definition err_big_fd :: "(string \<Rightarrow> int) \<Rightarrow> int \<Rightarrow> kernel \<Rightarrow> (int \<times> kernel) option" where
  "err_big_fd lit buf s = do {
     (fail, s) \<leftarrow> expect_error lit (nl ''read fail'') 0 (ece391_read [] BIG_FD buf 31 s);
     (fail, s) \<leftarrow> expect_error lit (nl ''write fail'') fail (ece391_write BIG_FD buf 31 s);
     (fail, s) \<leftarrow> expect_error lit (nl ''close fail'') fail (ece391_close BIG_FD s);
     verdict lit ''err_big_fd'' fail s
   }"

primrec open_lots :: "nat \<Rightarrow> (string \<Rightarrow> int) \<Rightarrow> int \<Rightarrow> kernel \<Rightarrow> (int \<times> kernel) option" where
  "open_lots 0 lit cnt s = Some (cnt, s)"
| "open_lots (Suc n) lit cnt s = do {
     (r, s) \<leftarrow> ece391_open (lit ''.'') s;
     open_lots n lit (if r = - 1 then cnt + 1 else cnt) s
   }"

primrec close_fds :: "int list \<Rightarrow> kernel \<Rightarrow> kernel option" where
  "close_fds [] s = Some s"
| "close_fds (i # is) s = do {
     (_, s) \<leftarrow> ece391_close i s;
     close_fds is s
   }"

definition err_open_lots :: "(string \<Rightarrow> int) \<Rightarrow> kernel \<Rightarrow> (int \<times> kernel) option" where
  "err_open_lots lit s = do {
     (cnt, s) \<leftarrow> open_lots 7 lit 0 s;
     s \<leftarrow> close_fds [2..7] s;
     if cnt = 1 then give_up lit (nl ''err_open_lots: PASS'') 0 s
     else give_up lit (nl ''err_open_lots: FAIL'') 2 s
   }"

definition err_open :: "(string \<Rightarrow> int) \<Rightarrow> kernel \<Rightarrow> (int \<times> kernel) option" where
  "err_open lit s = do {
     (fail, s) \<leftarrow> expect_error lit (nl ([CHR 0x27] @ ''helloo'' @ [CHR 0x27] @ '' fail'')) 0 (ece391_open (lit ''helloo'') s);
     (fail, s) \<leftarrow> expect_error lit (nl ([CHR 0x27] @ ''shel'' @ [CHR 0x27] @ '' fail'')) fail (ece391_open (lit ''shel'') s);
     (fail, s) \<leftarrow> expect_error lit (nl ''empty string fail'') fail (ece391_open (lit '''') s);
     verdict lit ''err_open'' fail s
   }"

text \<open>A loop over descriptors, each call expected to fail.\<close>

primrec expect_each ::
  "(string \<Rightarrow> int) \<Rightarrow> string \<Rightarrow> (int \<Rightarrow> kernel \<Rightarrow> (int \<times> kernel) option) \<Rightarrow> int list \<Rightarrow> int \<Rightarrow> kernel
    \<Rightarrow> (int \<times> kernel) option" where
  "expect_each lit msg call [] fail s = Some (fail, s)"
| "expect_each lit msg call (i # is) fail s = do {
     (fail, s) \<leftarrow> expect_error lit msg fail (call i s);
     expect_each lit msg call is fail s
   }"

definition err_unopened :: "(string \<Rightarrow> int) \<Rightarrow> int \<Rightarrow> kernel \<Rightarrow> (int \<times> kernel) option" where
  "err_unopened lit buf s = do {
     (fail, s) \<leftarrow> expect_each lit (nl ''close unopened or invalid fd fail'') ece391_close [0..7] 0 s;
     (fail, s) \<leftarrow> expect_each lit (nl ''read from unopened fd fail'') (\<lambda>i. ece391_read [] i buf 31) [2..7] fail s;
     (fail, s) \<leftarrow> expect_each lit (nl ''write to unopened fd fail'') (\<lambda>i. ece391_write i buf 31) [2..7] fail s;
     verdict lit ''err_unopened'' fail s
   }"

definition err_vidmap :: "(string \<Rightarrow> int) \<Rightarrow> kernel \<Rightarrow> (int \<times> kernel) option" where
  "err_vidmap lit s = do {
     (fail, s) \<leftarrow> expect_error lit (nl ''Null pointer fail'') 0 (ece391_vidmap 0 s);
     (fail, s) \<leftarrow> expect_error lit (nl ''Kernel pointer fail fail'') fail (ece391_vidmap 0x400000 s);
     verdict lit ''err_vidmap'' fail s
   }"

definition err_stdin_out :: "(string \<Rightarrow> int) \<Rightarrow> int \<Rightarrow> kernel \<Rightarrow> (int \<times> kernel) option" where
  "err_stdin_out lit buf s = do {
     (fail, s) \<leftarrow> expect_error lit (nl ''write to stdin fail'') 0 (ece391_write 0 buf 31 s);
     (fail, s) \<leftarrow> expect_error lit (nl ''read from stdout fail'') fail (ece391_read [] 1 buf 31 s);
     verdict lit ''err_stdin_out'' fail s
   }"

definition err_syscall_num :: "(string \<Rightarrow> int) \<Rightarrow> int \<times> int \<times> int \<Rightarrow> kernel \<Rightarrow> (int \<times> kernel) option" where
  "err_syscall_num lit regs s = do {
     (fail, s) \<leftarrow> expect_error lit (nl ''syscall 0 fail'') 0 (call_sys regs BIG_NUM s);
     (fail, s) \<leftarrow> expect_error lit (nl ''big num syscall fail'') fail (call_sys regs NEG_NUM s);
     (fail, s) \<leftarrow> expect_error lit (nl ''neg num syscall fail'') fail (call_sys regs 0 s);
     verdict lit ''err_syscall_num'' fail s
   }"

section \<open>The program\<close>

text \<open>The test of each number, in the order \<open>main\<close> runs them all.\<close>

definition self_tests ::
  "(string \<Rightarrow> int) \<Rightarrow> int \<Rightarrow> int \<times> int \<times> int \<Rightarrow> (kernel \<Rightarrow> (int \<times> kernel) option) list" where
  "self_tests lit buf regs =
     [err_neg_fd lit buf, err_big_fd lit buf, err_open_lots lit, err_open lit, err_unopened lit buf,
      err_vidmap lit, err_stdin_out lit buf, err_syscall_num lit regs]"

primrec run_tests :: "(kernel \<Rightarrow> (int \<times> kernel) option) list \<Rightarrow> int \<Rightarrow> kernel \<Rightarrow> (int \<times> kernel) option" where
  "run_tests [] fail s = Some (fail, s)"
| "run_tests (test # tests) fail s = do {
     (r, s) \<leftarrow> test s;
     run_tests tests (fail + r) s
   }"

definition run_all :: "(string \<Rightarrow> int) \<Rightarrow> int \<Rightarrow> int \<times> int \<times> int \<Rightarrow> kernel \<Rightarrow> (int \<times> kernel) option" where
  "run_all lit buf regs s = do {
     (fail, s) \<leftarrow> run_tests (self_tests lit buf regs) 0 s;
     if fail \<noteq> 0 then give_up lit (nl (nl [] @ ''Overall Tests: FAIL'')) fail s
     else give_up lit (nl (nl [] @ ''Overall Tests: PASS'')) fail s
   }"

definition syserr_main ::
  "(kernel \<Rightarrow> kernel) list \<Rightarrow> (string \<Rightarrow> int) \<Rightarrow> int \<Rightarrow> int \<Rightarrow> int \<times> int \<times> int \<Rightarrow> kernel \<Rightarrow> (int \<times> kernel) option" where
  "syserr_main irqs lit mbuf buf regs s = do {
     s \<leftarrow> ece391_fdputs 1 (lit ''Choose from tests 1-8. 0 to run all: '') s;
     (cnt, s) \<leftarrow> ece391_read irqs 0 mbuf 127 s;
     if cnt = - 1 then give_up lit (nl ''Can't read test #'') 2 s
     else do {
       c \<leftarrow> uload mbuf s;
       let sel = uint c - 48;
       if sel = 0 then run_all lit buf regs s
       else if 1 \<le> sel \<and> sel \<le> 8 then (self_tests lit buf regs ! nat (sel - 1)) s
       else give_up lit ''Invalid test number. Choose from tests 1-8 or 0'' 0 s
     }
   }"

end
