(* ===== verification/UserCalls.thy ===== *)
theory UserCalls
  imports UserLib
begin

text \<open>
  What the calls promise a program: printing and reading as effects on the abstract console, the
  program's buffer and its descriptors, everything else the program can see being unchanged.  The
  locale \<open>pump\<close> is the contract of a loop that reads chunk after chunk and prints each one.
\<close>

section \<open>What a program can see\<close>

definition user_buf :: "int \<Rightarrow> int \<Rightarrow> bool" where
  "user_buf a n \<longleftrightarrow> USER_VIRTUAL < a \<and> 0 \<le> n \<and> a + n \<le> USER_END"

text \<open>The addresses that keep their contents through console output: the program's own, and the
  kernel's above video memory, where the file system image lies.\<close>

definition kept_addr :: "int \<Rightarrow> bool" where
  "kept_addr x \<longleftrightarrow> VIDEO + 4000 \<le> x \<and> x < PHYS8MB \<or> USER_VIRTUAL \<le> x \<and> x < USER_END"

definition same_but :: "int \<Rightarrow> int \<Rightarrow> kernel \<Rightarrow> kernel \<Rightarrow> bool" where
  "same_but a n s t \<longleftrightarrow> bootBlock t = bootBlock s \<and> user_page t = user_page s \<and> curr_pcb t = curr_pcb s
     \<and> (\<forall>x. kept_addr x \<longrightarrow> x < a \<or> a + n \<le> x \<longrightarrow> peek t x = peek s x)"

text \<open>The process can print: the cursor is on the screen and descriptor 1 is the terminal.\<close>

definition can_print :: "kernel \<Rightarrow> bool" where
  "can_print s \<longleftrightarrow> cursor_ok s \<and> 2 \<le> user_page s \<and> flags (cur_fd s 1) \<noteq> 0
     \<and> fops (cur_fd s 1) = Some Stdout_fops"

definition printed :: "u8 list \<Rightarrow> acon \<Rightarrow> acon" where
  "printed bs = fold a_putc (concat (map shown_as bs))"

lemma printed_simps [simp]:
  "printed [] c = c" "printed (xs @ ys) c = printed ys (printed xs c)"
  by (simp_all add: printed_def)

lemma same_but_refl [simp]: "same_but a n s s"
  by (simp add: same_but_def)

lemma same_but_trans: "same_but a n s t \<Longrightarrow> same_but a n t u \<Longrightarrow> same_but a n s u"
  by (simp add: same_but_def)

lemma same_but_0: "same_but b 0 s t \<Longrightarrow> same_but a n s t"
  by (auto simp: same_but_def)

lemma same_but_peek: "same_but a n s t \<Longrightarrow> kept_addr x \<Longrightarrow> x < a \<or> a + n \<le> x \<Longrightarrow> peek t x = peek s x"
  unfolding same_but_def by blast

lemma same_but_region:
  assumes "same_but a n s t" and "user_buf p (int k)" and "p + int k \<le> a \<or> a + n \<le> p"
  shows "region (peek t) p k = region (peek s) p k"
  using assms by (intro region_cong same_but_peek [OF assms(1)]) (auto simp: user_buf_def kept_addr_def)

lemma user_buf_accepted: "user_buf a n \<Longrightarrow> \<not> buf_rejected a"
  by (simp add: user_buf_def buf_rejected_def)

section \<open>Printing\<close>

lemma puts_mem_same:
  assumes "cursor_ok s" and "2 \<le> user_page s" and "kept_addr x"
  shows "peek (puts_mem n p s) x = peek s x \<and> user_page (puts_mem n p s) = user_page s"
proof -
  have "cursor_ok t \<and> 2 \<le> user_page t \<Longrightarrow>
      peek (fold putc cs t) x = peek t x \<and> user_page (fold putc cs t) = user_page t" for cs t
  proof (induction cs arbitrary: t)
    case (Cons c cs)
    have "page_directory (putc c t) = page_directory t" by simp
    then have up: "user_page (putc c t) = user_page t" and v: "vaddr (putc c t) = vaddr t"
      by (simp_all add: user_page_def vaddr_def fun_eq_iff)
    have "VIDEO + 4000 \<le> vaddr t x" using assms(3) Cons.prems by (auto simp: kept_addr_def vaddr_def)
    then have "peek (putc c t) x = peek t x"
      unfolding peek_def v using putc_outside Cons.prems by blast
    then show ?case using Cons.IH [of "putc c t"] Cons.prems up cursor_ok_putc [of t c] by simp
  qed simp
  note fold = this
  show ?thesis
    using assms(1,2)
  proof (induction n arbitrary: p s)
    case (Suc n)
    then show ?case
      unfolding puts_mem_step
      using fold [of s "shown_as (peek s p)"] fold_putc_refines [of s "shown_as (peek s p)"] by simp
  qed simp
qed

lemma write_returns:
  assumes ok: "can_print s" and buf: "user_buf p n"
  shows "\<exists>t. ece391_write 1 p n s = Some (n, t) \<and> can_print t \<and> same_but 0 0 s t \<and> cur_fd t = cur_fd s
    \<and> cur_proc t = cur_proc s
    \<and> con_abs t = printed (region (peek s) p (nat n)) (con_abs s)"
proof -
  let ?u = "terminal_puts p n s" and ?t = "sti (snd (terminal_write 1 p n s))"
  have c: "cursor_ok s" "2 \<le> user_page s" using ok by (simp_all add: can_print_def)
  have fr: "console_frame s ?u" unfolding terminal_puts_def by (rule puts_mem_frame) simp
  note f = console_frame_fields [OF fr]
  have t: "peek ?t = peek ?u" "user_page ?t = user_page ?u" "bootBlock ?t = bootBlock s"
    "curr_pcb ?t = curr_pcb s" "cur_fd ?t = cur_fd s" "con_abs ?t = con_abs ?u" "cursor_ok ?t = cursor_ok ?u"
    "cur_proc ?t = cur_proc s"
    using f by (simp_all add: terminal_write_def Let_def sti_def con_abs_def cursor_ok_def cur_fd_def
        cur_proc_def peek_def vaddr_def user_page_def upd_term_def cur_term_def fun_eq_iff)
  have pk: "peek ?u x = peek s x \<and> user_page ?u = user_page s" if "kept_addr x" for x
    using puts_mem_same [OF c that] by (simp add: terminal_puts_def)
  have up: "user_page ?u = user_page s" using pk [of "USER_VIRTUAL"] by (simp add: kept_addr_def)
  have "ece391_write 1 p n s = Some (n, ?t)"
    using ok user_buf_accepted [OF buf]
    by (cases "terminal_write 1 p n s") (auto simp: ece391_write_def sys_call_def returned_def lift_call_def
        sysWrite_def fd_invalid_def can_print_def fops_write_def dest: arg_cong [of _ _ fst] simp: terminal_write_def Let_def)
  moreover have "can_print ?t"
    using ok up t(2,5,7) cursor_ok_puts_mem [OF c(1)] by (simp add: can_print_def terminal_puts_def)
  moreover have "same_but 0 0 s ?t"
    using t pk up by (simp add: same_but_def)
  moreover have "con_abs ?t = printed (region (peek s) p (nat n)) (con_abs s)"
    unfolding t(6) terminal_puts_def printed_def
    using buf by (intro puts_mem_refines [OF c]) (simp add: user_buf_def user_range_def)
  ultimately show ?thesis using t(5,8) by blast
qed

text \<open>A string the program holds in its memory.\<close>

definition holds :: "kernel \<Rightarrow> int \<Rightarrow> string \<Rightarrow> bool" where
  "holds s p msg \<longleftrightarrow> user_buf p (int (length msg) + 1) \<and> 0 \<notin> set (str msg)
     \<and> region (peek s) p (length msg + 1) = cstr msg"

lemma length_str [simp]: "length (str cs) = length cs"
  by (simp add: str_def)

lemma region_append: "region m a (n + k) = region m a n @ region m (a + int n) k"
  by (induction n arbitrary: a) (simp_all add: region_Suc region_def [of _ _ 0] add.assoc)

lemma strlen_at:
  "user_buf p (int (length bs) + 1) \<Longrightarrow> 0 \<notin> set bs \<Longrightarrow> region (peek s) p (length bs + 1) = bs @ [0] \<Longrightarrow>
   ece391_strlen p s = Some (int (length bs))"
proof (induction bs arbitrary: p)
  case Nil
  then show ?case
    by (subst ece391_strlen.simps) (simp add: user_buf_def user_addr_def region_def)
next
  case (Cons b bs)
  have "region (peek s) p (Suc (length bs + 1)) = b # bs @ [0]" using Cons.prems(3) by simp
  then have "peek s p = b" "region (peek s) (p + 1) (length bs + 1) = bs @ [0]"
    unfolding region_Suc by simp_all
  then show ?case
    using Cons by (subst ece391_strlen.simps) (auto simp: user_buf_def user_addr_def)
qed

lemma fdputs_returns:
  assumes ok: "can_print s" and lit: "holds s p msg"
  shows "\<exists>t. ece391_fdputs 1 p s = Some t \<and> can_print t \<and> same_but 0 0 s t \<and> cur_fd t = cur_fd s
    \<and> cur_proc t = cur_proc s \<and> con_abs t = printed (str msg) (con_abs s)"
proof -
  have len: "ece391_strlen p s = Some (int (length msg))"
    using strlen_at [of p "str msg" s] lit by (simp add: holds_def cstr_def)
  have buf: "user_buf p (int (length msg))" using lit by (simp add: holds_def user_buf_def)
  have "region (peek s) p (length msg) = str msg"
    using lit region_append [of "peek s" p "length msg" 1] by (simp add: holds_def cstr_def)
  with write_returns [OF ok buf] show ?thesis by (auto simp: ece391_fdputs_def len)
qed

lemma holds_same: "same_but a n s t \<Longrightarrow> holds s p msg \<Longrightarrow> p + int (length msg) + 1 \<le> a \<or> a + n \<le> p \<Longrightarrow> holds t p msg"
  using same_but_region [of a n s t p "length msg + 1"] by (simp add: holds_def algebra_simps)

section \<open>Loops that print what they read\<close>

locale pump =
  fixes rd :: "kernel \<Rightarrow> (int \<times> kernel) option"
    and out :: "int \<Rightarrow> kernel \<Rightarrow> (int \<times> kernel) option"
    and failed :: "kernel \<Rightarrow> (int \<times> kernel) option"
    and loop :: "kernel \<Rightarrow> (int \<times> kernel) option"
    and at :: "nat \<Rightarrow> kernel \<Rightarrow> bool"
    and chunk :: "nat \<Rightarrow> u8 list"
    and n :: nat
  assumes turn: "loop s = Option.bind (rd s) (\<lambda>(cnt, s).
        if cnt = 0 then Some (0, s)
        else if cnt = - 1 then failed s
        else Option.bind (out cnt s) (\<lambda>(r, s). if r = - 1 then Some (3, s) else loop s))"
    and delivers: "at k s \<Longrightarrow> k < n \<Longrightarrow> \<exists>cnt t r u. rd s = Some (cnt, t) \<and> cnt \<noteq> 0 \<and> cnt \<noteq> - 1
        \<and> out cnt t = Some (r, u) \<and> r \<noteq> - 1 \<and> at (k + 1) u \<and> con_abs u = printed (chunk k) (con_abs s)"
    and ends: "at n s \<Longrightarrow> \<exists>t. rd s = Some (0, t) \<and> con_abs t = con_abs s"
begin

lemma prints_rest:
  "at k s \<Longrightarrow> k \<le> n \<Longrightarrow>
   \<exists>t. loop s = Some (0, t) \<and> con_abs t = printed (concat (map chunk [k..<n])) (con_abs s)"
proof (induction "n - k" arbitrary: k s)
  case 0
  then show ?case using ends [of s] turn [of s] by auto
next
  case (Suc d)
  then have k: "k < n" by simp
  from delivers [OF Suc.prems(1) k] obtain cnt t r u where
    s: "rd s = Some (cnt, t)" "cnt \<noteq> 0" "cnt \<noteq> - 1" "out cnt t = Some (r, u)" "r \<noteq> - 1" and
    u: "at (k + 1) u" "con_abs u = printed (chunk k) (con_abs s)" by blast
  from Suc.hyps(1) [of "k + 1" u] Suc.hyps(2) u(1) k obtain v where
    "loop u = Some (0, v)" "con_abs v = printed (concat (map chunk [k + 1..<n])) (con_abs u)"
    using Suc.hyps(2) by fastforce
  then show ?case using s u(2) turn [of s] by (simp add: upt_conv_Cons [OF k])
qed

lemma prints_all:
  "at 0 s \<Longrightarrow> \<exists>t. loop s = Some (0, t) \<and> con_abs t = printed (concat (map chunk [0..<n])) (con_abs s)"
  using prints_rest [of 0 s] by simp

end

end
