(* ===== verification/FileProgs.thy ===== *)
theory FileProgs
  imports UserCalls UserProgs
begin

text \<open>
  \<open>cat\<close> and \<open>ls\<close> on the file system: what their reads of 1024 and of 32 bytes deliver, and that the
  programs print all of it, to the end, and stop with status 0.
\<close>

section \<open>Writing into the program's buffer\<close>

lemma user_poke:
  assumes "2 \<le> user_page s" and "user_addr a"
  shows "con_abs (poke a b s) = con_abs s" and "cursor_ok (poke a b s) = cursor_ok s"
proof -
  have v: "PHYS8MB \<le> vaddr s a" using assms by (auto simp: vaddr_def user_addr_def)
  have "screen_rows (mem (poke a b s)) = screen_rows (mem s)"
    unfolding screen_rows_def poke_def
    by (intro map_cong refl) (use v in \<open>auto simp: fun_upd_def\<close>)
  then show "con_abs (poke a b s) = con_abs s" by (simp add: con_abs_def)
  show "cursor_ok (poke a b s) = cursor_ok s" by (simp add: cursor_ok_def)
qed

text \<open>A run of writes into the program's own memory.\<close>

definition user_write :: "int \<Rightarrow> int \<Rightarrow> kernel \<Rightarrow> kernel \<Rightarrow> bool" where
  "user_write a n s t \<longleftrightarrow> same_but a n s t \<and> con_abs t = con_abs s \<and> cursor_ok t = cursor_ok s
     \<and> cur_fd t = cur_fd s \<and> cur_proc t = cur_proc s"

lemma user_write_refl [simp]: "user_write a n s s"
  by (simp add: user_write_def)

lemma user_write_trans: "user_write a n s t \<Longrightarrow> user_write a n t u \<Longrightarrow> user_write a n s u"
  by (auto simp: user_write_def intro: same_but_trans)

lemma user_write_poke:
  assumes "2 \<le> user_page s" and "user_addr p" and "a \<le> p" and "p < a + n"
  shows "user_write a n s (poke p b s)"
proof -
  have ok: "addr_ok p" using assms(2) by (simp add: user_addr_def addr_ok_def)
  have "peek (poke p b s) x = peek s x" if "kept_addr x" "x < a \<or> a + n \<le> x" for x
    using peek_poke [OF assms(1) ok, of x b] that assms(3,4) by (auto simp: kept_addr_def addr_ok_def)
  then show ?thesis
    using user_poke [OF assms(1,2)] by (simp add: user_write_def same_but_def cur_proc_def)
qed

lemma user_write_page: "user_write a n s t \<Longrightarrow> user_page t = user_page s"
  by (simp add: user_write_def same_but_def)

lemma user_write_copy:
  assumes "2 \<le> user_page s" and "user_buf a n" and "a \<le> dst" and "dst + int k \<le> a + n"
  shows "user_write a n s (copy_virt k dst src s)"
  using assms
proof (induction k arbitrary: dst src s)
  case (Suc k)
  have "user_write a n s (poke dst (peek s src) s)"
    using Suc.prems by (intro user_write_poke) (auto simp: user_buf_def user_addr_def)
  moreover have "user_write a n (poke dst (peek s src) s) (copy_virt k (dst + 1) (src + 1) (poke dst (peek s src) s))"
    using Suc.prems by (intro Suc.IH) simp_all
  ultimately show ?case by (auto intro: user_write_trans)
qed simp

lemma user_write_poke_list:
  assumes "2 \<le> user_page s" and "user_buf a n" and "a \<le> dst" and "dst + int (length bs) \<le> a + n"
  shows "user_write a n s (poke_list dst bs s)"
  using assms
proof (induction bs arbitrary: dst s)
  case (Cons b bs)
  have "user_write a n s (poke dst b s)"
    using Cons.prems by (intro user_write_poke) (auto simp: user_buf_def user_addr_def)
  moreover have "user_write a n (poke dst b s) (poke_list (dst + 1) bs (poke dst b s))"
    using Cons.prems by (intro Cons.IH) simp_all
  ultimately show ?case by (auto intro: user_write_trans)
qed simp

lemma peek_poke_list:
  assumes "2 \<le> user_page s" and "user_buf a (int (length bs))"
  shows "region (peek (poke_list a bs s)) a (length bs) = bs"
  using assms
proof (induction bs arbitrary: a s)
  case (Cons b bs)
  let ?t = "poke_list (a + 1) bs (poke a b s)"
  have u: "user_buf (a + 1) (int (length bs))" "user_addr a" "addr_ok a" "kept_addr a"
    using Cons.prems(2) by (auto simp: user_buf_def user_addr_def addr_ok_def kept_addr_def)
  have "user_write (a + 1) (int (length bs)) (poke a b s) ?t"
    using Cons.prems(1) u(1) by (intro user_write_poke_list) simp_all
  then have "peek ?t a = peek (poke a b s) a"
    using u(4) by (auto simp: user_write_def intro: same_but_peek)
  then show ?case
    using Cons.IH [of "poke a b s" "a + 1"] Cons.prems(1) u peek_poke [OF Cons.prems(1) u(3,3)]
    by (simp add: region_Suc)
qed (simp add: region_def)

lemma can_print_write: "user_write a n s t \<Longrightarrow> can_print s \<Longrightarrow> can_print t"
  by (simp add: user_write_def can_print_def same_but_def)

section \<open>Reads of a kilobyte\<close>

text \<open>What a program gets as byte \<open>i\<close> of a file that it reads kilobyte by kilobyte: the block of each
  kilobyte is looked up anew.\<close>

definition read_at :: "int \<Rightarrow> int \<Rightarrow> kernel \<Rightarrow> u8" where
  "read_at ino i s = peek s (data_ptr ino (1024 * (i div 1024)) s + i mod 1024)"

definition fs_in_page :: "kernel \<Rightarrow> bool" where
  "fs_in_page s \<longleftrightarrow> VIDEO + 4000 \<le> addr (bootBlock s) \<and> 0 \<le> inode_count (bootBlock s)
     \<and> blocks_base s + 256 * 4096 \<le> PHYS8MB"

definition inode_ok :: "int \<Rightarrow> kernel \<Rightarrow> bool" where
  "inode_ok ino s \<longleftrightarrow> 0 \<le> ino \<and> ino < inode_count (bootBlock s) \<and> file_len ino s \<le> 1023 * 4096"

definition at_pos :: "int \<Rightarrow> int \<Rightarrow> int \<Rightarrow> kernel \<Rightarrow> bool" where
  "at_pos fd ino p s \<longleftrightarrow> (let f = cur_fd s fd in inode f = ino \<and> flags f \<noteq> 0 \<and> fops f = Some File_fops
     \<and> 0 \<le> db_num f \<and> 0 \<le> byte_num f \<and> byte_num f \<le> 4096 \<and> 4096 * db_num f + byte_num f = p)"

lemma data_ptr_range:
  assumes "fs_in_page s" and "inode_ok ino s" and "0 \<le> p" and "p \<le> 1023 * 4096"
  shows "VIDEO + 4000 \<le> data_ptr ino p s - p mod 4096"
    and "data_ptr ino p s - p mod 4096 + 4096 \<le> PHYS8MB"
    and "VIDEO + 4000 \<le> inode_ptr ino s" and "inode_ptr ino s + 4096 \<le> blocks_base s"
proof -
  let ?b = "uint (peek s (inode_ptr ino s + 4 + p div 1024))"
  have b: "0 \<le> ?b" "?b < 256" by simp_all
  have d: "data_ptr ino p s - p mod 4096 = blocks_base s + ?b * 4096"
    by (simp add: data_ptr_def blocks_base_def)
  have "VIDEO + 4000 \<le> blocks_base s" using assms(1) by (simp add: fs_in_page_def blocks_base_def)
  then show "VIDEO + 4000 \<le> data_ptr ino p s - p mod 4096" unfolding d using b by linarith
  show "data_ptr ino p s - p mod 4096 + 4096 \<le> PHYS8MB"
    unfolding d using b assms(1) unfolding fs_in_page_def by linarith
  show "VIDEO + 4000 \<le> inode_ptr ino s" "inode_ptr ino s + 4096 \<le> blocks_base s"
    using assms(1,2) by (simp_all add: fs_in_page_def inode_ok_def inode_ptr_def blocks_base_def)
qed

lemma read_file_kilobyte:
  assumes pos: "at_pos fd ino p s" and p: "p mod 1024 = 0" "p \<le> file_len ino s" and len: "file_len ino s \<le> 1023 * 4096"
  shows "\<exists>f. read_file fd buf 1024 s = Some (min 1024 (file_len ino s - p),
      copy_virt (nat (min 1024 (file_len ino s - p))) buf (data_ptr ino p s) (upd_fd fd f s))
    \<and> at_pos fd ino (p + min 1024 (file_len ino s - p)) (upd_fd fd f s)"
proof -
  let ?len = "file_len ino s" and ?m = "min 1024 (file_len ino s - p)"
  have last: "\<exists>f. read_file fd buf 1024 u = Some (?m, copy_virt (nat ?m) buf (data_ptr ino p s) (upd_fd fd f s))
      \<and> at_pos fd ino (p + ?m) (upd_fd fd f s)"
    if u: "u = upd_fd fd g s" "at_pos fd ino p u" "byte_num (cur_fd u fd) + 1024 \<le> 4096" for u g
  proof -
    let ?h = "\<lambda>f. f\<lparr>byte_num := byte_num f + ?m\<rparr>"
    have b: "inode (cur_fd u fd) = ino" "0 \<le> byte_num (cur_fd u fd)" "0 \<le> db_num (cur_fd u fd)"
      "4096 * db_num (cur_fd u fd) + byte_num (cur_fd u fd) = p" "db_num (cur_fd u fd) * 4096 + byte_num (cur_fd u fd) = p"
      using u(2) by (simp_all add: at_pos_def Let_def mult.commute)
    then have p0: "0 \<le> p" by linarith
    have fl: "file_len ino u = ?len" "data_ptr ino p u = data_ptr ino p s" by (simp_all add: u(1))
    have "read_file fd buf 1024 u = Some (?m, copy_virt (nat ?m) buf (data_ptr ino p s) (upd_fd fd ?h u))"
    proof (cases "?len < p + 1024")
      case True
      then have "?m = ?len - p" by simp
      then show ?thesis
        using True b(1-3) p0 p len u(3) by (subst read_file.simps) (simp add: Let_def read_data_def fl b(5))
    next
      case False
      then have "?m = 1024" by simp
      then show ?thesis
        using False b(1-3) p0 p len u(3) by (subst read_file.simps) (simp add: Let_def read_data_def fl b(5))
    qed
    moreover have "upd_fd fd ?h u = upd_fd fd (\<lambda>x. ?h (g x)) s" unfolding u(1) by (simp add: upd_fd_upd_fd)
    moreover have "at_pos fd ino (p + ?m) (upd_fd fd ?h u)"
      using u(2,3) p by (auto simp: at_pos_def Let_def)
    ultimately show ?thesis by (intro exI [of _ "\<lambda>x. ?h (g x)"]) simp
  qed
  show ?thesis
  proof (cases "byte_num (cur_fd s fd) = 4096")
    case False
    have "b + 1024 \<le> 4096" if "(4096 * d + b) mod 1024 = 0" "b \<le> 4096" "b \<noteq> 4096" for d b :: int
    proof -
      have "1024 dvd 4096 * d + b" using that(1) by (simp add: dvd_eq_mod_eq_0)
      moreover have "(1024 :: int) dvd 4096 * d" by (simp add: dvd_mult2)
      ultimately have "1024 dvd b" by (simp add: dvd_add_right_iff)
      then obtain c where "b = 1024 * c" by blast
      with that(2,3) show ?thesis by simp
    qed
    note gap = this
    have le: "byte_num (cur_fd s fd) + 1024 \<le> 4096"
    proof (rule gap)
      show "(4096 * db_num (cur_fd s fd) + byte_num (cur_fd s fd)) mod 1024 = 0"
        using pos p(1) by (simp only: at_pos_def Let_def)
    qed (use pos False in \<open>simp_all add: at_pos_def Let_def\<close>)
    have "s = upd_fd fd (\<lambda>f. f) s" by (simp add: upd_fd_def upd_pcb_def)
    from last [OF this pos le] show ?thesis .
  next
    case True
    let ?g = "\<lambda>f. f\<lparr>byte_num := 0, db_num := db_num f + 1\<rparr>"
    let ?u = "upd_fd fd ?g s"
    have "db_num (cur_fd s fd) * 4096 + 4096 = p" "0 \<le> p" using pos True by (simp_all add: at_pos_def Let_def mult.commute)
    then have e: "read_file fd buf 1024 s = read_file fd buf 1024 ?u"
      using pos True p len
      by (subst read_file.simps) (simp add: at_pos_def Let_def read_data_def upd_fd_upd_fd)
    have q: "at_pos fd ino p ?u" using pos True by (auto simp: at_pos_def Let_def)
    have "byte_num (cur_fd ?u fd) + 1024 \<le> 4096" by simp
    from last [OF refl q this] show ?thesis unfolding e .
  qed
qed

text \<open>The file system image is the same for the program throughout.\<close>

lemma same_but_image:
  assumes same: "same_but a n s t" and a: "USER_VIRTUAL \<le> a \<or> n = 0" and fs: "fs_in_page s" and ino: "inode_ok ino s"
  shows "file_len ino t = file_len ino s" "fs_in_page t" "inode_ok ino t"
    and "\<And>p. 0 \<le> p \<Longrightarrow> p \<le> 1023 * 4096 \<Longrightarrow> data_ptr ino p t = data_ptr ino p s"
    and "\<And>i. 0 \<le> i \<Longrightarrow> i < 1023 * 4096 \<Longrightarrow> read_at ino i t = read_at ino i s"
proof -
  note r = data_ptr_range [OF fs ino]
  have bb: "blocks_base s + 256 * 4096 \<le> PHYS8MB" using fs by (simp add: fs_in_page_def)
  have pk: "peek t x = peek s x" if "VIDEO + 4000 \<le> x" "x < PHYS8MB" for x
  proof (rule same_but_peek [OF same])
    show "x < a \<or> a + n \<le> x" using that a by linarith
  qed (use that in \<open>simp add: kept_addr_def\<close>)
  have b: "bootBlock t = bootBlock s" using same by (simp add: same_but_def)
  have ip: "inode_ptr ino t = inode_ptr ino s" "blocks_base t = blocks_base s"
    by (simp_all add: inode_ptr_def blocks_base_def b)
  have i0: "VIDEO + 4000 \<le> inode_ptr ino s" "inode_ptr ino s + 4096 \<le> blocks_base s"
    using r(3,4) [of 0] by simp_all
  show len: "file_len ino t = file_len ino s"
    unfolding file_len_def ip using i0 bb by (intro le32_cong pk) linarith+
  show "fs_in_page t" using fs b ip by (simp add: fs_in_page_def)
  show "inode_ok ino t" using ino b len by (simp add: inode_ok_def)
  show dp: "data_ptr ino p t = data_ptr ino p s" if "0 \<le> p" "p \<le> 1023 * 4096" for p
  proof -
    have "0 \<le> p div 1024" "p div 1024 \<le> 4092" using that by auto
    then have "peek t (inode_ptr ino s + 4 + p div 1024) = peek s (inode_ptr ino s + 4 + p div 1024)"
      using i0 bb by (intro pk) linarith+
    then show ?thesis by (simp add: data_ptr_def b ip)
  qed
  show "read_at ino i t = read_at ino i s" if "0 \<le> i" "i < 1023 * 4096" for i
  proof -
    let ?p = "1024 * (i div 1024)"
    have p: "0 \<le> ?p" "?p \<le> i" using that by auto
    have "i mod 1024 < 1024" "0 \<le> i mod 1024" "?p mod 4096 \<le> 3072" "0 \<le> ?p mod 4096"
      using mult_mod_right [of 1024 "i div 1024" 4] by simp_all
    then show ?thesis
      unfolding read_at_def dp [OF p(1) order.trans [OF p(2)], OF less_imp_le [OF that(2)]]
      using r(1,2) [of ?p] p that(2) by (intro pk) linarith+
  qed
qed

lemma data_ptr_range_kilobyte:
  assumes "fs_in_page s" and "inode_ok ino s" and "0 \<le> p" and "p \<le> 1023 * 4096" and "p mod 1024 = 0" and "n \<le> 1024"
  shows "kernel_range (data_ptr ino p s) n"
proof -
  have "p mod 4096 mod 1024 = 0" using assms(5) mod_mod_cancel [of 1024 4096 p] by simp
  then obtain c where c: "p mod 4096 = 1024 * c" by auto
  have "p mod 4096 < 4096" by simp
  then have "c < 4" using c by linarith
  then have "p mod 4096 \<le> 3072" "0 \<le> p mod 4096" using c by simp_all
  then show ?thesis
    using data_ptr_range(1,2) [OF assms(1-4)] assms(6) unfolding kernel_range_def by linarith
qed

text \<open>At the end of a file whose length is not a multiple of 1024: nothing is delivered, though the
  code may copy the rest of the block first.\<close>

lemma read_file_at_end:
  assumes pos: "at_pos fd ino (file_len ino s) s" and odd: "file_len ino s mod 1024 \<noteq> 0"
    and fs: "fs_in_page s" and ino: "inode_ok ino s" and buf: "user_buf buf 1024" and up: "2 \<le> user_page s"
  shows "\<exists>k f. read_file fd buf 1024 s
      = Some (0, upd_fd fd f (copy_virt k buf (data_ptr ino (file_len ino s) s) s)) \<and> k \<le> 1024"
proof -
  let ?len = "file_len ino s" and ?f = "cur_fd s fd"
  have len: "?len \<le> 1023 * 4096" using ino by (simp add: inode_ok_def)
  have f: "inode ?f = ino" "0 \<le> db_num ?f" "0 \<le> byte_num ?f" "byte_num ?f \<le> 4096"
    "4096 * db_num ?f + byte_num ?f = ?len" "db_num ?f * 4096 + byte_num ?f = ?len"
    using pos by (simp_all add: at_pos_def Let_def mult.commute)
  then have l0: "0 \<le> ?len" by linarith
  have "byte_num ?f \<noteq> 4096"
  proof
    assume "byte_num ?f = 4096"
    then have "?len = 1024 * (4 * db_num ?f + 4)" using f(5) by simp
    with odd show False by (metis mod_mult_self1_is_0)
  qed
  with f(4) have b: "byte_num ?f < 4096" by simp
  show ?thesis
  proof (cases "4096 < byte_num ?f + 1024")
    case False
    have "copy_virt 0 buf p u = u" for p u by simp
    then have "read_file fd buf 1024 s = Some (0, upd_fd fd (\<lambda>f. f\<lparr>byte_num := byte_num f + 0\<rparr>) s)"
      using f(1-4) False l0 len by (subst read_file.simps) (simp add: Let_def read_data_def f(6))
    then show ?thesis by (intro exI [of _ 0] exI) auto
  next
    case True
    let ?k = "nat (4096 - byte_num ?f)" and ?g = "\<lambda>f. f\<lparr>byte_num := 0, db_num := db_num f + 1\<rparr>"
    let ?c = "copy_virt ?k buf (data_ptr ino ?len s) s"
    have "user_write buf 1024 s ?c"
      using True buf by (intro user_write_copy [OF up]) (simp_all add: user_buf_def)
    then have same: "file_len ino ?c = ?len"
      using same_but_image(1) [OF _ _ fs ino, of buf 1024 ?c] buf by (simp add: user_write_def user_buf_def)
    have "read_file fd buf 1024 s = read_file fd (buf + (4096 - byte_num ?f)) (s32 (1024 - (4096 - byte_num ?f))) (upd_fd fd ?g ?c)"
      using f(1-4) True b l0 len
      by (subst read_file.simps) (simp add: Let_def read_data_def f(6) upd_fd_upd_fd)
    also have "\<dots> = Some (0, upd_fd fd ?g ?c)"
      using f(1-3) b len f(5) by (subst read_file.simps) (simp add: Let_def same)
    finally show ?thesis
      using True by (intro exI [of _ ?k] exI [of _ ?g]) simp
  qed
qed

section \<open>The reading loop of cat\<close>

lemma upd_fd_view:
  "same_but a n s (upd_fd fd f s)" "con_abs (upd_fd fd f s) = con_abs s" "cursor_ok (upd_fd fd f s) = cursor_ok s"
  "fd \<noteq> 1 \<Longrightarrow> can_print (upd_fd fd f s) = can_print s"
proof -
  show "con_abs (upd_fd fd f s) = con_abs s" and c: "cursor_ok (upd_fd fd f s) = cursor_ok s"
    by (simp_all add: con_abs_def cursor_ok_def upd_fd_def upd_pcb_def cur_term_def)
  show "same_but a n s (upd_fd fd f s)" by (simp add: same_but_def)
  show "fd \<noteq> 1 \<Longrightarrow> can_print (upd_fd fd f s) = can_print s" by (simp add: can_print_def c)
qed

lemma sti_view:
  "same_but a n s (sti s)" "con_abs (sti s) = con_abs s" "can_print (sti s) = can_print s"
  "cur_fd (sti s) = cur_fd s" "peek (sti s) = peek s" "user_page (sti s) = user_page s"
  "cur_proc (sti s) = cur_proc s"
proof -
  show c: "con_abs (sti s) = con_abs s" "cur_fd (sti s) = cur_fd s" "peek (sti s) = peek s" "user_page (sti s) = user_page s"
    "cur_proc (sti s) = cur_proc s"
    by (simp_all add: sti_def con_abs_def cur_term_def cur_fd_def cur_proc_def peek_def vaddr_def user_page_def fun_eq_iff)
  show "same_but a n s (sti s)" using c by (simp add: same_but_def) (simp add: sti_def)
  show "can_print (sti s) = can_print s"
    using c by (simp add: can_print_def) (simp add: sti_def cursor_ok_def cur_term_def)
qed

text \<open>What a read into the program's buffer leaves.\<close>

lemma read_view:
  assumes up: "2 \<le> user_page s" and buf: "user_buf a n" and k: "int k \<le> n" and fd: "fd \<noteq> 1" and pr: "can_print s"
    and u: "u = sti (copy_virt k a p (upd_fd fd f s))"
  shows "same_but a n s u" "con_abs u = con_abs s" "can_print u" "cur_fd u = cur_fd (upd_fd fd f s)"
    "peek u = peek (copy_virt k a p s)"
proof -
  let ?v = "upd_fd fd f s"
  have w: "user_write a n ?v (copy_virt k a p ?v)"
    using up buf k by (intro user_write_copy) simp_all
  then show "same_but a n s u"
    unfolding u
    by (intro same_but_trans [OF upd_fd_view(1) [of a n s fd f] same_but_trans [OF _ sti_view(1)]])
      (simp add: user_write_def)
  show "con_abs u = con_abs s" using w by (simp add: u sti_view upd_fd_view user_write_def)
  show "can_print u" using can_print_write [OF w] pr fd by (simp add: u sti_view upd_fd_view)
  show "cur_fd u = cur_fd ?v" by (simp add: u sti_view fun_eq_iff)
  show "peek u = peek (copy_virt k a p s)" by (simp add: u sti_view peek_copy_upd)
qed

lemma copy_upd_fd: "copy_virt k a p (upd_fd fd f s) = upd_fd fd f (copy_virt k a p s)"
proof (induction k arbitrary: a p s)
  case (Suc k)
  have "poke a v (upd_fd fd f s) = upd_fd fd f (poke a v s)" for v
    by (simp add: poke_def upd_fd_def upd_pcb_def vaddr_def user_page_def)
  then show ?case by (simp add: Suc.IH)
qed simp

lemma read_call:
  assumes "0 \<le> fd" and "fd < 8" and "at_pos fd ino p s" and "user_buf buf 1024"
  shows "ece391_read irqs fd buf n s = map_option (\<lambda>(v, t). (v, sti t)) (read_file fd buf n s)"
  using assms user_buf_accepted [OF assms(4)]
  by (auto simp: ece391_read_def sys_call_def returned_def lift_call_def sysRead_def fd_invalid_def at_pos_def
      Let_def fops_read_def split: option.splits)

definition cat_at :: "int \<Rightarrow> int \<Rightarrow> int \<Rightarrow> kernel \<Rightarrow> nat \<Rightarrow> kernel \<Rightarrow> bool" where
  "cat_at fd buf ino s0 k s \<longleftrightarrow> fs_in_page s0 \<and> inode_ok ino s0 \<and> user_buf buf 1024 \<and> 0 \<le> fd \<and> fd < 8
     \<and> can_print s \<and> same_but buf 1024 s0 s \<and> at_pos fd ino (min (1024 * int k) (file_len ino s0)) s"

definition cat_count :: "int \<Rightarrow> kernel \<Rightarrow> nat" where
  "cat_count ino s = nat ((file_len ino s + 1023) div 1024)"

definition cat_chunk :: "int \<Rightarrow> kernel \<Rightarrow> nat \<Rightarrow> u8 list" where
  "cat_chunk ino s k = map (\<lambda>i. read_at ino (1024 * int k + int i) s)
     [0..<nat (min 1024 (file_len ino s - 1024 * int k))]"

lemma file_len_nonneg: "0 \<le> file_len ino s"
  by (simp add: file_len_def le32_nonneg)

lemma cat_atD:
  assumes "cat_at fd buf ino s0 k s"
  shows "file_len ino s = file_len ino s0" "fs_in_page s" "inode_ok ino s" "2 \<le> user_page s" "fd \<noteq> 1"
    "\<And>i. 0 \<le> i \<Longrightarrow> i < 1023 * 4096 \<Longrightarrow> read_at ino i s = read_at ino i s0"
proof -
  have a: "same_but buf 1024 s0 s" "USER_VIRTUAL \<le> buf \<or> 1024 = (0 :: int)" "fs_in_page s0" "inode_ok ino s0"
    using assms by (simp_all add: cat_at_def user_buf_def)
  from same_but_image [OF a] show "file_len ino s = file_len ino s0" "fs_in_page s" "inode_ok ino s"
    "\<And>i. 0 \<le> i \<Longrightarrow> i < 1023 * 4096 \<Longrightarrow> read_at ino i s = read_at ino i s0" by simp_all
  show "2 \<le> user_page s" using assms by (simp add: cat_at_def can_print_def)
  show "fd \<noteq> 1" using assms by (auto simp: cat_at_def can_print_def at_pos_def Let_def)
qed

lemma cat_delivers:
  assumes at: "cat_at fd buf ino s0 k s" and k: "k < cat_count ino s0"
  shows "\<exists>cnt t r u. ece391_read irqs fd buf 1024 s = Some (cnt, t) \<and> cnt \<noteq> 0 \<and> cnt \<noteq> - 1
    \<and> ece391_write 1 buf cnt t = Some (r, u) \<and> r \<noteq> - 1 \<and> cat_at fd buf ino s0 (k + 1) u
    \<and> con_abs u = printed (cat_chunk ino s0 k) (con_abs s)"
proof -
  note d = cat_atD [OF at]
  let ?len = "file_len ino s0" and ?p = "1024 * int k"
  define m where "m = min 1024 (?len - ?p)"
  have c: "user_buf buf 1024" "0 \<le> fd" "fd < 8" "can_print s" "same_but buf 1024 s0 s" using at by (simp_all add: cat_at_def)
  have len: "?len \<le> 1023 * 4096" using d(1,3) by (simp add: inode_ok_def)
  have p: "?p < ?len" using k by (simp add: cat_count_def)
  then have pos: "at_pos fd ino ?p s" using at by (simp add: cat_at_def)
  from read_file_kilobyte [OF this, of buf] p len d(1) obtain f where
    rf: "read_file fd buf 1024 s = Some (m, copy_virt (nat m) buf (data_ptr ino ?p s) (upd_fd fd f s))"
    and pos': "at_pos fd ino (?p + m) (upd_fd fd f s)" by (auto simp: m_def)
  let ?t = "sti (copy_virt (nat m) buf (data_ptr ino ?p s) (upd_fd fd f s))"
  have m: "0 < m" "m \<le> 1024" "?p + m \<le> ?len" using p by (simp_all add: m_def)
  have "int (nat m) \<le> 1024" using m by simp
  note v = read_view [OF d(4) c(1) this d(5) c(4) refl, of "data_ptr ino ?p s" f]
  have rd: "ece391_read irqs fd buf 1024 s = Some (m, ?t)"
    unfolding read_call [OF c(2,3) pos c(1)] rf by simp
  have "user_buf buf m" using c(1) m by (simp add: user_buf_def)
  from write_returns [OF v(3) this] obtain u where
    wr: "ece391_write 1 buf m ?t = Some (m, u)" and u: "can_print u" "same_but 0 0 ?t u" "cur_fd u = cur_fd ?t"
      "con_abs u = printed (region (peek ?t) buf (nat m)) (con_abs ?t)" by blast
  have "region (peek ?t) buf (nat m) = cat_chunk ino s0 k"
  proof (rule nth_equalityI)
    fix i assume "i < length (region (peek ?t) buf (nat m))"
    then have i: "i < nat m" and im: "int i < m" by simp_all
    have "kernel_range (data_ptr ino ?p s) (int (nat m))"
      using m p len by (intro data_ptr_range_kilobyte [OF d(2,3)]) simp_all
    moreover have "user_range buf (int (nat m))" using c(1) m by (simp add: user_buf_def user_range_def)
    moreover have "addr_ok (buf + int i)" using c(1) im m by (simp add: user_buf_def addr_ok_def)
    ultimately have "peek ?t (buf + int i) = peek s (data_ptr ino ?p s + int i)"
      using i unfolding v(5) by (subst peek_copy_virt [OF d(4)]) auto
    also have "\<dots> = read_at ino (?p + int i) s"
      using i m by (simp add: read_at_def)
    also have "\<dots> = read_at ino (?p + int i) s0"
      using im m(3) len by (intro d(6)) simp_all
    finally show "region (peek ?t) buf (nat m) ! i = cat_chunk ino s0 k ! i"
      using i by (simp add: cat_chunk_def m_def)
  qed (simp add: cat_chunk_def m_def)
  moreover have "cat_at fd buf ino s0 (k + 1) u"
  proof -
    have "?p + m = min (1024 * int (k + 1)) ?len" by (simp add: m_def)
    then have "at_pos fd ino (min (1024 * int (k + 1)) ?len) u"
      using pos' v(4) u(3) by (simp add: at_pos_def)
    moreover have "same_but buf 1024 s0 u"
      by (rule same_but_trans [OF c(5) same_but_trans [OF v(1) same_but_0 [OF u(2)]]])
    ultimately show ?thesis using at u(1) by (simp add: cat_at_def)
  qed
  ultimately show ?thesis using rd wr m u(4) v(2) by (intro exI [of _ m] exI [of _ ?t] exI [of _ u]) simp
qed

lemma cat_ends:
  assumes at: "cat_at fd buf ino s0 (cat_count ino s0) s"
  shows "\<exists>t. ece391_read irqs fd buf 1024 s = Some (0, t) \<and> con_abs t = con_abs s"
proof -
  note d = cat_atD [OF at]
  let ?len = "file_len ino s0"
  have c: "user_buf buf 1024" "0 \<le> fd" "fd < 8" "can_print s" using at by (simp_all add: cat_at_def)
  have len: "?len \<le> 1023 * 4096" using d(1,3) by (simp add: inode_ok_def)
  have "?len \<le> 1024 * int (cat_count ino s0)" using file_len_nonneg [of ino s0] by (simp add: cat_count_def) linarith
  then have pos: "at_pos fd ino ?len s" using at by (simp add: cat_at_def min_def split: if_splits)
  obtain k f where rf: "read_file fd buf 1024 s = Some (0, copy_virt k buf (data_ptr ino ?len s) (upd_fd fd f s))"
    and k: "k \<le> 1024"
  proof (cases "?len mod 1024 = 0")
    case True
    from read_file_kilobyte [OF pos True, of buf] len d(1) that [of 0] show ?thesis by auto
  next
    case False
    from read_file_at_end [of fd ino s buf] pos False d(1-4) c(1) that show ?thesis
      by (auto simp: copy_upd_fd)
  qed
  have "int k \<le> 1024" using k by simp
  note v = read_view [OF d(4) c(1) this d(5) c(4) refl, of "data_ptr ino ?len s" f]
  show ?thesis unfolding read_call [OF c(2,3) pos c(1)] rf using v(2) by simp
qed

interpretation cat: pump "ece391_read irqs fd buf 1024" "ece391_write 1 buf"
  "give_up lit (nl ''file read failed'') 3" "cat_loop irqs lit buf fd" "cat_at fd buf ino s0" "cat_chunk ino s0"
  "cat_count ino s0" for irqs fd buf lit ino s0
proof (unfold_locales, goal_cases)
  case (1 s)
  show ?case by (subst cat_loop.simps) simp
next
  case (2 k s)
  then show ?case by (rule cat_delivers)
next
  case (3 s)
  then show ?case by (rule cat_ends)
qed

end
