(* ===== verification/FileRuns.thy ===== *)
theory FileRuns
  imports FileProgs
begin

text \<open>
  Whole runs of \<open>cat\<close> and \<open>ls\<close>, from the argument and the open to the last line: what they print
  in terms of the file system image.
\<close>

section \<open>Names and arguments\<close>

lemma text_of_str_at:
  assumes "user_buf p (int n)" and "0 \<in> set (region (peek s) p n)"
  shows "0 \<in> set (str_at p s) \<and> text_of (str_at p s) = text_of (region (peek s) p n)"
  using assms
proof (induction n arbitrary: p)
  case (Suc n)
  have p: "p < USER_END" using Suc.prems(1) by (simp add: user_buf_def)
  show ?case
  proof (cases "peek s p = 0")
    case True
    then show ?thesis using p by (subst (1 2) str_at.simps) (simp add: region_Suc text_of_Cons)
  next
    case False
    then have "0 \<in> set (region (peek s) (p + 1) n)" "user_buf (p + 1) (int n)"
      using Suc.prems by (auto simp: region_Suc user_buf_def)
    with Suc.IH False p show ?thesis
      by (subst (1 2) str_at.simps) (simp add: region_Suc text_of_Cons)
  qed
qed (simp add: region_def)

text \<open>The first directory entry with a name is a file with inode \<open>ino\<close>, or a directory.\<close>

definition entry_is :: "u8 list \<Rightarrow> nat \<Rightarrow> kernel \<Rightarrow> bool" where
  "entry_is name i s \<longleftrightarrow> i < 63 \<and> entry_name (int i) s = name \<and> (\<forall>j<i. entry_name (int j) s \<noteq> name)"

definition names_file :: "u8 list \<Rightarrow> int \<Rightarrow> kernel \<Rightarrow> bool" where
  "names_file name ino s \<longleftrightarrow> (\<exists>i. entry_is name i s \<and> d_ftype (read_dentry_by_index (int i) s) = 2
     \<and> d_inode (read_dentry_by_index (int i) s) = ino)"

definition names_dir :: "u8 list \<Rightarrow> kernel \<Rightarrow> bool" where
  "names_dir name s \<longleftrightarrow> (\<exists>i. entry_is name i s \<and> d_ftype (read_dentry_by_index (int i) s) = 1)"

lemma entry_lookup:
  assumes "entry_is (text_of fname) i s" and "0 \<in> set fname"
  shows "read_dentry_by_name fname s = Some (0, Some (read_dentry_by_index (int i) s))"
proof -
  have "length (text_of fname) \<le> 32" using assms(1) entry_name_length [of "int i" s] by (auto simp: entry_is_def)
  then have "find (\<lambda>i. entry_name (int i) s = take 122 (text_of fname)) [0..<63] = Some i"
    using assms(1) unfolding entry_is_def find_Some_iff by (intro exI [of _ i]) auto
  then show ?thesis using read_dentry_by_name_spec [OF assms(2), of s] by simp
qed

lemma dentries_same:
  assumes same: "same_but a n s t" and a: "USER_VIRTUAL \<le> a \<or> n = 0" and fs: "fs_in_page s" and i: "i < 63"
  shows "entry_name (int i) t = entry_name (int i) s"
    and "read_dentry_by_index (int i) t = read_dentry_by_index (int i) s"
proof -
  have b: "bootBlock t = bootBlock s" using same by (simp add: same_but_def)
  let ?e = "addr (bootBlock s) + 64 + 64 * int i"
  have r: "VIDEO + 4000 \<le> ?e" "?e + 64 \<le> PHYS8MB"
    using fs i by (simp_all add: fs_in_page_def blocks_base_def)
  have pk: "peek t x = peek s x" if "VIDEO + 4000 \<le> x" "x < PHYS8MB" for x
  proof (rule same_but_peek [OF same])
    show "x < a \<or> a + n \<le> x" using that a by linarith
  qed (use that in \<open>simp add: kept_addr_def\<close>)
  have "region (peek t) ?e 32 = region (peek s) ?e 32" using r by (intro region_cong pk) simp_all
  then show "entry_name (int i) t = entry_name (int i) s" by (simp add: entry_name_def b)
  show "read_dentry_by_index (int i) t = read_dentry_by_index (int i) s"
    using pk [of "?e + 32"] pk [of "?e + 36"] r by (simp add: read_dentry_by_index_def Let_def b)
qed

lemma entry_is_same:
  "same_but a n s t \<Longrightarrow> USER_VIRTUAL \<le> a \<or> n = 0 \<Longrightarrow> fs_in_page s \<Longrightarrow> entry_is name i t = entry_is name i s"
  using dentries_same(1) [of a n s t] by (auto simp: entry_is_def)

lemma open_named:
  assumes "entry_is (text_of (str_at p s)) i s" and "0 \<in> set (str_at p s)" and "text_of (str_at p s) \<noteq> []"
    and "0 \<le> free_fd s"
  shows "d_ftype (read_dentry_by_index (int i) s) = 2 \<Longrightarrow> ece391_open p s = Some (free_fd s,
      sti (upd_fd (free_fd s) (\<lambda>f. f\<lparr>fops := Some File_fops, inode := d_inode (read_dentry_by_index (int i) s),
        db_num := 0, byte_num := 0, flags := 1\<rparr>) s))"
    and "d_ftype (read_dentry_by_index (int i) s) = 1 \<Longrightarrow> ece391_open p s = Some (free_fd s,
      sti (upd_fd (free_fd s) (\<lambda>f. f\<lparr>fops := Some Dir_fops, db_num := 0, byte_num := 0, inode := 0, flags := 1\<rparr>) s))"
proof -
  obtain r where "strncmp (str_at p s) (cstr []) 1 = Some r" "r \<noteq> 0"
    using strncmp_empty [OF assms(2)] assms(3) by auto
  then show "d_ftype (read_dentry_by_index (int i) s) = 2 \<Longrightarrow> ece391_open p s = Some (free_fd s,
      sti (upd_fd (free_fd s) (\<lambda>f. f\<lparr>fops := Some File_fops, inode := d_inode (read_dentry_by_index (int i) s),
        db_num := 0, byte_num := 0, flags := 1\<rparr>) s))"
    and "d_ftype (read_dentry_by_index (int i) s) = 1 \<Longrightarrow> ece391_open p s = Some (free_fd s,
      sti (upd_fd (free_fd s) (\<lambda>f. f\<lparr>fops := Some Dir_fops, db_num := 0, byte_num := 0, inode := 0, flags := 1\<rparr>) s))"
    using entry_lookup [OF assms(1,2)] assms(4)
    by (simp_all add: ece391_open_def sys_call_def returned_def lift_call_def sysOpen_def Let_def fops_open_def
        open_file_def open_dir_def upd_fd_upd_fd)
qed

lemma free_fd_cong: "cur_fd t = cur_fd s \<Longrightarrow> free_fd t = free_fd s"
  by (simp add: free_fd_def)

lemma text_of_prefix: "0 \<in> set xs \<Longrightarrow> text_of (xs @ ys) = text_of xs"
  by (induction xs) (auto simp: text_of_Cons)

lemma user_write_sti: "user_write a n s (sti s)"
proof -
  have "cursor_ok (sti s) = cursor_ok s" by (simp add: sti_def cursor_ok_def cur_term_def)
  then show ?thesis by (simp add: user_write_def sti_view)
qed

text \<open>The argument of the program.\<close>

definition has_arg :: "kernel \<Rightarrow> u8 list \<Rightarrow> bool" where
  "has_arg s name \<longleftrightarrow> name \<noteq> [] \<and> text_of (p_arg (cur_proc s)) = name \<and> 0 \<in> set (p_arg (cur_proc s))
     \<and> length (p_arg (cur_proc s)) = 122 \<and> 0 \<le> curr_pcb s \<and> curr_pcb s < 6"

lemma getargs_returns:
  assumes arg: "has_arg s name" and buf: "user_buf buf 1024" and up: "2 \<le> user_page s"
  shows "\<exists>t. ece391_getargs buf 1024 s = Some (0, t) \<and> user_write buf 1024 s t
    \<and> 0 \<in> set (str_at buf t) \<and> text_of (str_at buf t) = name"
proof -
  let ?u = "poke_list buf (arg_bytes 1024 s) s" and ?a = "p_arg (cur_proc s)"
  have "length (take k own @ region m a (k - length own)) = k" for k own m a by simp
  then have len: "length (arg_bytes 1024 s) = 1024" unfolding arg_bytes_def Let_def .
  obtain more where ab: "arg_bytes 1024 s = ?a @ more"
    using arg by (auto simp: arg_bytes_def Let_def has_arg_def)
  have w: "user_write buf 1024 s ?u" using buf len by (intro user_write_poke_list [OF up]) simp_all
  have "strlen ?a = Some (length name)" using arg strlen_text [of ?a] by (auto simp: has_arg_def)
  moreover have "\<not> PHYS8MB < pcb_addr s + 164 + u32 1024" using arg by (simp add: pcb_addr_def has_arg_def)
  ultimately have ga: "ece391_getargs buf 1024 s = Some (0, sti ?u)"
    using arg by (simp add: ece391_getargs_def sys_call_def returned_def lift_call_def sysGetArgs_def Let_def has_arg_def)
  have "region (peek ?u) buf 1024 = ?a @ more"
    using peek_poke_list [OF up, of buf "arg_bytes 1024 s", unfolded len] buf ab by simp
  then have r: "region (peek (sti ?u)) buf 1024 = ?a @ more" by (simp add: sti_view)
  have w': "user_write buf 1024 s (sti ?u)"
    using w by (rule user_write_trans) (simp add: user_write_sti)
  have "text_of (?a @ more) = name"
    using arg text_of_prefix [of ?a more] by (simp add: has_arg_def)
  moreover have "0 \<in> set (?a @ more)" using arg by (simp add: has_arg_def)
  moreover have "user_buf buf (int 1024)" using buf by simp
  ultimately show ?thesis using ga w' text_of_str_at [of buf 1024 "sti ?u"] r by auto
qed

section \<open>cat\<close>

lemma concat_upt_Suc: "concat (map g [0..<Suc n]) = concat (map g [0..<n]) @ g n"
  by simp

lemma chunks_concat:
  "concat (map (\<lambda>k. map (\<lambda>i. f (1024 * int k + int i)) [0..<nat (min 1024 (len - 1024 * int k))]) [0..<n])
    = map (\<lambda>i. f (int i)) [0..<nat (min (1024 * int n) len)]"
proof (induction n)
  case (Suc n)
  show ?case
  proof (cases "1024 * int n < len")
    case True
    define m where "m = nat (min 1024 (len - 1024 * int n))"
    have e: "nat (min (1024 * int (Suc n)) len) = 1024 * n + m" "nat (min (1024 * int n) len) = 1024 * n"
      using True by (simp_all add: m_def)
    have m: "map (\<lambda>i. f (1024 * int n + int i)) [0..<m] = map (\<lambda>i. f (int i)) [1024 * n..<1024 * n + m]"
      by (rule nth_equalityI) simp_all
    have "[0..<1024 * n + m] = [0..<1024 * n] @ [1024 * n..<1024 * n + m]"
      by (rule upt_add_eq_append) simp
    then have "map (\<lambda>i. f (int i)) [0..<1024 * n + m]
        = map (\<lambda>i. f (int i)) [0..<1024 * n] @ map (\<lambda>i. f (1024 * int n + int i)) [0..<m]"
      unfolding m by (simp only: map_append)
    then show ?thesis unfolding concat_upt_Suc Suc.IH e m_def [symmetric] by (rule sym)
  next
    case False
    then have "nat (min (1024 * int (Suc n)) len) = nat (min (1024 * int n) len)" by simp
    with False Suc show ?thesis by simp
  qed
qed simp

definition read_bytes :: "int \<Rightarrow> kernel \<Rightarrow> u8 list" where
  "read_bytes ino s = map (\<lambda>i. read_at ino (int i) s) [0..<nat (file_len ino s)]"

lemma cat_chunks: "concat (map (cat_chunk ino s) [0..<cat_count ino s]) = read_bytes ino s"
proof -
  have "nat (min (1024 * int (cat_count ino s)) (file_len ino s)) = nat (file_len ino s)"
    using file_len_nonneg [of ino s] by (simp add: cat_count_def min_def) linarith
  then show ?thesis
    using chunks_concat [of "\<lambda>i. read_at ino i s" "file_len ino s" "cat_count ino s"]
    by (simp add: cat_chunk_def read_bytes_def cong: map_cong)
qed

lemma cat_runs:
  assumes pr: "can_print s" and fs: "fs_in_page s" "inode_ok ino s" and name: "names_file name ino s"
    and arg: "has_arg s name" and free: "0 \<le> free_fd s" and buf: "user_buf buf 1024"
  shows "\<exists>t. cat_main irqs lit buf s = Some (0, t) \<and> con_abs t = printed (read_bytes ino s) (con_abs s)"
proof -
  have up: "2 \<le> user_page s" using pr by (simp add: can_print_def)
  obtain t where t: "ece391_getargs buf 1024 s = Some (0, t)" "user_write buf 1024 s t"
    and str: "0 \<in> set (str_at buf t)" "text_of (str_at buf t) = name"
    using getargs_returns [OF arg buf up] by blast
  have same: "same_but buf 1024 s t" "USER_VIRTUAL \<le> buf \<or> 1024 = (0 :: int)"
    using t(2) buf by (simp_all add: user_write_def user_buf_def)
  obtain i where i: "entry_is name i s" "d_ftype (read_dentry_by_index (int i) s) = 2"
    "d_inode (read_dentry_by_index (int i) s) = ino" using name by (auto simp: names_file_def)
  have fd: "free_fd t = free_fd s" "cur_fd t = cur_fd s" using t(2) free_fd_cong [of t s] by (simp_all add: user_write_def)
  have d: "read_dentry_by_index (int i) t = read_dentry_by_index (int i) s"
    using i(1) by (intro dentries_same(2) [OF same fs(1)]) (simp add: entry_is_def)
  have e: "entry_is (text_of (str_at buf t)) i t"
    using i(1) entry_is_same [OF same fs(1)] str(2) by simp
  have ne: "text_of (str_at buf t) \<noteq> []" using str(2) arg by (simp add: has_arg_def)
  let ?fd = "free_fd s"
  define f where "f = (\<lambda>f :: fd_t. f\<lparr>fops := Some File_fops, inode := ino, db_num := 0, byte_num := 0, flags := 1\<rparr>)"
  let ?u = "sti (upd_fd ?fd f t)"
  have op: "ece391_open buf t = Some (?fd, ?u)"
    using open_named(1) [OF e str(1) ne] free i(2,3) by (simp add: fd d f_def)
  have used: "flags (cur_fd s ?fd) = 0" "?fd \<le> 7" using free free_fd_spec [of s] by auto
  then have fd1: "?fd \<noteq> 1" using pr by (auto simp: can_print_def)
  have "cat_at ?fd buf ino s 0 ?u"
    unfolding cat_at_def
  proof (intro conjI)
    show "can_print ?u" using can_print_write [OF t(2) pr] fd1 by (simp add: sti_view upd_fd_view)
    show "same_but buf 1024 s ?u"
      by (rule same_but_trans [OF same(1) same_but_trans [OF upd_fd_view(1) sti_view(1)]])
    show "at_pos ?fd ino (min (1024 * int 0) (file_len ino s)) ?u"
      using file_len_nonneg [of ino s] by (simp add: at_pos_def Let_def sti_view f_def min_def)
  qed (use fs buf free used in simp_all)
  from cat.prints_all [OF this, of irqs lit] obtain v where
    "cat_loop irqs lit buf ?fd ?u = Some (0, v)" "con_abs v = printed (read_bytes ino s) (con_abs ?u)"
    by (auto simp: cat_chunks)
  moreover have "con_abs ?u = con_abs s" using t(2) by (simp add: sti_view upd_fd_view user_write_def)
  moreover have "?fd \<noteq> - 1" using free by simp
  ultimately show ?thesis by (simp add: cat_main_def t(1) op)
qed

text \<open>What those bytes are: the first kilobyte of each block comes from that block, the rest from data
  block 0, because the block is looked up at the byte \<open>offset / 1024\<close> of a list of four-byte entries.\<close>

lemma le32_small_high: "le32 m a < 256 \<Longrightarrow> j \<in> {1, 2, 3} \<Longrightarrow> uint (m (a + j)) = 0"
proof -
  assume *: "le32 m a < 256" and j: "j \<in> {1, 2, 3}"
  have nn: "0 \<le> uint (m a)" "0 \<le> uint (m (a + 1))" "0 \<le> uint (m (a + 2))" "0 \<le> uint (m (a + 3))"
    by simp_all
  then have "uint (m (a + 1)) = 0" "uint (m (a + 2)) = 0" "uint (m (a + 3)) = 0"
    using * unfolding le32_def by linarith+
  with j show ?thesis by auto
qed

lemma read_at_block:
  assumes ok: "file_ok ino s" and i: "0 \<le> i" "i < file_len ino s"
  shows "read_at ino i s = (if i mod 4096 < 1024 then file_byte ino i s else peek s (blocks_base s + i mod 4096))"
proof -
  let ?k = "i div 4096" and ?j = "i mod 4096 div 1024" and ?a = "inode_ptr ino s + 4 + 4 * (i div 4096)"
  have k: "0 \<le> ?k" "4096 * ?k < file_len ino s" using i by auto
  have j: "0 \<le> ?j" "?j < 4" by auto
  have split: "i div 1024 = 4 * ?k + ?j"
  proof -
    obtain q r where i: "i = 4096 * q + r" "0 \<le> r" "r < 4096"
      using that [of ?k "i mod 4096"] by simp
    have "i = r + 1024 * (4 * q)" using i(1) by simp
    then have "i div 1024 = (r + 1024 * (4 * q)) div 1024" by simp
    also have "\<dots> = 4 * q + r div 1024" by (subst div_mult_self2) simp_all
    finally show ?thesis using i by simp
  qed
  have low: "?j = 0 \<longleftrightarrow> i mod 4096 < 1024"
  proof -
    have "i mod 4096 = 1024 * ?j + i mod 4096 mod 1024" by simp
    moreover have "0 \<le> i mod 4096 mod 1024" "i mod 4096 mod 1024 < 1024" by simp_all
    ultimately show ?thesis using j by linarith
  qed
  show ?thesis
  proof (cases "?j = 0")
    case True
    then have lt: "i mod 4096 < 1024" using low by simp
    have "1024 * (i div 1024) = 4096 * ?k" using split True by simp
    moreover have "i mod 1024 = i mod 4096" using lt mod_mod_cancel [of 1024 4096 i] by simp
    ultimately show ?thesis
      using lt data_ptr_block [OF ok k] by (simp add: read_at_def file_byte_def)
  next
    case False
    then have ge: "\<not> i mod 4096 < 1024" using low by simp
    have "file_len ino s \<le> 1023 * 4096" using ok by (simp add: file_ok_def)
    then have "?k < 1023" using k(2) by linarith
    then have small: "le32 (peek s) ?a < 256" using ok k by (simp add: file_ok_def block_no_def)
    have "?j \<in> {1, 2, 3}" using False j by auto
    from le32_small_high [OF small this]
    have z: "uint (peek s (inode_ptr ino s + 4 + i div 1024)) = 0" unfolding split by (simp add: add.assoc)
    have "1024 * (i div 1024) mod 4096 + i mod 1024 = i mod 4096"
    proof -
      have "1024 * (i div 1024) = 1024 * ?j + 4096 * ?k" using split by simp
      then have "1024 * (i div 1024) mod 4096 = 1024 * ?j mod 4096" by simp
      also have "\<dots> = 1024 * ?j" using j by simp
      finally show ?thesis using mult_div_mod_eq [of 1024 "i mod 4096"] mod_mod_cancel [of 1024 4096 i] by simp
    qed
    moreover have "data_ptr ino (1024 * (i div 1024)) s = blocks_base s + 1024 * (i div 1024) mod 4096"
      using z by (simp add: data_ptr_def blocks_base_def)
    ultimately show ?thesis using ge by (simp only: read_at_def add.assoc if_False)
  qed
qed

section \<open>ls\<close>

text \<open>The copying loop of a directory read touches the buffer and the position of its descriptor.\<close>

definition dir_view :: "int \<Rightarrow> int \<Rightarrow> int \<Rightarrow> kernel \<Rightarrow> kernel \<Rightarrow> bool" where
  "dir_view a n fd s t \<longleftrightarrow> same_but a n s t \<and> con_abs t = con_abs s \<and> cursor_ok t = cursor_ok s
     \<and> flags (cur_fd t fd) = flags (cur_fd s fd) \<and> fops (cur_fd t fd) = fops (cur_fd s fd)
     \<and> (\<forall>fd'. fd' \<noteq> fd \<longrightarrow> cur_fd t fd' = cur_fd s fd')"

lemma dir_view_trans: "dir_view a n fd s t \<Longrightarrow> dir_view a n fd t u \<Longrightarrow> dir_view a n fd s u"
  by (auto simp: dir_view_def intro: same_but_trans)

lemma dir_view_poke: "user_write a n s t \<Longrightarrow> dir_view a n fd s t"
  by (simp add: dir_view_def user_write_def)

lemma dir_view_upd:
  "(\<And>f. flags (g f) = flags f \<and> fops (g f) = fops f) \<Longrightarrow> dir_view a n fd s (upd_fd fd g s)"
  by (simp add: dir_view_def upd_fd_view)

lemma dir_view_sti: "dir_view a n fd s (sti s)"
  by (rule dir_view_poke) (rule user_write_sti)

lemma dir_view_can_print: "dir_view a n fd s t \<Longrightarrow> can_print s \<Longrightarrow> can_print t"
  by (cases "fd = 1") (auto simp: dir_view_def can_print_def same_but_def)

lemma dir_loop_view:
  assumes "2 \<le> user_page s" and "user_buf a n" and "a \<le> b" and "b + int k \<le> a + n"
  shows "dir_view a n fd s (read_dir_loop k fd b p s)"
  using assms
proof (induction k arbitrary: b p s)
  case 0
  show ?case by (simp add: dir_view_def)
next
  case (Suc k)
  let ?t = "upd_fd fd (\<lambda>f. f\<lparr>byte_num := byte_num f + 1\<rparr>) (poke b (peek s p) s)"
  have w: "user_write a n s (poke b (peek s p) s)"
    using Suc.prems by (intro user_write_poke) (auto simp: user_buf_def user_addr_def)
  have t: "dir_view a n fd s ?t"
    by (rule dir_view_trans [OF dir_view_poke [OF w] dir_view_upd]) simp
  have rest: "dir_view a n fd u (read_dir_loop k fd (b + 1) q u)" if "user_page u = user_page s" for q u
    using that Suc.prems by (intro Suc.IH) simp_all
  have "dir_view a n fd ?t (upd_fd fd (\<lambda>f. f\<lparr>db_num := db_num f + 1, byte_num := 0\<rparr>) ?t)"
    by (rule dir_view_upd) simp
  note up = dir_view_trans [OF t this]
  show ?case
    unfolding read_dir_loop.simps Let_def
    by (rule if_split [THEN iffD2], intro conjI impI)
       (rule dir_view_trans [OF up rest], simp, rule dir_view_trans [OF t rest], simp)
qed

text \<open>The listing: the directory has \<open>n\<close> entries, and the name after them is empty.\<close>

definition dir_entry :: "kernel \<Rightarrow> nat \<Rightarrow> u8 list" where
  "dir_entry s k = region (peek s) (addr (bootBlock s) + 64 + 64 * int k) 32"

definition lists_entries :: "nat \<Rightarrow> kernel \<Rightarrow> bool" where
  "lists_entries n s \<longleftrightarrow> n \<le> 63 \<and> (\<forall>k<n. hd (dir_entry s k) \<noteq> 0) \<and> hd (dir_entry s n) = 0"

definition ls_at :: "int \<Rightarrow> int \<Rightarrow> nat \<Rightarrow> kernel \<Rightarrow> nat \<Rightarrow> kernel \<Rightarrow> bool" where
  "ls_at fd buf n s0 k s \<longleftrightarrow> fs_in_page s0 \<and> lists_entries n s0 \<and> user_buf buf 33 \<and> 0 \<le> fd \<and> fd < 8
     \<and> can_print s \<and> same_but buf 33 s0 s \<and> flags (cur_fd s fd) \<noteq> 0 \<and> fops (cur_fd s fd) = Some Dir_fops
     \<and> db_num (cur_fd s fd) = int k \<and> byte_num (cur_fd s fd) = 0"

lemma ls_entry_same:
  assumes "ls_at fd buf n s0 k s" and "j \<le> 63"
  shows "dir_entry s j = dir_entry s0 j"
proof -
  have same: "same_but buf 33 s0 s" and b: "bootBlock s = bootBlock s0" and fs: "fs_in_page s0"
    and buf: "USER_VIRTUAL < buf"
    using assms(1) by (auto simp: ls_at_def same_but_def user_buf_def)
  have pk: "peek s x = peek s0 x" if "VIDEO + 4000 \<le> x" "x < PHYS8MB" for x
    by (rule same_but_peek [OF same]) (use that buf in \<open>simp_all add: kept_addr_def\<close>)
  show ?thesis
    unfolding dir_entry_def b using fs assms(2)
    by (intro region_cong pk) (simp_all add: fs_in_page_def blocks_base_def)
qed

lemma hd_dir_entry: "hd (dir_entry s k) = peek s (addr (bootBlock s) + 64 + 64 * int k)"
  by (simp add: dir_entry_def region_def upt_rec)

lemma dir_call:
  assumes "ls_at fd buf n s0 k s"
  shows "ece391_read irqs fd buf 32 s = (case read_directory fd buf 32 s of (v, t) \<Rightarrow> Some (v, sti t))"
  using assms user_buf_accepted [of buf 33]
  by (auto simp: ece391_read_def sys_call_def returned_def lift_call_def sysRead_def fd_invalid_def ls_at_def
      fops_read_def split: prod.splits)

lemma ls_delivers:
  assumes at: "ls_at fd buf n s0 k s" and k: "k < n"
  shows "\<exists>cnt t r u. ece391_read irqs fd buf 32 s = Some (cnt, t) \<and> cnt \<noteq> 0 \<and> cnt \<noteq> - 1
    \<and> ls_entry buf cnt t = Some (r, u) \<and> r \<noteq> - 1 \<and> ls_at fd buf n s0 (k + 1) u
    \<and> con_abs u = printed (dir_entry s0 k @ [10]) (con_abs s)"
proof -
  have c: "user_buf buf 33" "can_print s" "fs_in_page s0" "lists_entries n s0" "same_but buf 33 s0 s"
    "db_num (cur_fd s fd) = int k" "byte_num (cur_fd s fd) = 0"
    using at by (simp_all add: ls_at_def)
  have up: "2 \<le> user_page s" using c(2) by (simp add: can_print_def)
  have n: "n \<le> 63" using c(4) by (simp add: lists_entries_def)
  have b: "bootBlock s = bootBlock s0" using c(5) by (simp add: same_but_def)
  let ?p = "addr (bootBlock s) + 64 + 64 * int k"
  have "hd (dir_entry s k) \<noteq> 0" using c(4) k n ls_entry_same [OF at, of k] by (simp add: lists_entries_def)
  then have first: "peek s ?p \<noteq> 0" by (simp add: hd_dir_entry)
  have pos: "dir_fd_ok (cur_fd s fd)" "dir_pos (cur_fd s fd) = int k * 32"
    using c(6,7) by (simp_all add: dir_fd_ok_def dir_pos_def)
  have da: "dir_addr (int k * 32 + d) s = ?p + d" if "0 \<le> d" "d < 32" for d
  proof -
    have "(int k * 32 + d) div 32 = int k" "(int k * 32 + d) mod 32 = d"
      using that by (simp_all add: div_pos_pos_trivial)
    then show ?thesis by (simp add: dir_addr_def)
  qed
  define v where "v = read_dir_loop 32 fd buf (dir_addr (dir_pos (cur_fd s fd)) s) s"
  have rdir: "read_directory fd buf 32 s = (32, v)"
    using first c(6,7) da [of 0] by (simp add: read_directory_def Let_def v_def pos(2) algebra_simps)
  have bb: "VIDEO + 4000 \<le> addr (bootBlock s)" "0 \<le> inode_count (bootBlock s)" "blocks_base s0 + 256 * 4096 \<le> PHYS8MB"
    "blocks_base s0 = addr (bootBlock s) + (inode_count (bootBlock s) + 1) * 4096"
    using c(3) b by (simp_all add: fs_in_page_def blocks_base_def)
  have "dir_addr (dir_pos (cur_fd s fd) + int 32) s = addr (bootBlock s) + (int k + 2) * 64"
  proof -
    have "int k * 32 + 32 = (int k + 1) * 32" by simp
    then show ?thesis unfolding pos(2) by (simp add: dir_addr_def)
  qed
  then have bound: "dir_addr (dir_pos (cur_fd s fd) + int 32) s + 64 \<le> PHYS8MB"
    using bb k n by simp
  have "user_range buf (int 32)" using c(1) by (simp add: user_buf_def user_range_def)
  from read_dir_loop_spec [OF pos(1) up this _ bound, folded v_def, unfolded pos(2)] bb(1)
  have spec: "dir_fd_ok (cur_fd v fd)" "dir_pos (cur_fd v fd) = int k * 32 + 32"
    "\<And>x. addr_ok x \<Longrightarrow> buf \<le> x \<Longrightarrow> x < buf + 32 \<Longrightarrow> peek v x = peek s (dir_addr (int k * 32 + (x - buf)) s)"
    by auto
  have next_pos: "db_num (cur_fd v fd) = int k + 1" "byte_num (cur_fd v fd) = 0"
    using dir_pos_div_mod [OF spec(1)] unfolding spec(2) by simp_all
  have view: "dir_view buf 33 fd s (sti v)"
    unfolding v_def using c(1) by (intro dir_view_trans [OF dir_loop_view [OF up] dir_view_sti]) simp_all
  let ?w = "poke (buf + 32) 10 (sti v)"
  have upv: "2 \<le> user_page (sti v)" using view up by (simp add: dir_view_def same_but_def)
  have w: "user_write buf 33 (sti v) ?w"
    using c(1) by (intro user_write_poke [OF upv]) (simp_all add: user_buf_def user_addr_def)
  have view': "dir_view buf 33 fd s ?w" by (rule dir_view_trans [OF view dir_view_poke [OF w]])
  have "user_buf buf (32 + 1)" using c(1) by simp
  from write_returns [OF dir_view_can_print [OF view' c(2)] this] obtain u where
    wr: "ece391_write 1 buf (32 + 1) ?w = Some (33, u)" and u: "can_print u" "same_but 0 0 ?w u" "cur_fd u = cur_fd ?w"
      "con_abs u = printed (region (peek ?w) buf 33) (con_abs ?w)"
    by (auto simp: numeral_eq_Suc)
  have line: "region (peek ?w) buf 33 = dir_entry s0 k @ [10]"
  proof -
    have pw: "peek ?w (buf + int i) = (if i = 32 then 10 else peek v (buf + int i))" if "i < 33" for i
      using peek_poke [OF upv, of "buf + 32" "buf + int i" 10] c(1) that
      by (simp add: user_buf_def addr_ok_def sti_view)
    have "peek ?w (buf + int i) = dir_entry s k ! i" if "i < 32" for i
      using pw [of i] spec(3) [of "buf + int i"] da [of "int i"] that c(1)
      by (simp add: dir_entry_def user_buf_def addr_ok_def)
    then have "region (peek ?w) buf 32 = dir_entry s k"
      by (intro nth_equalityI) (simp_all add: dir_entry_def)
    moreover have "region (peek ?w) (buf + int 32) 1 = [10]" using pw [of 32] by (simp add: region_def)
    moreover have "(33 :: nat) = 32 + 1" by simp
    ultimately show ?thesis
      using region_append [of "peek ?w" buf 32 1] ls_entry_same [OF at, of k] k n by (metis less_imp_le order.trans)
  qed
  have "ls_at fd buf n s0 (k + 1) u"
  proof -
    have "same_but buf 33 s0 u"
      using view' by (intro same_but_trans [OF c(5)] same_but_trans [OF _ same_but_0 [OF u(2)]]) (simp add: dir_view_def)
    moreover have "cur_fd ?w fd = cur_fd v fd" using w by (simp add: sti_view)
    ultimately show ?thesis
      using at u(1,3) view' next_pos by (simp add: ls_at_def dir_view_def)
  qed
  moreover have "ls_entry buf 32 (sti v) = Some (33, u)"
    using wr c(1) by (simp add: ls_entry_def ustore_def user_buf_def user_addr_def)
  moreover have "con_abs ?w = con_abs s" using view' by (simp add: dir_view_def)
  ultimately show ?thesis
    using dir_call [OF at, of irqs] rdir u(4) line
    by (intro exI [of _ 32] exI [of _ "sti v"] exI [of _ 33] exI [of _ u]) simp
qed

lemma ls_ends:
  assumes at: "ls_at fd buf n s0 n s"
  shows "\<exists>t. ece391_read irqs fd buf 32 s = Some (0, t) \<and> con_abs t = con_abs s"
proof -
  have "hd (dir_entry s n) = 0"
    using at ls_entry_same [OF at, of n] by (simp add: ls_at_def lists_entries_def)
  then have "peek s (addr (bootBlock s) + 64 + 64 * int n) = 0" by (simp add: hd_dir_entry)
  then have "read_directory fd buf 32 s = (0, s)"
    using at by (simp add: ls_at_def read_directory_def Let_def algebra_simps)
  then show ?thesis using dir_call [OF at, of irqs] by (simp add: sti_view)
qed

interpretation ls: pump "ece391_read irqs fd buf 32" "ls_entry buf"
  "give_up lit (nl ''directory entry read failed'') 3" "ls_loop irqs lit buf fd" "ls_at fd buf n s0"
  "\<lambda>k. dir_entry s0 k @ [10]" n for irqs fd buf lit n s0
proof (unfold_locales, goal_cases)
  case (1 s)
  show ?case by (subst ls_loop.simps) simp
next
  case (2 k s)
  then show ?case by (rule ls_delivers)
next
  case (3 s)
  then show ?case by (rule ls_ends)
qed

lemma ls_runs:
  assumes pr: "can_print s" and fs: "fs_in_page s" and entries: "lists_entries n s"
    and dot: "names_dir (str ''.'') s" "holds s (lit ''.'') ''.''" and free: "0 \<le> free_fd s" and buf: "user_buf buf 33"
  shows "\<exists>t. ls_main irqs lit buf s = Some (0, t)
    \<and> con_abs t = printed (concat (map (\<lambda>k. dir_entry s k @ [10]) [0..<n])) (con_abs s)"
proof -
  obtain i where i: "entry_is (str ''.'') i s" "d_ftype (read_dentry_by_index (int i) s) = 1"
    using dot(1) by (auto simp: names_dir_def)
  have "user_buf (lit ''.'') (int 2)" "region (peek s) (lit ''.'') 2 = [46, 0]"
    using dot(2) by (simp_all add: holds_def cstr_def numeral_2_eq_2)
  from text_of_str_at [OF this(1), of s, unfolded this(2)]
  have str: "0 \<in> set (str_at (lit ''.'') s)" "text_of (str_at (lit ''.'') s) = str ''.''"
    by (simp_all add: text_of_def)
  let ?fd = "free_fd s"
  let ?u = "sti (upd_fd ?fd (\<lambda>f. f\<lparr>fops := Some Dir_fops, db_num := 0, byte_num := 0, inode := 0, flags := 1\<rparr>) s)"
  have op: "ece391_open (lit ''.'') s = Some (?fd, ?u)"
    using open_named(2) [of "lit ''.''" s i] i str free by simp
  have used: "flags (cur_fd s ?fd) = 0" "?fd \<le> 7" using free free_fd_spec [of s] by auto
  then have fd1: "?fd \<noteq> 1" using pr by (auto simp: can_print_def)
  have "ls_at ?fd buf n s 0 ?u"
    unfolding ls_at_def
  proof (intro conjI)
    show "can_print ?u" using pr fd1 by (simp add: sti_view upd_fd_view)
    show "same_but buf 33 s ?u" by (rule same_but_trans [OF upd_fd_view(1) sti_view(1)])
  qed (use fs entries buf free used in \<open>simp_all add: sti_view\<close>)
  from ls.prints_all [OF this, of irqs lit] obtain v where
    "ls_loop irqs lit buf ?fd ?u = Some (0, v)"
    "con_abs v = printed (concat (map (\<lambda>k. dir_entry s k @ [10]) [0..<n])) (con_abs ?u)" by auto
  moreover have "?fd \<noteq> - 1" using free by simp
  ultimately show ?thesis by (simp add: ls_main_def op sti_view upd_fd_view)
qed

end
