(* ===== verification/SysErrRuns.thy ===== *)
theory SysErrRuns
  imports SysErr FileRuns
begin

text \<open>
  The error tests pass: in a process as \<open>execute\<close> starts it, with a directory and without the two
  misspelt names, each test prints its verdict and returns 0.
\<close>

section \<open>A freshly started process\<close>

definition test_lits :: "string list" where
  "test_lits = [''.'', ''helloo'', ''shel'', '''', nl ''err_neg_fd: PASS'', nl ''err_big_fd: PASS'',
     nl ''err_open_lots: PASS'', nl ''err_open: PASS'', nl ''err_unopened: PASS'', nl ''err_vidmap: PASS'',
     nl ''err_stdin_out: PASS'', nl ''err_syscall_num: PASS'', nl (nl [] @ ''Overall Tests: PASS'')]"

definition fresh_fds :: "kernel \<Rightarrow> bool" where
  "fresh_fds s \<longleftrightarrow> flags (cur_fd s 0) \<noteq> 0 \<and> fops (cur_fd s 0) = Some Stdin_fops
     \<and> (\<forall>i\<in>{2..7}. flags (cur_fd s i) = 0)"

definition mounted :: "kernel \<Rightarrow> bool" where
  "mounted s \<longleftrightarrow> fs_in_page s \<and> names_dir (str ''.'') s
     \<and> (\<forall>i<63. entry_name (int i) s \<noteq> str ''helloo'' \<and> entry_name (int i) s \<noteq> str ''shel'')"

text \<open>What holds between the calls: all but the descriptors above 1.\<close>

definition running :: "(string \<Rightarrow> int) \<Rightarrow> kernel \<Rightarrow> bool" where
  "running lit s \<longleftrightarrow> can_print s \<and> mounted s \<and> (\<forall>msg\<in>set test_lits. holds s (lit msg) msg)
     \<and> flags (cur_fd s 0) \<noteq> 0 \<and> fops (cur_fd s 0) = Some Stdin_fops"

definition test_ready :: "(string \<Rightarrow> int) \<Rightarrow> kernel \<Rightarrow> bool" where
  "test_ready lit s \<longleftrightarrow> running lit s \<and> (\<forall>i\<in>{2..7}. flags (cur_fd s i) = 0)"

lemma mounted_same:
  assumes same: "same_but 0 0 s t" and m: "mounted s"
  shows "mounted t"
proof -
  have fs: "fs_in_page s" using m by (simp add: mounted_def)
  have b: "bootBlock t = bootBlock s" using same by (simp add: same_but_def)
  then have fs': "fs_in_page t" using fs by (simp add: fs_in_page_def blocks_base_def)
  have d: "entry_name (int i) t = entry_name (int i) s" "read_dentry_by_index (int i) t = read_dentry_by_index (int i) s"
    if "i < 63" for i
    using dentries_same [OF same _ fs that] by simp_all
  have "entry_is name i t = entry_is name i s" for name i
    using entry_is_same [OF same _ fs] by simp
  then show ?thesis using m fs' d by (auto simp: mounted_def names_dir_def entry_is_def)
qed

lemma holds_kept: "same_but 0 0 s t \<Longrightarrow> holds s p msg \<Longrightarrow> holds t p msg"
  by (rule holds_same) (auto simp: holds_def user_buf_def)

lemma running_same:
  assumes "same_but 0 0 s t" and "can_print t" and "cur_fd t 0 = cur_fd s 0" and "running lit s"
  shows "running lit t"
  using assms mounted_same [OF assms(1)] holds_kept [OF assms(1)] by (auto simp: running_def)

lemma running_sti: "running lit (sti s) \<longleftrightarrow> running lit s"
proof
  have undone: "same_but 0 0 (sti s) s" using sti_view(1) [of 0 0 s] by (simp add: same_but_def)
  assume "running lit (sti s)"
  then show "running lit s" by (intro running_same [OF undone]) (auto simp: sti_view running_def)
next
  assume "running lit s"
  then show "running lit (sti s)" by (intro running_same [OF sti_view(1)]) (auto simp: sti_view running_def)
qed

lemma test_ready_sti [simp]: "test_ready lit (sti s) = test_ready lit s"
  by (simp add: test_ready_def running_sti sti_view)

lemma print_pass:
  assumes ready: "test_ready lit s" and known: "msg \<in> set test_lits"
  shows "\<exists>t. give_up lit msg 0 s = Some (0, t) \<and> test_ready lit t \<and> con_abs t = printed (str msg) (con_abs s)"
proof -
  have r: "running lit s" "can_print s" "holds s (lit msg) msg" using ready known by (simp_all add: test_ready_def running_def)
  from fdputs_returns [OF r(2,3)] obtain t where t: "ece391_fdputs 1 (lit msg) s = Some t" "can_print t"
    "same_but 0 0 s t" "cur_fd t = cur_fd s" "con_abs t = printed (str msg) (con_abs s)" by blast
  then have "test_ready lit t"
    using running_same [OF t(3,2) _ r(1)] ready by (simp add: test_ready_def)
  with t show ?thesis by (simp add: give_up_def)
qed

section \<open>Calls that fail\<close>

lemma rejected_calls:
  assumes "fd < 0 \<or> 8 \<le> fd \<or> flags (cur_fd s fd) = 0"
  shows "ece391_read irqs fd buf n s = Some (- 1, sti s)" "ece391_write fd buf n s = Some (- 1, sti s)"
    "ece391_close fd s = Some (- 1, sti s)"
  using assms
  by (auto simp: ece391_read_def ece391_write_def ece391_close_def sys_call_def returned_def lift_call_def
      sysRead_def sysWrite_def sysClose_def fd_invalid_def)

lemma stream_calls:
  assumes "running lit s"
  shows "ece391_write 0 buf n s = Some (- 1, sti s)" "ece391_read irqs 1 buf n s = Some (- 1, sti s)"
    "ece391_close 0 s = Some (- 1, sti s)" "ece391_close 1 s = Some (- 1, sti s)"
  using assms
  by (auto simp: ece391_read_def ece391_write_def ece391_close_def sys_call_def returned_def lift_call_def
      sysRead_def sysWrite_def sysClose_def fd_invalid_def running_def can_print_def fops_read_def fops_write_def
      fops_close_def bad_read_write_def bad_call_def)

lemma expect_error_passes: "call = Some (- 1, t) \<Longrightarrow> expect_error lit msg fail call = Some (fail, t)"
  by (simp add: expect_error_def)

lemma expect_each_passes:
  "(\<And>i u. i \<in> set is \<Longrightarrow> test_ready lit u \<Longrightarrow> call i u = Some (- 1, sti u)) \<Longrightarrow> test_ready lit s \<Longrightarrow>
   \<exists>t. expect_each lit msg call is fail s = Some (fail, t) \<and> test_ready lit t \<and> con_abs t = con_abs s"
proof (induction "is" arbitrary: s)
  case (Cons i "is")
  have "call i s = Some (- 1, sti s)" using Cons.prems by simp
  moreover obtain t where "expect_each lit msg call is fail (sti s) = Some (fail, t)" "test_ready lit t"
    "con_abs t = con_abs (sti s)" using Cons.IH [of "sti s"] Cons.prems by auto
  ultimately show ?case by (simp add: expect_error_passes sti_view)
qed simp

lemma unknown_open:
  assumes run: "running lit s" and lit: "holds s p msg" and "msg = [] \<or> (\<forall>i<63. entry_name (int i) s \<noteq> str msg)"
    and "length msg \<le> 32"
  shows "ece391_open p s = Some (- 1, sti s)"
proof -
  have "user_buf p (int (length msg + 1))" "region (peek s) p (length msg + 1) = cstr msg"
    using lit by (simp_all add: holds_def add.commute)
  from text_of_str_at [OF this(1), of s, unfolded this(2)] lit
  have str: "0 \<in> set (str_at p s)" "text_of (str_at p s) = str msg"
    by (simp_all add: cstr_def holds_def)
  obtain r where r: "strncmp (str_at p s) (cstr []) 1 = Some r" "r = 0 \<longleftrightarrow> msg = []"
    using strncmp_empty [OF str(1)] str(2) by (auto simp: str_def)
  show ?thesis
  proof (cases "msg = []")
    case True
    then show ?thesis using r
      by (simp add: ece391_open_def sys_call_def returned_def lift_call_def sysOpen_def)
  next
    case False
    then have "\<forall>i<63. entry_name (int i) s \<noteq> take 122 (str msg)" using assms(3,4) by simp
    then have "find (\<lambda>i. entry_name (int i) s = take 122 (str msg)) [0..<63] = None"
      by (simp add: find_None_iff)
    then have "read_dentry_by_name (str_at p s) s = Some (- 1, None)"
      using read_dentry_by_name_spec [OF str(1), of s] str(2) by simp
    then show ?thesis using r False
      by (simp add: ece391_open_def sys_call_def returned_def lift_call_def sysOpen_def)
  qed
qed

section \<open>The tests\<close>

definition passes :: "(string \<Rightarrow> int) \<Rightarrow> (kernel \<Rightarrow> (int \<times> kernel) option) \<Rightarrow> string \<Rightarrow> bool" where
  "passes lit test name \<longleftrightarrow> (\<forall>s. test_ready lit s \<longrightarrow> (\<exists>t. test s = Some (0, t) \<and> test_ready lit t
     \<and> con_abs t = printed (str (nl (name @ '': PASS''))) (con_abs s)))"

lemma passesI:
  assumes "nl (name @ '': PASS'') \<in> set test_lits"
    and "\<And>s. test_ready lit s \<Longrightarrow> \<exists>t. test s = give_up lit (nl (name @ '': PASS'')) 0 t \<and> test_ready lit t \<and> con_abs t = con_abs s"
  shows "passes lit test name"
  unfolding passes_def
proof (intro allI impI)
  fix s assume "test_ready lit s"
  from assms(2) [OF this] obtain t where t: "test s = give_up lit (nl (name @ '': PASS'')) 0 t" "test_ready lit t"
    "con_abs t = con_abs s" by blast
  from print_pass [OF t(2) assms(1)] t
  show "\<exists>t. test s = Some (0, t) \<and> test_ready lit t \<and> con_abs t = printed (str (nl (name @ '': PASS''))) (con_abs s)"
    by simp
qed

lemma pass_bad_fd: "passes lit (err_neg_fd lit buf) ''err_neg_fd''" "passes lit (err_big_fd lit buf) ''err_big_fd''"
  by (rule passesI, simp add: test_lits_def,
      simp add: err_neg_fd_def err_big_fd_def rejected_calls expect_error_passes verdict_def, intro exI conjI, rule refl,
      simp_all add: sti_view)+

lemma pass_vidmap: "passes lit (err_vidmap lit) ''err_vidmap''"
proof (rule passesI)
  fix s assume "test_ready lit s"
  then show "\<exists>t. err_vidmap lit s = give_up lit (nl (''err_vidmap'' @ '': PASS'')) 0 t \<and> test_ready lit t \<and> con_abs t = con_abs s"
    by (simp add: err_vidmap_def ece391_vidmap_def sys_call_def returned_def lift_call_def vidmap_def expect_error_passes
        verdict_def) (intro exI conjI, rule refl, simp_all add: sti_view)
qed (simp add: test_lits_def)

lemma pass_syscall_num: "passes lit (err_syscall_num lit regs) ''err_syscall_num''"
proof (rule passesI)
  have "u32 NEG_NUM = 3221225473" by (simp add: u32_def)
  then have call: "call_sys regs n s = Some (- 1, sti s)" if "n \<in> {BIG_NUM, NEG_NUM, 0}" for n s
    using that by (cases regs) (auto simp: call_sys_def sys_call_def returned_def)
  fix s assume "test_ready lit s"
  then show "\<exists>t. err_syscall_num lit regs s = give_up lit (nl (''err_syscall_num'' @ '': PASS'')) 0 t
      \<and> test_ready lit t \<and> con_abs t = con_abs s"
    by (simp add: err_syscall_num_def call expect_error_passes verdict_def)
       (intro exI conjI, rule refl, simp_all add: sti_view)
qed (simp add: test_lits_def)

lemma pass_stdin_out: "passes lit (err_stdin_out lit buf) ''err_stdin_out''"
proof (rule passesI)
  fix s assume s: "test_ready lit s"
  then have "running lit s" "running lit (sti s)" by (simp_all add: test_ready_def running_sti)
  note c = stream_calls [OF this(1)] stream_calls [OF this(2)]
  show "\<exists>t. err_stdin_out lit buf s = give_up lit (nl (''err_stdin_out'' @ '': PASS'')) 0 t
      \<and> test_ready lit t \<and> con_abs t = con_abs s"
    using s by (simp add: err_stdin_out_def c expect_error_passes verdict_def)
       (intro exI conjI, rule refl, simp_all add: sti_view)
qed (simp add: test_lits_def)

lemma pass_open: "passes lit (err_open lit) ''err_open''"
proof (rule passesI)
  fix s assume s: "test_ready lit s"
  have o: "ece391_open (lit msg) u = Some (- 1, sti u)"
    if "msg \<in> {''helloo'', ''shel'', []}" and u: "test_ready lit u" for msg u
  proof (rule unknown_open)
    show "running lit u" using u by (simp add: test_ready_def)
    show "holds u (lit msg) msg" using u that(1) by (auto simp: test_ready_def running_def test_lits_def)
    show "msg = [] \<or> (\<forall>i<63. entry_name (int i) u \<noteq> str msg)"
      using u that(1) by (auto simp: test_ready_def running_def mounted_def simp del: str_simps)
    show "length msg \<le> 32" using that(1) by auto
  qed
  show "\<exists>t. err_open lit s = give_up lit (nl (''err_open'' @ '': PASS'')) 0 t
      \<and> test_ready lit t \<and> con_abs t = con_abs s"
    using s by (simp add: err_open_def o expect_error_passes verdict_def)
       (intro exI conjI, rule refl, simp_all add: sti_view)
qed (simp add: test_lits_def)

lemma pass_unopened: "passes lit (err_unopened lit buf) ''err_unopened''"
proof (rule passesI)
  fix s assume s: "test_ready lit s"
  have closes: "ece391_close i u = Some (- 1, sti u)" if "i \<in> set [0..7]" "test_ready lit u" for i u
  proof (cases "i \<in> {0, 1}")
    case True
    with that(2) stream_calls [of lit u] show ?thesis by (auto simp: test_ready_def)
  next
    case False
    then have "i \<in> {2..7}" using that(1) by auto
    with that(2) show ?thesis by (intro rejected_calls) (simp add: test_ready_def)
  qed
  have free: "i < 0 \<or> 8 \<le> i \<or> flags (cur_fd u i) = 0" if "i \<in> set [2..7]" "test_ready lit u" for i u
    using that by (auto simp: test_ready_def)
  obtain a where a: "expect_each lit (nl ''close unopened or invalid fd fail'') ece391_close [0..7] 0 s = Some (0, a)"
    "test_ready lit a" "con_abs a = con_abs s"
    using expect_each_passes [of "[0..7]" lit ece391_close, OF closes s] by blast
  obtain b where b: "expect_each lit (nl ''read from unopened fd fail'') (\<lambda>i. ece391_read [] i buf 31) [2..7] 0 a = Some (0, b)"
    "test_ready lit b" "con_abs b = con_abs a"
    using expect_each_passes [of "[2..7]" lit "\<lambda>i. ece391_read [] i buf 31", OF rejected_calls(1) [OF free] a(2)] by blast
  obtain c where c: "expect_each lit (nl ''write to unopened fd fail'') (\<lambda>i. ece391_write i buf 31) [2..7] 0 b = Some (0, c)"
    "test_ready lit c" "con_abs c = con_abs b"
    using expect_each_passes [of "[2..7]" lit "\<lambda>i. ece391_write i buf 31", OF rejected_calls(2) [OF free] b(2)] by blast
  show "\<exists>t. err_unopened lit buf s = give_up lit (nl (''err_unopened'' @ '': PASS'')) 0 t
      \<and> test_ready lit t \<and> con_abs t = con_abs s"
    using a b c by (simp add: err_unopened_def verdict_def del: upto_rec_numeral upto.simps) (intro exI conjI, rule refl, simp_all)
qed (simp add: test_lits_def)

section \<open>Opening too many files\<close>

text \<open>The descriptors \<open>J\<close> are open on the directory, the others above 1 are free.\<close>

definition dir_fds :: "(string \<Rightarrow> int) \<Rightarrow> int set \<Rightarrow> kernel \<Rightarrow> bool" where
  "dir_fds lit J s \<longleftrightarrow> running lit s \<and> J \<subseteq> {2..7} \<and> (\<forall>i\<in>{2..7}. if i \<in> J
     then flags (cur_fd s i) \<noteq> 0 \<and> fops (cur_fd s i) = Some Dir_fops else flags (cur_fd s i) = 0)"

lemma dir_fds_none: "dir_fds lit {} s \<longleftrightarrow> test_ready lit s"
  by (simp add: dir_fds_def test_ready_def)

lemma running_upd_fd:
  assumes "running lit s" and "2 \<le> fd"
  shows "running lit (upd_fd fd f s)"
  using assms by (intro running_same [OF upd_fd_view(1) _ _ assms(1)]) (auto simp: running_def upd_fd_view(4))

lemma running_io: "running lit s \<Longrightarrow> flags (cur_fd s 0) \<noteq> 0 \<and> flags (cur_fd s 1) \<noteq> 0"
  by (simp add: running_def can_print_def)

lemma free_fd_lowest:
  assumes "0 \<le> k" and "k \<le> 7" and "flags (cur_fd s k) = 0" and "\<And>i. 0 \<le> i \<Longrightarrow> i < k \<Longrightarrow> flags (cur_fd s i) \<noteq> 0"
  shows "free_fd s = k"
proof -
  have "free_fd s \<noteq> - 1" using free_fd_spec [of s] assms(1-3) by auto
  with free_fd_spec [of s] have f: "0 \<le> free_fd s" "flags (cur_fd s (free_fd s)) = 0"
    "\<forall>i\<in>{0..<free_fd s}. flags (cur_fd s i) \<noteq> 0" by auto
  have "\<not> free_fd s < k" using assms(4) [of "free_fd s"] f by auto
  moreover have "\<not> k < free_fd s" using f(3) assms(1,3) by auto
  ultimately show ?thesis by simp
qed

lemma dot_name:
  assumes "running lit s"
  shows "0 \<in> set (str_at (lit ''.'') s)" "text_of (str_at (lit ''.'') s) = str ''.''"
proof -
  have "holds s (lit ''.'') ''.''" using assms by (simp add: running_def test_lits_def)
  then have "user_buf (lit ''.'') (int 2)" "region (peek s) (lit ''.'') 2 = [46, 0]"
    by (simp_all add: holds_def cstr_def numeral_2_eq_2)
  from text_of_str_at [OF this(1), of s, unfolded this(2)]
  show "0 \<in> set (str_at (lit ''.'') s)" "text_of (str_at (lit ''.'') s) = str ''.''"
    by (simp_all add: text_of_def)
qed

lemma open_dot:
  assumes d: "dir_fds lit {2..<j} s" and j: "2 \<le> j" "j \<le> 7"
  shows "\<exists>t. ece391_open (lit ''.'') s = Some (j, t) \<and> dir_fds lit {2..<j + 1} t \<and> con_abs t = con_abs s"
proof -
  have run: "running lit s" using d by (simp add: dir_fds_def)
  obtain i where i: "entry_is (str ''.'') i s" "d_ftype (read_dentry_by_index (int i) s) = 1"
    using run by (auto simp: running_def mounted_def names_dir_def)
  have "flags (cur_fd s i) \<noteq> 0" if "0 \<le> i" "i < j" for i
  proof (cases "i < 2")
    case True
    then have "i = 0 \<or> i = 1" using that by auto
    then show ?thesis using running_io [OF run] by auto
  next
    case False
    then show ?thesis using d that j by (auto simp: dir_fds_def)
  qed
  moreover have "flags (cur_fd s j) = 0" using d j by (auto simp: dir_fds_def)
  ultimately have fd: "free_fd s = j" using j by (intro free_fd_lowest) auto
  let ?t = "sti (upd_fd j (\<lambda>f. f\<lparr>fops := Some Dir_fops, db_num := 0, byte_num := 0, inode := 0, flags := 1\<rparr>) s)"
  have "ece391_open (lit ''.'') s = Some (j, ?t)"
    using open_named(2) [of "lit ''.''" s i] i dot_name [OF run] j fd by simp
  moreover have "dir_fds lit {2..<j + 1} ?t"
    using d j running_upd_fd [OF run j(1)] by (auto simp: dir_fds_def running_sti sti_view)
  ultimately show ?thesis by (auto simp: sti_view upd_fd_view)
qed

lemma open_dot_full:
  assumes d: "dir_fds lit {2..<8} s"
  shows "ece391_open (lit ''.'') s = Some (- 1, sti s)"
proof -
  have run: "running lit s" using d by (simp add: dir_fds_def)
  have "flags (cur_fd s i) \<noteq> 0" if "i \<in> {0..7}" for i
  proof (cases "i < 2")
    case True
    then have "i = 0 \<or> i = 1" using that by auto
    then show ?thesis using running_io [OF run] by auto
  next
    case False
    then show ?thesis using d that by (auto simp: dir_fds_def)
  qed
  then have "free_fd s = - 1" using free_fd_spec [of s] by auto
  moreover obtain r where "strncmp (str_at (lit ''.'') s) (cstr []) 1 = Some r"
    using strncmp_empty [OF dot_name(1) [OF run]] by blast
  ultimately show ?thesis
    by (simp add: ece391_open_def sys_call_def returned_def lift_call_def sysOpen_def)
qed

lemma open_lots_fills:
  "dir_fds lit {2..<j} s \<Longrightarrow> 2 \<le> j \<Longrightarrow> j + int n = 9 \<Longrightarrow>
   \<exists>t. open_lots n lit cnt s = Some (if j \<le> 8 then cnt + 1 else cnt, t) \<and> (j \<le> 8 \<longrightarrow> dir_fds lit {2..<8} t) \<and> con_abs t = con_abs s"
proof (induction n arbitrary: j s)
  case (Suc n)
  show ?case
  proof (cases "j = 8")
    case True
    with Suc.prems have "n = 0" by simp
    moreover have "dir_fds lit {2..<8} (sti s)"
      using Suc.prems(1) True by (simp add: dir_fds_def running_sti sti_view)
    ultimately show ?thesis
      using open_dot_full [of lit s] Suc.prems(1) True by (simp add: sti_view)
  next
    case False
    with Suc.prems have j: "2 \<le> j" "j \<le> 7" by simp_all
    from open_dot [OF Suc.prems(1) j] obtain t where t: "ece391_open (lit ''.'') s = Some (j, t)"
      "dir_fds lit {2..<j + 1} t" "con_abs t = con_abs s" by blast
    from Suc.IH [OF t(2)] Suc.prems j t(1,3) show ?thesis by auto
  qed
qed simp

lemma close_dirs:
  "dir_fds lit (set is) s \<Longrightarrow> distinct is \<Longrightarrow>
   \<exists>t. close_fds is s = Some t \<and> test_ready lit t \<and> con_abs t = con_abs s"
proof (induction "is" arbitrary: s)
  case Nil
  then show ?case by (simp add: dir_fds_none)
next
  case (Cons i "is")
  let ?t = "sti (snd (close_dir i s))"
  have i: "2 \<le> i" "i \<le> 7" and run: "running lit s" and fd: "flags (cur_fd s i) \<noteq> 0" "fops (cur_fd s i) = Some Dir_fops"
    using Cons.prems(1) by (auto simp: dir_fds_def)
  have "ece391_close i s = Some (0, ?t)"
    using i fd by (simp add: ece391_close_def sys_call_def returned_def lift_call_def sysClose_def fd_invalid_def
        fops_close_def close_dir_def)
  moreover have "dir_fds lit (set is) ?t"
    using Cons.prems i running_upd_fd [OF run i(1)]
    by (auto simp: dir_fds_def running_sti sti_view close_dir_def)
  moreover have "con_abs ?t = con_abs s" by (simp add: sti_view close_dir_def upd_fd_view)
  ultimately show ?case using Cons.IH [of ?t] Cons.prems by auto
qed

lemma pass_open_lots: "passes lit (err_open_lots lit) ''err_open_lots''"
proof (rule passesI)
  fix s assume "test_ready lit s"
  then have "dir_fds lit {2..<2} s" by (simp add: dir_fds_none)
  from open_lots_fills [OF this, of 7 0] obtain t where t: "open_lots 7 lit 0 s = Some (1, t)"
    "dir_fds lit {2..<8} t" "con_abs t = con_abs s" by auto
  have "set [2..7] = {2..<8 :: int}" by auto
  with t(2) have "dir_fds lit (set [2..7]) t" by simp
  from close_dirs [OF this] obtain u where u: "close_fds [2..7] t = Some u" "test_ready lit u" "con_abs u = con_abs t"
    by auto
  then show "\<exists>t. err_open_lots lit s = give_up lit (nl (''err_open_lots'' @ '': PASS'')) 0 t
      \<and> test_ready lit t \<and> con_abs t = con_abs s"
    using t by (simp add: err_open_lots_def nl_def del: upto_rec_numeral upto.simps open_lots.simps close_fds.simps)
      (intro exI conjI, rule refl, simp_all)
qed (simp add: test_lits_def)

section \<open>All of them\<close>

definition test_names :: "string list" where
  "test_names = [''err_neg_fd'', ''err_big_fd'', ''err_open_lots'', ''err_open'', ''err_unopened'', ''err_vidmap'',
     ''err_stdin_out'', ''err_syscall_num'']"

lemma run_tests_pass:
  "list_all2 (passes lit) tests names \<Longrightarrow> test_ready lit s \<Longrightarrow>
   \<exists>t. run_tests tests 0 s = Some (0, t) \<and> test_ready lit t
     \<and> con_abs t = printed (str (concat (map (\<lambda>name. nl (name @ '': PASS'')) names))) (con_abs s)"
proof (induction tests names arbitrary: s rule: list_all2_induct)
  case (Cons test tests name names)
  from Cons.hyps(1) Cons.prems obtain t where t: "test s = Some (0, t)" "test_ready lit t"
    "con_abs t = printed (str (nl (name @ '': PASS''))) (con_abs s)" by (auto simp: passes_def)
  moreover have "str (xs @ ys) = str xs @ str ys" for xs ys by (simp add: str_def)
  ultimately show ?case using Cons.IH [OF t(2)] by auto
qed simp

lemma self_tests_pass: "list_all2 (passes lit) (self_tests lit buf regs) test_names"
  by (simp add: self_tests_def test_names_def pass_bad_fd pass_open_lots pass_open pass_unopened pass_vidmap
      pass_stdin_out pass_syscall_num)

lemma run_all_passes:
  assumes "test_ready lit s"
  shows "\<exists>t. run_all lit buf regs s = Some (0, t) \<and> test_ready lit t
    \<and> con_abs t = printed (str (concat (map (\<lambda>name. nl (name @ '': PASS'')) test_names)
        @ nl (nl [] @ ''Overall Tests: PASS''))) (con_abs s)"
proof -
  from run_tests_pass [OF self_tests_pass assms] obtain t where
    t: "run_tests (self_tests lit buf regs) 0 s = Some (0, t)" "test_ready lit t"
      "con_abs t = printed (str (concat (map (\<lambda>name. nl (name @ '': PASS'')) test_names))) (con_abs s)" by blast
  have "nl (nl [] @ ''Overall Tests: PASS'') \<in> set test_lits" by (simp add: test_lits_def)
  from print_pass [OF t(2) this] t show ?thesis
    by (auto simp: run_all_def str_def)
qed

end
