(* ===== verification/UserProps.thy ===== *)
theory UserProps
  imports KernelProps SysErrRuns "HOL-Library.More_List"
begin

text \<open>
  The properties of the user programs on the kernel, each with an instance on variants of the sample
  state: its process has an argument, a longer file, or the literals of the test program in memory.
\<close>

section \<open>cat\<close>

text \<open>C8: \<open>cat\<close> of a file of up to a kilobyte prints exactly the bytes of the file, a tab as three
  spaces, and exits with status 0: from the argument the kernel hands out, over open, read and
  write, to the end of the file.\<close>

theorem cat_prints_file:
  assumes "can_print s" and "fs_in_page s" and "inode_ok ino s" and "file_ok ino s"
    and "names_file name ino s" and "has_arg s name" and "0 \<le> free_fd s" and "user_buf buf 1024"
    and "file_len ino s \<le> 1024"
  shows "\<exists>t. cat_main irqs lit buf s = Some (0, t)
    \<and> con_abs t = printed (map (\<lambda>i. file_byte ino (int i) s) [0..<nat (file_len ino s)]) (con_abs s)"
proof -
  have "read_bytes ino s = map (\<lambda>i. file_byte ino (int i) s) [0..<nat (file_len ino s)]"
    unfolding read_bytes_def
  proof (intro map_cong refl)
    fix i assume "i \<in> set [0..<nat (file_len ino s)]"
    then have "int i < file_len ino s" "int i mod 4096 < 1024" using assms(9) by simp_all
    then show "read_at ino (int i) s = file_byte ino (int i) s" using read_at_block [OF assms(4)] by simp
  qed
  with cat_runs [OF assms(1-3,5-8)] show ?thesis by simp
qed

definition cat_kernel :: kernel where
  "cat_kernel = upd_pcb 3 (\<lambda>p. p\<lparr>p_arg := [104, 105] @ replicate 120 0\<rparr>) sample_kernel"

lemma arg_kernel_fields [simp]:
  "cur_fd (upd_pcb 3 (\<lambda>p. p\<lparr>p_arg := a\<rparr>) s) = cur_fd s" "cur_term (upd_pcb 3 f s) = cur_term s"
  "user_page (upd_pcb 3 f s) = user_page s" "bootBlock (upd_pcb 3 f s) = bootBlock s"
  "peek (upd_pcb 3 f s) = peek s" "curr_pcb (upd_pcb 3 f s) = curr_pcb s" "con_abs (upd_pcb 3 f s) = con_abs s"
  by (simp_all add: upd_pcb_def cur_fd_def cur_proc_def cur_term_def user_page_def peek_def vaddr_def
      con_abs_def fun_eq_iff)

lemma sample_can_print: "can_print sample_kernel"
  by (simp add: can_print_def cursor_ok_def sample_term_def sample_fda_def empty_fd_def)

lemma sample_fs: "fs_in_page sample_kernel" "inode_ok 0 sample_kernel"
  by (simp_all add: fs_in_page_def inode_ok_def blocks_base_def sample_file_len)

lemma sample_free: "free_fd sample_kernel = 4"
  by (simp add: free_fd_def sample_fda_def empty_fd_def)

lemma fs_cong:
  assumes "bootBlock t = bootBlock s" and "peek t = peek s"
  shows "fs_in_page t = fs_in_page s" "inode_ok ino t = inode_ok ino s" "file_ok ino t = file_ok ino s"
    "names_file name ino t = names_file name ino s" "file_len ino t = file_len ino s"
    "file_byte ino i t = file_byte ino i s" "blocks_base t = blocks_base s"
    "entry_name k t = entry_name k s" "read_dentry_by_index k t = read_dentry_by_index k s"
  using assms
  by (simp_all add: fs_in_page_def inode_ok_def file_ok_def names_file_def entry_is_def entry_name_def
      read_dentry_by_index_def Let_def file_len_def inode_ptr_def blocks_base_def block_no_def file_byte_def)

lemma sample_names_hi: "names_file [104, 105] 0 sample_kernel"
  using sample_entry_names
  by (auto simp: names_file_def entry_is_def less_Suc_eq read_dentry_by_index_def Let_def sample_peek sample_mem_def
      intro!: exI [of _ 1])

theorem cat_prints_file_witness:
  "\<exists>t. cat_main [] (\<lambda>_. 0) 0x8050000 cat_kernel = Some (0, t)
    \<and> con_abs t = printed (str ''Hello'') (con_abs cat_kernel)"
proof -
  have c: "bootBlock cat_kernel = bootBlock sample_kernel" "peek cat_kernel = peek sample_kernel"
    by (simp_all add: cat_kernel_def)
  note f = fs_cong [OF c]
  have "can_print cat_kernel" using sample_can_print by (simp add: cat_kernel_def can_print_def cursor_ok_def)
  moreover have "has_arg cat_kernel [104, 105]"
    by (simp add: has_arg_def cat_kernel_def upd_pcb_def cur_proc_def text_of_def)
  moreover have "0 \<le> free_fd cat_kernel"
    using sample_free free_fd_cong [of cat_kernel sample_kernel] by (simp add: cat_kernel_def)
  moreover have "map (\<lambda>i. file_byte 0 (int i) cat_kernel) [0..<nat (file_len 0 cat_kernel)] = str ''Hello''"
    by (simp add: f sample_file_len sample_file_byte upt_rec sample_mem_def)
  ultimately show ?thesis
    using cat_prints_file [of cat_kernel 0 "[104, 105]" "0x8050000" "[]" "\<lambda>_. 0"] sample_fs sample_file_ok sample_names_hi
    by (simp add: f user_buf_def sample_file_len)
qed

text \<open>C19: beyond the first kilobyte of a block, \<open>cat\<close> does not print the file: the block number is read
  from the single byte \<open>offset / 1024\<close> of a list of four-byte entries, so the other three kilobytes
  of every block come from data block 0.\<close>

theorem cat_long_file:
  assumes "can_print s" and "fs_in_page s" and "inode_ok ino s" and "file_ok ino s"
    and "names_file name ino s" and "has_arg s name" and "0 \<le> free_fd s" and "user_buf buf 1024"
  shows "\<exists>t. cat_main irqs lit buf s = Some (0, t)
    \<and> con_abs t = printed (map (\<lambda>i. if int i mod 4096 < 1024 then file_byte ino (int i) s
        else peek s (blocks_base s + int i mod 4096)) [0..<nat (file_len ino s)]) (con_abs s)"
proof -
  have "read_bytes ino s = map (\<lambda>i. if int i mod 4096 < 1024 then file_byte ino (int i) s
      else peek s (blocks_base s + int i mod 4096)) [0..<nat (file_len ino s)]"
    unfolding read_bytes_def by (intro map_cong refl read_at_block [OF assms(4)]) simp_all
  with cat_runs [OF assms(1-3,5-8)] show ?thesis by simp
qed

definition long_kernel :: kernel where
  "long_kernel = cat_kernel\<lparr>mem := (mem cat_kernel)
     (0x411000 := 1, 0x411001 := 4, 0x411004 := 1,
      0x412000 := 0, 0x412001 := 0, 0x412002 := 0, 0x412003 := 0, 0x412004 := 0,
      0x412400 := 89, 0x413400 := 88)\<rparr>"

theorem cat_long_file_witness:
  "\<exists>t. cat_main [] (\<lambda>_. 0) 0x8050000 long_kernel = Some (0, t)
    \<and> con_abs t = printed (replicate 1024 0 @ [89]) (con_abs long_kernel)
    \<and> file_byte 0 1024 long_kernel = 88"
proof -
  let ?s = long_kernel
  have pk: "peek ?s x = (sample_mem(0x411000 := 1, 0x411001 := 4, 0x411004 := 1,
      0x412000 := 0, 0x412001 := 0, 0x412002 := 0, 0x412003 := 0, 0x412004 := 0,
      0x412400 := 89, 0x413400 := 88)) x" if "0 \<le> x" "x < PHYS8MB" for x
    using that by (simp add: long_kernel_def cat_kernel_def peek_def vaddr_def upd_pcb_def)
  have fields: "bootBlock ?s = bootBlock sample_kernel" "user_page ?s = 2" "curr_pcb ?s = 3"
    "cur_fd ?s = sample_fda" "cur_term ?s = sample_term 0" "cur_proc ?s = cur_proc cat_kernel"
    by (simp_all add: long_kernel_def cat_kernel_def upd_pcb_def user_page_def cur_fd_def cur_proc_def cur_term_def
        sample_user_page [unfolded user_page_def] sample_pcb_def fun_eq_iff)
  have len: "file_len 0 ?s = 1025"
    by (simp add: file_len_def inode_ptr_def le32_def fields pk sample_mem_def)
  have block: "block_no 0 0 ?s = 1"
    by (simp add: block_no_def inode_ptr_def le32_def fields pk sample_mem_def)
  have base: "blocks_base ?s = 0x412000" by (simp add: blocks_base_def fields)
  have ok: "file_ok 0 ?s"
    unfolding file_ok_def len base
  proof (intro conjI ballI impI)
    fix k :: int assume "k \<in> {0..<1023}" "4096 * k < 1025"
    then have "k = 0" by simp
    then show "block_no 0 k ?s < 256" "0x412000 + (block_no 0 k ?s + 1) * 4096 \<le> PHYS8MB" by (simp_all add: block)
  qed (simp_all add: fields)
  have byte: "file_byte 0 i ?s = (if i = 1024 then 88 else 0)" if "0 \<le> i" "i \<le> 1024" for i
    using that block base by (simp add: file_byte_def pk sample_mem_def)
  have "map (\<lambda>i. if int i mod 4096 < 1024 then file_byte 0 (int i) ?s else peek ?s (blocks_base ?s + int i mod 4096))
      [0..<Suc 1024] = replicate 1024 0 @ [89]"
    unfolding upt_Suc_append [OF le0] map_append
    by (intro arg_cong2 [where f = "(@)"] nth_equalityI) (simp_all add: byte pk base sample_mem_def)
  then have bytes: "map (\<lambda>i. if int i mod 4096 < 1024 then file_byte 0 (int i) ?s else peek ?s (blocks_base ?s + int i mod 4096))
      [0..<nat (file_len 0 ?s)] = replicate 1024 0 @ [89]" by (simp add: len)
  have names: "entry_name (int k) ?s = entry_name (int k) sample_kernel"
    "read_dentry_by_index (int k) ?s = read_dentry_by_index (int k) sample_kernel" if "k < 63" for k
  proof -
    have "region (peek ?s) (0x410040 + 64 * int k) 32 = region (peek sample_kernel) (0x410040 + 64 * int k) 32"
      using that by (intro region_cong) (simp add: pk sample_peek)
    then show "entry_name (int k) ?s = entry_name (int k) sample_kernel" by (simp add: entry_name_def fields)
    show "read_dentry_by_index (int k) ?s = read_dentry_by_index (int k) sample_kernel"
      using that by (simp add: read_dentry_by_index_def Let_def fields pk sample_peek)
  qed
  have named: "names_file [104, 105] 0 ?s"
    using sample_names_hi names unfolding names_file_def entry_is_def by (metis order.strict_trans)
  have "can_print ?s" by (simp add: can_print_def cursor_ok_def fields sample_term_def sample_fda_def empty_fd_def)
  moreover have "fs_in_page ?s" "inode_ok 0 ?s" by (simp_all add: fs_in_page_def inode_ok_def base fields len)
  moreover have "p_arg (cur_proc cat_kernel) = [104, 105] @ replicate 120 0"
    by (simp add: cat_kernel_def upd_pcb_def cur_proc_def)
  then have "has_arg ?s [104, 105]" by (simp add: has_arg_def fields text_of_def)
  moreover have "free_fd ?s = 4" using sample_free free_fd_cong [of ?s sample_kernel] by (simp add: fields)
  moreover have "user_buf 0x8050000 1024" by (simp add: user_buf_def)
  ultimately show ?thesis
    using cat_long_file [of ?s 0 "[104, 105]" "0x8050000" "[]" "\<lambda>_. 0"] ok named bytes byte [of 1024] by simp
qed

section \<open>ls\<close>

text \<open>C11: \<open>ls\<close> prints the 32 name bytes of every directory entry, each on a line, in the order of the
  boot block, up to the first empty name, and exits with status 0.\<close>

theorem ls_lists_directory:
  assumes "can_print s" and "fs_in_page s" and "lists_entries n s" and "names_dir (str ''.'') s"
    and "holds s (lit ''.'') ''.''" and "0 \<le> free_fd s" and "user_buf buf 33"
  shows "\<exists>t. ls_main irqs lit buf s = Some (0, t)
    \<and> con_abs t = printed (concat (map (\<lambda>k. dir_entry s k @ [10]) [0..<n])) (con_abs s)"
  by (rule ls_runs [where lit = lit, OF assms])

text \<open>The literals of the test program in the memory of the sample process.\<close>

definition sample_lit :: "string \<Rightarrow> int" where
  "sample_lit msg = 0x8051000 + 64 * int (length (takeWhile (\<lambda>m. m \<noteq> msg) test_lits))"

definition lit_mem :: memory where
  "lit_mem x = (if 0x851000 \<le> x \<and> x < 0x851000 + 64 * 13
     then nth_default 0 (str (test_lits ! nat ((x - 0x851000) div 64))) (nat ((x - 0x851000) mod 64))
     else sample_mem x)"

definition test_kernel :: kernel where
  "test_kernel = upd_pcb 3 (\<lambda>p. p\<lparr>fda := init_fda (\<lambda>_. empty_fd)\<rparr>) (sample_kernel\<lparr>mem := lit_mem\<rparr>)"

lemma test_kernel_fields:
  "bootBlock test_kernel = bootBlock sample_kernel" "user_page test_kernel = 2"
  "cur_term test_kernel = sample_term 0" "cur_fd test_kernel = init_fda (\<lambda>_. empty_fd)" "mem test_kernel = lit_mem"
  by (simp_all add: test_kernel_def upd_pcb_def user_page_def cur_fd_def cur_proc_def cur_term_def
      sample_user_page [unfolded user_page_def] fun_eq_iff)

lemma test_kernel_low: "0 \<le> x \<Longrightarrow> x < PHYS8MB \<Longrightarrow> peek test_kernel x = peek sample_kernel x"
  by (simp add: peek_def vaddr_def test_kernel_fields lit_mem_def)

lemma test_kernel_entries:
  assumes "k < 63"
  shows "dir_entry test_kernel k = dir_entry sample_kernel k"
    "entry_name (int k) test_kernel = entry_name (int k) sample_kernel"
    "read_dentry_by_index (int k) test_kernel = read_dentry_by_index (int k) sample_kernel"
proof -
  have "region (peek test_kernel) (0x410040 + 64 * int k) 32 = region (peek sample_kernel) (0x410040 + 64 * int k) 32"
    using assms by (intro region_cong test_kernel_low) simp_all
  then show "dir_entry test_kernel k = dir_entry sample_kernel k"
    "entry_name (int k) test_kernel = entry_name (int k) sample_kernel"
    by (simp_all add: dir_entry_def entry_name_def test_kernel_fields)
  show "read_dentry_by_index (int k) test_kernel = read_dentry_by_index (int k) sample_kernel"
    using assms by (simp add: read_dentry_by_index_def Let_def test_kernel_fields test_kernel_low)
qed

lemma lits_short: "list_all (\<lambda>m. length m < 64 \<and> 0 \<notin> set (str m)) test_lits" "length test_lits = 13" "distinct test_lits"
  by (simp_all add: test_lits_def nl_def)

lemma index_of: "distinct xs \<Longrightarrow> k < length xs \<Longrightarrow> length (takeWhile (\<lambda>m. m \<noteq> xs ! k) xs) = k"
proof (induction xs arbitrary: k)
  case (Cons x xs)
  then show ?case by (cases k) (auto simp: in_set_conv_nth)
qed simp

lemma sample_holds: "msg \<in> set test_lits \<Longrightarrow> holds test_kernel (sample_lit msg) msg"
proof -
  assume "msg \<in> set test_lits"
  then obtain k where k: "k < 13" "msg = test_lits ! k" using lits_short(2) by (auto simp: in_set_conv_nth)
  have p: "sample_lit msg = 0x8051000 + 64 * int k"
    using index_of [OF lits_short(3), of k] k lits_short(2) by (simp add: sample_lit_def)
  have m: "length msg < 64" "0 \<notin> set (str msg)"
    using lits_short(1,2) k by (simp_all add: list_all_length)
  have "peek test_kernel (sample_lit msg + int i) = (str msg @ [0]) ! i" if "i < length msg + 1" for i
  proof -
    let ?x = "0x851000 + (64 * int k + int i)"
    have i: "i < 64" using that m by simp
    have "peek test_kernel (sample_lit msg + int i) = lit_mem ?x"
      using k(1) i unfolding p by (simp add: peek_def vaddr_def test_kernel_fields add.assoc)
    also have "\<dots> = nth_default 0 (str msg) i"
    proof -
      have "(64 * int k + int i) div 64 = int k" "(64 * int k + int i) mod 64 = int i" using i by simp_all
      then show ?thesis using k i by (simp add: lit_mem_def)
    qed
    also have "\<dots> = (str msg @ [0]) ! i" using that by (auto simp: nth_default_def nth_append)
    finally show ?thesis .
  qed
  then have "region (peek test_kernel) (sample_lit msg) (length msg + 1) = cstr msg"
    by (intro nth_equalityI) (simp_all add: cstr_def)
  then show ?thesis using m k p by (simp add: holds_def user_buf_def)
qed

lemma test_kernel_print: "can_print test_kernel" "fs_in_page test_kernel" "names_dir (str ''.'') test_kernel"
proof -
  show "can_print test_kernel"
    by (simp add: can_print_def cursor_ok_def test_kernel_fields sample_term_def init_fda_def update_each_def stdout_fd_def)
  show "fs_in_page test_kernel" by (simp add: fs_in_page_def blocks_base_def test_kernel_fields)
  show "names_dir (str ''.'') test_kernel"
    using sample_entry_names test_kernel_entries(2,3) [of 0]
    by (auto simp: names_dir_def entry_is_def read_dentry_by_index_def Let_def sample_peek sample_mem_def
        intro!: exI [of _ 0])
qed

theorem ls_lists_directory_witness:
  "\<exists>t. ls_main [] sample_lit 0x8050000 test_kernel = Some (0, t)
    \<and> con_abs t = printed ((46 # replicate 31 0) @ [10] @ ([104, 105] @ replicate 30 0) @ [10]) (con_abs test_kernel)"
proof -
  have z: "replicate 31 (0 :: u8) = [0, 0, 0, 0, 0, 0, 0, 0, 0, 0, 0, 0, 0, 0, 0, 0,
      0, 0, 0, 0, 0, 0, 0, 0, 0, 0, 0, 0, 0, 0, 0]"
    "replicate 30 (0 :: u8) = [0, 0, 0, 0, 0, 0, 0, 0, 0, 0, 0, 0, 0, 0, 0, 0,
      0, 0, 0, 0, 0, 0, 0, 0, 0, 0, 0, 0, 0, 0]"
    by code_simp+
  have e: "dir_entry sample_kernel 0 = 46 # replicate 31 0" "dir_entry sample_kernel 1 = [104, 105] @ replicate 30 0"
    "hd (dir_entry sample_kernel 2) = 0"
    by (simp_all add: dir_entry_def region_def upt_rec sample_peek sample_mem_def z)
  have two: "[0..<2 :: nat] = [0, 1]" by (simp add: upt_rec)
  have "hd (dir_entry test_kernel k) \<noteq> 0" if "k < 2" for k
  proof -
    have "k = 0 \<or> k = 1" using that by auto
    then show ?thesis using e test_kernel_entries(1) [of 0] test_kernel_entries(1) [of 1] by auto
  qed
  then have "lists_entries 2 test_kernel"
    using e(3) test_kernel_entries(1) [of 2] by (simp add: lists_entries_def)
  moreover have "0 \<le> free_fd test_kernel"
    by (simp add: free_fd_def test_kernel_fields init_fda_def update_each_def stdin_fd_def stdout_fd_def empty_fd_def)
  moreover have "holds test_kernel (sample_lit ''.'') ''.''" by (rule sample_holds) (simp add: test_lits_def)
  ultimately have "\<exists>t. ls_main [] sample_lit 0x8050000 test_kernel = Some (0, t)
      \<and> con_abs t = printed (concat (map (\<lambda>k. dir_entry test_kernel k @ [10]) [0..<2])) (con_abs test_kernel)"
    by (intro ls_lists_directory test_kernel_print) (simp_all add: user_buf_def)
  then show ?thesis
    unfolding two using e(1,2) test_kernel_entries(1) [of 0] test_kernel_entries(1) [of 1]
    by simp
qed

section \<open>The error tests\<close>

text \<open>C17: the repository's test program for the error paths of the system calls passes: run in a freshly
  started process on an image with a directory and without the two misspelt names, each of the eight
  tests prints its PASS line, and the program prints the overall verdict and returns 0.\<close>

theorem syserr_passes:
  assumes "test_ready lit s"
  shows "\<exists>t. run_all lit buf regs s = Some (0, t)
    \<and> con_abs t = printed (str (concat (map (\<lambda>name. nl (name @ '': PASS'')) test_names)
        @ nl (nl [] @ ''Overall Tests: PASS''))) (con_abs s)"
  using run_all_passes [OF assms] by blast

theorem syserr_passes_witness:
  "\<exists>t. run_all sample_lit 0x8050000 (1, 2, 3) test_kernel = Some (0, t)"
proof -
  have names: "entry_name (int i) test_kernel \<in> {[46], [104, 105], []}" if "i < 63" for i
  proof (cases "i < 2")
    case True
    then have "i = 0 \<or> i = 1" by auto
    then show ?thesis using sample_entry_names test_kernel_entries(2) [OF that] by auto
  next
    case False
    then have "peek sample_kernel (0x410040 + 64 * int i) = 0" using that by (simp add: sample_peek sample_mem_def)
    moreover have "(32 :: nat) = Suc 31" by simp
    ultimately show ?thesis
      unfolding test_kernel_entries(2) [OF that] unfolding entry_name_def by (simp only: region_Suc) (simp add: text_of_def)
  qed
  have "mounted test_kernel"
    unfolding mounted_def using test_kernel_print names by fastforce
  then have "test_ready sample_lit test_kernel"
    using test_kernel_print(1) sample_holds
    by (auto simp: test_ready_def running_def test_kernel_fields init_fda_def update_each_def stdin_fd_def empty_fd_def)
  from syserr_passes [OF this] show ?thesis by blast
qed

end
