(* ===== verification/Missile.thy ===== *)
theory Missile
  imports Prelude "HOL-Library.Monad_Syntax"
begin

text \<open>
  The missile game's half in the clock driver: the routines of \<open>mp1.S\<close>, which run at every tick of the
  clock and at the \<open>ioctl\<close> calls of the game, and the two of \<open>mp1-given.c\<close> they call.  The missiles are
  a linked list in memory the driver allocates: \<open>missiles\<close> maps an address to the missile there.
  A register is a 32-bit word; the jumps on \<open>jl\<close> and \<open>jg\<close> compare its signed value.  An
  access through a null or dangling pointer, and a write that misses the text screen, is \<open>None\<close>.
\<close>

section \<open>Data\<close>

record missile =
  m_next :: int
  m_x :: "32 word"
  m_y :: "32 word"
  m_vx :: "32 word"
  m_vy :: "32 word"
  dest_x :: "32 word"
  dest_y :: "32 word"
  m_exploded :: "32 word"
  m_c :: u8

text \<open>\<open>base_alive\<close> has three bytes and one of padding; \<open>vga\<close> is the text screen that starts at
  \<open>vmem_base_addr\<close>; \<open>notified\<close> counts the signals sent to the game.\<close>

record mp1 =
  missiles :: "int \<Rightarrow> missile option"
  mp1_missile_list :: int
  base_alive :: "u8 list"
  mp1_score :: "32 word"
  crosshairs_x :: "32 word"
  crosshairs_y :: "32 word"
  vga :: "int \<Rightarrow> u8"
  notified :: nat

abbreviation (input) "MAX_COL_INDEX \<equiv> 79"
abbreviation (input) "MAX_ROW_INDEX \<equiv> 24"
abbreviation (input) "VIDEO_MEMORY_MAX \<equiv> 3998"
abbreviation (input) "ERASE_CHAR \<equiv> 32"
abbreviation (input) "CROSSHAIR \<equiv> 43"
abbreviation (input) "EXPLOSION \<equiv> 64"
abbreviation (input) "CHAR_ENEMY \<equiv> 101"
abbreviation (input) "CHAR_FIRED \<equiv> 42"

definition deref :: "mp1 \<Rightarrow> int \<Rightarrow> missile option" where
  "deref s p = (if p = 0 then None else missiles s p)"

definition put_missile :: "int \<Rightarrow> missile \<Rightarrow> mp1 \<Rightarrow> mp1" where
  "put_missile p m s = s\<lparr>missiles := (missiles s)(p := Some m)\<rparr>"

definition mp1_free :: "int \<Rightarrow> mp1 \<Rightarrow> mp1 option" where
  "mp1_free p s = (if p = 0 then Some s
     else if missiles s p = None then None
     else Some (s\<lparr>missiles := (missiles s)(p := None)\<rparr>))"

definition mp1_notify_user :: "mp1 \<Rightarrow> mp1" where
  "mp1_notify_user s = s\<lparr>notified := notified s + 1\<rparr>"

section \<open>Writing to the screen\<close>

definition mp1_poke :: "32 word \<Rightarrow> u8 \<Rightarrow> mp1 \<Rightarrow> mp1 option" where
  "mp1_poke eax cl s = (if uint eax < 4000 then Some (s\<lparr>vga := (vga s)(uint eax := cl)\<rparr>) else None)"

definition video_offset :: "32 word \<Rightarrow> 32 word \<Rightarrow> 32 word" where
  "video_offset x y = x * 2 + y * 160"

text \<open>The calls of \<open>mp1_poke\<close> for a missile are skipped past the last character of the screen.\<close>

definition poke_below :: "32 word \<Rightarrow> u8 \<Rightarrow> mp1 \<Rightarrow> mp1 option" where
  "poke_below eax cl s = (if VIDEO_MEMORY_MAX < sint eax then Some s else mp1_poke eax cl s)"

section \<open>Explosions (\<open>mp1-given.c\<close>)\<close>

definition kill_base :: "nat \<Rightarrow> mp1 \<Rightarrow> int \<times> mp1" where
  "kill_base n s = (if base_alive s ! n \<noteq> 0 then 1 else 0, s\<lparr>base_alive := (base_alive s)[n := 0]\<rparr>)"

definition explode_base :: "int \<Rightarrow> int \<Rightarrow> mp1 \<Rightarrow> int \<times> mp1" where
  "explode_base x y s = (if y \<ge> 23 then
       if 17 \<le> x \<and> x \<le> 23 then kill_base 0 s
       else if 37 \<le> x \<and> x \<le> 43 then kill_base 1 s
       else if 57 \<le> x \<and> x \<le> 63 then kill_base 2 s
       else (0, s)
     else (0, s))"

text \<open>\<open>x >> 16\<close> on a C \<open>int\<close> keeps the sign.\<close>

definition cell_of :: "32 word \<Rightarrow> int" where
  "cell_of x = sint x div 65536"

definition in_blast :: "missile \<Rightarrow> missile \<Rightarrow> bool" where
  "in_blast m i = (let dx = cell_of (m_x m) - cell_of (m_x i); dy = cell_of (m_y m) - cell_of (m_y i) in
     dx \<ge> -2 \<and> dx \<le> 2 \<and> dy \<ge> -1 \<and> dy \<le> 1 \<and>
     m_exploded i = 0 \<and> m_c i = CHAR_ENEMY \<and> m_c m = CHAR_FIRED)"

partial_function (option) explode_loop :: "int \<Rightarrow> int \<Rightarrow> int \<Rightarrow> mp1 \<Rightarrow> (int \<times> mp1) option" where
  "explode_loop m i n s = (if i = 0 then Some (n, s) else do {
     a \<leftarrow> deref s m;
     b \<leftarrow> deref s i;
     (if i \<noteq> m \<and> in_blast a b
      then explode_loop m (m_next b) (n + 1)
        (put_missile i (b\<lparr>m_exploded := 50\<rparr>) (s\<lparr>mp1_score := mp1_score s + 1\<rparr>))
      else explode_loop m (m_next b) n s) })"

definition missile_explode :: "int \<Rightarrow> mp1 \<Rightarrow> (int \<times> mp1) option" where
  "missile_explode m s = do {
     a \<leftarrow> deref s m;
     let s = (if m_exploded a = 0 then put_missile m (a\<lparr>m_exploded := 50\<rparr>) s else s);
     let (n, s) = (if m_c a = CHAR_ENEMY then explode_base (cell_of (m_x a)) (cell_of (m_y a)) s else (0, s));
     explode_loop m (mp1_missile_list s) n s }"

section \<open>The list of missiles at a tick\<close>

definition mp1_missile_remove :: "int \<Rightarrow> int \<Rightarrow> mp1 \<Rightarrow> mp1 option" where
  "mp1_missile_remove cur prev s = do {
     a \<leftarrow> deref s cur;
     if prev = 0 then Some (s\<lparr>mp1_missile_list := m_next a\<rparr>)
     else do {
       q \<leftarrow> deref s prev;
       Some (put_missile prev (q\<lparr>m_next := m_next a\<rparr>) s) } }"

text \<open>\<open>ebx\<close> and \<open>ecx\<close> hold the character cell the missile was in before this tick.\<close>

definition erase_redraw :: "int \<Rightarrow> 32 word \<Rightarrow> 32 word \<Rightarrow> mp1 \<Rightarrow> mp1 option" where
  "erase_redraw cur ebx ecx s = do {
     s \<leftarrow> poke_below (video_offset ebx ecx) ERASE_CHAR s;
     a \<leftarrow> deref s cur;
     poke_below (video_offset (drop_bit 16 (m_x a)) (drop_bit 16 (m_y a))) (m_c a) s }"

definition erase_remove_free :: "int \<Rightarrow> int \<Rightarrow> 32 word \<Rightarrow> 32 word \<Rightarrow> mp1 \<Rightarrow> mp1 option" where
  "erase_remove_free cur prev ebx ecx s = do {
     s \<leftarrow> poke_below (video_offset ebx ecx) ERASE_CHAR s;
     s \<leftarrow> mp1_missile_remove cur prev s;
     mp1_free cur s }"

text \<open>The passes of the loop return the registers \<open>eax\<close>, the missile to go on from, and \<open>edx\<close>, whether the
  state of the game changed.\<close>

definition is_exploding :: "int \<Rightarrow> int \<Rightarrow> 32 word \<Rightarrow> 32 word \<Rightarrow> mp1 \<Rightarrow> (int \<times> bool \<times> mp1) option" where
  "is_exploding cur prev ebx ecx s = do {
     (n, s) \<leftarrow> missile_explode cur s;
     a \<leftarrow> deref s cur;
     let s = put_missile cur (a\<lparr>m_c := EXPLOSION, m_exploded := m_exploded a - 1\<rparr>) s;
     if 0 < sint (m_exploded a - 1) then do {
       s \<leftarrow> erase_redraw cur ebx ecx s;
       Some (cur, n \<noteq> 0, s) }
     else do {
       s \<leftarrow> erase_remove_free cur prev ebx ecx s;
       Some (mp1_missile_list s, n \<noteq> 0, s) } }"

definition update_missile :: "int \<Rightarrow> int \<Rightarrow> mp1 \<Rightarrow> (int \<times> bool \<times> mp1) option" where
  "update_missile cur prev s = do {
     a \<leftarrow> deref s cur;
     let ebx = drop_bit 16 (m_x a);
     let ecx = drop_bit 16 (m_y a);
     if m_exploded a \<noteq> 0 then is_exploding cur prev ebx ecx s
     else do {
       let x = m_x a + m_vx a;
       let y = m_y a + m_vy a;
       let s = put_missile cur (a\<lparr>m_x := x, m_y := y\<rparr>) s;
       if sint ebx < 0 \<or> sint ebx > MAX_COL_INDEX \<or> sint ecx < 0 \<or> sint ecx > MAX_ROW_INDEX
       then do {
         s \<leftarrow> erase_remove_free cur prev ebx ecx s;
         Some (mp1_missile_list s, False, s) }
       else if (dest_x a XOR ebx) OR (dest_y a XOR ecx) = 0 then is_exploding cur prev ebx ecx s
       else if (x XOR ebx) OR (y XOR ecx) = 0 then Some (cur, False, s)
       else do {
         s \<leftarrow> erase_redraw cur ebx ecx s;
         Some (cur, False, s) } } }"

text \<open>At \<open>next_missile\<close> the list goes on behind \<open>eax\<close>.  The loop clears \<open>edx\<close> for every missile, so
  the signal depends on the last one only.\<close>

partial_function (option) iterate_list :: "int \<Rightarrow> int \<Rightarrow> mp1 \<Rightarrow> mp1 option" where
  "iterate_list cur prev s = do {
     (eax, edx, s) \<leftarrow> update_missile cur prev s;
     a \<leftarrow> deref s eax;
     (if m_next a = 0 then Some (if edx then mp1_notify_user s else s)
      else iterate_list (m_next a) eax s) }"

definition update_missiles :: "mp1 \<Rightarrow> mp1 option" where
  "update_missiles s = (if mp1_missile_list s = 0 then Some s else iterate_list (mp1_missile_list s) 0 s)"

section \<open>Bases and crosshairs\<close>

definition base_pic :: "u8 list" where
  "base_pic = str ''/^^^'' @ [92]"

definition dead_base_pic :: "u8 list" where
  "dead_base_pic = str ''xxxxx''"

fun draw_loop :: "u8 list \<Rightarrow> 32 word \<Rightarrow> mp1 \<Rightarrow> mp1 option" where
  "draw_loop [] ecx s = Some s"
| "draw_loop (c # cs) ecx s = do {
     s \<leftarrow> mp1_poke (video_offset ecx MAX_ROW_INDEX) c s;
     draw_loop cs (ecx + 1) s }"

definition draw_city :: "u8 \<Rightarrow> 32 word \<Rightarrow> mp1 \<Rightarrow> mp1 option" where
  "draw_city bl x s = draw_loop (if bl = 0 then dead_base_pic else base_pic) x s"

fun cities_loop :: "nat list \<Rightarrow> mp1 \<Rightarrow> mp1 option" where
  "cities_loop [] s = Some s"
| "cities_loop (edi # is) s = do {
     s \<leftarrow> draw_city (base_alive s ! edi) ((of_nat edi + 1) * 20 - 2) s;
     cities_loop is s }"

definition redraw_cities_crosshairs :: "mp1 \<Rightarrow> mp1 option" where
  "redraw_cities_crosshairs s = do {
     s \<leftarrow> cities_loop [0, 1, 2] s;
     mp1_poke (video_offset (crosshairs_x s) (crosshairs_y s)) CROSSHAIR s }"

definition mp1_rtc_tasklet :: "mp1 \<Rightarrow> mp1 option" where
  "mp1_rtc_tasklet s = update_missiles s \<bind> redraw_cities_crosshairs"

section \<open>The calls of the game\<close>

definition mp1_ioctl_startgame :: "mp1 \<Rightarrow> int \<times> mp1" where
  "mp1_ioctl_startgame s = (0, s\<lparr>base_alive := [0xAA, 0xAA, 0xAA, 0],
     crosshairs_x := 40, crosshairs_y := 12\<rparr>)"

text \<open>\<open>new\<close> is what \<open>mp1_malloc\<close> returns, \<open>um\<close> the missile \<open>mp1_copy_from_user\<close> brings, if it can.\<close>

definition mp1_ioctl_addmissile :: "int \<Rightarrow> missile option \<Rightarrow> mp1 \<Rightarrow> (int \<times> mp1) option" where
  "mp1_ioctl_addmissile new um s = (case (new = 0, um) of
     (False, Some m) \<Rightarrow>
       Some (0, (put_missile new (m\<lparr>m_next := mp1_missile_list s\<rparr>) s)\<lparr>mp1_missile_list := new\<rparr>)
   | _ \<Rightarrow> Some (-1, s))"

text \<open>The new column and the one drawn to, the old column (\<open>ecx\<close> holds the 16-bit step); and the rows.\<close>

definition low16 :: "32 word \<Rightarrow> int" where
  "low16 w = sint (ucast w :: 16 word)"

definition move_x :: "32 word \<Rightarrow> 32 word \<Rightarrow> 32 word \<times> 32 word \<times> 32 word" where
  "move_x ecx eax = (let normal = (let n = take_bit 16 (ecx + eax) in (n, n, eax)) in
     if low16 eax = 0 then if low16 ecx \<le> 0 then (eax, eax, eax) else normal
     else if low16 eax < 0 then (0, 0, 0)
     else if low16 eax = MAX_COL_INDEX then if low16 ecx \<ge> 0 then (eax, eax, eax) else normal
     else if low16 eax > MAX_COL_INDEX then (MAX_COL_INDEX, 0, MAX_COL_INDEX)
     else normal)"

definition move_y :: "32 word \<Rightarrow> 32 word \<Rightarrow> 32 word" where
  "move_y ebx edx = (let normal = take_bit 16 (ebx + edx) in
     if low16 edx = 0 then if low16 ebx \<le> 0 then edx else normal
     else if low16 edx = MAX_ROW_INDEX then if low16 ebx \<ge> 0 then edx else normal
     else normal)"

definition mp1_ioctl_movexhairs :: "32 word \<Rightarrow> mp1 \<Rightarrow> (int \<times> mp1) option" where
  "mp1_ioctl_movexhairs arg s = (
     let (x, ecx, eax) = move_x (take_bit 16 arg) (crosshairs_x s);
         edx = crosshairs_y s;
         ebx = move_y (drop_bit 16 arg) edx
     in do {
       s \<leftarrow> mp1_poke (video_offset eax edx) ERASE_CHAR (s\<lparr>crosshairs_x := x, crosshairs_y := ebx\<rparr>);
       s \<leftarrow> mp1_poke (video_offset ecx ebx) CROSSHAIR s;
       Some (0, s) })"

fun iterate_base_alive :: "u8 list \<Rightarrow> 32 word \<Rightarrow> 32 word" where
  "iterate_base_alive [] ebx = ebx"
| "iterate_base_alive (b # bs) ebx = iterate_base_alive bs (push_bit 1 (if b = 0 then ebx else ebx + 1))"

definition status_word :: "mp1 \<Rightarrow> 32 word" where
  "status_word s = (let ebx = push_bit 15 (iterate_base_alive (take 3 (base_alive s)) 0) in
     (ebx AND 0xFFFF0000) OR take_bit 16 (mp1_score s))"

text \<open>\<open>new\<close> is what \<open>malloc\<close> returns, \<open>writable\<close> whether \<open>mp1_copy_to_user\<close> can write.\<close>

definition mp1_ioctl_getstatus :: "int \<Rightarrow> bool \<Rightarrow> mp1 \<Rightarrow> int \<times> 32 word option" where
  "mp1_ioctl_getstatus new writable s =
     (if new = 0 \<or> \<not> writable then (-1, None) else (0, Some (status_word s)))"

partial_function (option) free_loop :: "int \<Rightarrow> mp1 \<Rightarrow> mp1 option" where
  "free_loop p s = do {
     a \<leftarrow> deref s p;
     s \<leftarrow> mp1_free p s;
     (if m_next a = 0 then Some s else free_loop (m_next a) s) }"

definition mp1_ioctl_endgame :: "mp1 \<Rightarrow> mp1 option" where
  "mp1_ioctl_endgame s = (if mp1_missile_list s = 0 then Some s
     else free_loop (mp1_missile_list s) (s\<lparr>mp1_missile_list := 0\<rparr>))"

end
