(* ===== verification/MissileList.thy ===== *)
theory MissileList
  imports Missile
begin

text \<open>
  The tick of the missile game on lists.  The linked list of missiles is read as a list of missiles (their
  \<open>m_next\<close> blanked), the tick is restated as a walk over that list, and the routines on pointers are
  shown to carry it out.  The walk always ends; it has no result exactly when the last missile on the
  list goes away during the tick, where \<open>mp1.S\<close> reads address 0.
\<close>

section \<open>Segments of a linked list\<close>

fun lseg :: "(int \<Rightarrow> missile option) \<Rightarrow> int \<Rightarrow> int list \<Rightarrow> int \<Rightarrow> bool" where
  "lseg h p [] q \<longleftrightarrow> p = q"
| "lseg h p (c # cs) q \<longleftrightarrow> p = c \<and> c \<noteq> 0 \<and> (case h c of None \<Rightarrow> False | Some m \<Rightarrow> lseg h (m_next m) cs q)"

definition bare :: "missile \<Rightarrow> missile" where
  "bare m = m\<lparr>m_next := 0\<rparr>"

definition vals :: "(int \<Rightarrow> missile option) \<Rightarrow> int list \<Rightarrow> missile list" where
  "vals h ps = map (\<lambda>p. bare (the (h p))) ps"

lemma vals_simps [simp]: "vals h [] = []" "vals h (p # ps) = bare (the (h p)) # vals h ps"
  "vals h (ps @ qs) = vals h ps @ vals h qs" "length (vals h ps) = length ps"
  by (simp_all add: vals_def)

lemma bare_simps [simp]: "m_x (bare m) = m_x m" "m_y (bare m) = m_y m" "m_vx (bare m) = m_vx m"
  "m_vy (bare m) = m_vy m" "dest_x (bare m) = dest_x m" "dest_y (bare m) = dest_y m"
  "m_exploded (bare m) = m_exploded m" "m_c (bare m) = m_c m" "m_next (bare m) = 0"
  "bare (bare m) = bare m"
  by (simp_all add: bare_def)

lemma lseg_append: "lseg h p (xs @ ys) q \<longleftrightarrow> (\<exists>r. lseg h p xs r \<and> lseg h r ys q)"
  by (induction xs arbitrary: p) (auto split: option.splits)

lemma lseg_dom: "lseg h p ps q \<Longrightarrow> c \<in> set ps \<Longrightarrow> c \<noteq> 0 \<and> (\<exists>m. h c = Some m)"
  by (induction ps arbitrary: p) (auto split: option.splits)

lemma lseg_cong:
  "(\<And>c. c \<in> set ps \<Longrightarrow> map_option m_next (h' c) = map_option m_next (h c)) \<Longrightarrow> lseg h' p ps q = lseg h p ps q"
proof (induction ps arbitrary: p)
  case (Cons c cs)
  have "map_option m_next (h' c) = map_option m_next (h c)" by (rule Cons.prems) simp
  moreover have "lseg h' r cs q = lseg h r cs q" for r by (rule Cons.IH) (simp add: Cons.prems)
  ultimately show ?case by (cases "h c"; cases "h' c") simp_all
qed simp

lemma lseg_frame: "c \<notin> set ps \<Longrightarrow> lseg (h(c := v)) p ps q = lseg h p ps q"
  by (rule lseg_cong) auto

lemma vals_cong: "(\<And>c. c \<in> set ps \<Longrightarrow> map_option bare (h' c) = map_option bare (h c)) \<Longrightarrow>
    (\<And>c. c \<in> set ps \<Longrightarrow> h c \<noteq> None) \<Longrightarrow> vals h' ps = vals h ps"
proof (induction ps)
  case (Cons c cs)
  have "map_option bare (h' c) = map_option bare (h c)" "h c \<noteq> None" using Cons.prems by auto
  then have "bare (the (h' c)) = bare (the (h c))" by auto
  with Cons show ?case by simp
qed simp

lemma vals_frame: "c \<notin> set ps \<Longrightarrow> vals (h(c := v)) ps = vals h ps"
  by (auto simp: vals_def)

text \<open>Cutting a node out of the list: its predecessor, or the head, takes over its \<open>m_next\<close>.\<close>

lemma lseg_snoc: "lseg h p (ps @ [b]) q \<longleftrightarrow> (\<exists>m. lseg h p ps b \<and> b \<noteq> 0 \<and> h b = Some m \<and> m_next m = q)"
  by (auto simp: lseg_append split: option.splits)

lemma lseg_cut:
  assumes l: "lseg h p (ps @ [b, c] @ qs) 0" and d: "distinct (ps @ [b, c] @ qs)"
    and hb: "h b = Some mb" and hc: "h c = Some mc"
  shows "lseg (h(b \<mapsto> mb\<lparr>m_next := m_next mc\<rparr>)) p (ps @ b # qs) 0"
proof -
  have 1: "lseg h p ps b" "b \<noteq> 0" "lseg h (m_next mc) qs 0"
    using l hb hc by (auto simp: lseg_append)
  then have "lseg (h(b \<mapsto> mb\<lparr>m_next := m_next mc\<rparr>)) p ps b"
    and "lseg (h(b \<mapsto> mb\<lparr>m_next := m_next mc\<rparr>)) (m_next mc) qs 0"
    using d by (simp_all add: lseg_frame)
  then show ?thesis using 1 by (auto simp: lseg_append)
qed

section \<open>The walk on lists\<close>

text \<open>A missile is off the record \<open>mp1\<close> here: the state \<open>r\<close> is that of the rest.\<close>

definition rest :: "mp1 \<Rightarrow> mp1" where
  "rest s = s\<lparr>missiles := Map.empty, mp1_missile_list := 0\<rparr>"

definition dot :: "32 word \<Rightarrow> u8 \<Rightarrow> mp1 \<Rightarrow> mp1" where
  "dot eax cl r = (if uint eax < 4000 then r\<lparr>vga := (vga r)(uint eax := cl)\<rparr> else r)"

definition redraw :: "32 word \<Rightarrow> 32 word \<Rightarrow> missile \<Rightarrow> mp1 \<Rightarrow> mp1" where
  "redraw ebx ecx a r = dot (video_offset (drop_bit 16 (m_x a)) (drop_bit 16 (m_y a))) (m_c a)
     (dot (video_offset ebx ecx) ERASE_CHAR r)"

definition struck :: "missile \<Rightarrow> missile \<Rightarrow> missile" where
  "struck m i = (if in_blast m i then i\<lparr>m_exploded := 50\<rparr> else i)"

definition bombed :: "missile \<Rightarrow> mp1 \<Rightarrow> int \<times> mp1" where
  "bombed a r = (if m_c a = CHAR_ENEMY then explode_base (cell_of (m_x a)) (cell_of (m_y a)) r else (0, r))"

definition hits :: "missile \<Rightarrow> missile list \<Rightarrow> nat" where
  "hits a ms = length (filter (in_blast a) ms)"

type_synonym walk = "bool \<times> bool \<times> missile list \<times> missile \<times> missile list \<times> mp1"

text \<open>The result says whether the missile goes away and whether the game changed.\<close>

definition burn :: "missile list \<Rightarrow> missile \<Rightarrow> missile list \<Rightarrow> 32 word \<Rightarrow> 32 word \<Rightarrow> mp1 \<Rightarrow> walk" where
  "burn xs a zs ebx ecx r = (let
     (n, r) = bombed a r;
     k = hits a (xs @ zs);
     r = r\<lparr>mp1_score := mp1_score r + of_nat k\<rparr>;
     left = (if m_exploded a = 0 then 50 else m_exploded a) - 1;
     b = a\<lparr>m_c := EXPLOSION, m_exploded := left\<rparr>;
     hit = (n + int k \<noteq> 0)
   in if 0 < sint left then (False, hit, map (struck a) xs, b, map (struck a) zs, redraw ebx ecx b r)
      else (True, hit, map (struck a) xs, b, map (struck a) zs, dot (video_offset ebx ecx) ERASE_CHAR r))"

definition pass :: "missile list \<Rightarrow> missile \<Rightarrow> missile list \<Rightarrow> mp1 \<Rightarrow> walk" where
  "pass xs a zs r = (let
     ebx = drop_bit 16 (m_x a);
     ecx = drop_bit 16 (m_y a);
     b = a\<lparr>m_x := m_x a + m_vx a, m_y := m_y a + m_vy a\<rparr>
   in if m_exploded a \<noteq> 0 then burn xs a zs ebx ecx r
      else if MAX_COL_INDEX < uint ebx \<or> MAX_ROW_INDEX < uint ecx
        then (True, False, xs, b, zs, dot (video_offset ebx ecx) ERASE_CHAR r)
      else if dest_x a = ebx \<and> dest_y a = ecx then burn xs b zs ebx ecx r
      else if m_x b = ebx \<and> m_y b = ecx then (False, False, xs, b, zs, r)
      else (False, False, xs, b, zs, redraw ebx ecx b r))"

lemma pass_length: "pass xs a zs r = (gone, hit, xs', b, zs', r') \<Longrightarrow> length xs' = length xs \<and> length zs' = length zs"
  by (auto simp: pass_def burn_def Let_def split: prod.splits if_splits)

lemma pass_left: "pass xs a zs r = (gone, hit, xs', b, zs', r') \<Longrightarrow> xs' @ zs' = c # d # ds \<Longrightarrow>
    length xs + length zs = Suc (Suc (length ds))"
  using pass_length [of xs a zs r gone hit xs' b zs' r'] length_append [of xs' zs'] by simp

definition signal :: "bool \<Rightarrow> mp1 \<Rightarrow> mp1" where
  "signal hit r = (if hit then mp1_notify_user r else r)"

text \<open>After a removal the walk starts again behind the first missile.\<close>

function walk :: "missile list \<Rightarrow> missile \<Rightarrow> missile list \<Rightarrow> mp1 \<Rightarrow> (missile list \<times> mp1) option" where
  "walk xs a zs r = (case pass xs a zs r of (gone, hit, xs', b, zs', r') \<Rightarrow>
     if gone then (case xs' @ zs' of
         [] \<Rightarrow> None
       | [c] \<Rightarrow> Some ([c], signal hit r')
       | c # d # ds \<Rightarrow> walk [c] d ds r')
     else (case zs' of
         [] \<Rightarrow> Some (xs' @ [b], signal hit r')
       | d # ds \<Rightarrow> walk (xs' @ [b]) d ds r'))"
  by auto

termination
  by (relation "measures [\<lambda>(xs, a, zs, r). length xs + length zs, \<lambda>(xs, a, zs, r). length zs]")
    (auto dest: pass_left [OF sym] pass_left pass_length [OF sym] pass_length)

declare walk.simps [simp del]

definition sweep :: "missile list \<Rightarrow> mp1 \<Rightarrow> (missile list \<times> mp1) option" where
  "sweep ms r = (case ms of [] \<Rightarrow> Some ([], r) | a # zs \<Rightarrow> walk [] a zs r)"

end
