(* ===== verification/MissileTick.thy ===== *)
theory MissileTick
  imports MissileList
begin

text \<open>The routines on the linked list carry out the walk on the list of missiles.\<close>

section \<open>The screen\<close>

lemma drop_bit_16_less: "uint (drop_bit 16 (w :: 32 word)) < 65536"
proof -
  have "unat (drop_bit 16 w) = unat w div 65536"
    by (simp only: unat_drop_bit_eq) (simp add: drop_bit_eq_div)
  moreover have "unat w < 4294967296" using unsigned_less [of w] by simp
  ultimately have "unat (drop_bit 16 w) < 65536" by simp
  then show ?thesis by (simp only: uint_nat)
qed

lemma uint_video_offset:
  assumes "uint x < 65536" "uint y < 65536"
  shows "uint (video_offset x y) = 2 * uint x + 160 * uint y"
  unfolding video_offset_def using assms
  by (simp add: uint_word_ariths)

lemma sint_of_uint:
  assumes "uint (w :: 32 word) < 2147483648"
  shows "sint w = uint w"
proof -
  have "- 2147483648 \<le> uint w" using uint_ge_0 [of w] by linarith
  with assms show ?thesis by (simp add: sint_uint signed_take_bit_int_eq_self)
qed

lemma poke_below_dot:
  assumes "uint eax < 2147483648" and "even (uint eax)"
  shows "poke_below eax cl s = Some (dot eax cl s)"
proof -
  have "uint eax < 4000 \<longleftrightarrow> \<not> 3998 < uint eax" using assms(2) by presburger
  then show ?thesis by (simp add: poke_below_def mp1_poke_def dot_def sint_of_uint assms(1))
qed

lemma poke_cell:
  assumes "uint x < 65536" "uint y < 65536"
  shows "poke_below (video_offset x y) cl s = Some (dot (video_offset x y) cl s)"
proof (rule poke_below_dot)
  show "uint (video_offset x y) < 2147483648" "even (uint (video_offset x y))"
    using assms by (simp_all add: uint_video_offset)
qed

lemmas poke_cell_16 [simp] = poke_cell [OF drop_bit_16_less drop_bit_16_less]

lemma dot_fields [simp]:
  "missiles (dot eax cl s) = missiles s" "mp1_missile_list (dot eax cl s) = mp1_missile_list s"
  "mp1_score (dot eax cl s) = mp1_score s" "base_alive (dot eax cl s) = base_alive s"
  "crosshairs_x (dot eax cl s) = crosshairs_x s" "crosshairs_y (dot eax cl s) = crosshairs_y s"
  "notified (dot eax cl s) = notified s"
  by (simp_all add: dot_def)

lemma rest_dot [simp]: "rest (dot eax cl s) = dot eax cl (rest s)"
  by (simp add: rest_def dot_def)

lemma rest_put [simp]: "rest (put_missile p m s) = rest s"
  by (simp add: rest_def put_missile_def)

lemma put_missile_fields [simp]:
  "missiles (put_missile p m s) = (missiles s)(p \<mapsto> m)" "mp1_missile_list (put_missile p m s) = mp1_missile_list s"
  "mp1_score (put_missile p m s) = mp1_score s"
  by (simp_all add: put_missile_def)

lemma rest_simps [simp]: "mp1_score (rest s) = mp1_score s" "base_alive (rest s) = base_alive s"
  "rest (s\<lparr>missiles := h\<rparr>) = rest s" "rest (s\<lparr>mp1_missile_list := p\<rparr>) = rest s"
  "rest (s\<lparr>mp1_score := n\<rparr>) = (rest s)\<lparr>mp1_score := n\<rparr>"
  "crosshairs_x (rest s) = crosshairs_x s" "crosshairs_y (rest s) = crosshairs_y s"
  by (simp_all add: rest_def)

lemma deref_node: "lseg h p ps q \<Longrightarrow> c \<in> set ps \<Longrightarrow> missiles s = h \<Longrightarrow> deref s c = h c"
  by (auto simp: deref_def dest: lseg_dom)

section \<open>An explosion\<close>

text \<open>The missiles an explosion at \<open>m\<close> sets off, as the store sees it.\<close>

definition blast :: "int \<Rightarrow> missile \<Rightarrow> int list \<Rightarrow> (int \<Rightarrow> missile option) \<Rightarrow> int \<Rightarrow> missile option" where
  "blast m a ps h p = (if p \<in> set ps \<and> p \<noteq> m then map_option (struck a) (h p) else h p)"

definition strikes :: "int \<Rightarrow> missile \<Rightarrow> int list \<Rightarrow> (int \<Rightarrow> missile option) \<Rightarrow> nat" where
  "strikes m a ps h = length (filter (\<lambda>p. p \<noteq> m \<and> in_blast a (the (h p))) ps)"

lemma in_blast_bare [simp]: "in_blast (bare a) i = in_blast a i" "in_blast a (bare i) = in_blast a i"
  by (simp_all add: in_blast_def)

lemma struck_bare [simp]: "struck a (bare i) = bare (struck a i)" "struck (bare a) = struck a"
  by (simp_all add: struck_def bare_def in_blast_def fun_eq_iff)

lemma struck_next [simp]: "m_next (struck a i) = m_next i"
  by (simp add: struck_def)

lemma explode_loop_blast:
  assumes "lseg (missiles s) i ps 0" "distinct ps" "deref s m = Some a"
  shows "explode_loop m i n s = Some (n + int (strikes m a ps (missiles s)),
    s\<lparr>missiles := blast m a ps (missiles s), mp1_score := mp1_score s + of_nat (strikes m a ps (missiles s))\<rparr>)"
  using assms
proof (induction ps arbitrary: i n s)
  case Nil
  have "blast m a [] (missiles s) = missiles s" by (simp add: fun_eq_iff blast_def)
  with Nil show ?case by (simp add: explode_loop.simps strikes_def)
next
  case (Cons c cs)
  then obtain b where b: "i = c" "c \<noteq> 0" "missiles s c = Some b" "lseg (missiles s) (m_next b) cs 0"
    and d: "c \<notin> set cs" "distinct cs" by (auto split: option.splits)
  show ?case
  proof (cases "c \<noteq> m \<and> in_blast a b")
    case True
    let ?s = "put_missile c (b\<lparr>m_exploded := 50\<rparr>) (s\<lparr>mp1_score := mp1_score s + 1\<rparr>)"
    have l: "lseg (missiles ?s) (m_next b) cs 0" using b d by (simp add: lseg_frame)
    moreover have "deref ?s m = Some a" using Cons.prems(3) True by (auto simp: deref_def)
    ultimately have "explode_loop m (m_next b) (n + 1) ?s = Some (n + 1 + int (strikes m a cs (missiles ?s)),
      ?s\<lparr>missiles := blast m a cs (missiles ?s), mp1_score := mp1_score ?s + of_nat (strikes m a cs (missiles ?s))\<rparr>)"
      using d by (intro Cons.IH [OF l])
    moreover have "strikes m a cs (missiles ?s) = strikes m a cs (missiles s)"
      unfolding strikes_def using d(1) by (intro arg_cong [where f = length] filter_cong) auto
    moreover have "blast m a cs (missiles ?s) = blast m a (c # cs) (missiles s)"
      using True b d by (auto simp: fun_eq_iff blast_def struck_def)
    moreover have "strikes m a (c # cs) (missiles s) = Suc (strikes m a cs (missiles s))"
      using True b by (simp add: strikes_def)
    ultimately show ?thesis using True b Cons.prems(3)
      by (subst explode_loop.simps) (simp add: deref_def put_missile_def algebra_simps)
  next
    case False
    moreover have "explode_loop m (m_next b) n s = Some (n + int (strikes m a cs (missiles s)),
      s\<lparr>missiles := blast m a cs (missiles s), mp1_score := mp1_score s + of_nat (strikes m a cs (missiles s))\<rparr>)"
      using b d Cons.prems(3) by (intro Cons.IH) simp_all
    moreover have "blast m a cs (missiles s) = blast m a (c # cs) (missiles s)"
      using False b d by (auto simp: fun_eq_iff blast_def struck_def)
    moreover have "strikes m a (c # cs) (missiles s) = strikes m a cs (missiles s)"
      using False b by (auto simp: strikes_def)
    ultimately show ?thesis using b Cons.prems(3)
      by (subst explode_loop.simps) (auto simp: deref_def)
  qed
qed

text \<open>The nodes of the list around the current one, and what a pass relies on.\<close>

definition fleet :: "mp1 \<Rightarrow> int list \<Rightarrow> bool" where
  "fleet s ps \<longleftrightarrow> lseg (missiles s) (mp1_missile_list s) ps 0 \<and> distinct ps"

lemma fleet_deref: "fleet s ps \<Longrightarrow> c \<in> set ps \<Longrightarrow> \<exists>m. deref s c = Some m \<and> missiles s c = Some m \<and> c \<noteq> 0"
  by (auto simp: fleet_def deref_def dest: lseg_dom)

lemma fleet_cong:
  assumes "mp1_missile_list t = mp1_missile_list s"
    and "\<And>c. c \<in> set ps \<Longrightarrow> map_option m_next (missiles t c) = map_option m_next (missiles s c)"
    and "fleet s ps"
  shows "fleet t ps"
proof -
  have "lseg (missiles t) p ps 0 = lseg (missiles s) p ps 0" for p by (rule lseg_cong) (rule assms(2))
  with assms(1,3) show ?thesis by (simp add: fleet_def)
qed

lemma strikes_vals:
  assumes "lseg h p (xs @ c # zs) 0" "distinct (xs @ c # zs)"
  shows "strikes c a (xs @ c # zs) h = hits a (vals h (xs @ zs))"
proof -
  have "filter (\<lambda>p. p \<noteq> c \<and> in_blast a (the (h p))) ps = filter (\<lambda>p. in_blast a (the (h p))) ps" if "c \<notin> set ps" for ps
    using that by (intro filter_cong) auto
  from this [of xs] this [of zs] assms(2) show ?thesis
    by (simp add: strikes_def hits_def vals_def filter_map o_def)
qed

lemma vals_blast:
  assumes "\<And>p. p \<in> set xs \<Longrightarrow> h p \<noteq> None" "c \<notin> set xs" "set xs \<subseteq> set ps"
  shows "vals (blast c a ps h) xs = map (struck a) (vals h xs)"
proof -
  have "bare (the (blast c a ps h p)) = struck a (bare (the (h p)))" if "p \<in> set xs" for p
    using assms(1) [OF that] assms(2,3) that by (auto simp: blast_def)
  then show ?thesis by (simp add: vals_def)
qed

lemma rest_explode_base: "map_prod id rest (explode_base x y s) = explode_base x y (rest s)"
  by (simp add: explode_base_def kill_base_def rest_def)

lemma explode_base_fields:
  assumes "explode_base x y s = (n, t)"
  shows "missiles t = missiles s" "mp1_missile_list t = mp1_missile_list s" "mp1_score t = mp1_score s"
    "crosshairs_x t = crosshairs_x s" "crosshairs_y t = crosshairs_y s" "length (base_alive t) = length (base_alive s)"
  using assms by (auto simp: explode_base_def kill_base_def split: if_splits)

text \<open>What \<open>missile_explode\<close> leaves: the others struck, the missile itself primed.\<close>

lemma missile_explode_fleet:
  assumes f: "fleet s (xs @ c # zs)" and a: "missiles s c = Some a"
    and b: "bombed (bare a) (rest s) = (n, r)"
  defines "k \<equiv> hits a (vals (missiles s) (xs @ zs))"
  obtains t where "missile_explode c s = Some (n + int k, t)" "fleet t (xs @ c # zs)"
    "mp1_missile_list t = mp1_missile_list s"
    "missiles t c = Some (a\<lparr>m_exploded := if m_exploded a = 0 then 50 else m_exploded a\<rparr>)"
    "vals (missiles t) xs = map (struck a) (vals (missiles s) xs)"
    "vals (missiles t) zs = map (struck a) (vals (missiles s) zs)"
    "rest t = r\<lparr>mp1_score := mp1_score r + of_nat k\<rparr>"
    "\<And>p. p \<notin> set (xs @ c # zs) \<Longrightarrow> missiles t p = missiles s p"
proof -
  let ?ps = "xs @ c # zs"
  let ?a = "a\<lparr>m_exploded := if m_exploded a = 0 then 50 else m_exploded a\<rparr>"
  define s1 where "s1 = (if m_exploded a = 0 then put_missile c (a\<lparr>m_exploded := 50\<rparr>) s else s)"
  define s2 where "s2 = snd (bombed a s1)"
  have c: "c \<noteq> 0" "c \<notin> set xs" "c \<notin> set zs" using f by (auto simp: fleet_def dest: lseg_dom)
  have m1: "missiles s1 = (missiles s)(c \<mapsto> ?a)" and l1: "mp1_missile_list s1 = mp1_missile_list s"
    and r1: "rest s1 = rest s" using a by (auto simp: s1_def fun_eq_iff)
  have bb: "map_prod id rest (bombed a s1) = bombed (bare a) (rest s1)"
    by (simp add: bombed_def rest_explode_base)
  then have e: "bombed a s1 = (n, s2)" and r2: "rest s2 = r"
    using b r1 by (auto simp: s2_def prod_eq_iff)
  have m2: "missiles s2 = (missiles s)(c \<mapsto> ?a)" and l2: "mp1_missile_list s2 = mp1_missile_list s"
    using e explode_base_fields [of _ _ s1 n s2] m1 l1 by (auto simp: bombed_def split: if_splits)
  have f2: "fleet s2 ?ps"
    by (rule fleet_cong [OF _ _ f]) (use a l2 m2 in auto)
  have d2: "deref s2 c = Some ?a" using c m2 by (simp add: deref_def)
  let ?h = "missiles s2"
  let ?t = "s2\<lparr>missiles := blast c ?a ?ps ?h, mp1_score := mp1_score s2 + of_nat (strikes c ?a ?ps ?h)\<rparr>"
  have ib: "in_blast ?a = in_blast a" by (simp add: in_blast_def fun_eq_iff)
  then have st: "struck ?a = struck a" by (simp add: struck_def fun_eq_iff)
  have vx: "vals ?h xs = vals (missiles s) xs" and vz: "vals ?h zs = vals (missiles s) zs"
    using c by (simp_all add: m2 vals_frame)
  have k: "strikes c ?a ?ps ?h = k"
    using strikes_vals [of ?h "mp1_missile_list s2" xs c zs ?a] f2 vx vz
    by (simp add: fleet_def k_def hits_def ib)
  have "missile_explode c s = explode_loop c (mp1_missile_list s2) n s2"
    using c a e by (simp add: missile_explode_def deref_def s1_def bombed_def Let_def split: if_splits)
  also have "\<dots> = Some (n + int k, ?t)"
    using explode_loop_blast [OF _ _ d2, of _ ?ps n] f2 by (simp add: fleet_def k)
  finally have 1: "missile_explode c s = Some (n + int k, ?t)" .
  have 2: "fleet ?t ?ps" by (rule fleet_cong [OF _ _ f2]) (auto simp: blast_def option.map_comp o_def)
  have dom: "h \<in> set ?ps \<Longrightarrow> ?h h \<noteq> None" for h using f2 by (auto simp: fleet_def dest: lseg_dom)
  show thesis
  proof (rule that [OF 1 2])
    show "mp1_missile_list ?t = mp1_missile_list s" by (simp add: l2)
    show "missiles ?t c = Some ?a" by (simp add: blast_def m2)
    show "vals (missiles ?t) xs = map (struck a) (vals (missiles s) xs)"
      "vals (missiles ?t) zs = map (struck a) (vals (missiles s) zs)"
      using vals_blast [of xs ?h c ?ps ?a] vals_blast [of zs ?h c ?ps ?a] dom c vx vz st
      by (simp_all add: subset_iff)
    show "rest ?t = r\<lparr>mp1_score := mp1_score r + of_nat k\<rparr>" using r2 by (auto simp: k rest_def)
    show "missiles ?t p = missiles s p" if "p \<notin> set ?ps" for p using that m2 by (auto simp: blast_def)
  qed
qed

section \<open>One missile\<close>

definition prev_of :: "int list \<Rightarrow> int" where
  "prev_of xs = (if xs = [] then 0 else List.last xs)"

lemma fleet_nz: "fleet s ps \<Longrightarrow> c \<in> set ps \<Longrightarrow> c \<noteq> 0"
  by (auto simp: fleet_def dest: lseg_dom)

lemma fleet_dot [simp]: "fleet (dot eax cl s) ps = fleet s ps"
  by (simp add: fleet_def)

lemma redraw_simps [simp]: "missiles (redraw ebx ecx a s) = missiles s" "rest (redraw ebx ecx a s) = redraw ebx ecx a (rest s)"
  "mp1_missile_list (redraw ebx ecx a s) = mp1_missile_list s" "redraw ebx ecx (bare a) s = redraw ebx ecx a s"
  by (simp_all add: redraw_def)

lemma erase_redraw_eq:
  assumes "uint ebx < 65536" "uint ecx < 65536" "c \<noteq> 0" "missiles s c = Some a"
  shows "erase_redraw c ebx ecx s = Some (redraw ebx ecx a s)"
  using assms by (simp add: erase_redraw_def redraw_def poke_cell deref_def)

lemma mp1_missile_remove_fleet:
  assumes f: "fleet s (xs @ c # zs)"
  obtains t where "mp1_missile_remove c (prev_of xs) s = Some t" "fleet t (xs @ zs)" "rest t = rest s"
    "missiles t c = missiles s c" "vals (missiles t) xs = vals (missiles s) xs"
    "vals (missiles t) zs = vals (missiles s) zs"
proof (cases xs rule: rev_cases)
  case Nil
  obtain a where a: "deref s c = Some a" "missiles s c = Some a" using fleet_deref [OF f] by auto
  let ?t = "s\<lparr>mp1_missile_list := m_next a\<rparr>"
  have "mp1_missile_remove c (prev_of xs) s = Some ?t"
    using a Nil by (simp add: mp1_missile_remove_def prev_of_def)
  moreover have "fleet ?t (xs @ zs)" using f a Nil by (simp add: fleet_def)
  ultimately show thesis by (rule that) simp_all
next
  case (snoc ys b)
  obtain a where a: "deref s c = Some a" "missiles s c = Some a" using fleet_deref [OF f] by auto
  obtain q where q: "deref s b = Some q" "missiles s b = Some q" "b \<noteq> 0"
    using fleet_deref [OF f, of b] snoc by auto
  let ?t = "put_missile b (q\<lparr>m_next := m_next a\<rparr>) s"
  have d: "b \<notin> set ys" "b \<noteq> c" "b \<notin> set zs" using f snoc by (auto simp: fleet_def)
  have "mp1_missile_remove c (prev_of xs) s = Some ?t"
    using a q snoc by (simp add: mp1_missile_remove_def prev_of_def)
  moreover have "fleet ?t (xs @ zs)"
    using lseg_cut [of "missiles s" "mp1_missile_list s" ys b c zs q a] f a q snoc by (simp add: fleet_def)
  moreover have "bare (q\<lparr>m_next := m_next a\<rparr>) = bare q" by (simp add: bare_def)
  ultimately show thesis using snoc d q by (intro that [of ?t]) (simp_all add: vals_frame)
qed

lemma erase_remove_free_fleet:
  assumes f: "fleet s (xs @ c # zs)" and e: "uint ebx < 65536" "uint ecx < 65536"
  obtains t where "erase_remove_free c (prev_of xs) ebx ecx s = Some t" "fleet t (xs @ zs)"
    "rest t = dot (video_offset ebx ecx) ERASE_CHAR (rest s)"
    "vals (missiles t) xs = vals (missiles s) xs" "vals (missiles t) zs = vals (missiles s) zs"
proof -
  let ?s = "dot (video_offset ebx ecx) ERASE_CHAR s"
  have f': "fleet ?s (xs @ c # zs)" using f by simp
  obtain t where t: "mp1_missile_remove c (prev_of xs) ?s = Some t" "fleet t (xs @ zs)" "rest t = rest ?s"
    "missiles t c = missiles ?s c" "vals (missiles t) xs = vals (missiles ?s) xs"
    "vals (missiles t) zs = vals (missiles ?s) zs" by (rule mp1_missile_remove_fleet [OF f'])
  obtain a where a: "missiles s c = Some a" "c \<noteq> 0" using fleet_deref [OF f] by auto
  have d: "c \<notin> set xs" "c \<notin> set zs" using f by (auto simp: fleet_def)
  let ?t = "t\<lparr>missiles := (missiles t)(c := None)\<rparr>"
  have "erase_remove_free c (prev_of xs) ebx ecx s = Some ?t"
    using t(1,4) a by (simp add: erase_remove_free_def poke_cell e mp1_free_def)
  moreover have "fleet ?t (xs @ zs)" using t(2) d by (simp add: fleet_def lseg_frame)
  ultimately show thesis using t d by (intro that [of ?t]) (simp_all add: vals_frame)
qed

definition passed :: "mp1 \<Rightarrow> int list \<Rightarrow> int \<Rightarrow> int list \<Rightarrow> int \<Rightarrow> bool \<Rightarrow> missile list \<Rightarrow> missile \<Rightarrow> missile list \<Rightarrow> mp1 \<Rightarrow> bool" where
  "passed t xs c zs eax gone ms b ns r \<longleftrightarrow> rest t = r \<and> vals (missiles t) xs = ms \<and> vals (missiles t) zs = ns
     \<and> (if gone then fleet t (xs @ zs) \<and> eax = mp1_missile_list t
        else fleet t (xs @ c # zs) \<and> eax = c \<and> map_option bare (missiles t c) = Some b)"

lemma is_exploding_burn:
  assumes f: "fleet s (xs @ c # zs)" and a: "missiles s c = Some a"
    and e: "uint ebx < 65536" "uint ecx < 65536"
    and b: "burn (vals (missiles s) xs) (bare a) (vals (missiles s) zs) ebx ecx (rest s) = (gone, hit, ms, b, ns, r)"
  shows "\<exists>eax t. is_exploding c (prev_of xs) ebx ecx s = Some (eax, hit, t) \<and> passed t xs c zs eax gone ms b ns r"
proof -
  obtain n q where q: "bombed (bare a) (rest s) = (n, q)" by fastforce
  let ?k = "hits a (vals (missiles s) (xs @ zs))"
  let ?q = "q\<lparr>mp1_score := mp1_score q + of_nat ?k\<rparr>"
  let ?left = "(if m_exploded a = 0 then 50 else m_exploded a) - 1"
  let ?b = "a\<lparr>m_c := EXPLOSION, m_exploded := ?left\<rparr>"
  obtain t where t: "missile_explode c s = Some (n + int ?k, t)" "fleet t (xs @ c # zs)"
    "missiles t c = Some (a\<lparr>m_exploded := if m_exploded a = 0 then 50 else m_exploded a\<rparr>)"
    "vals (missiles t) xs = map (struck a) (vals (missiles s) xs)"
    "vals (missiles t) zs = map (struck a) (vals (missiles s) zs)" "rest t = ?q"
    by (rule missile_explode_fleet [OF f a q])
  let ?u = "put_missile c ?b t"
  have c: "c \<noteq> 0" "c \<notin> set xs" "c \<notin> set zs" using f fleet_nz [OF f] by (auto simp: fleet_def)
  have u: "fleet ?u (xs @ c # zs)" "vals (missiles ?u) xs = vals (missiles t) xs"
    "vals (missiles ?u) zs = vals (missiles t) zs" "missiles ?u c = Some ?b"
    using fleet_cong [OF _ _ t(2), of ?u] t(3) c by (auto simp: vals_frame)
  have bb: "(bare a)\<lparr>m_c := EXPLOSION, m_exploded := ?left\<rparr> = bare ?b" by (simp add: bare_def)
  have h: "hits (bare a) ms = hits a ms" for ms
    by (simp add: hits_def fun_eq_iff [of "in_blast (bare a)" "in_blast a", THEN iffD2])
  have run: "is_exploding c (prev_of xs) ebx ecx s = (if 0 < sint ?left
      then Option.bind (erase_redraw c ebx ecx ?u) (\<lambda>s. Some (c, n + int ?k \<noteq> 0, s))
      else Option.bind (erase_remove_free c (prev_of xs) ebx ecx ?u) (\<lambda>s. Some (mp1_missile_list s, n + int ?k \<noteq> 0, s)))"
    using t(1,3) c by (simp add: is_exploding_def deref_def Let_def del: of_nat_add)
  have B: "burn (vals (missiles s) xs) (bare a) (vals (missiles s) zs) ebx ecx (rest s) =
      (if 0 < sint ?left
       then (False, n + int ?k \<noteq> 0, map (struck a) (vals (missiles s) xs), bare ?b,
         map (struck a) (vals (missiles s) zs), redraw ebx ecx ?b ?q)
       else (True, n + int ?k \<noteq> 0, map (struck a) (vals (missiles s) xs), bare ?b,
         map (struck a) (vals (missiles s) zs), dot (video_offset ebx ecx) ERASE_CHAR ?q))"
    unfolding burn_def Let_def q prod.case bare_simps bb h vals_simps(3) struck_bare redraw_simps ..
  show ?thesis
  proof (cases "0 < sint ?left")
    case True
    then have "(gone, hit, ms, b, ns, r) = (False, n + int ?k \<noteq> 0, map (struck a) (vals (missiles s) xs), bare ?b,
        map (struck a) (vals (missiles s) zs), redraw ebx ecx ?b ?q)"
      using b B by simp
    moreover have "erase_redraw c ebx ecx ?u = Some (redraw ebx ecx ?b ?u)"
      by (rule erase_redraw_eq [OF e c(1) u(4)])
    ultimately show ?thesis using run True t u
      by (intro exI [of _ c] exI [of _ "redraw ebx ecx ?b ?u"]) (simp add: passed_def fleet_def)
  next
    case False
    then have "(gone, hit, ms, b, ns, r) = (True, n + int ?k \<noteq> 0, map (struck a) (vals (missiles s) xs), bare ?b,
        map (struck a) (vals (missiles s) zs), dot (video_offset ebx ecx) ERASE_CHAR ?q)"
      using b B by simp
    moreover obtain v where "erase_remove_free c (prev_of xs) ebx ecx ?u = Some v" "fleet v (xs @ zs)"
      "rest v = dot (video_offset ebx ecx) ERASE_CHAR (rest ?u)"
      "vals (missiles v) xs = vals (missiles ?u) xs" "vals (missiles v) zs = vals (missiles ?u) zs"
      by (rule erase_remove_free_fleet [OF u(1) e])
    ultimately show ?thesis using run False t u
      by (intro exI [of _ "mp1_missile_list v"] exI [of _ v]) (simp add: passed_def)
  qed
qed

lemma xor_zero: "a XOR b = 0 \<longleftrightarrow> a = (b :: 32 word)"
proof
  assume "a XOR b = 0"
  then have "(a XOR b) XOR b = b" by simp
  then show "a = b" by (simp add: xor.assoc)
qed simp

lemma xor_or_zero: "(a XOR b) OR (c XOR d) = 0 \<longleftrightarrow> a = b \<and> c = (d :: 32 word)"
  by (simp add: or_eq_0_iff xor_zero)

lemma sint_drop_16 [simp]: "sint (drop_bit 16 (w :: 32 word)) = uint (drop_bit 16 w)"
  by (rule sint_of_uint) (use drop_bit_16_less [of w] in linarith)

lemma update_missile_pass:
  assumes f: "fleet s (xs @ c # zs)" and a: "missiles s c = Some a"
    and b: "pass (vals (missiles s) xs) (bare a) (vals (missiles s) zs) (rest s) = (gone, hit, ms, b, ns, r)"
  shows "\<exists>eax t. update_missile c (prev_of xs) s = Some (eax, hit, t) \<and> passed t xs c zs eax gone ms b ns r"
proof -
  define ebx where "ebx = drop_bit 16 (m_x a)"
  define ecx where "ecx = drop_bit 16 (m_y a)"
  note e = drop_bit_16_less [of "m_x a", folded ebx_def] drop_bit_16_less [of "m_y a", folded ecx_def]
  let ?b = "a\<lparr>m_x := m_x a + m_vx a, m_y := m_y a + m_vy a\<rparr>"
  let ?s = "put_missile c ?b s"
  have c: "c \<noteq> 0" "c \<notin> set xs" "c \<notin> set zs" "deref s c = Some a"
    using f a fleet_nz [OF f] by (auto simp: fleet_def deref_def)
  have u: "fleet ?s (xs @ c # zs)" "vals (missiles ?s) xs = vals (missiles s) xs"
    "vals (missiles ?s) zs = vals (missiles s) zs" "missiles ?s c = Some ?b"
    using fleet_cong [OF _ _ f, of ?s] a c by (auto simp: vals_frame)
  have bb: "(bare a)\<lparr>m_x := m_x a + m_vx a, m_y := m_y a + m_vy a\<rparr> = bare ?b" by (simp add: bare_def)
  have s: "sint ebx = uint ebx" "sint ecx = uint ecx" by (simp_all add: ebx_def ecx_def)
  let ?off = "79 < uint ebx \<or> 24 < uint ecx"
  let ?at = "dest_x a = ebx \<and> dest_y a = ecx"
  let ?same = "m_x a + m_vx a = ebx \<and> m_y a + m_vy a = ecx"
  have run: "update_missile c (prev_of xs) s = (if m_exploded a \<noteq> 0 then is_exploding c (prev_of xs) ebx ecx s
      else if ?off then Option.bind (erase_remove_free c (prev_of xs) ebx ecx ?s) (\<lambda>s. Some (mp1_missile_list s, False, s))
      else if ?at then is_exploding c (prev_of xs) ebx ecx ?s
      else if ?same then Some (c, False, ?s)
      else Option.bind (erase_redraw c ebx ecx ?s) (\<lambda>s. Some (c, False, s)))"
    unfolding update_missile_def c(4) Option.bind_lunit Let_def ebx_def [symmetric] ecx_def [symmetric] xor_or_zero s
    using uint_ge_0 [of ebx] uint_ge_0 [of ecx] by (simp add: linorder_not_less)
  have B: "(gone, hit, ms, b, ns, r) = (if m_exploded a \<noteq> 0
        then burn (vals (missiles s) xs) (bare a) (vals (missiles s) zs) ebx ecx (rest s)
      else if ?off then (True, False, vals (missiles s) xs, bare ?b, vals (missiles s) zs,
        dot (video_offset ebx ecx) ERASE_CHAR (rest s))
      else if ?at then burn (vals (missiles s) xs) (bare ?b) (vals (missiles s) zs) ebx ecx (rest s)
      else if ?same then (False, False, vals (missiles s) xs, bare ?b, vals (missiles s) zs, rest s)
      else (False, False, vals (missiles s) xs, bare ?b, vals (missiles s) zs, redraw ebx ecx ?b (rest s)))"
    unfolding b [symmetric] pass_def Let_def bare_simps ebx_def [symmetric] ecx_def [symmetric] bb redraw_simps
    by simp
  consider (burning) "m_exploded a \<noteq> 0" | (off) "m_exploded a = 0" ?off | (at) "m_exploded a = 0" "\<not> ?off" ?at
    | (same) "m_exploded a = 0" "\<not> ?off" "\<not> ?at" ?same | (fly) "m_exploded a = 0" "\<not> ?off" "\<not> ?at" "\<not> ?same"
    by blast
  then show ?thesis
  proof cases
    case burning
    then show ?thesis using is_exploding_burn [OF f a e, of gone hit ms b ns r] run B by simp
  next
    case off
    obtain t where t: "erase_remove_free c (prev_of xs) ebx ecx ?s = Some t" "fleet t (xs @ zs)"
      "rest t = dot (video_offset ebx ecx) ERASE_CHAR (rest ?s)"
      "vals (missiles t) xs = vals (missiles ?s) xs" "vals (missiles t) zs = vals (missiles ?s) zs"
      by (rule erase_remove_free_fleet [OF u(1) e])
    have "update_missile c (prev_of xs) s = Some (mp1_missile_list t, False, t)"
      unfolding run t(1) using off by simp
    moreover have "(gone, hit, ms, b, ns, r) = (True, False, vals (missiles s) xs, bare ?b, vals (missiles s) zs,
        dot (video_offset ebx ecx) ERASE_CHAR (rest s))" unfolding B using off by simp
    ultimately show ?thesis using t(2-) u(2,3) by (simp add: passed_def)
  next
    case at
    then have "burn (vals (missiles ?s) xs) (bare ?b) (vals (missiles ?s) zs) ebx ecx (rest ?s) = (gone, hit, ms, b, ns, r)"
      unfolding B u(2,3) rest_put by (simp only: if_False if_True simp_thms)
    from is_exploding_burn [OF u(1,4) e this] show ?thesis unfolding run using at by simp
  next
    case same
    then have "(gone, hit, ms, b, ns, r) = (False, False, vals (missiles s) xs, bare ?b, vals (missiles s) zs, rest s)"
      unfolding B by (simp only: if_False if_True simp_thms)
    moreover have "update_missile c (prev_of xs) s = Some (c, False, ?s)" unfolding run using same
      by (simp only: if_False if_True simp_thms)
    ultimately show ?thesis using u by (simp add: passed_def)
  next
    case fly
    then have "(gone, hit, ms, b, ns, r) = (False, False, vals (missiles s) xs, bare ?b, vals (missiles s) zs,
        redraw ebx ecx ?b (rest s))"
      unfolding B by (simp only: if_False if_True simp_thms)
    moreover have "erase_redraw c ebx ecx ?s = Some (redraw ebx ecx ?b ?s)" by (rule erase_redraw_eq [OF e c(1) u(4)])
    then have "update_missile c (prev_of xs) s = Some (c, False, redraw ebx ecx ?b ?s)" unfolding run using fly
      by (simp only: if_False if_True simp_thms bind.bind_lunit)
    ultimately show ?thesis using u by (simp add: passed_def fleet_def)
  qed
qed

section \<open>The whole list\<close>

lemma prev_of_snoc [simp]: "prev_of [] = 0" "prev_of (xs @ [c]) = c"
  by (simp_all add: prev_of_def)

lemma fleet_first: "fleet s ps \<Longrightarrow> mp1_missile_list s = (case ps of [] \<Rightarrow> 0 | c # cs \<Rightarrow> c)"
  by (auto simp: fleet_def split: list.splits)

lemma fleet_next:
  assumes "fleet s (xs @ c # zs)"
  shows "\<exists>m. deref s c = Some m \<and> m_next m = (case zs of [] \<Rightarrow> 0 | d # ds \<Rightarrow> d)"
proof -
  obtain m where "deref s c = Some m" "missiles s c = Some m" using fleet_deref [OF assms] by auto
  with assms show ?thesis by (auto simp: fleet_def lseg_append split: list.splits)
qed

text \<open>The two sides agree on having no result, and on the result.\<close>

definition agrees :: "mp1 option \<Rightarrow> (missile list \<times> mp1) option \<Rightarrow> bool" where
  "agrees res spec \<longleftrightarrow> (case spec of None \<Rightarrow> res = None
     | Some (ms, r) \<Rightarrow> \<exists>t ps. res = Some t \<and> fleet t ps \<and> vals (missiles t) ps = ms \<and> rest t = r)"

lemma agrees_Some: "fleet t ps \<Longrightarrow> vals (missiles t) ps = ms \<Longrightarrow> rest t = r \<Longrightarrow> agrees (Some t) (Some (ms, r))"
  by (auto simp: agrees_def)

lemma rest_signal: "rest (if hit then mp1_notify_user t else t) = signal hit (rest t)"
  by (simp add: signal_def mp1_notify_user_def rest_def)

lemma fleet_signal: "fleet t ps \<Longrightarrow> fleet (if hit then mp1_notify_user t else t) ps"
  by (simp add: fleet_def mp1_notify_user_def)

lemma missiles_signal: "missiles (if hit then mp1_notify_user t else t) = missiles t"
  by (simp add: mp1_notify_user_def)

lemmas signalled = rest_signal fleet_signal missiles_signal

lemma iterate_list_walk:
  assumes "fleet s (xs @ c # zs)" "missiles s c = Some a"
    and "vals (missiles s) xs = ms" "bare a = b" "vals (missiles s) zs = ns" "rest s = r"
  shows "agrees (iterate_list c (prev_of xs) s) (walk ms b ns r)"
  using assms
proof (induction ms b ns r arbitrary: s xs c zs a rule: walk.induct)
  case (1 ms b ns r)
  obtain gone hit ms' b' ns' r' where p: "pass ms b ns r = (gone, hit, ms', b', ns', r')" by (metis prod_cases6)
  obtain eax t where u: "update_missile c (prev_of xs) s = Some (eax, hit, t)"
    and t: "passed t xs c zs eax gone ms' b' ns' r'"
    using update_missile_pass [of s xs c zs a gone hit ms' b' ns' r'] p 1 by auto
  have v: "vals (missiles t) xs = ms'" "vals (missiles t) zs = ns'" "rest t = r'" using t by (simp_all add: passed_def)
  have run: "iterate_list c (prev_of xs) s = Option.bind (deref t eax) (\<lambda>a. if m_next a = 0
      then Some (if hit then mp1_notify_user t else t) else iterate_list (m_next a) eax t)"
    by (subst iterate_list.simps) (simp add: u)
  show ?case
  proof (cases gone)
    case True
    then have f: "fleet t (xs @ zs)" "eax = mp1_missile_list t" using t by (simp_all add: passed_def)
    have vs: "vals (missiles t) (xs @ zs) = ms' @ ns'" using v by simp
    consider (none) "xs @ zs = []" | (one) d where "xs @ zs = [d]" | (more) d e es where "xs @ zs = d # e # es"
      by (metis neq_Nil_conv)
    then show ?thesis
    proof cases
      case none
      then have "iterate_list c (prev_of xs) s = None"
        unfolding run using f fleet_first [OF f(1)] by (simp add: deref_def)
      moreover have "ms' = []" "ns' = []" using v none by auto
      ultimately show ?thesis by (subst walk.simps) (simp add: p True agrees_def)
    next
      case one
      then have fd: "fleet t ([] @ d # [])" and e: "eax = d" using f fleet_first [OF f(1)] by simp_all
      obtain m where m: "deref t d = Some m" "m_next m = 0" using fleet_next [OF fd] by auto
      define d' where "d' = bare (the (missiles t d))"
      have d': "ms' @ ns' = [d']" "vals (missiles t) [d] = [d']" using vs one by (simp_all add: d'_def)
      have "walk ms b ns r = Some ([d'], signal hit r')" by (subst walk.simps) (simp add: p True d')
      moreover have "agrees (Some (if hit then mp1_notify_user t else t)) (Some ([d'], signal hit r'))"
        by (rule agrees_Some [of _ "[d]"]) (use fd d' v in \<open>simp_all add: signalled del: vals_simps\<close>)
      ultimately show ?thesis unfolding run using m e by simp
    next
      case more
      then have fd: "fleet t ([] @ d # e # es)" and eq: "eax = d" using f fleet_first [OF f(1)] by simp_all
      obtain m where m: "deref t d = Some m" "m_next m = e" using fleet_next [OF fd] by auto
      have fe: "fleet t ([d] @ e # es)" using fd by simp
      obtain a' where a': "missiles t e = Some a'" "e \<noteq> 0" using fleet_deref [OF fe, of e] by auto
      have l: "ms' @ ns' = bare (the (missiles t d)) # bare a' # vals (missiles t) es"
        using vs more a' by simp
      have "agrees (iterate_list e (prev_of [d]) t)
          (walk [bare (the (missiles t d))] (bare a') (vals (missiles t) es) r')"
        by (rule "1.IH"(1) [OF p [symmetric] refl refl refl refl True l refl fe a'(1)])
          (simp_all add: v)
      moreover have "walk ms b ns r = walk [bare (the (missiles t d))] (bare a') (vals (missiles t) es) r'"
        by (subst walk.simps) (simp add: p True l)
      ultimately show ?thesis unfolding run using m eq a' by (simp add: prev_of_def)
    qed
  next
    case False
    then have f: "fleet t (xs @ c # zs)" "eax = c" and bc: "map_option bare (missiles t c) = Some b'"
      using t by (simp_all add: passed_def)
    obtain m where m: "deref t c = Some m" "m_next m = (case zs of [] \<Rightarrow> 0 | d # ds \<Rightarrow> d)"
      using fleet_next [OF f(1)] by auto
    show ?thesis
    proof (cases zs)
      case Nil
      then have "walk ms b ns r = Some (ms' @ [b'], signal hit r')"
        using v by (subst walk.simps) (auto simp add: p False)
      moreover have "agrees (Some (if hit then mp1_notify_user t else t)) (Some (ms' @ [b'], signal hit r'))"
        by (rule agrees_Some [of _ "xs @ c # zs"]) (use f v bc Nil in \<open>auto simp add: signalled\<close>)
      ultimately show ?thesis unfolding run using m f Nil by simp
    next
      case (Cons d ds)
      have fe: "fleet t ((xs @ [c]) @ d # ds)" using f Cons by simp
      obtain a' where a': "missiles t d = Some a'" "d \<noteq> 0" using fleet_deref [OF fe, of d] by auto
      have l: "ns' = bare a' # vals (missiles t) ds" using v Cons a' by simp
      have "agrees (iterate_list d (prev_of (xs @ [c])) t) (walk (ms' @ [b']) (bare a') (vals (missiles t) ds) r')"
        by (rule "1.IH"(2) [OF p [symmetric] refl refl refl refl False l fe a'(1)])
          (use v bc in auto)
      moreover have "walk ms b ns r = walk (ms' @ [b']) (bare a') (vals (missiles t) ds) r'"
        by (subst walk.simps) (simp add: p False l)
      ultimately show ?thesis unfolding run using m f a' Cons by simp
    qed
  qed
qed

lemma update_missiles_sweep:
  assumes "fleet s ps"
  shows "agrees (update_missiles s) (sweep (vals (missiles s) ps) (rest s))"
proof (cases ps)
  case Nil
  then have "mp1_missile_list s = 0" using fleet_first [OF assms] by simp
  then show ?thesis using Nil agrees_Some [OF assms refl refl] by (simp add: update_missiles_def sweep_def)
next
  case (Cons c zs)
  then have "mp1_missile_list s = c" "c \<noteq> 0" using fleet_first [OF assms] fleet_nz [OF assms] by simp_all
  moreover obtain a where "missiles s c = Some a" using fleet_deref [OF assms, of c] Cons by auto
  ultimately show ?thesis
    using iterate_list_walk [of s "[]" c zs a "[]" "bare a" "vals (missiles s) zs" "rest s"] assms Cons
    by (simp add: update_missiles_def sweep_def)
qed

section \<open>The tasklet\<close>

text \<open>The bases and the crosshairs are on the screen.\<close>

definition board_ok :: "mp1 \<Rightarrow> bool" where
  "board_ok s \<longleftrightarrow> length (base_alive s) = 4 \<and> uint (crosshairs_x s) \<le> MAX_COL_INDEX \<and> uint (crosshairs_y s) \<le> MAX_ROW_INDEX"

text \<open>What is drawn last, as writes to the screen in order.\<close>

definition writes :: "(int \<times> u8) list \<Rightarrow> mp1 \<Rightarrow> mp1" where
  "writes ws s = s\<lparr>vga := fold (\<lambda>(p, c) v. v(p := c)) ws (vga s)\<rparr>"

definition city_writes :: "mp1 \<Rightarrow> nat \<Rightarrow> (int \<times> u8) list" where
  "city_writes s i = map (\<lambda>j. (2 * (20 * (int i + 1) - 2 + int j) + 160 * 24,
     (if base_alive s ! i = 0 then dead_base_pic else base_pic) ! j)) [0..<5]"

definition decorate :: "mp1 \<Rightarrow> mp1" where
  "decorate s = writes (concat (map (city_writes s) [0, 1, 2])
     @ [(2 * uint (crosshairs_x s) + 160 * uint (crosshairs_y s), CROSSHAIR)]) s"

lemma pics: "base_pic = [47, 94, 94, 94, 92]" "dead_base_pic = [120, 120, 120, 120, 120]"
  by (simp_all add: base_pic_def dead_base_pic_def)

lemma draw_city_eq:
  assumes "x = 18 \<or> x = 38 \<or> x = 58"
  shows "draw_city bl x s = Some (writes (map (\<lambda>j. (2 * (uint x + int j) + 160 * 24,
    (if bl = 0 then dead_base_pic else base_pic) ! j)) [0..<5]) s)"
  using assms by (cases "bl = 0"; elim disjE)
    (simp_all add: draw_city_def pics mp1_poke_def video_offset_def writes_def upt_rec)

lemma writes_simps [simp]: "base_alive (writes ws s) = base_alive s" "crosshairs_x (writes ws s) = crosshairs_x s"
  "crosshairs_y (writes ws s) = crosshairs_y s" "missiles (writes ws s) = missiles s"
  "mp1_missile_list (writes ws s) = mp1_missile_list s" "rest (writes ws s) = writes ws (rest s)"
  "writes vs (writes ws s) = writes (ws @ vs) s"
  by (simp_all add: writes_def rest_def)

lemma redraw_decorate:
  assumes "board_ok s"
  shows "redraw_cities_crosshairs s = Some (decorate s)"
proof -
  have "uint (video_offset (crosshairs_x s) (crosshairs_y s)) = 2 * uint (crosshairs_x s) + 160 * uint (crosshairs_y s)"
    using assms by (intro uint_video_offset) (auto simp: board_ok_def)
  then show ?thesis using assms
    by (simp add: redraw_cities_crosshairs_def draw_city_eq mp1_poke_def decorate_def board_ok_def
      city_writes_def) (simp add: writes_def)
qed

end
