(* ===== verification/MissileGame.thy ===== *)
theory MissileGame
  imports Missile
begin

text \<open>
  The missile game's user side: \<open>missile-command.c\<close>, the text screen routines of \<open>vga.c\<close>, and the
  calls of \<open>mp1_userspace.c\<close> that stand between the game and \<open>mp1.S\<close>.  The library is a parameter:
  what \<open>getc\<close> finds in the terminal, \<open>rand\<close>, the time of day, the addresses \<open>malloc\<close> returns.
  A division by zero and a write past the text screen are \<open>None\<close>.
\<close>

section \<open>The text screen (\<open>vga.c\<close>)\<close>

definition screen_put :: "int \<Rightarrow> u8 \<Rightarrow> mp1 \<Rightarrow> mp1 option" where
  "screen_put i c s = (if 0 \<le> i \<and> i < 4000 then Some (s\<lparr>vga := (vga s)(i := c)\<rparr>) else None)"

text \<open>The short \<open>0x720\<close> in every cell: a space, then its attribute.\<close>

definition clear_screen :: "mp1 \<Rightarrow> mp1" where
  "clear_screen s = s\<lparr>vga := \<lambda>i. if 0 \<le> i \<and> i < 4000 then if i mod 2 = 0 then 0x20 else 0x07 else vga s i\<rparr>"

definition write_char :: "u8 \<Rightarrow> int \<Rightarrow> int \<Rightarrow> mp1 \<Rightarrow> mp1 option" where
  "write_char c x y s = screen_put (2 * (80 * y + x)) c s"

fun write_chars :: "u8 list \<Rightarrow> int \<Rightarrow> mp1 \<Rightarrow> mp1 option" where
  "write_chars [] i s = Some s"
| "write_chars (c # cs) i s = do { s \<leftarrow> screen_put i c s; write_chars cs (i + 2) s }"

definition write_string :: "u8 list \<Rightarrow> int \<Rightarrow> int \<Rightarrow> mp1 \<Rightarrow> mp1 option" where
  "write_string cs x y s = write_chars cs (2 * (80 * y + x)) s"

text \<open>\<open>80 - strlen(s)\<close> is unsigned.\<close>

definition draw_centered_string :: "u8 list \<Rightarrow> int \<Rightarrow> mp1 \<Rightarrow> mp1 option" where
  "draw_centered_string cs y s = write_string cs (u32 (80 - int (length cs)) div 2) y s"

section \<open>Keys\<close>

datatype command_t = NOKEY | QUIT | LEFT | RIGHT | UP | DOWN | FIRE

definition letter :: "u8 \<Rightarrow> command_t option" where
  "letter ch = (if ch = 0x60 then Some QUIT
     else if ch = 0x20 then Some FIRE
     else if ch = 0x68 then Some LEFT
     else if ch = 0x6A then Some DOWN
     else if ch = 0x6B then Some UP
     else if ch = 0x6C then Some RIGHT
     else None)"

definition arrow :: "u8 \<Rightarrow> command_t option" where
  "arrow ch = (if ch = 0x41 then Some UP
     else if ch = 0x42 then Some DOWN
     else if ch = 0x43 then Some RIGHT
     else if ch = 0x44 then Some LEFT
     else None)"

text \<open>The bytes the terminal holds; \<open>ch\<close> is a \<open>char\<close>, so that the byte 255 equals \<open>EOF\<close>.\<close>

fun command_loop :: "int \<Rightarrow> u8 list \<Rightarrow> command_t \<times> u8 list" where
  "command_loop state [] = (NOKEY, [])"
| "command_loop state (ch # is) = (if ch = 0xFF then (NOKEY, is)
     else case letter ch of
       Some c \<Rightarrow> (c, is)
     | None \<Rightarrow> if ch = 0x1B then command_loop 1 is
         else if ch = 0x5B \<and> state = 1 then command_loop 2 is
         else case (state = 2, arrow ch) of
           (True, Some c) \<Rightarrow> (c, is)
         | _ \<Rightarrow> command_loop 0 is)"

definition get_command :: "u8 list \<Rightarrow> command_t \<times> u8 list" where
  "get_command is = command_loop 0 is"

section \<open>Missiles\<close>

text \<open>The square root is taken in double precision, which is exact here, and cut to an \<open>int\<close>.\<close>

fun sqrt_bits :: "nat \<Rightarrow> int \<Rightarrow> int \<Rightarrow> int" where
  "sqrt_bits 0 n r = r"
| "sqrt_bits (Suc k) n r = sqrt_bits k n (if (r + 2 ^ k) * (r + 2 ^ k) \<le> n then r + 2 ^ k else r)"

definition int_sqrt :: "int \<Rightarrow> int" where
  "int_sqrt n = sqrt_bits 16 n 0"

definition new_missile :: "int \<Rightarrow> int \<Rightarrow> int \<Rightarrow> int \<Rightarrow> u8 \<Rightarrow> int \<Rightarrow> missile option" where
  "new_missile sx sy dx dy c vel = (let
     vx = dx - sx;
     vy = dy - sy;
     mag = int_sqrt (s32 ((vx * vx + vy * vy) * 65536))
   in if mag = 0 then None else Some
     \<lparr>m_next = 0,
      m_x = word_of_int (sx * 65536) OR 0x8000,
      m_y = word_of_int (sy * 65536) OR 0x8000,
      m_vx = word_of_int (c_div (s32 (vx * 65536 * vel)) mag),
      m_vy = word_of_int (c_div (s32 (vy * 65536 * vel)) mag),
      dest_x = word_of_int dx, dest_y = word_of_int dy, m_exploded = 0, m_c = c\<rparr>)"

section \<open>The calls (\<open>mp1_userspace.c\<close>)\<close>

text \<open>\<open>blocked\<close>: the signal of the clock, which runs the tasklet, is held back.\<close>

datatype rtc_call = RTC_STARTGAME | RTC_ADDMISSILE "missile option" | RTC_MOVEXHAIRS "32 word"
  | RTC_GETSTATUS bool | RTC_ENDGAME | RTC_OTHER

record play =
  mp1 :: mp1
  blocked :: bool
  status :: "32 word"
  fired :: int
  score :: int
  bases_left :: int
  chx :: int
  chy :: int
  avg_ival :: int
  ival :: int
  count :: int
  began :: "int \<times> int"

definition fake_cli :: "play \<Rightarrow> play" where
  "fake_cli g = g\<lparr>blocked := True\<rparr>"

definition fake_sti :: "play \<Rightarrow> play" where
  "fake_sti g = g\<lparr>blocked := False\<rparr>"

text \<open>The calls of \<open>mp1.S\<close> end with the signal let through, any other one returns with it held back.\<close>

definition mp1_ioctl :: "int \<Rightarrow> rtc_call \<Rightarrow> play \<Rightarrow> (int \<times> play) option" where
  "mp1_ioctl new cmd g = (case cmd of
     RTC_STARTGAME \<Rightarrow> (let (v, s) = mp1_ioctl_startgame (mp1 g) in Some (v, g\<lparr>mp1 := s\<rparr>))
   | RTC_ADDMISSILE m \<Rightarrow> do { (v, s) \<leftarrow> mp1_ioctl_addmissile new m (mp1 g); Some (v, g\<lparr>mp1 := s\<rparr>) }
   | RTC_MOVEXHAIRS d \<Rightarrow> do { (v, s) \<leftarrow> mp1_ioctl_movexhairs d (mp1 g); Some (v, g\<lparr>mp1 := s\<rparr>) }
   | RTC_GETSTATUS ok \<Rightarrow> (case mp1_ioctl_getstatus new ok (mp1 g) of
       (v, None) \<Rightarrow> Some (v, g)
     | (v, Some w) \<Rightarrow> Some (v, g\<lparr>status := w\<rparr>))
   | RTC_ENDGAME \<Rightarrow> do { s \<leftarrow> mp1_ioctl_endgame (mp1 g); Some (0, g\<lparr>mp1 := s\<rparr>) }
   | RTC_OTHER \<Rightarrow> None)"

definition ioctl :: "int \<Rightarrow> rtc_call \<Rightarrow> play \<Rightarrow> (int \<times> play) option" where
  "ioctl new cmd g = (case cmd of
     RTC_OTHER \<Rightarrow> Some (0, fake_cli g)
   | _ \<Rightarrow> do { (v, g) \<leftarrow> mp1_ioctl new cmd (fake_cli g); Some (v, fake_sti g) })"

section \<open>The game (\<open>missile-command.c\<close>)\<close>

definition make_missile :: "int \<Rightarrow> int \<Rightarrow> int \<Rightarrow> int \<Rightarrow> int \<Rightarrow> u8 \<Rightarrow> int \<Rightarrow> play \<Rightarrow> play option" where
  "make_missile new sx sy dx dy c vel g = do {
     m \<leftarrow> new_missile sx sy dx dy c vel;
     (v, g) \<leftarrow> ioctl new (RTC_ADDMISSILE (Some m)) g;
     Some g }"

definition steps :: "command_t \<Rightarrow> int \<times> int" where
  "steps cmd = (case cmd of LEFT \<Rightarrow> (-1, 0) | RIGHT \<Rightarrow> (1, 0) | UP \<Rightarrow> (0, -1) | DOWN \<Rightarrow> (0, 1) | _ \<Rightarrow> (0, 0))"

definition update_crosshairs :: "int \<Rightarrow> command_t \<Rightarrow> play \<Rightarrow> play option" where
  "update_crosshairs new cmd g = (let (dx, dy) = steps cmd in do {
     g \<leftarrow> (if cmd = FIRE then do {
         g \<leftarrow> make_missile new 79 24 (chx g) (chy g) CHAR_FIRED 200 g;
         Some (g\<lparr>fired := fired g + 1\<rparr>) }
       else Some g);
     if dx \<noteq> 0 \<or> dy \<noteq> 0 then do {
       let x = (if 80 \<le> chx g + dx then 79 else chx g + dx);
       let y = (if 24 \<le> chy g + dy then 24 else chy g + dy);
       let g = g\<lparr>chx := if 0 > x then 0 else x, chy := if 0 > y then 0 else y\<rparr>;
       let d = (word_of_int dx AND 0xFFFF) OR push_bit 16 (word_of_int dy AND 0xFFFF);
       (v, g) \<leftarrow> ioctl new (RTC_MOVEXHAIRS d) g;
       Some g }
     else Some g })"

definition sigusr1_handler :: "int \<Rightarrow> play \<Rightarrow> play option" where
  "sigusr1_handler new g = do {
     (v, g) \<leftarrow> ioctl new (RTC_GETSTATUS True) g;
     if v = 0 then let w = uint (status g) in
       Some (g\<lparr>score := w mod 65536,
         bases_left := (w div 2 ^ 16) mod 2 + (w div 2 ^ 17) mod 2 + (w div 2 ^ 18) mod 2\<rparr>)
     else Some g }"

text \<open>The signal of the clock, and the one the tasklet may send in turn.\<close>

definition clock_signal :: "int \<Rightarrow> play \<Rightarrow> play option" where
  "clock_signal new g = (if blocked g then Some g else do {
     s \<leftarrow> mp1_rtc_tasklet (mp1 g);
     if notified s \<noteq> notified (mp1 g) then sigusr1_handler new (g\<lparr>mp1 := s\<rparr>)
     else Some (g\<lparr>mp1 := s\<rparr>) })"

fun dec_digits :: "nat \<Rightarrow> u8 list" where
  "dec_digits n = (if n < 10 then [of_nat (48 + n)] else dec_digits (n div 10) @ [of_nat (48 + n mod 10)])"

declare dec_digits.simps [simp del]

text \<open>\<open>%3d\<close>\<close>

definition pad3 :: "int \<Rightarrow> u8 list" where
  "pad3 n = (let ds = (if n < 0 then [45] else []) @ dec_digits (nat \<bar>n\<bar>) in
     replicate (3 - length ds) 32 @ ds)"

definition status_text :: "play \<Rightarrow> u8 list" where
  "status_text g = (let percent = (if fired g \<noteq> 0 then c_div (100 * score g) (fired g) else 0) in
     take 79 (str ''[score '' @ pad3 (score g) @ str ''] [fired '' @ pad3 (fired g)
       @ str ''] [accuracy '' @ pad3 percent @ str ''%]   ''))"

definition draw_status_bar_mc :: "play \<Rightarrow> play option" where
  "draw_status_bar_mc g = do { s \<leftarrow> write_string (status_text g) 0 0 (mp1 g); Some (g\<lparr>mp1 := s\<rparr>) }"

definition starting_screen :: "string list" where
  "starting_screen =
    [''                       MISSILE COMMAND                          '',
     ''                      Mark Murphy, 2007                         '',
     ''                                                                '',
     ''                          Commands:                             '',
     ''               space ................. fire missile             '',
     ''          arrow keys ................. move crosshairs          '',
     ''             h,j,k,l ................. move crosshairs (vi-style'',
     ''        ` (backtick) ................. exit the game            '',
     ''                                                                '',
     ''                                                                '',
     ''   Protect your bases by destroying the enemy missiles (e's)    '',
     ''   with your missiles. You get 1 point for each enemy           '',
     ''   missile you destroy. The game ends when your bases are all   '',
     ''   dead or you hit the ` key.                                   '',
     ''                                                                '',
     ''               Press the space bar to continue.                 '']"

fun draw_rows :: "string list \<Rightarrow> int \<Rightarrow> mp1 \<Rightarrow> mp1 option" where
  "draw_rows [] line s = Some s"
| "draw_rows (l # ls) line s = do { s \<leftarrow> draw_centered_string (str l) line s; draw_rows ls (line + 1) s }"

definition draw_starting_screen :: "mp1 \<Rightarrow> mp1 option" where
  "draw_starting_screen s = draw_rows starting_screen 5 (clear_screen s)"

text \<open>The random interval before the next enemy is computed in \<open>unsigned long\<close>.\<close>

definition new_ival :: "int \<Rightarrow> int \<Rightarrow> int" where
  "new_ival avg rnd = u32 (avg + (c_mod rnd 1000000 - 500000))"

definition elapsed :: "int \<times> int \<Rightarrow> int \<times> int \<Rightarrow> int" where
  "elapsed t0 tv = (let sec = fst tv - fst t0; usec = snd tv - snd t0 in
     if usec < 0 then u32 ((sec - 1) * 1000000 + (usec + 1000000)) else u32 (sec * 1000000 + usec))"

text \<open>\<open>rnd\<close> are the four numbers of \<open>rand\<close>: the interval, then the column, the base and the speed.\<close>

definition inject_enemy :: "int \<Rightarrow> int \<times> int \<times> int \<times> int \<Rightarrow> int \<times> int \<Rightarrow> play \<Rightarrow> play option" where
  "inject_enemy new rnd now g = (case rnd of (r0, r1, r2, r3) \<Rightarrow> do {
     let g = g\<lparr>count := count g + 1\<rparr>;
     let g = (if c_mod (count g) 10 = 0 \<and> avg_ival g > 200000 then g\<lparr>avg_ival := avg_ival g - 100000\<rparr> else g);
     let g = g\<lparr>ival := new_ival (avg_ival g) r0\<rparr>;
     g \<leftarrow> make_missile new (c_mod r1 80) 0 (20 * (c_mod r2 3 + 1)) 24 CHAR_ENEMY (c_mod r3 5 + 10) g;
     Some (g\<lparr>began := now\<rparr>) })"

text \<open>One turn of the loop of \<open>main\<close>, on the command \<open>get_command\<close> found.\<close>

definition main_turn :: "int \<Rightarrow> int \<Rightarrow> int \<times> int \<times> int \<times> int \<Rightarrow> int \<times> int \<Rightarrow> int \<times> int \<Rightarrow> command_t \<Rightarrow> play \<Rightarrow> play option" where
  "main_turn new1 new2 rnd tv now cmd g = do {
     g \<leftarrow> draw_status_bar_mc g;
     g \<leftarrow> update_crosshairs new1 cmd g;
     if ival g \<le> elapsed (began g) tv then inject_enemy new2 rnd now g else Some g }"

definition playing :: "command_t \<Rightarrow> play \<Rightarrow> bool" where
  "playing cmd g \<longleftrightarrow> bases_left g \<noteq> 0 \<and> QUIT \<noteq> cmd"

definition first_play :: "int \<Rightarrow> int \<times> int \<Rightarrow> mp1 \<Rightarrow> play" where
  "first_play rnd now s = \<lparr>mp1 = s, blocked = False, status = 0, fired = 0, score = 0, bases_left = 3,
     chx = 40, chy = 12, avg_ival = 4000000, ival = new_ival 4000000 rnd, count = 0, began = now\<rparr>"

text \<open>\<open>main\<close> up to its loop: the space bar has been pressed on the starting screen.\<close>

definition main_start :: "int \<Rightarrow> int \<times> int \<Rightarrow> mp1 \<Rightarrow> play option" where
  "main_start rnd now s = do {
     (v, g) \<leftarrow> ioctl 0 RTC_STARTGAME (first_play rnd now s);
     t \<leftarrow> draw_starting_screen (clear_screen (mp1 g));
     (v, g) \<leftarrow> ioctl 0 RTC_OTHER (g\<lparr>mp1 := clear_screen t\<rparr>);
     (v, g) \<leftarrow> ioctl 0 RTC_OTHER g;
     Some g }"

definition game_over :: "string list" where
  "game_over = [''+--------------------------------+'', ''| Game over. Press space to exit |'',
     ''+--------------------------------+'']"

definition main_end :: "play \<Rightarrow> play option" where
  "main_end g = do {
     (v, g) \<leftarrow> ioctl 0 RTC_ENDGAME g;
     (v, g) \<leftarrow> ioctl 0 RTC_OTHER g;
     s \<leftarrow> draw_rows game_over (25 div 2 - 1) (mp1 g);
     Some (g\<lparr>mp1 := clear_screen s\<rparr>) }"

end
