(* ===== verification/MissileFlight.thy ===== *)
theory MissileFlight
  imports MissileTick MissileGame
begin

text \<open>
  The flight of a missile: positions are fixed-point numbers with 16 fractional bits, the velocity is cut
  to an integer, and the missile explodes only in the very cell it was aimed at.  The rounding never makes it
  miss: the flight passes through that cell, and stays on the screen until then.  This is the flight of a missile that is
  alone on the list; others may hit it on its way.
\<close>

section \<open>The square root\<close>

lemma sqrt_bits_inv:
  "0 \<le> r \<Longrightarrow> r * r \<le> n \<Longrightarrow> n < (r + 2 ^ k) * (r + 2 ^ k) \<Longrightarrow>
    0 \<le> sqrt_bits k n r \<and> sqrt_bits k n r * sqrt_bits k n r \<le> n
      \<and> n < (sqrt_bits k n r + 1) * (sqrt_bits k n r + 1)"
proof (induction k arbitrary: r)
  case (Suc k)
  show ?case
  proof (cases "(r + 2 ^ k) * (r + 2 ^ k) \<le> n")
    case True
    have "(r + 2 ^ k) + 2 ^ k = r + 2 ^ Suc k" by simp
    with True Suc show ?thesis by (simp add: add.assoc)
  next
    case False
    with Suc show ?thesis by simp
  qed
qed simp

lemma int_sqrt:
  assumes "0 \<le> n" "n < 2 ^ 32"
  shows "0 \<le> int_sqrt n" "int_sqrt n * int_sqrt n \<le> n" "n < (int_sqrt n + 1) * (int_sqrt n + 1)"
  using sqrt_bits_inv [of 0 n 16] assms by (simp_all add: int_sqrt_def)

section \<open>Distances\<close>

lemma square_less: "a * a < b * b \<Longrightarrow> 0 \<le> b \<Longrightarrow> a < (b :: int)"
  using mult_mono [of b a b a] by (cases "a < b") auto

text \<open>One coordinate: \<open>v\<close> the distance in cells, \<open>q\<close> the velocity, \<open>t\<close> the rounded flight time.\<close>

lemma velocity_bounds:
  fixes v vel mag :: int
  assumes "0 < mag" "0 < vel" "256 * \<bar>v\<bar> \<le> mag"
  defines "q \<equiv> c_div (v * 65536 * vel) mag"
  shows "\<bar>q\<bar> * mag \<le> \<bar>v\<bar> * 65536 * vel" "\<bar>v\<bar> * 65536 * vel - mag < \<bar>q\<bar> * mag" "\<bar>q\<bar> \<le> 256 * vel"
    "0 \<le> v \<Longrightarrow> 0 \<le> q" "v \<le> 0 \<Longrightarrow> q \<le> 0"
proof -
  define w where "w = \<bar>v\<bar> * 65536 * vel"
  have w: "0 \<le> w" "\<bar>v * 65536 * vel\<bar> = w" using assms(2) by (simp_all add: w_def abs_mult)
  have q: "q = sgn (v * 65536 * vel) * (w div mag)"
    using assms(1) unfolding q_def c_div_def w(2) by simp
  have d: "0 \<le> w div mag" using assms(1) w(1) by (simp only: pos_imp_zdiv_nonneg_iff)
  have s: "sgn (v * 65536 * vel) = sgn v" using assms(2) by (simp add: sgn_mult)
  have z: "v = 0 \<Longrightarrow> w = 0" by (simp add: w_def)
  have aq: "\<bar>q\<bar> = w div mag" unfolding q s using d z by (cases "v = 0") (simp_all add: abs_mult)
  have m: "w = \<bar>q\<bar> * mag + w mod mag" by (simp add: aq)
  have r: "0 \<le> w mod mag" "w mod mag < mag" using assms(1) by simp_all
  show "\<bar>q\<bar> * mag \<le> \<bar>v\<bar> * 65536 * vel" "\<bar>v\<bar> * 65536 * vel - mag < \<bar>q\<bar> * mag"
    unfolding w_def [symmetric] using m r by linarith+
  have "w = (256 * \<bar>v\<bar>) * (256 * vel)" by (simp add: w_def)
  also have "\<dots> \<le> mag * (256 * vel)" using assms(2,3) by (intro mult_right_mono) simp_all
  finally have "w div mag \<le> mag * (256 * vel) div mag" using assms(1) by (rule zdiv_mono1)
  then show "\<bar>q\<bar> \<le> 256 * vel" using assms(1) aq by simp
  show "0 \<le> v \<Longrightarrow> 0 \<le> q" "v \<le> 0 \<Longrightarrow> q \<le> 0"
    unfolding q s using d z by (auto simp: sgn_if)
qed

lemma arrival_abs:
  fixes v vel mag q t :: int
  assumes "0 < mag" "10 \<le> vel" "vel \<le> 200" "256 * v \<le> mag" "0 \<le> v" "mag \<le> 21248"
    and "q * mag \<le> v * 65536 * vel" "v * 65536 * vel - mag < q * mag"
    and "0 \<le> t" "2 * (t * vel - mag) \<le> vel" "2 * (mag - t * vel) \<le> vel"
  shows "t * q - v * 65536 < 32768 \<and> v * 65536 - t * q < 32768"
proof
  define d where "d = t * q - v * 65536"
  have "2 * (t * q * mag) \<le> 2 * (t * (v * 65536 * vel))"
    using mult_left_mono [OF assms(7,9)] unfolding mult.assoc by linarith
  also have "\<dots> = (2 * (t * vel)) * (v * 65536)" by (simp add: algebra_simps)
  also have "\<dots> \<le> (2 * mag + vel) * (v * 65536)" using assms(5,10) by (intro mult_right_mono) simp_all
  finally have 1: "2 * (t * q - v * 65536) * mag \<le> vel * (256 * (256 * v))" by (simp add: algebra_simps)
  also have "\<dots> \<le> vel * (256 * mag)" using assms(2,4) by (intro mult_left_mono) simp_all
  finally have "2 * d * mag \<le> (256 * vel) * mag" by (simp add: algebra_simps d_def)
  then have "2 * d \<le> 256 * vel" using assms(1) by (simp only: mult_le_cancel_right)
  then have "d < 32768" using assms(3) by linarith
  then show "t * q - v * 65536 < 32768" by (simp add: d_def)
  have "t * (v * 65536 * vel - mag) \<le> t * (q * mag)" using assms(8,9) by (intro mult_left_mono) simp_all
  then have "2 * (t * vel) * (v * 65536) - 2 * t * mag \<le> 2 * (t * q) * mag" by (simp add: algebra_simps)
  moreover have "(2 * mag - vel) * (v * 65536) \<le> 2 * (t * vel) * (v * 65536)"
    using assms(5,11) by (intro mult_right_mono) simp_all
  ultimately have "2 * (v * 65536 - t * q) * mag \<le> vel * (256 * (256 * v)) + 2 * t * mag"
    by (simp add: algebra_simps)
  also have "\<dots> \<le> vel * (256 * mag) + 2 * t * mag" using assms(2,4) by simp
  finally have "2 * (- d) * mag \<le> (256 * vel + 2 * t) * mag" by (simp add: algebra_simps d_def)
  then have 2: "2 * (- d) \<le> 256 * vel + 2 * t" using assms(1) by (simp only: mult_le_cancel_right)
  have "t * 10 \<le> t * vel" using assms(2,9) by (intro mult_left_mono) simp_all
  moreover define w where "w = t * vel"
  ultimately have "t * 10 \<le> w" "2 * (w - mag) \<le> vel" using assms(10) by simp_all
  then have "t \<le> 2134" using assms(3,6) by presburger
  with 2 have "- d < 32768" using assms(3) by linarith
  then show "v * 65536 - t * q < 32768" by (simp add: d_def)
qed

section \<open>Launching\<close>

definition launch :: "int \<Rightarrow> int \<Rightarrow> int \<Rightarrow> int" where
  "launch start v t = 65536 * start + 32768 + t * v"

lemma launch_word:
  assumes "0 \<le> sx" "sx < 80"
  shows "word_of_int (sx * 65536) OR 0x8000 = (word_of_int (65536 * sx + 32768) :: 32 word)"
proof -
  have "sx \<in> set [0..79]" using assms by simp
  then have "\<forall>sx \<in> set [0..79]. word_of_int (sx * 65536) OR 0x8000 = (word_of_int (65536 * sx + 32768) :: 32 word)
      \<Longrightarrow> ?thesis" by blast
  moreover have "\<forall>sx \<in> set [0..79]. word_of_int (sx * 65536) OR 0x8000 = (word_of_int (65536 * sx + 32768) :: 32 word)"
    by code_simp
  ultimately show ?thesis by blast
qed

lemma launch_between:
  assumes "0 \<le> t" "t \<le> n" "0 \<le> v \<or> v \<le> 0"
  shows "min (launch s v 0) (launch s v n) \<le> launch s v t \<and> launch s v t \<le> max (launch s v 0) (launch s v n)"
proof -
  have "0 \<le> v \<Longrightarrow> 0 \<le> t * v \<and> t * v \<le> n * v" using assms by (simp add: mult_right_mono)
  moreover have "v \<le> 0 \<Longrightarrow> n * v \<le> t * v \<and> t * v \<le> 0"
    using assms mult_right_mono_neg [of t n v] mult_nonneg_nonpos [of t v] by simp
  ultimately show ?thesis using assms(3) by (auto simp: launch_def min_def max_def)
qed

lemma launch_cell: "launch s v t div 65536 = d \<longleftrightarrow>
    t * v - (d - s) * 65536 < 32768 \<and> (d - s) * 65536 - t * v \<le> 32768"
  unfolding launch_def by (auto simp: algebra_simps)

text \<open>The flight time, one coordinate at a time.\<close>

lemma on_target:
  fixes s d vel mag q t :: int
  assumes "0 < mag" "10 \<le> vel" "vel \<le> 200" "256 * \<bar>d - s\<bar> \<le> mag" "mag \<le> 21248"
    and q: "q = c_div ((d - s) * 65536 * vel) mag"
    and "0 \<le> t" "2 * (t * vel - mag) \<le> vel" "2 * (mag - t * vel) \<le> vel"
  shows "launch s q t div 65536 = d"
proof -
  note b = velocity_bounds [OF assms(1) _ assms(4), of vel, folded q]
  have a: "t * \<bar>q\<bar> - \<bar>d - s\<bar> * 65536 < 32768 \<and> \<bar>d - s\<bar> * 65536 - t * \<bar>q\<bar> < 32768"
    by (rule arrival_abs [OF assms(1-4) _ assms(5) _ _ assms(7-9)]) (use b assms(2) in auto)
  show ?thesis
  proof (cases "0 \<le> d - s")
    case True
    then have "0 \<le> q" using b(4) assms(2) by simp
    then show ?thesis unfolding launch_cell using a True by simp
  next
    case False
    then have "q \<le> 0" using b(5) assms(2) by simp
    then show ?thesis unfolding launch_cell using a False by (simp add: algebra_simps)
  qed
qed

lemma on_the_way:
  assumes "launch s q n div 65536 = d" "0 \<le> s" "s < k" "0 \<le> d" "d < k" "0 \<le> t" "t \<le> n"
  shows "0 \<le> launch s q t" "launch s q t < 65536 * k" "launch s q t div 65536 \<in> {0..<k}"
proof -
  have n: "0 \<le> launch s q n" "launch s q n < 65536 * k" using assms(1,4,5) by linarith+
  have z: "0 \<le> launch s q 0" "launch s q 0 < 65536 * k" using assms(2,3) by (auto simp: launch_def)
  have b: "min (launch s q 0) (launch s q n) \<le> launch s q t \<and> launch s q t \<le> max (launch s q 0) (launch s q n)"
    by (rule launch_between) (use assms in auto)
  show 1: "0 \<le> launch s q t" and 2: "launch s q t < 65536 * k" using b n z by linarith+
  then show "launch s q t div 65536 \<in> {0..<k}" by auto
qed

section \<open>One missile alone\<close>

definition tick :: "missile list \<Rightarrow> mp1 \<Rightarrow> (missile list \<times> mp1) option" where
  "tick ms r = map_option (\<lambda>(ms, r). (ms, decorate r)) (sweep ms r)"

text \<open>What a tick that only moves missiles leaves of the game.\<close>

definition game_of :: "mp1 \<Rightarrow> u8 list \<times> 32 word \<times> 32 word \<times> 32 word" where
  "game_of r = (base_alive r, mp1_score r, crosshairs_x r, crosshairs_y r)"

lemma game_of_simps [simp]: "game_of (dot p c r) = game_of r" "game_of (redraw x y a r) = game_of r"
  "game_of (decorate r) = game_of r" "game_of (signal hit r) = game_of r" "game_of (rest r) = game_of r"
  by (simp_all add: game_of_def redraw_def decorate_def writes_def signal_def mp1_notify_user_def)

definition flown :: "missile \<Rightarrow> int \<Rightarrow> int \<Rightarrow> missile" where
  "flown m x y = m\<lparr>m_x := word_of_int x, m_y := word_of_int y\<rparr>"

lemma uint_word: "0 \<le> x \<Longrightarrow> x < 4294967296 \<Longrightarrow> uint (word_of_int x :: 32 word) = x"
  by (simp add: uint_word_of_int)

lemma uint_cell: "0 \<le> x \<Longrightarrow> x < 4294967296 \<Longrightarrow> uint (drop_bit 16 (word_of_int x) :: 32 word) = x div 65536"
proof -
  assume x: "0 \<le> x" "x < 4294967296"
  then have "unat (word_of_int x :: 32 word) = nat x" by (simp only: unat_eq_nat_uint uint_word)
  then have "unat (drop_bit 16 (word_of_int x :: 32 word)) = nat x div 65536"
    by (simp only: unat_drop_bit_eq) (simp add: drop_bit_eq_div)
  then have "int (unat (drop_bit 16 (word_of_int x :: 32 word))) = x div 65536"
    using x(1) by (simp only:)
  then show ?thesis by simp
qed

lemma pass_flown:
  assumes x: "0 \<le> x" "x < 65536 * 80" and y: "0 \<le> y" "y < 65536 * 25" and e: "m_exploded m = 0"
    and v: "m_vx m = word_of_int p" "m_vy m = word_of_int q"
    and d: "dest_x m = word_of_int dx" "dest_y m = word_of_int dy" "0 \<le> dx" "dx < 80" "0 \<le> dy" "dy < 25"
  shows "if x div 65536 = dx \<and> y div 65536 = dy
    then \<exists>r'. pass [] (flown m x y) [] r = (False, fst (bombed (flown m (x + p) (y + q)) r) \<noteq> 0, [],
        (flown m (x + p) (y + q))\<lparr>m_c := EXPLOSION, m_exploded := 49\<rparr>, [], r')
      \<and> game_of r' = game_of (snd (bombed (flown m (x + p) (y + q)) r))
    else \<exists>r'. pass [] (flown m x y) [] r = (False, False, [], flown m (x + p) (y + q), [], r') \<and> game_of r' = game_of r"
proof -
  let ?X = "drop_bit 16 (word_of_int x :: 32 word)"
  let ?Y = "drop_bit 16 (word_of_int y :: 32 word)"
  let ?b = "flown m (x + p) (y + q)"
  have c: "uint ?X = x div 65536" "uint ?Y = y div 65536" using x y by (simp_all add: uint_cell)
  have off: "\<not> 79 < uint ?X" "\<not> 24 < uint ?Y" unfolding c using x y by linarith+
  have w: "word_of_int d = (u :: 32 word) \<longleftrightarrow> uint u = d" if "0 \<le> d" "d < 80" for d u
    using that uint_word [of d] by auto
  have at: "dest_x m = ?X \<and> dest_y m = ?Y \<longleftrightarrow> x div 65536 = dx \<and> y div 65536 = dy"
    using w [of dx ?X] w [of dy ?Y] d c by auto
  have b: "(flown m x y)\<lparr>m_x := word_of_int x + m_vx m, m_y := word_of_int y + m_vy m\<rparr> = ?b"
    by (simp add: flown_def v)
  have f: "m_x (flown m x y) = word_of_int x" "m_y (flown m x y) = word_of_int y" "m_vx (flown m x y) = m_vx m"
    "m_vy (flown m x y) = m_vy m" "m_exploded (flown m x y) = 0" "dest_x (flown m x y) = dest_x m"
    "dest_y (flown m x y) = dest_y m" "m_exploded ?b = 0" by (simp_all add: flown_def e)
  note P = pass_def [of "[]" "flown m x y" "[]" r, unfolded Let_def f b at]
  show ?thesis
  proof (cases "x div 65536 = dx \<and> y div 65536 = dy")
    case True
    obtain n r1 where nr: "bombed ?b r = (n, r1)" by fastforce
    have "pass [] (flown m x y) [] r = burn [] ?b [] ?X ?Y r" using P True off by simp
    also have "\<dots> = (False, n \<noteq> 0, [], ?b\<lparr>m_c := EXPLOSION, m_exploded := 49\<rparr>, [],
        redraw ?X ?Y (?b\<lparr>m_c := EXPLOSION, m_exploded := 49\<rparr>) r1)"
      by (simp add: burn_def nr hits_def f Let_def)
    finally show ?thesis using True nr by simp
  next
    case False
    then show ?thesis using P off by (auto simp: flown_def)
  qed
qed

lemma tick_flown:
  assumes "pass [] a [] r = (False, hit, [], b, [], r')"
  shows "tick [a] r = Some ([b], decorate (signal hit r'))"
  unfolding tick_def sweep_def by (simp, subst walk.simps) (simp add: assms)

section \<open>Ticks of the clock\<close>

primrec tasklets :: "nat \<Rightarrow> mp1 \<Rightarrow> mp1 option" where
  "tasklets 0 s = Some s"
| "tasklets (Suc n) s = Option.bind (mp1_rtc_tasklet s) (tasklets n)"

lemma tasklets_add: "tasklets (m + n) s = Option.bind (tasklets m s) (tasklets n)"
  by (induction m arbitrary: s) (simp_all split: bind_splits)

lemma board_ok_rest [simp]: "board_ok (rest s) = board_ok s"
  by (simp add: board_ok_def)

lemma board_ok_game: "game_of r' = game_of r \<Longrightarrow> board_ok r \<Longrightarrow> board_ok r'"
  by (simp add: game_of_def board_ok_def)

text \<open>No tick moves the crosshairs, or adds or drops a base.\<close>

definition same_board :: "mp1 \<Rightarrow> mp1 \<Rightarrow> bool" where
  "same_board r r' \<longleftrightarrow> crosshairs_x r' = crosshairs_x r \<and> crosshairs_y r' = crosshairs_y r
     \<and> length (base_alive r') = length (base_alive r)"

lemma same_board_screen: "same_board r r' \<Longrightarrow> board_ok r' = board_ok r"
  by (simp add: same_board_def board_ok_def)

lemma bombed_board: "bombed a r = (n, r') \<Longrightarrow> same_board r r'"
  by (auto simp: bombed_def same_board_def dest: explode_base_fields split: if_splits)

lemma same_board_simps [simp]: "same_board r r" "same_board r (dot p c r') = same_board r r'"
  "same_board r (redraw x y a r') = same_board r r'" "same_board r (r'\<lparr>mp1_score := n\<rparr>) = same_board r r'"
  by (simp_all add: same_board_def redraw_def)

lemma burn_board:
  assumes "burn xs a zs ebx ecx r = (gone, hit, xs', b, zs', r')"
  shows "same_board r r'"
proof -
  obtain n q where q: "bombed a r = (n, q)" by fastforce
  have "same_board r q" by (rule bombed_board [OF q])
  moreover have "\<exists>x y c d. r' = redraw x y c (q\<lparr>mp1_score := d\<rparr>) \<or> r' = dot x ERASE_CHAR (q\<lparr>mp1_score := d\<rparr>)"
    using assms unfolding burn_def q Let_def prod.case by (auto split: if_splits)
  ultimately show ?thesis by auto
qed

lemma pass_board: "pass xs a zs r = (gone, hit, xs', b, zs', r') \<Longrightarrow> same_board r r'"
  unfolding pass_def Let_def by (auto split: if_splits dest: burn_board)

lemma walk_board: "walk xs a zs r = Some (ms, r') \<Longrightarrow> same_board r r'"
proof (induction xs a zs r rule: walk.induct)
  case (1 xs a zs r)
  obtain gone hit xs' b zs' q where p: "pass xs a zs r = (gone, hit, xs', b, zs', q)" by (metis prod_cases6)
  have q: "same_board r q" "same_board r (signal hit q)" "same_board q r' \<Longrightarrow> same_board r r'"
    using pass_board [OF p] by (simp_all add: signal_def same_board_def mp1_notify_user_def)
  show ?case
  proof (cases gone)
    case True
    then show ?thesis using "1.prems"(1) q "1.IH"(1) [OF p [symmetric] refl refl refl refl True]
      by (subst (asm) walk.simps) (auto simp: p split: list.splits)
  next
    case False
    then show ?thesis using "1.prems"(1) q "1.IH"(2) [OF p [symmetric] refl refl refl refl False]
      by (subst (asm) walk.simps) (auto simp: p split: list.splits)
  qed
qed

lemma sweep_board: "sweep ms r = Some (ns, r') \<Longrightarrow> same_board r r'"
  using walk_board by (auto simp: sweep_def same_board_def split: list.splits)

lemma tasklet_tick:
  assumes f: "fleet s ps" and o: "board_ok s"
  shows "agrees (mp1_rtc_tasklet s) (tick (vals (missiles s) ps) (rest s))"
proof (cases "sweep (vals (missiles s) ps) (rest s)")
  case None
  then show ?thesis using update_missiles_sweep [OF f]
    by (simp add: agrees_def mp1_rtc_tasklet_def tick_def)
next
  case (Some w)
  obtain ms r where w: "w = (ms, r)" by fastforce
  obtain t qs where t: "update_missiles s = Some t" "fleet t qs" "vals (missiles t) qs = ms" "rest t = r"
    using update_missiles_sweep [OF f] by (auto simp: agrees_def Some w)
  have "board_ok r" using same_board_screen [OF sweep_board [OF Some [unfolded w]]] o by simp
  then have "redraw_cities_crosshairs t = Some (decorate t)"
    using redraw_decorate [of t] t(4) by (metis board_ok_rest)
  moreover have "fleet (decorate t) qs" "vals (missiles (decorate t)) qs = ms" "rest (decorate t) = decorate r"
    using t by (simp_all add: decorate_def fleet_def city_writes_def flip: t(4))
  ultimately show ?thesis unfolding tick_def Some w mp1_rtc_tasklet_def t(1)
    by (simp add: agrees_Some)
qed

text \<open>The list holds one missile.\<close>

definition alone :: "missile \<Rightarrow> mp1 \<Rightarrow> bool" where
  "alone a s \<longleftrightarrow> (\<exists>p. fleet s [p] \<and> vals (missiles s) [p] = [a])"

lemma alone_tick:
  assumes "alone a s" "board_ok s" "tick [a] (rest s) = Some ([b], r)"
  shows "\<exists>t. mp1_rtc_tasklet s = Some t \<and> alone b t \<and> rest t = r"
proof -
  obtain p where p: "fleet s [p]" "vals (missiles s) [p] = [a]" using assms(1) by (auto simp: alone_def)
  obtain t ps where t: "mp1_rtc_tasklet s = Some t" "fleet t ps" "vals (missiles t) ps = [b]" "rest t = r"
    using tasklet_tick [OF p(1) assms(2)] unfolding p(2) assms(3) by (auto simp: agrees_def)
  have "length ps = 1" using vals_simps(4) [of "missiles t" ps] unfolding t(3) by simp
  then obtain q where "ps = [q]" by (auto simp: length_Suc_conv)
  with t show ?thesis by (auto simp: alone_def)
qed

text \<open>A missile in flight: where it starts, its velocity and its target.\<close>

definition flight :: "missile \<Rightarrow> int \<Rightarrow> int \<Rightarrow> int \<Rightarrow> int \<Rightarrow> bool" where
  "flight m p q dx dy \<longleftrightarrow> m_exploded m = 0 \<and> m_vx m = word_of_int p \<and> m_vy m = word_of_int q
     \<and> dest_x m = word_of_int dx \<and> dest_y m = word_of_int dy \<and> 0 \<le> dx \<and> dx < 80 \<and> 0 \<le> dy \<and> dy < 25"

lemma flight_tick:
  assumes m: "flight m p q dx dy" and x: "0 \<le> x" "x < 65536 * 80" and y: "0 \<le> y" "y < 65536 * 25"
    and n: "\<not> (x div 65536 = dx \<and> y div 65536 = dy)" and s: "alone (flown m x y) s" "board_ok s"
  shows "\<exists>t. mp1_rtc_tasklet s = Some t \<and> alone (flown m (x + p) (y + q)) t \<and> game_of t = game_of s"
proof -
  obtain r' where r': "pass [] (flown m x y) [] (rest s) = (False, False, [], flown m (x + p) (y + q), [], r')"
    "game_of r' = game_of (rest s)"
    using pass_flown [of x y m p q dx dy "rest s"] m x y n by (auto simp: flight_def)
  obtain t where "mp1_rtc_tasklet s = Some t" "alone (flown m (x + p) (y + q)) t" "rest t = decorate (signal False r')"
    using alone_tick [OF s tick_flown [OF r'(1)]] by auto
  moreover have "game_of t = game_of (rest t)" by simp
  ultimately show ?thesis using r'(2) by auto
qed

lemma flight_arrives:
  assumes m: "flight m p q dx dy" and x: "0 \<le> x" "x < 65536 * 80" and y: "0 \<le> y" "y < 65536 * 25"
    and n: "x div 65536 = dx" "y div 65536 = dy" and s: "alone (flown m x y) s" "board_ok s"
  shows "\<exists>t. mp1_rtc_tasklet s = Some t
    \<and> alone ((flown m (x + p) (y + q))\<lparr>m_c := EXPLOSION, m_exploded := 49\<rparr>) t
    \<and> base_alive t = base_alive (snd (bombed (flown m (x + p) (y + q)) (rest s)))"
proof -
  let ?b = "flown m (x + p) (y + q)"
  obtain hit r' where r': "pass [] (flown m x y) [] (rest s)
      = (False, hit, [], ?b\<lparr>m_c := EXPLOSION, m_exploded := 49\<rparr>, [], r')"
    "game_of r' = game_of (snd (bombed ?b (rest s)))"
    using pass_flown [of x y m p q dx dy "rest s"] m x y n by (auto simp: flight_def)
  obtain t where t: "mp1_rtc_tasklet s = Some t" "alone (?b\<lparr>m_c := EXPLOSION, m_exploded := 49\<rparr>) t"
    "rest t = decorate (signal hit r')"
    using alone_tick [OF s tick_flown [OF r'(1)]] by auto
  have "game_of t = game_of (rest t)" by simp
  then have "game_of t = game_of (snd (bombed ?b (rest s)))" using r'(2) t(3) by simp
  with t show ?thesis by (simp add: game_of_def)
qed

lemma flight_run:
  assumes m: "flight m p q dx dy" and s: "alone (flown m (launch sx p 0) (launch sy q 0)) s" "board_ok s"
    and on: "\<And>t. 0 \<le> t \<Longrightarrow> t < n \<Longrightarrow> 0 \<le> launch sx p t \<and> launch sx p t < 65536 * 80
      \<and> 0 \<le> launch sy q t \<and> launch sy q t < 65536 * 25"
    and before: "\<And>t. 0 \<le> t \<Longrightarrow> t < n \<Longrightarrow> \<not> (launch sx p t div 65536 = dx \<and> launch sy q t div 65536 = dy)"
  shows "int k \<le> n \<Longrightarrow> \<exists>t. tasklets k s = Some t \<and> alone (flown m (launch sx p (int k)) (launch sy q (int k))) t
    \<and> game_of t = game_of s"
proof (induction k)
  case (Suc k)
  then obtain t where t: "tasklets k s = Some t" "alone (flown m (launch sx p (int k)) (launch sy q (int k))) t"
    "game_of t = game_of s" by auto
  have o: "board_ok t" using board_ok_game [OF t(3) s(2)] .
  have l: "launch sx p (int k) + p = launch sx p (int (Suc k))" "launch sy q (int k) + q = launch sy q (int (Suc k))"
    by (simp_all add: launch_def algebra_simps)
  obtain u where u: "mp1_rtc_tasklet t = Some u" "alone (flown m (launch sx p (int (Suc k))) (launch sy q (int (Suc k)))) u"
    "game_of u = game_of t"
    using flight_tick [OF m _ _ _ _ _ t(2) o] on [of "int k"] before [of "int k"] Suc.prems unfolding l by auto
  have "tasklets (k + 1) s = Some u" by (subst tasklets_add) (simp add: t u)
  with u t show ?case by auto
qed (use s in \<open>auto\<close>)

section \<open>Every missile reaches its target\<close>

lemma square_bound: "a * a \<le> 79 * 79 \<Longrightarrow> b * b \<le> 24 * 24 \<Longrightarrow> a * a + b * b \<le> (6817 :: int)"
  by linarith

lemma abs_square: "\<bar>a\<bar> \<le> b \<Longrightarrow> a * a \<le> b * (b :: int)"
  using mult_mono [of "\<bar>a\<bar>" b "\<bar>a\<bar>" b] by simp

text \<open>What \<open>make_missile\<close> computes, over the integers.\<close>

lemma new_missile_flight:
  assumes m: "new_missile sx sy dx dy c vel = Some m" and v: "10 \<le> vel" "vel \<le> 200"
    and s: "0 \<le> sx" "sx < 80" "0 \<le> sy" "sy < 25" and d: "0 \<le> dx" "dx < 80" "0 \<le> dy" "dy < 25"
  obtains p q n where "flight m p q dx dy" "bare m = flown m (launch sx p 0) (launch sy q 0)" "m_c m = c"
    "\<bar>p\<bar> < 65536" "\<bar>q\<bar> < 65536" "0 \<le> n" "n \<le> 2200"
    "launch sx p n div 65536 = dx" "launch sy q n div 65536 = dy"
proof -
  define a where "a = dx - sx"
  define b where "b = dy - sy"
  define mag where "mag = int_sqrt (s32 ((a * a + b * b) * 65536))"
  have ab: "\<bar>a\<bar> \<le> 79" "\<bar>b\<bar> \<le> 24" using s d by (auto simp: a_def b_def)
  have sq: "a * a \<le> 79 * 79" "b * b \<le> 24 * 24" using ab abs_square by blast+
  have nn: "0 \<le> a * a" "0 \<le> b * b" by simp_all
  define N where "N = a * a + b * b"
  have N: "0 \<le> N" "N \<le> 6817" using square_bound [OF sq] nn by (simp_all add: N_def)
  then have s2: "s32 ((a * a + b * b) * 65536) = N * 65536" unfolding N_def [symmetric] by (intro s32_id) auto
  have r: "0 \<le> mag" "mag * mag \<le> (a * a + b * b) * 65536" "(a * a + b * b) * 65536 < (mag + 1) * (mag + 1)"
    using int_sqrt [of "N * 65536"] N unfolding mag_def s2 N_def [symmetric] by auto
  have m0: "mag \<noteq> 0" using m by (auto simp: new_missile_def mag_def a_def b_def Let_def split: if_splits)
  then have pos: "0 < mag" using r(1) by simp
  have le: "256 * \<bar>w\<bar> \<le> mag" if "w = a \<or> w = b" for w
  proof -
    have "(256 * \<bar>w\<bar>) * (256 * \<bar>w\<bar>) = w * w * 65536" by simp
    also have "\<dots> \<le> (a * a + b * b) * 65536" using that nn by auto
    also have "\<dots> < (mag + 1) * (mag + 1)" by (rule r(3))
    finally have "256 * \<bar>w\<bar> < mag + 1" by (rule square_less) (use pos in simp)
    then show ?thesis by simp
  qed
  have "mag * mag \<le> 6817 * 65536" using r(2) N(2) unfolding N_def [symmetric] by linarith
  then have "mag * mag < 21249 * 21249" by linarith
  then have "mag < 21249" by (rule square_less) simp
  then have top: "mag \<le> 21248" by simp
  have ov: "s32 (w * 65536 * vel) = w * 65536 * vel" if "\<bar>w\<bar> \<le> 79" for w
  proof (rule s32_id)
    have "\<bar>w * 65536 * vel\<bar> = \<bar>w\<bar> * 65536 * vel" using v by (simp add: abs_mult)
    also have "\<dots> \<le> (79 * 65536) * 200" using that v by (intro mult_mono) auto
    finally have "\<bar>w * 65536 * vel\<bar> \<le> 1035468800" by simp
    then show "- 2147483648 \<le> w * 65536 * vel" "w * 65536 * vel < 2147483648" by linarith+
  qed
  define p where "p = c_div (a * 65536 * vel) mag"
  define q where "q = c_div (b * 65536 * vel) mag"
  have me: "m = \<lparr>m_next = 0, m_x = word_of_int (launch sx p 0), m_y = word_of_int (launch sy q 0),
      m_vx = word_of_int p, m_vy = word_of_int q, dest_x = word_of_int dx, dest_y = word_of_int dy,
      m_exploded = 0, m_c = c\<rparr>"
  proof -
    have "\<bar>b\<bar> \<le> 79" "sy < 80" using ab s by simp_all
    from m show ?thesis
      unfolding new_missile_def Let_def a_def [symmetric] b_def [symmetric] mag_def [symmetric]
        ov [OF ab(1)] ov [OF \<open>\<bar>b\<bar> \<le> 79\<close>] launch_word [OF s(1,2)] launch_word [OF s(3) \<open>sy < 80\<close>] if_not_P [OF m0]
      by (simp only: option.inject p_def q_def launch_def mult_zero_left add_0_right)
  qed
  define n where "n = (2 * mag + vel) div (2 * vel)"
  have n: "2 * (n * vel - mag) \<le> vel" "2 * (mag - n * vel) \<le> vel" "0 \<le> n"
  proof -
    have e: "2 * mag + vel = 2 * vel * n + (2 * mag + vel) mod (2 * vel)" by (simp add: n_def)
    have b: "0 \<le> (2 * mag + vel) mod (2 * vel)" "(2 * mag + vel) mod (2 * vel) < 2 * vel" using v by simp_all
    have c: "2 * (n * vel) = 2 * vel * n" by simp
    show "2 * (n * vel - mag) \<le> vel" "2 * (mag - n * vel) \<le> vel"
      unfolding right_diff_distrib c using e b by linarith+
    show "0 \<le> n" unfolding n_def using v pos by (simp add: pos_imp_zdiv_nonneg_iff)
  qed
  show thesis
  proof (rule that [of p q n])
    show "flight m p q dx dy" using d by (simp add: me flight_def)
    show "bare m = flown m (launch sx p 0) (launch sy q 0)" by (simp add: me bare_def flown_def)
    show "m_c m = c" by (simp add: me)
    show "\<bar>p\<bar> < 65536" "\<bar>q\<bar> < 65536"
      using velocity_bounds(3) [OF pos _ le, of vel a] velocity_bounds(3) [OF pos _ le, of vel b] v
      by (simp_all add: p_def q_def)
    show "launch sx p n div 65536 = dx" "launch sy q n div 65536 = dy"
      by (rule on_target [OF pos v _ top _ n(3,1,2)]; use le in \<open>simp add: p_def q_def a_def b_def\<close>)+
    show "0 \<le> n" by (rule n)
    have "n * 10 \<le> n * vel" using n(3) v by (intro mult_left_mono) simp_all
    moreover define w where "w = n * vel"
    ultimately have "n * 10 \<le> w" "2 * (w - mag) \<le> vel" using n by simp_all
    then show "n \<le> 2200" using v top by presburger
  qed
qed

lemma cell_near:
  assumes "\<bar>x\<bar> < 2147483648 - 65536" "\<bar>p\<bar> < 65536" "x div 65536 = d"
  shows "\<bar>cell_of (word_of_int (x + p)) - d\<bar> \<le> 1"
proof -
  have "sint (word_of_int (x + p) :: 32 word) = x + p"
    using assms(1,2) by (subst signed_of_int) (simp add: signed_take_bit_int_eq_self)
  then have "cell_of (word_of_int (x + p)) = (x + p) div 65536" by (simp add: cell_of_def)
  moreover have "(x - 65536) div 65536 \<le> (x + p) div 65536" "(x + p) div 65536 \<le> (x + 65536) div 65536"
    using assms(2) by (auto intro: zdiv_mono1)
  moreover have "(x - 65536) div 65536 = d - 1" "(x + 65536) div 65536 = d + 1"
    using assms(3) div_mult_self1 [of 65536 x "-1"] by simp_all
  ultimately show ?thesis by simp
qed

lemma launched_alone:
  assumes "p \<noteq> 0" "mp1_missile_list s = 0" "mp1_ioctl_addmissile p (Some m) s = Some (0, t)" "bare m = a"
  shows "alone a t" "game_of t = game_of s"
  using assms by (auto simp: mp1_ioctl_addmissile_def alone_def fleet_def put_missile_def bare_def game_of_def)

lemma bombed_base:
  assumes "m_c a = CHAR_ENEMY" "cell_of (m_x a) \<in> {20 * int k + 17 .. 20 * int k + 23}" "23 \<le> cell_of (m_y a)" "k < 3"
    "length (base_alive r) = 4"
  shows "base_alive (snd (bombed a r)) ! k = 0"
proof -
  have "k = 0 \<or> k = 1 \<or> k = 2" using assms(4) by auto
  then show ?thesis using assms by (elim disjE) (auto simp: bombed_def explode_base_def kill_base_def)
qed

text \<open>A missile alone on the list: after \<open>k\<close> ticks it has gone \<open>k\<close> times its velocity, in a straight line, and neither
  the bases nor the score have changed.\<close>

definition on_course :: "missile \<Rightarrow> int \<Rightarrow> int \<Rightarrow> mp1 \<Rightarrow> nat \<Rightarrow> bool" where
  "on_course m sx sy s k \<longleftrightarrow> (\<exists>u. tasklets k s = Some u
     \<and> alone (flown m (launch sx (sint (m_vx m)) (int k)) (launch sy (sint (m_vy m)) (int k))) u
     \<and> base_alive u = base_alive s \<and> mp1_score u = mp1_score s)"

text \<open>The cell in which it is then.\<close>

definition cell_at :: "missile \<Rightarrow> int \<Rightarrow> int \<Rightarrow> nat \<Rightarrow> int \<times> int" where
  "cell_at m sx sy k = (launch sx (sint (m_vx m)) (int k) div 65536, launch sy (sint (m_vy m)) (int k) div 65536)"

text \<open>The first tick at which the missile is in the cell it was aimed at, and the tick after it.\<close>

lemma missile_arrival:
  assumes m: "flight m p q dx dy" and s: "alone (flown m (launch sx p 0) (launch sy q 0)) s" "board_ok s"
    and c: "0 \<le> sx" "sx < 80" "0 \<le> sy" "sy < 25" and pq: "p = sint (m_vx m)" "q = sint (m_vy m)"
    and T: "0 \<le> T" "launch sx p T div 65536 = dx" "launch sy q T div 65536 = dy"
  obtains n t u where "int n \<le> T" "\<forall>k \<le> n. on_course m sx sy s k"
    "\<forall>k \<le> n. cell_at m sx sy k = (dx, dy) \<longleftrightarrow> k = n"
    "tasklets (Suc n) s = Some t"
    "alone ((flown m (launch sx p (int n) + p) (launch sy q (int n) + q))\<lparr>m_c := EXPLOSION, m_exploded := 49\<rparr>) t"
    "base_alive t = base_alive (snd (bombed (flown m (launch sx p (int n) + p) (launch sy q (int n) + q)) (rest u)))"
    "board_ok u" "launch sx p (int n) div 65536 = dx" "launch sy q (int n) div 65536 = dy"
proof -
  let ?at = "\<lambda>k :: nat. launch sx p (int k) div 65536 = dx \<and> launch sy q (int k) div 65536 = dy"
  define n where "n = (LEAST k. ?at k)"
  have at: "?at (nat T)" using T by simp
  then have n: "?at n" "n \<le> nat T" unfolding n_def by (rule LeastI, rule Least_le)
  have d: "0 \<le> dx" "dx < 80" "0 \<le> dy" "dy < 25" using m by (simp_all add: flight_def)
  have on: "0 \<le> launch sx p k \<and> launch sx p k < 65536 * 80 \<and> 0 \<le> launch sy q k \<and> launch sy q k < 65536 * 25"
    if "0 \<le> k" "k \<le> T" for k
    using on_the_way [OF T(2) c(1,2) d(1,2) that] on_the_way [OF T(3) c(3,4) d(3,4) that] by simp
  have before: "\<not> (launch sx p k div 65536 = dx \<and> launch sy q k div 65536 = dy)" if "0 \<le> k" "k < int n" for k
    using not_less_Least [of "nat k" ?at] that by (auto simp: n_def)
  have nT: "int n \<le> T" using n(2) T(1) by simp
  have way: "\<exists>t. tasklets k s = Some t \<and> alone (flown m (launch sx p (int k)) (launch sy q (int k))) t \<and> game_of t = game_of s"
    if "k \<le> n" for k
    using flight_run [OF m s, of "int n" k] on before nT that by auto
  then have course: "on_course m sx sy s k" if "k \<le> n" for k
    using that unfolding on_course_def pq [symmetric] game_of_def by fastforce
  have cells: "cell_at m sx sy k = (dx, dy) \<longleftrightarrow> k = n" if "k \<le> n" for k
    using n(1) before [of "int k"] that by (cases "k = n") (simp_all add: cell_at_def pq [symmetric])
  obtain u where u: "tasklets n s = Some u" "alone (flown m (launch sx p (int n)) (launch sy q (int n))) u"
    "game_of u = game_of s"
    using way [of n] by auto
  have ou: "board_ok u" using board_ok_game [OF u(3) s(2)] .
  obtain t where t: "mp1_rtc_tasklet u = Some t"
    "alone ((flown m (launch sx p (int n) + p) (launch sy q (int n) + q))\<lparr>m_c := EXPLOSION, m_exploded := 49\<rparr>) t"
    "base_alive t = base_alive (snd (bombed (flown m (launch sx p (int n) + p) (launch sy q (int n) + q)) (rest u)))"
    using flight_arrives [OF m _ _ _ _ _ _ u(2) ou] on [of "int n"] n(1) nT by auto
  have "tasklets (n + 1) s = Some t" by (subst tasklets_add) (simp add: u t)
  then have r: "tasklets (Suc n) s = Some t" by simp
  show thesis
    by (rule that [OF nT _ _ r t(2,3) ou]) (use course cells n(1) in auto)
qed

text \<open>The missile explodes where that tick has moved it, at most one cell further.\<close>

lemma explosion_near:
  assumes "launch sx p (int n) div 65536 = d" "0 \<le> d" "d < 80" "\<bar>p\<bar> < 65536"
  shows "\<bar>cell_of (word_of_int (launch sx p (int n) + p)) - d\<bar> \<le> 1"
proof (rule cell_near [OF _ assms(4,1)])
  define x where "x = launch sx p (int n)"
  have "x = 65536 * d + x mod 65536" using mult_div_mod_eq [of 65536 x] assms(1) by (simp add: x_def)
  moreover have "0 \<le> x mod 65536" "x mod 65536 < 65536" by simp_all
  ultimately show "\<bar>launch sx p (int n)\<bar> < 2147483648 - 65536"
    unfolding x_def [symmetric] using assms(2,3) by linarith
qed

end
