(* ===== verification/MissileRuns.thy ===== *)
theory MissileRuns
  imports MissileFlight
begin

text \<open>
  The missile game running: the turns of its loop and the signals of the clock in any order.  In every state they
  reach the list of missiles is well formed, and the crosshairs the game keeps are those of the driver.
\<close>

section \<open>The crosshairs on both sides\<close>

lemma move_x_cells:
  assumes "0 \<le> x" "x < 80"
  shows "move_x 0xFFFF (word_of_int x) = (let y = word_of_int (if x = 0 then 0 else x - 1) in (y, y, word_of_int x))
    \<and> move_x 1 (word_of_int x) = (let y = word_of_int (if x = 79 then 79 else x + 1) in (y, y, word_of_int x))
    \<and> move_x 0 (word_of_int x) = (word_of_int x, word_of_int x, word_of_int x)"
proof -
  have "\<forall>x\<in>set [0..79]. move_x 0xFFFF (word_of_int x) = (let y = word_of_int (if x = 0 then 0 else x - 1) in (y, y, word_of_int x))
    \<and> move_x 1 (word_of_int x) = (let y = word_of_int (if x = 79 then 79 else x + 1) in (y, y, word_of_int x))
    \<and> move_x 0 (word_of_int x) = (word_of_int x, word_of_int x, word_of_int x)"
    by code_simp
  moreover have "x \<in> set [0..79]" using assms by simp
  ultimately show ?thesis by (rule bspec)
qed

lemma move_y_cells:
  assumes "0 \<le> y" "y < 25"
  shows "move_y 0xFFFF (word_of_int y) = word_of_int (if y = 0 then 0 else y - 1)
    \<and> move_y 1 (word_of_int y) = word_of_int (if y = 24 then 24 else y + 1) \<and> move_y 0 (word_of_int y) = word_of_int y"
proof -
  have "\<forall>y\<in>set [0..24]. move_y 0xFFFF (word_of_int y) = word_of_int (if y = 0 then 0 else y - 1)
    \<and> move_y 1 (word_of_int y) = word_of_int (if y = 24 then 24 else y + 1) \<and> move_y 0 (word_of_int y) = word_of_int y"
    by code_simp
  moreover have "y \<in> set [0..24]" using assms by simp
  ultimately show ?thesis by (rule bspec)
qed

definition delta :: "int \<Rightarrow> int \<Rightarrow> 32 word" where
  "delta dx dy = (word_of_int dx AND 0xFFFF) OR push_bit 16 (word_of_int dy AND 0xFFFF)"

lemma deltas: "delta (- 1) 0 = 0xFFFF" "delta 1 0 = 1" "delta 0 (- 1) = 0xFFFF0000" "delta 0 1 = 0x10000"
  by (simp_all add: delta_def)

definition clamp :: "int \<Rightarrow> int \<Rightarrow> int" where
  "clamp hi x = max 0 (min hi x)"

lemma poke_screen:
  assumes "0 \<le> x" "x < 80" "0 \<le> y" "y < 25"
  shows "mp1_poke (video_offset (word_of_int x) (word_of_int y)) c s
    = Some (writes [(2 * x + 160 * y, c)] s)"
proof -
  have "uint (video_offset (word_of_int x) (word_of_int y)) = 2 * x + 160 * y"
    using assms by (subst uint_video_offset) (simp_all add: uint_word)
  then show ?thesis using assms by (simp add: mp1_poke_def writes_def)
qed

lemma movexhairs_steps:
  assumes d: "(dx, dy) \<in> {(-1, 0), (1, 0), (0, -1), (0, 1)}"
    and s: "crosshairs_x s = word_of_int x" "crosshairs_y s = word_of_int y" "0 \<le> x" "x < 80" "0 \<le> y" "y < 25"
  shows "mp1_ioctl_movexhairs (delta dx dy) s = Some (0,
    writes [(2 * x + 160 * y, ERASE_CHAR), (2 * clamp 79 (x + dx) + 160 * clamp 24 (y + dy), CROSSHAIR)]
      (s\<lparr>crosshairs_x := word_of_int (clamp 79 (x + dx)), crosshairs_y := word_of_int (clamp 24 (y + dy))\<rparr>))"
proof -
  have w: "take_bit 16 (0xFFFF0000 :: 32 word) = 0" "take_bit 16 (0x10000 :: 32 word) = 0"
    "drop_bit 16 (0xFFFF0000 :: 32 word) = 0xFFFF" "drop_bit 16 (0x10000 :: 32 word) = 1"
    "take_bit 16 (0xFFFF :: 32 word) = 0xFFFF" "drop_bit 16 (0xFFFF :: 32 word) = 0"
    "take_bit 16 (1 :: 32 word) = 1" "drop_bit 16 (1 :: 32 word) = 0"
    by simp_all
  have cx: "clamp 79 (x + -1) = (if x = 0 then 0 else x - 1)" "clamp 79 (x + 1) = (if x = 79 then 79 else x + 1)"
    "clamp 79 (x + 0) = x" using s(3,4) by (auto simp: clamp_def)
  have cy: "clamp 24 (y + -1) = (if y = 0 then 0 else y - 1)" "clamp 24 (y + 1) = (if y = 24 then 24 else y + 1)"
    "clamp 24 (y + 0) = y" using s(5,6) by (auto simp: clamp_def)
  have mx: "move_x (take_bit 16 (delta dx dy)) (word_of_int x) =
      (word_of_int (clamp 79 (x + dx)), word_of_int (clamp 79 (x + dx)), word_of_int x)"
    using d move_x_cells [OF s(3,4)] unfolding Let_def
    by (elim insertE emptyE Pair_inject; hypsubst) (simp_all only: deltas w cx)
  have my: "move_y (drop_bit 16 (delta dx dy)) (word_of_int y) = word_of_int (clamp 24 (y + dy))"
    using d move_y_cells [OF s(5,6)]
    by (elim insertE emptyE Pair_inject; hypsubst) (simp_all only: deltas w cy)
  have c: "0 \<le> clamp 79 (x + dx)" "clamp 79 (x + dx) < 80" "0 \<le> clamp 24 (y + dy)" "clamp 24 (y + dy) < 25"
    by (auto simp: clamp_def)
  show ?thesis
    by (simp add: mp1_ioctl_movexhairs_def s(1,2) mx my poke_screen [OF s(3-6)] poke_screen [OF c])
qed

section \<open>The invariant\<close>

definition play_ok :: "play \<Rightarrow> bool" where
  "play_ok g \<longleftrightarrow> (\<exists>ps. fleet (mp1 g) ps) \<and> length (base_alive (mp1 g)) = 4
     \<and> crosshairs_x (mp1 g) = word_of_int (chx g) \<and> crosshairs_y (mp1 g) = word_of_int (chy g)
     \<and> 0 \<le> chx g \<and> chx g < 80 \<and> 0 \<le> chy g \<and> chy g < 25"

lemma play_ok_screen: "play_ok g \<Longrightarrow> board_ok (mp1 g)"
  by (simp add: play_ok_def board_ok_def uint_word)

lemma play_ok_cong:
  assumes "play_ok g" "\<And>ps. fleet (mp1 g) ps \<Longrightarrow> \<exists>qs. fleet (mp1 h) qs" "same_board (mp1 g) (mp1 h)"
    "chx h = chx g" "chy h = chy g"
  shows "play_ok h"
  using assms by (auto simp: play_ok_def same_board_def)

lemma fleet_writes [simp]: "fleet (writes ws s) ps = fleet s ps"
  by (simp add: fleet_def)

lemma write_chars_writes:
  "0 \<le> i \<Longrightarrow> i + 2 * int (length cs) \<le> 4000 \<Longrightarrow> \<exists>ws. write_chars cs i s = Some (writes ws s)"
proof (induction cs arbitrary: i s)
  case Nil
  have "s = writes [] s" by (simp add: writes_def)
  then show ?case by auto
next
  case (Cons c cs)
  obtain ws where "write_chars cs (i + 2) (writes [(i, c)] s) = Some (writes ws (writes [(i, c)] s))"
    using Cons.IH [of "i + 2" "writes [(i, c)] s"] Cons.prems by auto
  moreover have "screen_put i c s = Some (writes [(i, c)] s)" using Cons by (simp add: screen_put_def writes_def)
  ultimately show ?case by auto
qed

lemma draw_status_bar_mc_writes: "\<exists>ws. draw_status_bar_mc g = Some (g\<lparr>mp1 := writes ws (mp1 g)\<rparr>)"
proof -
  have "length (status_text g) \<le> 79" by (simp add: status_text_def Let_def)
  then obtain ws where "write_chars (status_text g) 0 (mp1 g) = Some (writes ws (mp1 g))"
    using write_chars_writes [of 0 "status_text g" "mp1 g"] by auto
  then show ?thesis by (auto simp: draw_status_bar_mc_def write_string_def)
qed

text \<open>A missile can be made unless it is to fly to where it starts.\<close>

lemma new_missile_None:
  assumes "0 \<le> sx" "sx < 80" "0 \<le> sy" "sy < 25" "0 \<le> dx" "dx < 80" "0 \<le> dy" "dy < 25"
  shows "new_missile sx sy dx dy c vel = None \<longleftrightarrow> dx = sx \<and> dy = sy"
proof -
  define a where "a = dx - sx"
  define b where "b = dy - sy"
  define N where "N = a * a + b * b"
  have ab: "\<bar>a\<bar> \<le> 79" "\<bar>b\<bar> \<le> 24" using assms by (auto simp: a_def b_def)
  have sq: "a * a \<le> 79 * 79" "b * b \<le> 24 * 24" using ab abs_square by blast+
  have nn: "0 \<le> a * a" "0 \<le> b * b" by simp_all
  have N: "0 \<le> N" "N \<le> 6817" using square_bound [OF sq] nn by (simp_all add: N_def)
  then have s: "s32 (N * 65536) = N * 65536" by (intro s32_id) auto
  have r: "int_sqrt (N * 65536) * int_sqrt (N * 65536) \<le> N * 65536"
    "N * 65536 < (int_sqrt (N * 65536) + 1) * (int_sqrt (N * 65536) + 1)"
    using int_sqrt [of "N * 65536"] N by auto
  have "int_sqrt (N * 65536) = 0 \<longleftrightarrow> N = 0"
  proof
    assume "int_sqrt (N * 65536) = 0"
    with r(2) N show "N = 0" by simp
  next
    assume "N = 0"
    with r(1) have "int_sqrt 0 * int_sqrt 0 \<le> 0" by simp
    then show "int_sqrt (N * 65536) = 0" using \<open>N = 0\<close> by (auto simp add: mult_le_0_iff)
  qed
  moreover have "N = 0 \<longleftrightarrow> a = 0 \<and> b = 0" using nn by (auto simp: N_def add_nonneg_eq_0_iff)
  moreover have "a = 0 \<and> b = 0 \<longleftrightarrow> dx = sx \<and> dy = sy" by (auto simp: a_def b_def)
  ultimately show ?thesis
    unfolding new_missile_def Let_def a_def [symmetric] b_def [symmetric] N_def [symmetric] s by simp
qed

section \<open>Turns\<close>

text \<open>What a turn leaves alone: apart from the two fresh addresses the store.\<close>

definition fresh :: "int \<Rightarrow> mp1 \<Rightarrow> bool" where
  "fresh new s \<longleftrightarrow> missiles s new = None"

lemma addmissile_fleet:
  assumes f: "fleet s ps" and n: "fresh new s"
  obtains v t qs where "mp1_ioctl_addmissile new (Some m) s = Some (v, t)" "fleet t qs" "same_board s t"
    "\<And>p. p \<noteq> new \<or> p = 0 \<Longrightarrow> missiles t p = missiles s p"
proof (cases "new = 0")
  case True
  then have "mp1_ioctl_addmissile new (Some m) s = Some (-1, s)" by (simp add: mp1_ioctl_addmissile_def)
  then show thesis by (rule that) (use f in \<open>auto simp: same_board_def\<close>)
next
  case False
  let ?t = "(put_missile new (m\<lparr>m_next := mp1_missile_list s\<rparr>) s)\<lparr>mp1_missile_list := new\<rparr>"
  have "new \<notin> set ps" using f n by (auto simp: fleet_def fresh_def dest: lseg_dom)
  then have "fleet ?t (new # ps)" using f False by (simp add: fleet_def lseg_frame)
  moreover have "mp1_ioctl_addmissile new (Some m) s = Some (0, ?t)" using False by (simp add: mp1_ioctl_addmissile_def)
  ultimately show thesis by (intro that [of 0 ?t "new # ps"]) (use False in \<open>auto simp: same_board_def put_missile_def\<close>)
qed

lemma make_missile_ok:
  assumes g: "play_ok g" and n: "fresh new (mp1 g)" and m: "new_missile sx sy dx dy c vel = Some m"
  obtains h where "make_missile new sx sy dx dy c vel g = Some h" "play_ok h"
    "\<And>p. p \<noteq> new \<or> p = 0 \<Longrightarrow> missiles (mp1 h) p = missiles (mp1 g) p" "chx h = chx g" "chy h = chy g"
    "ival h = ival g" "began h = began g"
proof -
  obtain ps where "fleet (mp1 g) ps" using g by (auto simp: play_ok_def)
  then obtain v t qs where t: "mp1_ioctl_addmissile new (Some m) (mp1 g) = Some (v, t)" "fleet t qs"
    "same_board (mp1 g) t" "\<And>p. p \<noteq> new \<or> p = 0 \<Longrightarrow> missiles t p = missiles (mp1 g) p"
    using addmissile_fleet [OF _ n] by metis
  let ?h = "g\<lparr>mp1 := t, blocked := False\<rparr>"
  have "make_missile new sx sy dx dy c vel g = Some ?h"
    by (simp add: make_missile_def m ioctl_def mp1_ioctl_def fake_cli_def fake_sti_def t(1))
  moreover have "play_ok ?h" by (rule play_ok_cong [OF g]) (use t in auto)
  ultimately show thesis by (rule that) (simp_all add: t)
qed

lemma update_crosshairs_None:
  assumes g: "play_ok g" and c: "cmd = FIRE" "chx g = 79" "chy g = 24"
  shows "update_crosshairs new cmd g = None"
proof -
  have "new_missile 79 24 79 24 CHAR_FIRED 200 = None" by (simp add: new_missile_None)
  then show ?thesis using c by (simp add: update_crosshairs_def steps_def make_missile_def)
qed

lemma update_crosshairs_ok:
  assumes g: "play_ok g" and n: "fresh new (mp1 g)" and c: "\<not> (cmd = FIRE \<and> chx g = 79 \<and> chy g = 24)"
  obtains h where "update_crosshairs new cmd g = Some h" "play_ok h"
    "\<And>p. p \<noteq> new \<or> p = 0 \<Longrightarrow> missiles (mp1 h) p = missiles (mp1 g) p" "ival h = ival g" "began h = began g"
proof -
  have r: "0 \<le> chx g" "chx g < 80" "0 \<le> chy g" "chy g < 25" using g by (auto simp: play_ok_def)
  consider (fire) "cmd = FIRE" | (none) "steps cmd = (0, 0)" "cmd \<noteq> FIRE"
    | (move) dx dy where "steps cmd = (dx, dy)" "(dx, dy) \<in> {(-1, 0), (1, 0), (0, -1), (0, 1)}" "cmd \<noteq> FIRE"
    by (cases cmd) (auto simp: steps_def)
  then show thesis
  proof cases
    case fire
    have "new_missile 79 24 (chx g) (chy g) CHAR_FIRED 200 \<noteq> None"
      using new_missile_None [of 79 24 "chx g" "chy g"] r c fire by simp
    then obtain m where m: "new_missile 79 24 (chx g) (chy g) CHAR_FIRED 200 = Some m" by auto
    obtain h where h: "make_missile new 79 24 (chx g) (chy g) CHAR_FIRED 200 g = Some h" "play_ok h"
      "\<And>p. p \<noteq> new \<or> p = 0 \<Longrightarrow> missiles (mp1 h) p = missiles (mp1 g) p" "chx h = chx g" "chy h = chy g"
      "ival h = ival g" "began h = began g" using make_missile_ok [OF g n m] by metis
    let ?h = "h\<lparr>fired := fired h + 1\<rparr>"
    have "update_crosshairs new cmd g = Some ?h" using fire h by (simp add: update_crosshairs_def steps_def)
    moreover have "play_ok ?h" by (rule play_ok_cong [OF h(2)]) (auto simp: same_board_def)
    ultimately show thesis by (rule that) (simp_all add: h)
  next
    case none
    then have "update_crosshairs new cmd g = Some g" by (simp add: update_crosshairs_def)
    then show thesis by (rule that) (simp_all add: g)
  next
    case (move dx dy)
    have s: "crosshairs_x (mp1 g) = word_of_int (chx g)" "crosshairs_y (mp1 g) = word_of_int (chy g)"
      using g by (auto simp: play_ok_def)
    have ch: "(let x = (if 80 \<le> chx g + dx then 79 else chx g + dx) in if 0 > x then 0 else x) = clamp 79 (chx g + dx)"
      "(let y = (if 24 \<le> chy g + dy then 24 else chy g + dy) in if 0 > y then 0 else y) = clamp 24 (chy g + dy)"
      by (auto simp: clamp_def Let_def)
    let ?t = "writes [(2 * chx g + 160 * chy g, ERASE_CHAR),
        (2 * clamp 79 (chx g + dx) + 160 * clamp 24 (chy g + dy), CROSSHAIR)]
      ((mp1 g)\<lparr>crosshairs_x := word_of_int (clamp 79 (chx g + dx)), crosshairs_y := word_of_int (clamp 24 (chy g + dy))\<rparr>)"
    let ?h = "g\<lparr>mp1 := ?t, blocked := False, chx := clamp 79 (chx g + dx), chy := clamp 24 (chy g + dy)\<rparr>"
    have nz: "dx \<noteq> 0 \<or> dy \<noteq> 0" using move(2) by auto
    have m: "mp1_ioctl_movexhairs (delta dx dy) (mp1 g) = Some (0, ?t)"
      by (rule movexhairs_steps [OF move(2) s r])
    have "update_crosshairs new cmd g = Some ?h"
      unfolding update_crosshairs_def move(1) prod.case Let_def delta_def [symmetric]
      using move(3) nz m ch
      by (simp add: ioctl_def mp1_ioctl_def fake_cli_def fake_sti_def Let_def)
    moreover have "play_ok ?h"
      using g by (auto simp: play_ok_def clamp_def fleet_def)
    ultimately show thesis by (rule that) simp_all
  qed
qed

lemma inject_enemy_ok:
  assumes g: "play_ok g" and n: "fresh new (mp1 g)" and r: "0 \<le> r1" "0 \<le> r2" "0 \<le> r3"
  obtains h where "inject_enemy new (r0, r1, r2, r3) now g = Some h" "play_ok h"
proof -
  have c: "c_mod r1 80 = r1 mod 80" "c_mod r2 3 = r2 mod 3" "c_mod r3 5 = r3 mod 5" using r by simp_all
  have b: "0 \<le> r1 mod 80" "r1 mod 80 < 80" "0 \<le> 20 * (r2 mod 3 + 1)" "20 * (r2 mod 3 + 1) < 80" by simp_all
  have "new_missile (r1 mod 80) 0 (20 * (r2 mod 3 + 1)) 24 CHAR_ENEMY (r3 mod 5 + 10) \<noteq> None"
    using new_missile_None [of "r1 mod 80" 0 "20 * (r2 mod 3 + 1)" 24] b by simp
  then obtain m where m: "new_missile (r1 mod 80) 0 (20 * (r2 mod 3 + 1)) 24 CHAR_ENEMY (r3 mod 5 + 10) = Some m"
    by auto
  define f where "f = (let g1 = g\<lparr>count := count g + 1\<rparr>;
     g2 = (if c_mod (count g1) 10 = 0 \<and> avg_ival g1 > 200000 then g1\<lparr>avg_ival := avg_ival g1 - 100000\<rparr> else g1)
     in g2\<lparr>ival := new_ival (avg_ival g2) r0\<rparr>)"
  have f: "mp1 f = mp1 g" "chx f = chx g" "chy f = chy g" by (simp_all add: f_def Let_def)
  have "play_ok f" by (rule play_ok_cong [OF g]) (auto simp: f same_board_def)
  then obtain h where h: "make_missile new (r1 mod 80) 0 (20 * (r2 mod 3 + 1)) 24 CHAR_ENEMY (r3 mod 5 + 10) f = Some h"
    "play_ok h" using make_missile_ok [OF _ _ m, of f new] n f(1) by metis
  have "inject_enemy new (r0, r1, r2, r3) now g = Some (h\<lparr>began := now\<rparr>)"
    using h(1) unfolding inject_enemy_def f_def Let_def prod.case c by simp
  moreover have "play_ok (h\<lparr>began := now\<rparr>)" by (rule play_ok_cong [OF h(2)]) (auto simp: same_board_def)
  ultimately show thesis by (rule that)
qed

text \<open>The numbers of \<open>rand\<close> are not negative, and \<open>malloc\<close> returns null or unused addresses.\<close>

definition good_env :: "int \<Rightarrow> int \<Rightarrow> int \<times> int \<times> int \<times> int \<Rightarrow> mp1 \<Rightarrow> bool" where
  "good_env new1 new2 rnd s \<longleftrightarrow> fresh new1 s \<and> fresh new2 s \<and> (new1 \<noteq> new2 \<or> new1 = 0)
     \<and> (case rnd of (r0, r1, r2, r3) \<Rightarrow> 0 \<le> r0 \<and> 0 \<le> r1 \<and> 0 \<le> r2 \<and> 0 \<le> r3)"

lemma addmissile_null: "mp1_ioctl_addmissile 0 um s = Some (-1, s)"
  by (simp add: mp1_ioctl_addmissile_def)

lemma main_turn_cases:
  assumes g: "play_ok g" and e: "good_env new1 new2 rnd (mp1 g)"
  shows "if cmd = FIRE \<and> chx g = 79 \<and> chy g = 24 then main_turn new1 new2 rnd tv now cmd g = None
    else \<exists>h. main_turn new1 new2 rnd tv now cmd g = Some h \<and> play_ok h"
proof -
  obtain ws where ws: "draw_status_bar_mc g = Some (g\<lparr>mp1 := writes ws (mp1 g)\<rparr>)" using draw_status_bar_mc_writes by auto
  let ?g = "g\<lparr>mp1 := writes ws (mp1 g)\<rparr>"
  have ok: "play_ok ?g" by (rule play_ok_cong [OF g]) (auto simp: same_board_def)
  have fr: "fresh new1 (mp1 ?g)" "fresh new2 (mp1 ?g)" using e by (auto simp: good_env_def fresh_def)
  show ?thesis
  proof (cases "cmd = FIRE \<and> chx g = 79 \<and> chy g = 24")
    case True
    then show ?thesis using update_crosshairs_None [OF ok, of cmd new1] by (simp add: main_turn_def ws)
  next
    case False
    then obtain h where h: "update_crosshairs new1 cmd ?g = Some h" "play_ok h"
      "\<And>p. p \<noteq> new1 \<or> p = 0 \<Longrightarrow> missiles (mp1 h) p = missiles (mp1 ?g) p" "ival h = ival ?g" "began h = began ?g"
      using update_crosshairs_ok [OF ok fr(1), of cmd] by auto
    obtain r0 r1 r2 r3 where r: "rnd = (r0, r1, r2, r3)" by (metis prod_cases4)
    have "new2 \<noteq> new1 \<or> new2 = 0" using e by (auto simp: good_env_def)
    then have "fresh new2 (mp1 h)" using h(3) [of new2] fr(2) by (simp add: fresh_def)
    then obtain k where k: "inject_enemy new2 rnd now h = Some k" "play_ok k"
      using inject_enemy_ok [OF h(2), of new2 r1 r2 r3 r0 now] e by (auto simp: r good_env_def)
    have "main_turn new1 new2 rnd tv now cmd g = (if ival h \<le> elapsed (began h) tv then Some k else Some h)"
      by (simp add: main_turn_def ws h(1) k(1))
    then show ?thesis unfolding if_not_P [OF False] using h(2) k(2) by auto
  qed
qed

definition read_status :: "32 word \<Rightarrow> play \<Rightarrow> play" where
  "read_status w g = g\<lparr>blocked := False, status := w, score := uint w mod 65536,
    bases_left := (uint w div 2 ^ 16) mod 2 + (uint w div 2 ^ 17) mod 2 + (uint w div 2 ^ 18) mod 2\<rparr>"

lemma sigusr1_handler_eq:
  assumes "new \<noteq> 0"
  shows "sigusr1_handler new g = Some (read_status (status_word (mp1 g)) g)"
proof -
  have "ioctl new (RTC_GETSTATUS True) g = Some (0, g\<lparr>blocked := False, status := status_word (mp1 g)\<rparr>)"
    using assms by (simp add: ioctl_def mp1_ioctl_def mp1_ioctl_getstatus_def fake_cli_def fake_sti_def)
  then show ?thesis
    unfolding sigusr1_handler_def by (simp only: bind.bind_lunit prod.case Let_def if_True) (simp add: read_status_def)
qed

lemma sigusr1_handler_null: "sigusr1_handler 0 g = Some (g\<lparr>blocked := False\<rparr>)"
  by (simp add: sigusr1_handler_def ioctl_def mp1_ioctl_def mp1_ioctl_getstatus_def fake_cli_def fake_sti_def)

lemma sigusr1_handler_ok:
  assumes "play_ok g"
  obtains h where "sigusr1_handler new g = Some h" "play_ok h"
proof (cases "new = 0")
  case True
  have "play_ok (g\<lparr>blocked := False\<rparr>)" by (rule play_ok_cong [OF assms]) (auto simp: same_board_def)
  with True show thesis by (intro that) (simp_all add: sigusr1_handler_null)
next
  case False
  have "play_ok (read_status w g)" for w
    by (rule play_ok_cong [OF assms]) (auto simp: read_status_def same_board_def)
  with False show thesis by (intro that) (simp_all add: sigusr1_handler_eq)
qed

text \<open>A signal of the clock has no result only when the walk over the list has none.\<close>

lemma clock_signal_cases:
  assumes g: "play_ok g" "fleet (mp1 g) ps"
  shows "case tick (vals (missiles (mp1 g)) ps) (rest (mp1 g)) of
      None \<Rightarrow> clock_signal new g = (if blocked g then Some g else None)
    | Some w \<Rightarrow> \<exists>h. clock_signal new g = Some h \<and> play_ok h"
proof (cases "blocked g")
  case True
  then have "clock_signal new g = Some g" by (simp only: clock_signal_def if_True)
  with True g show ?thesis by (cases "tick (vals (missiles (mp1 g)) ps) (rest (mp1 g))") auto
next
  case False
  have a: "agrees (mp1_rtc_tasklet (mp1 g)) (tick (vals (missiles (mp1 g)) ps) (rest (mp1 g)))"
    by (rule tasklet_tick [OF g(2) play_ok_screen [OF g(1)]])
  show ?thesis
  proof (cases "tick (vals (missiles (mp1 g)) ps) (rest (mp1 g))")
    case None
    then have "mp1_rtc_tasklet (mp1 g) = None" using a unfolding agrees_def by simp
    then show ?thesis using None False by (simp add: clock_signal_def)
  next
    case (Some w)
    obtain ms r where w: "w = (ms, r)" by fastforce
    obtain t qs where t: "mp1_rtc_tasklet (mp1 g) = Some t" "fleet t qs" "rest t = r"
      using a unfolding agrees_def Some w by auto
    obtain r1 where "sweep (vals (missiles (mp1 g)) ps) (rest (mp1 g)) = Some (ms, r1)" "r = decorate r1"
      using Some unfolding w tick_def by auto
    then have "same_board (rest (mp1 g)) r"
      using sweep_board [of "vals (missiles (mp1 g)) ps" "rest (mp1 g)" ms r1]
      by (simp add: same_board_def decorate_def)
    then have b: "same_board (mp1 g) t" unfolding t(3) [symmetric] by (simp add: same_board_def)
    have ok: "play_ok (g\<lparr>mp1 := t\<rparr>)"
    proof (rule play_ok_cong [OF g(1)])
      show "\<exists>qs. fleet (mp1 (g\<lparr>mp1 := t\<rparr>)) qs" using t(2) by auto
    qed (simp_all add: b)
    obtain h where "sigusr1_handler new (g\<lparr>mp1 := t\<rparr>) = Some h" "play_ok h" by (rule sigusr1_handler_ok [OF ok])
    moreover have "clock_signal new g = (if notified t \<noteq> notified (mp1 g)
        then sigusr1_handler new (g\<lparr>mp1 := t\<rparr>) else Some (g\<lparr>mp1 := t\<rparr>))"
      by (simp only: clock_signal_def t(1) False bind.bind_lunit if_False)
    ultimately show ?thesis unfolding Some option.case using ok by (cases "notified t \<noteq> notified (mp1 g)") auto
  qed
qed

section \<open>Reachable states\<close>

inductive plays :: "play \<Rightarrow> bool" where
  start: "mp1_missile_list s = 0 \<Longrightarrow> main_start rnd now s = Some g \<Longrightarrow> plays g"
| turn: "plays g \<Longrightarrow> playing cmd g \<Longrightarrow> good_env new1 new2 rnd (mp1 g) \<Longrightarrow>
    main_turn new1 new2 rnd tv now cmd g = Some h \<Longrightarrow> plays h"
| clock: "plays g \<Longrightarrow> clock_signal new g = Some h \<Longrightarrow> plays h"

lemma draw_rows_writes:
  "(\<And>l. l \<in> set ls \<Longrightarrow> length l \<le> 80) \<Longrightarrow> 0 \<le> y \<Longrightarrow> y + int (length ls) \<le> 25 \<Longrightarrow>
    \<exists>ws. draw_rows ls y s = Some (writes ws s)"
proof (induction ls arbitrary: y s)
  case Nil
  have "s = writes [] s" by (simp add: writes_def)
  then show ?case by auto
next
  case (Cons l ls)
  have l: "length l \<le> 80" using Cons.prems(1) by simp
  have "u32 (80 - int (length l)) div 2 = (80 - int (length l)) div 2" using l by simp
  moreover define i where "i = 2 * (80 * y + (80 - int (length l)) div 2)"
  have "2 * ((80 - int (length l)) div 2) \<le> 80 - int (length l)" "0 \<le> (80 - int (length l)) div 2"
    using l by simp_all
  moreover have "y \<le> 24" using Cons.prems(3) by simp
  ultimately have "0 \<le> i" "i + 2 * int (length (str l)) \<le> 4000"
    using l Cons.prems(2) by (simp_all add: i_def str_def)
  then obtain ws where "write_chars (str l) i s = Some (writes ws s)" using write_chars_writes by metis
  moreover have "u32 (80 - int (length l)) div 2 = (80 - int (length l)) div 2" using l by simp
  ultimately have "draw_centered_string (str l) y s = Some (writes ws s)"
    by (simp add: draw_centered_string_def write_string_def str_def i_def)
  moreover obtain vs where "draw_rows ls (y + 1) (writes ws s) = Some (writes vs (writes ws s))"
    using Cons.IH [of "y + 1" "writes ws s"] Cons.prems by auto
  ultimately show ?case by auto
qed

lemma clear_screen_fields [simp]: "missiles (clear_screen s) = missiles s" "mp1_missile_list (clear_screen s) = mp1_missile_list s"
  "base_alive (clear_screen s) = base_alive s" "crosshairs_x (clear_screen s) = crosshairs_x s"
  "crosshairs_y (clear_screen s) = crosshairs_y s"
  by (simp_all add: clear_screen_def)

lemma main_start_ok:
  assumes "mp1_missile_list s = 0"
  shows "\<exists>g. main_start rnd now s = Some g \<and> play_ok g \<and> missiles (mp1 g) = missiles s"
proof -
  let ?s = "snd (mp1_ioctl_startgame s)"
  have "\<forall>l \<in> set starting_screen. length l \<le> 80" "length starting_screen \<le> 20" by (simp_all add: starting_screen_def)
  then obtain ws where ws: "draw_rows starting_screen 5 (clear_screen (clear_screen ?s)) = Some (writes ws (clear_screen (clear_screen ?s)))"
    using draw_rows_writes [of starting_screen 5 "clear_screen (clear_screen ?s)"] by auto
  have "fleet (clear_screen (writes ws (clear_screen (clear_screen ?s)))) []"
    using assms by (simp add: fleet_def mp1_ioctl_startgame_def)
  then show ?thesis using ws
    by (auto simp: main_start_def ioctl_def mp1_ioctl_def first_play_def fake_cli_def fake_sti_def draw_starting_screen_def
      play_ok_def mp1_ioctl_startgame_def)
qed

lemma plays_ok: "plays g \<Longrightarrow> play_ok g"
proof (induction rule: plays.induct)
  case (start s rnd now g)
  then show ?case using main_start_ok [OF start(1), of rnd now] by auto
next
  case (turn g cmd new1 new2 rnd tv now h)
  then show ?case using main_turn_cases [of g new1 new2 rnd cmd tv now] by (auto split: if_splits)
next
  case (clock g new h)
  obtain ps where "fleet (mp1 g) ps" using clock.IH by (auto simp: play_ok_def)
  then show ?case using clock_signal_cases [OF clock.IH, of ps new] clock.hyps clock.IH
    by (auto split: option.splits if_splits)
qed

end
