(* ===== verification/MissileProps.thy ===== *)
theory MissileProps
  imports MissileRuns
begin

text \<open>The properties of the missile game.\<close>

section \<open>The status word\<close>

lemma bit_div_mod: "uint (w :: 32 word) div 2 ^ n mod 2 = of_bool (bit w n)"
proof -
  have "bit (uint w) n = bit w n" by (auto simp: bit_uint_iff dest: bit_imp_le_length)
  then show ?thesis by (simp only: mod_2_eq_odd bit_iff_odd [symmetric])
qed

lemma status_bits:
  fixes K w :: "32 word"
  defines "s \<equiv> (K AND 0xFFFF0000) OR take_bit 16 w"
  shows "uint s mod 65536 = uint w mod 65536"
    and "n \<in> {16, 17, 18} \<Longrightarrow> bit s n = bit K n"
proof -
  have "take_bit 16 s = take_bit 16 w"
    unfolding s_def by (rule bit_word_eqI) (auto simp: bit_simps)
  then have "take_bit 16 (uint s) = take_bit 16 (uint w)" by (metis unsigned_take_bit_eq)
  then show "uint s mod 65536 = uint w mod 65536" by (simp add: take_bit_eq_mod)
  show "bit s n = bit K n" if "n \<in> {16, 17, 18}"
    using that unfolding s_def by (auto simp: bit_simps)
qed

lemma iterate_bits:
  "bit (push_bit 15 (iterate_base_alive [a, b, c] 0)) 16 = (c \<noteq> 0)"
  "bit (push_bit 15 (iterate_base_alive [a, b, c] 0)) 17 = (b \<noteq> 0)"
  "bit (push_bit 15 (iterate_base_alive [a, b, c] 0)) 18 = (a \<noteq> 0)"
  by (cases "a = 0"; cases "b = 0"; cases "c = 0"; simp add: bit_simps bit_numeral_word_iff)+

lemma status_word_reads:
  assumes "length (base_alive s) = 4"
  shows "score (read_status (status_word s) g) = uint (mp1_score s) mod 65536"
    "bases_left (read_status (status_word s) g) = int (length (filter (\<lambda>b. b \<noteq> 0) (take 3 (base_alive s))))"
proof -
  obtain a b c d where l: "base_alive s = [a, b, c, d]"
    using assms by (auto simp: length_Suc_conv numeral_eq_Suc)
  show "score (read_status (status_word s) g) = uint (mp1_score s) mod 65536"
    by (simp add: read_status_def status_word_def status_bits)
  have b: "bases_left (read_status w g) = of_bool (bit w 16) + of_bool (bit w 17) + of_bool (bit w 18)" for w
    by (simp add: read_status_def flip: bit_div_mod)
  show "bases_left (read_status (status_word s) g) = int (length (filter (\<lambda>b. b \<noteq> 0) (take 3 (base_alive s))))"
    using iterate_bits [of a b c]
    by (simp add: b status_word_def Let_def status_bits(2) l del: iterate_base_alive.simps)
qed

section \<open>The end of a lone missile\<close>

lemma burning_tick:
  assumes "alone a s" "board_ok s" "m_c a = EXPLOSION" "0 < k" "k < 2 ^ 31" "m_exploded a = word_of_int k"
  shows "if k = 1 then mp1_rtc_tasklet s = None
    else \<exists>t. mp1_rtc_tasklet s = Some t \<and> alone (a\<lparr>m_exploded := word_of_int (k - 1)\<rparr>) t \<and> board_ok t"
proof -
  obtain p where p: "fleet s [p]" "vals (missiles s) [p] = [a]" using assms(1) by (auto simp: alone_def)
  have ne: "m_exploded a \<noteq> 0" using uint_word [of k] assms(4-6) by auto
  define ebx ecx where e: "ebx = drop_bit 16 (m_x a)" "ecx = drop_bit 16 (m_y a)"
  let ?b = "a\<lparr>m_c := EXPLOSION, m_exploded := m_exploded a - 1\<rparr>"
  have b: "bombed a r = (0, r)" for r using assms(3) by (simp add: bombed_def)
  have left: "sint (m_exploded a - 1) = k - 1"
  proof -
    have "m_exploded a - 1 = word_of_int (k - 1)" by (simp add: assms(6))
    then show ?thesis using assms(4,5) uint_word [of "k - 1"] sint_of_uint [of "word_of_int (k - 1)"] by simp
  qed
  have bb: "?b = a\<lparr>m_exploded := word_of_int (k - 1)\<rparr>" using assms(3,6) by simp
  note P = pass_def [of "[]" a "[]", unfolded Let_def e [symmetric]]
  show ?thesis
  proof (cases "k = 1")
    case True
    have "pass [] a [] (rest s) = (True, False, [], ?b, [], dot (video_offset ebx ecx) ERASE_CHAR (rest s))"
      using ne left True by (simp add: P burn_def b hits_def Let_def)
    then have "tick [a] (rest s) = None" unfolding tick_def sweep_def by (simp, subst walk.simps) simp
    then show ?thesis using tasklet_tick [OF p(1) assms(2)] True unfolding p(2) by (simp add: agrees_def)
  next
    case False
    have "pass [] a [] (rest s) = (False, False, [], ?b, [], redraw ebx ecx ?b (rest s))"
      using ne left False assms(4) by (simp add: P burn_def b hits_def Let_def)
    from alone_tick [OF assms(1,2) tick_flown [OF this]] obtain t where t: "mp1_rtc_tasklet s = Some t"
      "alone ?b t" "rest t = decorate (signal False (redraw ebx ecx ?b (rest s)))" by auto
    have "game_of t = game_of (rest t)" by simp
    then have "board_ok t" using board_ok_game [OF _ assms(2), of t] t(3) by simp
    then show ?thesis using t False bb by auto
  qed
qed

lemma burning_run:
  "alone a s \<Longrightarrow> board_ok s \<Longrightarrow> m_c a = EXPLOSION \<Longrightarrow> k < 2 ^ 31 - 1 \<Longrightarrow> m_exploded a = word_of_int (int k + 1) \<Longrightarrow>
    tasklets k s \<noteq> None \<and> tasklets (Suc k) s = None"
proof (induction k arbitrary: a s)
  case 0
  then show ?case using burning_tick [of a s 1] by simp
next
  case (Suc k)
  then obtain t where t: "mp1_rtc_tasklet s = Some t" "alone (a\<lparr>m_exploded := word_of_int (int k + 1)\<rparr>) t" "board_ok t"
    using burning_tick [of a s "int (Suc k) + 1"]
    by (auto simp: add.commute [of "int k"] simp del: of_int_add of_int_of_nat_eq)
  then have "tasklets k t \<noteq> None \<and> tasklets (Suc k) t = None"
    using Suc.IH [OF t(2,3)] Suc.prems by simp
  then show ?case using t(1) by simp
qed

lemma small_velocity:
  assumes "\<bar>v\<bar> < 65536"
  shows "sint (word_of_int v :: 32 word) = v"
  using assms by (subst signed_of_int) (simp add: signed_take_bit_int_eq_self)

section \<open>A sample state\<close>

definition sample_mp1 :: mp1 where
  "sample_mp1 = \<lparr>missiles = Map.empty, mp1_missile_list = 0, base_alive = [1, 1, 1, 0], mp1_score = 0,
     crosshairs_x = 40, crosshairs_y = 12, vga = \<lambda>_. 0, notified = 0\<rparr>"

definition sample_enemy :: missile where
  "sample_enemy = \<lparr>m_next = 0, m_x = 0x148000, m_y = 0x108000, m_vx = 0, m_vy = 0x2000, dest_x = 20, dest_y = 24,
     m_exploded = 0, m_c = CHAR_ENEMY\<rparr>"

definition sample_shot :: missile where
  "sample_shot = \<lparr>m_next = 0x2000, m_x = 0x138000, m_y = 0x108000, m_vx = 0, m_vy = 0, dest_x = 19, dest_y = 16,
     m_exploded = 0, m_c = CHAR_FIRED\<rparr>"

text \<open>A shot that is to explode next to an enemy.\<close>

definition sample_fight :: mp1 where
  "sample_fight = sample_mp1\<lparr>missiles := [0x1000 \<mapsto> sample_shot, 0x2000 \<mapsto> sample_enemy], mp1_missile_list := 0x1000\<rparr>"

lemma sample_fight_ok: "fleet sample_fight [0x1000, 0x2000]" "board_ok sample_fight"
  by (simp_all add: fleet_def sample_fight_def sample_mp1_def sample_shot_def sample_enemy_def board_ok_def)

definition sample_play :: play where
  "sample_play = (case main_start 0 (0, 0) sample_mp1 of Some g \<Rightarrow> g | None \<Rightarrow> first_play 0 (0, 0) sample_mp1)"

lemma sample_plays: "plays sample_play" "missiles (mp1 sample_play) = Map.empty"
proof -
  obtain g where g: "main_start 0 (0, 0) sample_mp1 = Some g" "missiles (mp1 g) = missiles sample_mp1"
    using main_start_ok [of sample_mp1 0 "(0, 0)"] by (auto simp: sample_mp1_def)
  then show "plays sample_play" by (auto intro: plays.start [of sample_mp1] simp: sample_play_def sample_mp1_def)
  show "missiles (mp1 sample_play) = Map.empty" using g by (simp add: sample_play_def sample_mp1_def)
qed

section \<open>The properties\<close>

text \<open>C9: the tick of the clock walks the linked list of missiles as the walk over the list of their contents
  says: moving, drawing and exploding each one, striking the enemies near an explosion, counting them, taking bases
  and taking missiles off the list; then it draws the bases and the crosshairs.  It always ends, writes only to
  the screen, and leaves a well-formed list; it faults exactly when the walk takes the last missile off.\<close>

theorem tasklet_walks_list:
  assumes "fleet s ps" and "board_ok s"
  shows "agrees (mp1_rtc_tasklet s) (tick (vals (missiles s) ps) (rest s))"
  using tasklet_tick [OF assms] .

theorem tasklet_walks_list_witness:
  "\<exists>t qs. mp1_rtc_tasklet sample_fight = Some t \<and> fleet t qs
    \<and> map m_exploded (vals (missiles t) qs) = [49, 49] \<and> mp1_score t = 1"
proof -
  have "case tick (vals (missiles sample_fight) [0x1000, 0x2000]) (rest sample_fight) of None \<Rightarrow> False
      | Some (ms, r) \<Rightarrow> map m_exploded ms = [49, 49] \<and> mp1_score r = 1"
    by code_simp
  then obtain ms r where m: "tick (vals (missiles sample_fight) [0x1000, 0x2000]) (rest sample_fight) = Some (ms, r)"
    "map m_exploded ms = [49, 49]" "mp1_score r = 1" by (auto split: option.splits)
  obtain t qs where "mp1_rtc_tasklet sample_fight = Some t" "fleet t qs" "vals (missiles t) qs = ms" "rest t = r"
    using tasklet_walks_list [OF sample_fight_ok] unfolding m(1) by (auto simp: agrees_def)
  moreover from this(4) m(3) have "mp1_score t = 1" by auto
  ultimately show ?thesis using m(2) by (intro exI [of _ t] exI [of _ qs]) simp
qed

text \<open>C10: a missile that \<open>make_missile\<close> has put on the empty list, from anywhere on the screen to any other place with a
  speed the game uses, and that nothing but the ticks of the clock disturbs, flies in a straight line, by its velocity at every
  tick, until it is in the very cell it was aimed at; this happens for the first time after some \<open>n \<le> 2200\<close> ticks.  The next tick, and none
  before, makes it explode, having moved it by its velocity once more, which is less than a cell.  Until then bases and score
  stay as they are; an enemy that was aimed at a base destroys it.\<close>

theorem missile_reaches_target:
  assumes "new_missile sx sy dx dy c vel = Some m" and "10 \<le> vel" "vel \<le> 200"
    and "0 \<le> sx" "sx < 80" "0 \<le> sy" "sy < 25" "0 \<le> dx" "dx < 80" "0 \<le> dy" "dy < 25"
    and "mp1_missile_list s = 0" "board_ok s" "p \<noteq> 0" "mp1_ioctl_addmissile p (Some m) s = Some (0, s')"
  shows "\<bar>sint (m_vx m)\<bar> < 65536 \<and> \<bar>sint (m_vy m)\<bar> < 65536
    \<and> (\<exists>n t. n \<le> 2200 \<and> (\<forall>k \<le> n. on_course m sx sy s' k \<and> (cell_at m sx sy k = (dx, dy) \<longleftrightarrow> k = n))
      \<and> tasklets (Suc n) s' = Some t
      \<and> alone ((flown m (launch sx (sint (m_vx m)) (int n) + sint (m_vx m)) (launch sy (sint (m_vy m)) (int n) + sint (m_vy m)))
          \<lparr>m_c := EXPLOSION, m_exploded := 49\<rparr>) t
      \<and> (\<forall>k < 3. c = CHAR_ENEMY \<and> dx = 20 * int k + 20 \<and> dy = 24 \<longrightarrow> base_alive t ! k = 0))"
proof -
  obtain q r T where f: "flight m q r dx dy" "bare m = flown m (launch sx q 0) (launch sy r 0)" "m_c m = c"
    "\<bar>q\<bar> < 65536" "\<bar>r\<bar> < 65536" "0 \<le> T" "T \<le> 2200" "launch sx q T div 65536 = dx" "launch sy r T div 65536 = dy"
    using new_missile_flight [OF assms(1-11)] .
  have v: "q = sint (m_vx m)" "r = sint (m_vy m)" using f(1,4,5) by (simp_all add: flight_def small_velocity)
  have a: "alone (flown m (launch sx q 0) (launch sy r 0)) s'" "board_ok s'"
    using launched_alone [OF assms(14,12,15) f(2)] board_ok_game [OF _ assms(13)] by auto
  obtain n t u where n: "int n \<le> T" "\<forall>k \<le> n. on_course m sx sy s' k"
    "\<forall>k \<le> n. cell_at m sx sy k = (dx, dy) \<longleftrightarrow> k = n" "tasklets (Suc n) s' = Some t"
    "alone ((flown m (launch sx q (int n) + q) (launch sy r (int n) + r))\<lparr>m_c := EXPLOSION, m_exploded := 49\<rparr>) t"
    "base_alive t = base_alive (snd (bombed (flown m (launch sx q (int n) + q) (launch sy r (int n) + r)) (rest u)))"
    "board_ok u" "launch sx q (int n) div 65536 = dx" "launch sy r (int n) div 65536 = dy"
    using missile_arrival [OF f(1) a assms(4-7) v f(6,8,9)] .
  have near: "\<bar>cell_of (word_of_int (launch sx q (int n) + q)) - dx\<bar> \<le> 1"
    "\<bar>cell_of (word_of_int (launch sy r (int n) + r)) - dy\<bar> \<le> 1"
    using explosion_near [OF n(8)] explosion_near [OF n(9)] f(4,5) assms(8-11) by simp_all
  have "base_alive t ! k = 0" if "k < 3" "c = CHAR_ENEMY \<and> dx = 20 * int k + 20 \<and> dy = 24" for k
    unfolding n(6) by (rule bombed_base) (use that near n(7) f(3) in \<open>auto simp: flown_def board_ok_def\<close>)
  moreover have "n \<le> 2200" using n(1) f(7) by simp
  ultimately show ?thesis using f(4,5) n(2-5) unfolding v by blast
qed

theorem missile_reaches_target_witness:
  "\<exists>m s' n t. new_missile 5 0 40 24 CHAR_ENEMY 12 = Some m
    \<and> mp1_ioctl_addmissile 0x1000 (Some m) sample_mp1 = Some (0, s') \<and> cell_at m 5 0 n = (40, 24) \<and> on_course m 5 0 s' n
    \<and> tasklets (Suc n) s' = Some t \<and> base_alive t ! 1 = 0"
proof -
  obtain m where m: "new_missile 5 0 40 24 CHAR_ENEMY 12 = Some m"
    using new_missile_None [of 5 0 40 24 CHAR_ENEMY 12] by auto
  obtain s' where s: "mp1_ioctl_addmissile 0x1000 (Some m) sample_mp1 = Some (0, s')"
    by (simp add: mp1_ioctl_addmissile_def)
  have o: "mp1_missile_list sample_mp1 = 0" "board_ok sample_mp1" by (simp_all add: sample_mp1_def board_ok_def)
  from missile_reaches_target [OF m _ _ _ _ _ _ _ _ _ _ o _ s]
  obtain n t where "\<forall>k \<le> n. on_course m 5 0 s' k \<and> (cell_at m 5 0 k = (40, 24) \<longleftrightarrow> k = n)" "tasklets (Suc n) s' = Some t"
    "\<forall>k < 3. (CHAR_ENEMY :: u8) = CHAR_ENEMY \<and> (40 :: int) = 20 * int k + 20 \<and> (24 :: int) = 24 \<longrightarrow> base_alive t ! k = 0"
    by auto
  moreover from this(3) have "base_alive t ! 1 = 0" by (elim allE [of _ 1]) simp
  moreover from calculation(1) have "on_course m 5 0 s' n" "cell_at m 5 0 n = (40, 24)" by (metis order_refl)+
  ultimately show ?thesis using m s by blast
qed

text \<open>C40: when the last missile on the list has burnt out, the tick that takes it off the list reads address 0.  A lone missile
  that has just exploded does so after 49 ticks.\<close>

theorem lone_missile_faults:
  assumes "alone a s" "board_ok s" "m_c a = EXPLOSION" "m_exploded a = 49"
  shows "tasklets 48 s \<noteq> None \<and> tasklets 49 s = None"
  using burning_run [of a s 48] assms by simp

definition sample_burning :: mp1 where
  "sample_burning = sample_mp1\<lparr>missiles := [0x1000 \<mapsto> sample_enemy\<lparr>m_c := EXPLOSION, m_exploded := 49\<rparr>],
     mp1_missile_list := 0x1000\<rparr>"

theorem lone_missile_faults_witness:
  "board_ok sample_burning \<and> tasklets 48 sample_burning \<noteq> None \<and> tasklets 49 sample_burning = None"
proof -
  have "alone (sample_enemy\<lparr>m_c := EXPLOSION, m_exploded := 49\<rparr>) sample_burning"
    by (auto simp: alone_def fleet_def sample_burning_def sample_enemy_def bare_def)
  moreover have "board_ok sample_burning" by (simp add: sample_burning_def sample_mp1_def board_ok_def)
  ultimately show ?thesis using lone_missile_faults by simp
qed

text \<open>C38: in every state the turns of the game and the signals of the clock reach, the crosshairs the game keeps are those
  of the driver and on the screen, and a turn of the game always returns, except when the player fires with the crosshairs in the
  bottom right corner: there the missile would fly to where it starts and \<open>make_missile\<close> divides by zero.\<close>

theorem fire_in_corner_divides:
  assumes "plays g" "good_env new1 new2 rnd (mp1 g)"
  shows "(main_turn new1 new2 rnd tv now cmd g = None \<longleftrightarrow> cmd = FIRE \<and> chx g = 79 \<and> chy g = 24)
    \<and> crosshairs_x (mp1 g) = word_of_int (chx g) \<and> crosshairs_y (mp1 g) = word_of_int (chy g)
    \<and> 0 \<le> chx g \<and> chx g < 80 \<and> 0 \<le> chy g \<and> chy g < 25"
  using main_turn_cases [OF plays_ok [OF assms(1)] assms(2), of cmd tv now] plays_ok [OF assms(1)]
  by (auto simp: play_ok_def split: if_splits)

theorem fire_in_corner_divides_witness:
  "main_turn 0 0 (0, 0, 0, 0) (0, 0) (0, 0) UP sample_play \<noteq> None \<and> crosshairs_x (mp1 sample_play) = word_of_int (chx sample_play)"
proof -
  have "good_env 0 0 (0, 0, 0, 0) (mp1 sample_play)"
    by (simp add: good_env_def fresh_def sample_plays(2))
  from fire_in_corner_divides [OF sample_plays(1) this, where cmd = UP] show ?thesis by simp
qed

text \<open>C39: the status word the driver packs is read back by the game's signal handler: the score modulo 65536 and the number of
  bases that still stand.\<close>

theorem status_read_back:
  assumes "length (base_alive (mp1 g)) = 4" "new \<noteq> 0"
  shows "\<exists>h. sigusr1_handler new g = Some h \<and> score h = uint (mp1_score (mp1 g)) mod 65536
    \<and> bases_left h = int (length (filter (\<lambda>b. b \<noteq> 0) (take 3 (base_alive (mp1 g)))))"
  using sigusr1_handler_eq [OF assms(2)] status_word_reads [OF assms(1)] by blast

theorem status_read_back_witness:
  "\<exists>h. sigusr1_handler 0x3000 (first_play 0 (0, 0) (sample_mp1\<lparr>base_alive := [1, 0, 1, 0], mp1_score := 0x10005\<rparr>)) = Some h
    \<and> score h = 5 \<and> bases_left h = 2"
  using status_read_back [of "first_play 0 (0, 0) (sample_mp1\<lparr>base_alive := [1, 0, 1, 0], mp1_score := 0x10005\<rparr>)", where new = "0x3000"]
  by (simp add: first_play_def sample_mp1_def)

end
