(* ===== verification/TuxLdisc.thy ===== *)
theory TuxLdisc
  imports Prelude
begin

text \<open>
  The line discipline of the game controller (\<open>module/tuxctl-ld.c\<close>): two ring buffers of 64 bytes
  between the serial driver and \<open>tuxctl-ioctl.c\<close>.  The serial driver is not part of the sources: it
  is the parameter \<open>drv\<close> with its two calls, how much it has room for (\<open>driver_room\<close>) and how many of
  the bytes handed to it it accepts (\<open>driver_write\<close>), functions of what it has accepted before.  What
  it accepted is recorded on \<open>wire\<close>, what it was handed and did not accept in \<open>lost\<close>.

  A bounded FIFO is an interface (locale \<open>bounded_fifo\<close>); the ring buffers are an instance of it.
\<close>

section \<open>Faults\<close>

text \<open>What makes the module stop: a NULL pointer, or a spin lock that is already held.\<close>

datatype fault = Null_pointer | Deadlock

definition and_then :: "fault + 'a \<Rightarrow> ('a \<Rightarrow> fault + 'b) \<Rightarrow> fault + 'b" where
  "and_then r f = (case r of Inl e \<Rightarrow> Inl e | Inr x \<Rightarrow> f x)"

lemma and_then_simps [simp]: "and_then (Inr x) f = f x" "and_then (Inl e) f = Inl e"
  by (simp_all add: and_then_def)

lemma and_then_Inr: "and_then r f = Inr y \<longleftrightarrow> (\<exists>x. r = Inr x \<and> f x = Inr y)"
  by (cases r) auto

section \<open>The ring buffers\<close>

abbreviation (input) "TUXCTL_BUFSIZE \<equiv> 64 :: int"

text \<open>A buffer with its start and end index, and the macros on it.\<close>

type_synonym ring = "u8 list \<times> int \<times> int"

definition buf_used :: "int \<Rightarrow> int \<Rightarrow> int" where
  "buf_used start fin = (if start \<le> fin then fin - start else TUXCTL_BUFSIZE + fin - start)"

definition buf_room :: "int \<Rightarrow> int \<Rightarrow> int" where
  "buf_room start fin = TUXCTL_BUFSIZE - buf_used start fin - 1"

definition buf_empty :: "int \<Rightarrow> int \<Rightarrow> bool" where
  "buf_empty start fin \<longleftrightarrow> start = fin"

definition buf_full :: "int \<Rightarrow> int \<Rightarrow> bool" where
  "buf_full start fin \<longleftrightarrow> (fin + 1) mod TUXCTL_BUFSIZE = start"

definition buf_incidx :: "int \<Rightarrow> int" where
  "buf_incidx idx = (idx + 1) mod TUXCTL_BUFSIZE"

fun ring_push :: "u8 \<Rightarrow> ring \<Rightarrow> ring" where
  "ring_push c (b, s, e) = (b[nat e := c], s, buf_incidx e)"

fun ring_pop :: "ring \<Rightarrow> u8 \<times> ring" where
  "ring_pop (b, s, e) = (b ! nat s, b, buf_incidx s, e)"

fun ring_full :: "ring \<Rightarrow> bool" where
  "ring_full (b, s, e) = buf_full s e"

fun ring_empty :: "ring \<Rightarrow> bool" where
  "ring_empty (b, s, e) = buf_empty s e"

section \<open>Bounded queues\<close>

text \<open>What the loops rely on: a push on a queue that is not full appends, a pop on one that is not
  empty takes the first element, and the tests mean what they say.\<close>

locale bounded_fifo =
  fixes ok :: "'q \<Rightarrow> bool"
    and contents :: "'q \<Rightarrow> 'a list"
    and cap :: nat
    and full :: "'q \<Rightarrow> bool"
    and empty :: "'q \<Rightarrow> bool"
    and push :: "'a \<Rightarrow> 'q \<Rightarrow> 'q"
    and pop :: "'q \<Rightarrow> 'a \<times> 'q"
  assumes full_iff: "ok q \<Longrightarrow> full q = (length (contents q) = cap)"
    and empty_iff: "ok q \<Longrightarrow> empty q = (contents q = [])"
    and bounded: "ok q \<Longrightarrow> length (contents q) \<le> cap"
    and push_ok: "ok q \<Longrightarrow> \<not> full q \<Longrightarrow> ok (push x q)"
    and push_contents: "ok q \<Longrightarrow> \<not> full q \<Longrightarrow> contents (push x q) = contents q @ [x]"
    and pop_ok: "ok q \<Longrightarrow> \<not> empty q \<Longrightarrow> ok (snd (pop q))"
    and pop_contents: "ok q \<Longrightarrow> \<not> empty q \<Longrightarrow> contents q = fst (pop q) # contents (snd (pop q))"
begin

text \<open>Pushing while there is room, and popping while there is something.\<close>

primrec fill :: "'a list \<Rightarrow> 'q \<Rightarrow> 'a list \<times> 'q" where
  "fill [] q = ([], q)"
| "fill (x # xs) q = (if full q then (x # xs, q) else fill xs (push x q))"

primrec drain :: "nat \<Rightarrow> 'q \<Rightarrow> 'a list \<times> 'q" where
  "drain 0 q = ([], q)"
| "drain (Suc n) q =
     (if empty q then ([], q)
      else (let (x, q) = pop q; (xs, q) = drain n q in (x # xs, q)))"

lemma fill_spec:
  "ok q \<Longrightarrow> fill xs q = (rest, q') \<Longrightarrow>
   ok q' \<and> contents q' = contents q @ take (cap - length (contents q)) xs
   \<and> rest = drop (cap - length (contents q)) xs"
proof (induction xs arbitrary: q)
  case (Cons x xs)
  show ?case
  proof (cases "full q")
    case True
    then show ?thesis using Cons.prems full_iff [of q] by simp
  next
    case False
    then have r: "cap - length (contents q) = Suc (cap - length (contents q) - 1)"
      using bounded [OF Cons.prems(1)] full_iff [OF Cons.prems(1)] by simp
    from False Cons.IH [OF push_ok [OF Cons.prems(1) False]] Cons.prems(2)
    have "ok q' \<and> contents q' = contents (push x q) @ take (cap - length (contents (push x q))) xs
        \<and> rest = drop (cap - length (contents (push x q))) xs" by simp
    then show ?thesis
      unfolding push_contents [OF Cons.prems(1) False] by (subst (1 2) r) simp
  qed
qed simp

lemma drain_spec:
  "ok q \<Longrightarrow> drain n q = (xs, q') \<Longrightarrow>
   ok q' \<and> xs = take n (contents q) \<and> contents q' = drop n (contents q)"
proof (induction n arbitrary: q xs q')
  case (Suc n)
  show ?case
  proof (cases "empty q")
    case True
    then show ?thesis using Suc.prems empty_iff [of q] by simp
  next
    case False
    obtain x p where p: "pop q = (x, p)" by (cases "pop q")
    obtain ys p' where d: "drain n p = (ys, p')" by (cases "drain n p")
    have "contents q = x # contents p" "ok p"
      using pop_contents [OF Suc.prems(1) False] pop_ok [OF Suc.prems(1) False] p by simp_all
    then show ?thesis using Suc.IH [OF _ d] Suc.prems(2) False p d by auto
  qed
qed simp

end

section \<open>The ring is such a queue\<close>

fun ring_ok :: "ring \<Rightarrow> bool" where
  "ring_ok (b, s, e) \<longleftrightarrow> length b = 64 \<and> 0 \<le> s \<and> s < 64 \<and> 0 \<le> e \<and> e < 64"

fun ring_contents :: "ring \<Rightarrow> u8 list" where
  "ring_contents (b, s, e) = map (\<lambda>i. b ! nat ((s + int i) mod 64)) [0..<nat (buf_used s e)]"

lemma used_push:
  assumes "0 \<le> s" "s < 64" "0 \<le> e" "e < 64" "\<not> buf_full s e"
  shows "buf_used s (buf_incidx e) = buf_used s e + 1"
  using assms by (cases "e = 63") (auto simp: buf_used_def buf_incidx_def buf_full_def)

lemma used_pop:
  assumes "0 \<le> s" "s < 64" "0 \<le> e" "e < 64" "s \<noteq> e"
  shows "buf_used s e = buf_used (buf_incidx s) e + 1"
  using assms by (cases "s = 63") (auto simp: buf_used_def buf_incidx_def)

lemma used_bounds: "0 \<le> s \<Longrightarrow> s < 64 \<Longrightarrow> 0 \<le> e \<Longrightarrow> e < 64 \<Longrightarrow> 0 \<le> buf_used s e \<and> buf_used s e \<le> 63"
  by (simp add: buf_used_def)

lemma incidx_bounds: "0 \<le> buf_incidx i \<and> buf_incidx i < 64"
  by (simp add: buf_incidx_def)

lemma finindex: "0 \<le> s \<Longrightarrow> s < 64 \<Longrightarrow> 0 \<le> e \<Longrightarrow> e < 64 \<Longrightarrow> (s + buf_used s e) mod 64 = e"
  by (auto simp: buf_used_def)

lemma index_before_end:
  assumes "0 \<le> s" "s < 64" "0 \<le> e" "e < 64" "0 \<le> i" "i < buf_used s e"
  shows "(s + i) mod 64 \<noteq> e"
proof (cases "s + i < 64")
  case True
  then show ?thesis using assms by (auto simp: buf_used_def split: if_splits)
next
  case False
  then have "(s + i) mod 64 = s + i - 64"
    using assms used_bounds [OF assms(1-4)] by (intro int_mod_pos_eq [of _ _ 1]) auto
  then show ?thesis using assms False by (auto simp: buf_used_def split: if_splits)
qed

lemma full_used: "0 \<le> s \<Longrightarrow> s < 64 \<Longrightarrow> 0 \<le> e \<Longrightarrow> e < 64 \<Longrightarrow> buf_full s e = (buf_used s e = 63)"
  by (cases "e = 63") (auto simp: buf_full_def buf_used_def)

lemma ring_push_contents:
  assumes "ring_ok (b, s, e)" and "\<not> buf_full s e"
  shows "ring_contents (ring_push c (b, s, e)) = ring_contents (b, s, e) @ [c]"
proof -
  let ?n = "nat (buf_used s e)"
  have k: "0 \<le> s" "s < 64" "0 \<le> e" "e < 64" "length b = 64" using assms(1) by auto
  have u: "nat (buf_used s (buf_incidx e)) = Suc ?n"
    using used_push [OF k(1-4) assms(2)] used_bounds [OF k(1-4)] by (simp add: nat_add_distrib)
  have last: "nat ((s + int ?n) mod 64) = nat e"
    using finindex [OF k(1-4)] used_bounds [OF k(1-4)] by simp
  have old: "b[nat e := c] ! nat ((s + int i) mod 64) = b ! nat ((s + int i) mod 64)" if "i < ?n" for i
  proof -
    have "(s + int i) mod 64 \<noteq> e" using index_before_end [OF k(1-4), of "int i"] that by simp
    then have "nat ((s + int i) mod 64) \<noteq> nat e" using k by (simp add: eq_nat_nat_iff)
    then show ?thesis by simp
  qed
  have "map (\<lambda>i. b[nat e := c] ! nat ((s + int i) mod 64)) [0..<?n] = ring_contents (b, s, e)"
    using old by simp
  moreover have "b[nat e := c] ! nat ((s + int ?n) mod 64) = c" unfolding last using k by simp
  ultimately show ?thesis by (simp add: u)
qed

lemma ring_pop_contents:
  assumes "ring_ok (b, s, e)" and "s \<noteq> e"
  shows "ring_contents (b, s, e) = b ! nat s # ring_contents (b, buf_incidx s, e)"
proof -
  let ?n = "nat (buf_used (buf_incidx s) e)"
  have k: "0 \<le> s" "s < 64" "0 \<le> e" "e < 64" using assms(1) by auto
  have u: "nat (buf_used s e) = Suc ?n"
    using used_pop [OF k assms(2)] used_bounds [of "buf_incidx s" e] incidx_bounds [of s] k
    by (simp add: nat_add_distrib)
  have "(s + int (Suc i)) mod 64 = (buf_incidx s + int i) mod 64" for i
    by (simp add: buf_incidx_def mod_simps ac_simps)
  then show ?thesis
    using k by (simp add: u upt_conv_Cons map_Suc_upt [symmetric] comp_def del: upt_Suc)
qed

interpretation ring_fifo: bounded_fifo ring_ok ring_contents 63 ring_full ring_empty ring_push ring_pop
proof
  fix q :: ring and x :: u8
  obtain b s e where q: "q = (b, s, e)" by (cases q)
  assume ok: "ring_ok q"
  then have k: "0 \<le> s" "s < 64" "0 \<le> e" "e < 64" "length b = 64" by (auto simp: q)
  show "ring_full q = (length (ring_contents q) = 63)"
    using full_used [OF k(1-4)] used_bounds [OF k(1-4)] by (auto simp: q)
  show "ring_empty q = (ring_contents q = [])"
    using k by (auto simp: q buf_empty_def buf_used_def)
  show "length (ring_contents q) \<le> 63" using used_bounds [OF k(1-4)] by (simp add: q nat_le_iff)
  show "ring_ok (ring_push x q)" if "\<not> ring_full q" using k incidx_bounds by (simp add: q)
  show "ring_contents (ring_push x q) = ring_contents q @ [x]" if "\<not> ring_full q"
    using ring_push_contents [of b s e x] ok that by (simp add: q)
  show "ring_ok (snd (ring_pop q))" if "\<not> ring_empty q" using k incidx_bounds by (simp add: q)
  show "ring_contents q = fst (ring_pop q) # ring_contents (snd (ring_pop q))" if "\<not> ring_empty q"
    using ring_pop_contents [of b s e] ok that by (simp add: q buf_empty_def)
qed

section \<open>The discipline's data\<close>

record tuxctl_ldisc_data =
  magic :: int
  rx_buf :: "u8 list"
  rx_start :: int
  rx_end :: int
  tx_buf :: "u8 list"
  tx_start :: int
  tx_end :: int

text \<open>The terminal structure: the discipline's data, NULL when closed, and two histories, newest last:
  the bytes the serial driver accepted and the ones it did not.\<close>

record tty_struct =
  disc_data :: "tuxctl_ldisc_data option"
  wire :: "u8 list"
  lost :: "u8 list"

record tty_driver =
  driver_room :: "u8 list \<Rightarrow> int"
  driver_write :: "u8 list \<Rightarrow> u8 list \<Rightarrow> int"

definition rx :: "tuxctl_ldisc_data \<Rightarrow> ring" where
  "rx d = (rx_buf d, rx_start d, rx_end d)"

definition tx :: "tuxctl_ldisc_data \<Rightarrow> ring" where
  "tx d = (tx_buf d, tx_start d, tx_end d)"

fun set_rx :: "ring \<Rightarrow> tuxctl_ldisc_data \<Rightarrow> tuxctl_ldisc_data" where
  "set_rx (b, s, e) d = d\<lparr>rx_buf := b, rx_start := s, rx_end := e\<rparr>"

fun set_tx :: "ring \<Rightarrow> tuxctl_ldisc_data \<Rightarrow> tuxctl_ldisc_data" where
  "set_tx (b, s, e) d = d\<lparr>tx_buf := b, tx_start := s, tx_end := e\<rparr>"

section \<open>Operations\<close>

text \<open>\<open>kmalloc\<close> either fails or returns memory with whatever it held.\<close>

definition tuxctl_ldisc_open :: "tuxctl_ldisc_data option \<Rightarrow> tty_struct \<Rightarrow> int \<times> tty_struct" where
  "tuxctl_ldisc_open kmalloc tty = (case kmalloc of
     None \<Rightarrow> (- 12, tty)
   | Some data \<Rightarrow> (0, tty\<lparr>disc_data := Some (data\<lparr>magic := 0x74757863, rx_start := 0, rx_end := 0,
       tx_start := 0, tx_end := 0\<rparr>)\<rparr>))"

definition tuxctl_ldisc_close :: "tty_struct \<Rightarrow> tty_struct" where
  "tuxctl_ldisc_close tty = tty\<lparr>disc_data := None\<rparr>"

text \<open>The loop of \<open>tuxctl_ldisc_rcv_buf\<close>: bytes that find the buffer full are dropped.\<close>

primrec rcv_loop :: "u8 list \<Rightarrow> ring \<Rightarrow> ring" where
  "rcv_loop [] q = q"
| "rcv_loop (c # cp) q = (if ring_full q then q else rcv_loop cp (ring_push c q))"

text \<open>The loops that take bytes out: up to a count, or while \<open>n <= room\<close>, which is one more than
  \<open>room\<close>.\<close>

primrec pop_loop :: "nat \<Rightarrow> ring \<Rightarrow> u8 list \<times> ring" where
  "pop_loop 0 q = ([], q)"
| "pop_loop (Suc n) q =
     (if ring_empty q then ([], q)
      else (let (c, q) = ring_pop q; (cs, q) = pop_loop n q in (c # cs, q)))"

primrec put_loop :: "u8 list \<Rightarrow> ring \<Rightarrow> u8 list \<times> ring" where
  "put_loop [] q = ([], q)"
| "put_loop (c # buf) q = (if ring_full q then (c # buf, q) else put_loop buf (ring_push c q))"

text \<open>The bytes are out of the ring when the driver is asked to take them: \<open>sent\<close>, what it says it
  took, is compared with their number for a debug message only.\<close>

definition tuxctl_ldisc_write_wakeup :: "tty_driver \<Rightarrow> tty_struct \<Rightarrow> fault + tty_struct" where
  "tuxctl_ldisc_write_wakeup drv tty =
     (let room = driver_room drv (wire tty) in
      case disc_data tty of
        None \<Rightarrow> Inl Null_pointer
      | Some data \<Rightarrow>
          (let (buf, q) = pop_loop (nat (room + 1)) (tx data);
               sent = driver_write drv (wire tty) buf
           in Inr (tty\<lparr>disc_data := Some (set_tx q data), wire := wire tty @ take (nat sent) buf,
                lost := lost tty @ drop (nat sent) buf\<rparr>)))"

definition tuxctl_ldisc_get :: "int \<Rightarrow> tty_struct \<Rightarrow> fault + (u8 list \<times> tty_struct)" where
  "tuxctl_ldisc_get n tty = (case disc_data tty of
     None \<Rightarrow> Inl Null_pointer
   | Some data \<Rightarrow>
       (let (buf, q) = pop_loop (nat n) (rx data)
        in Inr (buf, tty\<lparr>disc_data := Some (set_rx q data)\<rparr>)))"

definition tuxctl_ldisc_put ::
  "tty_driver \<Rightarrow> u8 list \<Rightarrow> tty_struct \<Rightarrow> fault + (int \<times> tty_struct)" where
  "tuxctl_ldisc_put drv buf tty = (case disc_data tty of
     None \<Rightarrow> Inl Null_pointer
   | Some data \<Rightarrow>
       (let (rest, q) = put_loop buf (tx data);
            tty = tty\<lparr>disc_data := Some (set_tx q data)\<rparr>
        in and_then (tuxctl_ldisc_write_wakeup drv tty)
             (\<lambda>tty. Inr (int (length rest), tty))))"

section \<open>What they do to the queues\<close>

lemma loops_fifo:
  "rcv_loop cp q = snd (ring_fifo.fill cp q)" "put_loop cp q = ring_fifo.fill cp q"
  "pop_loop n q = ring_fifo.drain n q"
proof -
  show "rcv_loop cp q = snd (ring_fifo.fill cp q)" by (induction cp arbitrary: q) auto
  show "put_loop cp q = ring_fifo.fill cp q" by (induction cp arbitrary: q) auto
  show "pop_loop n q = ring_fifo.drain n q" by (induction n arbitrary: q) (auto split: prod.split)
qed

lemma set_simps [simp]:
  "rx (set_rx q d) = q" "tx (set_rx q d) = tx d" "rx (set_tx q d) = rx d" "tx (set_tx q d) = q"
  by (cases q; simp add: rx_def tx_def)+

definition ldisc_ok :: "tty_struct \<Rightarrow> bool" where
  "ldisc_ok tty = (case disc_data tty of None \<Rightarrow> False | Some d \<Rightarrow> ring_ok (rx d) \<and> ring_ok (tx d))"

definition received :: "tty_struct \<Rightarrow> u8 list" where
  "received tty = (case disc_data tty of None \<Rightarrow> [] | Some d \<Rightarrow> ring_contents (rx d))"

definition pending :: "tty_struct \<Rightarrow> u8 list" where
  "pending tty = (case disc_data tty of None \<Rightarrow> [] | Some d \<Rightarrow> ring_contents (tx d))"

text \<open>A receive appends what fits; a get takes from the front; a put followed by the wakeup keeps the
  order of everything sent, and loses what finds no place in the ring, which it reports, and what the driver is
  offered and does not accept, which it does not.\<close>

lemma rcv_spec:
  assumes "ring_ok q"
  shows "ring_ok (rcv_loop cp q)"
    and "ring_contents (rcv_loop cp q) = ring_contents q @ take (63 - length (ring_contents q)) cp"
proof -
  obtain rest q' where f: "ring_fifo.fill cp q = (rest, q')" by (cases "ring_fifo.fill cp q")
  from ring_fifo.fill_spec [OF assms f] show "ring_ok (rcv_loop cp q)"
    and "ring_contents (rcv_loop cp q) = ring_contents q @ take (63 - length (ring_contents q)) cp"
    by (simp_all add: loops_fifo f)
qed

lemma get_spec:
  assumes "ldisc_ok tty"
  shows "\<exists>t. tuxctl_ldisc_get n tty = Inr (take (nat n) (received tty), t) \<and> ldisc_ok t
    \<and> received t = drop (nat n) (received tty) \<and> pending t = pending tty \<and> wire t = wire tty
    \<and> lost t = lost tty"
proof -
  obtain d where d: "disc_data tty = Some d" "ring_ok (rx d)" "ring_ok (tx d)"
    using assms by (auto simp: ldisc_ok_def split: option.splits)
  obtain xs q where f: "ring_fifo.drain (nat n) (rx d) = (xs, q)" by (cases "ring_fifo.drain (nat n) (rx d)")
  from ring_fifo.drain_spec [OF d(2) f] show ?thesis
    by (simp add: tuxctl_ldisc_get_def d f loops_fifo ldisc_ok_def received_def pending_def)
qed

text \<open>What a wakeup hands to the driver: up to one byte more than there is room for.\<close>

definition offered :: "tty_driver \<Rightarrow> u8 list \<Rightarrow> u8 list \<Rightarrow> u8 list" where
  "offered drv w q = take (nat (driver_room drv w + 1)) q"

definition accepted :: "tty_driver \<Rightarrow> u8 list \<Rightarrow> u8 list \<Rightarrow> nat" where
  "accepted drv w q = nat (driver_write drv w (offered drv w q))"

definition moved :: "tty_driver \<Rightarrow> u8 list \<Rightarrow> tty_struct \<Rightarrow> tty_struct \<Rightarrow> bool" where
  "moved drv q tty t \<longleftrightarrow> ldisc_ok t \<and> received t = received tty
     \<and> offered drv (wire tty) q @ pending t = q
     \<and> wire t = wire tty @ take (accepted drv (wire tty) q) (offered drv (wire tty) q)
     \<and> lost t = lost tty @ drop (accepted drv (wire tty) q) (offered drv (wire tty) q)"

lemma wakeup_spec:
  assumes "ldisc_ok tty"
  shows "\<exists>t. tuxctl_ldisc_write_wakeup drv tty = Inr t \<and> moved drv (pending tty) tty t"
proof -
  obtain d where d: "disc_data tty = Some d" "ring_ok (rx d)" "ring_ok (tx d)"
    using assms by (auto simp: ldisc_ok_def split: option.splits)
  let ?n = "nat (driver_room drv (wire tty) + 1)"
  obtain xs q where f: "ring_fifo.drain ?n (tx d) = (xs, q)" by (cases "ring_fifo.drain ?n (tx d)")
  from ring_fifo.drain_spec [OF d(3) f] show ?thesis
    by (simp add: tuxctl_ldisc_write_wakeup_def Let_def d f loops_fifo ldisc_ok_def received_def
        pending_def moved_def offered_def accepted_def)
qed

lemma put_exact:
  assumes "ldisc_ok tty"
  shows "\<exists>t. tuxctl_ldisc_put drv buf tty = Inr (int (length buf - (63 - length (pending tty))), t)
    \<and> moved drv (pending tty @ take (63 - length (pending tty)) buf) tty t"
proof -
  obtain d where d: "disc_data tty = Some d" "ring_ok (rx d)" "ring_ok (tx d)"
    using assms by (auto simp: ldisc_ok_def split: option.splits)
  obtain rest q where f: "ring_fifo.fill buf (tx d) = (rest, q)" by (cases "ring_fifo.fill buf (tx d)")
  note fs = ring_fifo.fill_spec [OF d(3) f]
  let ?t = "tty\<lparr>disc_data := Some (set_tx q d)\<rparr>"
  have t: "ldisc_ok ?t" "received ?t = received tty" "wire ?t = wire tty" "lost ?t = lost tty"
    "pending ?t = pending tty @ take (63 - length (pending tty)) buf"
    using fs d by (simp_all add: ldisc_ok_def received_def pending_def)
  have "rest = drop (63 - length (pending tty)) buf" using fs d by (simp add: pending_def)
  with wakeup_spec [OF t(1), of drv] t d f show ?thesis
    by (auto simp: tuxctl_ldisc_put_def loops_fifo moved_def simp del: take_append drop_append)
qed

end
