(* ===== verification/TuxDriver.thy ===== *)
theory TuxDriver
  imports TuxLdisc
begin

text \<open>
  The controller's driver (\<open>module/tuxctl-ioctl.c\<close>): packets from the controller, the ioctls, and the
  framing callback of the line discipline (end of \<open>module/tuxctl-ld.c\<close>) that finds the packets in
  the byte stream.
\<close>

section \<open>State\<close>

text \<open>The module's globals, the static variables of the callback, the user's memory.\<close>

record tux =
  tty :: tty_struct
  btn_pkt :: "nat \<Rightarrow> 32 word"
  pkt_acknowledged :: int
  kernel_lock :: bool
  curr_leds :: "u8 list"
  saved :: "u8 list"
  n_saved :: int
  user_mem :: memory

abbreviation (input) "MTCP_ACK \<equiv> 0x40 :: u8"
abbreviation (input) "MTCP_BIOC_EVENT \<equiv> 0x41 :: u8"
abbreviation (input) "MTCP_RESET \<equiv> 0x46 :: u8"
abbreviation (input) "MTCP_BIOC_ON \<equiv> 0xC3 :: u8"
abbreviation (input) "MTCP_LED_SET \<equiv> 0xC6 :: u8"

definition spin_lock :: "tux \<Rightarrow> fault + tux" where
  "spin_lock s = (if kernel_lock s then Inl Deadlock else Inr (s\<lparr>kernel_lock := True\<rparr>))"

definition spin_unlock :: "tux \<Rightarrow> tux" where
  "spin_unlock s = s\<lparr>kernel_lock := False\<rparr>"

text \<open>A put whose result is ignored.\<close>

definition ldisc_put :: "tty_driver \<Rightarrow> u8 list \<Rightarrow> tux \<Rightarrow> fault + tux" where
  "ldisc_put drv buf s =
     and_then (tuxctl_ldisc_put drv buf (tty s)) (\<lambda>(r, t). Inr (s\<lparr>tty := t\<rparr>))"

section \<open>Packets\<close>

text \<open>The button order is right, left, down, up, c, b, a, start.\<close>

definition button_bits :: "u8 \<Rightarrow> u8 \<Rightarrow> (nat \<Rightarrow> 32 word) \<Rightarrow> nat \<Rightarrow> 32 word" where
  "button_bits b c btn = btn
     (0 := 1 AND drop_bit 3 (ucast c),
      1 := 1 AND drop_bit 1 (ucast c),
      2 := 1 AND drop_bit 2 (ucast c),
      3 := 1 AND ucast c,
      4 := 1 AND drop_bit 3 (ucast b),
      5 := 1 AND drop_bit 2 (ucast b),
      6 := 1 AND drop_bit 1 (ucast b),
      7 := 1 AND ucast b)"

definition tuxctl_handle_packet :: "tty_driver \<Rightarrow> u8 list \<Rightarrow> tux \<Rightarrow> fault + tux" where
  "tuxctl_handle_packet drv packet s =
     (let a = packet ! 0; b = packet ! 1; c = packet ! 2 in
      if a = MTCP_BIOC_EVENT
      then and_then (spin_lock s) (\<lambda>s. Inr (spin_unlock (s\<lparr>btn_pkt := button_bits b c (btn_pkt s)\<rparr>)))
      else if a = MTCP_ACK
      then and_then (spin_lock s) (\<lambda>s. Inr (spin_unlock (s\<lparr>pkt_acknowledged := 1\<rparr>)))
      else if a = MTCP_RESET
      then and_then (spin_lock s) (\<lambda>s.
           and_then (ldisc_put drv (take 6 (curr_leds s)) (s\<lparr>pkt_acknowledged := 1\<rparr>)) (\<lambda>s.
           ldisc_put drv [MTCP_BIOC_ON] (spin_unlock s)))
      else Inr s)"

section \<open>The ioctls\<close>

datatype tux_cmd = TUX_INIT | TUX_BUTTONS | TUX_SET_LED | TUX_LED_ACK | TUX_LED_REQUEST | TUX_READ_LED
  | Other_cmd

definition tux_init :: "tty_driver \<Rightarrow> tux \<Rightarrow> fault + (int \<times> tux)" where
  "tux_init drv s =
     and_then (spin_lock s) (\<lambda>s.
       let s = s\<lparr>pkt_acknowledged := 1\<rparr>;
           s = s\<lparr>btn_pkt := (btn_pkt s)(0 := 1, 1 := 1, 2 := 1, 3 := 1, 4 := 1, 5 := 1, 6 := 1, 7 := 1)\<rparr>;
           s = s\<lparr>curr_leds := (curr_leds s)[0 := MTCP_LED_SET, 1 := 0xF, 2 := 0xE7, 3 := 0xE7, 4 := 0xE7, 5 := 0]\<rparr>
       in and_then (ldisc_put drv [MTCP_BIOC_ON] (spin_unlock s)) (\<lambda>s. Inr (0, s)))"

text \<open>The loop that packs the buttons into an integer.\<close>

primrec pack_buttons :: "nat list \<Rightarrow> (nat \<Rightarrow> 32 word) \<Rightarrow> 32 word \<Rightarrow> 32 word" where
  "pack_buttons [] btn btn_int = btn_int"
| "pack_buttons (i # is) btn btn_int =
     (let btn_int = btn_int + 1;
          btn_int = btn_int - (NOT (btn i) AND 1);
          btn_int = (if i \<noteq> 7 then push_bit 1 btn_int else btn_int)
      in pack_buttons is btn btn_int)"

definition tux_buttons :: "32 word \<Rightarrow> tux \<Rightarrow> fault + (int \<times> tux)" where
  "tux_buttons arg s =
     (if arg = 0 then Inr (- 22, s)
      else and_then (spin_lock s) (\<lambda>s.
        let btn_int = pack_buttons [0, 1, 2, 3, 4, 5, 6, 7] (btn_pkt s) 0;
            s = spin_unlock s
        in Inr (0, s\<lparr>user_mem := (user_mem s)(uint arg := ucast btn_int)\<rparr>)))"

text \<open>The segments of a hexadecimal digit.\<close>

definition led_mapping :: "u8 list" where
  "led_mapping = [0xE7, 0x06, 0xCB, 0x8F, 0x2E, 0xAD, 0xED, 0x86, 0xEF, 0xAE, 0xEE, 0x6D, 0xE1, 0x4F,
     0xE9, 0xE8]"

text \<open>The displays the switch clears for each value of \<open>leds_to_keep_on\<close>; display \<open>j\<close> is byte
  \<open>j + 2\<close> of the packet.\<close>

definition leds_cleared :: "nat list list" where
  "leds_cleared =
     [[2, 3, 4, 5], [3, 4, 5], [2, 4, 5], [4, 5], [2, 3, 5], [3, 5], [2, 5], [5],
      [2, 3, 4], [3, 4], [2, 4], [4], [2, 3], [3], [2], []]"

text \<open>One turn of the display loop.\<close>

definition led_step :: "32 word \<Rightarrow> nat \<Rightarrow> u8 list \<Rightarrow> u8 list" where
  "led_step arg i buff =
     (let decimal_points = drop_bit 24 arg;
          leds_to_keep_on = unat (drop_bit 16 arg AND 0xF);
          value = unat (drop_bit (4 * i) arg AND 0xF);
          buff = buff[i + 2 := led_mapping ! value];
          buff = fold (\<lambda>k b. b[k := 0]) (leds_cleared ! leds_to_keep_on) buff
      in if drop_bit i decimal_points AND 1 = 1
         then buff[i + 2 := buff ! (i + 2) + 0x10] else buff)"

definition led_packet :: "u8 list \<Rightarrow> 32 word \<Rightarrow> u8 list" where
  "led_packet local arg = fold (led_step arg) [0, 1, 2, 3] (local[0 := MTCP_LED_SET, 1 := 0xF])"

text \<open>Setting the displays; \<open>local\<close> is the uninitialised array \<open>buff\<close>.\<close>

definition tux_set_led :: "tty_driver \<Rightarrow> u8 list \<Rightarrow> 32 word \<Rightarrow> tux \<Rightarrow> fault + (int \<times> tux)" where
  "tux_set_led drv local arg s =
     and_then (spin_lock s) (\<lambda>s.
       if pkt_acknowledged s = 0 then Inr (0, s)
       else
         (let s = spin_unlock (s\<lparr>pkt_acknowledged := 0\<rparr>);
              buff = led_packet local arg;
              s = s\<lparr>curr_leds := fold (\<lambda>i l. l[i := buff ! i]) [0, 1, 2, 3, 4, 5] (curr_leds s)\<rparr>
          in and_then (ldisc_put drv (take 6 buff) s) (\<lambda>s. Inr (0, s))))"

definition tuxctl_ioctl ::
  "tty_driver \<Rightarrow> u8 list \<Rightarrow> tux_cmd \<Rightarrow> 32 word \<Rightarrow> tux \<Rightarrow> fault + (int \<times> tux)" where
  "tuxctl_ioctl drv local cmd arg s = (case cmd of
     TUX_INIT \<Rightarrow> tux_init drv s
   | TUX_BUTTONS \<Rightarrow> tux_buttons arg s
   | TUX_SET_LED \<Rightarrow> tux_set_led drv local arg s
   | TUX_LED_ACK \<Rightarrow> Inr (0, s)
   | TUX_LED_REQUEST \<Rightarrow> Inr (0, s)
   | TUX_READ_LED \<Rightarrow> Inr (0, s)
   | Other_cmd \<Rightarrow> Inr (- 22, s))"

section \<open>Framing\<close>

text \<open>The bytes left over when fewer than three remain, after handling the packets found.\<close>

fun frame_loop :: "tty_driver \<Rightarrow> u8 list \<Rightarrow> tux \<Rightarrow> fault + (u8 list \<times> tux)" where
  "frame_loop drv (p0 # p1 # p2 # ps) s =
     (if p0 AND 0x80 = 0 \<and> p1 AND 0x80 \<noteq> 0 \<and> p2 AND 0x80 \<noteq> 0
      then and_then (tuxctl_handle_packet drv [p0, p1, p2] s) (frame_loop drv ps)
      else frame_loop drv (p1 # p2 # ps) s)"
| "frame_loop drv ps s = Inr (ps, s)"

definition tuxctl_ldisc_data_callback :: "tty_driver \<Rightarrow> tux \<Rightarrow> fault + tux" where
  "tuxctl_ldisc_data_callback drv s =
     (let packet = take (nat (n_saved s)) (saved s) in
      and_then (tuxctl_ldisc_get (12 - n_saved s) (tty s)) (\<lambda>(got, t).
      and_then (frame_loop drv (packet @ got) (s\<lparr>tty := t\<rparr>)) (\<lambda>(rest, s).
        Inr (s\<lparr>n_saved := int (length rest), saved := rest @ drop (length rest) (saved s)\<rparr>))))"

definition tuxctl_ldisc_rcv_buf :: "tty_driver \<Rightarrow> u8 list \<Rightarrow> int \<Rightarrow> tux \<Rightarrow> fault + tux" where
  "tuxctl_ldisc_rcv_buf drv cp count s = (case disc_data (tty s) of
     None \<Rightarrow> Inr s
   | Some data \<Rightarrow>
       tuxctl_ldisc_data_callback drv
         (s\<lparr>tty := (tty s)\<lparr>disc_data := Some (set_rx (rcv_loop (take (nat count) cp) (rx data)) data)\<rparr>\<rparr>))"

section \<open>The specification: a machine on packets\<close>

text \<open>What the driver keeps and has sent, without the ring buffers.\<close>

record tux_abs =
  a_btn :: "nat \<Rightarrow> 32 word"
  a_ack :: int
  a_lock :: bool
  a_leds :: "u8 list"
  a_wire :: "u8 list"
  a_lost :: "u8 list"
  a_pending :: "u8 list"

definition tux_view :: "tux \<Rightarrow> tux_abs" where
  "tux_view s = \<lparr>a_btn = btn_pkt s, a_ack = pkt_acknowledged s, a_lock = kernel_lock s,
     a_leds = curr_leds s, a_wire = wire (tty s), a_lost = lost (tty s), a_pending = pending (tty s)\<rparr>"

text \<open>Sending: what fits behind the pending bytes is queued, then the driver is offered the front of
  the queue; what it does not accept of it is lost.\<close>

definition a_put :: "tty_driver \<Rightarrow> u8 list \<Rightarrow> tux_abs \<Rightarrow> tux_abs" where
  "a_put drv buf a =
     (let q = a_pending a @ take (63 - length (a_pending a)) buf;
          out = offered drv (a_wire a) q; k = accepted drv (a_wire a) q
      in a\<lparr>a_wire := a_wire a @ take k out, a_lost := a_lost a @ drop k out,
           a_pending := drop (length out) q\<rparr>)"

definition a_packet :: "tty_driver \<Rightarrow> u8 list \<Rightarrow> tux_abs \<Rightarrow> fault + tux_abs" where
  "a_packet drv p a =
     (if p ! 0 \<notin> {MTCP_BIOC_EVENT, MTCP_ACK, MTCP_RESET} then Inr a
      else if a_lock a then Inl Deadlock
      else if p ! 0 = MTCP_BIOC_EVENT then Inr (a\<lparr>a_btn := button_bits (p ! 1) (p ! 2) (a_btn a)\<rparr>)
      else if p ! 0 = MTCP_ACK then Inr (a\<lparr>a_ack := 1\<rparr>)
      else Inr (a_put drv [MTCP_BIOC_ON] (a_put drv (a_leds a) (a\<lparr>a_ack := 1\<rparr>))))"

primrec a_packets :: "tty_driver \<Rightarrow> u8 list list \<Rightarrow> tux_abs \<Rightarrow> fault + tux_abs" where
  "a_packets drv [] a = Inr a"
| "a_packets drv (p # ps) a = and_then (a_packet drv p a) (a_packets drv ps)"

definition tux_ok :: "tux \<Rightarrow> bool" where
  "tux_ok s \<longleftrightarrow> ldisc_ok (tty s) \<and> 0 \<le> n_saved s \<and> n_saved s \<le> 2 \<and> length (saved s) = 2
     \<and> length (curr_leds s) = 6"

text \<open>The bytes that arrived and are not yet part of a packet.\<close>

definition unread :: "tux \<Rightarrow> u8 list" where
  "unread s = take (nat (n_saved s)) (saved s) @ received (tty s)"

lemma ldisc_put_spec:
  assumes "ldisc_ok (tty s)"
  shows "\<exists>t. ldisc_put drv buf s = Inr (s\<lparr>tty := t\<rparr>) \<and> ldisc_ok t \<and> received t = received (tty s)
    \<and> tux_view (s\<lparr>tty := t\<rparr>) = a_put drv buf (tux_view s)"
proof -
  define q where "q = pending (tty s) @ take (63 - length (pending (tty s))) buf"
  obtain t where t: "tuxctl_ldisc_put drv buf (tty s) = Inr (int (length buf - (63 - length (pending (tty s)))), t)"
    "moved drv q (tty s) t" using put_exact [OF assms] unfolding q_def by blast
  note m = t(2) [unfolded moved_def]
  have "pending t = drop (length (offered drv (wire (tty s)) q)) q"
    using m by (metis append_eq_conv_conj)
  then have "tux_view (s\<lparr>tty := t\<rparr>) = a_put drv buf (tux_view s)"
    using m by (simp add: tux_view_def a_put_def Let_def q_def [symmetric] del: take_append drop_append)
  then show ?thesis using m t(1) by (auto simp: ldisc_put_def)
qed

text \<open>Handling a packet leaves the receiving side alone.\<close>

definition same_input :: "tux \<Rightarrow> tux \<Rightarrow> bool" where
  "same_input s t \<longleftrightarrow> received (tty t) = received (tty s) \<and> saved t = saved s \<and> n_saved t = n_saved s"

lemma handle_refines:
  assumes ok: "tux_ok s"
  shows "(case tuxctl_handle_packet drv p s of
      Inl e \<Rightarrow> a_packet drv p (tux_view s) = Inl e
    | Inr t \<Rightarrow> a_packet drv p (tux_view s) = Inr (tux_view t) \<and> tux_ok t \<and> same_input s t)"
proof -
  have six: "take 6 (curr_leds s) = curr_leds s" using ok by (simp add: tux_ok_def)
  consider "p ! 0 \<noteq> MTCP_RESET \<or> kernel_lock s" | "p ! 0 = MTCP_RESET" "\<not> kernel_lock s" by blast
  then show ?thesis
  proof cases
    case 1
    then show ?thesis
      using ok by (auto simp: tuxctl_handle_packet_def Let_def spin_lock_def spin_unlock_def a_packet_def
          tux_view_def tux_ok_def same_input_def)
  next
    case 2
    let ?s = "s\<lparr>kernel_lock := True, pkt_acknowledged := 1\<rparr>"
    have "ldisc_ok (tty ?s)" using ok by (simp add: tux_ok_def)
    from ldisc_put_spec [OF this, of drv "curr_leds s"] obtain t where
      t: "ldisc_put drv (curr_leds s) ?s = Inr (?s\<lparr>tty := t\<rparr>)" "ldisc_ok t" "received t = received (tty s)"
        "tux_view (?s\<lparr>tty := t\<rparr>) = a_put drv (curr_leds s) (tux_view ?s)" by auto
    let ?u = "spin_unlock (?s\<lparr>tty := t\<rparr>)"
    have "ldisc_ok (tty ?u)" using t(2) by (simp add: spin_unlock_def)
    from ldisc_put_spec [OF this, of drv "[MTCP_BIOC_ON]"] obtain v where
      v: "ldisc_put drv [MTCP_BIOC_ON] ?u = Inr (?u\<lparr>tty := v\<rparr>)" "ldisc_ok v" "received v = received (tty s)"
        "tux_view (?u\<lparr>tty := v\<rparr>) = a_put drv [MTCP_BIOC_ON] (tux_view ?u)"
      using t(3) by (auto simp: spin_unlock_def)
    have run: "tuxctl_handle_packet drv p s = Inr (?u\<lparr>tty := v\<rparr>)"
      using 2 t(1) v(1) six by (simp add: tuxctl_handle_packet_def Let_def spin_lock_def)
    have "tux_view ?u = (a_put drv (curr_leds s) (tux_view ?s))\<lparr>a_lock := False\<rparr>"
      unfolding t(4) [symmetric] by (simp add: tux_view_def spin_unlock_def)
    also have "\<dots> = a_put drv (a_leds (tux_view s)) ((tux_view s)\<lparr>a_ack := 1\<rparr>)"
      using 2(2) by (simp add: a_put_def Let_def tux_view_def)
    finally have "a_packet drv p (tux_view s) = Inr (tux_view (?u\<lparr>tty := v\<rparr>))"
      using 2 unfolding v(4) by (simp add: a_packet_def tux_view_def)
    then show ?thesis
      using run v(2,3) ok by (simp add: tux_ok_def same_input_def spin_unlock_def)
  qed
qed

section \<open>Packets in a byte stream\<close>

text \<open>Any three bytes in a row with these framing bits are a packet; two packets cannot overlap, since only
  the first byte of a packet has its top bit clear.\<close>

definition valid_packet :: "u8 list \<Rightarrow> bool" where
  "valid_packet p \<longleftrightarrow> length p = 3 \<and> p ! 0 AND 0x80 = 0 \<and> p ! 1 AND 0x80 \<noteq> 0 \<and> p ! 2 AND 0x80 \<noteq> 0"

definition packets_in :: "u8 list \<Rightarrow> u8 list list" where
  "packets_in bs = filter valid_packet (map (\<lambda>i. take 3 (drop i bs)) [0..<length bs])"

text \<open>The same packets found from the left, with the bytes that are left over.\<close>

fun scan :: "u8 list \<Rightarrow> u8 list list \<times> u8 list" where
  "scan (p0 # p1 # p2 # bs) = (if valid_packet [p0, p1, p2] then ([p0, p1, p2] # fst (scan bs), snd (scan bs))
     else scan (p1 # p2 # bs))"
| "scan bs = ([], bs)"

lemma valid_packet_bytes:
  "valid_packet [p0, p1, p2] \<longleftrightarrow> p0 AND 0x80 = 0 \<and> p1 AND 0x80 \<noteq> 0 \<and> p2 AND 0x80 \<noteq> 0"
  by (simp add: valid_packet_def eval_nat_numeral)

lemma packets_in_Nil [simp]: "packets_in [] = []"
  by (simp add: packets_in_def)

lemma packets_in_Cons:
  "packets_in (b # bs) = (if valid_packet (take 3 (b # bs)) then [take 3 (b # bs)] else []) @ packets_in bs"
proof -
  have "map (\<lambda>i. take 3 (drop i (b # bs))) [0..<length (b # bs)]
      = take 3 (b # bs) # map (\<lambda>i. take 3 (drop i bs)) [0..<length bs]"
    by (simp add: upt_conv_Cons map_Suc_upt [symmetric] del: upt_Suc)
  then show ?thesis by (simp only: packets_in_def) simp
qed

lemma no_packet: "p AND 0x80 \<noteq> 0 \<Longrightarrow> \<not> valid_packet (p # ps)" "length ps < 3 \<Longrightarrow> \<not> valid_packet ps"
  by (simp_all add: valid_packet_def)

lemma scan_packets: "fst (scan bs) = packets_in bs"
proof (induction bs rule: scan.induct)
  case (1 p0 p1 p2 bs)
  then show ?case
    by (auto simp: packets_in_Cons [of p0] packets_in_Cons [of p1] packets_in_Cons [of p2] no_packet(1)
        valid_packet_bytes eval_nat_numeral)
qed (simp_all add: packets_in_Cons no_packet(2))

lemma scan_rest: "length (snd (scan bs)) < 3" "\<exists>pre. bs = pre @ snd (scan bs)"
proof (induction bs rule: scan.induct)
  case (1 p0 p1 p2 bs)
  { case 1 from "1.IH" show ?case by simp }
  { case 2 from "1.IH" show ?case by (auto intro: Cons_eq_appendI) }
qed simp_all

lemma scan_append:
  "scan (xs @ ys) = (fst (scan xs) @ fst (scan (snd (scan xs) @ ys)), snd (scan (snd (scan xs) @ ys)))"
  by (induction xs rule: scan.induct) simp_all

lemma scan_concat:
  "\<forall>p\<in>set ps. valid_packet p \<Longrightarrow> length rest < 3 \<Longrightarrow> scan (concat ps @ rest) = (ps, rest)"
proof (induction ps)
  case Nil
  then have "rest = [] \<or> (\<exists>x. rest = [x]) \<or> (\<exists>x y. rest = [x, y])"
    by (cases rest; cases "tl rest"; cases "tl (tl rest)") auto
  then show ?case by auto
next
  case (Cons p ps)
  then obtain p0 p1 p2 where "p = [p0, p1, p2]"
    by (auto simp: valid_packet_def length_Suc_conv eval_nat_numeral)
  with Cons show ?case by simp
qed

lemma same_input_trans: "same_input s t \<Longrightarrow> same_input t u \<Longrightarrow> same_input s u"
  by (simp add: same_input_def)

lemma frame_refines:
  assumes "tux_ok s"
  shows "(case frame_loop drv bs s of
      Inl e \<Rightarrow> a_packets drv (fst (scan bs)) (tux_view s) = Inl e
    | Inr (r, t) \<Rightarrow> a_packets drv (fst (scan bs)) (tux_view s) = Inr (tux_view t) \<and> r = snd (scan bs)
        \<and> tux_ok t \<and> same_input s t)"
  using assms
proof (induction bs arbitrary: s rule: scan.induct)
  case (1 p0 p1 p2 bs)
  note h = handle_refines [OF "1.prems", of drv "[p0, p1, p2]"]
  show ?case
  proof (cases "valid_packet [p0, p1, p2]")
    case False
    then have "\<not> (p0 AND 0x80 = 0 \<and> p1 AND 0x80 \<noteq> 0 \<and> p2 AND 0x80 \<noteq> 0)" by (simp only: valid_packet_bytes not_False_eq_True)
    then have l: "frame_loop drv (p0 # p1 # p2 # bs) s = frame_loop drv (p1 # p2 # bs) s"
      by (simp only: frame_loop.simps if_False)
    have c: "scan (p0 # p1 # p2 # bs) = scan (p1 # p2 # bs)"
      using False by (simp only: scan.simps if_False)
    show ?thesis unfolding l c by (rule "1.IH"(3) [OF False "1.prems"])
  next
    case True
    then have v: "p0 AND 0x80 = 0" "p1 AND 0x80 \<noteq> 0" "p2 AND 0x80 \<noteq> 0" by (simp_all add: valid_packet_bytes)
    show ?thesis
    proof (cases "tuxctl_handle_packet drv [p0, p1, p2] s")
      case (Inl e)
      then show ?thesis using h v True by simp
    next
      case (Inr t)
      then have ht: "a_packet drv [p0, p1, p2] (tux_view s) = Inr (tux_view t)" "tux_ok t" "same_input s t"
        using h by simp_all
      have "frame_loop drv (p0 # p1 # p2 # bs) s = frame_loop drv bs t" using v Inr by simp
      with "1.IH"(1) [OF True ht(2)] ht True show ?thesis
        by (auto split: sum.splits intro: same_input_trans)
    qed
  qed
qed (simp_all add: same_input_def)

lemma callback_refines:
  assumes ok: "tux_ok s" and u: "scan (take 12 (unread s)) = (ps, rest)"
  shows "(case tuxctl_ldisc_data_callback drv s of
      Inl e \<Rightarrow> a_packets drv ps (tux_view s) = Inl e
    | Inr t \<Rightarrow> a_packets drv ps (tux_view s) = Inr (tux_view t) \<and> tux_ok t
        \<and> unread t = rest @ drop 12 (unread s) \<and> received (tty t) = drop (nat (12 - n_saved s)) (received (tty s)))"
proof -
  let ?n = "nat (n_saved s)"
  have k: "ldisc_ok (tty s)" "0 \<le> n_saved s" "n_saved s \<le> 2" "length (saved s) = 2" "?n \<le> 2"
    using ok by (auto simp: tux_ok_def)
  have len: "length (take ?n (saved s)) = ?n" "nat (12 - n_saved s) = 12 - ?n" using k by auto
  obtain t where g: "tuxctl_ldisc_get (12 - n_saved s) (tty s) = Inr (take (12 - ?n) (received (tty s)), t)"
    "ldisc_ok t" "received t = drop (12 - ?n) (received (tty s))" "pending t = pending (tty s)" "wire t = wire (tty s)"
    "lost t = lost (tty s)"
    using get_spec [OF k(1), of "12 - n_saved s"] unfolding len(2) by blast
  let ?s = "s\<lparr>tty := t\<rparr>"
  have s': "tux_ok ?s" "tux_view ?s = tux_view s"
    using ok g by (simp_all add: tux_ok_def tux_view_def)
  have "min 12 ?n = ?n" using k(5) by simp
  then have bytes: "take ?n (saved s) @ take (12 - ?n) (received (tty s)) = take 12 (unread s)"
    using len(1) by (simp add: unread_def)
  have rest: "length rest < 3" using scan_rest(1) [of "take 12 (unread s)"] by (simp add: u)
  have left: "drop (12 - ?n) (received (tty s)) = drop 12 (unread s)"
    using len(1) k(5) by (simp add: unread_def)
  note fr = frame_refines [OF s'(1), of drv "take 12 (unread s)", folded bytes, unfolded s'(2), unfolded bytes u fst_conv snd_conv, folded bytes]
  have run: "tuxctl_ldisc_data_callback drv s =
      and_then (frame_loop drv (take ?n (saved s) @ take (12 - ?n) (received (tty s))) ?s)
        (\<lambda>(rest, s). Inr (s\<lparr>n_saved := int (length rest), saved := rest @ drop (length rest) (saved s)\<rparr>))"
    by (simp add: tuxctl_ldisc_data_callback_def Let_def g(1))
  show ?thesis
  proof (cases "frame_loop drv (take ?n (saved s) @ take (12 - ?n) (received (tty s))) ?s")
    case (Inl e)
    then show ?thesis using fr unfolding run by simp
  next
    case (Inr rt)
    then obtain w where w: "frame_loop drv (take ?n (saved s) @ take (12 - ?n) (received (tty s))) ?s = Inr (rest, w)"
      and a: "a_packets drv ps (tux_view s) = Inr (tux_view w)" "tux_ok w" "same_input ?s w"
      using fr by (cases rt) auto
    let ?t = "w\<lparr>n_saved := int (length rest), saved := rest @ drop (length rest) (saved w)\<rparr>"
    have "tux_view ?t = tux_view w" by (simp add: tux_view_def)
    moreover have "tux_ok ?t" using a(2) rest by (auto simp: tux_ok_def)
    moreover have "received (tty ?t) = drop (12 - ?n) (received (tty s))" using a(3) g(3) by (simp add: same_input_def)
    moreover from this have "unread ?t = rest @ drop 12 (unread s)" by (simp add: unread_def left)
    ultimately show ?thesis unfolding run w len(2) using a(1) by simp
  qed
qed

lemma rcv_buf_refines:
  assumes ok: "tux_ok s" and u: "scan (take 12 (unread s @ cp)) = (ps, rest)"
    and fits: "length (received (tty s)) + length cp \<le> 63"
  shows "(case tuxctl_ldisc_rcv_buf drv cp (int (length cp)) s of
      Inl e \<Rightarrow> a_packets drv ps (tux_view s) = Inl e
    | Inr t \<Rightarrow> a_packets drv ps (tux_view s) = Inr (tux_view t) \<and> tux_ok t
        \<and> unread t = rest @ drop 12 (unread s @ cp)
        \<and> received (tty t) = drop (nat (12 - n_saved s)) (received (tty s) @ cp))"
proof -
  obtain d where d: "disc_data (tty s) = Some d" "ring_ok (rx d)" "ring_ok (tx d)"
    using ok by (auto simp: tux_ok_def ldisc_ok_def split: option.splits)
  let ?s = "s\<lparr>tty := (tty s)\<lparr>disc_data := Some (set_rx (rcv_loop cp (rx d)) d)\<rparr>\<rparr>"
  have s': "tux_ok ?s" "tux_view ?s = tux_view s" "received (tty ?s) = received (tty s) @ cp"
    "unread ?s = unread s @ cp"
    using ok d rcv_spec [OF d(2), of cp] fits
    by (auto simp: tux_ok_def ldisc_ok_def tux_view_def received_def pending_def unread_def)
  have run: "tuxctl_ldisc_rcv_buf drv cp (int (length cp)) s = tuxctl_ldisc_data_callback drv ?s"
    by (simp add: tuxctl_ldisc_rcv_buf_def d)
  have n: "n_saved ?s = n_saved s" by simp
  have "scan (take 12 (unread ?s)) = (ps, rest)" using u s'(4) by simp
  from callback_refines [OF s'(1) this, of drv] show ?thesis unfolding run s' n .
qed

section \<open>Packets arrive whatever the chunks\<close>

primrec rcv_chunks :: "tty_driver \<Rightarrow> u8 list list \<Rightarrow> tux \<Rightarrow> fault + tux" where
  "rcv_chunks drv [] s = Inr s"
| "rcv_chunks drv (c # cs) s =
     and_then (tuxctl_ldisc_rcv_buf drv c (int (length c)) s) (rcv_chunks drv cs)"

lemma a_packets_append: "a_packets drv (xs @ ys) a = and_then (a_packets drv xs a) (a_packets drv ys)"
proof (induction xs arbitrary: a)
  case (Cons p xs)
  then show ?case by (cases "a_packet drv p a") auto
qed simp

lemma rcv_chunks_refines:
  assumes "tux_ok s" and "received (tty s) = []" and "\<forall>c\<in>set chunks. length c \<le> 10"
  shows "map_sum (\<lambda>e. e) tux_view (rcv_chunks drv chunks s) = a_packets drv (fst (scan (unread s @ concat chunks))) (tux_view s)
    \<and> (\<forall>t. rcv_chunks drv chunks s = Inr t \<longrightarrow> unread t = snd (scan (unread s @ concat chunks)) \<and> tux_ok t)"
  using assms
proof (induction chunks arbitrary: s)
  case Nil
  have "length (unread s) < 3" using Nil.prems(1,2) by (auto simp: unread_def tux_ok_def)
  from scan_concat [of "[]", OF _ this] show ?case using Nil.prems(1) by simp
next
  case (Cons c cs)
  have ns: "0 \<le> n_saved s" "n_saved s \<le> 2" "length (unread s) = nat (n_saved s)"
    using Cons.prems(1,2) by (auto simp: unread_def tux_ok_def)
  have c10: "length c \<le> 10" using Cons.prems(3) by simp
  have len: "length (unread s @ c) \<le> 12" using ns c10 by simp
  obtain ps1 r where sp: "scan (unread s @ c) = (ps1, r)" by (cases "scan (unread s @ c)")
  have whole: "scan (unread s @ concat (c # cs)) = (ps1 @ fst (scan (r @ concat cs)), snd (scan (r @ concat cs)))"
    using scan_append [of "unread s @ c" "concat cs"] by (simp add: sp)
  have "scan (take 12 (unread s @ c)) = (ps1, r)" using len sp by (metis take_all)
  from rcv_buf_refines [OF Cons.prems(1) this, of drv]
  have step: "(case tuxctl_ldisc_rcv_buf drv c (int (length c)) s of
      Inl e \<Rightarrow> a_packets drv ps1 (tux_view s) = Inl e
    | Inr t \<Rightarrow> a_packets drv ps1 (tux_view s) = Inr (tux_view t) \<and> tux_ok t \<and> unread t = r \<and> received (tty t) = [])"
    using Cons.prems(2) len ns c10 by (auto split: sum.splits)
  show ?case
  proof (cases "tuxctl_ldisc_rcv_buf drv c (int (length c)) s")
    case (Inl e)
    then show ?thesis using step unfolding whole by (simp add: a_packets_append)
  next
    case (Inr t)
    then have t: "a_packets drv ps1 (tux_view s) = Inr (tux_view t)" "tux_ok t" "unread t = r" "received (tty t) = []"
      using step by simp_all
    from Cons.IH [OF t(2,4)] Cons.prems(3) t(1,3) Inr show ?thesis
      unfolding whole by (simp add: a_packets_append)
  qed
qed

end
