(* ===== verification/TuxProps.thy ===== *)
theory TuxProps
  imports TuxDriver
begin

text \<open>
  The properties of the game controller's line discipline and driver, with instances on a driver
  whose buffers are empty.
\<close>

section \<open>The displays\<close>

text \<open>A seven-segment display drawn in three rows of characters, from the byte it is sent: bits 7 to 0
  are the segments A (top), E (left, lower), F (left, upper), the decimal point, G (middle), C (right,
  lower), B (right, upper) and D (bottom).\<close>

definition drawn :: "u8 \<Rightarrow> string list" where
  "drawn b = (let ink = (\<lambda>k c. if bit b k then c else CHR '' '') in
     [[CHR '' '', ink 7 (CHR ''_''), CHR '' ''],
      [ink 5 (CHR ''|''), ink 3 (CHR ''_''), ink 1 (CHR ''|'')],
      [ink 6 (CHR ''|''), ink 0 (CHR ''_''), ink 2 (CHR ''|'')]])"

text \<open>How the sixteen digits look.\<close>

definition digit_art :: "nat \<Rightarrow> string list" where
  "digit_art v =
     [['' _ '', ''| |'', ''|_|''], [''   '', ''  |'', ''  |''], ['' _ '', '' _|'', ''|_ ''],
      ['' _ '', '' _|'', '' _|''], [''   '', ''|_|'', ''  |''], ['' _ '', ''|_ '', '' _|''],
      ['' _ '', ''|_ '', ''|_|''], ['' _ '', ''  |'', ''  |''], ['' _ '', ''|_|'', ''|_|''],
      ['' _ '', ''|_|'', ''  |''], ['' _ '', ''|_|'', ''| |''], [''   '', ''|_ '', ''|_|''],
      ['' _ '', ''|  '', ''|_ ''], [''   '', '' _|'', ''|_|''], ['' _ '', ''|_ '', ''|_ ''],
      ['' _ '', ''|_ '', ''|  '']] ! v"

text \<open>The table of the driver draws them, without the decimal point.\<close>

lemma led_mapping_draws:
  assumes "v < 16"
  shows "drawn (led_mapping ! v) = digit_art v" and "\<not> bit (led_mapping ! v) 4"
    and "drawn (led_mapping ! v + 0x10) = digit_art v" and "bit (led_mapping ! v + 0x10) 4"
proof -
  have "list_all (\<lambda>v. drawn (led_mapping ! v) = digit_art v \<and> \<not> bit (led_mapping ! v) 4
      \<and> drawn (led_mapping ! v + 0x10) = digit_art v \<and> bit (led_mapping ! v + 0x10) 4) [0..<16]"
    by code_simp
  then show "drawn (led_mapping ! v) = digit_art v" and "\<not> bit (led_mapping ! v) 4"
    and "drawn (led_mapping ! v + 0x10) = digit_art v" and "bit (led_mapping ! v + 0x10) 4"
    using assms by (simp_all add: list_all_iff)
qed

text \<open>What a display shows: the digit when the display is in use, the decimal point when asked for; a
  display that is not in use is dark, but the last one keeps its point.\<close>

definition led_digit :: "32 word \<Rightarrow> nat \<Rightarrow> u8" where
  "led_digit arg j = led_mapping ! unat (drop_bit (4 * j) arg AND 0xF)"

definition led_segments :: "32 word \<Rightarrow> nat \<Rightarrow> u8" where
  "led_segments arg j =
     (let used = bit arg (16 + j); point = bit arg (24 + j)
      in (if used then led_digit arg j else 0) + (if point \<and> (used \<or> j = 3) then 0x10 else 0))"

lemma leds_cleared_bits:
  "list_all (\<lambda>k. list_all (\<lambda>j. (j + 2 \<in> set (leds_cleared ! k)) = (\<not> bit k j)) [0, 1, 2, 3]
     \<and> set (leds_cleared ! k) \<subseteq> {2, 3, 4, 5}) [0..<16]"
  by code_simp

lemma leds_cleared_at:
  assumes "k < 16"
  shows "j < 4 \<Longrightarrow> (j + 2 \<in> set (leds_cleared ! k)) = (\<not> bit k j)"
    and "set (leds_cleared ! k) \<subseteq> {2, 3, 4, 5}"
proof -
  have k: "k \<in> set [0..<16]" using assms by simp
  note all = leds_cleared_bits [unfolded list_all_iff, THEN bspec, OF k]
  show "set (leds_cleared ! k) \<subseteq> {2, 3, 4, 5}" using all by blast
  assume "j < 4"
  then have "j \<in> set [0, 1, 2, 3]" by auto
  then show "(j + 2 \<in> set (leds_cleared ! k)) = (\<not> bit k j)" using all by blast
qed

lemma fold_clear:
  "i < length b \<Longrightarrow> fold (\<lambda>k b. b[k := 0]) ks b ! i = (if i \<in> set ks then 0 else b ! i)"
  "length (fold (\<lambda>k b. b[k := 0]) ks b) = length (b :: u8 list)"
  by (induction ks arbitrary: b) (auto simp: nth_list_update)

lemma mask4: "(0xF :: 32 word) = mask 4"
  by (simp add: mask_eq_exp_minus_1)

lemma keep_bit: "j < 4 \<Longrightarrow> bit (unat (drop_bit 16 (arg :: 32 word) AND 0xF)) j = bit arg (16 + j)"
  unfolding mask4 bit_unsigned_iff bit_and_iff bit_drop_bit_eq comp_def bit_mask_iff
  by (auto dest: bit_imp_le_length)

lemma keep_less: "unat (drop_bit 16 (arg :: 32 word) AND 0xF) < 16"
proof -
  have "(0xF :: 32 word) = mask 4" by (simp add: mask_eq_exp_minus_1)
  then show ?thesis using and_mask_less_size [of 4 "drop_bit 16 arg"]
    by (simp add: word_less_nat_alt word_size)
qed

lemma cleared_iff:
  assumes "j < 4"
  shows "j + 2 \<in> set (leds_cleared ! unat (drop_bit 16 arg AND 0xF)) \<longleftrightarrow> \<not> bit (arg :: 32 word) (16 + j)"
  using leds_cleared_at(1) [OF keep_less assms] keep_bit [OF assms] by simp

lemma point_bit: "(drop_bit i (drop_bit 24 (arg :: 32 word)) AND 1 = 1) = bit arg (24 + i)"
proof -
  have "drop_bit i (drop_bit 24 arg) = drop_bit (24 + i) arg" by (simp add: add.commute)
  moreover have "(w AND 1 = 1) = bit w 0" for w :: "32 word" by (simp add: and_one_eq bit_0 odd_iff_mod_2_eq_one)
  ultimately show ?thesis by (simp add: bit_drop_bit_eq)
qed

text \<open>One turn, display by display.\<close>

lemma led_step_at:
  assumes "i < 4" and "j < 4" and "length b = 6"
  shows "led_step arg i b ! (j + 2) =
      (if j = i then (if bit arg (16 + j) then led_digit arg j else 0) + (if bit arg (24 + j) then 0x10 else 0)
       else if bit arg (16 + j) then b ! (j + 2) else 0)"
    and "led_step arg i b ! 0 = b ! 0" and "led_step arg i b ! 1 = b ! 1" and "length (led_step arg i b) = 6"
proof -
  have low: "0 \<notin> set (leds_cleared ! unat (drop_bit 16 arg AND 0xF))" "1 \<notin> set (leds_cleared ! unat (drop_bit 16 arg AND 0xF))"
    using leds_cleared_at(2) [OF keep_less, of arg] by auto
  note c = cleared_iff [OF assms(2), of arg]
  show "led_step arg i b ! (j + 2) =
      (if j = i then (if bit arg (16 + j) then led_digit arg j else 0) + (if bit arg (24 + j) then 0x10 else 0)
       else if bit arg (16 + j) then b ! (j + 2) else 0)"
    using assms c unfolding led_step_def Let_def point_bit
    by (cases "j = i") (simp_all add: fold_clear led_digit_def)
  show "led_step arg i b ! 0 = b ! 0" "led_step arg i b ! 1 = b ! 1" "length (led_step arg i b) = 6"
    using assms low by (simp_all add: led_step_def Let_def fold_clear)
qed

lemma led_packet_spec:
  assumes "length local = 6"
  shows "led_packet local arg = [0xC6, 0xF, led_segments arg 0, led_segments arg 1, led_segments arg 2, led_segments arg 3]"
proof -
  define b0 b1 b2 b3 b4 where "b0 = local[0 := 0xC6, 1 := 0xF]" and "b1 = led_step arg 0 b0"
    and "b2 = led_step arg 1 b1" and "b3 = led_step arg 2 b2" and "b4 = led_step arg 3 b3"
  have b: "led_packet local arg = b4"
    by (simp add: led_packet_def b0_def b1_def b2_def b3_def b4_def)
  have l0: "length b0 = 6" using assms by (simp add: b0_def)
  have l1: "length b1 = 6" unfolding b1_def by (rule led_step_at(4) [of 0 0]) (use l0 in auto)
  have l2: "length b2 = 6" unfolding b2_def by (rule led_step_at(4) [of 1 0]) (use l1 in auto)
  have l3: "length b3 = 6" unfolding b3_def by (rule led_step_at(4) [of 2 0]) (use l2 in auto)
  have l4: "length b4 = 6" unfolding b4_def by (rule led_step_at(4) [of 3 0]) (use l3 in auto)
  have head: "b4 ! 0 = 0xC6 \<and> b4 ! 1 = 0xF"
    using assms led_step_at(2,3) [of 0 0 b0 arg] led_step_at(2,3) [of 1 0 b1 arg]
      led_step_at(2,3) [of 2 0 b2 arg] led_step_at(2,3) [of 3 0 b3 arg] l0 l1 l2 l3
    unfolding b1_def [symmetric] b2_def [symmetric] b3_def [symmetric] b4_def [symmetric]
    by (simp add: b0_def)
  have seg: "b4 ! (j + 2) = led_segments arg j" if "j < 4" for j
  proof -
    have "j = 0 \<or> j = 1 \<or> j = 2 \<or> j = 3" using that by auto
    then show ?thesis
      using that led_step_at(1) [OF _ that l0, of 0 arg] led_step_at(1) [OF _ that l1, of 1 arg]
        led_step_at(1) [OF _ that l2, of 2 arg] led_step_at(1) [OF _ that l3, of 3 arg]
      unfolding b1_def [symmetric] b2_def [symmetric] b3_def [symmetric] b4_def [symmetric]
      by (auto simp: led_segments_def Let_def)
  qed
  show ?thesis
    unfolding b
  proof (rule nth_equalityI)
    fix i assume "i < length b4"
    then have "i = 0 \<or> i = 1 \<or> i = 2 \<or> i = 3 \<or> i = 4 \<or> i = 5" using l4 by auto
    then show "b4 ! i = [0xC6, 0xF, led_segments arg 0, led_segments arg 1, led_segments arg 2, led_segments arg 3] ! i"
      using head seg [of 0] seg [of 1] seg [of 2] seg [of 3] by (auto simp: eval_nat_numeral)
  qed (simp add: l4)
qed

section \<open>The buttons\<close>

lemma button_turn: "x + 1 - (NOT b AND 1) = x + (b AND 1)" for x b :: "32 word"
proof -
  have "NOT b AND 1 = 1 - (b AND 1)" by (simp add: and_one_eq mod_2_eq_odd even_not_iff)
  then show ?thesis by simp
qed

lemma and_1_of_bit: "1 AND drop_bit k (ucast (c :: u8) :: 32 word) = of_bool (bit c k)"
proof (rule bit_word_eqI)
  fix n assume "n < LENGTH(32)"
  show "bit (1 AND drop_bit k (ucast c :: 32 word)) n = bit (of_bool (bit c k) :: 32 word) n"
    by (cases "n = 0") (auto simp: bit_and_iff bit_drop_bit_eq bit_1_iff bit_unsigned_iff bit_of_bool_iff
        dest: bit_imp_le_length)
qed

lemma and_1_of_bit0: "1 AND (ucast (c :: u8) :: 32 word) = of_bool (bit c 0)"
  using and_1_of_bit [of 0 c] by simp

definition buttons_byte :: "u8 \<Rightarrow> u8 \<Rightarrow> nat" where
  "buttons_byte b c = 128 * of_bool (bit c 3) + 64 * of_bool (bit c 1) + 32 * of_bool (bit c 2)
     + 16 * of_bool (bit c 0) + 8 * of_bool (bit b 3) + 4 * of_bool (bit b 2) + 2 * of_bool (bit b 1)
     + of_bool (bit b 0)"

lemma pack_button_bits:
  "pack_buttons [0, 1, 2, 3, 4, 5, 6, 7] (button_bits b c btn) 0 = word_of_nat (buttons_byte b c)"
proof -
  have o: "(of_bool p :: 32 word) AND 1 = of_bool p" for p by simp
  have p: "push_bit 1 x = 2 * x" for x :: "32 word" by (simp add: push_bit_eq_mult)
  show ?thesis
    by (simp add: Let_def button_turn button_bits_def and_1_of_bit and_1_of_bit0 buttons_byte_def o p
        algebra_simps del: push_bit_of_Suc_0)
qed

lemma pack_button_bits_Suc:
  "pack_buttons [0, Suc 0, 2, 3, 4, 5, 6, 7] (button_bits b c btn) 0 = word_of_nat (buttons_byte b c)"
  using pack_button_bits by (simp only: One_nat_def)

lemma ucast_small: "n < 256 \<Longrightarrow> (ucast (word_of_nat n :: 32 word) :: u8) = word_of_nat n"
  by (simp add: unsigned_of_nat take_bit_nat_eq_self)

lemma buttons_byte_less: "buttons_byte b c < 256"
  by (simp add: buttons_byte_def)

section \<open>Properties\<close>

text \<open>A controller with empty buffers, and serial drivers that take exactly what they have room for.\<close>

definition sample_ldisc :: tuxctl_ldisc_data where
  "sample_ldisc = \<lparr>magic = 0x74757863, rx_buf = replicate 64 0, rx_start = 0, rx_end = 0,
     tx_buf = replicate 64 0, tx_start = 60, tx_end = 60\<rparr>"

definition sample_tux :: tux where
  "sample_tux = \<lparr>tty = \<lparr>disc_data = Some sample_ldisc, wire = [], lost = []\<rparr>, btn_pkt = (\<lambda>_. 1),
     pkt_acknowledged = 1, kernel_lock = False, curr_leds = replicate 6 0, saved = [0, 0], n_saved = 0,
     user_mem = (\<lambda>_. 0)\<rparr>"

definition exact_driver :: "int \<Rightarrow> tty_driver" where
  "exact_driver n = \<lparr>driver_room = (\<lambda>w. n), driver_write = (\<lambda>w buf. min n (int (length buf)))\<rparr>"

lemma exact_driver_simps [simp]:
  "driver_room (exact_driver n) w = n" "driver_write (exact_driver n) w buf = min n (int (length buf))"
  by (simp_all add: exact_driver_def)

lemma sample_tux_ok: "tux_ok sample_tux" "received (tty sample_tux) = []" "unread sample_tux = []"
  "pending (tty sample_tux) = []" "wire (tty sample_tux) = []" "lost (tty sample_tux) = []"
  by (simp_all add: tux_ok_def ldisc_ok_def sample_tux_def sample_ldisc_def rx_def tx_def received_def
      unread_def buf_used_def pending_def)

text \<open>A driver that keeps to what it offers: \<open>write\<close> takes what \<open>write_room\<close> promised.\<close>

definition takes_its_room :: "tty_driver \<Rightarrow> u8 list \<Rightarrow> bool" where
  "takes_its_room drv w \<longleftrightarrow> 0 \<le> driver_room drv w
     \<and> (\<forall>buf. driver_write drv w buf = min (driver_room drv w) (int (length buf)))"

lemma offered_exact:
  assumes "takes_its_room drv w"
  defines "r \<equiv> nat (driver_room drv w)"
  shows "take (accepted drv w q) (offered drv w q) = take r q"
    and "drop (accepted drv w q) (offered drv w q) = take 1 (drop r q)"
proof -
  have n: "nat (driver_room drv w + 1) = Suc r"
    using assms by (simp add: takes_its_room_def nat_add_distrib)
  have k: "accepted drv w q = min r (length (take (Suc r) q))"
    using assms unfolding accepted_def offered_def n takes_its_room_def r_def by auto
  then show "take (accepted drv w q) (offered drv w q) = take r q"
    by (simp add: offered_def n min_def)
  show "drop (accepted drv w q) (offered drv w q) = take 1 (drop r q)"
    unfolding k offered_def n by (cases "length q \<le> r") (simp_all add: min_def drop_take)
qed

text \<open>With room for all of it, a put on an empty queue sends everything.\<close>

lemma put_all:
  assumes "takes_its_room drv (a_wire a)" and "a_pending a = []" and "length buf \<le> 63"
    and "int (length buf) \<le> driver_room drv (a_wire a)"
  shows "a_put drv buf a = a\<lparr>a_wire := a_wire a @ buf\<rparr>"
proof -
  have "length buf \<le> nat (driver_room drv (a_wire a))" using assms(4) by linarith
  then have "take (accepted drv (a_wire a) buf) (offered drv (a_wire a) buf) = buf"
    "drop (accepted drv (a_wire a) buf) (offered drv (a_wire a) buf) = []"
    using offered_exact [OF assms(1), of buf] by simp_all
  moreover have "length buf \<le> length (offered drv (a_wire a) buf)"
    using assms(4) by (simp add: offered_def)
  ultimately show ?thesis using assms(2,3) by (simp add: a_put_def Let_def)
qed

lemma set_led_sends:
  assumes "tux_ok s" and "\<not> kernel_lock s" and "pkt_acknowledged s \<noteq> 0" and "length local = 6"
    and "pending (tty s) = []" and "takes_its_room drv (wire (tty s))" and "6 \<le> driver_room drv (wire (tty s))"
  shows "\<exists>t. tuxctl_ioctl drv local TUX_SET_LED arg s = Inr (0, t) \<and> tux_ok t \<and> \<not> kernel_lock t
    \<and> curr_leds t = [0xC6, 0xF, led_segments arg 0, led_segments arg 1, led_segments arg 2, led_segments arg 3]
    \<and> pkt_acknowledged t = 0 \<and> wire (tty t) = wire (tty s) @ curr_leds t
    \<and> lost (tty t) = lost (tty s) \<and> pending (tty t) = []"
proof -
  let ?p = "[0xC6, 0xF, led_segments arg 0, led_segments arg 1, led_segments arg 2, led_segments arg 3]"
  note pk = led_packet_spec [OF assms(4), of arg]
  obtain l0 l1 l2 l3 l4 l5 where cl: "curr_leds s = [l0, l1, l2, l3, l4, l5]"
    using assms(1) by (auto simp: tux_ok_def length_Suc_conv eval_nat_numeral)
  let ?s = "s\<lparr>pkt_acknowledged := 0, kernel_lock := False, curr_leds := ?p\<rparr>"
  have "ldisc_ok (tty ?s)" using assms(1) by (simp add: tux_ok_def)
  from ldisc_put_spec [OF this, of drv ?p] obtain t where
    t: "ldisc_put drv ?p ?s = Inr (?s\<lparr>tty := t\<rparr>)" "ldisc_ok t" "received t = received (tty s)"
      "tux_view (?s\<lparr>tty := t\<rparr>) = a_put drv ?p (tux_view ?s)" by auto
  have run: "tuxctl_ioctl drv local TUX_SET_LED arg s = Inr (0, ?s\<lparr>tty := t\<rparr>)"
    using assms(2,3) t(1) by (simp add: tuxctl_ioctl_def tux_set_led_def spin_lock_def spin_unlock_def Let_def pk cl)
  have "a_put drv ?p (tux_view ?s) = (tux_view ?s)\<lparr>a_wire := wire (tty s) @ ?p\<rparr>"
    using put_all [of drv "tux_view ?s" ?p] assms(5-7) by (simp add: tux_view_def)
  then have "wire t = wire (tty s) @ ?p" "lost t = lost (tty s)" "pending t = []"
    using t(4) assms(5) by (simp_all add: tux_view_def)
  then show ?thesis using run t assms(1) by (auto simp: tux_ok_def)
qed

text \<open>C20: bytes are queued in order, and lost at one place.  A put takes what fits into the 63 places
  and returns the number of the others.  The wakeup that follows takes the front of the queue out and
  offers it to the serial driver: what the driver accepts is sent, in order, the rest stays queued
  only as far as it was not offered, and what was offered and not accepted is lost, since the
  result of \<open>write\<close> is not used.  One byte more than there is room for is offered: with a driver that
  takes exactly its room, the byte behind that room, when there is one, is lost, and only that one.\<close>

theorem ldisc_put_fifo:
  fixes buf :: "u8 list"
  assumes "ldisc_ok td"
  defines "q \<equiv> pending td @ take (63 - length (pending td)) buf"
  shows "\<exists>t out k. tuxctl_ldisc_put drv buf td = Inr (int (length buf - (63 - length (pending td))), t)
    \<and> ldisc_ok t \<and> received t = received td
    \<and> out @ pending t = q \<and> length out = min (nat (driver_room drv (wire td) + 1)) (length q)
    \<and> k = nat (driver_write drv (wire td) out)
    \<and> wire t = wire td @ take k out \<and> lost t = lost td @ drop k out
    \<and> (takes_its_room drv (wire td) \<longrightarrow>
        wire t = wire td @ take (nat (driver_room drv (wire td))) q
        \<and> lost t = lost td @ take 1 (drop (nat (driver_room drv (wire td))) q))"
proof -
  obtain t where t: "tuxctl_ldisc_put drv buf td = Inr (int (length buf - (63 - length (pending td))), t)"
    "moved drv q td t" using put_exact [OF assms(1)] unfolding q_def by blast
  note m = t(2) [unfolded moved_def]
  have "length (offered drv (wire td) q) = min (nat (driver_room drv (wire td) + 1)) (length q)"
    by (simp add: offered_def min.commute)
  with t(1) m offered_exact [of drv "wire td" q] show ?thesis
    by (intro exI [of _ t] exI [of _ "offered drv (wire td) q"] exI [of _ "accepted drv (wire td) q"])
       (simp add: accepted_def)
qed

theorem ldisc_put_fifo_witness:
  "\<exists>t. tuxctl_ldisc_put (exact_driver 1) [1, 2, 3] (tty sample_tux) = Inr (0, t)
    \<and> wire t = [1] \<and> lost t = [2] \<and> pending t = [3]"
proof -
  have ok: "ldisc_ok (tty sample_tux)" using sample_tux_ok(1) by (simp add: tux_ok_def)
  have ex: "takes_its_room (exact_driver 1) w" for w by (simp add: takes_its_room_def)
  obtain t out where t: "tuxctl_ldisc_put (exact_driver 1) [1, 2, 3] (tty sample_tux) = Inr (0, t)"
    and o: "out @ pending t = [1, 2, 3]" "length out = 2" and w: "wire t = [1]" "lost t = [2]"
    using ldisc_put_fifo [OF ok, of "exact_driver 1" "[1, 2, 3]"] ex by (auto simp: sample_tux_ok)
  have "pending t = [3]" using o by (auto simp: append_eq_Cons_conv length_Suc_conv)
  then show ?thesis using t w by blast
qed

text \<open>C21: packets are recognised whatever the pieces they arrive in and whatever lies between them.  For the bytes left over
  and the bytes received, in pieces of at most ten, the driver behaves as if it had been given in order every three bytes in
  a row that have the framing bits of a packet, also after bytes that belong to none.  It keeps the end of the bytes, at most two, which
  is enough to go on with what comes next.  If the bytes are packets and an incomplete rest, these are the packets and
  this is the end it keeps.\<close>

theorem packet_framing:
  assumes "tux_ok s" and "received (tty s) = []" and "\<forall>c\<in>set chunks. length c \<le> 10"
  defines "bytes \<equiv> unread s @ concat chunks"
  shows "map_sum (\<lambda>e. e) tux_view (rcv_chunks drv chunks s) = a_packets drv (packets_in bytes) (tux_view s)
    \<and> (\<forall>t. rcv_chunks drv chunks s = Inr t \<longrightarrow> tux_ok t \<and> length (unread t) < 3 \<and> (\<exists>done. bytes = done @ unread t)
        \<and> (\<forall>more. packets_in (bytes @ more) = packets_in bytes @ packets_in (unread t @ more)))
    \<and> (\<forall>ps rest. bytes = concat ps @ rest \<and> (\<forall>p\<in>set ps. valid_packet p) \<and> length rest < 3 \<longrightarrow>
        packets_in bytes = ps \<and> (\<forall>t. rcv_chunks drv chunks s = Inr t \<longrightarrow> unread t = rest))"
proof -
  note r = rcv_chunks_refines [OF assms(1-3), of drv, folded bytes_def]
  have "packets_in (bytes @ more) = packets_in bytes @ packets_in (snd (scan bytes) @ more)" for more
    using scan_append [of bytes more] by (metis fst_conv scan_packets)
  moreover have "packets_in bytes = ps \<and> snd (scan bytes) = rest"
    if "bytes = concat ps @ rest \<and> (\<forall>p\<in>set ps. valid_packet p) \<and> length rest < 3" for ps rest
    using scan_concat [of ps rest] that by (simp flip: scan_packets)
  ultimately show ?thesis using r scan_rest [of bytes] by (simp add: scan_packets)
qed

text \<open>Two packets in three pieces, with a lost byte before each of them.\<close>

theorem packet_framing_witness:
  "map_sum (\<lambda>e. e) tux_view
      (rcv_chunks (exact_driver 64) [[0x48, 0x41], [0xFE, 0xFF, 0x90, 0x40], [0x80, 0x80, 0x41]] sample_tux)
    = a_packets (exact_driver 64) [[0x41, 0xFE, 0xFF], [0x40, 0x80, 0x80]] (tux_view sample_tux)"
proof -
  have "packets_in (concat [[0x48, 0x41], [0xFE, 0xFF, 0x90, 0x40], [0x80, 0x80, 0x41]]) = [[0x41, 0xFE, 0xFF], [0x40, 0x80, 0x80]]"
    by code_simp
  then show ?thesis
    using packet_framing [OF sample_tux_ok(1,2),
        of "[[0x48, 0x41], [0xFE, 0xFF, 0x90, 0x40], [0x80, 0x80, 0x41]]" "exact_driver 64"]
    by (simp add: sample_tux_ok)
qed

text \<open>C22: setting the displays sends the command, the mask of all displays and the segments of each
  display, and the same six bytes are sent again, followed by the command that turns button events
  on, when the controller reports a reset; nothing is lost.  The serial driver has room for what is
  queued and takes what it has room for.\<close>

theorem set_led_and_reset:
  assumes "tux_ok s" and "\<not> kernel_lock s" and "pkt_acknowledged s \<noteq> 0" and "length local = 6"
    and "pending (tty s) = []" and "\<And>w. 63 \<le> driver_room drv w" and "\<And>w. takes_its_room drv w"
  shows "\<exists>t u. tuxctl_ioctl drv local TUX_SET_LED arg s = Inr (0, t)
    \<and> tuxctl_handle_packet drv [MTCP_RESET, b, c] t = Inr u
    \<and> wire (tty t) = wire (tty s) @ [0xC6, 0xF, led_segments arg 0, led_segments arg 1, led_segments arg 2, led_segments arg 3]
    \<and> wire (tty u) = wire (tty t) @ [0xC6, 0xF, led_segments arg 0, led_segments arg 1, led_segments arg 2, led_segments arg 3] @ [0xC3]
    \<and> lost (tty u) = lost (tty s)"
proof -
  let ?p = "[0xC6, 0xF, led_segments arg 0, led_segments arg 1, led_segments arg 2, led_segments arg 3]"
  obtain t where t: "tuxctl_ioctl drv local TUX_SET_LED arg s = Inr (0, t)" "tux_ok t" "\<not> kernel_lock t"
      "curr_leds t = ?p" "pkt_acknowledged t = 0" "wire (tty t) = wire (tty s) @ ?p"
      "lost (tty t) = lost (tty s)" "pending (tty t) = []"
    using set_led_sends [OF assms(1-5) assms(7), of arg] assms(6) [of "wire (tty s)"] by auto
  note pt = put_all [OF assms(7)]
  have "a_packet drv [MTCP_RESET, b, c] (tux_view t)
      = Inr (a_put drv [MTCP_BIOC_ON] (a_put drv ?p ((tux_view t)\<lparr>a_ack := 1\<rparr>)))"
    using t(3,4) by (simp add: a_packet_def tux_view_def)
  with handle_refines [OF t(2), of drv "[MTCP_RESET, b, c]"] obtain u where
    u: "tuxctl_handle_packet drv [MTCP_RESET, b, c] t = Inr u"
      "tux_view u = a_put drv [MTCP_BIOC_ON] (a_put drv ?p ((tux_view t)\<lparr>a_ack := 1\<rparr>))"
    by (auto split: sum.splits)
  have room: "int (length (buf :: u8 list)) \<le> driver_room drv w" if "length buf \<le> 63" for buf w
    using assms(6) [of w] that by linarith
  have "a_put drv ?p ((tux_view t)\<lparr>a_ack := 1\<rparr>)
      = (tux_view t)\<lparr>a_ack := 1, a_wire := wire (tty t) @ ?p\<rparr>"
    using pt [of "(tux_view t)\<lparr>a_ack := 1\<rparr>" ?p] room [of ?p "wire (tty t)"] t(8) by (simp add: tux_view_def)
  then have "tux_view u = (tux_view t)\<lparr>a_ack := 1, a_wire := (wire (tty t) @ ?p) @ [0xC3]\<rparr>"
    unfolding u(2)
    using pt [of "(tux_view t)\<lparr>a_ack := 1, a_wire := wire (tty t) @ ?p\<rparr>" "[0xC3]"]
      room [of "[0xC3]" "wire (tty t) @ ?p"] t(8)
    by (simp add: tux_view_def)
  then have "wire (tty u) = (wire (tty t) @ ?p) @ [0xC3]" "lost (tty u) = lost (tty t)"
    by (simp_all add: tux_view_def)
  then show ?thesis using t u(1) by auto
qed

theorem set_led_and_reset_witness:
  "\<exists>t. tuxctl_ioctl (exact_driver 64) (replicate 6 0xAA) TUX_SET_LED 0x040F1234 sample_tux = Inr (0, t)
    \<and> wire (tty t) = [0xC6, 0xF, 0x2E, 0x8F, 0xDB, 0x06]"
proof -
  have "led_segments 0x040F1234 0 = 0x2E" "led_segments 0x040F1234 1 = 0x8F" "led_segments 0x040F1234 2 = 0xDB"
    "led_segments 0x040F1234 3 = 0x06" by code_simp+
  moreover have "takes_its_room (exact_driver 64) w" for w by (simp add: takes_its_room_def)
  moreover have "\<not> kernel_lock sample_tux" "pkt_acknowledged sample_tux \<noteq> 0" by (simp_all add: sample_tux_def)
  ultimately show ?thesis
    using set_led_and_reset [OF sample_tux_ok(1), of "replicate 6 0xAA" "exact_driver 64" "0x040F1234" 0 0]
    by (auto simp: sample_tux_ok)
qed

text \<open>A button event followed by \<open>TUX_BUTTONS\<close> gives the user the byte right, left, down, up, c, b,
  a, start, from the two data bytes of the event.\<close>

lemma buttons_reported:
  assumes "\<not> kernel_lock s" and "arg \<noteq> 0"
  shows "\<exists>t u. tuxctl_handle_packet drv [MTCP_BIOC_EVENT, b, c] s = Inr t
    \<and> tuxctl_ioctl drv local TUX_BUTTONS arg t = Inr (0, u)
    \<and> user_mem u = (user_mem s)(uint arg := word_of_nat (buttons_byte b c)) \<and> \<not> kernel_lock u"
  using assms
  by (simp add: tuxctl_handle_packet_def Let_def spin_lock_def spin_unlock_def tuxctl_ioctl_def tux_buttons_def
      pack_button_bits_Suc ucast_small buttons_byte_less del: pack_buttons.simps)

lemma buttons_reported_witness:
  "\<exists>t u. tuxctl_handle_packet (exact_driver 0) [0x41, 0xFE, 0xF7] sample_tux = Inr t
    \<and> tuxctl_ioctl (exact_driver 0) [] TUX_BUTTONS 0x1000 t = Inr (0, u) \<and> user_mem u 0x1000 = 0x7E"
proof -
  have n: "buttons_byte 0xFE 0xF7 = 126" by code_simp
  have "\<exists>t u. tuxctl_handle_packet (exact_driver 0) [0x41, 0xFE, 0xF7] sample_tux = Inr t
    \<and> tuxctl_ioctl (exact_driver 0) [] TUX_BUTTONS 0x1000 t = Inr (0, u)
    \<and> user_mem u = (user_mem sample_tux)(uint (0x1000 :: 32 word) := word_of_nat (buttons_byte 0xFE 0xF7)) \<and> \<not> kernel_lock u"
    by (rule buttons_reported) (simp_all add: sample_tux_def)
  then show ?thesis unfolding n by auto
qed

text \<open>C23: setting the displays while the last command is not acknowledged returns with the lock held:
  every later operation that takes the lock, the acknowledgement, the reset, the button event and the
  ioctls \<open>TUX_INIT\<close>, \<open>TUX_SET_LED\<close> and \<open>TUX_BUTTONS\<close> with an address, never gets it; the packets and
  ioctls that do not take it return as before.\<close>

theorem set_led_unacknowledged_locks:
  assumes "\<not> kernel_lock s" and "pkt_acknowledged s = 0"
  shows "\<exists>t. tuxctl_ioctl drv local TUX_SET_LED arg s = Inr (0, t)
    \<and> (\<forall>a b c. tuxctl_handle_packet drv [a, b, c] t
        = (if a \<in> {MTCP_ACK, MTCP_RESET, MTCP_BIOC_EVENT} then Inl Deadlock else Inr t))
    \<and> (\<forall>cmd arg'. tuxctl_ioctl drv local cmd arg' t
        = (if cmd \<in> {TUX_INIT, TUX_SET_LED} \<or> cmd = TUX_BUTTONS \<and> arg' \<noteq> 0 then Inl Deadlock
           else Inr (if cmd \<in> {TUX_BUTTONS, Other_cmd} then - 22 else 0, t)))"
proof -
  have "tuxctl_ioctl drv local TUX_SET_LED arg s = Inr (0, s\<lparr>kernel_lock := True\<rparr>)"
    using assms by (simp add: tuxctl_ioctl_def tux_set_led_def spin_lock_def)
  moreover have "tuxctl_ioctl drv local cmd arg' (s\<lparr>kernel_lock := True\<rparr>)
      = (if cmd \<in> {TUX_INIT, TUX_SET_LED} \<or> cmd = TUX_BUTTONS \<and> arg' \<noteq> 0 then Inl Deadlock
         else Inr (if cmd \<in> {TUX_BUTTONS, Other_cmd} then - 22 else 0, s\<lparr>kernel_lock := True\<rparr>))" for cmd arg'
    by (cases cmd)
       (simp_all add: tuxctl_ioctl_def tux_set_led_def tux_init_def tux_buttons_def spin_lock_def)
  ultimately show ?thesis
    by (simp add: tuxctl_handle_packet_def Let_def spin_lock_def)
qed

theorem set_led_unacknowledged_locks_witness:
  "\<exists>t. tuxctl_ioctl (exact_driver 0) [] TUX_SET_LED 0 (sample_tux\<lparr>pkt_acknowledged := 0\<rparr>) = Inr (0, t)
    \<and> tuxctl_handle_packet (exact_driver 0) [0x40, 0x80, 0x80] t = Inl Deadlock
    \<and> tuxctl_ioctl (exact_driver 0) [] TUX_BUTTONS 0x1000 t = Inl Deadlock"
  using set_led_unacknowledged_locks [of "sample_tux\<lparr>pkt_acknowledged := 0\<rparr>" "exact_driver 0" "[]" 0]
  by (auto simp: sample_tux_def)

end
