(* ===== verification/Photo.thy ===== *)
theory Photo
  imports Prelude "HOL-Library.Monad_Syntax"
begin

text \<open>
  The picture files of the adventure game (\<open>photo.c\<close>, \<open>photo_headers.h\<close>): room photos and object
  images in memory, and the routines that read them.  A file is the list of its bytes.  The rows of
  a file run from the bottom of the picture to its top, in memory they run from the top down.

  \<open>malloc\<close> is taken to succeed; the cells of a fresh array are zero in the model, and every cell is
  written before a reader sees it (\<open>decode_rows\<close> below).
\<close>

section \<open>Photos and images\<close>

text \<open>The \<open>palette\<close> of a photo is left out: no routine of the program reads or writes it.\<close>

record photo_header_t =
  width :: "16 word"
  height :: "16 word"

record photo_t =
  p_hdr :: photo_header_t
  p_img :: "u8 list"

record image_t =
  i_hdr :: photo_header_t
  i_img :: "u8 list"

definition photo_width :: "photo_t \<Rightarrow> int" where
  "photo_width p = uint (width (p_hdr p))"

definition photo_height :: "photo_t \<Rightarrow> int" where
  "photo_height p = uint (height (p_hdr p))"

definition image_width :: "image_t \<Rightarrow> int" where
  "image_width im = uint (width (i_hdr im))"

definition image_height :: "image_t \<Rightarrow> int" where
  "image_height im = uint (height (i_hdr im))"

abbreviation (input) "MAX_PHOTO_WIDTH \<equiv> 1024 :: int"
abbreviation (input) "MAX_PHOTO_HEIGHT \<equiv> 1024 :: int"
abbreviation (input) "MAX_OBJECT_WIDTH \<equiv> 160 :: int"
abbreviation (input) "MAX_OBJECT_HEIGHT \<equiv> 100 :: int"
abbreviation (input) "OBJ_CLR_TRANSP \<equiv> 0x40 :: u8"

section \<open>Reading from a file\<close>

text \<open>\<open>fread\<close> of one item of one or two bytes (little endian), and of the header.\<close>

fun fread8 :: "u8 list \<Rightarrow> (u8 \<times> u8 list) option" where
  "fread8 (a # bs) = Some (a, bs)"
| "fread8 [] = None"

fun fread16 :: "u8 list \<Rightarrow> (16 word \<times> u8 list) option" where
  "fread16 (a # b # bs) = Some (ucast a OR push_bit 8 (ucast b), bs)"
| "fread16 _ = None"

definition fread_header :: "u8 list \<Rightarrow> (photo_header_t \<times> u8 list) option" where
  "fread_header bs = do {
     (w, bs) \<leftarrow> fread16 bs;
     (h, bs) \<leftarrow> fread16 bs;
     Some (\<lparr>width = w, height = h\<rparr>, bs) }"

text \<open>The two nested loops of the readers: the rows from the last one down to row 0, in each row the
  columns in ascending order.  The state is what is left of the file, the pixel array, and what
  else the body of the loop keeps.\<close>

primrec column_loop :: "(nat \<Rightarrow> 's \<Rightarrow> 's option) \<Rightarrow> nat \<Rightarrow> nat \<Rightarrow> 's \<Rightarrow> 's option" where
  "column_loop body x 0 s = Some s"
| "column_loop body x (Suc n) s = do { s \<leftarrow> body x s; column_loop body (Suc x) n s }"

primrec row_loop :: "(nat \<Rightarrow> 's \<Rightarrow> 's option) \<Rightarrow> nat \<Rightarrow> 's \<Rightarrow> 's option" where
  "row_loop body 0 s = Some s"
| "row_loop body (Suc y) s = do { s \<leftarrow> body y s; row_loop body y s }"

section \<open>read_obj_image\<close>

definition obj_pixel :: "int \<Rightarrow> nat \<Rightarrow> nat \<Rightarrow> u8 list \<times> u8 list \<Rightarrow> (u8 list \<times> u8 list) option" where
  "obj_pixel w y x = (\<lambda>(file, img). do {
     (pixel, file) \<leftarrow> fread8 file;
     img \<leftarrow> store img (w * int y + int x) pixel;
     Some (file, img) })"

definition read_obj_image :: "u8 list option \<Rightarrow> image_t option" where
  "read_obj_image opened = do {
     file \<leftarrow> opened;
     (hdr, file) \<leftarrow> fread_header file;
     let w = uint (width hdr);
     let h = uint (height hdr);
     if MAX_OBJECT_WIDTH < w \<or> MAX_OBJECT_HEIGHT < h then None
     else do {
       (file, img) \<leftarrow> row_loop (\<lambda>y. column_loop (obj_pixel w y) 0 (nat w)) (nat h) (file, replicate (nat (w * h)) 0);
       Some \<lparr>i_hdr = hdr, i_img = img\<rparr> } }"

section \<open>read_photo\<close>

text \<open>The reader keeps the counts of the colours it meets in two local tables of 4096 entries.\<close>

type_synonym counts = "nat \<Rightarrow> 32 word"

definition count_color :: "nat \<Rightarrow> counts \<Rightarrow> counts option" where
  "count_color i c = (if i < 4096 then Some (c(i := c i + 1)) else None)"

definition lv_4_idx :: "16 word \<Rightarrow> nat" where
  "lv_4_idx pixel = unat ((drop_bit 6 pixel AND 0xf00) OR (drop_bit 4 pixel AND 0xf0) OR (drop_bit 1 pixel AND 0xf))"

text \<open>5:6:5 bits of red, green and blue become 2:2:2.\<close>

definition color_222 :: "16 word \<Rightarrow> u8" where
  "color_222 pixel = ucast (push_bit 4 (drop_bit 14 pixel) OR push_bit 2 (drop_bit 9 pixel AND 3) OR (drop_bit 3 pixel AND 3))"

definition photo_pixel ::
  "int \<Rightarrow> nat \<Rightarrow> nat \<Rightarrow> u8 list \<times> u8 list \<times> counts \<times> counts \<Rightarrow> (u8 list \<times> u8 list \<times> counts \<times> counts) option" where
  "photo_pixel w y x = (\<lambda>(file, img, unsorted, sorted). do {
     (pixel, file) \<leftarrow> fread16 file;
     img \<leftarrow> store img (w * int y + int x) (color_222 pixel);
     unsorted \<leftarrow> count_color (lv_4_idx pixel) unsorted;
     sorted \<leftarrow> count_color (lv_4_idx pixel) sorted;
     Some (file, img, unsorted, sorted) })"

definition read_photo :: "u8 list option \<Rightarrow> photo_t option" where
  "read_photo opened = do {
     file \<leftarrow> opened;
     (hdr, file) \<leftarrow> fread_header file;
     let w = uint (width hdr);
     let h = uint (height hdr);
     if MAX_PHOTO_WIDTH < w \<or> MAX_PHOTO_HEIGHT < h then None
     else do {
       (file, img, unsorted, sorted) \<leftarrow> row_loop (\<lambda>y. column_loop (photo_pixel w y) 0 (nat w)) (nat h)
         (file, replicate (nat (w * h)) 0, (\<lambda>_. 0), (\<lambda>_. 0));
       Some \<lparr>p_hdr = hdr, p_img = img\<rparr> } }"

section \<open>What a reader makes of a file\<close>

text \<open>A body that takes one item off the file and stores its colour.  \<open>item\<close> is the encoding of a
  pixel in the file, \<open>size\<close> its number of bytes.\<close>

locale pixel_body =
  fixes body :: "int \<Rightarrow> nat \<Rightarrow> nat \<Rightarrow> 's \<Rightarrow> 's option"
    and file_of :: "'s \<Rightarrow> u8 list"
    and img_of :: "'s \<Rightarrow> u8 list"
    and item :: "'p \<Rightarrow> u8 list"
    and size :: nat
    and color :: "'p \<Rightarrow> u8"
  assumes stores: "file_of s = item p @ r \<Longrightarrow> 0 \<le> w \<Longrightarrow> w * int y + int x < int (length (img_of s)) \<Longrightarrow>
      \<exists>s'. body w y x s = Some s' \<and> file_of s' = r \<and> img_of s' = (img_of s)[nat (w * int y + int x) := color p]"
    and consumes: "body w y x s = Some s' \<Longrightarrow> length (file_of s) = size + length (file_of s')"
    and keeps: "body w y x s = Some s' \<Longrightarrow> length (img_of s') = length (img_of s)"
begin

lemma decode_columns:
  assumes "file_of s = concat (map item ps) @ r" and "w * y + x + length ps \<le> length (img_of s)"
  shows "\<exists>s'. column_loop (body (int w) y) x (length ps) s = Some s' \<and> file_of s' = r
    \<and> img_of s' = take (w * y + x) (img_of s) @ map color ps @ drop (w * y + x + length ps) (img_of s)"
  using assms
proof (induction ps arbitrary: x s)
  case Nil
  then show ?case by simp
next
  case (Cons p ps)
  have idx: "nat (int w * int y + int x) = w * y + x"
    by (metis nat_int of_nat_add of_nat_mult)
  have "int w * int y + int x < int (length (img_of s))"
    using Cons.prems(2) by (simp flip: of_nat_mult of_nat_add)
  then obtain s1 where s1: "body (int w) y x s = Some s1" "file_of s1 = concat (map item ps) @ r"
      "img_of s1 = (img_of s)[w * y + x := color p]"
    using stores [of s p "concat (map item ps) @ r" "int w" y x] Cons.prems(1) idx by auto
  obtain s2 where s2: "column_loop (body (int w) y) (Suc x) (length ps) s1 = Some s2" "file_of s2 = r"
      "img_of s2 = take (w * y + Suc x) (img_of s1) @ map color ps @ drop (w * y + Suc x + length ps) (img_of s1)"
    using Cons.IH [OF s1(2), of "Suc x"] Cons.prems(2) s1(3) by auto
  have "take (w * y + Suc x) (img_of s1) = take (w * y + x) (img_of s) @ [color p]"
    using Cons.prems(2) s1(3) by (simp add: take_Suc_conv_app_nth)
  moreover have "drop (w * y + Suc x + length ps) (img_of s1) = drop (w * y + x + length (p # ps)) (img_of s)"
    using s1(3) by simp
  ultimately show ?case using s1(1) s2 by simp
qed

text \<open>The rows come from the file from the bottom up and end in memory from the top down.\<close>

lemma decode_rows:
  assumes "file_of s = concat (map (\<lambda>ps. concat (map item ps)) rows) @ r" and "\<forall>ps\<in>set rows. length ps = w"
    and "w * length rows \<le> length (img_of s)"
  shows "\<exists>s'. row_loop (\<lambda>y. column_loop (body (int w) y) 0 w) (length rows) s = Some s' \<and> file_of s' = r
    \<and> img_of s' = concat (map (map color) (rev rows)) @ drop (w * length rows) (img_of s)"
  using assms
proof (induction rows arbitrary: s)
  case Nil
  then show ?case by simp
next
  case (Cons ps rows)
  let ?y = "length rows"
  have ps: "length ps = w" using Cons.prems(2) by simp
  have fits: "w * ?y + 0 + length ps \<le> length (img_of s)" using Cons.prems(3) ps by simp
  obtain s1 where s1: "column_loop (body (int w) ?y) 0 w s = Some s1"
      "file_of s1 = concat (map (\<lambda>ps. concat (map item ps)) rows) @ r"
      "img_of s1 = take (w * ?y) (img_of s) @ map color ps @ drop (w * ?y + w) (img_of s)"
    using decode_columns [OF _ fits, of "concat (map (\<lambda>ps. concat (map item ps)) rows) @ r"] Cons.prems(1) ps
    by auto
  have room: "w * ?y \<le> length (img_of s1)" using s1(3) fits by simp
  obtain s2 where s2: "row_loop (\<lambda>y. column_loop (body (int w) y) 0 w) ?y s1 = Some s2" "file_of s2 = r"
      "img_of s2 = concat (map (map color) (rev rows)) @ drop (w * ?y) (img_of s1)"
    using Cons.IH [OF s1(2) _ room] Cons.prems(2) by auto
  have "drop (w * ?y) (img_of s1) = map color ps @ drop (w * length (ps # rows)) (img_of s)"
    using s1(3) fits by (simp add: algebra_simps)
  then show ?case using s1(1) s2 by simp
qed

lemma columns_consume:
  "column_loop (body w y) x n s = Some s' \<Longrightarrow> length (file_of s) = size * n + length (file_of s')"
  by (induction n arbitrary: x s) (auto simp: bind_eq_Some_conv dest!: consumes)

lemma rows_consume:
  "row_loop (\<lambda>y. column_loop (body w y) 0 n) h s = Some s' \<Longrightarrow> length (file_of s) = size * n * h + length (file_of s')"
  by (induction h arbitrary: s) (auto simp: bind_eq_Some_conv algebra_simps dest!: columns_consume)

lemma rows_keep:
  "row_loop (\<lambda>y. column_loop (body w y) 0 n) h s = Some s' \<Longrightarrow> length (img_of s') = length (img_of s)"
proof (induction h arbitrary: s)
  case (Suc h)
  have "column_loop (body w y) x k s = Some s1 \<Longrightarrow> length (img_of s1) = length (img_of s)" for y x k s s1
    by (induction k arbitrary: x s) (auto simp: bind_eq_Some_conv dest: keeps)
  with Suc show ?case by (auto simp: bind_eq_Some_conv)
qed simp

lemma short_file: "length (file_of s) < size * n * h \<Longrightarrow> row_loop (\<lambda>y. column_loop (body w y) 0 n) h s = None"
  using rows_consume [of w n h s] by (cases "row_loop (\<lambda>y. column_loop (body w y) 0 n) h s") auto

end

text \<open>The two readers.\<close>

definition le16 :: "16 word \<Rightarrow> u8 list" where
  "le16 v = [ucast v, ucast (drop_bit 8 v)]"

lemma fread16_le16 [simp]: "fread16 (le16 v @ bs) = Some (v, bs)"
proof -
  have "ucast (ucast v :: u8) OR push_bit 8 (ucast (ucast (drop_bit 8 v) :: u8)) = v"
    by (rule bit_word_eqI)
      (auto simp: bit_or_iff bit_push_bit_iff bit_ucast_iff bit_drop_bit_eq not_less)
  then show ?thesis by (simp add: le16_def)
qed

lemma fread16_Some: "fread16 bs = Some (v, rest) \<Longrightarrow> length bs = 2 + length rest"
  by (cases bs rule: fread16.cases) auto

lemma fread16_None: "length bs < 2 \<Longrightarrow> fread16 bs = None"
  by (cases bs rule: fread16.cases) auto

lemma lv_4_idx_less: "lv_4_idx pixel < 4096"
proof -
  let ?i = "(drop_bit 6 pixel AND 0xf00) OR (drop_bit 4 pixel AND 0xf0) OR (drop_bit 1 pixel AND 0xf)"
  have "?i AND mask 12 = ?i"
    by (simp add: bit.conj_disj_distrib2 and.assoc mask_eq_exp_minus_1)
  then show ?thesis
    using and_mask_less_size [of 12 ?i] by (simp add: lv_4_idx_def word_less_nat_alt word_size)
qed

lemma count_color_index [simp]: "count_color (lv_4_idx p) c = Some (c(lv_4_idx p := c (lv_4_idx p) + 1))"
  by (simp add: count_color_def lv_4_idx_less)

interpretation obj_file: pixel_body obj_pixel fst snd "\<lambda>p. [p]" 1 "\<lambda>p. p"
proof
  fix s :: "u8 list \<times> u8 list" and p r w y x
  assume "fst s = [p] @ r" "0 \<le> w" "w * int y + int x < int (length (snd s))"
  then show "\<exists>s'. obj_pixel w y x s = Some s' \<and> fst s' = r \<and> snd s' = (snd s)[nat (w * int y + int x) := p]"
    by (cases s) (simp add: obj_pixel_def)
next
  fix s s' :: "u8 list \<times> u8 list" and w y x
  assume "obj_pixel w y x s = Some s'"
  then show "length (fst s) = 1 + length (fst s')"
    and "length (snd s') = length (snd s)"
    by (cases s; cases "fst s"; auto simp: obj_pixel_def bind_eq_Some_conv store_length)+
qed

interpretation photo_file: pixel_body photo_pixel fst "\<lambda>s. fst (snd s)" le16 2 color_222
proof
  fix s :: "u8 list \<times> u8 list \<times> counts \<times> counts" and p r w y x
  assume "fst s = le16 p @ r" "0 \<le> w" "w * int y + int x < int (length (fst (snd s)))"
  then show "\<exists>s'. photo_pixel w y x s = Some s' \<and> fst s' = r
      \<and> fst (snd s') = (fst (snd s))[nat (w * int y + int x) := color_222 p]"
    by (cases s) (simp add: photo_pixel_def)
next
  fix s s' :: "u8 list \<times> u8 list \<times> counts \<times> counts" and w y x
  assume "photo_pixel w y x s = Some s'"
  then show "length (fst s) = 2 + length (fst s')"
    and "length (fst (snd s')) = length (fst (snd s))"
    by (cases s; auto simp: photo_pixel_def bind_eq_Some_conv store_length dest: fread16_Some)+
qed

section \<open>The readers\<close>

definition header_bytes :: "photo_header_t \<Rightarrow> u8 list" where
  "header_bytes h = le16 (width h) @ le16 (height h)"

lemma fread_header_bytes [simp]: "fread_header (header_bytes h @ bs) = Some (h, bs)"
  by (simp add: fread_header_def header_bytes_def)

lemma concat_length_rows: "\<forall>ps\<in>set rows. length ps = w \<Longrightarrow> length (concat (map (map f) rows)) = w * length rows"
  by (induction rows) auto

lemma read_photo_rows:
  assumes "\<forall>ps\<in>set rows. length ps = w" and "w \<le> 1024" and "length rows \<le> 1024"
  shows "read_photo (Some (header_bytes \<lparr>width = of_nat w, height = of_nat (length rows)\<rparr> @
            concat (map (\<lambda>ps. concat (map le16 ps)) rows) @ rest))
    = Some \<lparr>p_hdr = \<lparr>width = of_nat w, height = of_nat (length rows)\<rparr>, p_img = concat (map (map color_222) (rev rows))\<rparr>"
proof -
  let ?s = "(concat (map (\<lambda>ps. concat (map le16 ps)) rows) @ rest, replicate (w * length rows) (0 :: u8),
      (\<lambda>_. 0) :: counts, (\<lambda>_. 0) :: counts)"
  have ints: "uint (of_nat w :: 16 word) = int w" "uint (of_nat (length rows) :: 16 word) = int (length rows)"
    using assms(2,3) by (simp_all add: unsigned_of_nat take_bit_nat_eq_self)
  obtain s' where "row_loop (\<lambda>y. column_loop (photo_pixel (int w) y) 0 w) (length rows) ?s = Some s'"
      "fst (snd s') = concat (map (map color_222) (rev rows))"
    using photo_file.decode_rows [of ?s rows rest w] assms(1) by auto
  then show ?thesis
    using assms(2,3) by (cases s') (simp add: read_photo_def ints nat_mult_distrib)
qed

lemma read_obj_image_rows:
  assumes "\<forall>ps\<in>set rows. length ps = w" and "w \<le> 160" and "length rows \<le> 100"
  shows "read_obj_image (Some (header_bytes \<lparr>width = of_nat w, height = of_nat (length rows)\<rparr> @ concat rows @ rest))
    = Some \<lparr>i_hdr = \<lparr>width = of_nat w, height = of_nat (length rows)\<rparr>, i_img = concat (rev rows)\<rparr>"
proof -
  let ?s = "(concat rows @ rest, replicate (w * length rows) (0 :: u8))"
  have ints: "uint (of_nat w :: 16 word) = int w" "uint (of_nat (length rows) :: 16 word) = int (length rows)"
    using assms(2,3) by (simp_all add: unsigned_of_nat take_bit_nat_eq_self)
  have id: "map (\<lambda>ps. concat (map (\<lambda>p. [p]) ps)) rows = rows" for rows :: "u8 list list"
    by (simp add: map_idI)
  obtain s' where "row_loop (\<lambda>y. column_loop (obj_pixel (int w) y) 0 w) (length rows) ?s = Some s'"
      "snd s' = concat (rev rows)"
    using obj_file.decode_rows [of ?s rows rest w] assms(1) by (auto simp: id)
  then show ?thesis
    using assms(2,3) by (cases s') (simp add: read_obj_image_def ints nat_mult_distrib)
qed

text \<open>A reader fails on a picture that is too large, and on a file that ends early.\<close>

lemma read_photo_fails:
  "read_photo None = None"
  "length file < 4 \<Longrightarrow> read_photo (Some file) = None"
  "1024 < uint (width h) \<or> 1024 < uint (height h)
     \<or> length body < nat (2 * uint (width h) * uint (height h)) \<Longrightarrow> read_photo (Some (header_bytes h @ body)) = None"
proof -
  show "read_photo None = None" by (simp add: read_photo_def)
  show "read_photo (Some file) = None" if "length file < 4"
  proof (cases "fread16 file")
    case (Some first)
    then have "fread16 (snd first) = None"
      using that by (cases first) (auto dest!: fread16_Some intro: fread16_None)
    with Some show ?thesis by (cases first) (simp add: read_photo_def fread_header_def)
  qed (simp add: read_photo_def fread_header_def)
  show "read_photo (Some (header_bytes h @ body)) = None"
    if short: "1024 < uint (width h) \<or> 1024 < uint (height h) \<or> length body < nat (2 * uint (width h) * uint (height h))"
  proof (cases "1024 < uint (width h) \<or> 1024 < uint (height h)")
    case True
    then show ?thesis by (simp add: read_photo_def)
  next
    case False
    let ?s = "(body, replicate (nat (uint (width h) * uint (height h))) (0 :: u8), (\<lambda>_. 0) :: counts, (\<lambda>_. 0) :: counts)"
    have "length (fst ?s) < 2 * nat (uint (width h)) * nat (uint (height h))"
      using short False by (simp add: nat_mult_distrib)
    from photo_file.short_file [OF this] False show ?thesis by (simp add: read_photo_def)
  qed
qed

text \<open>What a reader returns has as many pixels as its header says.\<close>

definition photo_ok :: "photo_t \<Rightarrow> bool" where
  "photo_ok p \<longleftrightarrow> photo_width p \<le> 1024 \<and> photo_height p \<le> 1024
     \<and> int (length (p_img p)) = photo_width p * photo_height p"

definition image_ok :: "image_t \<Rightarrow> bool" where
  "image_ok im \<longleftrightarrow> image_width im \<le> 160 \<and> image_height im \<le> 100
     \<and> int (length (i_img im)) = image_width im * image_height im"

lemma read_photo_ok: "read_photo opened = Some p \<Longrightarrow> photo_ok p"
  unfolding read_photo_def photo_ok_def photo_width_def photo_height_def Let_def
  by (auto simp: bind_eq_Some_conv not_less nat_mult_distrib split: if_splits dest!: photo_file.rows_keep)

lemma read_obj_image_ok: "read_obj_image opened = Some im \<Longrightarrow> image_ok im"
  unfolding read_obj_image_def image_ok_def image_width_def image_height_def Let_def
  by (auto simp: bind_eq_Some_conv not_less nat_mult_distrib split: if_splits dest!: obj_file.rows_keep)

end
