(* ===== verification/Mp2Photo.thy ===== *)
theory Mp2Photo
  imports Photo
begin

text \<open>
  The converter \<open>mp2photo.c\<close> from 24-bit BMP files to the game's room photos and object images.  The
  macro \<open>WRITE_OBJECT_IMAGE\<close> is the argument \<open>object_image\<close>.  Files are byte lists; writing to the
  output file succeeds.
\<close>

section \<open>The BMP header\<close>

record bmp_header_t =
  file_size :: "32 word"
  reserved :: "32 word"
  pixel_offset :: "32 word"
  dib_header_size :: "32 word"
  img_width :: "32 word"
  img_height :: "32 word"
  planes :: "16 word"
  bits_per_pixel :: "16 word"
  compression_type :: "32 word"
  img_size :: "32 word"

definition fread32 :: "u8 list \<Rightarrow> (32 word \<times> u8 list) option" where
  "fread32 bs = do {
     (lo, bs) \<leftarrow> fread16 bs;
     (hi, bs) \<leftarrow> fread16 bs;
     Some (ucast lo OR push_bit 16 (ucast hi), bs) }"

definition fread_bmp_header :: "u8 list \<Rightarrow> bmp_header_t option" where
  "fread_bmp_header bs = do {
     (fs, bs) \<leftarrow> fread32 bs;
     (re, bs) \<leftarrow> fread32 bs;
     (off, bs) \<leftarrow> fread32 bs;
     (dib, bs) \<leftarrow> fread32 bs;
     (w, bs) \<leftarrow> fread32 bs;
     (h, bs) \<leftarrow> fread32 bs;
     (pl, bs) \<leftarrow> fread16 bs;
     (bits, bs) \<leftarrow> fread16 bs;
     (comp, bs) \<leftarrow> fread32 bs;
     (size, bs) \<leftarrow> fread32 bs;
     Some \<lparr>file_size = fs, reserved = re, pixel_offset = off, dib_header_size = dib, img_width = w,
       img_height = h, planes = pl, bits_per_pixel = bits, compression_type = comp, img_size = size\<rparr> }"

definition bmp_row_width :: "bmp_header_t \<Rightarrow> 32 word" where
  "bmp_row_width h = 4 * ((3 * img_width h + 3) div 4)"

text \<open>\<open>bmp_header_check\<close> returns the header where the source returns 1.\<close>

definition bmp_header_check :: "u8 list \<Rightarrow> bmp_header_t option" where
  "bmp_header_check file =
     (if take 2 file \<noteq> str ''BM'' then None
      else do {
        h \<leftarrow> fread_bmp_header (drop 2 file);
        if 4096 < img_width h \<or> 4096 < img_height h \<or> planes h \<noteq> 1 \<or> bits_per_pixel h \<noteq> 24 \<or> compression_type h \<noteq> 0
        then None
        else if img_size h \<noteq> bmp_row_width h * img_height h then None
        else Some h })"

text \<open>\<open>fread\<close> of one item of no bytes returns 0, which the source takes for a failure.\<close>

definition read_bmp_image_data :: "u8 list \<Rightarrow> bmp_header_t \<Rightarrow> u8 list option" where
  "read_bmp_image_data file h =
     (let at = drop (unat (pixel_offset h)) file; n = unat (img_size h)
      in if n = 0 \<or> length at < n then None else Some (take n at))"

section \<open>Writing the picture\<close>

definition vga_object :: "u8 \<Rightarrow> u8 \<Rightarrow> u8 \<Rightarrow> u8" where
  "vga_object b g r =
     (let c = push_bit 4 (drop_bit 6 r) OR push_bit 2 (drop_bit 6 g) OR drop_bit 6 b
      in if c = 0x3C then OBJ_CLR_TRANSP else c)"

definition vga_photo :: "u8 \<Rightarrow> u8 \<Rightarrow> u8 \<Rightarrow> 16 word" where
  "vga_photo b g r =
     push_bit 11 (ucast (drop_bit 3 r)) OR push_bit 5 (ucast (drop_bit 2 g)) OR ucast (drop_bit 3 b)"

definition write_pixel :: "bool \<Rightarrow> int \<Rightarrow> u8 list \<Rightarrow> nat \<Rightarrow> nat \<Rightarrow> u8 list option" where
  "write_pixel object_image row_width img y x = do {
     r \<leftarrow> fetch img (u32 (row_width * int y + 3 * int x + 2));
     g \<leftarrow> fetch img (u32 (row_width * int y + 3 * int x + 1));
     b \<leftarrow> fetch img (u32 (row_width * int y + 3 * int x));
     Some (if object_image then [vga_object b g r] else le16 (vga_photo b g r)) }"

definition write_output_file :: "bool \<Rightarrow> bmp_header_t \<Rightarrow> u8 list \<Rightarrow> u8 list option" where
  "write_output_file object_image h img =
     (let hdr = \<lparr>width = ucast (img_width h), height = ucast (img_height h)\<rparr>;
          row_width = uint (bmp_row_width h)
      in column_loop (\<lambda>y. column_loop (\<lambda>x out. do {
             bytes \<leftarrow> write_pixel object_image row_width img y x;
             Some (out @ bytes) }) 0 (unat (img_width h))) 0 (unat (img_height h)) (header_bytes hdr))"

text \<open>\<open>main\<close>: the exit status and what the output file holds, when it was opened.\<close>

definition mp2photo_main :: "bool \<Rightarrow> int \<Rightarrow> u8 list option \<Rightarrow> bool \<Rightarrow> (int \<times> u8 list option) option" where
  "mp2photo_main object_image argc in_file out_opens =
     (if argc \<noteq> 3 then Some (2, None)
      else case in_file of
        None \<Rightarrow> Some (2, None)
      | Some file \<Rightarrow>
          if \<not> out_opens then Some (2, None)
          else case bmp_header_check file of
            None \<Rightarrow> Some (2, Some [])
          | Some h \<Rightarrow> (case read_bmp_image_data file h of
              None \<Rightarrow> Some (2, Some [])
            | Some img \<Rightarrow> do { out \<leftarrow> write_output_file object_image h img; Some (0, Some out) }))"

section \<open>The written picture\<close>

lemma append_loop:
  assumes "\<forall>x<n. f (i + x) = Some (g (i + x))"
  shows "column_loop (\<lambda>x out. do { v \<leftarrow> f x; Some (out @ v) }) i n out = Some (out @ concat (map g [i..<i + n]))"
  using assms
proof (induction n arbitrary: i out)
  case (Suc n)
  have "\<forall>x<n. f (Suc i + x) = Some (g (Suc i + x))" using Suc.prems by fastforce
  moreover have "f i = Some (g i)" using Suc.prems by (metis add_0_right zero_less_Suc)
  ultimately show ?case using Suc.IH [of "Suc i"] by (simp add: upt_conv_Cons del: upt_Suc)
qed simp

lemma nested_append_loop:
  assumes "\<forall>y<m. \<forall>x<n. f (i + y) x = Some (g (i + y) x)"
  shows "column_loop (\<lambda>y. column_loop (\<lambda>x out. do { v \<leftarrow> f y x; Some (out @ v) }) 0 n) i m out
    = Some (out @ concat (map (\<lambda>y. concat (map (g y) [0..<n])) [i..<i + m]))"
  using assms
proof (induction m arbitrary: i out)
  case (Suc m)
  have "\<forall>y<m. \<forall>x<n. f (Suc i + y) x = Some (g (Suc i + y) x)" using Suc.prems by fastforce
  moreover have "\<forall>x<n. f i (0 + x) = Some (g i (0 + x))" using Suc.prems by (metis add_0 add_0_right zero_less_Suc)
  ultimately show ?case using Suc.IH [of "Suc i"] append_loop [of n "f i" 0 "g i"]
    by (simp add: upt_conv_Cons del: upt_Suc)
qed simp

text \<open>Pixel \<open>x\<close> of row \<open>y\<close> of the BMP data: blue, green, red.\<close>

definition bmp_at :: "nat \<Rightarrow> u8 list \<Rightarrow> nat \<Rightarrow> nat \<Rightarrow> nat \<Rightarrow> u8" where
  "bmp_at row_width img y x c = img ! (row_width * y + 3 * x + c)"

definition valid_header :: "bmp_header_t \<Rightarrow> bool" where
  "valid_header h \<longleftrightarrow> img_width h \<le> 4096 \<and> img_height h \<le> 4096 \<and> img_size h = bmp_row_width h * img_height h"

lemma row_width_nat:
  assumes "img_width h \<le> 4096"
  shows "unat (bmp_row_width h) = 4 * ((3 * unat (img_width h) + 3) div 4)"
proof -
  have w: "unat (img_width h) \<le> 4096" using assms by (simp add: word_le_nat_alt)
  have 3: "unat (3 * img_width h + 3) = 3 * unat (img_width h) + 3"
    using w by (simp add: unat_word_ariths)
  have "unat (4 * ((3 * img_width h + 3) div 4)) = 4 * ((3 * unat (img_width h) + 3) div 4)"
    unfolding unat_word_ariths(2) unat_div 3 using w by simp
  then show ?thesis by (simp add: bmp_row_width_def)
qed

lemma img_size_nat:
  assumes "valid_header h"
  shows "unat (img_size h) = unat (bmp_row_width h) * unat (img_height h)"
    and "unat (bmp_row_width h) \<le> 12288" and "3 * unat (img_width h) \<le> unat (bmp_row_width h)"
    and "unat (img_height h) \<le> 4096" and "unat (img_width h) \<le> 4096"
proof -
  have v: "img_width h \<le> 4096" "img_height h \<le> 4096" "img_size h = bmp_row_width h * img_height h"
    using assms by (simp_all add: valid_header_def)
  then show w: "unat (img_width h) \<le> 4096" and t: "unat (img_height h) \<le> 4096" by (simp_all add: word_le_nat_alt)
  have r: "unat (bmp_row_width h) = 4 * ((3 * unat (img_width h) + 3) div 4)" by (rule row_width_nat [OF v(1)])
  have "(3 * unat (img_width h) + 3) div 4 \<le> 12291 div 4" by (rule div_le_mono) (use w in simp)
  then show r1: "unat (bmp_row_width h) \<le> 12288" using r by simp
  show r2: "3 * unat (img_width h) \<le> unat (bmp_row_width h)"
    using r mod_less_divisor [of 4 "3 * unat (img_width h) + 3"] div_mult_mod_eq [of "3 * unat (img_width h) + 3" 4] by linarith
  have "unat (bmp_row_width h) * unat (img_height h) \<le> 12288 * 4096" using r1 t by (rule mult_le_mono)
  then show "unat (img_size h) = unat (bmp_row_width h) * unat (img_height h)"
    using v(3) by (simp add: unat_word_ariths)
qed

lemma write_pixel_in:
  assumes "valid_header h" and "length img = unat (img_size h)" and "y < unat (img_height h)" and "x < unat (img_width h)"
  shows "write_pixel object_image (uint (bmp_row_width h)) img y x =
    Some (let c = bmp_at (unat (bmp_row_width h)) img y x
          in if object_image then [vga_object (c 0) (c 1) (c 2)] else le16 (vga_photo (c 0) (c 1) (c 2)))"
proof -
  let ?r = "unat (bmp_row_width h)"
  note s = img_size_nat [OF assms(1)]
  have "?r * y + ?r \<le> ?r * unat (img_height h)"
    using assms(3) by (metis Suc_leI add.commute mult_Suc_right mult_le_mono2)
  then have in_img: "?r * y + 3 * x + k < length img" if "k < 3" for k
    using that assms(2,4) s(1,3) by linarith
  have small: "?r * y + 3 * x + k < 4294967296" if "k < 3" for k
  proof -
    have "length img \<le> 12288 * 4096" using mult_le_mono [OF s(2,4)] assms(2) s(1) by simp
    then show ?thesis using in_img [OF that] by linarith
  qed
  have f: "fetch img (u32 (uint (bmp_row_width h) * int y + 3 * int x + int k)) = Some (bmp_at ?r img y x k)" if "k < 3" for k
  proof -
    have e: "uint (bmp_row_width h) * int y + 3 * int x + int k = int (?r * y + 3 * x + k)" by simp
    show ?thesis unfolding e using in_img [OF that] small [OF that]
      by (simp add: fetch_def bmp_at_def del: of_nat_add of_nat_mult)
  qed
  show ?thesis
    using f [of 0] f [of 1] f [of 2] by (simp add: write_pixel_def Let_def)
qed

definition rows_of :: "bmp_header_t \<Rightarrow> u8 list \<Rightarrow> (u8 \<Rightarrow> u8 \<Rightarrow> u8 \<Rightarrow> 'a) \<Rightarrow> 'a list list" where
  "rows_of h img f = map (\<lambda>y. map (\<lambda>x. let c = bmp_at (unat (bmp_row_width h)) img y x in f (c 0) (c 1) (c 2))
      [0..<unat (img_width h)]) [0..<unat (img_height h)]"

lemma write_output_rows:
  assumes "valid_header h" and "length img = unat (img_size h)"
  shows "write_output_file object_image h img = Some (header_bytes \<lparr>width = ucast (img_width h), height = ucast (img_height h)\<rparr>
    @ (if object_image then concat (rows_of h img vga_object)
       else concat (map (\<lambda>ps. concat (map le16 ps)) (rows_of h img vga_photo))))"
proof -
  have "\<forall>y<unat (img_height h). \<forall>x<unat (img_width h). write_pixel object_image (uint (bmp_row_width h)) img (0 + y) x =
    Some (let c = bmp_at (unat (bmp_row_width h)) img (0 + y) x
          in if object_image then [vga_object (c 0) (c 1) (c 2)] else le16 (vga_photo (c 0) (c 1) (c 2)))"
    using write_pixel_in [OF assms] by simp
  from nested_append_loop [OF this] show ?thesis
    by (cases object_image) (simp_all add: write_output_file_def rows_of_def Let_def comp_def)
qed

text \<open>The colour that survives the way through the file.\<close>

lemma color_222_vga_photo:
  "color_222 (vga_photo b g r) = push_bit 4 (drop_bit 6 r) OR push_bit 2 (drop_bit 6 g) OR drop_bit 6 b"
proof (rule bit_word_eqI)
  have 3: "(3 :: 16 word) = mask 2" by (simp add: mask_eq_exp_minus_1)
  have high: "8 \<le> n \<Longrightarrow> \<not> bit w n" for w :: u8 and n using bit_imp_le_length [of w n] by auto
  note bits = bit_or_iff bit_and_iff bit_push_bit_iff bit_drop_bit_eq bit_ucast_iff bit_mask_iff comp_def
  have v: "bit (vga_photo b g r) k = (k < 16 \<and> (if 11 \<le> k then bit r (k - 8) else if 5 \<le> k then bit g (k - 3) else bit b (k + 3)))" for k
  proof -
    consider "11 \<le> k" "k < 16" | "5 \<le> k" "k < 11" | "k < 5" | "16 \<le> k" by linarith
    then show ?thesis
    proof cases
      case 1
      then have "3 + (k - 11) = k - 8" "k - 11 < 16" "\<not> bit g (2 + (k - 5))" "\<not> bit b (3 + k)"
        using high [of "2 + (k - 5)" g] high [of "3 + k" b] by linarith+
      with 1 show ?thesis unfolding vga_photo_def bits by simp
    next
      case 2
      then have "2 + (k - 5) = k - 3" "k - 5 < 16" "\<not> bit b (3 + k)"
        using high [of "3 + k" b] by linarith+
      with 2 show ?thesis unfolding vga_photo_def bits by simp
    next
      case 3
      then show ?thesis unfolding vga_photo_def bits by (simp add: add.commute)
    next
      case 4
      then show ?thesis using bit_imp_le_length [of "vga_photo b g r" k] by auto
    qed
  qed
  fix n assume n: "n < LENGTH(8)"
  have c: "bit (color_222 p) n = (if 4 \<le> n then bit p (n + 10) else if 2 \<le> n then bit p (n + 7) else bit p (n + 3))" for p
  proof -
    have out: "16 \<le> k \<Longrightarrow> \<not> bit p k" for k using bit_imp_le_length [of p k] by auto
    show ?thesis
    proof (cases "4 \<le> n")
      case True
      then have "14 + (n - 4) = n + 10" "\<not> n - 2 < 2" "n - 4 < 16" "\<not> n < 2" using n by auto
      with True n show ?thesis unfolding color_222_def 3 bits by (auto simp: add.commute)
    next
      case False
      then consider "n = 2" | "n = 3" | "n = 0" | "n = 1" by linarith
      then show ?thesis unfolding color_222_def 3 bits by cases (simp_all add: numeral_eq_Suc)
    qed
  qed
  have e: "bit (push_bit 4 (drop_bit 6 r) OR push_bit 2 (drop_bit 6 g) OR drop_bit 6 b) n =
      (if 4 \<le> n then bit r (n + 2) else if 2 \<le> n then bit g (n + 4) else bit b (n + 6))"
  proof (cases "4 \<le> n")
    case True
    then have "6 + (n - 4) = n + 2" "\<not> bit g (6 + (n - 2))" "\<not> bit b (6 + n)"
      using high [of "6 + (n - 2)" g] high [of "6 + n" b] by auto
    with True n show ?thesis unfolding bits by simp
  next
    case False
    then consider "n = 2" | "n = 3" | "n = 0" | "n = 1" by linarith
    then show ?thesis unfolding bits using high [of "6 + n" b] by cases (simp_all add: numeral_eq_Suc)
  qed
  show "bit (color_222 (vga_photo b g r)) n = bit (push_bit 4 (drop_bit 6 r) OR push_bit 2 (drop_bit 6 g) OR drop_bit 6 b) n"
    unfolding e c v using n high [of "n + 2" r] by (auto simp: add.commute not_le [symmetric])
qed

end
