(* ===== verification/PhotoProps.thy ===== *)
theory PhotoProps
  imports Mp2Photo
begin

text \<open>
  The way of a picture through the files: what the converter writes, the game reads back, pixel by
  pixel, with the colours cut to two bits each.
\<close>

section \<open>Rows\<close>

lemma nth_concat_rows:
  assumes "\<forall>ps\<in>set rows. length ps = w" and "y < length rows" and "x < w"
  shows "concat rows ! (w * y + x) = rows ! y ! x"
  using assms
proof (induction rows arbitrary: y)
  case (Cons ps rows)
  then show ?case by (cases y) (auto simp: nth_append)
qed simp

lemma nth_concat_rev:
  assumes "\<forall>ps\<in>set rows. length ps = w" and "y < length rows" and "x < w"
  shows "concat (map (map f) (rev rows)) ! (w * (length rows - 1 - y) + x) = f (rows ! y ! x)"
proof -
  have "\<forall>ps\<in>set (map (map f) (rev rows)). length ps = w" using assms(1) by auto
  from nth_concat_rows [OF this _ assms(3), of "length rows - 1 - y"] show ?thesis
    using assms by (simp add: rev_nth)
qed

lemma rows_of_shape:
  "length (rows_of h img f) = unat (img_height h)" "\<forall>ps\<in>set (rows_of h img f). length ps = unat (img_width h)"
  by (auto simp: rows_of_def)

lemma rows_of_at:
  "y < unat (img_height h) \<Longrightarrow> x < unat (img_width h) \<Longrightarrow>
     rows_of h img f ! y ! x = (let c = bmp_at (unat (bmp_row_width h)) img y x in f (c 0) (c 1) (c 2))"
  by (simp add: rows_of_def)

section \<open>The converter\<close>

lemma header_check_valid: "bmp_header_check file = Some h \<Longrightarrow> valid_header h"
  by (auto simp: bmp_header_check_def valid_header_def bind_eq_Some_conv not_less split: if_splits)

lemma image_data_length: "read_bmp_image_data file h = Some img \<Longrightarrow> length img = unat (img_size h)"
  by (auto simp: read_bmp_image_data_def Let_def split: if_splits)

lemma main_writes:
  assumes "bmp_header_check file = Some h" and "read_bmp_image_data file h = Some img"
  shows "mp2photo_main ob 3 (Some file) True = Some (0, Some (header_bytes \<lparr>width = ucast (img_width h), height = ucast (img_height h)\<rparr>
    @ (if ob then concat (rows_of h img vga_object)
       else concat (map (\<lambda>ps. concat (map le16 ps)) (rows_of h img vga_photo)))))"
  using write_output_rows [OF header_check_valid [OF assms(1)] image_data_length [OF assms(2)], of ob] assms
  by (simp add: mp2photo_main_def)

definition color_of :: "u8 \<Rightarrow> u8 \<Rightarrow> u8 \<Rightarrow> u8" where
  "color_of b g r = push_bit 4 (drop_bit 6 r) OR push_bit 2 (drop_bit 6 g) OR drop_bit 6 b"

text \<open>The header cuts the sizes to 16 bits, which loses nothing of a size that a reader accepts.\<close>

lemma short_header:
  fixes a :: "32 word"
  assumes "a \<le> 1024"
  shows "uint (ucast a :: 16 word) = uint a" and "of_nat (unat a) = (ucast a :: 16 word)"
proof -
  have "uint a \<le> uint (1024 :: 32 word)" using assms by (simp only: word_le_def)
  then have "uint a < 2 ^ 16" by simp
  moreover have "0 \<le> uint a" by simp
  ultimately have "take_bit 16 (uint a) = uint a" by (simp only: take_bit_int_eq_self)
  moreover have "uint (ucast a :: 16 word) = take_bit LENGTH(16) (uint a)"
    by (simp only: unsigned_ucast_eq unsigned_take_bit_eq)
  ultimately show "uint (ucast a :: 16 word) = uint a" by simp
  show "of_nat (unat a) = (ucast a :: 16 word)" by (rule of_nat_unat)
qed

lemma photo_read_back:
  assumes "img_width h \<le> 1024" and "img_height h \<le> 1024"
  shows "read_photo (Some (header_bytes \<lparr>width = ucast (img_width h), height = ucast (img_height h)\<rparr>
        @ concat (map (\<lambda>ps. concat (map le16 ps)) (rows_of h img vga_photo))))
    = Some \<lparr>p_hdr = \<lparr>width = ucast (img_width h), height = ucast (img_height h)\<rparr>,
        p_img = concat (map (map color_222) (rev (rows_of h img vga_photo)))\<rparr>"
proof -
  have s: "unat (img_width h) \<le> 1024" "length (rows_of h img vga_photo) \<le> 1024"
    using assms by (simp_all add: word_le_nat_alt rows_of_shape(1))
  show ?thesis
    using read_photo_rows [OF rows_of_shape(2) s, of "[]"]
    unfolding rows_of_shape(1) short_header(2) [OF assms(1)] short_header(2) [OF assms(2)] append_Nil2 .
qed

lemma object_read_back:
  assumes "img_width h \<le> 160" and "img_height h \<le> 100"
  shows "read_obj_image (Some (header_bytes \<lparr>width = ucast (img_width h), height = ucast (img_height h)\<rparr>
        @ concat (rows_of h img vga_object)))
    = Some \<lparr>i_hdr = \<lparr>width = ucast (img_width h), height = ucast (img_height h)\<rparr>,
        i_img = concat (rev (rows_of h img vga_object))\<rparr>"
proof -
  have s: "unat (img_width h) \<le> 160" "length (rows_of h img vga_object) \<le> 100"
    using assms by (simp_all add: word_le_nat_alt rows_of_shape(1))
  have b: "img_width h \<le> 1024" "img_height h \<le> 1024" using assms by (simp_all add: word_le_nat_alt)
  show ?thesis
    using read_obj_image_rows [OF rows_of_shape(2) s, of "[]"]
    unfolding rows_of_shape(1) short_header(2) [OF b(1)] short_header(2) [OF b(2)] append_Nil2 .
qed

section \<open>Round trip\<close>

text \<open>C34: What \<open>mp2photo\<close> makes of a BMP file that passes its header check, the game reads back: the photo has
  the size of the BMP picture, and the pixel in column \<open>x\<close> of the row \<open>y\<close> counted from the bottom holds the two
  high bits of the red, green and blue of the BMP pixel.  An object image is the same, except that the
  colour \<open>0x3C\<close> has become the transparent one.  The photo must fit in 1024 by 1024 pixels, the object image in 160
  by 100.\<close>

theorem bmp_roundtrip:
  assumes "bmp_header_check file = Some h" and "read_bmp_image_data file h = Some img"
  shows "(img_width h \<le> 1024 \<and> img_height h \<le> 1024 \<longrightarrow>
      (\<exists>out p. mp2photo_main False 3 (Some file) True = Some (0, Some out) \<and> read_photo (Some out) = Some p
        \<and> photo_width p = uint (img_width h) \<and> photo_height p = uint (img_height h)
        \<and> (\<forall>x y. x < unat (img_width h) \<and> y < unat (img_height h) \<longrightarrow>
             p_img p ! (unat (img_width h) * (unat (img_height h) - 1 - y) + x)
               = (let c = bmp_at (unat (bmp_row_width h)) img y x in color_of (c 0) (c 1) (c 2)))))
    \<and> (img_width h \<le> 160 \<and> img_height h \<le> 100 \<longrightarrow>
      (\<exists>out im. mp2photo_main True 3 (Some file) True = Some (0, Some out) \<and> read_obj_image (Some out) = Some im
        \<and> image_width im = uint (img_width h) \<and> image_height im = uint (img_height h)
        \<and> (\<forall>x y. x < unat (img_width h) \<and> y < unat (img_height h) \<longrightarrow>
             i_img im ! (unat (img_width h) * (unat (img_height h) - 1 - y) + x)
               = (let c = bmp_at (unat (bmp_row_width h)) img y x; v = color_of (c 0) (c 1) (c 2)
                  in if v = 0x3C then OBJ_CLR_TRANSP else v))))"
proof (intro conjI impI)
  note w = main_writes [OF assms]
  note at = nth_concat_rev [OF rows_of_shape(2), unfolded rows_of_shape(1)]
  { assume s: "img_width h \<le> 1024 \<and> img_height h \<le> 1024"
    show "\<exists>out p. mp2photo_main False 3 (Some file) True = Some (0, Some out) \<and> read_photo (Some out) = Some p
        \<and> photo_width p = uint (img_width h) \<and> photo_height p = uint (img_height h)
        \<and> (\<forall>x y. x < unat (img_width h) \<and> y < unat (img_height h) \<longrightarrow>
             p_img p ! (unat (img_width h) * (unat (img_height h) - 1 - y) + x)
               = (let c = bmp_at (unat (bmp_row_width h)) img y x in color_of (c 0) (c 1) (c 2)))"
      by (intro exI conjI, rule w [of False, unfolded if_False], rule photo_read_back)
        (use s at [where f = color_222] in \<open>auto simp: photo_width_def photo_height_def short_header(1) rows_of_at
          color_222_vga_photo color_of_def Let_def\<close>) }
  { assume s: "img_width h \<le> 160 \<and> img_height h \<le> 100"
    have b: "img_width h \<le> 1024" "img_height h \<le> 1024" using s by (simp_all add: word_le_nat_alt)
    show "\<exists>out im. mp2photo_main True 3 (Some file) True = Some (0, Some out) \<and> read_obj_image (Some out) = Some im
        \<and> image_width im = uint (img_width h) \<and> image_height im = uint (img_height h)
        \<and> (\<forall>x y. x < unat (img_width h) \<and> y < unat (img_height h) \<longrightarrow>
             i_img im ! (unat (img_width h) * (unat (img_height h) - 1 - y) + x)
               = (let c = bmp_at (unat (bmp_row_width h)) img y x; v = color_of (c 0) (c 1) (c 2)
                  in if v = 0x3C then OBJ_CLR_TRANSP else v))"
      by (intro exI conjI, rule w [of True, unfolded if_True], rule object_read_back)
        (use s b at [where f = "\<lambda>v :: u8. v"] in \<open>auto simp: image_width_def image_height_def short_header(1) rows_of_at
          vga_object_def color_of_def Let_def\<close>) }
qed

text \<open>A BMP file of one column and two rows.\<close>

definition sample_bmp :: "u8 list" where
  "sample_bmp = str ''BM'' @ [46,0,0,0, 0,0,0,0, 38,0,0,0, 12,0,0,0, 1,0,0,0, 2,0,0,0, 1,0, 24,0, 0,0,0,0, 8,0,0,0]
     @ [0x80,0x40,0xFF,0, 0x10,0xFF,0xFF,0]"

definition sample_bmp_header :: bmp_header_t where
  "sample_bmp_header = \<lparr>file_size = 46, reserved = 0, pixel_offset = 38, dib_header_size = 12, img_width = 1,
     img_height = 2, planes = 1, bits_per_pixel = 24, compression_type = 0, img_size = 8\<rparr>"

lemma sample_bmp_read:
  "bmp_header_check sample_bmp = Some sample_bmp_header"
  "read_bmp_image_data sample_bmp sample_bmp_header = Some [0x80,0x40,0xFF,0, 0x10,0xFF,0xFF,0]"
  by code_simp+

theorem bmp_roundtrip_witness:
  "(\<exists>out p. mp2photo_main False 3 (Some sample_bmp) True = Some (0, Some out) \<and> read_photo (Some out) = Some p
      \<and> p_img p ! 0 = 0x3C \<and> p_img p ! 1 = 0x36)
   \<and> (\<exists>out im. mp2photo_main True 3 (Some sample_bmp) True = Some (0, Some out) \<and> read_obj_image (Some out) = Some im
      \<and> i_img im ! 0 = 0x40 \<and> i_img im ! 1 = 0x36)"
proof
  have s: "img_width sample_bmp_header = 1" "img_height sample_bmp_header = 2" "unat (bmp_row_width sample_bmp_header) = 4"
    by (simp_all add: sample_bmp_header_def bmp_row_width_def)
  note rt = bmp_roundtrip [OF sample_bmp_read, unfolded s]
  obtain out p where p: "mp2photo_main False 3 (Some sample_bmp) True = Some (0, Some out)" "read_photo (Some out) = Some p"
    and px: "\<forall>x y. x < unat (1 :: 32 word) \<and> y < unat (2 :: 32 word) \<longrightarrow> p_img p ! (unat (1 :: 32 word) * (unat (2 :: 32 word) - 1 - y) + x)
      = (let c = bmp_at 4 [0x80,0x40,0xFF,0, 0x10,0xFF,0xFF,0] y x in color_of (c 0) (c 1) (c 2))"
    using rt s by auto
  have "p_img p ! 0 = 0x3C" "p_img p ! 1 = 0x36"
    using px [rule_format, of 0 1] px [rule_format, of 0 0] by (simp_all add: bmp_at_def color_of_def)
  with p show "\<exists>out p. mp2photo_main False 3 (Some sample_bmp) True = Some (0, Some out) \<and> read_photo (Some out) = Some p
      \<and> p_img p ! 0 = 0x3C \<and> p_img p ! 1 = 0x36" by blast
  obtain out im where q: "mp2photo_main True 3 (Some sample_bmp) True = Some (0, Some out)" "read_obj_image (Some out) = Some im"
    and py: "\<forall>x y. x < unat (1 :: 32 word) \<and> y < unat (2 :: 32 word) \<longrightarrow> i_img im ! (unat (1 :: 32 word) * (unat (2 :: 32 word) - 1 - y) + x)
      = (let c = bmp_at 4 [0x80,0x40,0xFF,0, 0x10,0xFF,0xFF,0] y x; v = color_of (c 0) (c 1) (c 2) in if v = 0x3C then OBJ_CLR_TRANSP else v)"
    using rt s by auto
  have "i_img im ! 0 = 0x40" "i_img im ! 1 = 0x36"
    using py [rule_format, of 0 1] py [rule_format, of 0 0] by (simp_all add: bmp_at_def color_of_def)
  with q show "\<exists>out im. mp2photo_main True 3 (Some sample_bmp) True = Some (0, Some out) \<and> read_obj_image (Some out) = Some im
      \<and> i_img im ! 0 = 0x40 \<and> i_img im ! 1 = 0x36" by blast
qed

end
