(* ===== verification/World.thy ===== *)
theory World
  imports Photo
begin

text \<open>
  The world of the adventure game (\<open>world.c\<close>): rooms and objects, the tables they are built from,
  and the routines that move objects between rooms.

  The arrays \<open>room\<close> and \<open>object\<close> are functions from the index, a pointer into one of them is the
  index, and \<open>NULL\<close> is \<open>None\<close>.  The contents of a room are a linked list through \<open>next\<close>, as in the
  source, and a loop along it is a \<open>partial_function\<close>: \<open>None\<close> stands for a loop that does not end
  and for an access through \<open>NULL\<close>.  Names are strings without their NUL.  \<open>rand\<close> is the stream
  \<open>randoms\<close> of the state with the number \<open>draws\<close> of values taken, so that every statement holds for
  every sequence of random numbers.
\<close>

section \<open>Identifiers\<close>

text \<open>Rooms.\<close>

abbreviation (input) "R_NONE \<equiv> - 1 :: int"
abbreviation (input) "R_INVENTORY \<equiv> 0 :: int"
abbreviation (input) "R_IN_391LAB \<equiv> 1 :: int"
abbreviation (input) "R_BY_391LAB \<equiv> 2 :: int"
abbreviation (input) "R_IN_IEEE \<equiv> 3 :: int"
abbreviation (input) "R_BY_IEEE \<equiv> 4 :: int"
abbreviation (input) "R_IN_395LAB \<equiv> 5 :: int"
abbreviation (input) "R_BY_395LAB \<equiv> 6 :: int"
abbreviation (input) "R_EVT_STAIR \<equiv> 7 :: int"
abbreviation (input) "R_IN_CLEANR \<equiv> 8 :: int"
abbreviation (input) "R_BY_CLEANR \<equiv> 9 :: int"
abbreviation (input) "R_EVRT_VEND \<equiv> 10 :: int"
abbreviation (input) "R_ALMAMATER \<equiv> 11 :: int"
abbreviation (input) "R_IN_COCOMR \<equiv> 12 :: int"
abbreviation (input) "R_BY_COCOMR \<equiv> 13 :: int"
abbreviation (input) "R_BY_ZAS \<equiv> 14 :: int"
abbreviation (input) "R_EAST_EVRT \<equiv> 15 :: int"
abbreviation (input) "R_EVRT_BSMT \<equiv> 16 :: int"
abbreviation (input) "R_WEST_BONE \<equiv> 17 :: int"
abbreviation (input) "R_CIRCLE_N \<equiv> 18 :: int"
abbreviation (input) "R_CIRCLE_SW \<equiv> 19 :: int"
abbreviation (input) "R_EAST_BONE \<equiv> 20 :: int"
abbreviation (input) "R_BARDEEN \<equiv> 21 :: int"
abbreviation (input) "R_LIB_BACK \<equiv> 22 :: int"
abbreviation (input) "R_RESERVE \<equiv> 23 :: int"
abbreviation (input) "R_TALBOT_NW \<equiv> 24 :: int"
abbreviation (input) "R_TALBOT_SW \<equiv> 25 :: int"
abbreviation (input) "R_TALBOT \<equiv> 26 :: int"
abbreviation (input) "R_SPRINGFLD \<equiv> 27 :: int"
abbreviation (input) "R_CARIBOU \<equiv> 28 :: int"
abbreviation (input) "R_KENNEY \<equiv> 29 :: int"
abbreviation (input) "R_DCL \<equiv> 30 :: int"
abbreviation (input) "R_LIB_FRONT \<equiv> 31 :: int"
abbreviation (input) "R_KENNEY_E \<equiv> 32 :: int"
abbreviation (input) "R_NEWMARK \<equiv> 33 :: int"
abbreviation (input) "R_MNTL_NW \<equiv> 34 :: int"
abbreviation (input) "R_MNTL_SW \<equiv> 35 :: int"
abbreviation (input) "R_MNTLLOBBY \<equiv> 36 :: int"
abbreviation (input) "R_MNTL_LAB1 \<equiv> 37 :: int"
abbreviation (input) "R_MNTL_LAB2 \<equiv> 38 :: int"
abbreviation (input) "R_MNTL_LAB3 \<equiv> 39 :: int"
abbreviation (input) "R_CSL_VIEW \<equiv> 40 :: int"
abbreviation (input) "R_CSL_DOOR \<equiv> 41 :: int"
abbreviation (input) "R_CSL_LOBBY \<equiv> 42 :: int"
abbreviation (input) "R_CSL_UPPER \<equiv> 43 :: int"
abbreviation (input) "R_CSLLOUNGE \<equiv> 44 :: int"
abbreviation (input) "R_BECK_LOT \<equiv> 45 :: int"
abbreviation (input) "R_BECKMAN \<equiv> 46 :: int"
abbreviation (input) "R_BECK_DOOR \<equiv> 47 :: int"
abbreviation (input) "R_BECKLOBBY \<equiv> 48 :: int"
abbreviation (input) "R_BECK_MRI \<equiv> 49 :: int"
abbreviation (input) "R_GARAGE \<equiv> 50 :: int"
abbreviation (input) "R_CAR_SITE \<equiv> 51 :: int"
abbreviation (input) "R_ALLERTON \<equiv> 52 :: int"
abbreviation (input) "R_FU_DOGS \<equiv> 53 :: int"
abbreviation (input) "R_STATUE \<equiv> 54 :: int"
abbreviation (input) "R_SUNSINGER \<equiv> 55 :: int"
abbreviation (input) "R_WILLARD \<equiv> 56 :: int"
abbreviation (input) "R_WILL_SIDE \<equiv> 57 :: int"
abbreviation (input) "R_REM_PLANE \<equiv> 58 :: int"
abbreviation (input) "R_COCKPIT \<equiv> 59 :: int"
abbreviation (input) "R_OVER_WILL \<equiv> 60 :: int"
abbreviation (input) "R_AIR_RIO \<equiv> 61 :: int"
abbreviation (input) "R_REM_ICE \<equiv> 62 :: int"
abbreviation (input) "R_REM_LAB \<equiv> 63 :: int"
abbreviation (input) "N_ROOMS \<equiv> 64 :: int"

text \<open>Objects.\<close>

abbreviation (input) "O_NONE \<equiv> - 1 :: int"
abbreviation (input) "O_BOARD \<equiv> 0 :: int"
abbreviation (input) "O_JETPACK \<equiv> 1 :: int"
abbreviation (input) "O_TUX \<equiv> 2 :: int"
abbreviation (input) "O_MP2 \<equiv> 3 :: int"
abbreviation (input) "O_BOOK_C \<equiv> 4 :: int"
abbreviation (input) "O_BOOK_WODE \<equiv> 5 :: int"
abbreviation (input) "O_GPS_BAD \<equiv> 6 :: int"
abbreviation (input) "O_GPS_GOOD \<equiv> 7 :: int"
abbreviation (input) "O_GPS_SPEC \<equiv> 8 :: int"
abbreviation (input) "O_BUNNYSUIT \<equiv> 9 :: int"
abbreviation (input) "O_BATT_EMPTY \<equiv> 10 :: int"
abbreviation (input) "O_BATT_FULL \<equiv> 11 :: int"
abbreviation (input) "O_BATT_CAR \<equiv> 12 :: int"
abbreviation (input) "O_MTN_DEW \<equiv> 13 :: int"
abbreviation (input) "O_FISH \<equiv> 14 :: int"
abbreviation (input) "O_ICARD \<equiv> 15 :: int"
abbreviation (input) "O_CAR_KEY \<equiv> 16 :: int"
abbreviation (input) "O_ROBOT_DEAD \<equiv> 17 :: int"
abbreviation (input) "O_ROBOT_LIVE \<equiv> 18 :: int"
abbreviation (input) "O_MIMO_CARD \<equiv> 19 :: int"
abbreviation (input) "N_OBJECTS \<equiv> 20 :: int"

text \<open>The player's accomplishments, and the photos that are swapped.\<close>

abbreviation (input) "FLAG_HAS_EATEN \<equiv> 0 :: int"
abbreviation (input) "FLAG_WEARING_SUIT \<equiv> 1 :: int"
abbreviation (input) "FLAG_CAR_OPEN \<equiv> 2 :: int"
abbreviation (input) "FLAG_CAR_FIXED \<equiv> 3 :: int"
abbreviation (input) "FLAG_LURED_TUX \<equiv> 4 :: int"
abbreviation (input) "NUM_FLAGS \<equiv> 5 :: int"
abbreviation (input) "SWAP_CIRCLE \<equiv> 0 :: int"
abbreviation (input) "SWAP_CAR \<equiv> 1 :: int"
abbreviation (input) "N_SWAPS \<equiv> 2 :: int"

section \<open>Rooms and objects\<close>

record room_t =
  r_name :: "string option"
  r_view :: "photo_t option"
  r_contents :: "int option"
  r_left :: "int option"
  r_enter :: "int option"
  r_right :: "int option"

record object_t =
  o_name :: "string option"
  o_next :: "int option"
  o_loc :: "int option"
  o_x :: "16 word"
  o_y :: "16 word"
  o_img :: "image_t option"

datatype room_data_t = Room_data (rd_id: int) (rd_name: string) (rd_filename: string) (rd_left: int) (rd_enter: int) (rd_right: int)

datatype obj_data_t = Obj_data (od_id: int) (od_name: string) (od_filename: string) (od_room: int) (od_x: int) (od_y: int)

datatype swap_data_t = Swap_data (sd_id: int) (sd_filename: string)

definition room_data :: "room_data_t list" where
  "room_data = [
     Room_data R_INVENTORY ''Inventory'' ''images/backpack.photo'' (R_NONE) (R_NONE) (R_NONE),
     Room_data R_IN_391LAB ''391 Lab'' ''images/391lab.photo'' (R_NONE) R_BY_391LAB (R_NONE),
     Room_data R_BY_391LAB ''Outside of 391'' ''images/outside391.photo'' R_BY_ZAS R_IN_391LAB R_BY_IEEE,
     Room_data R_IN_IEEE ''IEEE Office'' ''images/ieee.photo'' (R_NONE) R_BY_IEEE (R_NONE),
     Room_data R_BY_IEEE ''Outside IEEE'' ''images/byieee.photo'' R_BY_391LAB R_IN_IEEE R_BY_395LAB,
     Room_data R_IN_395LAB ''395 Lab'' ''images/395lab.photo'' (R_NONE) R_BY_395LAB (R_NONE),
     Room_data R_BY_395LAB ''Outside of 395'' ''images/outside395.photo'' R_BY_IEEE (R_NONE) R_EVT_STAIR,
     Room_data R_EVT_STAIR ''Everitt Stairs'' ''images/evtstair.photo'' R_BY_395LAB R_EAST_EVRT R_BY_CLEANR,
     Room_data R_IN_CLEANR ''In Cleanroom'' ''images/cleanr.photo'' (R_NONE) R_BY_CLEANR (R_NONE),
     Room_data R_BY_CLEANR ''By the Cleanroom'' ''images/outclean.photo'' R_EVT_STAIR (R_NONE) R_EVRT_VEND,
     Room_data R_EVRT_VEND ''Vending Machine'' ''images/vend.photo'' R_BY_CLEANR R_EVRT_BSMT (R_NONE),
     Room_data R_ALMAMATER ''Alma Mater'' ''images/almamater.photo'' R_EAST_EVRT R_EAST_EVRT R_BY_COCOMR,
     Room_data R_IN_COCOMR ''Cocomero'' ''images/incoco.photo'' (R_NONE) R_BY_COCOMR (R_NONE),
     Room_data R_BY_COCOMR ''Near Cocomero'' ''images/bycoco.photo'' R_ALMAMATER R_IN_COCOMR R_BY_ZAS,
     Room_data R_BY_ZAS ''The Ruins'' ''images/ruins.photo'' R_BY_COCOMR (R_NONE) (R_NONE),
     Room_data R_EAST_EVRT ''East of Everitt'' ''images/eeast.photo'' R_ALMAMATER R_EVT_STAIR R_EVRT_BSMT,
     Room_data R_EVRT_BSMT ''Basement Entry'' ''images/basement.photo'' R_EAST_EVRT R_EVRT_VEND R_CIRCLE_SW,
     Room_data R_WEST_BONE ''Boneyard Creek'' ''images/bonew.photo'' R_CIRCLE_SW (R_NONE) R_CIRCLE_N,
     Room_data R_CIRCLE_N ''Boneyard Bridge'' ''images/circlen1.photo'' R_WEST_BONE R_TALBOT_NW R_EAST_BONE,
     Room_data R_CIRCLE_SW ''Boneyard Bridge'' ''images/circlesw.photo'' R_EAST_BONE R_EVRT_BSMT R_CIRCLE_N,
     Room_data R_EAST_BONE ''Boneyard Creek'' ''images/bonee.photo'' R_CIRCLE_N (R_NONE) R_CIRCLE_SW,
     Room_data R_BARDEEN ''Bardeen Quad'' ''images/bardeen.photo'' R_LIB_BACK R_EAST_BONE R_TALBOT_SW,
     Room_data R_LIB_BACK ''Grainger Library'' ''images/graingerback.photo'' R_DCL R_RESERVE R_BARDEEN,
     Room_data R_RESERVE ''Grainger Reserves'' ''images/reserve.photo'' (R_NONE) R_LIB_BACK R_LIB_FRONT,
     Room_data R_TALBOT_NW ''Talbot Lab'' ''images/talbotnw.photo'' R_CIRCLE_SW R_TALBOT R_TALBOT_SW,
     Room_data R_TALBOT_SW ''Talbot Lab'' ''images/talbotsw.photo'' R_TALBOT_NW R_TALBOT R_SPRINGFLD,
     Room_data R_TALBOT ''Talbot Lab'' ''images/talbot.photo'' (R_NONE) R_TALBOT_NW (R_NONE),
     Room_data R_SPRINGFLD ''Springfield Avenue'' ''images/springfield.photo'' R_TALBOT_SW R_CARIBOU R_KENNEY,
     Room_data R_CARIBOU ''Caribou'' ''images/caribou.photo'' (R_NONE) R_SPRINGFLD (R_NONE),
     Room_data R_KENNEY ''Kenney Gym'' ''images/kenney.photo'' R_SPRINGFLD (R_NONE) R_DCL,
     Room_data R_DCL ''DCL'' ''images/dcl.photo'' R_KENNEY R_KENNEY_E R_LIB_FRONT,
     Room_data R_LIB_FRONT ''Grainger Library'' ''images/graingerfront.photo'' R_DCL R_RESERVE R_TALBOT_SW,
     Room_data R_KENNEY_E ''East of Kenney'' ''images/kenneye.photo'' R_DCL R_DCL R_NEWMARK,
     Room_data R_NEWMARK ''Newmark Lab'' ''images/newmark.photo'' R_MNTL_NW (R_NONE) R_KENNEY_E,
     Room_data R_MNTL_NW ''MNTL'' ''images/mntlnw.photo'' R_NEWMARK R_MNTLLOBBY R_CSL_VIEW,
     Room_data R_MNTL_SW ''MNTL'' ''images/mntlsw.photo'' R_MNTL_NW R_MNTLLOBBY R_BECKMAN,
     Room_data R_MNTLLOBBY ''Lobby of MNTL'' ''images/mntllobby.photo'' R_MNTL_LAB1 R_MNTL_SW R_MNTL_LAB2,
     Room_data R_MNTL_LAB1 ''Kevin's Lab in MNTL'' ''images/mntllab1.photo'' (R_NONE) (R_NONE) R_MNTLLOBBY,
     Room_data R_MNTL_LAB2 ''MNTL Laser Lab'' ''images/mntllab2.photo'' R_MNTLLOBBY R_MNTL_LAB3 (R_NONE),
     Room_data R_MNTL_LAB3 ''MNTL Laser Lab'' ''images/mntllab3.photo'' (R_NONE) R_MNTL_LAB2 (R_NONE),
     Room_data R_CSL_VIEW ''CSL'' ''images/csl.photo'' R_BECK_LOT R_CSL_DOOR R_MNTL_NW,
     Room_data R_CSL_DOOR ''CSL Main Entrance'' ''images/csldoor.photo'' R_BECK_LOT (R_NONE) R_MNTL_NW,
     Room_data R_CSL_LOBBY ''CSL Lobby'' ''images/csllobby.photo'' R_CSL_UPPER R_CSL_DOOR (R_NONE),
     Room_data R_CSL_UPPER ''Upper Floor of CSL'' ''images/cslupper.photo'' (R_NONE) R_CSLLOUNGE R_CSL_LOBBY,
     Room_data R_CSLLOUNGE ''CSL Lounge'' ''images/csllounge.photo'' (R_NONE) R_CSL_UPPER (R_NONE),
     Room_data R_BECK_LOT ''Beckman Circle Lot'' ''images/becklot.photo'' R_BECKMAN R_GARAGE R_CSL_VIEW,
     Room_data R_BECKMAN ''Beckman Institute'' ''images/beckman.photo'' R_MNTL_SW R_BECK_DOOR R_BECK_LOT,
     Room_data R_BECK_DOOR ''Beckman Institute'' ''images/beckdoor.photo'' R_MNTL_SW (R_NONE) R_BECK_LOT,
     Room_data R_BECKLOBBY ''Beckman Lobby'' ''images/becklobby.photo'' (R_NONE) R_BECK_MRI R_BECK_DOOR,
     Room_data R_BECK_MRI ''An MRI Lab'' ''images/beckmri.photo'' (R_NONE) R_BECKLOBBY (R_NONE),
     Room_data R_GARAGE ''Campus Parking'' ''images/garage.photo'' R_BECK_LOT R_CAR_SITE (R_NONE),
     Room_data R_CAR_SITE ''Use Someone's Car?'' ''images/carclosed.photo'' (R_NONE) R_GARAGE (R_NONE),
     Room_data R_ALLERTON ''Allerton Mansion'' ''images/allerton.photo'' R_FU_DOGS (R_NONE) R_SUNSINGER,
     Room_data R_FU_DOGS ''Fu Dog Statues'' ''images/fudogs.photo'' (R_NONE) R_STATUE R_ALLERTON,
     Room_data R_STATUE ''A Tall Statue'' ''images/statue.photo'' (R_NONE) R_FU_DOGS (R_NONE),
     Room_data R_SUNSINGER ''The Sun Singer'' ''images/sunsinger.photo'' R_ALLERTON (R_NONE) (R_NONE),
     Room_data R_WILLARD ''Willard Airport'' ''images/willard.photo'' (R_NONE) R_WILL_SIDE (R_NONE),
     Room_data R_WILL_SIDE ''Willard Tower'' ''images/willardside.photo'' R_REM_PLANE (R_NONE) R_WILLARD,
     Room_data R_REM_PLANE ''Sensor-Laden Plane'' ''images/rsenseplane.photo'' R_COCKPIT (R_NONE) R_WILL_SIDE,
     Room_data R_COCKPIT ''Plane Cockpit'' ''images/cockpit.photo'' (R_NONE) (R_NONE) R_REM_PLANE,
     Room_data R_OVER_WILL ''Flying over Willard'' ''images/overwillard.photo'' (R_NONE) R_COCKPIT R_AIR_RIO,
     Room_data R_AIR_RIO ''Rio de Janeiro'' ''images/riofromair.photo'' R_OVER_WILL (R_NONE) R_REM_ICE,
     Room_data R_REM_ICE ''Ice Fields'' ''images/rsenseice.photo'' R_AIR_RIO R_REM_LAB (R_NONE),
     Room_data R_REM_LAB ''Remote Sensing Lab'' ''images/rsenselab.photo'' (R_NONE) R_REM_ICE (R_NONE)]"

definition obj_data :: "obj_data_t list" where
  "obj_data = [
     Obj_data O_BOARD ''board'' ''images/board.obj'' R_IN_IEEE (- 1) (- 1),
     Obj_data O_JETPACK ''jetpack'' ''images/jetpack.obj'' R_TALBOT (- 1) (- 1),
     Obj_data O_TUX ''tux'' ''images/tux.obj'' R_REM_LAB 250 100,
     Obj_data O_MP2 ''mp2'' ''images/mp2.obj'' R_CSLLOUNGE (- 1) (- 1),
     Obj_data O_BOOK_C ''book'' ''images/book.obj'' (R_NONE) (- 1) (- 1),
     Obj_data O_BOOK_WODE ''book'' ''images/book2.obj'' (R_NONE) (- 1) (- 1),
     Obj_data O_GPS_BAD ''gps'' ''images/gpsbad.obj'' R_TALBOT (- 1) (- 1),
     Obj_data O_GPS_GOOD ''gps'' ''images/gpsgood.obj'' (R_NONE) (- 1) (- 1),
     Obj_data O_GPS_SPEC ''spec'' ''images/gpsspec.obj'' R_CSL_UPPER (- 1) (- 1),
     Obj_data O_BUNNYSUIT ''bunnysuit'' ''images/bunnysuit.obj'' R_ALMAMATER 230 250,
     Obj_data O_BATT_EMPTY ''battery'' ''images/battery.obj'' (R_NONE) (- 1) (- 1),
     Obj_data O_BATT_FULL ''battery'' ''images/battery.obj'' (R_NONE) (- 1) (- 1),
     Obj_data O_BATT_CAR ''battery'' ''images/batteryincar.obj'' (R_NONE) (- 1) (- 1),
     Obj_data O_MTN_DEW ''dew'' ''images/dew.obj'' (R_NONE) (- 1) (- 1),
     Obj_data O_FISH ''fish'' ''images/fish.obj'' R_EAST_BONE 80 260,
     Obj_data O_ICARD ''Icard'' ''images/icard.obj'' R_BARDEEN (- 1) (- 1),
     Obj_data O_CAR_KEY ''key'' ''images/key.obj'' R_CARIBOU (- 1) (- 1),
     Obj_data O_ROBOT_DEAD ''robot'' ''images/robot.obj'' R_MNTL_LAB3 (- 1) (- 1),
     Obj_data O_ROBOT_LIVE ''robot'' ''images/robot.obj'' (R_NONE) (- 1) (- 1),
     Obj_data O_MIMO_CARD ''mimo'' ''images/mimo.obj'' R_STATUE (- 1) (- 1)]"

definition swap_data :: "swap_data_t list" where
  "swap_data = [
     Swap_data SWAP_CIRCLE ''images/circlen2.photo'',
     Swap_data SWAP_CAR ''images/caropen.photo'']"

text \<open>The file-scope variables of \<open>world.c\<close>, and the status line of \<open>adventure.c\<close>.\<close>

record world =
  room :: "int \<Rightarrow> room_t"
  object :: "int \<Rightarrow> object_t"
  player_flags :: "int \<Rightarrow> 32 word"
  swap_photo :: "int \<Rightarrow> photo_t option"
  status_msg :: string
  randoms :: "nat \<Rightarrow> nat"
  draws :: nat

text \<open>What one command returns: the kind of action, the room pointer, and the world.\<close>

datatype tc_action_t = TC_ALLOW_EDIT | TC_DISCARD_TEXT | TC_REDRAW_ROOM | TC_CHANGE_ROOM

type_synonym outcome = "(tc_action_t \<times> int option \<times> world) option"

section \<open>Helpers\<close>

abbreviation (input) "STATUS_MSG_LEN \<equiv> 40 :: nat"

definition show_status :: "string \<Rightarrow> world \<Rightarrow> world" where
  "show_status s w = w\<lparr>status_msg := take STATUS_MSG_LEN s\<rparr>"

definition rand :: "world \<Rightarrow> int \<times> world" where
  "rand w = (int (randoms w (draws w)), w\<lparr>draws := Suc (draws w)\<rparr>)"

definition to_lower :: "char \<Rightarrow> char" where
  "to_lower c = (if 65 \<le> (of_char c :: nat) \<and> (of_char c :: nat) \<le> 90 then char_of ((of_char c :: nat) + 32) else c)"

text \<open>\<open>0 == strcasecmp (a, b)\<close>.\<close>

definition same_text :: "string \<Rightarrow> string \<Rightarrow> bool" where
  "same_text a b \<longleftrightarrow> map to_lower a = map to_lower b"

definition set_room :: "int \<Rightarrow> (room_t \<Rightarrow> room_t) \<Rightarrow> world \<Rightarrow> world" where
  "set_room r f w = w\<lparr>room := (room w)(r := f (room w r))\<rparr>"

definition set_object :: "int \<Rightarrow> (object_t \<Rightarrow> object_t) \<Rightarrow> world \<Rightarrow> world" where
  "set_object k f w = w\<lparr>object := (object w)(k := f (object w k))\<rparr>"

section \<open>Accomplishments and photo swaps\<close>

definition player_flag_is_set :: "int \<Rightarrow> world \<Rightarrow> bool" where
  "player_flag_is_set fnum w \<longleftrightarrow> player_flags w (fnum div 32) AND push_bit (nat (fnum mod 32)) 1 \<noteq> 0"

definition player_set_flag :: "int \<Rightarrow> world \<Rightarrow> world" where
  "player_set_flag fnum w = w\<lparr>player_flags := (player_flags w)
     (fnum div 32 := player_flags w (fnum div 32) OR push_bit (nat (fnum mod 32)) 1)\<rparr>"

definition do_photo_swap :: "int \<Rightarrow> int \<Rightarrow> world \<Rightarrow> world" where
  "do_photo_swap r which w =
     (let tmp = r_view (room w r)
      in (set_room r (r_view_update (\<lambda>_. swap_photo w which)) w)\<lparr>swap_photo := (swap_photo w)(which := tmp)\<rparr>)"

section \<open>Objects in rooms\<close>

partial_function (option) find_from :: "world \<Rightarrow> string \<Rightarrow> int option \<Rightarrow> int option option" where
  "find_from w arg obj = (case obj of
     None \<Rightarrow> Some None
   | Some k \<Rightarrow> do {
       name \<leftarrow> o_name (object w k);
       if same_text arg name then Some (Some k) else find_from w arg (o_next (object w k)) })"

definition find_in_room :: "int \<Rightarrow> string \<Rightarrow> world \<Rightarrow> int option option" where
  "find_in_room r arg w = find_from w arg (r_contents (room w r))"

text \<open>\<open>remove_object\<close> walks along the places that hold the pointers of the list: the \<open>contents\<close> of the
  room, or the \<open>next\<close> of an object.\<close>

datatype place = Contents int | Next int

fun read_place :: "place \<Rightarrow> world \<Rightarrow> int option" where
  "read_place (Contents r) w = r_contents (room w r)"
| "read_place (Next k) w = o_next (object w k)"

fun write_place :: "place \<Rightarrow> int option \<Rightarrow> world \<Rightarrow> world" where
  "write_place (Contents r) p w = set_room r (r_contents_update (\<lambda>_. p)) w"
| "write_place (Next k) p w = set_object k (o_next_update (\<lambda>_. p)) w"

partial_function (option) unlink :: "int \<Rightarrow> place \<Rightarrow> world \<Rightarrow> world option" where
  "unlink ob p w = (case read_place p w of
     None \<Rightarrow> Some w
   | Some k \<Rightarrow> if ob = k then Some (write_place p (o_next (object w ob)) w) else unlink ob (Next k) w)"

definition remove_object :: "int \<Rightarrow> world \<Rightarrow> world option" where
  "remove_object ob w = (case o_loc (object w ob) of
     None \<Rightarrow> Some w
   | Some r \<Rightarrow> do {
       w \<leftarrow> unlink ob (Contents r) w;
       Some (set_object ob (o_loc_update (\<lambda>_. None)) w) })"

definition insert_object_at :: "int \<Rightarrow> int \<Rightarrow> int \<Rightarrow> int \<Rightarrow> world \<Rightarrow> world option" where
  "insert_object_at ob r x y w = do {
     w \<leftarrow> remove_object ob w;
     let w = set_object ob (\<lambda>t. t\<lparr>o_x := word_of_int x, o_y := word_of_int y, o_loc := Some r,
                                 o_next := r_contents (room w r)\<rparr>) w;
     Some (set_room r (r_contents_update (\<lambda>_. Some ob)) w) }"

text \<open>\<open>0 >= range ? 0 : rand () % range\<close>.\<close>

definition pick :: "int \<Rightarrow> world \<Rightarrow> int \<times> world" where
  "pick n w = (if 0 \<ge> n then (0, w) else (let (v, w) = rand w in (v mod n, w)))"

definition insert_object :: "int \<Rightarrow> int \<Rightarrow> world \<Rightarrow> world option" where
  "insert_object ob r w = do {
     view \<leftarrow> r_view (room w r);
     img \<leftarrow> o_img (object w ob);
     let (xpos, w) = pick (photo_width view - image_width img) w;
     let space = photo_height view;
     let img_ht = image_height img;
     let low = space div 4 - img_ht;
     let (ypos, w) =
       (if 0 \<ge> low then pick (space - img_ht) w
        else (let (v, w) = pick low w in (v + (3 * space) div 4, w)));
     insert_object_at ob r xpos ypos w }"

partial_function (option) conflict :: "world \<Rightarrow> int \<times> int \<Rightarrow> int option \<Rightarrow> bool option" where
  "conflict w p conf = (case conf of
     None \<Rightarrow> Some False
   | Some k \<Rightarrow>
       if fst p = uint (o_x (object w k)) \<and> snd p = uint (o_y (object w k)) then Some True
       else conflict w p (o_next (object w k)))"

text \<open>The places of the grid in the order the loops try them.\<close>

definition grid :: "(int \<times> int) list" where
  "grid = concat (map (\<lambda>y. map (\<lambda>x. (x, y)) [10, 110, 210]) [10, 60, 110, 160])"

primrec grid_loop :: "int \<Rightarrow> (int \<times> int) list \<Rightarrow> world \<Rightarrow> world option" where
  "grid_loop obj [] w = insert_object obj R_INVENTORY w"
| "grid_loop obj (p # ps) w = do {
     taken \<leftarrow> conflict w p (r_contents (room w R_INVENTORY));
     if taken then grid_loop obj ps w else insert_object_at obj R_INVENTORY (fst p) (snd p) w }"

definition move_object_to_inventory :: "int \<Rightarrow> world \<Rightarrow> world option" where
  "move_object_to_inventory obj w = grid_loop obj grid w"

definition obj_special_get :: "int \<Rightarrow> string \<Rightarrow> world \<Rightarrow> (int option \<times> world) option" where
  "obj_special_get r arg w =
     (if r = R_RESERVE \<and> same_text ''book'' arg \<and> player_flag_is_set FLAG_HAS_EATEN w
         \<and> o_loc (object w O_BOOK_C) = None
      then Some (Some O_BOOK_C, show_status ''You check out the C book.'' w)
      else if r = R_RESERVE \<and> same_text ''book'' arg \<and> \<not> player_flag_is_set FLAG_HAS_EATEN w
         \<and> o_loc (object w O_BOOK_WODE) = None
      then Some (Some O_BOOK_WODE, show_status ''Here's a nice Wodehouse collection.'' w)
      else if r = R_CAR_SITE \<and> o_loc (object w O_BATT_CAR) = Some r
      then do { w \<leftarrow> remove_object O_BATT_CAR w; Some (Some O_BATT_EMPTY, w) }
      else Some (None, w))"

section \<open>Access functions\<close>

definition obj_get_x :: "int \<Rightarrow> world \<Rightarrow> 16 word" where
  "obj_get_x obj w = o_x (object w obj)"

definition obj_get_y :: "int \<Rightarrow> world \<Rightarrow> 16 word" where
  "obj_get_y obj w = o_y (object w obj)"

definition obj_image :: "int \<Rightarrow> world \<Rightarrow> image_t option" where
  "obj_image obj w = o_img (object w obj)"

definition obj_next :: "int \<Rightarrow> world \<Rightarrow> int option" where
  "obj_next obj w = o_next (object w obj)"

definition room_contents_iterate :: "int \<Rightarrow> world \<Rightarrow> int option" where
  "room_contents_iterate r w = r_contents (room w r)"

definition room_name :: "int \<Rightarrow> world \<Rightarrow> string option" where
  "room_name r w = r_name (room w r)"

definition room_photo :: "int \<Rightarrow> world \<Rightarrow> photo_t option" where
  "room_photo r w = r_view (room w r)"

definition room_photo_height :: "int \<Rightarrow> world \<Rightarrow> int option" where
  "room_photo_height r w = map_option photo_height (r_view (room w r))"

definition room_photo_width :: "int \<Rightarrow> world \<Rightarrow> int option" where
  "room_photo_width r w = map_option photo_width (r_view (room w r))"

definition start_in_room :: int where
  "start_in_room = R_EAST_EVRT"

definition player_has_board :: "world \<Rightarrow> bool" where
  "player_has_board w \<longleftrightarrow> o_loc (object w 0) = Some R_INVENTORY"

definition player_has_jetpack :: "world \<Rightarrow> bool" where
  "player_has_jetpack w \<longleftrightarrow> o_loc (object w 1) = Some R_INVENTORY"

section \<open>Building the world\<close>

text \<open>\<open>files\<close> maps a name to the bytes of the file, or to \<open>None\<close> when it cannot be opened.  A loop of
  \<open>build_world\<close> stops when its body returns 0.\<close>

type_synonym files = "string \<Rightarrow> u8 list option"

primrec each :: "('d \<Rightarrow> world \<Rightarrow> (bool \<times> world) option) \<Rightarrow> 'd list \<Rightarrow> world \<Rightarrow> (bool \<times> world) option" where
  "each body [] w = Some (True, w)"
| "each body (d # ds) w = do {
     (ok, w) \<leftarrow> body d w;
     if ok then each body ds w else Some (False, w) }"

definition link :: "int \<Rightarrow> int option" where
  "link i = (if i = R_NONE then None else Some i)"

definition setup_room :: "files \<Rightarrow> room_data_t \<Rightarrow> world \<Rightarrow> (bool \<times> world) option" where
  "setup_room files d w =
     (let which = rd_id d in
      if which < 0 \<or> N_ROOMS \<le> which then Some (False, w)
      else if r_name (room w which) \<noteq> None then Some (False, w)
      else let w = set_room which (\<lambda>t. t\<lparr>r_name := Some (rd_name d), r_view := read_photo (files (rd_filename d))\<rparr>) w
      in if r_view (room w which) = None then Some (False, w)
      else Some (True, set_room which (\<lambda>t. t\<lparr>r_contents := None, r_left := link (rd_left d),
             r_enter := link (rd_enter d), r_right := link (rd_right d)\<rparr>) w))"

definition setup_object :: "files \<Rightarrow> obj_data_t \<Rightarrow> world \<Rightarrow> (bool \<times> world) option" where
  "setup_object files d w =
     (let which = od_id d in
      if which < 0 \<or> N_OBJECTS \<le> which then Some (False, w)
      else if o_name (object w which) \<noteq> None then Some (False, w)
      else let w = set_object which (\<lambda>t. t\<lparr>o_name := Some (od_name d), o_img := read_obj_image (files (od_filename d))\<rparr>) w
      in if o_img (object w which) = None then Some (False, w)
      else let w = set_object which (\<lambda>t. t\<lparr>o_next := None, o_loc := None, o_x := 0, o_y := 0\<rparr>) w
      in if od_room d \<noteq> R_NONE then
           (if od_x d \<noteq> - 1
            then do { w \<leftarrow> insert_object_at which (od_room d) (od_x d) (od_y d) w; Some (True, w) }
            else do { w \<leftarrow> insert_object which (od_room d) w; Some (True, w) })
         else Some (True, w))"

definition setup_swap :: "files \<Rightarrow> swap_data_t \<Rightarrow> world \<Rightarrow> (bool \<times> world) option" where
  "setup_swap files d w =
     (let which = sd_id d in
      if which < 0 \<or> N_SWAPS \<le> which then Some (False, w)
      else if swap_photo w which \<noteq> None then Some (False, w)
      else let w = w\<lparr>swap_photo := (swap_photo w)(which := read_photo (files (sd_filename d)))\<rparr>
      in Some (swap_photo w which \<noteq> None, w))"

definition no_room :: room_t where
  "no_room = \<lparr>r_name = None, r_view = None, r_contents = None, r_left = None, r_enter = None, r_right = None\<rparr>"

definition no_object :: object_t where
  "no_object = \<lparr>o_name = None, o_next = None, o_loc = None, o_x = 0, o_y = 0, o_img = None\<rparr>"

definition build_world :: "files \<Rightarrow> world \<Rightarrow> (bool \<times> world) option" where
  "build_world files w = do {
     let w = w\<lparr>player_flags := (\<lambda>_. 0), room := (\<lambda>_. no_room)\<rparr>;
     (ok, w) \<leftarrow> each (setup_room files) room_data w;
     if \<not> ok then Some (False, w)
     else do {
       let w = w\<lparr>object := (\<lambda>_. no_object)\<rparr>;
       (ok, w) \<leftarrow> each (setup_object files) obj_data w;
       if \<not> ok then Some (False, w)
       else each (setup_swap files) swap_data (w\<lparr>swap_photo := (\<lambda>_. None)\<rparr>) } }"

end
