(* ===== verification/Commands.thy ===== *)
theory Commands
  imports World
begin

text \<open>
  What the player can do (\<open>world.c\<close>): moving to another room, and the fourteen typed commands.  A
  command gets the player's room \<open>r\<close>, its argument and the world; its outcome is the action, the
  new room (\<open>None\<close> is the \<open>NULL\<close> of a won game) and the new world.
\<close>

definition at :: "int \<Rightarrow> int \<Rightarrow> world \<Rightarrow> bool" where
  "at k r w \<longleftrightarrow> o_loc (object w k) = Some r"

text \<open>The object is carried, or lies in the player's room.\<close>

definition near :: "int \<Rightarrow> int \<Rightarrow> world \<Rightarrow> bool" where
  "near k r w \<longleftrightarrow> at k R_INVENTORY w \<or> at k r w"

definition say :: "string \<Rightarrow> tc_action_t \<Rightarrow> int \<Rightarrow> world \<Rightarrow> outcome" where
  "say s act r w = Some (act, Some r, show_status s w)"

section \<open>Moving\<close>

text \<open>Going into a room; the picture of the Boneyard bridge is chosen at random.\<close>

definition go_into :: "int \<Rightarrow> world \<Rightarrow> outcome" where
  "go_into r' w =
     (if r' = R_CIRCLE_N
      then (let (v, w) = rand w
            in Some (TC_CHANGE_ROOM, Some r', if v mod 2 = 0 then do_photo_swap r' SWAP_CIRCLE w else w))
      else Some (TC_CHANGE_ROOM, Some r', w))"

definition try_to_move_left :: "int \<Rightarrow> world \<Rightarrow> outcome" where
  "try_to_move_left r w = (case r_left (room w r) of
     Some r' \<Rightarrow> go_into r' w
   | None \<Rightarrow>
       if r = 0 then say ''Push 'home' or type 'inventory'.'' TC_ALLOW_EDIT r w
       else say ''You can't go that way.'' TC_ALLOW_EDIT r w)"

definition try_to_move_right :: "int \<Rightarrow> world \<Rightarrow> outcome" where
  "try_to_move_right r w = (case r_right (room w r) of
     Some r' \<Rightarrow> go_into r' w
   | None \<Rightarrow>
       if r = 0 then say ''Push 'home' or type 'inventory'.'' TC_ALLOW_EDIT r w
       else say ''You can't go that way.'' TC_ALLOW_EDIT r w)"

definition advice :: "string list" where \<open>advice = [
  ''Kevin says, "Andres' board is FAST!"'',
  ''Kevin asks, "Got a jetpack?"'',
  ''Kevin: "You can flash hardware in 395."'',
  ''Kevin suggests, "Always carry a fish."'',
  ''Kevin asks, "Have you done your MP2?"'',
  ''Kevin says, "Cocomero sells yogurt."'',
  ''Kevin asks, "Maybe you need a Dew?"'',
  ''Kevin: "A magnet can charge a battery."'']\<close>

definition try_to_enter :: "int \<Rightarrow> world \<Rightarrow> outcome" where
  "try_to_enter r w = (case r_enter (room w r) of
     Some r' \<Rightarrow> go_into r' w
   | None \<Rightarrow>
       if r = R_BY_CLEANR then
         (if player_flag_is_set FLAG_WEARING_SUIT w then Some (TC_CHANGE_ROOM, Some R_IN_CLEANR, w)
          else say ''You're not wearing a bunnysuit!'' TC_ALLOW_EDIT r w)
       else if r = R_BY_395LAB then
         (if at O_ICARD R_INVENTORY w
          then Some (TC_CHANGE_ROOM, Some R_IN_395LAB, show_status ''You swiped your Icard.'' w)
          else say ''You need a valid Icard.'' TC_ALLOW_EDIT r w)
       else if r = R_CSL_DOOR then
         (if at O_ICARD R_INVENTORY w
          then Some (TC_CHANGE_ROOM, Some R_CSL_LOBBY, show_status ''You swiped your Icard.'' w)
          else say ''You need a valid Icard.'' TC_ALLOW_EDIT r w)
       else if r = R_BECK_DOOR then
         (if at O_ROBOT_LIVE R_INVENTORY w
          then Some (TC_CHANGE_ROOM, Some R_BECKLOBBY, show_status ''The robot hand picked the lock!'' w)
          else if at O_ROBOT_DEAD R_INVENTORY w
          then say ''Flash the robot's code again.'' TC_ALLOW_EDIT r w
          else say ''Complex lock!  Find a nanotech robot.'' TC_ALLOW_EDIT r w)
       else if r = R_MNTL_LAB1 then
         (let (v, w) = rand w in say (advice ! nat (v mod 8)) TC_ALLOW_EDIT r w)
       else if r = R_COCKPIT then say ''A MIMO transmitter card is missing!'' TC_ALLOW_EDIT r w
       else say ''You can't go that way.'' TC_ALLOW_EDIT r w)"

section \<open>Typed commands\<close>

definition typed_cmd_buy :: "int \<Rightarrow> string \<Rightarrow> world \<Rightarrow> outcome" where
  "typed_cmd_buy r arg w =
     (if same_text ''dew'' arg then
        (if r \<noteq> R_EVRT_VEND then say ''Great idea!  But ... where?'' TC_DISCARD_TEXT r w
         else if near O_MTN_DEW r w then say ''Slow down!  One at a time...'' TC_DISCARD_TEXT r w
         else do {
           let w = (if o_loc (object w O_MTN_DEW) \<noteq> None
                    then show_status ''Last one get stolen?  Ok...here we go...'' w
                    else show_status ''You buy a Dew.'' w);
           w \<leftarrow> move_object_to_inventory O_MTN_DEW w;
           Some (TC_REDRAW_ROOM, Some r, w) })
      else if same_text ''yogurt'' arg then
        (if r \<noteq> R_IN_COCOMR then say ''Cocomero doesn't deliver here.'' TC_DISCARD_TEXT r w
         else if player_flag_is_set FLAG_HAS_EATEN w then say ''You're not hungry.'' TC_DISCARD_TEXT r w
         else say ''So tasty and delicious!'' TC_DISCARD_TEXT r (player_set_flag FLAG_HAS_EATEN w))
      else say ''Sorry, purchasing options are limited.'' TC_ALLOW_EDIT r w)"

definition typed_cmd_charge :: "int \<Rightarrow> string \<Rightarrow> world \<Rightarrow> outcome" where
  "typed_cmd_charge r arg w =
     (if \<not> same_text ''battery'' arg then say ''Electronic devices aren't (always) toys!'' TC_ALLOW_EDIT r w
      else if \<not> near O_BATT_EMPTY r w \<and> \<not> near O_BATT_FULL r w then say ''What battery?'' TC_DISCARD_TEXT r w
      else if r \<noteq> R_BECK_MRI then say ''Find a bigger magnet.'' TC_DISCARD_TEXT r w
      else if near O_BATT_FULL r w then say ''Don't overdo it.'' TC_DISCARD_TEXT r w
      else do {
        w \<leftarrow> remove_object O_BATT_EMPTY w;
        w \<leftarrow> move_object_to_inventory O_BATT_FULL w;
        say ''Wow!  That's a strong magnet!'' TC_REDRAW_ROOM r w })"

definition typed_cmd_do :: "int \<Rightarrow> string \<Rightarrow> world \<Rightarrow> outcome" where
  "typed_cmd_do r arg w =
     (if r \<noteq> R_IN_391LAB then say ''You can't 'do' anything here.'' TC_ALLOW_EDIT r w
      else if \<not> same_text ''391'' arg \<and> \<not> same_text ''mp2'' arg
      then say ''Doing the 391 MP2 is more important!'' TC_ALLOW_EDIT r w
      else if \<not> at O_BOOK_C R_INVENTORY w then say ''You'd better get a book from Grainger.'' TC_DISCARD_TEXT r w
      else if \<not> at O_MP2 R_INVENTORY w then say ''Web's down.  Bring your own MP2.'' TC_DISCARD_TEXT r w
      else if \<not> at O_TUX R_IN_391LAB w then say ''You'd have better luck if Tux were here.'' TC_DISCARD_TEXT r w
      else Some (TC_CHANGE_ROOM, None, w))"

definition typed_cmd_drink :: "int \<Rightarrow> string \<Rightarrow> world \<Rightarrow> outcome" where
  "typed_cmd_drink r arg w =
     (if \<not> same_text ''dew'' arg then say ''That sounds less refreshing than Dew.'' TC_ALLOW_EDIT r w
      else if \<not> near O_MTN_DEW r w then say ''Uh-oh.  Hadewcinations.  Buy one soon!'' TC_DISCARD_TEXT r w
      else do {
        w \<leftarrow> remove_object O_MTN_DEW w;
        say ''Ahhhhhhhhhhhhhhhh...........nother?'' TC_REDRAW_ROOM r w })"

definition typed_cmd_drop :: "int \<Rightarrow> string \<Rightarrow> world \<Rightarrow> outcome" where
  "typed_cmd_drop r arg w = do {
     obj \<leftarrow> find_in_room R_INVENTORY arg w;
     case obj of
       None \<Rightarrow> say ''You have no such thing.'' TC_ALLOW_EDIT r w
     | Some k \<Rightarrow> do {
         let w = (if (k = O_BATT_FULL \<and> r = R_CAR_SITE) \<or> (k = O_MIMO_CARD \<and> r = R_REM_PLANE)
                  then show_status ''You may want to install it instead.'' w else w);
         dest \<leftarrow> (if r = R_INVENTORY then r_enter (room w R_INVENTORY) else Some r);
         w \<leftarrow> insert_object k dest w;
         Some (TC_REDRAW_ROOM, Some r, w) } }"

definition typed_cmd_fix :: "int \<Rightarrow> string \<Rightarrow> world \<Rightarrow> outcome" where
  "typed_cmd_fix r arg w =
     (if \<not> same_text ''gps'' arg then say ''In the game, you're not as capable.'' TC_ALLOW_EDIT r w
      else if near O_GPS_GOOD r w then say ''It's working fine.'' TC_DISCARD_TEXT r w
      else if \<not> near O_GPS_BAD r w then say ''Do you have a GPS?'' TC_DISCARD_TEXT r w
      else if r \<noteq> R_IN_CLEANR then say ''You'd better go to the cleanroom.'' TC_DISCARD_TEXT r w
      else if \<not> near O_GPS_SPEC r w then say ''Maybe you'd better get a spec?'' TC_DISCARD_TEXT r w
      else do {
        w \<leftarrow> remove_object O_GPS_BAD w;
        w \<leftarrow> remove_object O_GPS_SPEC w;
        w \<leftarrow> move_object_to_inventory O_GPS_GOOD w;
        say ''All done--wow, you're good!'' TC_CHANGE_ROOM r w })"

definition typed_cmd_flash :: "int \<Rightarrow> string \<Rightarrow> world \<Rightarrow> outcome" where
  "typed_cmd_flash r arg w =
     (if \<not> same_text ''robot'' arg then say ''Don't waste your time.'' TC_ALLOW_EDIT r w
      else if \<not> near O_ROBOT_DEAD r w \<and> \<not> near O_ROBOT_LIVE r w
      then say ''Maybe get the robot first?'' TC_DISCARD_TEXT r w
      else if r \<noteq> R_IN_395LAB then say ''With spit and a lemon?  Try the lab.'' TC_DISCARD_TEXT r w
      else if near O_ROBOT_LIVE r w then say ''You flash the robot's ROM again.'' TC_DISCARD_TEXT r w
      else do {
        w \<leftarrow> remove_object O_ROBOT_DEAD w;
        w \<leftarrow> move_object_to_inventory O_ROBOT_LIVE w;
        say ''You flash it with a lockpicking code.'' TC_REDRAW_ROOM r w })"

definition typed_cmd_get :: "int \<Rightarrow> string \<Rightarrow> world \<Rightarrow> outcome" where
  "typed_cmd_get r arg w = do {
     src \<leftarrow> (if r = R_INVENTORY then r_enter (room w R_INVENTORY) else Some r);
     (obj, w) \<leftarrow> obj_special_get src arg w;
     obj \<leftarrow> (if obj = None then find_in_room src arg w else Some obj);
     case obj of
       None \<Rightarrow> say ''You see no such thing here.'' TC_ALLOW_EDIT r w
     | Some k \<Rightarrow>
         if k = O_TUX \<and> \<not> player_flag_is_set FLAG_LURED_TUX w
         then say ''Tux must choose you!  Try using a fish.'' TC_DISCARD_TEXT r w
         else do {
           w \<leftarrow> move_object_to_inventory k w;
           Some (TC_REDRAW_ROOM, Some r, w) } }"

definition typed_cmd_go :: "int \<Rightarrow> string \<Rightarrow> world \<Rightarrow> outcome" where
  "typed_cmd_go r arg w =
     (if same_text ''allerton'' arg then
        (if r = R_ALLERTON then say ''Kazam!  You're at Allerton!'' TC_DISCARD_TEXT r w
         else if r \<noteq> R_WILLARD \<and> r \<noteq> R_CAR_SITE then say ''That's quite a hike.'' TC_DISCARD_TEXT r w
         else if \<not> player_flag_is_set FLAG_CAR_FIXED w then
           (if player_flag_is_set FLAG_CAR_OPEN w then say ''The car isn't working.'' TC_DISCARD_TEXT r w
            else say ''Do you want to use that car?'' TC_DISCARD_TEXT r w)
         else if \<not> at O_GPS_GOOD R_INVENTORY w then
           (if at O_GPS_BAD R_INVENTORY w then say ''That's a long road with a broken GPS.'' TC_DISCARD_TEXT r w
            else say ''You'll need a GPS to find that place.'' TC_DISCARD_TEXT r w)
         else say ''You drive to Allerton Park.'' TC_CHANGE_ROOM R_ALLERTON w)
      else if same_text ''willard'' arg \<or> same_text ''airport'' arg then
        (if r = R_WILLARD then say ''Kazap!  You're at Willard!'' TC_DISCARD_TEXT r w
         else if r \<noteq> R_ALLERTON \<and> r \<noteq> R_CAR_SITE then say ''That's quite a hike.'' TC_DISCARD_TEXT r w
         else if \<not> player_flag_is_set FLAG_CAR_FIXED w then
           (if player_flag_is_set FLAG_CAR_OPEN w then say ''The car isn't working.'' TC_DISCARD_TEXT r w
            else say ''Do you want to use that car?'' TC_DISCARD_TEXT r w)
         else say ''You drive to Willard Airport.'' TC_CHANGE_ROOM R_WILLARD w)
      else if same_text ''campus'' arg then
        (if r = R_CAR_SITE then say ''Kazar!  You're on campus!'' TC_DISCARD_TEXT r w
         else if r \<noteq> R_ALLERTON \<and> r \<noteq> R_WILLARD then say ''That's quite a hike.'' TC_DISCARD_TEXT r w
         else say ''You drive back to campus.'' TC_CHANGE_ROOM R_CAR_SITE w)
      else say ''The game map lacks certain places.'' TC_ALLOW_EDIT r w)"

definition typed_cmd_install :: "int \<Rightarrow> string \<Rightarrow> world \<Rightarrow> outcome" where
  "typed_cmd_install r arg w =
     (if same_text ''battery'' arg then
        (if \<not> near O_BATT_EMPTY r w \<and> \<not> near O_BATT_FULL r w then say ''What battery?'' TC_DISCARD_TEXT r w
         else if r \<noteq> R_CAR_SITE then say ''Do you see the car?'' TC_DISCARD_TEXT r w
         else if near O_BATT_EMPTY r w then say ''You want to install a dead battery?'' TC_DISCARD_TEXT r w
         else do {
           w \<leftarrow> remove_object O_BATT_FULL w;
           say ''Nice work!  Now you can use it!'' TC_CHANGE_ROOM r
             (do_photo_swap r SWAP_CAR (player_set_flag FLAG_CAR_FIXED w)) })
      else if same_text ''mimo'' arg \<or> same_text ''card'' arg \<or> same_text ''transmitter'' arg then
        (if \<not> near O_MIMO_CARD r w then say ''Do you have one of those?'' TC_DISCARD_TEXT r w
         else if r \<noteq> R_COCKPIT then say ''Nothing here needs that.'' TC_DISCARD_TEXT r w
         else do {
           w \<leftarrow> remove_object O_MIMO_CARD w;
           say ''Ready for takeoff, captain!'' TC_REDRAW_ROOM r
             (set_room R_COCKPIT (r_enter_update (\<lambda>_. Some R_OVER_WILL)) w) })
      else say ''What are you playing at?'' TC_ALLOW_EDIT r w)"

definition typed_cmd_inventory :: "int \<Rightarrow> string \<Rightarrow> world \<Rightarrow> outcome" where
  "typed_cmd_inventory r arg w =
     (if r = R_INVENTORY then Some (TC_CHANGE_ROOM, r_enter (room w r), w)
      else Some (TC_CHANGE_ROOM, Some R_INVENTORY, set_room R_INVENTORY (r_enter_update (\<lambda>_. Some r)) w))"

definition typed_cmd_sigh :: "int \<Rightarrow> string \<Rightarrow> world \<Rightarrow> outcome" where
  "typed_cmd_sigh r arg w =
     (if r \<noteq> R_BY_ZAS then say ''MP2 got you down?  Take a break!'' TC_DISCARD_TEXT r w
      else Some (TC_DISCARD_TEXT, Some r,
        player_set_flag FLAG_HAS_EATEN (show_status ''So sad... you lose your appetite.'' w)))"

definition typed_cmd_use :: "int \<Rightarrow> string \<Rightarrow> world \<Rightarrow> outcome" where
  "typed_cmd_use r arg w =
     (if same_text ''car'' arg then
        (if r = R_ALLERTON then say ''Go to campus or Willard Airport?'' TC_DISCARD_TEXT r w
         else if r = R_WILLARD then say ''Go to Allerton or campus?'' TC_DISCARD_TEXT r w
         else if r \<noteq> R_CAR_SITE then say ''You have a car?'' TC_DISCARD_TEXT r w
         else if player_flag_is_set FLAG_CAR_FIXED w then say ''Go to Allerton or Willard Airport?'' TC_DISCARD_TEXT r w
         else if player_flag_is_set FLAG_CAR_OPEN w then say ''You'll have to charge the battery.'' TC_DISCARD_TEXT r w
         else if \<not> at O_CAR_KEY R_INVENTORY w then say ''Perhaps you can find a key?'' TC_DISCARD_TEXT r w
         else do {
           let w = do_photo_swap r SWAP_CAR w;
           w \<leftarrow> remove_object O_CAR_KEY w;
           w \<leftarrow> insert_object_at O_BATT_CAR r 265 122 w;
           say ''The key works, but the battery's dead.'' TC_CHANGE_ROOM r (player_set_flag FLAG_CAR_OPEN w) })
      else if same_text ''fish'' arg then
        (if \<not> near O_FISH r w then say ''Using the invisible fish...no effect!'' TC_DISCARD_TEXT r w
         else if r \<noteq> R_REM_LAB then say ''I don't think that's sanitary.'' TC_DISCARD_TEXT r w
         else do {
           w \<leftarrow> remove_object O_FISH w;
           w \<leftarrow> move_object_to_inventory O_TUX w;
           say ''Tux likes you!'' TC_REDRAW_ROOM r (player_set_flag FLAG_LURED_TUX w) })
      else say ''You want to use what!?'' TC_ALLOW_EDIT r w)"

definition typed_cmd_wear :: "int \<Rightarrow> string \<Rightarrow> world \<Rightarrow> outcome" where
  "typed_cmd_wear r arg w =
     (if \<not> same_text ''bunnysuit'' arg then say ''Big Brother forbids fashion statements.'' TC_ALLOW_EDIT r w
      else if \<not> near O_BUNNYSUIT r w then say ''Do you have a bunnysuit?'' TC_DISCARD_TEXT r w
      else do {
        w \<leftarrow> remove_object O_BUNNYSUIT w;
        say ''You look good in pink!'' TC_REDRAW_ROOM r (player_set_flag FLAG_WEARING_SUIT w) })"

end
