(* ===== verification/WorldLists.thy ===== *)
theory WorldLists
  imports Commands
begin

text \<open>
  The linked lists of the world: the contents of every room as a list of objects, and what the
  routines that move objects do to it.  \<open>listed w L\<close> relates a world to the lists \<open>L\<close> of its rooms; it
  also says that an object is in the list of exactly the room its \<open>loc\<close> names.
\<close>

section \<open>Operations that return\<close>

text \<open>\<open>returns m Q\<close>: the operation \<open>m\<close> returns, and what it returns satisfies \<open>Q\<close>.\<close>

definition returns :: "'a option \<Rightarrow> ('a \<Rightarrow> bool) \<Rightarrow> bool" where
  "returns m Q \<longleftrightarrow> (case m of None \<Rightarrow> False | Some x \<Rightarrow> Q x)"

lemma returns_simps [simp]:
  "returns (Some x) Q = Q x"
  "returns None Q = False"
  "returns (m \<bind> f) Q = returns m (\<lambda>x. returns (f x) Q)"
  by (auto simp: returns_def split: option.splits)

lemma returns_if [simp]: "returns (if b then m else n) Q = (if b then returns m Q else returns n Q)"
  by simp

lemma returns_mono: "returns m P \<Longrightarrow> (\<And>x. P x \<Longrightarrow> Q x) \<Longrightarrow> returns m Q"
  by (auto simp: returns_def split: option.splits)

lemma returns_iff: "returns m Q \<longleftrightarrow> (\<exists>x. m = Some x \<and> Q x)"
  by (auto simp: returns_def split: option.splits)

section \<open>Linked lists\<close>

primrec chain :: "(int \<Rightarrow> int option) \<Rightarrow> int option \<Rightarrow> int list \<Rightarrow> bool" where
  "chain h p [] \<longleftrightarrow> p = None"
| "chain h p (k # ks) \<longleftrightarrow> p = Some k \<and> chain h (h k) ks"

lemma chain_upd [simp]: "k \<notin> set ks \<Longrightarrow> chain (h(k := q)) p ks = chain h p ks"
  by (induction ks arbitrary: p) auto

lemma chain_cong: "(\<And>k. k \<in> set ks \<Longrightarrow> h' k = h k) \<Longrightarrow> chain h' p ks = chain h p ks"
  by (induction ks arbitrary: p) auto

lemma chain_unique: "chain h p ks \<Longrightarrow> chain h p ls \<Longrightarrow> ks = ls"
proof (induction ks arbitrary: p ls)
  case Nil
  then show ?case by (cases ls) auto
next
  case (Cons k ks)
  then show ?case by (cases ls) auto
qed

lemma chain_append: "chain h p (ks @ ls) \<longleftrightarrow> (\<exists>q. chain h q ls \<and> (\<forall>us. chain h q us \<longrightarrow> chain h p (ks @ us)))"
proof (induction ks arbitrary: p)
  case Nil
  show ?case
  proof
    assume "chain h p ([] @ ls)"
    then show "\<exists>q. chain h q ls \<and> (\<forall>us. chain h q us \<longrightarrow> chain h p ([] @ us))" by auto
  next
    assume "\<exists>q. chain h q ls \<and> (\<forall>us. chain h q us \<longrightarrow> chain h p ([] @ us))"
    then show "chain h p ([] @ ls)" by auto
  qed
qed auto

lemma chain_distinct: "chain h p ks \<Longrightarrow> distinct ks"
proof (induction ks arbitrary: p)
  case (Cons k ks)
  have "k \<notin> set ks"
  proof
    assume "k \<in> set ks"
    then obtain us vs where ks: "ks = us @ k # vs" by (meson split_list)
    then obtain q where "chain h q (k # vs)" using Cons.prems chain_append [of h "h k" us "k # vs"] by auto
    then have "chain h (h k) vs" by simp
    moreover have "chain h (h k) (us @ k # vs)" using Cons.prems ks by simp
    ultimately have "vs = us @ k # vs" by (rule chain_unique)
    then show False by (metis append_Cons append_Nil2 append_assoc append_self_conv2 length_Cons length_append not_add_less2 lessI add_Suc_right)
  qed
  with Cons show ?case by auto
qed simp

section \<open>The contents of the rooms\<close>

definition next_of :: "world \<Rightarrow> int \<Rightarrow> int option" where
  "next_of w = (\<lambda>k. o_next (object w k))"

definition loc_of :: "world \<Rightarrow> int \<Rightarrow> int option" where
  "loc_of w = (\<lambda>k. o_loc (object w k))"

definition listed :: "world \<Rightarrow> (int \<Rightarrow> int list) \<Rightarrow> bool" where
  "listed w L \<longleftrightarrow> (\<forall>r. chain (next_of w) (r_contents (room w r)) (L r))
     \<and> (\<forall>k r. k \<in> set (L r) \<longleftrightarrow> loc_of w k = Some r)"

text \<open>What the list operations do not touch.\<close>

definition fixed_part where
  "fixed_part w = ((\<lambda>r. (r_name (room w r), r_view (room w r), r_left (room w r), r_enter (room w r), r_right (room w r))),
     (\<lambda>k. (o_name (object w k), o_img (object w k))), player_flags w, swap_photo w, randoms w)"

lemma listed_unique: "listed w L \<Longrightarrow> listed w M \<Longrightarrow> L = M"
  unfolding listed_def by (metis chain_unique ext)

lemma fixed_part_status [simp]:
  "fixed_part (show_status s w) = fixed_part w" "fixed_part (w\<lparr>draws := n\<rparr>) = fixed_part w"
  by (simp_all add: fixed_part_def show_status_def)

lemma listed_status [simp]:
  "listed (show_status s w) L = listed w L" "listed (w\<lparr>draws := n\<rparr>) L = listed w L"
  "loc_of (show_status s w) = loc_of w" "loc_of (w\<lparr>draws := n\<rparr>) = loc_of w"
  by (simp_all add: listed_def show_status_def next_of_def loc_of_def fun_eq_iff)

lemma world_set_simps [simp]:
  "room (set_room r f w) = (room w)(r := f (room w r))" "object (set_room r f w) = object w"
  "object (set_object k g w) = (object w)(k := g (object w k))" "room (set_object k g w) = room w"
  "status_msg (set_room r f w) = status_msg w" "status_msg (set_object k g w) = status_msg w"
  by (simp_all add: set_room_def set_object_def)

lemma fixed_part_set_room:
  "(\<And>t. r_name (f t) = r_name t \<and> r_view (f t) = r_view t \<and> r_left (f t) = r_left t \<and> r_enter (f t) = r_enter t
     \<and> r_right (f t) = r_right t) \<Longrightarrow> fixed_part (set_room r f w) = fixed_part w"
  by (simp add: fixed_part_def set_room_def fun_eq_iff)

lemma fixed_part_set_object:
  "(\<And>t. o_name (f t) = o_name t \<and> o_img (f t) = o_img t) \<Longrightarrow> fixed_part (set_object k f w) = fixed_part w"
  by (simp add: fixed_part_def set_object_def fun_eq_iff)

lemma fixed_part_write_place [simp]: "fixed_part (write_place p q w) = fixed_part w"
  by (cases p) (simp_all add: fixed_part_set_room fixed_part_set_object)

text \<open>The two searches.\<close>

lemma find_from_chain:
  assumes "chain (next_of w) p ks" and "\<forall>k\<in>set ks. o_name (object w k) \<noteq> None"
  shows "find_from w arg p = Some (find (\<lambda>k. same_text arg (the (o_name (object w k)))) ks)"
  using assms
  by (induction ks arbitrary: p) (auto simp: find_from.simps next_of_def)

lemma conflict_chain:
  "chain (next_of w) p ks \<Longrightarrow>
     conflict w xy p = Some (\<exists>k\<in>set ks. fst xy = uint (o_x (object w k)) \<and> snd xy = uint (o_y (object w k)))"
  by (induction ks arbitrary: p) (auto simp: conflict.simps next_of_def)

text \<open>The place that points to an object: the start of the list, or the object before it.\<close>

definition pred_place :: "int \<Rightarrow> place \<Rightarrow> int list \<Rightarrow> place" where
  "pred_place ob p ks = (let us = takeWhile (\<lambda>k. ob \<noteq> k) ks in if us = [] then p else Next (last us))"

lemma unlink_chain:
  "chain (next_of w) (read_place p w) ks \<Longrightarrow>
     unlink ob p w = Some (if ob \<in> set ks then write_place (pred_place ob p ks) (next_of w ob) w else w)"
proof (induction ks arbitrary: p)
  case Nil
  then show ?case by (simp add: unlink.simps)
next
  case (Cons k ks)
  show ?case
  proof (cases "ob = k")
    case True
    with Cons.prems show ?thesis by (simp add: unlink.simps pred_place_def next_of_def)
  next
    case False
    have "chain (next_of w) (read_place (Next k) w) ks" using Cons.prems by (simp add: next_of_def)
    from Cons.IH [OF this] False Cons.prems show ?thesis
      by (subst unlink.simps) (simp add: pred_place_def Let_def)
  qed
qed

lemma chain_skip:
  "chain h p (us @ k # ob # vs) \<Longrightarrow> distinct (us @ k # ob # vs) \<Longrightarrow> chain (h(k := h ob)) p (us @ k # vs)"
  by (induction us arbitrary: p) auto

lemma unlink_listed:
  assumes "listed w L" and "ob \<in> set (L r)"
  shows "chain (next_of (write_place (pred_place ob (Contents r) (L r)) (next_of w ob) w))
      (r_contents (room (write_place (pred_place ob (Contents r) (L r)) (next_of w ob) w) r'))
      (if r' = r then removeAll ob (L r) else L r')"
proof -
  obtain us vs where ks: "L r = us @ ob # vs" and us: "ob \<notin> set us" by (meson assms(2) split_list_first)
  have tw: "takeWhile (\<lambda>k. ob \<noteq> k) (L r) = us"
    unfolding ks using us by (induction us) auto
  have c: "chain (next_of w) (r_contents (room w r)) (L r)" and d: "distinct (L r)"
    using assms(1) chain_distinct by (auto simp: listed_def)
  have rem: "removeAll ob (L r) = us @ vs" using d ks us by (simp add: removeAll_id)
  show ?thesis
  proof (cases us rule: rev_cases)
    case Nil
    have p: "pred_place ob (Contents r) (L r) = Contents r" unfolding pred_place_def tw by (simp add: Nil)
    have "chain (next_of w) (next_of w ob) (us @ vs)" using c ks Nil by simp
    moreover have "chain (next_of w) (r_contents (room w r')) (L r')" using assms(1) by (simp add: listed_def)
    ultimately show ?thesis unfolding p by (simp add: rem next_of_def)
  next
    case (snoc us' k)
    have p: "pred_place ob (Contents r) (L r) = Next k" unfolding pred_place_def tw by (simp add: snoc)
    have n: "next_of (write_place (Next k) (next_of w ob) w) = (next_of w)(k := next_of w ob)"
      by (auto simp: next_of_def)
    have "chain ((next_of w)(k := next_of w ob)) (r_contents (room w r)) (us @ vs)"
      using chain_skip [of "next_of w" _ us' k ob vs] c d ks snoc by simp
    moreover have kr: "loc_of w k = Some r" using assms(1) ks snoc unfolding listed_def by (metis in_set_conv_decomp append.assoc append_Cons)
    have "k \<notin> set (L r')" if "r' \<noteq> r"
      using assms(1) kr that by (auto simp: listed_def)
    then have "chain ((next_of w)(k := next_of w ob)) (r_contents (room w r')) (L r')" if "r' \<noteq> r"
      using assms(1) that by (simp add: listed_def)
    ultimately show ?thesis unfolding p n by (simp add: rem)
  qed
qed

text \<open>The three operations, as one rule each: they return, the lists change as expected, and the rest
  of the world stays.\<close>

lemma remove_object_returns [winv]:
  assumes L: "listed w L"
    and Q: "\<And>w'. listed w' (\<lambda>r. removeAll ob (L r)) \<Longrightarrow> fixed_part w' = fixed_part w
      \<Longrightarrow> loc_of w' = (loc_of w)(ob := None) \<Longrightarrow> status_msg w' = status_msg w
      \<Longrightarrow> (\<And>k. o_x (object w' k) = o_x (object w k) \<and> o_y (object w' k) = o_y (object w k)) \<Longrightarrow> Q w'"
  shows "returns (remove_object ob w) Q"
proof (cases "loc_of w ob")
  case None
  have "ob \<notin> set (L r)" for r using L None by (auto simp: listed_def)
  then have "(\<lambda>r. removeAll ob (L r)) = L" by (simp add: fun_eq_iff)
  moreover have "loc_of w = (loc_of w)(ob := None)" using None by auto
  moreover have "remove_object ob w = Some w" using None by (simp add: remove_object_def loc_of_def)
  ultimately show ?thesis using Q [of w] L by simp
next
  case (Some r)
  let ?w1 = "write_place (pred_place ob (Contents r) (L r)) (next_of w ob) w"
  let ?w2 = "set_object ob (o_loc_update (\<lambda>_. None)) ?w1"
  have mem: "ob \<in> set (L r)" using L Some by (simp add: listed_def)
  have "unlink ob (Contents r) w = Some ?w1"
    using unlink_chain [of w "Contents r" "L r" ob] L mem by (simp add: listed_def)
  then have rem: "remove_object ob w = Some ?w2" using Some by (simp add: remove_object_def loc_of_def)
  have loc1: "loc_of ?w1 = loc_of w"
    by (cases "pred_place ob (Contents r) (L r)") (auto simp: loc_of_def)
  have loc: "loc_of ?w2 = (loc_of w)(ob := None)"
    using loc1 by (auto simp: loc_of_def fun_eq_iff)
  have nxt: "next_of ?w2 = next_of ?w1" and cont: "room ?w2 = room ?w1" by (auto simp: next_of_def)
  have other: "removeAll ob (L r') = L r'" if "r' \<noteq> r" for r'
    using L Some that by (intro removeAll_id) (auto simp: listed_def)
  have chains: "chain (next_of ?w2) (r_contents (room ?w2 r')) (removeAll ob (L r'))" for r'
    using unlink_listed [OF L mem, of r'] unfolding nxt cont by (cases "r' = r") (simp_all add: other)
  have "listed ?w2 (\<lambda>r. removeAll ob (L r))"
    unfolding listed_def using chains L by (auto simp: loc listed_def)
  moreover have "status_msg ?w2 = status_msg w"
    by (cases "pred_place ob (Contents r) (L r)") (auto simp: set_object_def set_room_def)
  moreover have "o_x (object ?w2 k) = o_x (object w k) \<and> o_y (object ?w2 k) = o_y (object w k)" for k
    by (cases "pred_place ob (Contents r) (L r)") auto
  moreover have "fixed_part ?w2 = fixed_part w" by (simp add: fixed_part_set_object)
  ultimately show ?thesis unfolding rem returns_simps using loc by (intro Q)
qed

lemma insert_object_at_returns [winv]:
  assumes L: "listed w L"
    and Q: "\<And>w'. listed w' ((\<lambda>r. removeAll ob (L r))(r := ob # removeAll ob (L r))) \<Longrightarrow> fixed_part w' = fixed_part w
      \<Longrightarrow> loc_of w' = (loc_of w)(ob := Some r) \<Longrightarrow> status_msg w' = status_msg w
      \<Longrightarrow> (\<And>k. k \<noteq> ob \<Longrightarrow> o_x (object w' k) = o_x (object w k) \<and> o_y (object w' k) = o_y (object w k))
      \<Longrightarrow> o_x (object w' ob) = word_of_int x \<and> o_y (object w' ob) = word_of_int y \<Longrightarrow> Q w'"
  shows "returns (insert_object_at ob r x y w) Q"
  unfolding insert_object_at_def returns_simps
proof (rule remove_object_returns [OF L])
  fix w1
  let ?M = "\<lambda>r. removeAll ob (L r)"
  assume M: "listed w1 ?M" and w1: "fixed_part w1 = fixed_part w" "loc_of w1 = (loc_of w)(ob := None)"
    "status_msg w1 = status_msg w" "\<And>k. o_x (object w1 k) = o_x (object w k) \<and> o_y (object w1 k) = o_y (object w k)"
  let ?w2 = "set_object ob (\<lambda>t. t\<lparr>o_x := word_of_int x, o_y := word_of_int y, o_loc := Some r,
      o_next := r_contents (room w1 r)\<rparr>) w1"
  let ?w3 = "set_room r (r_contents_update (\<lambda>_. Some ob)) ?w2"
  have loc: "loc_of ?w3 = (loc_of w)(ob := Some r)" using w1(2) by (auto simp: loc_of_def fun_eq_iff)
  have nxt: "next_of ?w3 = (next_of w1)(ob := r_contents (room w1 r))" by (auto simp: next_of_def)
  have "listed ?w3 (?M(r := ob # ?M r))"
    using M unfolding listed_def loc nxt by (auto simp: w1(2) split: if_splits)
  then show "returns (let w = ?w2 in Some (set_room r (r_contents_update (\<lambda>_. Some ob)) w)) Q"
    unfolding Let_def returns_simps using w1 loc
    by (intro Q) (auto simp: fixed_part_set_room fixed_part_set_object)
qed

lemma insert_object_returns [winv]:
  assumes L: "listed w L" and "r_view (room w r) \<noteq> None" and "o_img (object w ob) \<noteq> None"
    and Q: "\<And>w'. listed w' ((\<lambda>r. removeAll ob (L r))(r := ob # removeAll ob (L r))) \<Longrightarrow> fixed_part w' = fixed_part w
      \<Longrightarrow> loc_of w' = (loc_of w)(ob := Some r) \<Longrightarrow> status_msg w' = status_msg w
      \<Longrightarrow> (\<And>k. k \<noteq> ob \<Longrightarrow> o_x (object w' k) = o_x (object w k) \<and> o_y (object w' k) = o_y (object w k)) \<Longrightarrow> Q w'"
  shows "returns (insert_object ob r w) Q"
proof -
  obtain view img where v: "r_view (room w r) = Some view" "o_img (object w ob) = Some img" using assms(2,3) by blast
  have pick: "\<exists>v n. pick m w = (v, w\<lparr>draws := n\<rparr>)" for m and w :: world
    by (auto simp: pick_def rand_def Let_def intro: exI [of _ "draws w"])
  obtain xp n where x: "pick (photo_width view - image_width img) w = (xp, w\<lparr>draws := n\<rparr>)" using pick by metis
  obtain yp n2 where y: "(if 0 \<ge> photo_height view div 4 - image_height img
      then pick (photo_height view - image_height img) (w\<lparr>draws := n\<rparr>)
      else (let (v, w) = pick (photo_height view div 4 - image_height img) (w\<lparr>draws := n\<rparr>)
            in (v + (3 * photo_height view) div 4, w))) = (yp, w\<lparr>draws := n2\<rparr>)"
  proof (cases "0 \<ge> photo_height view div 4 - image_height img")
    case True
    with pick [of "photo_height view - image_height img" "w\<lparr>draws := n\<rparr>"] that show ?thesis by auto
  next
    case False
    with pick [of "photo_height view div 4 - image_height img" "w\<lparr>draws := n\<rparr>"] that show ?thesis by auto
  qed
  have "insert_object ob r w = insert_object_at ob r xp yp (w\<lparr>draws := n2\<rparr>)"
    using v x y by (simp add: insert_object_def Let_def)
  moreover have "returns (insert_object_at ob r xp yp (w\<lparr>draws := n2\<rparr>)) Q"
    by (rule insert_object_at_returns [where L = L]) (use L Q in auto)
  ultimately show ?thesis by simp
qed

lemma move_object_to_inventory_returns [winv]:
  assumes L: "listed w L" and "r_view (room w R_INVENTORY) \<noteq> None" and "o_img (object w ob) \<noteq> None"
    and Q: "\<And>w'. listed w' ((\<lambda>r. removeAll ob (L r))(R_INVENTORY := ob # removeAll ob (L R_INVENTORY)))
      \<Longrightarrow> fixed_part w' = fixed_part w
      \<Longrightarrow> loc_of w' = (loc_of w)(ob := Some R_INVENTORY) \<Longrightarrow> status_msg w' = status_msg w \<Longrightarrow> Q w'"
  shows "returns (move_object_to_inventory ob w) Q"
proof -
  have c: "chain (next_of w) (r_contents (room w R_INVENTORY)) (L R_INVENTORY)" using L by (simp add: listed_def)
  have "returns (grid_loop ob ps w) Q" for ps
  proof (induction ps)
    case Nil
    show ?case unfolding grid_loop.simps
      by (rule insert_object_returns [where L = L]) (use assms in auto)
  next
    case (Cons p ps)
    have "returns (insert_object_at ob R_INVENTORY (fst p) (snd p) w) Q"
      by (rule insert_object_at_returns [where L = L]) (use L Q in auto)
    with Cons show ?case by (simp add: conflict_chain [OF c])
  qed
  then show ?thesis by (simp add: move_object_to_inventory_def)
qed

end
