(* ===== verification/WorldInv.thy ===== *)
theory WorldInv
  imports WorldLists
begin

text \<open>
  The invariant of the game world and its preservation by every command.  Beside the lists of the
  rooms and the tables it holds the story of the game: which places the player can only be in, and
  which objects can only have been moved, after certain accomplishments.
\<close>

section \<open>Flags\<close>

definition flags :: "world \<Rightarrow> int \<Rightarrow> bool" where
  "flags w = (\<lambda>f. player_flag_is_set f w)"

lemma flag_bit: "player_flag_is_set f w \<longleftrightarrow> bit (player_flags w (f div 32)) (nat (f mod 32))"
proof -
  have "(v AND push_bit n 1 \<noteq> 0) = bit v n" for v :: "32 word" and n
    by (simp add: bit_iff_and_push_bit_not_eq_0)
  then show ?thesis by (simp add: player_flag_is_set_def)
qed

lemma flags_set [simp]: "0 \<le> f \<Longrightarrow> f < 32 \<Longrightarrow> flags (player_set_flag f w) = (flags w)(f := True)"
proof
  fix g assume f: "0 \<le> f" "f < 32"
  have d: "f div 32 = 0" "nat (f mod 32) = nat f" using f by simp_all
  have same: "g div 32 = 0 \<and> nat (g mod 32) = nat f \<longleftrightarrow> g = f"
    using f div_mult_mod_eq [of g 32] by auto
  have f32: "nat f < 32" using f by simp
  show "flags (player_set_flag f w) g = ((flags w)(f := True)) g"
  proof (cases "g div 32 = 0")
    case True
    have "bit (push_bit (nat f) 1 :: 32 word) (nat (g mod 32)) \<longleftrightarrow> g = f"
      unfolding bit_push_bit_iff bit_1_iff using same True f32 by auto
    then show ?thesis using True d by (auto simp: flags_def flag_bit player_set_flag_def bit_or_iff)
  next
    case False
    then have "g \<noteq> f" using d by auto
    with False show ?thesis using d by (simp add: flags_def flag_bit player_set_flag_def)
  qed
qed

lemma flag_is [simp]: "player_flag_is_set f w = flags w f"
  by (simp add: flags_def)

section \<open>The tables\<close>

definition room_row :: "int \<Rightarrow> room_data_t option" where
  "room_row r = map_of (map (\<lambda>d. (rd_id d, d)) room_data) r"

definition room_rows_ok :: "(int \<Rightarrow> int list) \<Rightarrow> bool" where
  "room_rows_ok needs \<longleftrightarrow> list_all (\<lambda>d. 0 \<le> rd_id d \<and> rd_id d < 64 \<and> list_all (\<lambda>i. i = - 1 \<or> 0 < i \<and> i < 64
      \<and> list_all (\<lambda>f. f \<in> set (needs (rd_id d))) (needs i)) [rd_left d, rd_enter d, rd_right d]) room_data
     \<and> distinct (map rd_id room_data) \<and> length room_data = 64"

text \<open>The accomplishments a player must have to be in a room.\<close>

definition needs :: "int \<Rightarrow> int list" where
  "needs r = (if r = R_IN_CLEANR then [FLAG_WEARING_SUIT]
     else if r = R_WILLARD \<or> r = R_WILL_SIDE \<or> r = R_REM_PLANE \<or> r = R_COCKPIT then [FLAG_CAR_OPEN, FLAG_CAR_FIXED]
     else if R_ALLERTON \<le> r \<and> r \<le> R_SUNSINGER \<or> R_OVER_WILL \<le> r \<and> r \<le> R_REM_LAB
     then [FLAG_WEARING_SUIT, FLAG_CAR_OPEN, FLAG_CAR_FIXED]
     else [])"

lemma rows_ok: "room_rows_ok needs"
  by code_simp

section \<open>The invariant\<close>

definition may_be :: "(int \<Rightarrow> bool) \<Rightarrow> int \<Rightarrow> bool" where
  "may_be F r \<longleftrightarrow> (\<forall>f\<in>set (needs r). F f)"

text \<open>The photos and images of the game are whole, and a photo fills at least the window.\<close>

definition has_photo :: "photo_t option \<Rightarrow> bool" where
  "has_photo p = (case p of None \<Rightarrow> False | Some v \<Rightarrow> photo_ok v \<and> 320 \<le> photo_width v \<and> 182 \<le> photo_height v)"

definition has_image :: "image_t option \<Rightarrow> bool" where
  "has_image p = (case p of None \<Rightarrow> False | Some im \<Rightarrow> image_ok im)"

lemma has_there: "has_photo p \<Longrightarrow> p \<noteq> None" "has_image q \<Longrightarrow> q \<noteq> None"
  by (auto simp: has_photo_def has_image_def split: option.splits)

text \<open>Every room has its name, its photo and the links of the table, except that the backpack leads to
  the room the player came from, and the cockpit into the air once the card is installed.\<close>

definition complete :: "world \<Rightarrow> bool" where
  "complete w \<longleftrightarrow>
     (\<forall>r d. room_row r = Some d \<longrightarrow> r_name (room w r) = Some (rd_name d) \<and> has_photo (r_view (room w r))
        \<and> r_left (room w r) = link (rd_left d) \<and> r_right (room w r) = link (rd_right d)
        \<and> (r \<noteq> R_INVENTORY \<and> r \<noteq> R_COCKPIT \<longrightarrow> r_enter (room w r) = link (rd_enter d)))
     \<and> (\<forall>k. 0 \<le> k \<and> k < 20 \<longrightarrow> o_name (object w k) \<noteq> None \<and> has_image (o_img (object w k)))
     \<and> has_photo (swap_photo w SWAP_CIRCLE) \<and> has_photo (swap_photo w SWAP_CAR)"

definition in_range :: "(int \<Rightarrow> int option) \<Rightarrow> bool" where
  "in_range loc \<longleftrightarrow> (\<forall>k r. loc k = Some r \<longrightarrow> 0 \<le> k \<and> k < 20 \<and> 0 \<le> r \<and> r < 64)"

definition is_room :: "int \<Rightarrow> bool" where
  "is_room r \<longleftrightarrow> 0 \<le> r \<and> r < 64"

definition story :: "(int \<Rightarrow> int option) \<Rightarrow> (int \<Rightarrow> bool) \<Rightarrow> bool" where
  "story loc F \<longleftrightarrow>
     (loc O_BATT_EMPTY \<noteq> None \<or> loc O_BATT_FULL \<noteq> None \<or> loc O_BATT_CAR \<noteq> None \<or> F FLAG_CAR_FIXED \<longrightarrow> F FLAG_CAR_OPEN)
     \<and> (loc O_GPS_GOOD \<noteq> None \<longrightarrow> F FLAG_WEARING_SUIT)
     \<and> (loc O_MIMO_CARD \<noteq> Some R_STATUE \<longrightarrow> may_be F R_STATUE)
     \<and> (loc O_TUX \<noteq> Some R_REM_LAB \<longrightarrow> F FLAG_LURED_TUX)
     \<and> (F FLAG_LURED_TUX \<longrightarrow> may_be F R_REM_LAB)
     \<and> (loc O_BOOK_C \<noteq> None \<longrightarrow> F FLAG_HAS_EATEN)"

definition ways :: "int option \<Rightarrow> int option \<Rightarrow> (int \<Rightarrow> bool) \<Rightarrow> bool" where
  "ways backpack cockpit F \<longleftrightarrow>
     (\<forall>r. backpack = Some r \<longrightarrow> is_room r \<and> r \<noteq> R_INVENTORY \<and> may_be F r)
     \<and> (\<forall>r. cockpit = Some r \<longrightarrow> r = R_OVER_WILL \<and> may_be F r)"

definition ok_with :: "(int \<Rightarrow> bool) \<Rightarrow> world \<Rightarrow> bool" where
  "ok_with F w \<longleftrightarrow> (\<exists>L. listed w L) \<and> complete w \<and> in_range (loc_of w) \<and> story (loc_of w) F
     \<and> ways (r_enter (room w R_INVENTORY)) (r_enter (room w R_COCKPIT)) F"

definition world_ok :: "world \<Rightarrow> bool" where
  "world_ok w \<longleftrightarrow> ok_with (flags w) w"

definition player_ok :: "int \<Rightarrow> world \<Rightarrow> bool" where
  "player_ok r w \<longleftrightarrow> is_room r \<and> may_be (flags w) r \<and> (r = R_INVENTORY \<longrightarrow> r_enter (room w R_INVENTORY) \<noteq> None)"

definition world_inv :: "int \<Rightarrow> world \<Rightarrow> bool" where
  "world_inv r w \<longleftrightarrow> world_ok w \<and> player_ok r w"

text \<open>What holds of an outcome: the player is in a room again, or has won.\<close>

definition all_done :: "world \<Rightarrow> bool" where
  "all_done w \<longleftrightarrow> (\<forall>f\<in>{FLAG_HAS_EATEN, FLAG_WEARING_SUIT, FLAG_CAR_OPEN, FLAG_CAR_FIXED, FLAG_LURED_TUX}. flags w f)"

definition outcome_ok :: "tc_action_t \<times> int option \<times> world \<Rightarrow> bool" where
  "outcome_ok res = (case res of (act, where', w) \<Rightarrow> world_ok w \<and>
     (case where' of Some r \<Rightarrow> player_ok r w | None \<Rightarrow> act = TC_CHANGE_ROOM \<and> all_done w))"

section \<open>What the parts of a command keep\<close>

lemma fixed_partD:
  assumes "fixed_part w' = fixed_part w"
  shows "r_name (room w' r) = r_name (room w r)" "r_view (room w' r) = r_view (room w r)"
    "r_left (room w' r) = r_left (room w r)" "r_enter (room w' r) = r_enter (room w r)"
    "r_right (room w' r) = r_right (room w r)" "o_name (object w' k) = o_name (object w k)"
    "o_img (object w' k) = o_img (object w k)" "flags w' = flags w" "swap_photo w' = swap_photo w"
    "complete w' = complete w"
proof -
  have rooms: "(\<lambda>r. (r_name (room w' r), r_view (room w' r), r_left (room w' r), r_enter (room w' r), r_right (room w' r)))
      = (\<lambda>r. (r_name (room w r), r_view (room w r), r_left (room w r), r_enter (room w r), r_right (room w r)))"
    and objects: "(\<lambda>k. (o_name (object w' k), o_img (object w' k))) = (\<lambda>k. (o_name (object w k), o_img (object w k)))"
    and rest: "player_flags w' = player_flags w" "swap_photo w' = swap_photo w"
    using assms by (simp_all only: fixed_part_def prod.inject)
  have f: "r_name (room w' r) = r_name (room w r)" "r_view (room w' r) = r_view (room w r)"
    "r_left (room w' r) = r_left (room w r)" "r_enter (room w' r) = r_enter (room w r)"
    "r_right (room w' r) = r_right (room w r)" "o_name (object w' k) = o_name (object w k)"
    "o_img (object w' k) = o_img (object w k)" for r k
    using fun_cong [OF rooms, of r] fun_cong [OF objects, of k] by simp_all
  then show "r_name (room w' r) = r_name (room w r)" "r_view (room w' r) = r_view (room w r)"
    "r_left (room w' r) = r_left (room w r)" "r_enter (room w' r) = r_enter (room w r)"
    "r_right (room w' r) = r_right (room w r)" "o_name (object w' k) = o_name (object w k)"
    "o_img (object w' k) = o_img (object w k)" .
  show "flags w' = flags w" using rest(1) by (simp only: flags_def player_flag_is_set_def)
  show s: "swap_photo w' = swap_photo w" by (rule rest(2))
  show "complete w' = complete w" unfolding complete_def f s ..
qed

lemma room_row_dom: "is_room r \<Longrightarrow> \<exists>d. room_row r = Some d \<and> d \<in> set room_data \<and> rd_id d = r"
proof -
  assume r: "is_room r"
  have "set (map rd_id room_data) \<subseteq> {0..<64}" and d: "distinct (map rd_id room_data)" and l: "length room_data = 64"
    using rows_ok by (auto simp: room_rows_ok_def list_all_iff)
  moreover have "card (set (map rd_id room_data)) = 64" using distinct_card [OF d] l by simp
  ultimately have "set (map rd_id room_data) = {0..<64}" by (intro card_subset_eq) auto
  then have "r \<in> set (map rd_id room_data)" using r by (auto simp: is_room_def)
  then obtain e where e: "e \<in> set room_data" "rd_id e = r" by auto
  then have "room_row r = Some e" unfolding room_row_def using d
    by (intro map_of_is_SomeI) (auto simp: comp_def)
  with e show ?thesis by blast
qed

lemma photo_there: "complete w \<Longrightarrow> is_room r \<Longrightarrow> has_photo (r_view (room w r))"
  using room_row_dom unfolding complete_def by blast

lemma image_there: "complete w \<Longrightarrow> 0 \<le> k \<Longrightarrow> k < 20 \<Longrightarrow> has_image (o_img (object w k))"
  by (simp add: complete_def)

lemma view_there: "complete w \<Longrightarrow> is_room r \<Longrightarrow> r_view (room w r) \<noteq> None"
  by (rule has_there(1) [OF photo_there])

lemma img_there: "complete w \<Longrightarrow> 0 \<le> k \<Longrightarrow> k < 20 \<Longrightarrow> o_img (object w k) \<noteq> None"
  by (rule has_there(2) [OF image_there])

text \<open>The links of the table lead to places the player may be in.\<close>

lemma link_allowed:
  assumes "is_room r" and "may_be F r" and "room_row r = Some d" and "i \<in> {rd_left d, rd_enter d, rd_right d}"
    and "link i = Some r'"
  shows "is_room r' \<and> r' \<noteq> R_INVENTORY \<and> may_be F r'"
proof -
  have i: "i = r'" "i \<noteq> - 1" using assms(5) by (auto simp: link_def split: if_splits)
  have d: "d \<in> set room_data" "rd_id d = r" using room_row_dom [OF assms(1)] assms(3) by auto
  have "0 < i \<and> i < 64 \<and> (\<forall>f\<in>set (needs i). f \<in> set (needs r))"
    using rows_ok d i(2) assms(4) by (fastforce simp: room_rows_ok_def list_all_iff)
  with assms(2) i show ?thesis by (auto simp: is_room_def may_be_def)
qed

lemma may_be_mono: "may_be F r \<Longrightarrow> (\<And>f. F f \<Longrightarrow> G f) \<Longrightarrow> may_be G r"
  by (auto simp: may_be_def)

lemma in_range_upd [simp]:
  "in_range loc \<Longrightarrow> in_range (loc(k := None))"
  "in_range loc \<Longrightarrow> 0 \<le> k \<Longrightarrow> k < 20 \<Longrightarrow> is_room r \<Longrightarrow> in_range (loc(k := Some r))"
  by (auto simp: in_range_def is_room_def)

text \<open>A world in which only objects were moved: \<open>loc\<close> says where they are now.\<close>

definition moved :: "world \<Rightarrow> (int \<Rightarrow> int option) \<Rightarrow> world \<Rightarrow> bool" where
  "moved w loc w' \<longleftrightarrow> (\<exists>L. listed w' L) \<and> fixed_part w' = fixed_part w \<and> loc_of w' = loc"

lemma moved_refl: "world_ok w \<Longrightarrow> moved w (loc_of w) w"
  by (simp add: moved_def world_ok_def ok_with_def)

lemma moved_status [simp]: "moved w loc (show_status s w') = moved w loc w'"
  by (simp add: moved_def)

lemma returns_then:
  "returns m P \<Longrightarrow> (\<And>x. P x \<Longrightarrow> returns (f x) Q) \<Longrightarrow> returns (m \<bind> f) Q"
  by (auto simp: returns_iff)

lemma remove_moved: "moved w loc w' \<Longrightarrow> returns (remove_object k w') (moved w (loc(k := None)))"
  unfolding moved_def by (elim conjE exE, rule remove_object_returns, assumption) auto

lemma insert_at_moved: "moved w loc w' \<Longrightarrow> returns (insert_object_at k r x y w') (moved w (loc(k := Some r)))"
  unfolding moved_def by (elim conjE exE, rule insert_object_at_returns, assumption) auto

lemma moved_there:
  assumes "moved w loc w'" and "complete w"
  shows "is_room r \<Longrightarrow> r_view (room w' r) \<noteq> None" and "0 \<le> k \<Longrightarrow> k < 20 \<Longrightarrow> o_img (object w' k) \<noteq> None"
  using assms view_there [of w' r] img_there [of w' k] fixed_partD(10) [of w' w] by (auto simp: moved_def)

lemma insert_moved:
  assumes "moved w loc w'" and "complete w" and "is_room r" and "0 \<le> k" and "k < 20"
  shows "returns (insert_object k r w') (moved w (loc(k := Some r)))"
proof -
  obtain L where "listed w' L" using assms(1) by (auto simp: moved_def)
  then show ?thesis
    by (rule insert_object_returns) (use assms moved_there [OF assms(1,2)] in \<open>auto simp: moved_def\<close>)
qed

lemma to_inventory_moved:
  assumes "moved w loc w'" and "complete w" and "0 \<le> k" and "k < 20"
  shows "returns (move_object_to_inventory k w') (moved w (loc(k := Some R_INVENTORY)))"
proof -
  obtain L where "listed w' L" using assms(1) by (auto simp: moved_def)
  moreover have "is_room R_INVENTORY" by (simp add: is_room_def)
  ultimately show ?thesis
    by (intro move_object_to_inventory_returns) (use assms moved_there [OF assms(1,2)] in \<open>auto simp: moved_def\<close>)
qed

lemma ways_mono: "ways p c F \<Longrightarrow> (\<And>f. F f \<Longrightarrow> G f) \<Longrightarrow> ways p c G"
  unfolding ways_def using may_be_mono by blast

lemma moved_ok:
  assumes "moved w loc w'" and "world_ok w" and "in_range loc" and "story loc F" and "\<And>f. flags w f \<Longrightarrow> F f"
  shows "ok_with F w'"
proof -
  have f: "fixed_part w' = fixed_part w" and l: "loc_of w' = loc" using assms(1) by (auto simp: moved_def)
  show ?thesis
    using assms unfolding world_ok_def ok_with_def fixed_partD [OF f] l
    by (auto simp: moved_def intro: ways_mono)
qed

lemma moved_player:
  assumes "moved w loc w'" and "player_ok r w"
  shows "player_ok r w'"
proof -
  have f: "fixed_part w' = fixed_part w" using assms(1) by (auto simp: moved_def)
  show ?thesis using assms(2) unfolding player_ok_def fixed_partD [OF f] .
qed

lemma moved_flags: "moved w loc w' \<Longrightarrow> flags w' = flags w"
  unfolding moved_def using fixed_partD(8) by blast

section \<open>What the other steps keep\<close>

lemma complete_status [simp]: "complete (show_status s w) = complete w" "complete (w\<lparr>draws := n\<rparr>) = complete w"
  by (rule fixed_partD(10); simp)+

lemma flags_status [simp]: "flags (show_status s w) = flags w" "flags (w\<lparr>draws := n\<rparr>) = flags w"
  "flags (do_photo_swap r p w) = flags w" "flags (set_room r g w) = flags w"
  unfolding flags_def player_flag_is_set_def by (simp_all add: show_status_def do_photo_swap_def Let_def set_room_def)

lemma flag_step [simp]:
  "listed (player_set_flag f w) L = listed w L" "complete (player_set_flag f w) = complete w"
  "loc_of (player_set_flag f w) = loc_of w" "room (player_set_flag f w) = room w"
  by (simp_all add: player_set_flag_def listed_def next_of_def loc_of_def complete_def)

lemma room_status [simp]: "room (show_status s w) = room w" "object (show_status s w) = object w"
  "room (w\<lparr>draws := n\<rparr>) = room w"
  by (simp_all add: show_status_def)

lemma swap_step [simp]:
  "listed (do_photo_swap r p w) L = listed w L" "loc_of (do_photo_swap r p w) = loc_of w"
  "r_enter (room (do_photo_swap r p w) r') = r_enter (room w r')"
  by (auto simp: do_photo_swap_def Let_def listed_def next_of_def loc_of_def set_room_def)

lemma set_room_same [simp]: "next_of (set_room r g w) = next_of w" "loc_of (set_room r g w) = loc_of w"
  "swap_photo (set_room r g w) = swap_photo w"
  by (simp_all add: next_of_def loc_of_def set_room_def)

lemma complete_swap:
  "complete w \<Longrightarrow> is_room r \<Longrightarrow> p = SWAP_CIRCLE \<or> p = SWAP_CAR \<Longrightarrow> complete (do_photo_swap r p w)"
  using photo_there [of w r] by (auto simp: complete_def do_photo_swap_def Let_def set_room_def)

lemma ok_with_steps [simp]:
  "ok_with F (show_status s w) = ok_with F w" "ok_with F (w\<lparr>draws := n\<rparr>) = ok_with F w"
  "ok_with F (player_set_flag f w) = ok_with F w"
  by (simp_all add: ok_with_def)

lemma ok_with_swap: "ok_with F w \<Longrightarrow> is_room r \<Longrightarrow> p = SWAP_CIRCLE \<or> p = SWAP_CAR \<Longrightarrow> ok_with F (do_photo_swap r p w)"
  using complete_swap by (auto simp: ok_with_def)

lemma player_steps [simp]:
  "player_ok r (show_status s w) = player_ok r w" "player_ok r (w\<lparr>draws := n\<rparr>) = player_ok r w"
  "player_ok r (do_photo_swap q p w) = player_ok r w"
  by (simp_all add: player_ok_def)

lemma player_flag: "player_ok r w \<Longrightarrow> 0 \<le> f \<Longrightarrow> f < 32 \<Longrightarrow> player_ok r (player_set_flag f w)"
  by (auto simp: player_ok_def may_be_def)

lemma world_steps [simp]:
  "world_ok (show_status s w) = world_ok w" "world_ok (w\<lparr>draws := n\<rparr>) = world_ok w"
  "0 \<le> f \<Longrightarrow> f < 32 \<Longrightarrow> world_ok (player_set_flag f w) = ok_with ((flags w)(f := True)) w"
  by (simp_all add: world_ok_def)

lemma world_ok_swap: "world_ok w \<Longrightarrow> is_room r \<Longrightarrow> p = SWAP_CIRCLE \<or> p = SWAP_CAR \<Longrightarrow> world_ok (do_photo_swap r p w)"
  by (simp add: world_ok_def ok_with_swap)

lemma outcome_ok_Some [simp]: "outcome_ok (act, Some r, w) \<longleftrightarrow> world_ok w \<and> player_ok r w"
  by (simp add: outcome_ok_def)

lemma returns_say [simp]: "returns (say s act r w) outcome_ok \<longleftrightarrow> world_ok w \<and> player_ok r w"
  by (simp add: say_def)

lemma at_loc [simp]: "at k r w \<longleftrightarrow> loc_of w k = Some r"
  by (simp add: at_def loc_of_def)

lemma near_loc [simp]: "near k r w \<longleftrightarrow> loc_of w k = Some 0 \<or> loc_of w k = Some r"
  by (simp add: near_def)

lemma o_loc_of [simp]: "o_loc (object w k) = loc_of w k"
  by (simp add: loc_of_def)

lemma world_okD:
  assumes "world_ok w"
  shows "complete w" "in_range (loc_of w)" "story (loc_of w) (flags w)"
    "ways (r_enter (room w R_INVENTORY)) (r_enter (room w R_COCKPIT)) (flags w)"
  using assms by (auto simp: world_ok_def ok_with_def)

end
