(* ===== verification/Picture.thy ===== *)
theory Picture
  imports WorldInv
begin

text \<open>
  The two callbacks of \<open>photo.c\<close> that draw a line of the current room, its photo with the objects in
  it, and the picture they both show: \<open>picture_at\<close> says what one pixel of the room is, and either
  routine returns it for every pixel of its line.
\<close>

section \<open>The callbacks\<close>

abbreviation (input) "SCROLL_X_DIM \<equiv> 320 :: int"
abbreviation (input) "SCROLL_Y_DIM \<equiv> 182 :: int"

text \<open>The first loop of either routine: \<open>n\<close> pixels from index \<open>i\<close> on.\<close>

primrec fill_loop :: "(int \<Rightarrow> u8 option) \<Rightarrow> int \<Rightarrow> nat \<Rightarrow> u8 list option" where
  "fill_loop src i 0 = Some []"
| "fill_loop src i (Suc n) = do { v \<leftarrow> src i; vs \<leftarrow> fill_loop src (i + 1) n; Some (v # vs) }"

text \<open>The loop that copies the pixels of one object, where \<open>n\<close> is the length of the line and \<open>len\<close> the
  extent of the image along it.\<close>

function copy_pixels :: "(int \<Rightarrow> u8 option) \<Rightarrow> int \<Rightarrow> int \<Rightarrow> int \<Rightarrow> int \<Rightarrow> u8 list \<Rightarrow> u8 list option" where
  "copy_pixels src n len idx i buf =
     (if n > idx \<and> len > i then do {
        pixel \<leftarrow> src i;
        copy_pixels src n len (idx + 1) (i + 1) (if OBJ_CLR_TRANSP \<noteq> pixel then buf[nat idx := pixel] else buf) }
      else Some buf)"
  by pat_completeness auto
termination by (relation "measure (\<lambda>(src, n, len, idx, i, buf). nat (len - i))") auto

declare copy_pixels.simps [simp del]

definition draw_in_row :: "world \<Rightarrow> int \<Rightarrow> int \<Rightarrow> int \<Rightarrow> u8 list \<Rightarrow> u8 list option" where
  "draw_in_row w x y obj buf = do {
     let obj_x = uint (obj_get_x obj w);
     let obj_y = uint (obj_get_y obj w);
     img \<leftarrow> obj_image obj w;
     if y < obj_y \<or> y \<ge> obj_y + image_height img \<or> x + SCROLL_X_DIM \<le> obj_x \<or> x \<ge> obj_x + image_width img
     then Some buf
     else
       let yoff = (y - obj_y) * image_width img;
           (idx, imgx) = (if x \<le> obj_x then (obj_x - x, 0) else (0, x - obj_x))
       in copy_pixels (\<lambda>i. fetch (i_img img) (yoff + i)) SCROLL_X_DIM (image_width img) idx imgx buf }"

definition draw_in_column :: "world \<Rightarrow> int \<Rightarrow> int \<Rightarrow> int \<Rightarrow> u8 list \<Rightarrow> u8 list option" where
  "draw_in_column w x y obj buf = do {
     let obj_x = uint (obj_get_x obj w);
     let obj_y = uint (obj_get_y obj w);
     img \<leftarrow> obj_image obj w;
     if x < obj_x \<or> x \<ge> obj_x + image_width img \<or> y + SCROLL_Y_DIM \<le> obj_y \<or> y \<ge> obj_y + image_height img
     then Some buf
     else
       let xoff = x - obj_x;
           (idx, imgy) = (if y \<le> obj_y then (obj_y - y, 0) else (0, y - obj_y))
       in copy_pixels (\<lambda>i. fetch (i_img img) (xoff + image_width img * i)) SCROLL_Y_DIM (image_height img) idx imgy buf }"

text \<open>The loop over the objects of the room, for either way to draw one.\<close>

partial_function (option) draw_objects ::
  "(int \<Rightarrow> u8 list \<Rightarrow> u8 list option) \<Rightarrow> world \<Rightarrow> int option \<times> u8 list \<Rightarrow> u8 list option" where
  "draw_objects draw w p = (case fst p of
     None \<Rightarrow> Some (snd p)
   | Some obj \<Rightarrow> do { buf \<leftarrow> draw obj (snd p); draw_objects draw w (obj_next obj w, buf) })"

definition fill_horiz_buffer :: "int \<Rightarrow> world \<Rightarrow> int \<Rightarrow> int \<Rightarrow> u8 list option" where
  "fill_horiz_buffer cur_room w x y = do {
     view \<leftarrow> room_photo cur_room w;
     buf \<leftarrow> fill_loop (\<lambda>idx. if 0 \<le> x + idx \<and> photo_width view > x + idx
                          then fetch (p_img view) (photo_width view * y + x + idx) else Some 0) 0 320;
     draw_objects (draw_in_row w x y) w (room_contents_iterate cur_room w, buf) }"

definition fill_vert_buffer :: "int \<Rightarrow> world \<Rightarrow> int \<Rightarrow> int \<Rightarrow> u8 list option" where
  "fill_vert_buffer cur_room w x y = do {
     view \<leftarrow> room_photo cur_room w;
     buf \<leftarrow> fill_loop (\<lambda>idx. if 0 \<le> y + idx \<and> photo_height view > y + idx
                          then fetch (p_img view) (photo_width view * (y + idx) + x) else Some 0) 0 182;
     draw_objects (draw_in_column w x y) w (room_contents_iterate cur_room w, buf) }"

section \<open>The picture of a room\<close>

definition photo_at :: "photo_t \<Rightarrow> int \<Rightarrow> int \<Rightarrow> u8" where
  "photo_at v x y = (if 0 \<le> x \<and> x < photo_width v \<and> 0 \<le> y \<and> y < photo_height v
     then p_img v ! nat (photo_width v * y + x) else 0)"

text \<open>What an object shows at a pixel, \<open>None\<close> where it shows nothing.\<close>

definition object_at :: "world \<Rightarrow> int \<Rightarrow> int \<Rightarrow> int \<Rightarrow> u8 option" where
  "object_at w x y obj = (case o_img (object w obj) of None \<Rightarrow> None | Some img \<Rightarrow>
     let i = x - uint (o_x (object w obj)); j = y - uint (o_y (object w obj)) in
     if 0 \<le> i \<and> i < image_width img \<and> 0 \<le> j \<and> j < image_height img \<and> i_img img ! nat (image_width img * j + i) \<noteq> OBJ_CLR_TRANSP
     then Some (i_img img ! nat (image_width img * j + i)) else None)"

definition over :: "world \<Rightarrow> int \<Rightarrow> int \<Rightarrow> int \<Rightarrow> u8 \<Rightarrow> u8" where
  "over w x y obj below = (case object_at w x y obj of None \<Rightarrow> below | Some p \<Rightarrow> p)"

definition picture_at :: "world \<Rightarrow> photo_t \<Rightarrow> int list \<Rightarrow> int \<Rightarrow> int \<Rightarrow> u8" where
  "picture_at w v objs x y = fold (over w x y) objs (photo_at v x y)"

section \<open>The routines show the picture\<close>

lemma fill_loop_map: "(\<And>j. i \<le> j \<Longrightarrow> j < i + int n \<Longrightarrow> src j = Some (f j)) \<Longrightarrow>
    fill_loop src i n = Some (map (\<lambda>k. f (i + int k)) [0..<n])"
proof (induction n arbitrary: i)
  case (Suc n)
  have "fill_loop src (i + 1) n = Some (map (\<lambda>k. f (i + 1 + int k)) [0..<n])" by (rule Suc.IH) (use Suc.prems in auto)
  moreover have "map (\<lambda>k. f (i + int k)) [0..<Suc n] = f i # map (\<lambda>k. f (i + 1 + int k)) [0..<n]"
    by (subst upt_conv_Cons) (simp_all add: map_Suc_upt [symmetric] comp_def add.assoc del: upt_Suc)
  ultimately show ?case using Suc.prems [of i] by simp
qed simp

lemma copy_pixels_map:
  assumes "\<forall>j. i \<le> j \<and> j < len \<longrightarrow> src j = Some (f j)" and "0 \<le> idx" and "int (length buf) = n"
  shows "\<exists>buf'. copy_pixels src n len idx i buf = Some buf' \<and> length buf' = length buf
    \<and> (\<forall>k. k < length buf \<longrightarrow> buf' ! k =
         (let j = i + (int k - idx) in if idx \<le> int k \<and> j < len \<and> f j \<noteq> OBJ_CLR_TRANSP then f j else buf ! k))"
  using assms
proof (induction src n len idx i buf rule: copy_pixels.induct)
  case (1 src n len idx i buf)
  show ?case
  proof (cases "n > idx \<and> len > i")
    case False
    then show ?thesis using 1(4) by (auto simp: copy_pixels.simps [of src n len idx i buf] Let_def)
  next
    case True
    let ?buf = "if OBJ_CLR_TRANSP \<noteq> f i then buf[nat idx := f i] else buf"
    have src: "src i = Some (f i)" using 1(2) True by simp
    have pre: "\<forall>j. i + 1 \<le> j \<and> j < len \<longrightarrow> src j = Some (f j)" "0 \<le> idx + 1" "int (length ?buf) = n"
      using 1(2-4) by auto
    obtain buf' where b: "copy_pixels src n len (idx + 1) (i + 1) ?buf = Some buf'" "length buf' = length ?buf"
        "\<forall>k. k < length ?buf \<longrightarrow> buf' ! k = (let j = i + 1 + (int k - (idx + 1)) in
           if idx + 1 \<le> int k \<and> j < len \<and> f j \<noteq> OBJ_CLR_TRANSP then f j else ?buf ! k)"
      using 1(1) [OF True src pre] by (elim exE conjE)
    have "buf' ! k = (let j = i + (int k - idx) in if idx \<le> int k \<and> j < len \<and> f j \<noteq> OBJ_CLR_TRANSP then f j else buf ! k)"
      if "k < length buf" for k
    proof (cases "int k = idx")
      case True
      then show ?thesis using b(3) that \<open>n > idx \<and> len > i\<close> by (auto simp: Let_def)
    next
      case False
      then have "?buf ! k = buf ! k" using 1(3) by (auto simp: nth_list_update)
      moreover have "idx + 1 \<le> int k \<longleftrightarrow> idx \<le> int k" using False by auto
      ultimately show ?thesis using b(3) that by (simp add: Let_def)
    qed
    moreover have "copy_pixels src n len idx i buf = Some buf'"
      using b(1) src True by (subst copy_pixels.simps) simp
    ultimately show ?thesis using b(2) by auto
  qed
qed

lemma index_in_rows:
  assumes "0 \<le> i" "i < (w :: int)" "0 \<le> j" "j < h"
  shows "0 \<le> w * j + i" and "w * j + i < w * h"
proof -
  show "0 \<le> w * j + i" using assms by simp
  have "w * j + i < w * (j + 1)" using assms by (simp add: distrib_left)
  also have "\<dots> \<le> w * h" using assms by (intro mult_left_mono) auto
  finally show "w * j + i < w * h" .
qed

lemma image_pixel: "image_ok img \<Longrightarrow> 0 \<le> i \<Longrightarrow> i < image_width img \<Longrightarrow> 0 \<le> j \<Longrightarrow> j < image_height img \<Longrightarrow>
    fetch (i_img img) (image_width img * j + i) = Some (i_img img ! nat (image_width img * j + i))"
  using index_in_rows [of i "image_width img" j "image_height img"] by (simp add: fetch_def image_ok_def)

lemma photo_pixel_fetch: "photo_ok v \<Longrightarrow> 0 \<le> i \<Longrightarrow> i < photo_width v \<Longrightarrow> 0 \<le> j \<Longrightarrow> j < photo_height v \<Longrightarrow>
    fetch (p_img v) (photo_width v * j + i) = Some (photo_at v i j)"
  using index_in_rows [of i "photo_width v" j "photo_height v"] by (simp add: fetch_def photo_ok_def photo_at_def)


text \<open>Drawing one object changes the line as \<open>over\<close> says.\<close>

lemma draw_in_row_over:
  assumes img: "o_img (object w k) = Some img" "image_ok img" and len: "length buf = 320"
  shows "\<exists>buf'. draw_in_row w x y k buf = Some buf' \<and> length buf' = 320
    \<and> (\<forall>i. i < 320 \<longrightarrow> buf' ! i = over w (x + int i) y k (buf ! i))"
proof (cases "y < uint (o_y (object w k)) \<or> y \<ge> uint (o_y (object w k)) + image_height img
    \<or> x + 320 \<le> uint (o_x (object w k)) \<or> x \<ge> uint (o_x (object w k)) + image_width img")
  case True
  then have "draw_in_row w x y k buf = Some buf"
    using img(1) by (auto simp: draw_in_row_def obj_get_x_def obj_get_y_def obj_image_def)
  moreover have "object_at w (x + int i) y k = None" if "i < 320" for i
    using True img(1) that by (auto simp: object_at_def Let_def)
  ultimately show ?thesis using len by (simp add: over_def)
next
  case False
  let ?X = "uint (o_x (object w k))" and ?Y = "uint (o_y (object w k))" and ?w = "image_width img"
  define idx i0 where "idx = (if x \<le> ?X then ?X - x else 0)" and "i0 = (if x \<le> ?X then 0 else x - ?X)"
  let ?f = "\<lambda>i. i_img img ! nat (?w * (y - ?Y) + i)"
  have run: "draw_in_row w x y k buf = copy_pixels (\<lambda>i. fetch (i_img img) ((y - ?Y) * ?w + i)) 320 ?w idx i0 buf"
    using False img(1) by (auto simp: draw_in_row_def obj_get_x_def obj_get_y_def obj_image_def Let_def idx_def i0_def)
  have pos: "0 \<le> idx" "0 \<le> i0" "i0 - idx = x - ?X" by (auto simp: idx_def i0_def)
  have src: "\<forall>j. i0 \<le> j \<and> j < ?w \<longrightarrow> fetch (i_img img) ((y - ?Y) * ?w + j) = Some (?f j)"
    using image_pixel [OF img(2), of _ "y - ?Y"] pos(2) False by (simp add: mult.commute)
  have len': "int (length buf) = 320" using len by simp
  obtain buf' where b: "draw_in_row w x y k buf = Some buf'" "length buf' = length buf"
      "\<forall>i. i < length buf \<longrightarrow> buf' ! i = (let j = i0 + (int i - idx) in
         if idx \<le> int i \<and> j < ?w \<and> ?f j \<noteq> OBJ_CLR_TRANSP then ?f j else buf ! i)"
    unfolding run using copy_pixels_map [OF src pos(1) len'] by (elim exE conjE)
  have "buf' ! i = over w (x + int i) y k (buf ! i)" if "i < 320" for i
  proof -
    have j: "i0 + (int i - idx) = x + int i - ?X" using pos(3) by simp
    have in_row: "idx \<le> int i \<longleftrightarrow> 0 \<le> x + int i - ?X" by (auto simp: idx_def)
    have "buf' ! i = (if 0 \<le> x + int i - ?X \<and> x + int i - ?X < ?w \<and> ?f (x + int i - ?X) \<noteq> OBJ_CLR_TRANSP
        then ?f (x + int i - ?X) else buf ! i)"
      using spec [OF b(3), of i] that len unfolding Let_def unfolding j in_row by simp
    then show ?thesis using img(1) False by (simp add: over_def object_at_def Let_def)
  qed
  then show ?thesis using b(1,2) len by auto
qed

lemma draw_in_column_over:
  assumes img: "o_img (object w k) = Some img" "image_ok img" and len: "length buf = 182"
  shows "\<exists>buf'. draw_in_column w x y k buf = Some buf' \<and> length buf' = 182
    \<and> (\<forall>i. i < 182 \<longrightarrow> buf' ! i = over w x (y + int i) k (buf ! i))"
proof (cases "x < uint (o_x (object w k)) \<or> x \<ge> uint (o_x (object w k)) + image_width img
    \<or> y + 182 \<le> uint (o_y (object w k)) \<or> y \<ge> uint (o_y (object w k)) + image_height img")
  case True
  then have "draw_in_column w x y k buf = Some buf"
    using img(1) by (auto simp: draw_in_column_def obj_get_x_def obj_get_y_def obj_image_def)
  moreover have "object_at w x (y + int i) k = None" if "i < 182" for i
    using True img(1) that by (auto simp: object_at_def Let_def)
  ultimately show ?thesis using len by (simp add: over_def)
next
  case False
  let ?X = "uint (o_x (object w k))" and ?Y = "uint (o_y (object w k))" and ?w = "image_width img" and ?h = "image_height img"
  define idx i0 where "idx = (if y \<le> ?Y then ?Y - y else 0)" and "i0 = (if y \<le> ?Y then 0 else y - ?Y)"
  let ?f = "\<lambda>j. i_img img ! nat (?w * j + (x - ?X))"
  have run: "draw_in_column w x y k buf = copy_pixels (\<lambda>j. fetch (i_img img) (x - ?X + ?w * j)) 182 ?h idx i0 buf"
    using False img(1) by (auto simp: draw_in_column_def obj_get_x_def obj_get_y_def obj_image_def Let_def idx_def i0_def)
  have pos: "0 \<le> idx" "0 \<le> i0" "i0 - idx = y - ?Y" by (auto simp: idx_def i0_def)
  have src: "\<forall>j. i0 \<le> j \<and> j < ?h \<longrightarrow> fetch (i_img img) (x - ?X + ?w * j) = Some (?f j)"
    using image_pixel [OF img(2), of "x - ?X"] pos(2) False by (simp add: add.commute)
  have len': "int (length buf) = 182" using len by simp
  obtain buf' where b: "draw_in_column w x y k buf = Some buf'" "length buf' = length buf"
      "\<forall>i. i < length buf \<longrightarrow> buf' ! i = (let j = i0 + (int i - idx) in
         if idx \<le> int i \<and> j < ?h \<and> ?f j \<noteq> OBJ_CLR_TRANSP then ?f j else buf ! i)"
    unfolding run using copy_pixels_map [OF src pos(1) len'] by (elim exE conjE)
  have "buf' ! i = over w x (y + int i) k (buf ! i)" if "i < 182" for i
  proof -
    have j: "i0 + (int i - idx) = y + int i - ?Y" using pos(3) by simp
    have in_col: "idx \<le> int i \<longleftrightarrow> 0 \<le> y + int i - ?Y" by (auto simp: idx_def)
    have "buf' ! i = (if 0 \<le> y + int i - ?Y \<and> y + int i - ?Y < ?h \<and> ?f (y + int i - ?Y) \<noteq> OBJ_CLR_TRANSP
        then ?f (y + int i - ?Y) else buf ! i)"
      using spec [OF b(3), of i] that len unfolding Let_def unfolding j in_col by simp
    then show ?thesis using img(1) False by (simp add: over_def object_at_def Let_def)
  qed
  then show ?thesis using b(1,2) len by auto
qed

text \<open>The loop over the objects: later objects of the list are drawn over earlier ones.\<close>

lemma draw_objects_fold:
  assumes "chain (next_of w) p ks" and "length buf = n"
    and "\<forall>k\<in>set ks. \<forall>buf. length buf = n \<longrightarrow>
       (\<exists>buf'. draw k buf = Some buf' \<and> length buf' = n \<and> (\<forall>i. i < n \<longrightarrow> buf' ! i = g i k (buf ! i)))"
  shows "\<exists>buf'. draw_objects draw w (p, buf) = Some buf' \<and> length buf' = n
    \<and> (\<forall>i. i < n \<longrightarrow> buf' ! i = fold (g i) ks (buf ! i))"
  using assms
proof (induction ks arbitrary: p buf)
  case Nil
  then show ?case by (simp add: draw_objects.simps)
next
  case (Cons k ks)
  then have p: "p = Some k" and rest: "chain (next_of w) (next_of w k) ks" by auto
  obtain buf1 where 1: "draw k buf = Some buf1" "length buf1 = n" "\<forall>i. i < n \<longrightarrow> buf1 ! i = g i k (buf ! i)"
    using Cons.prems(2,3) by auto
  obtain buf' where 2: "draw_objects draw w (next_of w k, buf1) = Some buf'" "length buf' = n"
      "\<forall>i. i < n \<longrightarrow> buf' ! i = fold (g i) ks (buf1 ! i)"
    using Cons.IH [OF rest 1(2)] Cons.prems(3) by auto
  have "draw_objects draw w (p, buf) = Some buf'"
    unfolding draw_objects.simps [of draw w "(p, buf)"] using 1(1) 2(1) p by (simp add: obj_next_def next_of_def)
  then show ?case using 1(3) 2(2,3) by auto
qed

text \<open>The room that is shown: its photo and its objects are whole.\<close>

definition room_shows :: "int \<Rightarrow> world \<Rightarrow> photo_t \<Rightarrow> int list \<Rightarrow> bool" where
  "room_shows r w v objs \<longleftrightarrow> r_view (room w r) = Some v \<and> photo_ok v \<and> chain (next_of w) (r_contents (room w r)) objs
     \<and> (\<forall>k\<in>set objs. has_image (o_img (object w k)))"

lemma shows_image: "room_shows r w v objs \<Longrightarrow> k \<in> set objs \<Longrightarrow> \<exists>img. o_img (object w k) = Some img \<and> image_ok img"
  by (fastforce simp: room_shows_def has_image_def split: option.splits)

lemma fill_horiz_picture:
  assumes sh: "room_shows r w v objs" and y: "0 \<le> y" "y < photo_height v"
  shows "fill_horiz_buffer r w x y = Some (map (\<lambda>i. picture_at w v objs (x + int i) y) [0..<320])"
proof -
  let ?src = "\<lambda>idx. if 0 \<le> x + idx \<and> photo_width v > x + idx
    then fetch (p_img v) (photo_width v * y + x + idx) else Some 0"
  have photo: "photo_ok v" and view: "r_view (room w r) = Some v"
    and chain: "chain (next_of w) (r_contents (room w r)) objs" using sh by (simp_all add: room_shows_def)
  have "?src j = Some (photo_at v (x + j) y)" for j
    using photo_pixel_fetch [OF photo, of "x + j" y] y by (auto simp: photo_at_def add.assoc)
  then have line: "fill_loop ?src 0 320 = Some (map (\<lambda>i. photo_at v (x + int i) y) [0..<320])"
    using fill_loop_map [of 0 320 ?src "\<lambda>j. photo_at v (x + j) y"] by simp
  have draw: "\<forall>k\<in>set objs. \<forall>buf. length buf = 320 \<longrightarrow> (\<exists>buf'. draw_in_row w x y k buf = Some buf' \<and> length buf' = 320
      \<and> (\<forall>i. i < 320 \<longrightarrow> buf' ! i = over w (x + int i) y k (buf ! i)))"
    using shows_image [OF sh] draw_in_row_over by blast
  obtain buf' where b: "draw_objects (draw_in_row w x y) w (r_contents (room w r), map (\<lambda>i. photo_at v (x + int i) y) [0..<320]) = Some buf'"
      "length buf' = 320" "\<forall>i. i < 320 \<longrightarrow> buf' ! i = fold (over w (x + int i) y) objs (map (\<lambda>i. photo_at v (x + int i) y) [0..<320] ! i)"
    using draw_objects_fold [OF chain _ draw, of "map (\<lambda>i. photo_at v (x + int i) y) [0..<320]"]
    by (auto simp del: upt_Suc)
  have "buf' = map (\<lambda>i. picture_at w v objs (x + int i) y) [0..<320]"
    by (rule nth_equalityI) (use b(2,3) in \<open>simp_all add: picture_at_def del: upt_Suc\<close>)
  then show ?thesis using b(1) line view
    by (simp add: fill_horiz_buffer_def room_photo_def room_contents_iterate_def del: upt_Suc)
qed

lemma fill_vert_picture:
  assumes sh: "room_shows r w v objs" and x: "0 \<le> x" "x < photo_width v"
  shows "fill_vert_buffer r w x y = Some (map (\<lambda>i. picture_at w v objs x (y + int i)) [0..<182])"
proof -
  let ?src = "\<lambda>idx. if 0 \<le> y + idx \<and> photo_height v > y + idx
    then fetch (p_img v) (photo_width v * (y + idx) + x) else Some 0"
  have photo: "photo_ok v" and view: "r_view (room w r) = Some v"
    and chain: "chain (next_of w) (r_contents (room w r)) objs" using sh by (simp_all add: room_shows_def)
  have "?src j = Some (photo_at v x (y + j))" for j
    using photo_pixel_fetch [OF photo, of x "y + j"] x by (auto simp: photo_at_def)
  then have line: "fill_loop ?src 0 182 = Some (map (\<lambda>i. photo_at v x (y + int i)) [0..<182])"
    using fill_loop_map [of 0 182 ?src "\<lambda>j. photo_at v x (y + j)"] by simp
  have draw: "\<forall>k\<in>set objs. \<forall>buf. length buf = 182 \<longrightarrow> (\<exists>buf'. draw_in_column w x y k buf = Some buf' \<and> length buf' = 182
      \<and> (\<forall>i. i < 182 \<longrightarrow> buf' ! i = over w x (y + int i) k (buf ! i)))"
    using shows_image [OF sh] draw_in_column_over by blast
  obtain buf' where b: "draw_objects (draw_in_column w x y) w (r_contents (room w r), map (\<lambda>i. photo_at v x (y + int i)) [0..<182]) = Some buf'"
      "length buf' = 182" "\<forall>i. i < 182 \<longrightarrow> buf' ! i = fold (over w x (y + int i)) objs (map (\<lambda>i. photo_at v x (y + int i)) [0..<182] ! i)"
    using draw_objects_fold [OF chain _ draw, of "map (\<lambda>i. photo_at v x (y + int i)) [0..<182]"]
    by (auto simp del: upt_Suc)
  have "buf' = map (\<lambda>i. picture_at w v objs x (y + int i)) [0..<182]"
    by (rule nth_equalityI) (use b(2,3) in \<open>simp_all add: picture_at_def del: upt_Suc\<close>)
  then show ?thesis using b(1) line view
    by (simp add: fill_vert_buffer_def room_photo_def room_contents_iterate_def del: upt_Suc)
qed

text \<open>What the invariant of the world gives.\<close>

lemma world_shows:
  assumes "world_ok w" and "is_room r"
  obtains v objs where "room_shows r w v objs" "320 \<le> photo_width v" "182 \<le> photo_height v"
proof -
  from assms(1) obtain L where L: "listed w L" and c: "complete w" "in_range (loc_of w)"
    unfolding world_ok_def ok_with_def by blast
  obtain v where v: "r_view (room w r) = Some v" "photo_ok v" "320 \<le> photo_width v" "182 \<le> photo_height v"
    using photo_there [OF c(1) assms(2)] by (auto simp: has_photo_def split: option.splits)
  have "has_image (o_img (object w k))" if "k \<in> set (L r)" for k
  proof -
    have "loc_of w k = Some r" using L that unfolding listed_def by blast
    then show ?thesis using c(2) image_there [OF c(1)] unfolding in_range_def by blast
  qed
  then have "room_shows r w v (L r)" using L v by (simp add: room_shows_def listed_def)
  with v show ?thesis using that by blast
qed

end
