(* ===== verification/Modex.thy ===== *)
theory Modex
  imports Prelude "HOL-Library.Monad_Syntax"
begin

text \<open>
  The build buffer and the display of \<open>modex.c\<close>: the logical view window, the lines drawn into the
  four planes of the buffer, the move of the window with the copy of what stays visible, and the
  copy of the planes to video memory.

  \<open>build\<close> is the array with its two fences: an access outside it is \<open>None\<close>.  The pointer \<open>img3\<close> is
  always \<open>build + img3_off + MEM_FENCE_WIDTH\<close>.  On coordinates \<open>>> 2\<close> is \<open>div 4\<close> and \<open>& 3\<close> is
  \<open>mod 4\<close>.
\<close>

section \<open>The buffer\<close>

abbreviation (input) "SCROLL_X_DIM \<equiv> 320 :: int"
abbreviation (input) "SCROLL_Y_DIM \<equiv> 182 :: int"
abbreviation (input) "SCROLL_X_WIDTH \<equiv> 80 :: int"
abbreviation (input) "SCROLL_SIZE \<equiv> 14560 :: int"
abbreviation (input) "BUILD_BUF_SIZE \<equiv> 78241 :: int"
abbreviation (input) "BUILD_BASE_INIT \<equiv> 10000 :: int"
abbreviation (input) "MEM_FENCE_WIDTH \<equiv> 256 :: int"
abbreviation (input) "STATUS_BAR_SIZE \<equiv> 1440 :: int"

text \<open>\<open>video\<close> is the display memory by plane and address, \<open>start_address\<close> what the two registers of
  the video controller hold.\<close>

record modex =
  build :: memory
  img3_off :: int
  show_x :: int
  show_y :: int
  target_img :: "16 word"
  video :: "nat \<Rightarrow> int \<Rightarrow> u8"
  start_address :: "16 word"

definition in_build :: "int \<Rightarrow> bool" where
  "in_build a \<longleftrightarrow> 0 \<le> a \<and> a < BUILD_BUF_SIZE + 2 * MEM_FENCE_WIDTH"

definition poke :: "int \<Rightarrow> u8 \<Rightarrow> memory \<Rightarrow> memory option" where
  "poke a v b = (if in_build a then Some (b(a := v)) else None)"

definition peek :: "int \<Rightarrow> memory \<Rightarrow> u8 option" where
  "peek a b = (if in_build a then Some (b a) else None)"

definition img3 :: "modex \<Rightarrow> int" where
  "img3 m = img3_off m + MEM_FENCE_WIDTH"

text \<open>The part of \<open>set_mode_X\<close> that sets up the buffer: the window, the fences, the display page.\<close>

primrec fence_loop :: "nat \<Rightarrow> memory \<Rightarrow> memory option" where
  "fence_loop 0 b = Some b"
| "fence_loop (Suc i) b = do {
     b \<leftarrow> fence_loop i b;
     b \<leftarrow> poke (int i) 0xF3 b;
     poke (BUILD_BUF_SIZE + MEM_FENCE_WIDTH + int i) 0xF3 b }"

definition setup_buffer :: "modex \<Rightarrow> modex option" where
  "setup_buffer m = do {
     b \<leftarrow> fence_loop 256 (build m);
     Some (m\<lparr>show_x := 0, show_y := 0, img3_off := BUILD_BASE_INIT, build := b, target_img := 1440\<rparr>) }"

section \<open>Drawing lines\<close>

primrec vert_loop :: "int \<Rightarrow> u8 list \<Rightarrow> memory \<Rightarrow> memory option" where
  "vert_loop addr [] b = Some b"
| "vert_loop addr (v # vs) b = do { b \<leftarrow> poke addr v b; vert_loop (addr + SCROLL_X_WIDTH) vs b }"

text \<open>The callbacks return the line, or \<open>None\<close> when they read outside their pictures.\<close>

definition draw_vert_line :: "(int \<Rightarrow> int \<Rightarrow> u8 list option) \<Rightarrow> int \<Rightarrow> modex \<Rightarrow> (int \<times> modex) option" where
  "draw_vert_line vert_line_fn x m =
     (if x < 0 \<or> x \<ge> SCROLL_X_DIM then Some (- 1, m)
      else do {
        let x = x + show_x m;
        buf \<leftarrow> vert_line_fn x (show_y m);
        let addr = img3 m + x div 4 + show_y m * SCROLL_X_WIDTH;
        let p_off = 3 - x mod 4;
        b \<leftarrow> vert_loop (addr + p_off * SCROLL_SIZE) buf (build m);
        Some (0, m\<lparr>build := b\<rparr>) })"

primrec horiz_loop :: "int \<Rightarrow> int \<Rightarrow> u8 list \<Rightarrow> memory \<Rightarrow> memory option" where
  "horiz_loop addr p_off [] b = Some b"
| "horiz_loop addr p_off (v # vs) b = do {
     b \<leftarrow> poke (addr + p_off * SCROLL_SIZE) v b;
     if p_off - 1 < 0 then horiz_loop (addr + 1) 3 vs b else horiz_loop addr (p_off - 1) vs b }"

definition draw_horiz_line :: "(int \<Rightarrow> int \<Rightarrow> u8 list option) \<Rightarrow> int \<Rightarrow> modex \<Rightarrow> (int \<times> modex) option" where
  "draw_horiz_line horiz_line_fn y m =
     (if y < 0 \<or> y \<ge> SCROLL_Y_DIM then Some (- 1, m)
      else do {
        let y = y + show_y m;
        buf \<leftarrow> horiz_line_fn (show_x m) y;
        let addr = img3 m + show_x m div 4 + y * SCROLL_X_WIDTH;
        let p_off = 3 - show_x m mod 4;
        b \<leftarrow> horiz_loop addr p_off buf (build m);
        Some (0, m\<lparr>build := b\<rparr>) })"

section \<open>Moving the window\<close>

primrec copy_down :: "nat \<Rightarrow> int \<Rightarrow> int \<Rightarrow> memory \<Rightarrow> memory option" where
  "copy_down 0 target start b = Some b"
| "copy_down (Suc i) target start b = do {
     v \<leftarrow> peek (start + int i) b;
     b \<leftarrow> poke (target + int i) v b;
     copy_down i target start b }"

primrec copy_up :: "nat \<Rightarrow> int \<Rightarrow> int \<Rightarrow> memory \<Rightarrow> memory option" where
  "copy_up 0 target start b = Some b"
| "copy_up (Suc n) target start b = do {
     v \<leftarrow> peek start b;
     b \<leftarrow> poke target v b;
     copy_up n (target + 1) (start + 1) b }"

definition fits :: "int \<Rightarrow> int \<Rightarrow> int \<Rightarrow> bool" where
  "fits off scr_x scr_y \<longleftrightarrow> off + scr_x div 4 + scr_y * SCROLL_X_WIDTH \<ge> 0
     \<and> off + 3 * SCROLL_SIZE + (scr_x + SCROLL_X_DIM - 1) div 4 + (scr_y + SCROLL_Y_DIM - 1) * SCROLL_X_WIDTH < BUILD_BUF_SIZE"

definition set_view_window :: "int \<Rightarrow> int \<Rightarrow> modex \<Rightarrow> modex option" where
  "set_view_window scr_x scr_y m =
     (let old_x = show_x m; old_y = show_y m;
          m = m\<lparr>show_x := scr_x, show_y := scr_y\<rparr>;
          new_off = BUILD_BASE_INIT - scr_x div 4 - scr_y * SCROLL_X_WIDTH
      in if fits (img3_off m) scr_x scr_y then Some m
      else if scr_x \<le> old_x - SCROLL_X_DIM \<or> scr_x \<ge> old_x + SCROLL_X_DIM
           \<or> scr_y \<le> old_y - SCROLL_Y_DIM \<or> scr_y \<ge> old_y + SCROLL_Y_DIM
      then Some (m\<lparr>img3_off := new_off\<rparr>)
      else
        let (start_x, end_x) = (if scr_x > old_x then (scr_x, old_x) else (old_x, scr_x));
            end_x = end_x + SCROLL_X_DIM - 1;
            (start_y, end_y) = (if scr_y > old_y then (scr_y, old_y) else (old_y, scr_y));
            end_y = end_y + SCROLL_Y_DIM - 1;
            start_off = start_x div 4 + start_y * SCROLL_X_WIDTH;
            start_addr = img3 m + start_off;
            length = end_x div 4 + end_y * SCROLL_X_WIDTH + 1 - start_off + 3 * SCROLL_SIZE;
            m = m\<lparr>img3_off := new_off\<rparr>;
            target_addr = img3 m + start_off
        in do {
          b \<leftarrow> (if start_addr < target_addr then copy_down (nat length) target_addr start_addr (build m)
               else copy_up (nat length) target_addr start_addr (build m));
          Some (m\<lparr>build := b\<rparr>) })"

section \<open>Showing the window\<close>

text \<open>\<open>copy_image\<close> copies 16000 bytes into the plane that the write mask selects.  The buffer is read
  without a check here, as the string instruction does: see the lemmas below for what it reads.\<close>

definition copy_plane :: "nat \<Rightarrow> int \<Rightarrow> int \<Rightarrow> int \<Rightarrow> memory \<Rightarrow> (nat \<Rightarrow> int \<Rightarrow> u8) \<Rightarrow> nat \<Rightarrow> int \<Rightarrow> u8" where
  "copy_plane plane n img scr_addr mem v =
     v(plane := (\<lambda>a. if scr_addr \<le> a \<and> a < scr_addr + n then mem (img + (a - scr_addr)) else v plane a))"

definition copy_image :: "nat \<Rightarrow> int \<Rightarrow> 16 word \<Rightarrow> modex \<Rightarrow> modex" where
  "copy_image plane img scr_addr m = m\<lparr>video := copy_plane plane 16000 img (uint scr_addr) (build m) (video m)\<rparr>"

definition plane_source :: "modex \<Rightarrow> int \<Rightarrow> int" where
  "plane_source m i =
     (let p_off = 3 - show_x m mod 4; addr = img3 m + show_x m div 4 + show_y m * SCROLL_X_WIDTH
      in addr + (p_off - i + 4) mod 4 * SCROLL_SIZE + of_bool (p_off < i))"

definition show_screen :: "modex \<Rightarrow> modex" where
  "show_screen m =
     (let m = m\<lparr>target_img := target_img m XOR 0x4000\<rparr>;
          m = fold (\<lambda>i m. copy_image i (plane_source m (int i)) (target_img m) m) [0, 1, 2, 3] m
      in m\<lparr>start_address := target_img m\<rparr>)"

definition copy_status_bar_image :: "nat \<Rightarrow> int \<Rightarrow> (int \<Rightarrow> u8) \<Rightarrow> modex \<Rightarrow> modex" where
  "copy_status_bar_image plane img buff m = m\<lparr>video := copy_plane plane 1440 img 0 buff (video m)\<rparr>"

definition add_status_bar_to_screen :: "(int \<Rightarrow> u8) \<Rightarrow> modex \<Rightarrow> modex" where
  "add_status_bar_to_screen buff m =
     fold (\<lambda>i m. copy_status_bar_image i (int i * STATUS_BAR_SIZE) buff m) [0, 1, 2, 3] m"

definition clear_screens :: "modex \<Rightarrow> modex" where
  "clear_screens m = m\<lparr>video := (\<lambda>plane a. if plane < 4 \<and> 0 \<le> a \<and> a < 65536 then 0 else video m plane a)\<rparr>"

end
