(* ===== verification/Input.thy ===== *)
theory Input
  imports Prelude
begin

text \<open>
  The input control of the game, \<open>input.c\<close>: the text being typed, the automaton that turns the
  characters of the keyboard into commands, the buttons of the Tux controller, and the time on its
  displays.  The characters that \<open>getc\<close> has ready are a list; the end of the list is \<open>EOF\<close>.
\<close>

section \<open>Typing\<close>

datatype cmd_t = CMD_NONE | CMD_RIGHT | CMD_LEFT | CMD_UP | CMD_DOWN | CMD_MOVE_LEFT | CMD_ENTER
  | CMD_MOVE_RIGHT | CMD_TYPED | CMD_QUIT

abbreviation (input) "MAX_TYPED_LEN \<equiv> 20 :: nat"

definition valid_typing :: "nat \<Rightarrow> bool" where
  "valid_typing c \<longleftrightarrow> (65 \<le> c \<and> c \<le> 90) \<or> (97 \<le> c \<and> c \<le> 122) \<or> (48 \<le> c \<and> c \<le> 57) \<or> c = 32 \<or> c = 8 \<or> c = 127"

definition typed_a_char :: "nat \<Rightarrow> string \<Rightarrow> string" where
  "typed_a_char c typing =
     (let len = length typing in
      if c = 8 \<or> c = 127 then (if 0 < len then take (len - 1) typing else typing)
      else if MAX_TYPED_LEN > len then typing @ [char_of c] else typing)"

section \<open>The keyboard\<close>

text \<open>The automaton for the arrow keys, the text, and the command pushed so far.\<close>

record kb =
  state :: nat
  typing :: string
  pushed :: cmd_t

text \<open>What every state does with a character that does not continue an escape sequence.\<close>

definition plain :: "nat \<Rightarrow> kb \<Rightarrow> kb" where
  "plain ch k =
     (if valid_typing ch then k\<lparr>typing := typed_a_char ch (typing k)\<rparr>
      else if 10 = ch \<or> 13 = ch then k\<lparr>pushed := CMD_TYPED\<rparr> else k)"

definition kb_char :: "nat \<Rightarrow> kb \<Rightarrow> kb" where
  "kb_char ch k =
     (if state k = 0 then (if 27 = ch then k\<lparr>state := 1\<rparr> else plain ch k)
      else if state k = 1 then (if 91 = ch then k\<lparr>state := 2\<rparr> else plain ch (k\<lparr>state := 0\<rparr>))
      else if state k = 2 then
        (if 65 \<le> ch \<and> ch \<le> 68 then
           k\<lparr>pushed := (if ch = 65 then CMD_UP else if ch = 66 then CMD_DOWN else if ch = 67 then CMD_RIGHT else CMD_LEFT),
             state := 0\<rparr>
         else if ch = 49 \<or> ch = 50 \<or> ch = 53 then
           k\<lparr>pushed := (if ch = 50 then CMD_MOVE_LEFT else if ch = 49 then CMD_ENTER else CMD_MOVE_RIGHT), state := 3\<rparr>
         else plain ch (k\<lparr>state := 0\<rparr>))
      else if state k = 3 then (if 126 = ch then k\<lparr>state := 0\<rparr> else plain ch (k\<lparr>state := 0\<rparr>))
      else k)"

text \<open>\<open>get_kb_cmd\<close> on the characters at hand: a backquote returns at once and leaves the rest.  The
  result is the command, the characters not read, and the two static variables.\<close>

fun kb_loop :: "nat list \<Rightarrow> kb \<Rightarrow> cmd_t \<times> nat list \<times> kb" where
  "kb_loop [] k = (pushed k, [], k)"
| "kb_loop (ch # chars) k = (if ch = 96 then (CMD_QUIT, chars, k) else kb_loop chars (kb_char ch k))"

definition get_kb_cmd :: "nat list \<Rightarrow> kb \<Rightarrow> cmd_t \<times> nat list \<times> kb" where
  "get_kb_cmd chars k = kb_loop chars (k\<lparr>pushed := CMD_NONE\<rparr>)"

section \<open>The Tux controller\<close>

text \<open>\<open>tux_input\<close> is what the request \<open>TUX_BUTTONS\<close> leaves in the variable; the result is the command
  and the new \<open>curr_btns\<close>.\<close>

abbreviation (input) "BTN_C \<equiv> 4 :: nat"
abbreviation (input) "BTN_B \<equiv> 5 :: nat"
abbreviation (input) "BTN_A \<equiv> 6 :: nat"

definition get_tux_cmd :: "32 word \<Rightarrow> 32 word list \<Rightarrow> cmd_t \<times> 32 word list" where
  "get_tux_cmd tux_input curr_btns =
     (let prev_btns = curr_btns;
          curr_btns = fold (\<lambda>i b. b[8 - 1 - i := drop_bit i tux_input AND 1]) [0, 1, 2, 3, 4, 5, 6, 7] curr_btns
      in (if tux_input = 0x7F then CMD_RIGHT
          else if tux_input = 0xBF then CMD_LEFT
          else if tux_input = 0xDF then CMD_DOWN
          else if tux_input = 0xEF then CMD_UP
          else if tux_input = 0xF7 then (if prev_btns ! BTN_C = 0 then CMD_NONE else CMD_MOVE_RIGHT)
          else if tux_input = 0xFB then (if prev_btns ! BTN_B = 0 then CMD_NONE else CMD_ENTER)
          else if tux_input = 0xFD then (if prev_btns ! BTN_A = 0 then CMD_NONE else CMD_MOVE_LEFT)
          else CMD_NONE, curr_btns))"

text \<open>The argument of the request \<open>TUX_SET_LED\<close> that shows the time.  \<open>num_seconds\<close> is not negative.\<close>

definition display_time_on_tux :: "int \<Rightarrow> 32 word" where
  "display_time_on_tux num_seconds =
     (let secs = num_seconds mod 60;
          mins = num_seconds div 60;
          mins = (if mins > 160 - 1 then mins - 160 else mins);
          byte4 = push_bit 24 (0x4 :: 32 word);
          byte3 = (if mins div 10 > 0 then push_bit 16 0xf else push_bit 16 0x7);
          nibble3 = push_bit 12 (word_of_int (mins div 10));
          nibble2 = push_bit 8 (word_of_int (mins mod 10));
          nibble1 = push_bit 4 (word_of_int (secs div 10));
          nibble0 = word_of_int (secs mod 10)
      in byte4 OR byte3 OR nibble3 OR nibble2 OR nibble1 OR nibble0)"

section \<open>What the automaton recognises\<close>

lemma typed_length: "length s \<le> MAX_TYPED_LEN \<Longrightarrow> length (typed_a_char c s) \<le> MAX_TYPED_LEN"
  by (auto simp: typed_a_char_def Let_def)

text \<open>Only letters, digits and spaces get into the text.\<close>

definition typed_ok :: "string \<Rightarrow> bool" where
  "typed_ok s \<longleftrightarrow> length s \<le> MAX_TYPED_LEN \<and> (\<forall>c\<in>set s. valid_typing (of_char c) \<and> of_char c \<noteq> (8 :: nat) \<and> of_char c \<noteq> (127 :: nat))"

lemma valid_small: "valid_typing c \<Longrightarrow> c < 128"
  by (auto simp: valid_typing_def)

lemma typed_ok_char: "typed_ok s \<Longrightarrow> valid_typing c \<Longrightarrow> typed_ok (typed_a_char c s)"
  using valid_small [of c]
  by (auto simp: typed_ok_def typed_a_char_def Let_def of_char_of dest: in_set_takeD)

lemma plain_ok: "typed_ok (typing k) \<Longrightarrow> typed_ok (typing (plain c k)) \<and> state (plain c k) = state k
    \<and> (pushed k \<noteq> CMD_QUIT \<longrightarrow> pushed (plain c k) \<noteq> CMD_QUIT)"
  by (simp add: plain_def typed_ok_char)

lemma kb_char_ok: "typed_ok (typing k) \<Longrightarrow> state k \<le> 3 \<Longrightarrow> typed_ok (typing (kb_char c k)) \<and> state (kb_char c k) \<le> 3
    \<and> (pushed k \<noteq> CMD_QUIT \<longrightarrow> pushed (kb_char c k) \<noteq> CMD_QUIT)"
  using plain_ok [of k c] plain_ok [of "k\<lparr>state := 0\<rparr>" c] by (auto simp: kb_char_def)

lemma kb_loop_ok: "typed_ok (typing k) \<Longrightarrow> state k \<le> 3 \<Longrightarrow> pushed k \<noteq> CMD_QUIT \<Longrightarrow> kb_loop chars k = (c, rest, k') \<Longrightarrow>
    typed_ok (typing k') \<and> state k' \<le> 3 \<and> (c = CMD_QUIT \<longleftrightarrow> 96 \<in> set chars)"
proof (induction chars k rule: kb_loop.induct)
  case (2 ch chars k)
  then show ?case using kb_char_ok [OF 2(2,3), of ch] by (auto split: if_splits)
qed auto

lemma kb_loop_append:
  "96 \<notin> set xs \<Longrightarrow> kb_loop (xs @ ys) k = kb_loop ys (fold kb_char xs k)"
  by (induction xs arbitrary: k) auto

text \<open>What a key sends, and what it means from the resting state of the automaton, without the code's
  own tests and edits: the text is a line of at most 20 characters with a backspace.\<close>

definition typing_codes :: "nat set" where
  "typing_codes = {32} \<union> {48..57} \<union> {65..90} \<union> {97..122} \<union> {8, 127}"

lemma typing_codes_iff [simp]: "c \<in> typing_codes \<longleftrightarrow> valid_typing c"
  by (auto simp: typing_codes_def valid_typing_def)

definition edit_text :: "nat \<Rightarrow> string \<Rightarrow> string" where
  "edit_text c s = (if c \<in> {8, 127} then butlast s else if length s < 20 then s @ [char_of c] else s)"

lemma typed_edits: "typed_a_char c s = edit_text c s"
  by (auto simp: typed_a_char_def edit_text_def Let_def butlast_conv_take)

datatype key = Key_char nat | Key_return | Key_arrow cmd_t | Key_page cmd_t

fun key_ok :: "key \<Rightarrow> bool" where
  "key_ok (Key_char c) = (c \<in> typing_codes)"
| "key_ok Key_return = True"
| "key_ok (Key_arrow c) = (c \<in> {CMD_UP, CMD_DOWN, CMD_RIGHT, CMD_LEFT})"
| "key_ok (Key_page c) = (c \<in> {CMD_MOVE_LEFT, CMD_ENTER, CMD_MOVE_RIGHT})"

fun key_bytes :: "key \<Rightarrow> nat list" where
  "key_bytes (Key_char c) = [c]"
| "key_bytes Key_return = [10]"
| "key_bytes (Key_arrow c) = [27, 91, if c = CMD_UP then 65 else if c = CMD_DOWN then 66 else if c = CMD_RIGHT then 67 else 68]"
| "key_bytes (Key_page c) = [27, 91, if c = CMD_MOVE_LEFT then 50 else if c = CMD_ENTER then 49 else 53, 126]"

fun text_after :: "key \<Rightarrow> string \<Rightarrow> string" where
  "text_after (Key_char c) s = edit_text c s"
| "text_after _ s = s"

fun key_command :: "key \<Rightarrow> cmd_t option" where
  "key_command (Key_char c) = None"
| "key_command Key_return = Some CMD_TYPED"
| "key_command (Key_arrow c) = Some c"
| "key_command (Key_page c) = Some c"

fun key_effect :: "key \<Rightarrow> cmd_t \<times> string \<Rightarrow> cmd_t \<times> string" where
  "key_effect (Key_char c) (p, s) = (p, edit_text c s)"
| "key_effect Key_return (p, s) = (CMD_TYPED, s)"
| "key_effect (Key_arrow c) (p, s) = (c, s)"
| "key_effect (Key_page c) (p, s) = (c, s)"

text \<open>The command of several keys is that of the last one that gives one.\<close>

lemma fold_key_effect:
  "fold key_effect ks (p, s) = (last (p # List.map_filter key_command ks), fold text_after ks s)"
proof (induction ks arbitrary: p s)
  case (Cons key ks)
  then show ?case by (cases key) (simp_all add: List.map_filter_simps)
qed (simp add: List.map_filter_simps)

lemma key_bytes_effect:
  assumes "key_ok key" and "state k = 0"
  shows "fold kb_char (key_bytes key) k = k\<lparr>pushed := fst (key_effect key (pushed k, typing k)),
      typing := snd (key_effect key (pushed k, typing k))\<rparr>"
    and "96 \<notin> set (key_bytes key)"
proof -
  have out: "key_ok (Key_char c) \<Longrightarrow> c \<noteq> 27 \<and> c \<noteq> 96" for c by (auto simp: valid_typing_def)
  show "fold kb_char (key_bytes key) k = k\<lparr>pushed := fst (key_effect key (pushed k, typing k)),
      typing := snd (key_effect key (pushed k, typing k))\<rparr>"
  proof (cases key)
    case (Key_char c)
    then show ?thesis using assms out [of c] by (simp add: kb_char_def plain_def typed_edits)
  next
    case Key_return
    then show ?thesis using assms by (simp add: kb_char_def plain_def valid_typing_def)
  next
    case (Key_arrow c)
    then show ?thesis using assms by (auto simp: kb_char_def)
  next
    case (Key_page c)
    then show ?thesis using assms by (auto simp: kb_char_def)
  qed
  show "96 \<notin> set (key_bytes key)" using assms(1) out by (cases key) auto
qed

lemma keys_effect:
  assumes "\<forall>key\<in>set keys. key_ok key" and "state k = 0"
  shows "fold kb_char (concat (map key_bytes keys)) k =
      k\<lparr>pushed := fst (fold key_effect keys (pushed k, typing k)), typing := snd (fold key_effect keys (pushed k, typing k))\<rparr>
    \<and> 96 \<notin> set (concat (map key_bytes keys))"
  using assms
proof (induction keys arbitrary: k)
  case (Cons key keys)
  let ?k = "k\<lparr>pushed := fst (key_effect key (pushed k, typing k)), typing := snd (key_effect key (pushed k, typing k))\<rparr>"
  have "fold kb_char (key_bytes key) k = ?k" "96 \<notin> set (key_bytes key)" using key_bytes_effect Cons.prems by auto
  then show ?case using Cons.IH [of ?k] Cons.prems by simp
qed simp

section \<open>The time on the displays\<close>

text \<open>The digit that the driver shows on display \<open>i\<close>, and whether it lights it.\<close>

definition shown_digit :: "32 word \<Rightarrow> nat \<Rightarrow> nat" where
  "shown_digit arg i = unat (drop_bit (4 * i) arg AND 0xF)"

definition shown_on :: "32 word \<Rightarrow> nat \<Rightarrow> bool" where
  "shown_on arg i = bit arg (16 + i)"

definition shown_points :: "32 word \<Rightarrow> nat" where
  "shown_points arg = unat (drop_bit 24 arg AND 0xF)"

text \<open>The argument is a pattern of nibbles.\<close>

definition led_arg :: "32 word \<Rightarrow> 32 word \<Rightarrow> 32 word \<Rightarrow> 32 word \<Rightarrow> 32 word \<Rightarrow> 32 word" where
  "led_arg on d3 d2 d1 d0 = push_bit 24 0x4 OR push_bit 16 (take_bit 4 on) OR push_bit 12 (take_bit 4 d3)
     OR push_bit 8 (take_bit 4 d2) OR push_bit 4 (take_bit 4 d1) OR take_bit 4 d0"

lemma and_nibble: "(v :: 32 word) AND 0xF = take_bit 4 v"
  by (simp add: take_bit_eq_mask mask_eq_exp_minus_1)

lemma four: "bit (4 :: 32 word) m \<longleftrightarrow> m = 2"
  using bit_exp_iff [where 'a = "32 word", of 2 m] by auto

lemma led_arg_digit:
  assumes "i < 4"
  shows "drop_bit (4 * i) (led_arg on d3 d2 d1 d0) AND 0xF = take_bit 4 ([d0, d1, d2, d3] ! i)"
proof -
  have i: "i = 0 \<or> i = 1 \<or> i = 2 \<or> i = 3" using assms by auto
  show ?thesis
  proof (rule bit_word_eqI)
    fix n :: nat assume "n < LENGTH(32)"
    show "bit (drop_bit (4 * i) (led_arg on d3 d2 d1 d0) AND 0xF) n = bit (take_bit 4 ([d0, d1, d2, d3] ! i)) n"
    proof (cases "n < 4")
      case True
      then have "n = 0 \<or> n = 1 \<or> n = 2 \<or> n = 3" by auto
      then show ?thesis unfolding and_nibble led_arg_def using i
        by (elim disjE) (simp_all add: bit_take_bit_iff bit_drop_bit_eq bit_or_iff bit_push_bit_iff four)
    next
      case False
      then show ?thesis unfolding and_nibble by (simp add: bit_take_bit_iff)
    qed
  qed
qed

lemma led_arg_on:
  assumes "i < 4"
  shows "bit (led_arg on d3 d2 d1 d0) (16 + i) = bit on i"
proof -
  have i: "i = 0 \<or> i = 1 \<or> i = 2 \<or> i = 3" using assms by auto
  show ?thesis unfolding led_arg_def using i
    by (elim disjE) (simp_all add: bit_take_bit_iff bit_or_iff bit_push_bit_iff four)
qed

lemma take_small: "0 \<le> (i :: int) \<Longrightarrow> i < 16 \<Longrightarrow> take_bit 4 (word_of_int i :: 32 word) = word_of_int i \<and> unat (word_of_int i :: 32 word) = nat i"
  by (simp add: take_bit_of_int unsigned_of_int take_bit_int_eq_self)

lemma display_is_led_arg:
  assumes "0 \<le> n" and "n < 19200"
  defines "m \<equiv> n div 60 mod 160"
  shows "display_time_on_tux n = led_arg (if m div 10 > 0 then 0xf else 0x7) (word_of_int (m div 10)) (word_of_int (m mod 10))
      (word_of_int (n mod 60 div 10)) (word_of_int (n mod 60 mod 10))"
    and "0 \<le> m div 10" "m div 10 < 16" "0 \<le> n mod 60 div 10" "n mod 60 div 10 < 6"
proof -
  have q: "0 \<le> n div 60" "n div 60 < 320"
    using assms(1) div_mult_mod_eq [of n 60] pos_mod_sign [of 60 n] assms(2) by (simp_all add: pos_imp_zdiv_nonneg_iff)
  have mins: "(if n div 60 > 160 - 1 then n div 60 - 160 else n div 60) = m"
  proof (cases "n div 60 > 160 - 1")
    case True
    then show ?thesis using q int_mod_pos_eq [of "n div 60" 160 1 "n div 60 - 160"] by (simp add: m_def)
  next
    case False
    then show ?thesis using q by (simp add: m_def)
  qed
  have "0 \<le> m" "m < 160" by (simp_all add: m_def)
  then show b: "0 \<le> m div 10" "m div 10 < 16"
    using div_mult_mod_eq [of m 10] pos_mod_sign [of 10 m] by (simp_all add: pos_imp_zdiv_nonneg_iff)
  have "0 \<le> n mod 60" "n mod 60 < 60" by simp_all
  then show s: "0 \<le> n mod 60 div 10" "n mod 60 div 10 < 6"
    using div_mult_mod_eq [of "n mod 60" 10] pos_mod_sign [of 10 "n mod 60"] by (simp_all add: pos_imp_zdiv_nonneg_iff)
  have s': "0 \<le> n mod 60 mod 10" "n mod 60 mod 10 < 10" "0 \<le> m mod 10" "m mod 10 < 10" by simp_all
  have small: "take_bit 4 (word_of_int i :: 32 word) = word_of_int i" if "0 \<le> i" "i < 16" for i
    using take_small [OF that] by simp
  have t: "take_bit 4 (word_of_int (m div 10) :: 32 word) = word_of_int (m div 10)"
      "take_bit 4 (word_of_int (m mod 10) :: 32 word) = word_of_int (m mod 10)"
      "take_bit 4 (word_of_int (n mod 60 div 10) :: 32 word) = word_of_int (n mod 60 div 10)"
      "take_bit 4 (word_of_int (n mod 60 mod 10) :: 32 word) = word_of_int (n mod 60 mod 10)"
    by (rule small [OF b], rule small [OF s'(3)], use s'(4) in linarith, rule small [OF s(1)], use s(2) in linarith,
        rule small [OF s'(1)], use s'(2) in linarith)
  have on: "(if 0 < m div 10 then push_bit 16 0xf else push_bit 16 0x7)
      = push_bit 16 (take_bit 4 (if 0 < m div 10 then 0xf else 0x7 :: 32 word))"
    by (cases "0 < m div 10") simp_all
  show "display_time_on_tux n = led_arg (if m div 10 > 0 then 0xf else 0x7) (word_of_int (m div 10)) (word_of_int (m mod 10))
      (word_of_int (n mod 60 div 10)) (word_of_int (n mod 60 mod 10))"
    unfolding display_time_on_tux_def Let_def mins led_arg_def t on by (rule refl)
qed

end
