(* ===== verification/StatusBar.thy ===== *)
theory StatusBar
  imports Font "HOL-Library.Monad_Syntax"
begin

unbundle bit_operations_syntax

text \<open>
  The status bar, \<open>create_status_bar\<close> of \<open>text.c\<close>: a buffer of four planes of 18 lines of 80 bytes, in
  which a status message is drawn in the middle, or else the name of the room on the left and the
  text being typed on the right.  The lemmas say which pixel is lit.
\<close>

section \<open>The code\<close>

abbreviation (input) "BUFF_SIZE \<equiv> 5760 :: nat"
abbreviation (input) "BACKGROUND_COLOR \<equiv> 0 :: u8"
abbreviation (input) "FONT_COLOR \<equiv> 63 :: u8"
abbreviation (input) "MAX_CHARACTERS \<equiv> 40 :: nat"

text \<open>\<open>(int) c\<close> of a signed \<open>char\<close>.\<close>

definition int_of_char :: "char \<Rightarrow> int" where
  "int_of_char c = (if of_char c < (128 :: int) then of_char c else of_char c - 256)"

text \<open>\<open>strcpy\<close> into the 40 bytes of \<open>printThis\<close>.\<close>

definition print_copy :: "string \<Rightarrow> string option" where
  "print_copy s = (if length s < 40 then Some s else None)"

text \<open>Part 1 of the loop: the character at place \<open>k\<close>, or \<open>None\<close> for \<open>break\<close>.  The lengths are unsigned;
  the index one past the typed text is its NUL.\<close>

definition my_char :: "string \<Rightarrow> bool \<Rightarrow> string \<Rightarrow> nat \<Rightarrow> int option" where
  "my_char print_this printing_status typed k =
     (let start = u32 (u32 (40 - int (length typed)) - 1) in
      if k < length print_this then Some (int_of_char (print_this ! k))
      else if \<not> printing_status then
        (if int k \<ge> start \<and> length typed \<noteq> 0 then
           Some (let i = int k - start in if i < int (length typed) then int_of_char (typed ! nat i) else 0)
         else if k = MAX_CHARACTERS - 1 \<and> length typed = 0 then Some 95
         else Some 32)
      else None)"

text \<open>Part 2: the pixels of one line of a character, from the left.\<close>

function mask_loop :: "int \<Rightarrow> int \<Rightarrow> int \<Rightarrow> nat \<Rightarrow> int \<Rightarrow> int \<Rightarrow> u8 list \<Rightarrow> u8 list option" where
  "mask_loop line m col row offset k buff =
     (if m > 0 then do {
        buff \<leftarrow> (if line AND m = m
                then store buff (80 * (1 + 18 * (col mod 4) + int row) + (col + offset) div 4 + 2 * k) FONT_COLOR
                else Some buff);
        mask_loop line (m div 2) (col + 1) row offset k buff }
      else Some buff)"
  by pat_completeness auto
termination by (relation "measure (\<lambda>(line, m, col, row, offset, k, buff). nat m)") auto

declare mask_loop.simps [simp del]

primrec char_rows :: "u8 list \<Rightarrow> nat list \<Rightarrow> int \<Rightarrow> int \<Rightarrow> u8 list \<Rightarrow> u8 list option" where
  "char_rows glyph [] offset k buff = Some buff"
| "char_rows glyph (row # rows) offset k buff = do {
     line \<leftarrow> fetch glyph (int row);
     buff \<leftarrow> mask_loop (uint line) 0x80 0 row offset k buff;
     char_rows glyph rows offset k buff }"

primrec char_loop :: "(nat \<Rightarrow> int option) \<Rightarrow> int \<Rightarrow> nat list \<Rightarrow> u8 list \<Rightarrow> u8 list option" where
  "char_loop chars offset [] buff = Some buff"
| "char_loop chars offset (k # ks) buff = (case chars k of
     None \<Rightarrow> Some buff
   | Some c \<Rightarrow> do {
       glyph \<leftarrow> fetch font_data c;
       buff \<leftarrow> char_rows glyph [0..<16] offset (int k) buff;
       char_loop chars offset ks buff })"

definition create_status_bar :: "string \<Rightarrow> string \<Rightarrow> string \<Rightarrow> u8 list option" where
  "create_status_bar status_message room typed_input = do {
     let buff = replicate BUFF_SIZE BACKGROUND_COLOR;
     (print_this, offset, printing_status) \<leftarrow>
       (if status_message \<noteq> [] then do {
          p \<leftarrow> print_copy status_message;
          Some (p, u32 (320 - int (length status_message) * 8) div 2, True) }
        else do { p \<leftarrow> print_copy room; Some (p, 0, False) });
     char_loop (my_char print_this printing_status typed_input) offset [0..<MAX_CHARACTERS] buff }"

section \<open>The pixels of the bar\<close>

text \<open>Where the bar keeps its pixel \<open>(x, y)\<close>.\<close>

definition bar_index :: "int \<Rightarrow> int \<Rightarrow> int" where
  "bar_index x y = (x mod 4) * 1440 + y * 80 + x div 4"

definition glyph_bit :: "int \<Rightarrow> int \<Rightarrow> int \<Rightarrow> bool" where
  "glyph_bit c x y = bit (font_data ! nat c ! nat y) (nat (7 - x))"

text \<open>The characters drawn, from place \<open>k\<close> on: those up to the first \<open>None\<close>.\<close>

definition drawn :: "(nat \<Rightarrow> int option) \<Rightarrow> nat \<Rightarrow> int option" where
  "drawn chars k = (if \<forall>j\<le>k. chars j \<noteq> None then chars k else None)"

definition lit :: "(nat \<Rightarrow> int option) \<Rightarrow> int \<Rightarrow> int \<Rightarrow> int \<Rightarrow> bool" where
  "lit chars offset x y \<longleftrightarrow> 1 \<le> y \<and> y \<le> 16 \<and> offset \<le> x \<and>
     (case drawn chars (nat ((x - offset) div 8)) of None \<Rightarrow> False
      | Some c \<Rightarrow> (x - offset) div 8 < 40 \<and> glyph_bit c ((x - offset) mod 8) (y - 1))"

lemma font_rows: "length font_data = 256" "c < 256 \<Longrightarrow> length (font_data ! c) = 16"
proof -
  have f: "length font_data = 256 \<and> list_all (\<lambda>g. length g = 16) font_data" by code_simp
  then show "length font_data = 256" by simp
  then show "c < 256 \<Longrightarrow> length (font_data ! c) = 16" using f by (simp add: list_all_iff)
qed

text \<open>A routine that only sets the colour of the font at some places of the buffer.\<close>

definition paints :: "(u8 list \<Rightarrow> u8 list option) \<Rightarrow> int set \<Rightarrow> bool" where
  "paints f S \<longleftrightarrow> (\<forall>buff. length buff = 5760 \<longrightarrow> (\<exists>buff'. f buff = Some buff' \<and> length buff' = 5760
     \<and> (\<forall>i < 5760. buff' ! i = (if int i \<in> S then FONT_COLOR else buff ! i))))"

lemma paints_none: "paints Some {}"
  by (simp add: paints_def)

lemma paints_store: "0 \<le> a \<Longrightarrow> a < 5760 \<Longrightarrow> paints (\<lambda>b. store b a FONT_COLOR) {a}"
  by (auto simp: paints_def store_def nth_list_update)

lemma paints_seq:
  assumes "paints f S" and "paints g T"
  shows "paints (\<lambda>b. f b \<bind> g) (S \<union> T)"
  unfolding paints_def
proof (intro allI impI)
  fix b :: "u8 list" assume "length b = 5760"
  then obtain b1 where 1: "f b = Some b1" "length b1 = 5760" "\<forall>i < 5760. b1 ! i = (if int i \<in> S then FONT_COLOR else b ! i)"
    using assms(1) unfolding paints_def by blast
  then obtain b2 where "g b1 = Some b2" "length b2 = 5760" "\<forall>i < 5760. b2 ! i = (if int i \<in> T then FONT_COLOR else b1 ! i)"
    using assms(2) unfolding paints_def by blast
  with 1 show "\<exists>b'. f b \<bind> g = Some b' \<and> length b' = 5760 \<and> (\<forall>i < 5760. b' ! i = (if int i \<in> S \<union> T then FONT_COLOR else b ! i))"
    by auto
qed

text \<open>The pixels that a character with this glyph sets when it stands at place \<open>k\<close>.\<close>

definition row_set :: "u8 \<Rightarrow> nat \<Rightarrow> int \<Rightarrow> int \<Rightarrow> int set" where
  "row_set line row offset k = {bar_index (offset + 8 * k + col) (int row + 1) |col. 0 \<le> col \<and> col < 8 \<and> bit line (nat (7 - col))}"

lemma bar_index_char:
  assumes "offset mod 4 = 0"
  shows "bar_index (offset + 8 * k + col) (row + 1) = 80 * (1 + 18 * (col mod 4) + row) + (col + offset) div 4 + 2 * k"
proof -
  define q where "q = offset div 4"
  have o: "offset = 4 * q" using assms by (auto simp: q_def)
  have e: "offset + 8 * k + col = col + (q + 2 * k) * 4" "col + offset = col + q * 4" using o by simp_all
  have "(offset + 8 * k + col) mod 4 = col mod 4" "(offset + 8 * k + col) div 4 = q + 2 * k + col div 4"
    "(col + offset) div 4 = q + col div 4"
  proof -
    have m: "(col + c * 4) mod 4 = col mod 4" "(col + c * 4) div 4 = c + col div 4" for c by simp_all
    show "(offset + 8 * k + col) mod 4 = col mod 4" "(offset + 8 * k + col) div 4 = q + 2 * k + col div 4"
      "(col + offset) div 4 = q + col div 4" unfolding e m by (rule refl)+
  qed
  then show ?thesis by (simp add: bar_index_def)
qed

lemma bar_index_range:
  assumes "0 \<le> x" "x < 320" "0 \<le> y" "y < 18"
  shows "0 \<le> bar_index x y" and "bar_index x y < 5760"
proof -
  have "x div 4 * 4 + x mod 4 = x" "0 \<le> x mod 4" "x mod 4 \<le> 3" by simp_all
  then have "0 \<le> x div 4" "x div 4 < 80" using assms by linarith+
  moreover have "(x mod 4) * 1440 \<le> 4320" using \<open>x mod 4 \<le> 3\<close> by simp
  ultimately show "0 \<le> bar_index x y" "bar_index x y < 5760"
    using assms(3,4) \<open>0 \<le> x mod 4\<close> unfolding bar_index_def by linarith+
qed

lemma bit_of_and_exp: "((line :: int) AND 2 ^ n = 2 ^ n) = bit line n"
proof -
  have "(line AND 2 ^ n = 2 ^ n) = (\<forall>m. bit line m \<and> m = n \<longleftrightarrow> m = n)"
    by (simp add: bit_eq_iff bit_and_iff bit_exp_iff)
  then show ?thesis by auto
qed

lemma mask_loop_paints:
  fixes line :: u8
  assumes "offset mod 4 = 0" and "0 \<le> offset" and "0 \<le> k" and "offset + 8 * k + 8 \<le> 320" and "row < 16" and "n \<le> 8"
  shows "paints (mask_loop (uint line) (2 ^ n div 2) (8 - int n) row offset k)
    {bar_index (offset + 8 * k + col) (int row + 1) |col. 8 - int n \<le> col \<and> col < 8 \<and> bit line (nat (7 - col))}"
  using assms(6)
proof (induction n)
  case 0
  have e: "{bar_index (offset + 8 * k + col) (int row + 1) |col. 8 - int 0 \<le> col \<and> col < 8 \<and> bit line (nat (7 - col))} = {}"
    by auto
  have "mask_loop (uint line) 0 8 row offset k = Some" by (rule ext) (simp add: mask_loop.simps)
  then show ?case unfolding e using paints_none by simp
next
  case (Suc n)
  let ?i = "bar_index (offset + 8 * k + (7 - int n)) (int row + 1)"
  let ?S = "if bit line n then {?i} else {}"
  let ?T = "{bar_index (offset + 8 * k + col) (int row + 1) |col. 8 - int n \<le> col \<and> col < 8 \<and> bit line (nat (7 - col))}"
  have i: "0 \<le> ?i" "?i < 5760"
    using bar_index_range [of "offset + 8 * k + (7 - int n)" "int row + 1"] assms Suc.prems by simp_all
  have first: "paints (\<lambda>b. if bit line n then store b ?i FONT_COLOR else Some b) ?S"
    using paints_store [OF i] paints_none by auto
  have "paints (mask_loop (uint line) (2 ^ n div 2) (8 - int n) row offset k) ?T" using Suc by simp
  note step = paints_seq [OF first this]
  have "mask_loop (uint line) (2 ^ Suc n div 2) (8 - int (Suc n)) row offset k =
      (\<lambda>b. (if bit line n then store b ?i FONT_COLOR else Some b) \<bind> mask_loop (uint line) (2 ^ n div 2) (8 - int n) row offset k)"
  proof
    fix b
    have at: "80 * (1 + 18 * ((7 - int n) mod 4) + int row) + (7 - int n + offset) div 4 + 2 * k = ?i"
      using bar_index_char [OF assms(1)] by simp
    have b: "(uint line AND 2 ^ n = 2 ^ n) = bit line n" unfolding bit_of_and_exp by (auto simp: bit_uint_iff dest: bit_imp_le_length)
    have e: "(2 :: int) ^ Suc n div 2 = 2 ^ n" "8 - int (Suc n) = 7 - int n" "7 - int n + 1 = 8 - int n" by simp_all
    show "mask_loop (uint line) (2 ^ Suc n div 2) (8 - int (Suc n)) row offset k b =
        (if bit line n then store b ?i FONT_COLOR else Some b) \<bind> mask_loop (uint line) (2 ^ n div 2) (8 - int n) row offset k"
      unfolding e(1,2) mask_loop.simps [of "uint line" "2 ^ n" "7 - int n"] at b e(3) by simp
  qed
  moreover have "?S \<union> ?T = {bar_index (offset + 8 * k + col) (int row + 1) |col. 8 - int (Suc n) \<le> col \<and> col < 8 \<and> bit line (nat (7 - col))}"
  proof -
    have "8 - int (Suc n) \<le> col \<longleftrightarrow> col = 7 - int n \<or> 8 - int n \<le> col" for col by auto
    moreover have "7 - int n < 8" "nat (7 - (7 - int n)) = n" by simp_all
    ultimately show ?thesis by auto
  qed
  ultimately show ?case using step by simp
qed

lemma char_rows_paints:
  assumes "offset mod 4 = 0" and "0 \<le> offset" and "0 \<le> k" and "offset + 8 * k + 8 \<le> 320" and "length glyph = 16"
    and "\<forall>row\<in>set rows. row < 16"
  shows "paints (char_rows glyph rows offset k) (\<Union>row\<in>set rows. row_set (glyph ! row) row offset k)"
  using assms(6)
proof (induction rows)
  case Nil
  have "char_rows glyph [] offset k = Some" by (rule ext) simp
  then show ?case using paints_none by simp
next
  case (Cons row rows)
  have "paints (mask_loop (uint (glyph ! row)) (2 ^ 8 div 2) (8 - int 8) row offset k)
      {bar_index (offset + 8 * k + col) (int row + 1) |col. 8 - int 8 \<le> col \<and> col < 8 \<and> bit (glyph ! row) (nat (7 - col))}"
    by (rule mask_loop_paints) (use assms(1-4) Cons.prems in auto)
  then have "paints (mask_loop (uint (glyph ! row)) 128 0 row offset k) (row_set (glyph ! row) row offset k)"
    by (simp add: row_set_def)
  moreover have "paints (char_rows glyph rows offset k) (\<Union>row\<in>set rows. row_set (glyph ! row) row offset k)"
    using Cons by simp
  moreover have "char_rows glyph (row # rows) offset k =
      (\<lambda>b. mask_loop (uint (glyph ! row)) 128 0 row offset k b \<bind> char_rows glyph rows offset k)"
    by (rule ext) (use Cons.prems assms(5) in \<open>simp add: fetch_def\<close>)
  ultimately show ?case using paints_seq by simp
qed

text \<open>The loop over the places from \<open>k\<close> on.\<close>

definition loop_set :: "(nat \<Rightarrow> int option) \<Rightarrow> int \<Rightarrow> nat \<Rightarrow> nat \<Rightarrow> int set" where
  "loop_set chars offset k n = {bar_index (offset + 8 * int j + col) (int row + 1) |j row col c.
     k \<le> j \<and> j < k + n \<and> (\<forall>i. k \<le> i \<and> i \<le> j \<longrightarrow> chars i \<noteq> None) \<and> chars j = Some c \<and> row < 16 \<and> 0 \<le> col \<and> col < 8
     \<and> bit (font_data ! nat c ! row) (nat (7 - col))}"

lemma loop_set_None: "chars k = None \<Longrightarrow> loop_set chars offset k n = {}"
  by (auto simp: loop_set_def)

lemma loop_set_Some:
  assumes "chars k = Some c"
  shows "loop_set chars offset k (Suc n) =
    (\<Union>row\<in>set [0..<16]. row_set (font_data ! nat c ! row) row offset (int k)) \<union> loop_set chars offset (Suc k) n"
    (is "_ = ?A \<union> _")
proof (rule set_eqI)
  fix z
  show "z \<in> loop_set chars offset k (Suc n) \<longleftrightarrow> z \<in> ?A \<union> loop_set chars offset (Suc k) n"
  proof
    assume "z \<in> loop_set chars offset k (Suc n)"
    then obtain j row col d where z: "z = bar_index (offset + 8 * int j + col) (int row + 1)" "k \<le> j" "j < k + Suc n"
        "\<forall>i. k \<le> i \<and> i \<le> j \<longrightarrow> chars i \<noteq> None" "chars j = Some d" "row < 16" "0 \<le> col" "col < 8"
        "bit (font_data ! nat d ! row) (nat (7 - col))"
      unfolding loop_set_def by blast
    show "z \<in> ?A \<union> loop_set chars offset (Suc k) n"
    proof (cases "j = k")
      case True
      then have "z \<in> row_set (font_data ! nat c ! row) row offset (int k)" using z assms by (auto simp: row_set_def)
      then show ?thesis using z(6) by auto
    next
      case False
      then have "z \<in> loop_set chars offset (Suc k) n" unfolding loop_set_def mem_Collect_eq
        using z by (intro exI [of _ j] exI [of _ row] exI [of _ col] exI [of _ d]) auto
      then show ?thesis by blast
    qed
  next
    assume "z \<in> ?A \<union> loop_set chars offset (Suc k) n"
    then show "z \<in> loop_set chars offset k (Suc n)"
    proof
      assume "z \<in> ?A"
      then obtain row col where "row < 16" "0 \<le> col" "col < 8" "bit (font_data ! nat c ! row) (nat (7 - col))"
          "z = bar_index (offset + 8 * int k + col) (int row + 1)"
        by (auto simp: row_set_def)
      then show ?thesis unfolding loop_set_def mem_Collect_eq using assms
        by (intro exI [of _ k] exI [of _ row] exI [of _ col] exI [of _ c]) auto
    next
      assume "z \<in> loop_set chars offset (Suc k) n"
      then obtain j row col d where z: "z = bar_index (offset + 8 * int j + col) (int row + 1)" "Suc k \<le> j" "j < Suc k + n"
          "\<forall>i. Suc k \<le> i \<and> i \<le> j \<longrightarrow> chars i \<noteq> None" "chars j = Some d" "row < 16" "0 \<le> col" "col < 8"
          "bit (font_data ! nat d ! row) (nat (7 - col))"
        unfolding loop_set_def by blast
      moreover have "\<forall>i. k \<le> i \<and> i \<le> j \<longrightarrow> chars i \<noteq> None" using z(4) assms by (metis Suc_leI le_neq_implies_less option.distinct(1))
      ultimately show ?thesis unfolding loop_set_def mem_Collect_eq
        by (intro exI [of _ j] exI [of _ row] exI [of _ col] exI [of _ d]) auto
    qed
  qed
qed

definition chars_ok :: "(nat \<Rightarrow> int option) \<Rightarrow> int \<Rightarrow> bool" where
  "chars_ok chars offset \<longleftrightarrow> 0 \<le> offset \<and> offset mod 4 = 0
     \<and> (\<forall>k c. k < 40 \<and> chars k = Some c \<longrightarrow> 0 \<le> c \<and> c < 256 \<and> offset + 8 * int k + 8 \<le> 320)"

lemma char_loop_paints:
  assumes ok: "chars_ok chars offset" and "k + n = 40"
  shows "paints (char_loop chars offset [k..<40]) (loop_set chars offset k n)"
  using assms(2)
proof (induction n arbitrary: k)
  case 0
  then have "char_loop chars offset [k..<40] = Some" "loop_set chars offset k 0 = {}"
    by (auto simp: loop_set_def intro!: ext)
  then show ?case using paints_none by simp
next
  case (Suc n)
  then have up: "[k..<40] = k # [Suc k..<40]" by (simp add: upt_conv_Cons)
  show ?case
  proof (cases "chars k")
    case None
    then have "char_loop chars offset [k..<40] = Some" unfolding up by (intro ext) simp
    then show ?thesis using paints_none None by (simp add: loop_set_None)
  next
    case (Some c)
    have "k < 40" using Suc.prems by simp
    then have c: "0 \<le> c" "c < 256" "offset + 8 * int k + 8 \<le> 320" and o: "0 \<le> offset" "offset mod 4 = 0"
      using ok Some unfolding chars_ok_def by blast+
    have glyph: "length (font_data ! nat c) = 16" using font_rows(2) c by simp
    have "paints (char_rows (font_data ! nat c) [0..<16] offset (int k))
        (\<Union>row\<in>set [0..<16]. row_set (font_data ! nat c ! row) row offset (int k))"
      by (rule char_rows_paints) (use o c glyph in auto)
    note two = paints_seq [OF this Suc.IH [of "Suc k"]]
    have "char_loop chars offset [k..<40] =
        (\<lambda>b. char_rows (font_data ! nat c) [0..<16] offset (int k) b \<bind> char_loop chars offset [Suc k..<40])"
      unfolding up by (rule ext) (use Some c font_rows(1) in \<open>simp add: fetch_def del: upt_Suc\<close>)
    then show ?thesis using two Suc.prems unfolding loop_set_Some [where chars = chars and offset = offset, OF Some] by simp
  qed
qed

lemma bar_index_inject:
  assumes "0 \<le> x" "x < 320" "0 \<le> y" "y < 18" "0 \<le> x'" "x' < 320" "0 \<le> y'" "y' < 18"
    and eq: "bar_index x y = bar_index x' y'"
  shows "x = x' \<and> y = y'"
proof -
  have x: "x div 4 * 4 + x mod 4 = x" "0 \<le> x mod 4" "x mod 4 < 4" by simp_all
  have x': "x' div 4 * 4 + x' mod 4 = x'" "0 \<le> x' mod 4" "x' mod 4 < 4" by simp_all
  have q: "0 \<le> x div 4" "x div 4 < 80" "0 \<le> x' div 4" "x' div 4 < 80" using x x' assms by linarith+
  have e: "(x mod 4) * 1440 + (y * 80 + x div 4) = (x' mod 4) * 1440 + (y' * 80 + x' div 4)" using eq by (simp add: bar_index_def)
  have r: "0 \<le> y * 80 + x div 4" "y * 80 + x div 4 < 1440" "0 \<le> y' * 80 + x' div 4" "y' * 80 + x' div 4 < 1440"
    using q assms by linarith+
  have unique: "b = d \<and> a = c" if "a * m + b = c * m + d" "0 \<le> b" "b < m" "0 \<le> d" "d < m" for a b c d m :: int
    using int_div_pos_eq [of "a * m + b" m a b] int_div_pos_eq [of "c * m + d" m c d] that by (simp add: mult.commute)
  from unique [OF e r(1,2,3,4)] have p: "y * 80 + x div 4 = y' * 80 + x' div 4" "x mod 4 = x' mod 4" by simp_all
  from unique [OF p(1) q] have "y = y'" "x div 4 = x' div 4" by simp_all
  with x(1) x'(1) p(2) show ?thesis by linarith
qed

lemma bar_pixels:
  assumes ok: "chars_ok chars offset" and xy: "0 \<le> x" "x < 320" "0 \<le> y" "y < 18"
  shows "bar_index x y \<in> loop_set chars offset 0 40 \<longleftrightarrow> lit chars offset x y"
proof
  assume "bar_index x y \<in> loop_set chars offset 0 40"
  then obtain j row col c where i: "bar_index x y = bar_index (offset + 8 * int j + col) (int row + 1)" "j < 40"
      "\<forall>i. i \<le> j \<longrightarrow> chars i \<noteq> None" "chars j = Some c" "row < 16" "0 \<le> col" "col < 8"
      "bit (font_data ! nat c ! row) (nat (7 - col))"
    unfolding loop_set_def by auto
  have o: "0 \<le> offset" "offset + 8 * int j + 8 \<le> 320" using ok i(2,4) unfolding chars_ok_def by auto
  have e: "x = offset + 8 * int j + col" "y = int row + 1"
    using bar_index_inject [OF xy _ _ _ _ i(1)] o i(5-7) by simp_all
  have "(x - offset) div 8 = int j" "(x - offset) mod 8 = col"
    using int_div_pos_eq [of "x - offset" 8 "int j" col] int_mod_pos_eq [of "x - offset" 8 "int j" col] e i(6,7) by simp_all
  then show "lit chars offset x y" using e i o(1) by (simp add: lit_def drawn_def glyph_bit_def)
next
  assume l: "lit chars offset x y"
  let ?j = "nat ((x - offset) div 8)" and ?col = "(x - offset) mod 8"
  obtain c where c: "1 \<le> y" "y \<le> 16" "offset \<le> x" "drawn chars ?j = Some c" "(x - offset) div 8 < 40" "glyph_bit c ?col (y - 1)"
    using l by (auto simp: lit_def split: option.splits)
  have d: "\<forall>i\<le>?j. chars i \<noteq> None" "chars ?j = Some c" using c(4) by (auto simp: drawn_def split: if_splits)
  have j: "int ?j = (x - offset) div 8" using c(3) by (simp add: pos_imp_zdiv_nonneg_iff)
  have "x = offset + 8 * int ?j + ?col" unfolding j by simp
  moreover have "y = int (nat (y - 1)) + 1" using c(1) by simp
  ultimately have "bar_index x y = bar_index (offset + 8 * int ?j + ?col) (int (nat (y - 1)) + 1)" by simp
  then show "bar_index x y \<in> loop_set chars offset 0 40" unfolding loop_set_def mem_Collect_eq
    using c d j by (intro exI [of _ ?j] exI [of _ "nat (y - 1)"] exI [of _ ?col] exI [of _ c]) (auto simp: glyph_bit_def)
qed

lemma char_loop_bar:
  assumes "chars_ok chars offset"
  obtains buff where "char_loop chars offset [0..<40] (replicate BUFF_SIZE BACKGROUND_COLOR) = Some buff" "length buff = 5760"
    "\<And>x y. 0 \<le> x \<Longrightarrow> x < 320 \<Longrightarrow> 0 \<le> y \<Longrightarrow> y < 18 \<Longrightarrow>
       buff ! nat (bar_index x y) = (if lit chars offset x y then FONT_COLOR else BACKGROUND_COLOR)"
proof -
  have "paints (char_loop chars offset [0..<40]) (loop_set chars offset 0 40)"
    by (rule char_loop_paints [OF assms]) simp
  then obtain buff where b: "char_loop chars offset [0..<40] (replicate BUFF_SIZE BACKGROUND_COLOR) = Some buff" "length buff = 5760"
      "\<forall>i < 5760. buff ! i = (if int i \<in> loop_set chars offset 0 40 then FONT_COLOR else replicate BUFF_SIZE BACKGROUND_COLOR ! i)"
    unfolding paints_def by (elim allE [of _ "replicate BUFF_SIZE BACKGROUND_COLOR"] impE exE conjE) (rule length_replicate)
  have "buff ! nat (bar_index x y) = (if lit chars offset x y then FONT_COLOR else BACKGROUND_COLOR)"
    if "0 \<le> x" "x < 320" "0 \<le> y" "y < 18" for x y
    using b(3) bar_index_range [OF that] bar_pixels [OF assms that] by simp
  with b(1,2) show ?thesis by (rule that)
qed

section \<open>The text of the bar\<close>

text \<open>What the 40 places hold without a message: the name of the room, and the text being typed followed
  by its NUL at the right, or a cursor.\<close>

definition typed_line :: "string \<Rightarrow> string" where
  "typed_line typed = replicate (39 - length typed) (CHR '' '') @ (if typed = [] then ''_'' else typed @ [CHR 0x00])"

definition bar_text :: "string \<Rightarrow> string \<Rightarrow> string \<Rightarrow> string" where
  "bar_text message room typed = (if message \<noteq> [] then message else room @ drop (length room) (typed_line typed))"

definition bar_offset :: "string \<Rightarrow> int" where
  "bar_offset message = (if message \<noteq> [] then 160 - 4 * int (length message) else 0)"

definition text_lit :: "string \<Rightarrow> int \<Rightarrow> int \<Rightarrow> int \<Rightarrow> bool" where
  "text_lit s offset x y \<longleftrightarrow> 1 \<le> y \<and> y \<le> 16 \<and> offset \<le> x \<and> (x - offset) div 8 < int (length s)
     \<and> glyph_bit (of_char (s ! nat ((x - offset) div 8))) ((x - offset) mod 8) (y - 1)"

definition ascii :: "string \<Rightarrow> bool" where
  "ascii s \<longleftrightarrow> (\<forall>c\<in>set s. of_char c < (128 :: int))"

lemma code_ascii: "ascii s \<Longrightarrow> k < length s \<Longrightarrow> int_of_char (s ! k) = of_char (s ! k) \<and> 0 \<le> int_of_char (s ! k) \<and> int_of_char (s ! k) < 128"
proof -
  have "0 \<le> (of_char (s ! k) :: int)" by (metis of_nat_of_char of_nat_0_le_iff)
  moreover assume "ascii s" "k < length s"
  ultimately show ?thesis by (simp add: ascii_def int_of_char_def)
qed

lemma length_typed_line: "length typed \<le> 20 \<Longrightarrow> length (typed_line typed) = 40"
  by (auto simp: typed_line_def)

lemma my_char_message: "my_char msg True typed k = (if k < length msg then Some (int_of_char (msg ! k)) else None)"
  by (simp add: my_char_def Let_def)

lemma my_char_room:
  assumes "length room < 40" and "length typed \<le> 20" and "k < 40"
  shows "my_char room False typed k = Some (int_of_char (bar_text [] room typed ! k))"
proof -
  let ?n = "length typed"
  have start: "u32 (u32 (40 - int ?n) - 1) = 39 - int ?n" using assms(2) by (simp add: u32_id)
  have late: "bar_text [] room typed ! k = typed_line typed ! k" if "length room \<le> k"
    using that assms(3) length_typed_line [OF assms(2)] by (simp add: bar_text_def nth_append)
  have sp: "int_of_char (CHR '' '') = 32" "int_of_char (CHR ''_'') = 95" "int_of_char (CHR 0x00) = 0"
    by (simp_all add: int_of_char_def)
  consider (room) "k < length room" | (blank) "length room \<le> k" "k < 39 - ?n"
    | (typed) "length room \<le> k" "39 - ?n \<le> k" "k < 39" | (last) "length room \<le> k" "k = 39" using assms(3) by linarith
  then show ?thesis
  proof cases
    case room
    then show ?thesis by (simp add: my_char_def Let_def bar_text_def nth_append)
  next
    case blank
    then have "bar_text [] room typed ! k = CHR '' ''" using assms(2) late
      by (simp add: nth_append typed_line_def)
    then show ?thesis unfolding my_char_def Let_def start using blank sp assms(2) by auto
  next
    case typed
    then have "typed \<noteq> []" "bar_text [] room typed ! k = typed ! (k - (39 - ?n))" using assms(2) late
      by (auto simp: nth_append typed_line_def)
    then show ?thesis unfolding my_char_def Let_def start using typed assms(2) by (auto simp: nat_diff_distrib')
  next
    case last
    then have "bar_text [] room typed ! k = (if typed = [] then CHR ''_'' else CHR 0x00)" using assms(2) late
      by (auto simp: nth_append typed_line_def)
    then show ?thesis unfolding my_char_def Let_def start using last sp assms(2) by auto
  qed
qed

lemma ascii_append: "ascii (s @ t) \<longleftrightarrow> ascii s \<and> ascii t"
  by (auto simp: ascii_def)

lemma ascii_bar_text: "ascii message \<Longrightarrow> ascii room \<Longrightarrow> ascii typed \<Longrightarrow> ascii (bar_text message room typed)"
  by (auto simp: bar_text_def ascii_append typed_line_def) (auto simp: ascii_def dest!: in_set_dropD split: if_splits)

lemma lit_text:
  assumes "\<And>k. k < 40 \<Longrightarrow> chars k = (if k < length s then Some (int_of_char (s ! k)) else None)" and "length s \<le> 40" and "ascii s"
  shows "lit chars offset x y \<longleftrightarrow> text_lit s offset x y"
proof (cases "offset \<le> x")
  case True
  let ?j = "nat ((x - offset) div 8)"
  have j: "int ?j = (x - offset) div 8" using True by (simp add: pos_imp_zdiv_nonneg_iff)
  show ?thesis
  proof (cases "(x - offset) div 8 < int (length s)")
    case len: True
    then have "?j < length s" using j by linarith
    then have "drawn chars ?j = Some (of_char (s ! ?j))"
      using assms code_ascii [OF assms(3), of ?j] by (simp add: drawn_def)
    moreover have "(x - offset) div 8 < 40" using len assms(2) by linarith
    ultimately show ?thesis using True len by (simp add: lit_def text_lit_def)
  next
    case False
    then have "length s \<le> ?j" using j by linarith
    then have "?j < 40 \<Longrightarrow> chars ?j = None" using assms(1) by simp
    then have "?j < 40 \<Longrightarrow> drawn chars ?j = None" by (auto simp: drawn_def)
    moreover have "\<not> ?j < 40 \<Longrightarrow> \<not> (x - offset) div 8 < 40" using j by linarith
    ultimately show ?thesis using False by (cases "?j < 40") (auto simp: lit_def text_lit_def split: option.splits)
  qed
qed (simp add: lit_def text_lit_def)

text \<open>The whole routine, for a message that fits, a name and a typed text that fit.\<close>

lemma create_status_bar_draws:
  assumes "length message < 40" "ascii message" "length room < 40" "ascii room" "length typed \<le> 20" "ascii typed"
  shows "\<exists>buff. create_status_bar message room typed = Some buff \<and> length buff = 5760
    \<and> (\<forall>x y. 0 \<le> x \<and> x < 320 \<and> 0 \<le> y \<and> y < 18 \<longrightarrow>
         buff ! nat (bar_index x y) = (if text_lit (bar_text message room typed) (bar_offset message) x y then FONT_COLOR else BACKGROUND_COLOR))"
proof -
  let ?s = "bar_text message room typed"
  let ?chars = "if message \<noteq> [] then my_char message True typed else my_char room False typed"
  have s: "ascii ?s" "length ?s \<le> 40" "message = [] \<Longrightarrow> length ?s = 40"
    using ascii_bar_text assms length_typed_line [OF assms(5)] by (auto simp: bar_text_def)
  have chars: "?chars k = (if k < length ?s then Some (int_of_char (?s ! k)) else None)" if "k < 40" for k
  proof (cases "message = []")
    case True
    then show ?thesis using my_char_room [OF assms(3,5) that] s(3) that by simp
  next
    case False
    then show ?thesis by (simp add: my_char_message bar_text_def)
  qed
  have ok: "chars_ok ?chars (bar_offset message)"
    unfolding chars_ok_def
  proof (intro conjI allI impI)
    show "0 \<le> bar_offset message" "bar_offset message mod 4 = 0" using assms(1) by (auto simp: bar_offset_def mod_diff_eq [symmetric])
    fix k c assume k: "k < 40 \<and> ?chars k = Some c"
    then have c: "k < length ?s" "c = int_of_char (?s ! k)" using chars [of k] by (auto split: if_splits)
    then show "0 \<le> c" "c < 256" using code_ascii [OF s(1) c(1)] by auto
    show "bar_offset message + 8 * int k + 8 \<le> 320"
      using k c(1) assms(1) by (cases "message = []") (auto simp: bar_offset_def bar_text_def)
  qed
  obtain buff where b: "char_loop ?chars (bar_offset message) [0..<40] (replicate BUFF_SIZE BACKGROUND_COLOR) = Some buff" "length buff = 5760"
      "\<And>x y. 0 \<le> x \<Longrightarrow> x < 320 \<Longrightarrow> 0 \<le> y \<Longrightarrow> y < 18 \<Longrightarrow>
         buff ! nat (bar_index x y) = (if lit ?chars (bar_offset message) x y then FONT_COLOR else BACKGROUND_COLOR)"
    using char_loop_bar [OF ok] by blast
  have "u32 (320 - int (length message) * 8) div 2 = 160 - 4 * int (length message)" using assms(1) by (simp add: u32_id)
  then have "create_status_bar message room typed = Some buff"
    using b(1) assms(1,3) by (cases "message = []") (auto simp: create_status_bar_def Let_def print_copy_def bar_offset_def)
  then show ?thesis using b(2,3) lit_text [where chars = ?chars, OF chars s(2,1)] by auto
qed

end
