(* ===== verification/Adventure.thy ===== *)
theory Adventure
  imports Commands Picture Modex Input StatusBar
begin

text \<open>
  The game itself, \<open>adventure.c\<close>: the parsing of a typed command, the scrolling of the photo, the clock,
  one pass of the event loop, and the two helper threads.

  The record holds \<open>game_info\<close> and the other file-scope variables, together with the state of the parts
  that the game drives.  The source has a lock for the message only: that a command of the controller's thread is not
  interrupted by the event loop is an assumption of the model.  A step runs between two points where a thread can be interrupted in the model:
  the frame that is drawn at the start of a pass, the command of the keyboard, the command of the Tux
  controller, and the status thread.
\<close>

section \<open>The state\<close>

record game =
  player :: "int option"
  map_x :: "32 word"
  map_y :: "32 word"
  x_speed :: int
  y_speed :: int
  enter_room :: bool
  cur_room :: "int option"
  wld :: world
  scr :: modex
  keys :: kb
  curr_btns :: "32 word list"
  tux_led :: "32 word"

abbreviation (input) "MOTION_SPEED \<equiv> 2 :: int"

definition prep_room :: "int option \<Rightarrow> game \<Rightarrow> game" where
  "prep_room r g = g\<lparr>cur_room := r\<rparr>"

definition get_typed_command :: "game \<Rightarrow> string" where
  "get_typed_command g = typing (keys g)"

definition reset_typed_command :: "game \<Rightarrow> game" where
  "reset_typed_command g = g\<lparr>keys := (keys g)\<lparr>typing := []\<rparr>\<rparr>"

text \<open>\<open>init_game\<close> also opens the serial port and resets the controller with \<open>TUX_INIT\<close>; these calls, whose results the
  game does not look at, are left out.  What \<open>TUX_INIT\<close> does is \<open>tux_init\<close> of the driver.\<close>

definition init_game :: "game \<Rightarrow> game" where
  "init_game g = g\<lparr>player := Some start_in_room, map_x := 0, map_y := 0, x_speed := MOTION_SPEED, y_speed := MOTION_SPEED\<rparr>"

section \<open>Drawing\<close>

text \<open>The callbacks that \<open>main\<close> hands to \<open>set_mode_X\<close>; without a current room they would follow a null
  pointer.\<close>

definition horiz_line :: "game \<Rightarrow> int \<Rightarrow> int \<Rightarrow> u8 list option" where
  "horiz_line g x y = do { r \<leftarrow> cur_room g; fill_horiz_buffer r (wld g) x y }"

definition vert_line :: "game \<Rightarrow> int \<Rightarrow> int \<Rightarrow> u8 list option" where
  "vert_line g x y = do { r \<leftarrow> cur_room g; fill_vert_buffer r (wld g) x y }"

primrec draw_lines :: "(int \<Rightarrow> modex \<Rightarrow> (int \<times> modex) option) \<Rightarrow> int list \<Rightarrow> modex \<Rightarrow> modex option" where
  "draw_lines draw [] m = Some m"
| "draw_lines draw (i # is) m = do { (_, m) \<leftarrow> draw i m; draw_lines draw is m }"

definition redraw_room :: "game \<Rightarrow> game option" where
  "redraw_room g = do {
     m \<leftarrow> draw_lines (draw_horiz_line (horiz_line g)) (map int [0..<182]) (scr g);
     Some (g\<lparr>scr := m\<rparr>) }"

text \<open>Moving the photo.  The coordinates are unsigned, the distances signed.\<close>

definition move_photo_down :: "game \<Rightarrow> game option" where
  "move_photo_down g = do {
     let delta = sint (if word_of_int (y_speed g) > map_y g then map_y g else word_of_int (y_speed g));
     let g = g\<lparr>map_y := map_y g - word_of_int delta\<rparr>;
     m \<leftarrow> set_view_window (sint (map_x g)) (sint (map_y g)) (scr g);
     m \<leftarrow> draw_lines (draw_horiz_line (horiz_line g)) (map int [0..<nat delta]) m;
     Some (g\<lparr>scr := m\<rparr>) }"

definition move_photo_left :: "game \<Rightarrow> game option" where
  "move_photo_left g = do {
     r \<leftarrow> player g;
     w \<leftarrow> room_photo_width r (wld g);
     let delta = sint (word_of_int (w - 320) - map_x g);
     let delta = (if x_speed g > delta then delta else x_speed g);
     let g = g\<lparr>map_x := map_x g + word_of_int delta\<rparr>;
     m \<leftarrow> set_view_window (sint (map_x g)) (sint (map_y g)) (scr g);
     m \<leftarrow> draw_lines (draw_vert_line (vert_line g)) (map (\<lambda>idx. 320 - int idx) [1..<nat (delta + 1)]) m;
     Some (g\<lparr>scr := m\<rparr>) }"

definition move_photo_right :: "game \<Rightarrow> game option" where
  "move_photo_right g = do {
     let delta = sint (if word_of_int (x_speed g) > map_x g then map_x g else word_of_int (x_speed g));
     let g = g\<lparr>map_x := map_x g - word_of_int delta\<rparr>;
     m \<leftarrow> set_view_window (sint (map_x g)) (sint (map_y g)) (scr g);
     m \<leftarrow> draw_lines (draw_vert_line (vert_line g)) (map int [0..<nat delta]) m;
     Some (g\<lparr>scr := m\<rparr>) }"

definition move_photo_up :: "game \<Rightarrow> game option" where
  "move_photo_up g = do {
     r \<leftarrow> player g;
     h \<leftarrow> room_photo_height r (wld g);
     let delta = sint (word_of_int (h - 182) - map_y g);
     let delta = (if y_speed g > delta then delta else y_speed g);
     let g = g\<lparr>map_y := map_y g + word_of_int delta\<rparr>;
     m \<leftarrow> set_view_window (sint (map_x g)) (sint (map_y g)) (scr g);
     m \<leftarrow> draw_lines (draw_horiz_line (horiz_line g)) (map (\<lambda>idx. 182 - int idx) [1..<nat (delta + 1)]) m;
     Some (g\<lparr>scr := m\<rparr>) }"

section \<open>Typed commands\<close>

datatype cmd_id_t = TC_BUY | TC_CHARGE | TC_DO | TC_DRINK | TC_DROP | TC_FIX | TC_FLASH | TC_GET | TC_GO
  | TC_INSTALL | TC_INVENTORY | TC_SIGH | TC_USE | TC_WEAR

datatype typed_cmd_t = Typed_cmd (tc_name: string) (min_len: nat) (tc_cmd: cmd_id_t)

definition cmd_list :: "typed_cmd_t list" where
  "cmd_list = [
     Typed_cmd ''buy'' 3 TC_BUY,
     Typed_cmd ''charge'' 2 TC_CHARGE,
     Typed_cmd ''do'' 2 TC_DO,
     Typed_cmd ''drink'' 3 TC_DRINK,
     Typed_cmd ''drop'' 2 TC_DROP,
     Typed_cmd ''fix'' 3 TC_FIX,
     Typed_cmd ''flash'' 5 TC_FLASH,
     Typed_cmd ''get'' 1 TC_GET,
     Typed_cmd ''go'' 2 TC_GO,
     Typed_cmd ''grab'' 2 TC_GET,
     Typed_cmd ''install'' 3 TC_INSTALL,
     Typed_cmd ''inventory'' 1 TC_INVENTORY,
     Typed_cmd ''sigh'' 4 TC_SIGH,
     Typed_cmd ''use'' 3 TC_USE,
     Typed_cmd ''wear'' 4 TC_WEAR]"

text \<open>\<open>0 == strncasecmp (name, cmd, cmd_len)\<close> for a verb of \<open>cmd_len\<close> characters.\<close>

definition verb_matches :: "string \<Rightarrow> typed_cmd_t \<Rightarrow> bool" where
  "verb_matches verb e \<longleftrightarrow> min_len e \<le> length verb \<and> map to_lower (take (length verb) (tc_name e)) = map to_lower verb"

definition run_typed :: "cmd_id_t \<Rightarrow> int \<Rightarrow> string \<Rightarrow> world \<Rightarrow> outcome" where
  "run_typed c r arg w = (case c of
     TC_BUY \<Rightarrow> typed_cmd_buy r arg w
   | TC_CHARGE \<Rightarrow> typed_cmd_charge r arg w
   | TC_DO \<Rightarrow> typed_cmd_do r arg w
   | TC_DRINK \<Rightarrow> typed_cmd_drink r arg w
   | TC_DROP \<Rightarrow> typed_cmd_drop r arg w
   | TC_FIX \<Rightarrow> typed_cmd_fix r arg w
   | TC_FLASH \<Rightarrow> typed_cmd_flash r arg w
   | TC_GET \<Rightarrow> typed_cmd_get r arg w
   | TC_GO \<Rightarrow> typed_cmd_go r arg w
   | TC_INSTALL \<Rightarrow> typed_cmd_install r arg w
   | TC_INVENTORY \<Rightarrow> typed_cmd_inventory r arg w
   | TC_SIGH \<Rightarrow> typed_cmd_sigh r arg w
   | TC_USE \<Rightarrow> typed_cmd_use r arg w
   | TC_WEAR \<Rightarrow> typed_cmd_wear r arg w)"

text \<open>The speeds after \<open>TC_DROP\<close> and \<open>TC_GET\<close>.\<close>

definition set_speeds :: "cmd_id_t \<Rightarrow> game \<Rightarrow> game" where
  "set_speeds c g =
     (if c = TC_DROP then
        g\<lparr>x_speed := (if \<not> player_has_board (wld g) then MOTION_SPEED else x_speed g),
          y_speed := (if \<not> player_has_jetpack (wld g) then MOTION_SPEED else y_speed g)\<rparr>
      else if c = TC_GET then
        g\<lparr>x_speed := (if player_has_board (wld g) then MOTION_SPEED * 3 else x_speed g),
          y_speed := (if player_has_jetpack (wld g) then MOTION_SPEED * 3 else y_speed g)\<rparr>
      else g)"

definition split_typed :: "string \<Rightarrow> string \<times> string" where
  "split_typed s =
     (let cmd = dropWhile (\<lambda>c. CHR '' '' = c) s
      in (takeWhile (\<lambda>c. CHR '' '' \<noteq> c) cmd, dropWhile (\<lambda>c. CHR '' '' = c) (dropWhile (\<lambda>c. CHR '' '' \<noteq> c) cmd)))"

definition handle_typing :: "game \<Rightarrow> (bool \<times> game) option" where
  "handle_typing g =
     (let (verb, arg) = split_typed (get_typed_command g) in
      if verb = [] then Some (False, g)
      else case find (verb_matches verb) cmd_list of
        None \<Rightarrow> Some (False, g\<lparr>wld := show_status ''What are you babbling about?'' (wld g)\<rparr>)
      | Some e \<Rightarrow> do {
          r \<leftarrow> player g;
          (result, to, w) \<leftarrow> run_typed (tc_cmd e) r arg (wld g);
          let g = set_speeds (tc_cmd e) (g\<lparr>player := to, wld := w\<rparr>);
          if TC_CHANGE_ROOM = result then Some (True, g)
          else if TC_ALLOW_EDIT \<noteq> result then do {
            let g = reset_typed_command g;
            g \<leftarrow> (if TC_REDRAW_ROOM = result then redraw_room g else Some g);
            Some (False, g) }
          else Some (False, g) })"

section \<open>Commands\<close>

definition move_player :: "(int \<Rightarrow> world \<Rightarrow> outcome) \<Rightarrow> game \<Rightarrow> game option" where
  "move_player try g = do {
     r \<leftarrow> player g;
     (result, to, w) \<leftarrow> try r (wld g);
     Some (g\<lparr>player := to, wld := w, enter_room := (TC_CHANGE_ROOM = result)\<rparr>) }"

text \<open>The same \<open>switch\<close> stands in the event loop and in \<open>tux_thread\<close>.\<close>

definition run_command :: "cmd_t \<Rightarrow> game \<Rightarrow> game option" where
  "run_command cmd g = (case cmd of
     CMD_UP \<Rightarrow> move_photo_down g
   | CMD_RIGHT \<Rightarrow> move_photo_left g
   | CMD_DOWN \<Rightarrow> move_photo_up g
   | CMD_LEFT \<Rightarrow> move_photo_right g
   | CMD_MOVE_LEFT \<Rightarrow> move_player try_to_move_left g
   | CMD_ENTER \<Rightarrow> move_player try_to_enter g
   | CMD_MOVE_RIGHT \<Rightarrow> move_player try_to_move_right g
   | CMD_TYPED \<Rightarrow> do { (changed, g) \<leftarrow> handle_typing g; Some (if changed then g\<lparr>enter_room := True\<rparr> else g) }
   | CMD_NONE \<Rightarrow> Some g
   | CMD_QUIT \<Rightarrow> Some g)"

section \<open>The clock\<close>

record timeval =
  tv_sec :: int
  tv_usec :: int

abbreviation (input) "TICK_USEC \<equiv> 50000 :: int"

definition time_is_after :: "timeval \<Rightarrow> timeval \<Rightarrow> bool" where
  "time_is_after t1 t2 =
     (if tv_sec t1 = tv_sec t2 then tv_usec t1 \<ge> tv_usec t2 else tv_sec t1 > tv_sec t2)"

definition next_tick :: "timeval \<Rightarrow> timeval" where
  "next_tick t =
     (let t = t\<lparr>tv_usec := tv_usec t + TICK_USEC\<rparr>
      in if tv_usec t > 1000000 then t\<lparr>tv_sec := tv_sec t + 1, tv_usec := tv_usec t - 1000000\<rparr> else t)"

text \<open>The second loop of a tick: the clock moves on until it has passed the current time.\<close>

function advance_tick :: "timeval \<Rightarrow> timeval \<Rightarrow> timeval" where
  "advance_tick cur_time tick_time =
     (let tick_time = next_tick tick_time
      in if time_is_after cur_time tick_time then advance_tick cur_time tick_time else tick_time)"
  by pat_completeness auto
termination
  by (relation "measures [\<lambda>(cur, t). nat (tv_sec cur - tv_sec t), \<lambda>(cur, t). nat (1000001 - tv_usec t)]")
    (auto simp: next_tick_def time_is_after_def Let_def split: if_splits)

declare advance_tick.simps [simp del]

section \<open>The event loop\<close>

text \<open>The first part of a pass: what is drawn before the wait for the tick.  \<open>seconds\<close> is the time since
  the start of the game.  \<open>tux_led\<close> is the argument of the last \<open>TUX_SET_LED\<close>: the game does not look at the result of the
  call, and what the driver makes of the argument does not come back to it.\<close>

definition draw_new_room :: "game \<Rightarrow> game option" where
  "draw_new_room g =
     (if enter_room g then do {
        let g = g\<lparr>map_x := 0, map_y := 0\<rparr>;
        m \<leftarrow> set_view_window (sint (map_x g)) (sint (map_y g)) (scr g);
        let g = prep_room (player g) (reset_typed_command (g\<lparr>scr := m\<rparr>));
        g \<leftarrow> redraw_room g;
        Some (g\<lparr>enter_room := False\<rparr>) }
      else Some g)"

definition draw_status_bar :: "game \<Rightarrow> game option" where
  "draw_status_bar g = do {
     r \<leftarrow> player g;
     name \<leftarrow> room_name r (wld g);
     buff \<leftarrow> create_status_bar (status_msg (wld g)) name (get_typed_command g);
     Some (g\<lparr>scr := add_status_bar_to_screen (\<lambda>i. buff ! nat i) (scr g)\<rparr>) }"

definition frame :: "int \<Rightarrow> game \<Rightarrow> game option" where
  "frame seconds g = do {
     g \<leftarrow> draw_new_room g;
     g \<leftarrow> draw_status_bar (g\<lparr>scr := show_screen (scr g)\<rparr>);
     Some (g\<lparr>tux_led := display_time_on_tux seconds\<rparr>) }"

text \<open>The second part: the command of the keyboard, from the characters at hand.\<close>

datatype game_condition_t = GAME_WON | GAME_QUIT | Playing

definition keyboard_step :: "nat list \<Rightarrow> game \<Rightarrow> (game_condition_t \<times> nat list \<times> game) option" where
  "keyboard_step chars g =
     (let (cmd, rest, k) = get_kb_cmd chars (keys g); g = g\<lparr>keys := k\<rparr> in
      if cmd = CMD_QUIT then Some (GAME_QUIT, rest, g)
      else do {
        g \<leftarrow> run_command cmd g;
        Some (if player g = None then GAME_WON else Playing, rest, g) })"

text \<open>The Tux thread runs the command that the event loop has read from the controller.\<close>

definition tux_step :: "32 word \<Rightarrow> game \<Rightarrow> game option" where
  "tux_step tux_input g =
     (let (cmd, btns) = get_tux_cmd tux_input (curr_btns g) in run_command cmd (g\<lparr>curr_btns := btns\<rparr>))"

text \<open>The status thread clears the message when it has been shown for 1.5 seconds.\<close>

definition clear_status :: "game \<Rightarrow> game" where
  "clear_status g = g\<lparr>wld := (wld g)\<lparr>status_msg := []\<rparr>\<rparr>"

text \<open>The checks on the table of commands: every entry can be typed, and every command has one.  The type
  leaves no place for an invalid command number.\<close>

definition NUM_TC_VALUES :: "cmd_id_t list" where
  "NUM_TC_VALUES = [TC_BUY, TC_CHARGE, TC_DO, TC_DRINK, TC_DROP, TC_FIX, TC_FLASH, TC_GET, TC_GO,
     TC_INSTALL, TC_INVENTORY, TC_SIGH, TC_USE, TC_WEAR]"

definition can_match :: "typed_cmd_t \<Rightarrow> bool" where
  "can_match e \<longleftrightarrow> \<not> 1 > min_len e \<and> \<not> min_len e > length (tc_name e)"

definition sanity_check :: "typed_cmd_t list \<Rightarrow> int" where
  "sanity_check cmds =
     (let ret_val = (if list_all can_match cmds then 0 else - 1);
          cnt = (\<lambda>c. length (filter (\<lambda>e. can_match e \<and> tc_cmd e = c) cmds))
      in if list_ex (\<lambda>c. cnt c = 0) NUM_TC_VALUES then - 1 else ret_val)"

text \<open>The start of \<open>main\<close>; \<open>None\<close> where it panics.\<close>

definition start_game :: "files \<Rightarrow> game \<Rightarrow> game option" where
  "start_game files g = do {
     (ok, w) \<leftarrow> build_world files (wld g);
     if \<not> ok then None
     else do {
       let g = init_game (g\<lparr>wld := w\<rparr>);
       if 0 \<noteq> sanity_check cmd_list then None
       else do {
         m \<leftarrow> setup_buffer (scr g);
         Some (g\<lparr>scr := clear_screens m, enter_room := True, curr_btns := replicate 8 1\<rparr>) } } }"

lemma sanity_check_passes [simp]: "sanity_check cmd_list = 0"
  by code_simp

end
