(* ===== verification/ModexView.thy ===== *)
theory ModexView
  imports Modex
begin

text \<open>
  The build buffer as a picture.  Pixel \<open>(x, y)\<close> of the logical space has the cell \<open>cell off x y\<close>; the
  cells of a view window are distinct and inside the buffer, the draw routines write exactly the
  cells of their line, moving the window keeps every pixel that stays visible, and the display shows
  the window.
\<close>

section \<open>Cells\<close>

definition cell :: "int \<Rightarrow> int \<Rightarrow> int \<Rightarrow> int" where
  "cell off x y = off + 256 + x div 4 + y * 80 + (3 - x mod 4) * 14560"

definition in_view :: "int \<Rightarrow> int \<Rightarrow> int \<Rightarrow> int \<Rightarrow> bool" where
  "in_view X Y x y \<longleftrightarrow> X \<le> x \<and> x < X + 320 \<and> Y \<le> y \<and> y < Y + 182"

text \<open>Where in its plane a cell lies: planes whose first column is left of the window start one byte
  further on.\<close>

definition plane_start :: "int \<Rightarrow> int \<Rightarrow> int \<Rightarrow> int \<Rightarrow> int" where
  "plane_start off X Y q = off + 256 + X div 4 + Y * 80 + q * 14560 + (if 3 - q < X mod 4 then 1 else 0)"

lemma column_steps: "X \<le> x \<Longrightarrow> x < X + 320 \<Longrightarrow>
    X div 4 + (if x mod 4 < X mod 4 then 1 else 0) \<le> x div 4 \<and> x div 4 < X div 4 + 80 + (if x mod 4 < X mod 4 then 1 else (0 :: int))"
proof -
  have m: "x div 4 * 4 + x mod 4 = x" "X div 4 * 4 + X mod 4 = X" "0 \<le> x mod 4" "x mod 4 < 4" "0 \<le> X mod 4" "X mod 4 < 4"
    by simp_all
  assume "X \<le> x" "x < X + 320"
  then show ?thesis using m by (cases "x mod 4 < X mod 4") (simp_all only: if_True if_False, linarith+)
qed

lemma cell_range:
  assumes "in_view X Y x y"
  shows "plane_start off X Y (3 - x mod 4) \<le> cell off x y"
    and "cell off x y < plane_start off X Y (3 - x mod 4) + 14560"
proof -
  have c: "X div 4 + (if x mod 4 < X mod 4 then 1 else 0) \<le> x div 4"
    "x div 4 < X div 4 + 80 + (if x mod 4 < X mod 4 then 1 else 0)"
    using column_steps [of X x] assms by (auto simp: in_view_def)
  have y: "Y * 80 \<le> y * 80" "y * 80 \<le> Y * 80 + 14480" using assms by (auto simp: in_view_def)
  show "plane_start off X Y (3 - x mod 4) \<le> cell off x y"
    using c y by (simp add: plane_start_def cell_def split: if_splits)
  show "cell off x y < plane_start off X Y (3 - x mod 4) + 14560"
    using c y by (simp add: plane_start_def cell_def split: if_splits)
qed

lemma plane_start_mono:
  assumes "0 \<le> q" and "q < q'" and "q' \<le> 3"
  shows "plane_start off X Y q + 14560 \<le> plane_start off X Y q'"
proof -
  have "q * 14560 + 14560 \<le> q' * 14560" using assms(2) by linarith
  then show ?thesis using assms(2) by (simp add: plane_start_def)
qed

lemma cell_inject:
  assumes "in_view X Y x y" and "in_view X Y x' y'" and eq: "cell off x y = cell off x' y'"
  shows "x = x' \<and> y = y'"
proof -
  have m: "0 \<le> x mod 4" "x mod 4 < 4" "0 \<le> x' mod 4" "x' mod 4 < 4" by simp_all
  note r = cell_range [OF assms(1), of off] cell_range [OF assms(2), of off]
  have "\<not> 3 - x mod 4 < 3 - x' mod 4" "\<not> 3 - x' mod 4 < 3 - x mod 4"
    using plane_start_mono [of "3 - x mod 4" "3 - x' mod 4" off X Y] plane_start_mono [of "3 - x' mod 4" "3 - x mod 4" off X Y] r eq m
    by linarith+
  then have q: "x mod 4 = x' mod 4" by linarith
  then have d: "x div 4 + y * 80 = x' div 4 + y' * 80" using eq by (simp add: cell_def)
  have "x div 4 < x' div 4 + 80" "x' div 4 < x div 4 + 80"
    using column_steps [of X x] column_steps [of X x'] assms(1,2) q by (auto simp: in_view_def)
  then have "y = y'" using d by linarith
  moreover have "x = x'" using d q \<open>y = y'\<close> div_mult_mod_eq [of x 4] div_mult_mod_eq [of x' 4] by linarith
  ultimately show ?thesis by simp
qed

lemma plane_start_bounds:
  assumes "fits off X Y"
  shows "256 \<le> plane_start off X Y 0" and "plane_start off X Y 3 + 14560 \<le> 78497"
proof -
  show "256 \<le> plane_start off X Y 0" using assms by (simp add: fits_def plane_start_def)
  have "(X + 319) div 4 = X div 4 + 79 + (if 0 < X mod 4 then 1 else 0)"
  proof -
    have m: "X div 4 * 4 + X mod 4 = X" "(X + 319) div 4 * 4 + (X + 319) mod 4 = X + 319" "0 \<le> X mod 4" "X mod 4 < 4"
      "0 \<le> (X + 319) mod 4" "(X + 319) mod 4 < 4" by simp_all
    have "(X + 319) div 4 = X div 4 + 80" if "0 < X mod 4" using m that by linarith
    moreover have "(X + 319) div 4 = X div 4 + 79" if "X mod 4 = 0" using m that by linarith
    ultimately show ?thesis using m(3) by (cases "X mod 4 = 0") simp_all
  qed
  then show "plane_start off X Y 3 + 14560 \<le> 78497" using assms by (simp add: fits_def plane_start_def split: if_splits)
qed

lemma cell_in_build:
  assumes "fits off X Y" and "in_view X Y x y"
  shows "256 \<le> cell off x y" and "cell off x y < 78497" and "in_build (cell off x y)"
proof -
  have m: "0 \<le> 3 - x mod 4" "3 - x mod 4 \<le> 3" using pos_mod_bound [of 4 x] pos_mod_sign [of 4 x] by linarith+
  have "plane_start off X Y q \<le> plane_start off X Y q'" if "0 \<le> q" "q \<le> q'" "q' \<le> 3" for q q'
    using plane_start_mono [of q q' off X Y] that by (cases "q = q'") auto
  then have "plane_start off X Y 0 \<le> plane_start off X Y (3 - x mod 4)" "plane_start off X Y (3 - x mod 4) \<le> plane_start off X Y 3"
    using m by simp_all
  then show "256 \<le> cell off x y" "cell off x y < 78497"
    using cell_range [OF assms(2), of off] plane_start_bounds [OF assms(1)] by linarith+
  then show "in_build (cell off x y)" by (simp add: in_build_def)
qed

section \<open>Drawing\<close>

text \<open>Writing a list of bytes at given addresses.\<close>

primrec poke_all :: "(nat \<Rightarrow> int) \<Rightarrow> u8 list \<Rightarrow> memory \<Rightarrow> memory option" where
  "poke_all f [] b = Some b"
| "poke_all f (v # vs) b = do { b \<leftarrow> poke (f 0) v b; poke_all (\<lambda>i. f (Suc i)) vs b }"

lemma poke_all_writes:
  assumes "\<And>i. i < length vs \<Longrightarrow> in_build (f i)" and "\<And>i j. i < length vs \<Longrightarrow> j < length vs \<Longrightarrow> f i = f j \<Longrightarrow> i = j"
  shows "\<exists>b'. poke_all f vs b = Some b' \<and> (\<forall>i<length vs. b' (f i) = vs ! i)
    \<and> (\<forall>a. (\<forall>i<length vs. a \<noteq> f i) \<longrightarrow> b' a = b a)"
  using assms
proof (induction vs arbitrary: f b)
  case Nil
  then show ?case by simp
next
  case (Cons v vs)
  let ?g = "\<lambda>i. f (Suc i)"
  have "\<And>i. i < length vs \<Longrightarrow> in_build (?g i)" "\<And>i j. i < length vs \<Longrightarrow> j < length vs \<Longrightarrow> ?g i = ?g j \<Longrightarrow> i = j"
    using Cons.prems by fastforce+
  from Cons.IH [where f = ?g and b = "b(f 0 := v)", OF this]
  obtain b' where b': "poke_all ?g vs (b(f 0 := v)) = Some b'" "\<forall>i<length vs. b' (f (Suc i)) = vs ! i"
      "\<forall>a. (\<forall>i<length vs. a \<noteq> f (Suc i)) \<longrightarrow> b' a = (b(f 0 := v)) a" by blast
  have first: "f 0 \<noteq> f (Suc i)" if "i < length vs" for i using Cons.prems(2) [of 0 "Suc i"] that by auto
  have "poke_all f (v # vs) b = Some b'" using b'(1) Cons.prems(1) [of 0] by (simp add: poke_def)
  moreover have "b' (f i) = (v # vs) ! i" if "i < length (v # vs)" for i
  proof (cases i)
    case 0
    then show ?thesis using b'(3) first by simp
  next
    case (Suc j)
    then show ?thesis using b'(2) that by simp
  qed
  moreover have "b' a = b a" if "\<forall>i<length (v # vs). a \<noteq> f i" for a
  proof -
    have "a \<noteq> f 0" "\<forall>i<length vs. a \<noteq> f (Suc i)" using that by auto
    then show ?thesis using b'(3) by simp
  qed
  ultimately show ?case by blast
qed

lemma vert_loop_cells: "vert_loop (cell off x y) vs b = poke_all (\<lambda>i. cell off x (y + int i)) vs b"
proof (induction vs arbitrary: y b)
  case (Cons v vs)
  have "cell off x y + 80 = cell off x (y + 1)" by (simp add: cell_def)
  moreover have "cell off x (y + int (Suc i)) = cell off x (y + 1 + int i)" for i by (simp add: algebra_simps)
  ultimately show ?case using Cons.IH [of "y + 1"] by simp
qed simp

lemma next_column:
  "(x + 1) div 4 = (if x mod 4 = 3 then x div 4 + 1 else x div 4)" "(x + 1) mod 4 = (if x mod 4 = 3 then 0 else x mod 4 + (1 :: int))"
proof -
  have m: "x div 4 * 4 + x mod 4 = x" "(x + 1) div 4 * 4 + (x + 1) mod 4 = x + 1" "0 \<le> x mod 4" "x mod 4 < 4"
    "0 \<le> (x + 1) mod 4" "(x + 1) mod 4 < 4" by simp_all
  have d1: "(x + 1) div 4 = x div 4 + 1" if "x mod 4 = 3" using m that by linarith
  have d2: "(x + 1) div 4 = x div 4" if "x mod 4 \<noteq> 3" using m that by linarith
  have last: "(x + 1) div 4 = x div 4 + 1" "(x + 1) mod 4 = 0" if "x mod 4 = 3"
    using m(1,2) that d1 [OF that] by linarith+
  have inner: "(x + 1) div 4 = x div 4" "(x + 1) mod 4 = x mod 4 + 1" if "x mod 4 \<noteq> 3"
    using m(1,2) that d2 [OF that] by linarith+
  show "(x + 1) div 4 = (if x mod 4 = 3 then x div 4 + 1 else x div 4)"
    "(x + 1) mod 4 = (if x mod 4 = 3 then 0 else x mod 4 + (1 :: int))" using last inner by simp_all
qed

lemma horiz_loop_cells:
  "horiz_loop (off + 256 + x div 4 + y * 80) (3 - x mod 4) vs b = poke_all (\<lambda>i. cell off (x + int i) y) vs b"
proof (induction vs arbitrary: x b)
  case (Cons v vs)
  have shift: "(\<lambda>i. cell off (x + int (Suc i)) y) = (\<lambda>i. cell off (x + 1 + int i) y)" by (simp add: algebra_simps)
  have here: "off + 256 + x div 4 + y * 80 + (3 - x mod 4) * 14560 = cell off x y" by (simp add: cell_def)
  have rest: "(if 3 - x mod 4 - 1 < 0 then horiz_loop (off + 256 + x div 4 + y * 80 + 1) 3 vs b
      else horiz_loop (off + 256 + x div 4 + y * 80) (3 - x mod 4 - 1) vs b)
    = poke_all (\<lambda>i. cell off (x + 1 + int i) y) vs b" for b
  proof (cases "x mod 4 = 3")
    case True
    then show ?thesis using Cons.IH [of "x + 1" b] unfolding next_column by (simp add: algebra_simps)
  next
    case False
    have "x mod 4 < 4" by simp
    then have "\<not> 3 - x mod 4 - 1 < 0" using False by linarith
    moreover have "3 - x mod 4 - 1 = 3 - (x mod 4 + 1)" by simp
    ultimately show ?thesis using Cons.IH [of "x + 1" b] False unfolding next_column by (simp only: if_False)
  qed
  show ?case unfolding horiz_loop.simps poke_all.simps here shift rest by simp
qed simp

text \<open>The window shows a picture when every cell of the window holds the colour of its pixel.\<close>

definition fits_view :: "modex \<Rightarrow> bool" where
  "fits_view m \<longleftrightarrow> fits (img3_off m) (show_x m) (show_y m)"

definition pixel :: "modex \<Rightarrow> int \<Rightarrow> int \<Rightarrow> u8" where
  "pixel m x y = build m (cell (img3_off m) x y)"

lemma draw_vert_line_draws:
  assumes "fits_view m" and "0 \<le> x" and "x < 320" and "fill (show_x m + x) (show_y m) = Some vs" and "length vs = 182"
  shows "\<exists>m'. draw_vert_line fill x m = Some (0, m') \<and> show_x m' = show_x m \<and> show_y m' = show_y m
    \<and> img3_off m' = img3_off m \<and> video m' = video m \<and> target_img m' = target_img m
    \<and> (\<forall>px py. in_view (show_x m) (show_y m) px py \<longrightarrow>
         pixel m' px py = (if px = show_x m + x then vs ! nat (py - show_y m) else pixel m px py))"
proof -
  let ?X = "show_x m" and ?Y = "show_y m" and ?o = "img3_off m"
  let ?f = "\<lambda>i. cell ?o (?X + x) (?Y + int i)"
  have fits: "fits ?o ?X ?Y" using assms(1) by (simp add: fits_view_def)
  have view: "in_view ?X ?Y (?X + x) (?Y + int i)" if "i < 182" for i using that assms(2,3) by (simp add: in_view_def)
  have "\<exists>b'. poke_all ?f vs (build m) = Some b' \<and> (\<forall>i<length vs. b' (?f i) = vs ! i)
    \<and> (\<forall>a. (\<forall>i<length vs. a \<noteq> ?f i) \<longrightarrow> b' a = build m a)"
  proof (rule poke_all_writes)
    fix i j assume i: "i < length vs"
    show "in_build (?f i)" using cell_in_build(3) [OF fits view] i assms(5) by simp
    assume j: "j < length vs" and eq: "?f i = ?f j"
    show "i = j" using cell_inject [OF view view eq] i j assms(5) by simp
  qed
  then obtain b' where b': "poke_all ?f vs (build m) = Some b'" "\<forall>i<182. b' (?f i) = vs ! i"
      "\<forall>a. (\<forall>i<182. a \<noteq> ?f i) \<longrightarrow> b' a = build m a" using assms(5) by auto
  have addr: "img3 m + (x + ?X) div 4 + ?Y * 80 + (3 - (x + ?X) mod 4) * 14560 = cell ?o (?X + x) ?Y"
    by (simp add: img3_def cell_def add.commute)
  have run: "draw_vert_line fill x m = Some (0, m\<lparr>build := b'\<rparr>)"
    using assms(2-4) b'(1) unfolding draw_vert_line_def Let_def addr vert_loop_cells by (simp add: add.commute)
  have pix: "b' (cell ?o px py) = (if px = ?X + x then vs ! nat (py - ?Y) else build m (cell ?o px py))"
    if v: "in_view ?X ?Y px py" for px py
  proof (cases "px = ?X + x")
    case True
    have "nat (py - ?Y) < 182" "?Y + int (nat (py - ?Y)) = py" using v by (auto simp: in_view_def)
    then show ?thesis using b'(2) True by metis
  next
    case False
    then have "\<forall>i<182. cell ?o px py \<noteq> ?f i" using cell_inject [OF v view] by blast
    then show ?thesis using b'(3) False by simp
  qed
  show ?thesis by (rule exI [of _ "m\<lparr>build := b'\<rparr>"]) (simp add: run pixel_def pix)
qed

lemma draw_horiz_line_draws:
  assumes "fits_view m" and "0 \<le> y" and "y < 182" and "fill (show_x m) (show_y m + y) = Some vs" and "length vs = 320"
  shows "\<exists>m'. draw_horiz_line fill y m = Some (0, m') \<and> show_x m' = show_x m \<and> show_y m' = show_y m
    \<and> img3_off m' = img3_off m \<and> video m' = video m \<and> target_img m' = target_img m
    \<and> (\<forall>px py. in_view (show_x m) (show_y m) px py \<longrightarrow>
         pixel m' px py = (if py = show_y m + y then vs ! nat (px - show_x m) else pixel m px py))"
proof -
  let ?X = "show_x m" and ?Y = "show_y m" and ?o = "img3_off m"
  let ?f = "\<lambda>i. cell ?o (?X + int i) (?Y + y)"
  have fits: "fits ?o ?X ?Y" using assms(1) by (simp add: fits_view_def)
  have view: "in_view ?X ?Y (?X + int i) (?Y + y)" if "i < 320" for i using that assms(2,3) by (simp add: in_view_def)
  have "\<exists>b'. poke_all ?f vs (build m) = Some b' \<and> (\<forall>i<length vs. b' (?f i) = vs ! i)
    \<and> (\<forall>a. (\<forall>i<length vs. a \<noteq> ?f i) \<longrightarrow> b' a = build m a)"
  proof (rule poke_all_writes)
    fix i j assume i: "i < length vs"
    show "in_build (?f i)" using cell_in_build(3) [OF fits view] i assms(5) by simp
    assume j: "j < length vs" and eq: "?f i = ?f j"
    show "i = j" using cell_inject [OF view view eq] i j assms(5) by simp
  qed
  then obtain b' where b': "poke_all ?f vs (build m) = Some b'" "\<forall>i<320. b' (?f i) = vs ! i"
      "\<forall>a. (\<forall>i<320. a \<noteq> ?f i) \<longrightarrow> b' a = build m a" using assms(5) by auto
  have run: "draw_horiz_line fill y m = Some (0, m\<lparr>build := b'\<rparr>)"
    using assms(2-4) b'(1) horiz_loop_cells [of ?o ?X "?Y + y" vs "build m"]
    unfolding draw_horiz_line_def Let_def by (simp add: img3_def add.commute)
  have pix: "b' (cell ?o px py) = (if py = ?Y + y then vs ! nat (px - ?X) else build m (cell ?o px py))"
    if v: "in_view ?X ?Y px py" for px py
  proof (cases "py = ?Y + y")
    case True
    have "nat (px - ?X) < 320" "?X + int (nat (px - ?X)) = px" using v by (auto simp: in_view_def)
    then show ?thesis using b'(2) True by metis
  next
    case False
    then have "\<forall>i<320. cell ?o px py \<noteq> ?f i" using cell_inject [OF v view] by blast
    then show ?thesis using b'(3) False by simp
  qed
  show ?thesis by (rule exI [of _ "m\<lparr>build := b'\<rparr>"]) (simp add: run pixel_def pix)
qed

section \<open>Moving the window\<close>

lemma copy_down_moves:
  assumes "start < target" and "\<And>i. i < n \<Longrightarrow> in_build (start + int i) \<and> in_build (target + int i)"
  shows "\<exists>b'. copy_down n target start b = Some b' \<and> (\<forall>i<n. b' (target + int i) = b (start + int i))
    \<and> (\<forall>a. a < target \<or> target + int n \<le> a \<longrightarrow> b' a = b a)"
  using assms
proof (induction n arbitrary: b)
  case (Suc n)
  let ?b = "b(target + int n := b (start + int n))"
  obtain b' where b': "copy_down n target start ?b = Some b'" "\<forall>i<n. b' (target + int i) = ?b (start + int i)"
      "\<forall>a. a < target \<or> target + int n \<le> a \<longrightarrow> b' a = ?b a"
    using Suc.IH [of ?b] Suc.prems by (metis less_SucI)
  have "copy_down (Suc n) target start b = Some b'" using b'(1) Suc.prems(2) [of n] by (simp add: peek_def poke_def)
  moreover have "b' (target + int i) = b (start + int i)" if "i < Suc n" for i
  proof (cases "i = n")
    case True
    then show ?thesis using b'(3) by simp
  next
    case False
    then have "i < n" using that by simp
    then have "b' (target + int i) = ?b (start + int i)" using b'(2) by blast
    moreover have "start + int i \<noteq> target + int n" using Suc.prems(1) \<open>i < n\<close> by simp
    ultimately show ?thesis by simp
  qed
  moreover have "\<forall>a. a < target \<or> target + int (Suc n) \<le> a \<longrightarrow> b' a = b a" using b'(3) by auto
  ultimately show ?case by blast
qed simp

lemma copy_up_moves:
  assumes "target \<le> start" and "\<And>i. i < n \<Longrightarrow> in_build (start + int i) \<and> in_build (target + int i)"
  shows "\<exists>b'. copy_up n target start b = Some b' \<and> (\<forall>i<n. b' (target + int i) = b (start + int i))
    \<and> (\<forall>a. a < target \<or> target + int n \<le> a \<longrightarrow> b' a = b a)"
  using assms
proof (induction n arbitrary: b target start)
  case (Suc n)
  let ?b = "b(target := b start)"
  have "in_build (start + 1 + int i) \<and> in_build (target + 1 + int i)" if "i < n" for i
    using Suc.prems(2) [of "Suc i"] that by (simp add: add.assoc)
  note ok = this
  have "target + 1 \<le> start + 1" using Suc.prems(1) by simp
  from Suc.IH [OF this ok, of ?b]
  obtain b' where b': "copy_up n (target + 1) (start + 1) ?b = Some b'"
      "\<forall>i<n. b' (target + 1 + int i) = ?b (start + 1 + int i)"
      "\<forall>a. a < target + 1 \<or> target + 1 + int n \<le> a \<longrightarrow> b' a = ?b a" by blast
  have "copy_up (Suc n) target start b = Some b'" using b'(1) Suc.prems(2) [of 0] by (simp add: peek_def poke_def)
  moreover have "b' (target + int i) = b (start + int i)" if "i < Suc n" for i
  proof (cases i)
    case 0
    then show ?thesis using b'(3) by simp
  next
    case (Suc j)
    then have "b' (target + int i) = ?b (start + 1 + int j)" using b'(2) that by (simp add: add.assoc)
    moreover have "start + 1 + int j \<noteq> target" using Suc.prems(1) by simp
    ultimately show ?thesis using Suc by (simp add: add.assoc)
  qed
  moreover have "\<forall>a. a < target \<or> target + int (Suc n) \<le> a \<longrightarrow> b' a = b a" using b'(3) by auto
  ultimately show ?case by blast
qed simp

text \<open>The offset of a pixel from the start of the picture, and the part of the buffer that is copied.\<close>

definition offset :: "int \<Rightarrow> int \<Rightarrow> int" where
  "offset x y = x div 4 + y * 80 + (3 - x mod 4) * 14560"

lemma cell_offset: "cell off x y = off + 256 + offset x y"
  by (simp add: cell_def offset_def)

lemma new_fits: "fits (10000 - x div 4 - y * 80) x y"
proof -
  have "(x + 319) div 4 \<le> x div 4 + 80"
    using div_mult_mod_eq [of x 4] div_mult_mod_eq [of "x + 319" 4] pos_mod_bound [of 4 x] pos_mod_sign [of 4 "x + 319"]
    by linarith
  then show ?thesis by (simp add: fits_def)
qed

definition view_top :: "int \<Rightarrow> int \<Rightarrow> int" where
  "view_top x y = x div 4 + y * 80"

definition view_end :: "int \<Rightarrow> int \<Rightarrow> int" where
  "view_end x y = (x + 319) div 4 + (y + 181) * 80 + 43680"

lemma fits_iff: "fits off x y \<longleftrightarrow> 0 \<le> off + view_top x y \<and> off + view_end x y < 78241"
  by (auto simp: fits_def view_top_def view_end_def)

lemma offset_between:
  assumes "sx \<le> x" and "x \<le> ex" and "sy \<le> y" and "y \<le> ey"
  shows "sx div 4 + sy * 80 \<le> offset x y" and "offset x y \<le> ex div 4 + ey * 80 + 43680"
proof -
  have "sx div 4 \<le> x div 4" "x div 4 \<le> ex div 4" using assms(1,2) by (simp_all add: zdiv_mono1)
  moreover have "0 \<le> x mod 4" "x mod 4 < 4" by simp_all
  ultimately show "sx div 4 + sy * 80 \<le> offset x y" "offset x y \<le> ex div 4 + ey * 80 + 43680"
    using assms(3,4) by (simp_all add: offset_def)
qed

lemma set_view_window_keeps:
  assumes "fits_view m"
  shows "\<exists>m'. set_view_window x y m = Some m' \<and> fits_view m' \<and> show_x m' = x \<and> show_y m' = y
    \<and> video m' = video m \<and> target_img m' = target_img m
    \<and> (\<forall>px py. in_view (show_x m) (show_y m) px py \<and> in_view x y px py \<longrightarrow> pixel m' px py = pixel m px py)"
proof -
  let ?ox = "show_x m" and ?oy = "show_y m" and ?off = "img3_off m" and ?new = "10000 - x div 4 - y * 80"
  consider (fit) "fits ?off x y"
    | (far) "\<not> fits ?off x y" "x \<le> ?ox - 320 \<or> x \<ge> ?ox + 320 \<or> y \<le> ?oy - 182 \<or> y \<ge> ?oy + 182"
    | (copy) "\<not> fits ?off x y" "\<not> (x \<le> ?ox - 320 \<or> x \<ge> ?ox + 320 \<or> y \<le> ?oy - 182 \<or> y \<ge> ?oy + 182)" by blast
  then show ?thesis
  proof cases
    case fit
    then show ?thesis by (simp add: set_view_window_def Let_def fits_view_def pixel_def)
  next
    case far
    then have "set_view_window x y m = Some (m\<lparr>show_x := x, show_y := y, img3_off := ?new\<rparr>)"
      by (simp add: set_view_window_def Let_def)
    moreover have "\<not> (in_view ?ox ?oy px py \<and> in_view x y px py)" for px py using far(2) by (auto simp: in_view_def)
    ultimately show ?thesis using new_fits [of x y] by (auto simp: fits_view_def)
  next
    case copy
    define sx sy ex ey where "sx = max x ?ox" and "sy = max y ?oy" and "ex = min x ?ox + 319" and "ey = min y ?oy + 181"
    define so n where "so = sx div 4 + sy * 80" and "n = nat (ex div 4 + ey * 80 + 1 - so + 43680)"
    let ?m = "m\<lparr>show_x := x, show_y := y, img3_off := ?new\<rparr>"
    let ?start = "?off + 256 + so" and ?target = "?new + 256 + so"
    have if_max: "(if x > ?ox then (x, ?ox) else (?ox, x)) = (sx, ex - 319)" "(if y > ?oy then (y, ?oy) else (?oy, y)) = (sy, ey - 181)"
      by (auto simp: sx_def ex_def sy_def ey_def max_def min_def)
    have run: "set_view_window x y m = do {
        b \<leftarrow> (if ?start < ?target then copy_down n ?target ?start (build m) else copy_up n ?target ?start (build m));
        Some (?m\<lparr>build := b\<rparr>) }"
      using copy unfolding set_view_window_def Let_def if_max img3_def
      by (simp add: so_def n_def)
    have x_le: "?ox div 4 \<le> sx div 4" "x div 4 \<le> sx div 4" "ex div 4 \<le> (?ox + 319) div 4" "ex div 4 \<le> (x + 319) div 4"
      by (simp_all add: sx_def ex_def zdiv_mono1)
    have y_le: "?oy \<le> sy" "y \<le> sy" "ey \<le> ?oy + 181" "ey \<le> y + 181" by (simp_all add: sy_def ey_def)
    have le: "view_top ?ox ?oy \<le> so" "view_top x y \<le> so"
      unfolding view_top_def so_def by (rule add_mono, use x_le y_le in simp, use y_le in simp)+
    have ge: "ex div 4 + ey * 80 + 43680 \<le> view_end ?ox ?oy" "ex div 4 + ey * 80 + 43680 \<le> view_end x y"
      unfolding view_end_def by (rule add_right_mono, rule add_mono, use x_le y_le in simp, use y_le in simp)+
    have lo: "0 \<le> ?off + so" "0 \<le> ?new + so" and
        hi: "?off + (ex div 4 + ey * 80 + 43680) < 78241" "?new + (ex div 4 + ey * 80 + 43680) < 78241"
      using le ge assms new_fits [of x y] unfolding fits_view_def fits_iff by linarith+
    have bound: "so + int i \<le> ex div 4 + ey * 80 + 43680" if "i < n" for i using that by (simp add: n_def)
    have ok: "in_build (?start + int i) \<and> in_build (?target + int i)" if "i < n" for i
      using bound [OF that] lo hi unfolding in_build_def by linarith
    obtain b' where b': "(if ?start < ?target then copy_down n ?target ?start (build m) else copy_up n ?target ?start (build m)) = Some b'"
        "\<forall>i<n. b' (?target + int i) = build m (?start + int i)"
    proof (cases "?start < ?target")
      case True
      then show ?thesis using copy_down_moves [of ?start ?target n "build m"] ok that by auto
    next
      case False
      then show ?thesis using copy_up_moves [of ?target ?start n "build m"] ok that by auto
    qed
    have "b' (cell ?new px py) = build m (cell ?off px py)" if v: "in_view ?ox ?oy px py" "in_view x y px py" for px py
    proof -
      have in_copy: "sx \<le> px" "px \<le> ex" "sy \<le> py" "py \<le> ey" using v by (auto simp: in_view_def sx_def sy_def ex_def ey_def)
      note o = offset_between [OF in_copy]
      have "so \<le> offset px py" and "nat (offset px py - so) < n" using o by (simp_all add: so_def n_def)
      then have "b' (?target + int (nat (offset px py - so))) = build m (?start + int (nat (offset px py - so)))"
        using b'(2) by blast
      with \<open>so \<le> offset px py\<close> show ?thesis by (simp add: cell_offset add.assoc)
    qed
    then show ?thesis using run b'(1) new_fits [of x y]
      by (intro exI [of _ "?m\<lparr>build := b'\<rparr>"]) (simp add: fits_view_def pixel_def)
  qed
qed

section \<open>The display\<close>

text \<open>The two display pages start behind the status bar, \<open>0x4000\<close> apart.\<close>

definition page_ok :: "modex \<Rightarrow> bool" where
  "page_ok m \<longleftrightarrow> target_img m = 1440 \<or> target_img m = 17824"

lemma page_flip: "page_ok m \<Longrightarrow> target_img m XOR 0x4000 = (if target_img m = 1440 then 17824 else 1440)"
  by (auto simp: page_ok_def)

lemma column_of_plane:
  fixes X a i :: int
  assumes "0 \<le> i" and "i < 4"
  shows "(X + (4 * a + i)) div 4 = X div 4 + a + of_bool (3 - X mod 4 < i)"
    and "(X + (4 * a + i)) mod 4 = X mod 4 + i - 4 * of_bool (3 - X mod 4 < i)"
    and "(3 - X mod 4 - i + 4) mod 4 = 3 - X mod 4 - i + 4 * of_bool (3 - X mod 4 < i)"
proof -
  define k r where "k = X div 4" and "r = X mod 4"
  have X: "X = 4 * k + r" and r: "0 \<le> r" "r < 4" by (simp_all add: k_def r_def)
  define c :: int where "c = of_bool (3 - r < i)"
  have c: "0 \<le> r + i - 4 * c" "r + i - 4 * c < 4" "0 \<le> 3 - r - i + 4 * c" "3 - r - i + 4 * c < 4"
    using r assms by (simp_all add: c_def)
  have e: "X + (4 * a + i) = 4 * (k + a + c) + (r + i - 4 * c)" "3 - r - i + 4 = 4 * (1 - c) + (3 - r - i + 4 * c)"
    using X by simp_all
  have "(X + (4 * a + i)) div 4 = k + a + of_bool (3 - r < i)"
    using int_div_pos_eq [OF e(1) c(1,2)] by (simp add: c_def)
  moreover have "(X + (4 * a + i)) mod 4 = r + i - 4 * of_bool (3 - r < i)"
    using int_mod_pos_eq [OF e(1) c(1,2)] by (simp add: c_def)
  moreover have "(3 - r - i + 4) mod 4 = 3 - r - i + 4 * of_bool (3 - r < i)"
    using int_mod_pos_eq [OF e(2) c(3,4)] by (simp add: c_def)
  ultimately show "(X + (4 * a + i)) div 4 = X div 4 + a + of_bool (3 - X mod 4 < i)"
    "(X + (4 * a + i)) mod 4 = X mod 4 + i - 4 * of_bool (3 - X mod 4 < i)"
    "(3 - X mod 4 - i + 4) mod 4 = 3 - X mod 4 - i + 4 * of_bool (3 - X mod 4 < i)"
    unfolding k_def r_def .
qed

lemma plane_source_pixel:
  assumes "0 \<le> a" and "0 \<le> i" and "i < 4"
  shows "plane_source m i + (r * 80 + a) = cell (img3_off m) (show_x m + (4 * a + i)) (show_y m + r)"
proof -
  note q = column_of_plane [OF assms(2,3)]
  show ?thesis unfolding plane_source_def Let_def cell_def img3_def q by (simp add: algebra_simps)
qed

lemma copy_plane_at:
  "copy_plane p n img s mem v q a = (if p = q \<and> s \<le> a \<and> a < s + n then mem (img + (a - s)) else v q a)"
  by (simp add: copy_plane_def)

lemma copy_image_fields [simp]:
  "build (copy_image i img s m) = build m" "img3_off (copy_image i img s m) = img3_off m"
  "show_x (copy_image i img s m) = show_x m" "show_y (copy_image i img s m) = show_y m"
  "target_img (copy_image i img s m) = target_img m"
  "video (copy_image i img s m) = copy_plane i 16000 img (uint s) (build m) (video m)"
  by (simp_all add: copy_image_def)

lemma plane_source_cong [simp]: "plane_source (copy_image i img s m) = plane_source m"
  "plane_source (m\<lparr>target_img := t\<rparr>) = plane_source m"
  by (simp_all add: fun_eq_iff plane_source_def img3_def)

lemma show_screen_video:
  "video (show_screen m) p a =
     (let s = uint (target_img m XOR 0x4000) in
      if p < 4 \<and> s \<le> a \<and> a < s + 16000 then build m (plane_source m (int p) + (a - s)) else video m p a)"
proof -
  have "p < 4 \<longleftrightarrow> p = 0 \<or> p = 1 \<or> p = 2 \<or> p = 3" by auto
  then show ?thesis by (auto simp: show_screen_def Let_def copy_plane_at)
qed

lemma show_screen_fields [simp]:
  "start_address (show_screen m) = target_img m XOR 0x4000" "target_img (show_screen m) = target_img m XOR 0x4000"
  "build (show_screen m) = build m" "img3_off (show_screen m) = img3_off m"
  "show_x (show_screen m) = show_x m" "show_y (show_screen m) = show_y m"
  by (simp_all add: show_screen_def Let_def)

lemma show_screen_shows_pixel:
  assumes "page_ok m" and "i < 4" and "0 \<le> a" "a < 80" and "0 \<le> r" "r < 182"
  shows "video (show_screen m) i (uint (start_address (show_screen m)) + r * 80 + a)
    = pixel m (show_x m + 4 * a + int i) (show_y m + r)"
proof -
  have "r * 80 + a < 16000" "0 \<le> r * 80 + a" using assms(3-6) by linarith+
  then show ?thesis
    using assms(2) plane_source_pixel [OF assms(3), of "int i" m r]
    by (simp add: show_screen_video Let_def pixel_def add.assoc)
qed

lemma show_screen_elsewhere:
  assumes "page_ok m" and "a < 1440 \<or> (uint (target_img m) \<le> a \<and> a < uint (target_img m) + 14560)"
  shows "video (show_screen m) i a = video m i a"
  using assms by (auto simp: show_screen_video Let_def page_ok_def)

lemma page_ok_show_screen: "page_ok m \<Longrightarrow> page_ok (show_screen m)"
  by (auto simp: page_ok_def)

lemma setup_buffer_ok:
  obtains m' where "setup_buffer m = Some m'" "fits_view m'" "page_ok m'" "show_x m' = 0" "show_y m' = 0"
proof -
  have "\<exists>b. fence_loop n (build m) = Some b" if "n \<le> 256" for n
    using that
  proof (induction n)
    case (Suc n)
    then obtain b where "fence_loop n (build m) = Some b" by auto
    then show ?case using Suc.prems by (auto simp: poke_def in_build_def)
  qed simp
  from this [of 256] obtain b where "fence_loop 256 (build m) = Some b" by blast
  then show ?thesis by (intro that) (auto simp: setup_buffer_def fits_view_def fits_def page_ok_def)
qed

end
