(* ===== verification/Scroll.thy ===== *)
theory Scroll
  imports Adventure ModexView
begin

text \<open>
  The window shows the picture: drawing lines, redrawing the room and moving the photo keep every pixel
  of the build buffer's window equal to the picture of the room.
\<close>

section \<open>Drawing lines\<close>

definition same_window :: "modex \<Rightarrow> modex \<Rightarrow> bool" where
  "same_window m m' \<longleftrightarrow> show_x m' = show_x m \<and> show_y m' = show_y m \<and> img3_off m' = img3_off m
     \<and> video m' = video m \<and> target_img m' = target_img m"

definition painted :: "modex \<Rightarrow> (int \<Rightarrow> int \<Rightarrow> u8) \<Rightarrow> bool" where
  "painted m f \<longleftrightarrow> (\<forall>px py. in_view (show_x m) (show_y m) px py \<longrightarrow> pixel m px py = f px py)"

lemma same_window_fits: "same_window m m' \<Longrightarrow> fits_view m' = fits_view m"
  by (simp add: same_window_def fits_view_def)

lemma draw_rows:
  assumes "fits_view m"
    and "\<forall>i\<in>set is. 0 \<le> i \<and> i < 182 \<and> fill (show_x m) (show_y m + i) = Some (map (\<lambda>k. f (show_x m + int k) (show_y m + i)) [0..<320])"
  shows "\<exists>m'. draw_lines (draw_horiz_line fill) is m = Some m' \<and> same_window m m'
    \<and> (\<forall>px py. in_view (show_x m) (show_y m) px py \<longrightarrow>
         pixel m' px py = (if py - show_y m \<in> set is then f px py else pixel m px py))"
  using assms
proof (induction "is" arbitrary: m)
  case Nil
  then show ?case by (simp add: same_window_def)
next
  case (Cons i "is")
  let ?vs = "map (\<lambda>k. f (show_x m + int k) (show_y m + i)) [0..<320]"
  have i: "0 \<le> i" "i < 182" "fill (show_x m) (show_y m + i) = Some ?vs" using Cons.prems(2) by (auto simp del: upt_Suc)
  have "length ?vs = 320" by simp
  from draw_horiz_line_draws [where fill = fill and m = m and y = i and vs = ?vs, OF Cons.prems(1) i this]
  obtain m1 where 1: "draw_horiz_line fill i m = Some (0, m1)" "same_window m m1"
      "\<forall>px py. in_view (show_x m) (show_y m) px py \<longrightarrow>
         pixel m1 px py = (if py = show_y m + i then ?vs ! nat (px - show_x m) else pixel m px py)"
    unfolding same_window_def by blast
  have w: "show_x m1 = show_x m" "show_y m1 = show_y m" using 1(2) by (simp_all add: same_window_def)
  have "fits_view m1" using same_window_fits [OF 1(2)] Cons.prems(1) by simp
  moreover have "\<forall>i\<in>set is. 0 \<le> i \<and> i < 182 \<and> fill (show_x m1) (show_y m1 + i) = Some (map (\<lambda>k. f (show_x m1 + int k) (show_y m1 + i)) [0..<320])"
    unfolding w using Cons.prems(2) by (auto simp del: upt_Suc)
  ultimately obtain m' where 2: "draw_lines (draw_horiz_line fill) is m1 = Some m'" "same_window m1 m'"
      "\<forall>px py. in_view (show_x m1) (show_y m1) px py \<longrightarrow>
         pixel m' px py = (if py - show_y m1 \<in> set is then f px py else pixel m1 px py)"
    using Cons.IH [of m1] by blast
  have "pixel m' px py = (if py - show_y m \<in> set (i # is) then f px py else pixel m px py)" if v: "in_view (show_x m) (show_y m) px py" for px py
  proof -
    have "pixel m1 px py = (if py = show_y m + i then f px py else pixel m px py)"
    proof -
      have "0 \<le> px - show_x m" "px - show_x m < 320" using v by (auto simp: in_view_def)
      then have "nat (px - show_x m) < 320" "show_x m + int (nat (px - show_x m)) = px" by simp_all
      then have "?vs ! nat (px - show_x m) = f px (show_y m + i)" by (simp add: nth_upt del: upt_Suc)
      then show ?thesis using 1(3) v by auto
    qed
    moreover have "pixel m' px py = (if py - show_y m \<in> set is then f px py else pixel m1 px py)" using 2(3) v unfolding w by blast
    ultimately show ?thesis by auto
  qed
  moreover have "same_window m m'" using 1(2) 2(2) by (simp add: same_window_def)
  ultimately show ?case using 1(1) 2(1) by auto
qed

lemma draw_columns:
  assumes "fits_view m"
    and "\<forall>i\<in>set is. 0 \<le> i \<and> i < 320 \<and> fill (show_x m + i) (show_y m) = Some (map (\<lambda>k. f (show_x m + i) (show_y m + int k)) [0..<182])"
  shows "\<exists>m'. draw_lines (draw_vert_line fill) is m = Some m' \<and> same_window m m'
    \<and> (\<forall>px py. in_view (show_x m) (show_y m) px py \<longrightarrow>
         pixel m' px py = (if px - show_x m \<in> set is then f px py else pixel m px py))"
  using assms
proof (induction "is" arbitrary: m)
  case Nil
  then show ?case by (simp add: same_window_def)
next
  case (Cons i "is")
  let ?vs = "map (\<lambda>k. f (show_x m + i) (show_y m + int k)) [0..<182]"
  have i: "0 \<le> i" "i < 320" "fill (show_x m + i) (show_y m) = Some ?vs" using Cons.prems(2) by (auto simp del: upt_Suc)
  have "length ?vs = 182" by simp
  from draw_vert_line_draws [where fill = fill and m = m and x = i and vs = ?vs, OF Cons.prems(1) i this]
  obtain m1 where 1: "draw_vert_line fill i m = Some (0, m1)" "same_window m m1"
      "\<forall>px py. in_view (show_x m) (show_y m) px py \<longrightarrow>
         pixel m1 px py = (if px = show_x m + i then ?vs ! nat (py - show_y m) else pixel m px py)"
    unfolding same_window_def by blast
  have w: "show_x m1 = show_x m" "show_y m1 = show_y m" using 1(2) by (simp_all add: same_window_def)
  have "fits_view m1" using same_window_fits [OF 1(2)] Cons.prems(1) by simp
  moreover have "\<forall>i\<in>set is. 0 \<le> i \<and> i < 320 \<and> fill (show_x m1 + i) (show_y m1) = Some (map (\<lambda>k. f (show_x m1 + i) (show_y m1 + int k)) [0..<182])"
    unfolding w using Cons.prems(2) by (auto simp del: upt_Suc)
  ultimately obtain m' where 2: "draw_lines (draw_vert_line fill) is m1 = Some m'" "same_window m1 m'"
      "\<forall>px py. in_view (show_x m1) (show_y m1) px py \<longrightarrow>
         pixel m' px py = (if px - show_x m1 \<in> set is then f px py else pixel m1 px py)"
    using Cons.IH [of m1] by blast
  have "pixel m' px py = (if px - show_x m \<in> set (i # is) then f px py else pixel m px py)" if v: "in_view (show_x m) (show_y m) px py" for px py
  proof -
    have "pixel m1 px py = (if px = show_x m + i then f px py else pixel m px py)"
    proof -
      have "0 \<le> py - show_y m" "py - show_y m < 182" using v by (auto simp: in_view_def)
      then have "nat (py - show_y m) < 182" "show_y m + int (nat (py - show_y m)) = py" by simp_all
      then have "?vs ! nat (py - show_y m) = f (show_x m + i) py" by (simp add: nth_upt del: upt_Suc)
      then show ?thesis using 1(3) v by auto
    qed
    moreover have "pixel m' px py = (if px - show_x m \<in> set is then f px py else pixel m1 px py)" using 2(3) v unfolding w by blast
    ultimately show ?thesis by auto
  qed
  moreover have "same_window m m'" using 1(2) 2(2) by (simp add: same_window_def)
  ultimately show ?case using 1(1) 2(1) by auto
qed

text \<open>Moving the window of a painted buffer and drawing at least the lines that come into view.\<close>

lemma scroll_by_rows:
  assumes m: "fits_view m" "painted m f"
    and fill: "\<forall>i\<in>set is. 0 \<le> i \<and> i < 182 \<and> fill x (y + i) = Some (map (\<lambda>k. f (x + int k) (y + i)) [0..<320])"
    and new: "\<forall>px py. in_view x y px py \<and> \<not> in_view (show_x m) (show_y m) px py \<longrightarrow> py - y \<in> set is"
  shows "\<exists>m1 m'. set_view_window x y m = Some m1 \<and> draw_lines (draw_horiz_line fill) is m1 = Some m'
    \<and> fits_view m' \<and> show_x m' = x \<and> show_y m' = y \<and> painted m' f \<and> video m' = video m \<and> target_img m' = target_img m"
proof -
  obtain m1 where 1: "set_view_window x y m = Some m1" "fits_view m1" "show_x m1 = x" "show_y m1 = y"
      "video m1 = video m" "target_img m1 = target_img m"
      "\<forall>px py. in_view (show_x m) (show_y m) px py \<and> in_view x y px py \<longrightarrow> pixel m1 px py = pixel m px py"
    using set_view_window_keeps [OF m(1)] by blast
  have "\<forall>i\<in>set is. 0 \<le> i \<and> i < 182 \<and> fill (show_x m1) (show_y m1 + i) = Some (map (\<lambda>k. f (show_x m1 + int k) (show_y m1 + i)) [0..<320])"
    unfolding 1(3,4) by (rule fill)
  from draw_rows [where fill = fill and f = f, OF 1(2) this]
  obtain m' where 2: "draw_lines (draw_horiz_line fill) is m1 = Some m'" "same_window m1 m'"
      "\<forall>px py. in_view x y px py \<longrightarrow> pixel m' px py = (if py - y \<in> set is then f px py else pixel m1 px py)"
    unfolding 1(3,4) by blast
  have "painted m' f"
    unfolding painted_def
  proof (intro allI impI)
    fix px py assume "in_view (show_x m') (show_y m') px py"
    then have v: "in_view x y px py" using 2(2) 1(3,4) by (simp add: same_window_def)
    show "pixel m' px py = f px py"
    proof (cases "py - y \<in> set is")
      case True
      then show ?thesis using 2(3) v by auto
    next
      case False
      then have old: "in_view (show_x m) (show_y m) px py" using new v by blast
      then have "pixel m1 px py = f px py" using 1(7) v m(2) unfolding painted_def by auto
      then show ?thesis using 2(3) v False by auto
    qed
  qed
  moreover have "fits_view m'" using same_window_fits [OF 2(2)] 1(2) by simp
  ultimately show ?thesis using 1 2(1,2) by (auto simp: same_window_def)
qed

lemma scroll_by_columns:
  assumes m: "fits_view m" "painted m f"
    and fill: "\<forall>i\<in>set is. 0 \<le> i \<and> i < 320 \<and> fill (x + i) y = Some (map (\<lambda>k. f (x + i) (y + int k)) [0..<182])"
    and new: "\<forall>px py. in_view x y px py \<and> \<not> in_view (show_x m) (show_y m) px py \<longrightarrow> px - x \<in> set is"
  shows "\<exists>m1 m'. set_view_window x y m = Some m1 \<and> draw_lines (draw_vert_line fill) is m1 = Some m'
    \<and> fits_view m' \<and> show_x m' = x \<and> show_y m' = y \<and> painted m' f \<and> video m' = video m \<and> target_img m' = target_img m"
proof -
  obtain m1 where 1: "set_view_window x y m = Some m1" "fits_view m1" "show_x m1 = x" "show_y m1 = y"
      "video m1 = video m" "target_img m1 = target_img m"
      "\<forall>px py. in_view (show_x m) (show_y m) px py \<and> in_view x y px py \<longrightarrow> pixel m1 px py = pixel m px py"
    using set_view_window_keeps [OF m(1)] by blast
  have "\<forall>i\<in>set is. 0 \<le> i \<and> i < 320 \<and> fill (show_x m1 + i) (show_y m1) = Some (map (\<lambda>k. f (show_x m1 + i) (show_y m1 + int k)) [0..<182])"
    unfolding 1(3,4) by (rule fill)
  from draw_columns [where fill = fill and f = f, OF 1(2) this]
  obtain m' where 2: "draw_lines (draw_vert_line fill) is m1 = Some m'" "same_window m1 m'"
      "\<forall>px py. in_view x y px py \<longrightarrow> pixel m' px py = (if px - x \<in> set is then f px py else pixel m1 px py)"
    unfolding 1(3,4) by blast
  have "painted m' f"
    unfolding painted_def
  proof (intro allI impI)
    fix px py assume "in_view (show_x m') (show_y m') px py"
    then have v: "in_view x y px py" using 2(2) 1(3,4) by (simp add: same_window_def)
    show "pixel m' px py = f px py"
    proof (cases "px - x \<in> set is")
      case True
      then show ?thesis using 2(3) v by auto
    next
      case False
      then have old: "in_view (show_x m) (show_y m) px py" using new v by blast
      then have "pixel m1 px py = f px py" using 1(7) v m(2) unfolding painted_def by auto
      then show ?thesis using 2(3) v False by auto
    qed
  qed
  moreover have "fits_view m'" using same_window_fits [OF 2(2)] 1(2) by simp
  ultimately show ?thesis using 1 2(1,2) by (auto simp: same_window_def)
qed

end
