(* ===== verification/CommandInv.thy ===== *)
theory CommandInv
  imports WorldInv
begin

text \<open>
  Every command of the player returns, keeps the invariant of the world and leaves the player in a
  room where they may be, or has won the game with all accomplishments.
\<close>

lemmas story_simps = story_def may_be_def needs_def

lemma world_invD:
  assumes "world_inv r w"
  shows "world_ok w" "player_ok r w" "is_room r" "may_be (flags w) r" "complete w" "in_range (loc_of w)"
    "story (loc_of w) (flags w)" "moved w (loc_of w) w"
  using assms world_okD moved_refl by (auto simp: world_inv_def player_ok_def)

section \<open>Moving\<close>

lemma rand_draws: "rand w = (v, w') \<Longrightarrow> w' = w\<lparr>draws := Suc (draws w)\<rparr>"
  by (simp add: rand_def)

lemma go_into_ok:
  assumes "world_ok w" and "is_room r'" and "r' \<noteq> R_INVENTORY" and "may_be (flags w) r'"
  shows "returns (go_into r' w) outcome_ok"
  using assms by (auto simp: go_into_def rand_def player_ok_def intro: world_ok_swap)

lemma table_move:
  assumes "world_inv r w" and "room_row r = Some d" and "i \<in> {rd_left d, rd_enter d, rd_right d}" and "link i = Some r'"
  shows "returns (go_into r' w) outcome_ok"
  using go_into_ok link_allowed [OF world_invD(3,4) [OF assms(1)] assms(2,3,4)] world_invD(1) [OF assms(1)] by blast

lemma links_of:
  assumes "world_inv r w"
  obtains d where "room_row r = Some d" "r_left (room w r) = link (rd_left d)" "r_right (room w r) = link (rd_right d)"
    "r \<noteq> R_INVENTORY \<Longrightarrow> r \<noteq> R_COCKPIT \<Longrightarrow> r_enter (room w r) = link (rd_enter d)"
  using room_row_dom [OF world_invD(3) [OF assms]] world_invD(5) [OF assms] unfolding complete_def by blast

lemma try_to_move_left_ok: "world_inv r w \<Longrightarrow> returns (try_to_move_left r w) outcome_ok"
  by (rule links_of, assumption)
    (auto simp: try_to_move_left_def world_invD(1,2) dest: table_move split: option.split)

lemma try_to_move_right_ok: "world_inv r w \<Longrightarrow> returns (try_to_move_right r w) outcome_ok"
  by (rule links_of, assumption)
    (auto simp: try_to_move_right_def world_invD(1,2) dest: table_move split: option.split)

lemma player_ok_at: "world_ok w \<Longrightarrow> is_room r \<Longrightarrow> r \<noteq> R_INVENTORY \<Longrightarrow> may_be (flags w) r \<Longrightarrow> player_ok r w"
  by (simp add: player_ok_def)

lemma enter_link_ok:
  assumes "world_inv r w" and "r_enter (room w r) = Some r'"
  shows "returns (go_into r' w) outcome_ok"
proof -
  obtain d where d: "room_row r = Some d" "r \<noteq> R_INVENTORY \<Longrightarrow> r \<noteq> R_COCKPIT \<Longrightarrow> r_enter (room w r) = link (rd_enter d)"
    using links_of [OF assms(1)] by metis
  have w: "ways (r_enter (room w R_INVENTORY)) (r_enter (room w R_COCKPIT)) (flags w)"
    using world_okD(4) [OF world_invD(1) [OF assms(1)]] .
  consider "r = R_INVENTORY" | "r = R_COCKPIT" | "r \<noteq> R_INVENTORY" "r \<noteq> R_COCKPIT" by blast
  then show ?thesis
  proof cases
    case 3
    then show ?thesis using d assms by (auto intro: table_move [OF assms(1) d(1)])
  qed (use w assms(2) world_invD(1) [OF assms(1)] in \<open>auto intro!: go_into_ok simp: ways_def is_room_def\<close>)
qed

lemma try_to_enter_ok:
  assumes "world_inv r w"
  shows "returns (try_to_enter r w) outcome_ok"
proof (cases "r_enter (room w r)")
  case (Some r')
  then show ?thesis using enter_link_ok [OF assms] by (simp add: try_to_enter_def)
next
  case None
  show ?thesis using world_invD(1,2) [OF assms]
    by (simp add: try_to_enter_def None rand_def Let_def) (auto intro!: player_ok_at simp: is_room_def story_simps)
qed

section \<open>Objects found by name\<close>

lemma find_in_room_ok:
  assumes "world_ok w"
  shows "returns (find_in_room r arg w) (\<lambda>res. \<forall>k. res = Some k \<longrightarrow> loc_of w k = Some r)"
proof -
  obtain L where L: "listed w L" using assms by (auto simp: world_ok_def ok_with_def)
  have "\<forall>k\<in>set (L r). o_name (object w k) \<noteq> None"
    using L world_okD(1,2) [OF assms] by (auto simp: listed_def in_range_def complete_def)
  moreover have "chain (next_of w) (r_contents (room w r)) (L r)" using L by (simp add: listed_def)
  ultimately have "find_in_room r arg w = Some (find (\<lambda>k. same_text arg (the (o_name (object w k)))) (L r))"
    unfolding find_in_room_def by (intro find_from_chain) auto
  moreover have "\<forall>k. find (\<lambda>k. same_text arg (the (o_name (object w k)))) (L r) = Some k \<longrightarrow> loc_of w k = Some r"
    using L unfolding listed_def find_Some_iff by (metis nth_mem)
  ultimately show ?thesis by simp
qed

section \<open>Typed commands\<close>

text \<open>What must hold for an object to get to a place, and for an accomplishment to be recorded.\<close>

definition may_move :: "int \<Rightarrow> int option \<Rightarrow> (int \<Rightarrow> bool) \<Rightarrow> bool" where
  "may_move k to F \<longleftrightarrow>
     (to \<noteq> None \<and> (k = O_BATT_EMPTY \<or> k = O_BATT_FULL \<or> k = O_BATT_CAR) \<longrightarrow> F FLAG_CAR_OPEN)
     \<and> (to \<noteq> None \<and> k = O_GPS_GOOD \<longrightarrow> F FLAG_WEARING_SUIT)
     \<and> (k = O_MIMO_CARD \<and> to \<noteq> Some R_STATUE \<longrightarrow> may_be F R_STATUE)
     \<and> (k = O_TUX \<and> to \<noteq> Some R_REM_LAB \<longrightarrow> F FLAG_LURED_TUX)
     \<and> (to \<noteq> None \<and> k = O_BOOK_C \<longrightarrow> F FLAG_HAS_EATEN)"

lemma story_move: "story loc F \<Longrightarrow> may_move k to F \<Longrightarrow> story (loc(k := to)) F"
  unfolding story_def may_move_def by simp

lemma story_flag:
  assumes "story loc F" and "f = FLAG_CAR_FIXED \<Longrightarrow> F FLAG_CAR_OPEN" and "f = FLAG_LURED_TUX \<Longrightarrow> may_be F R_REM_LAB"
  shows "story loc (F(f := True))"
  using assms unfolding story_def may_be_def by auto

lemma may_move_flag: "may_move k to F \<Longrightarrow> may_move k to (F(f := True))"
  unfolding may_move_def may_be_def by auto

text \<open>An object that is somewhere may go anywhere but where its story forbids it.\<close>

lemma may_move_on:
  "story loc F \<Longrightarrow> loc k = Some r \<Longrightarrow> (k = O_TUX \<Longrightarrow> r \<noteq> R_REM_LAB \<or> F FLAG_LURED_TUX)
    \<Longrightarrow> (k = O_MIMO_CARD \<Longrightarrow> r \<noteq> R_STATUE \<or> may_be F R_STATUE) \<Longrightarrow> may_move k to F"
  unfolding may_move_def by (intro conjI impI; elim conjE disjE; simp add: story_def; blast)

text \<open>After the objects were moved, and perhaps an accomplishment recorded.\<close>

lemma moved_outcome:
  assumes "world_inv r w" and "moved w loc w'" and "in_range loc" and "story loc (flags w)"
  shows "world_ok w' \<and> player_ok r w'"
  using moved_ok [OF assms(2) world_invD(1) [OF assms(1)] assms(3,4)] moved_player [OF assms(2) world_invD(2) [OF assms(1)]]
  unfolding world_ok_def moved_flags [OF assms(2)] by simp

lemma moved_outcome_flag:
  assumes "world_inv r w" and "moved w loc w'" and "in_range loc" and "story loc ((flags w)(f := True))" and "0 \<le> f" and "f < 32"
  shows "world_ok (player_set_flag f w') \<and> player_ok r (player_set_flag f w')"
proof -
  have "ok_with ((flags w)(f := True)) w'"
    by (rule moved_ok [OF assms(2) world_invD(1) [OF assms(1)] assms(3,4)]) auto
  then have "world_ok (player_set_flag f w')" using moved_flags [OF assms(2)] assms(5,6) by simp
  then show ?thesis
    using player_flag [OF moved_player [OF assms(2) world_invD(2) [OF assms(1)]]] assms(5,6) by blast
qed

lemma remove_then:
  assumes "moved w loc w1" and "\<And>w2. moved w (loc(k := None)) w2 \<Longrightarrow> returns (f w2) Q"
  shows "returns (remove_object k w1 \<bind> f) Q"
  by (rule returns_then [OF remove_moved [OF assms(1)] assms(2)])

lemma to_inventory_then:
  assumes "world_inv r w" and "moved w loc w1" and "0 \<le> k" and "k < 20"
    and "\<And>w2. moved w (loc(k := Some R_INVENTORY)) w2 \<Longrightarrow> returns (f w2) Q"
  shows "returns (move_object_to_inventory k w1 \<bind> f) Q"
  by (rule returns_then [OF to_inventory_moved [OF assms(2) world_invD(5) [OF assms(1)] assms(3,4)] assms(5)])

lemma room_0 [simp]: "is_room 0"
  by (simp add: is_room_def)

lemmas moves = in_range_upd story_move story_flag may_move_flag

lemma typed_cmd_buy_ok:
  assumes "world_inv r w"
  shows "returns (typed_cmd_buy r arg w) outcome_ok"
proof -
  note I = world_invD [OF assms]
  have dew: "returns (do { w' \<leftarrow> move_object_to_inventory O_MTN_DEW (show_status s w);
      Some (TC_REDRAW_ROOM, Some r, w') }) outcome_ok" for s
  proof (rule to_inventory_then [OF assms])
    show "moved w (loc_of w) (show_status s w)" using I(8) by simp
    fix w2 assume "moved w ((loc_of w)(O_MTN_DEW := Some R_INVENTORY)) w2"
    from moved_outcome [OF assms this] show "returns (Some (TC_REDRAW_ROOM, Some r, w2)) outcome_ok"
      by (simp add: moves I may_move_def)
  qed simp_all
  have eaten: "world_ok (player_set_flag FLAG_HAS_EATEN w) \<and> player_ok r (player_set_flag FLAG_HAS_EATEN w)"
    by (rule moved_outcome_flag [OF assms I(8)]) (simp_all add: moves I)
  show ?thesis using I(1,2) dew eaten
    unfolding typed_cmd_buy_def by (auto simp: Let_def simp del: returns_simps(3) world_steps(3))
qed

lemma typed_cmd_charge_ok:
  assumes "world_inv r w"
  shows "returns (typed_cmd_charge r arg w) outcome_ok"
proof -
  note I = world_invD [OF assms]
  have "returns (do { w \<leftarrow> remove_object O_BATT_EMPTY w; w \<leftarrow> move_object_to_inventory O_BATT_FULL w;
      say s TC_REDRAW_ROOM r w }) outcome_ok" if "loc_of w O_BATT_EMPTY \<noteq> None" for s
  proof (rule remove_then [OF I(8)], rule to_inventory_then [OF assms], assumption)
    fix w1 w2 assume "moved w ((loc_of w)(O_BATT_EMPTY := None, O_BATT_FULL := Some R_INVENTORY)) w2"
    moreover have "flags w FLAG_CAR_OPEN" using I(7) that by (simp add: story_def)
    ultimately show "returns (say s TC_REDRAW_ROOM r w2) outcome_ok"
      using moved_outcome [OF assms] by (simp add: moves I may_move_def)
  qed simp_all
  then show ?thesis using I(1,2)
    unfolding typed_cmd_charge_def by (auto simp del: returns_simps(3))
qed

lemma typed_cmd_do_ok:
  assumes "world_inv r w"
  shows "returns (typed_cmd_do r arg w) outcome_ok"
  using world_invD(1,2,7) [OF assms] unfolding typed_cmd_do_def
  by (auto simp: outcome_ok_def all_done_def story_simps)

lemma typed_cmd_drink_ok:
  assumes "world_inv r w"
  shows "returns (typed_cmd_drink r arg w) outcome_ok"
proof -
  note I = world_invD [OF assms]
  have "returns (do { w \<leftarrow> remove_object O_MTN_DEW w; say s TC_REDRAW_ROOM r w }) outcome_ok" for s
  proof (rule remove_then [OF I(8)])
    fix w1 assume "moved w ((loc_of w)(O_MTN_DEW := None)) w1"
    from moved_outcome [OF assms this] show "returns (say s TC_REDRAW_ROOM r w1) outcome_ok"
      by (simp add: moves I may_move_def)
  qed
  then show ?thesis using I(1,2)
    unfolding typed_cmd_drink_def by (auto simp del: returns_simps(3))
qed

lemma typed_cmd_fix_ok:
  assumes "world_inv r w"
  shows "returns (typed_cmd_fix r arg w) outcome_ok"
proof -
  note I = world_invD [OF assms]
  have "returns (do { w \<leftarrow> remove_object O_GPS_BAD w; w \<leftarrow> remove_object O_GPS_SPEC w;
      w \<leftarrow> move_object_to_inventory O_GPS_GOOD w; say s TC_CHANGE_ROOM r w }) outcome_ok" if "r = R_IN_CLEANR" for s
  proof (rule remove_then [OF I(8)], rule remove_then, assumption, rule to_inventory_then [OF assms], assumption)
    fix w1 w2 w3 assume "moved w ((loc_of w)(O_GPS_BAD := None, O_GPS_SPEC := None, O_GPS_GOOD := Some R_INVENTORY)) w3"
    moreover have "flags w FLAG_WEARING_SUIT" using I(4) that by (simp add: may_be_def needs_def)
    ultimately show "returns (say s TC_CHANGE_ROOM r w3) outcome_ok"
      using moved_outcome [OF assms] by (simp add: moves I may_move_def)
  qed simp_all
  then show ?thesis using I(1,2)
    unfolding typed_cmd_fix_def by (auto simp del: returns_simps(3))
qed

lemma typed_cmd_flash_ok:
  assumes "world_inv r w"
  shows "returns (typed_cmd_flash r arg w) outcome_ok"
proof -
  note I = world_invD [OF assms]
  have "returns (do { w \<leftarrow> remove_object O_ROBOT_DEAD w; w \<leftarrow> move_object_to_inventory O_ROBOT_LIVE w;
      say s TC_REDRAW_ROOM r w }) outcome_ok" for s
  proof (rule remove_then [OF I(8)], rule to_inventory_then [OF assms], assumption)
    fix w1 w2 assume "moved w ((loc_of w)(O_ROBOT_DEAD := None, O_ROBOT_LIVE := Some R_INVENTORY)) w2"
    from moved_outcome [OF assms this] show "returns (say s TC_REDRAW_ROOM r w2) outcome_ok"
      by (simp add: moves I may_move_def)
  qed simp_all
  then show ?thesis using I(1,2)
    unfolding typed_cmd_flash_def by (auto simp del: returns_simps(3))
qed

text \<open>The player is at the object's place, so may be there.\<close>

lemma may_move_from:
  assumes "world_inv r w" and "loc_of w k = Some src" and "may_be (flags w) src" and "k = O_TUX \<Longrightarrow> flags w FLAG_LURED_TUX"
  shows "may_move k to (flags w)"
  by (rule may_move_on [OF world_invD(7) [OF assms(1)] assms(2)]) (use assms(3,4) in auto)

lemma typed_cmd_drop_ok:
  assumes "world_inv r w"
  shows "returns (typed_cmd_drop r arg w) outcome_ok"
proof -
  note I = world_invD [OF assms]
  obtain dest where dest: "(if r = R_INVENTORY then r_enter (room w R_INVENTORY) else Some r) = Some dest" "is_room dest"
    using I(2) world_okD(4) [OF I(1)] by (cases "r = R_INVENTORY") (auto simp: player_ok_def ways_def)
  have drop: "returns (do { w \<leftarrow> insert_object k dest w'; Some (TC_REDRAW_ROOM, Some r, w) }) outcome_ok"
    if k: "loc_of w k = Some R_INVENTORY" and m: "moved w (loc_of w) w'" for k w'
  proof (rule returns_then [OF insert_moved [OF m I(5) dest(2)]])
    have may: "may_move k to (flags w)" for to
      by (rule may_move_on [OF I(7) k]) simp_all
    show k20: "0 \<le> k" "k < 20" using I(6) k by (auto simp: in_range_def)
    fix w2 assume "moved w ((loc_of w)(k := Some dest)) w2"
    from moved_outcome [OF assms this] show "returns (Some (TC_REDRAW_ROOM, Some r, w2)) outcome_ok"
      using k20 dest(2) by (simp add: moves I may)
  qed
  have m: "moved w (loc_of w) (show_status s w)" for s using I(8) by simp
  show ?thesis
    unfolding typed_cmd_drop_def
  proof (rule returns_then [OF find_in_room_ok [OF I(1), of R_INVENTORY arg]])
    fix obj :: "int option" assume o: "\<forall>k. obj = Some k \<longrightarrow> loc_of w k = Some R_INVENTORY"
    show "returns (case obj of None \<Rightarrow> say ''You have no such thing.'' TC_ALLOW_EDIT r w
     | Some k \<Rightarrow> do {
         let w = (if (k = O_BATT_FULL \<and> r = R_CAR_SITE) \<or> (k = O_MIMO_CARD \<and> r = R_REM_PLANE)
                  then show_status ''You may want to install it instead.'' w else w);
         dest \<leftarrow> (if r = R_INVENTORY then r_enter (room w R_INVENTORY) else Some r);
         w \<leftarrow> insert_object k dest w;
         Some (TC_REDRAW_ROOM, Some r, w) }) outcome_ok"
    proof (cases obj)
      case None
      then show ?thesis using I(1,2) by simp
    next
      case (Some k)
      then have k: "loc_of w k = Some R_INVENTORY" using o by simp
      let ?hint = "(k = O_BATT_FULL \<and> r = R_CAR_SITE) \<or> (k = O_MIMO_CARD \<and> r = R_REM_PLANE)"
      show ?thesis
        unfolding Some option.case Let_def
        by (cases ?hint) (simp_all only: if_True if_False room_status dest(1) Option.bind.simps drop [OF k I(8)] drop [OF k m])
    qed
  qed
qed

lemma obj_special_get_ok:
  assumes "world_inv r w" and "is_room src" and "may_be (flags w) src"
  shows "returns (obj_special_get src arg w) (\<lambda>(obj, w').
    \<exists>loc. moved w loc w' \<and> in_range loc \<and> story loc (flags w)
      \<and> (\<forall>k. obj = Some k \<longrightarrow> 0 \<le> k \<and> k < 20 \<and> k \<noteq> O_TUX \<and> (\<forall>to. may_move k to (flags w)))
      \<and> (obj = None \<longrightarrow> w' = w))"
proof -
  note I = world_invD [OF assms(1)]
  have "returns (do { w \<leftarrow> remove_object O_BATT_CAR w; Some (Some O_BATT_EMPTY, w) }) (\<lambda>(obj, w').
    \<exists>loc. moved w loc w' \<and> in_range loc \<and> story loc (flags w)
      \<and> (\<forall>k. obj = Some k \<longrightarrow> 0 \<le> k \<and> k < 20 \<and> k \<noteq> O_TUX \<and> (\<forall>to. may_move k to (flags w)))
      \<and> (obj = None \<longrightarrow> w' = w))" if "loc_of w O_BATT_CAR \<noteq> None"
  proof (rule remove_then [OF I(8)])
    have "flags w FLAG_CAR_OPEN" using I(7) that by (simp add: story_def)
    then show "returns (Some (Some O_BATT_EMPTY, w1)) (\<lambda>(obj, w').
      \<exists>loc. moved w loc w' \<and> in_range loc \<and> story loc (flags w)
      \<and> (\<forall>k. obj = Some k \<longrightarrow> 0 \<le> k \<and> k < 20 \<and> k \<noteq> O_TUX \<and> (\<forall>to. may_move k to (flags w)))
      \<and> (obj = None \<longrightarrow> w' = w))" if "moved w ((loc_of w)(O_BATT_CAR := None)) w1" for w1
      using that by (auto intro!: exI [of _ "(loc_of w)(O_BATT_CAR := None)"] moves I simp: may_move_def)
  qed
  moreover have "\<exists>loc. moved w loc (show_status s w) \<and> in_range loc \<and> story loc (flags w)" for s
    using I(6,7,8) by auto
  moreover have "\<exists>loc. moved w loc w \<and> in_range loc \<and> story loc (flags w)" using I(6,7,8) by auto
  ultimately show ?thesis
    unfolding obj_special_get_def by (auto simp: may_move_def simp del: returns_simps(3))
qed

lemma typed_cmd_get_ok:
  assumes "world_inv r w"
  shows "returns (typed_cmd_get r arg w) outcome_ok"
proof -
  note I = world_invD [OF assms]
  obtain src where src: "(if r = R_INVENTORY then r_enter (room w R_INVENTORY) else Some r) = Some src" "is_room src"
      "may_be (flags w) src"
    using I(2) world_okD(4) [OF I(1)] by (cases "r = R_INVENTORY") (auto simp: player_ok_def ways_def)
  have take: "returns (if k = O_TUX \<and> \<not> player_flag_is_set FLAG_LURED_TUX w'
         then say s TC_DISCARD_TEXT r w'
         else do { w \<leftarrow> move_object_to_inventory k w'; Some (TC_REDRAW_ROOM, Some r, w) }) outcome_ok"
    if m: "moved w loc w'" and loc: "in_range loc" "story loc (flags w)" and k: "0 \<le> k" "k < 20"
      and may: "k = O_TUX \<Longrightarrow> flags w FLAG_LURED_TUX \<Longrightarrow> may_move k (Some R_INVENTORY) (flags w)"
        "k \<noteq> O_TUX \<Longrightarrow> may_move k (Some R_INVENTORY) (flags w)" for k loc w' s
  proof (cases "k = O_TUX \<and> \<not> player_flag_is_set FLAG_LURED_TUX w'")
    case True
    then show ?thesis using moved_outcome [OF assms m loc] by simp
  next
    case False
    have "returns (do { w \<leftarrow> move_object_to_inventory k w'; Some (TC_REDRAW_ROOM, Some r, w) }) outcome_ok"
    proof (rule to_inventory_then [OF assms m k])
      fix w2 assume "moved w (loc(k := Some R_INVENTORY)) w2"
      then show "returns (Some (TC_REDRAW_ROOM, Some r, w2)) outcome_ok"
        using moved_outcome [OF assms] loc k may False moved_flags [OF m]
        by (cases "k = O_TUX") (simp_all add: moves)
    qed
    with False show ?thesis by (simp only: if_False)
  qed
  show ?thesis
    unfolding typed_cmd_get_def src(1) Option.bind.simps
  proof (rule returns_then [OF obj_special_get_ok [OF assms src(2,3)]], clarify)
    fix obj w' loc
    assume s: "moved w loc w'" "in_range loc" "story loc (flags w)"
      "\<forall>k. obj = Some k \<longrightarrow> 0 \<le> k \<and> k < 20 \<and> k \<noteq> O_TUX \<and> (\<forall>to. may_move k to (flags w))" "obj = None \<longrightarrow> w' = w"
    have plain: "returns (find_in_room src arg w) (\<lambda>res. returns (case res of
       None \<Rightarrow> say ''You see no such thing here.'' TC_ALLOW_EDIT r w
     | Some k \<Rightarrow> if k = O_TUX \<and> \<not> player_flag_is_set FLAG_LURED_TUX w
         then say ''Tux must choose you!  Try using a fish.'' TC_DISCARD_TEXT r w
         else do { w \<leftarrow> move_object_to_inventory k w; Some (TC_REDRAW_ROOM, Some r, w) }) outcome_ok)"
    proof (rule returns_mono [OF find_in_room_ok [OF I(1)]])
      fix res :: "int option" assume f: "\<forall>k. res = Some k \<longrightarrow> loc_of w k = Some src"
      show "returns (case res of None \<Rightarrow> say ''You see no such thing here.'' TC_ALLOW_EDIT r w
       | Some k \<Rightarrow> if k = O_TUX \<and> \<not> player_flag_is_set FLAG_LURED_TUX w
         then say ''Tux must choose you!  Try using a fish.'' TC_DISCARD_TEXT r w
         else do { w \<leftarrow> move_object_to_inventory k w; Some (TC_REDRAW_ROOM, Some r, w) }) outcome_ok"
      proof (cases res)
        case None
        then show ?thesis using I(1,2) by simp
      next
        case (Some k)
        then have k: "loc_of w k = Some src" using f by simp
        then have "0 \<le> k" "k < 20" using I(6) by (auto simp: in_range_def)
        then show ?thesis unfolding Some option.case
          by (rule take [OF I(8,6,7)]) (erule (1) may_move_from [OF assms k src(3)] | rule may_move_from [OF assms k src(3)], simp)+
      qed
    qed
    show "returns (do { obj \<leftarrow> (if obj = None then find_in_room src arg w' else Some obj);
     case obj of
       None \<Rightarrow> say ''You see no such thing here.'' TC_ALLOW_EDIT r w'
     | Some k \<Rightarrow>
         if k = O_TUX \<and> \<not> player_flag_is_set FLAG_LURED_TUX w'
         then say ''Tux must choose you!  Try using a fish.'' TC_DISCARD_TEXT r w'
         else do { w \<leftarrow> move_object_to_inventory k w'; Some (TC_REDRAW_ROOM, Some r, w) } }) outcome_ok"
    proof (cases obj)
      case None
      with s(5) have "w' = w" by simp
      then show ?thesis using plain None by (simp only: returns_simps if_True simp_thms)
    next
      case (Some k)
      with s(4) have "0 \<le> k" "k < 20" "k \<noteq> O_TUX" "may_move k (Some R_INVENTORY) (flags w)" by auto
      from take [OF s(1-3) this(1,2)] this(3,4) show ?thesis unfolding Some by simp
    qed
  qed
qed

lemma typed_cmd_inventory_ok:
  assumes "world_inv r w"
  shows "returns (typed_cmd_inventory r arg w) outcome_ok"
proof (cases "r = R_INVENTORY")
  case True
  then show ?thesis using world_invD(1,2) [OF assms] world_okD(4) [OF world_invD(1) [OF assms]]
    by (auto simp: typed_cmd_inventory_def player_ok_def ways_def)
next
  case False
  note I = world_invD [OF assms]
  let ?w = "set_room R_INVENTORY (r_enter_update (\<lambda>_. Some r)) w"
  have same: "next_of ?w = next_of w" "loc_of ?w = loc_of w" "\<And>q. r_contents (room ?w q) = r_contents (room w q)"
      "flags ?w = flags w"
    by simp_all
  have "listed ?w L = listed w L" for L unfolding listed_def same ..
  moreover have "complete ?w" using I(5) by (simp add: complete_def)
  moreover have "ways (r_enter (room ?w R_INVENTORY)) (r_enter (room ?w R_COCKPIT)) (flags w)"
    using world_okD(4) [OF I(1)] I(3,4) False by (simp add: ways_def)
  moreover have "\<exists>L. listed w L" using I(8) by (auto simp: moved_def)
  ultimately have "world_ok ?w" using I(6,7) by (simp add: world_ok_def ok_with_def same)
  moreover have "player_ok R_INVENTORY ?w" by (simp add: player_ok_def may_be_def needs_def)
  ultimately show ?thesis using False by (simp add: typed_cmd_inventory_def)
qed

lemma typed_cmd_sigh_ok:
  assumes "world_inv r w"
  shows "returns (typed_cmd_sigh r arg w) outcome_ok"
proof -
  note I = world_invD [OF assms]
  have m: "moved w (loc_of w) (show_status s w)" for s using I(8) by simp
  have "world_ok (player_set_flag FLAG_HAS_EATEN (show_status s w)) \<and> player_ok r (player_set_flag FLAG_HAS_EATEN (show_status s w))" for s
    by (rule moved_outcome_flag [OF assms m I(6)]) (simp_all add: moves I)
  then show ?thesis using I(1,2) unfolding typed_cmd_sigh_def by (auto simp del: world_steps(3))
qed

lemma typed_cmd_wear_ok:
  assumes "world_inv r w"
  shows "returns (typed_cmd_wear r arg w) outcome_ok"
proof -
  note I = world_invD [OF assms]
  have "returns (do { w \<leftarrow> remove_object O_BUNNYSUIT w;
      say s TC_REDRAW_ROOM r (player_set_flag FLAG_WEARING_SUIT w) }) outcome_ok" for s
  proof (rule remove_then [OF I(8)])
    fix w1 assume "moved w ((loc_of w)(O_BUNNYSUIT := None)) w1"
    from moved_outcome_flag [OF assms this, of FLAG_WEARING_SUIT]
    show "returns (say s TC_REDRAW_ROOM r (player_set_flag FLAG_WEARING_SUIT w1)) outcome_ok"
      by (simp add: moves I may_move_def)
  qed
  then show ?thesis using I(1,2)
    unfolding typed_cmd_wear_def by (auto simp del: returns_simps(3))
qed

lemma typed_cmd_go_ok:
  assumes "world_inv r w"
  shows "returns (typed_cmd_go r arg w) outcome_ok"
proof -
  note I = world_invD [OF assms]
  have "flags w FLAG_CAR_FIXED \<Longrightarrow> flags w FLAG_CAR_OPEN" "loc_of w O_GPS_GOOD \<noteq> None \<Longrightarrow> flags w FLAG_WEARING_SUIT"
    using I(7) by (simp_all add: story_def)
  then have "flags w FLAG_CAR_FIXED \<Longrightarrow> player_ok R_WILLARD w"
      "flags w FLAG_CAR_FIXED \<Longrightarrow> loc_of w O_GPS_GOOD = Some R_INVENTORY \<Longrightarrow> player_ok R_ALLERTON w"
    using I(1) by (simp_all add: player_ok_def is_room_def may_be_def needs_def)
  moreover have "player_ok R_CAR_SITE w" by (simp add: player_ok_def is_room_def may_be_def needs_def)
  ultimately show ?thesis using I(1,2) unfolding typed_cmd_go_def by auto
qed

lemma typed_cmd_install_ok:
  assumes "world_inv r w"
  shows "returns (typed_cmd_install r arg w) outcome_ok"
proof -
  note I = world_invD [OF assms]
  have battery: "returns (do { w \<leftarrow> remove_object O_BATT_FULL w;
      say s TC_CHANGE_ROOM r (do_photo_swap r SWAP_CAR (player_set_flag FLAG_CAR_FIXED w)) }) outcome_ok"
    if "loc_of w O_BATT_FULL \<noteq> None" for s
  proof (rule remove_then [OF I(8)])
    have opened: "flags w FLAG_CAR_OPEN" using I(7) that by (simp add: story_def)
    fix w1 assume "moved w ((loc_of w)(O_BATT_FULL := None)) w1"
    from moved_outcome_flag [OF assms this, of FLAG_CAR_FIXED]
    have "world_ok (player_set_flag FLAG_CAR_FIXED w1) \<and> player_ok r (player_set_flag FLAG_CAR_FIXED w1)"
      using opened by (simp add: moves I may_move_def)
    then show "returns (say s TC_CHANGE_ROOM r (do_photo_swap r SWAP_CAR (player_set_flag FLAG_CAR_FIXED w1))) outcome_ok"
      using I(3) by (simp add: world_ok_swap del: world_steps(3))
  qed
  have mimo: "returns (do { w \<leftarrow> remove_object O_MIMO_CARD w;
      say s TC_REDRAW_ROOM r (set_room R_COCKPIT (r_enter_update (\<lambda>_. Some R_OVER_WILL)) w) }) outcome_ok"
    if "loc_of w O_MIMO_CARD \<noteq> Some R_STATUE" for s
  proof (rule remove_then [OF I(8)])
    have allerton: "may_be (flags w) R_STATUE" using I(7) that by (simp add: story_def)
    fix w1 assume "moved w ((loc_of w)(O_MIMO_CARD := None)) w1"
    then have ok: "world_ok w1" "player_ok r w1" "flags w1 = flags w"
      using moved_outcome [OF assms] moved_flags allerton by (simp_all add: moves I may_move_def)
    let ?w = "set_room R_COCKPIT (r_enter_update (\<lambda>_. Some R_OVER_WILL)) w1"
    have same: "next_of ?w = next_of w1" "loc_of ?w = loc_of w1" "\<And>q. r_contents (room ?w q) = r_contents (room w1 q)"
        "flags ?w = flags w1"
      by simp_all
    have "listed ?w L = listed w1 L" for L unfolding listed_def same ..
    moreover have "complete ?w" using world_okD(1) [OF ok(1)] by (simp add: complete_def)
    moreover have "ways (r_enter (room ?w R_INVENTORY)) (r_enter (room ?w R_COCKPIT)) (flags w1)"
      using world_okD(4) [OF ok(1)] allerton ok(3) by (simp add: ways_def may_be_def needs_def)
    ultimately have "world_ok ?w" using ok(1) by (simp add: world_ok_def ok_with_def same)
    moreover have "player_ok r ?w" using ok(2) by (simp add: player_ok_def)
    ultimately show "returns (say s TC_REDRAW_ROOM r ?w) outcome_ok" by simp
  qed
  show ?thesis using I(1,2) battery mimo
    unfolding typed_cmd_install_def by (auto simp del: returns_simps(3))
qed

lemma typed_cmd_use_ok:
  assumes "world_inv r w"
  shows "returns (typed_cmd_use r arg w) outcome_ok"
proof -
  note I = world_invD [OF assms]
  have car: "returns (do {
      let w = do_photo_swap r SWAP_CAR w;
      w \<leftarrow> remove_object O_CAR_KEY w;
      w \<leftarrow> insert_object_at O_BATT_CAR r 265 122 w;
      say s TC_CHANGE_ROOM r (player_set_flag FLAG_CAR_OPEN w) }) outcome_ok" if "r = R_CAR_SITE" for s
  proof -
    let ?w = "do_photo_swap r SWAP_CAR w"
    have inv: "world_inv r ?w" using I by (simp add: world_inv_def world_ok_swap)
    note J = world_invD [OF inv]
    show ?thesis
      unfolding Let_def
    proof (rule remove_then [OF J(8)], rule returns_then [OF insert_at_moved], assumption)
      fix w1 w2 assume "moved ?w ((loc_of ?w)(O_CAR_KEY := None, O_BATT_CAR := Some r)) w2"
      from moved_outcome_flag [OF inv this, of FLAG_CAR_OPEN]
      show "returns (say s TC_CHANGE_ROOM r (player_set_flag FLAG_CAR_OPEN w2)) outcome_ok"
        using I(3) J(6,7) by (simp add: moves may_move_def)
    qed
  qed
  have fish: "returns (do {
      w \<leftarrow> remove_object O_FISH w;
      w \<leftarrow> move_object_to_inventory O_TUX w;
      say s TC_REDRAW_ROOM r (player_set_flag FLAG_LURED_TUX w) }) outcome_ok" if "r = R_REM_LAB" for s
  proof (rule remove_then [OF I(8)], rule to_inventory_then [OF assms], assumption)
    have lab: "may_be (flags w) R_REM_LAB" using I(4) that by simp
    fix w1 w2 assume "moved w ((loc_of w)(O_FISH := None, O_TUX := Some R_INVENTORY)) w2"
    from moved_outcome_flag [OF assms this, of FLAG_LURED_TUX]
    show "returns (say s TC_REDRAW_ROOM r (player_set_flag FLAG_LURED_TUX w2)) outcome_ok"
      using lab by (simp add: moves I may_move_def)
  qed simp_all
  show ?thesis using I(1,2) car fish
    unfolding typed_cmd_use_def by (auto simp: Let_def simp del: returns_simps(3))
qed

lemmas commands_ok = typed_cmd_buy_ok typed_cmd_charge_ok typed_cmd_do_ok typed_cmd_drink_ok typed_cmd_drop_ok
  typed_cmd_fix_ok typed_cmd_flash_ok typed_cmd_get_ok typed_cmd_go_ok typed_cmd_install_ok
  typed_cmd_inventory_ok typed_cmd_sigh_ok typed_cmd_use_ok typed_cmd_wear_ok
  try_to_move_left_ok try_to_move_right_ok try_to_enter_ok

end
