(* ===== verification/BuildWorld.thy ===== *)
theory BuildWorld
  imports CommandInv
begin

text \<open>
  What \<open>build_world\<close> builds from the tables: when every file is readable it succeeds, and the world it
  leaves satisfies the invariant with the player at the start; when a photo or an image cannot be
  read it fails.
\<close>

section \<open>Rooms\<close>

definition made_room :: "files \<Rightarrow> room_data_t \<Rightarrow> room_t" where
  "made_room files d = \<lparr>r_name = Some (rd_name d), r_view = read_photo (files (rd_filename d)), r_contents = None,
     r_left = link (rd_left d), r_enter = link (rd_enter d), r_right = link (rd_right d)\<rparr>"

lemma setup_rooms:
  assumes "distinct (map rd_id ds)"
    and "\<forall>d\<in>set ds. 0 \<le> rd_id d \<and> rd_id d < 64 \<and> r_name (room w (rd_id d)) = None \<and> read_photo (files (rd_filename d)) \<noteq> None"
  shows "\<exists>R. each (setup_room files) ds w = Some (True, w\<lparr>room := R\<rparr>)
    \<and> (\<forall>d\<in>set ds. R (rd_id d) = made_room files d) \<and> (\<forall>r. r \<notin> rd_id ` set ds \<longrightarrow> R r = room w r)"
  using assms
proof (induction ds arbitrary: w)
  case Nil
  then show ?case by (intro exI [of _ "room w"]) simp
next
  case (Cons d ds)
  let ?w = "w\<lparr>room := (room w)(rd_id d := made_room files d)\<rparr>"
  have all: "t\<lparr>r_name := a, r_view := b, r_contents := c, r_left := l, r_enter := e, r_right := q\<rparr>
      = \<lparr>r_name = a, r_view = b, r_contents = c, r_left = l, r_enter = e, r_right = q\<rparr>" for t a b c l e q
    by (cases t) simp
  have step: "setup_room files d w = Some (True, ?w)"
    using Cons.prems(2) by (auto simp: setup_room_def Let_def set_room_def made_room_def all)
  have "\<exists>R. each (setup_room files) ds ?w = Some (True, ?w\<lparr>room := R\<rparr>)
    \<and> (\<forall>e\<in>set ds. R (rd_id e) = made_room files e) \<and> (\<forall>r. r \<notin> rd_id ` set ds \<longrightarrow> R r = room ?w r)"
  proof (rule Cons.IH)
    have "rd_id e \<noteq> rd_id d" if "e \<in> set ds" for e
      using Cons.prems(1) imageI [OF that, of rd_id] by (auto simp del: imageI)
    then show "\<forall>e\<in>set ds. 0 \<le> rd_id e \<and> rd_id e < 64 \<and> r_name (room ?w (rd_id e)) = None
        \<and> read_photo (files (rd_filename e)) \<noteq> None"
      using Cons.prems(2) by simp
  qed (use Cons.prems(1) in simp)
  then obtain R where R: "each (setup_room files) ds ?w = Some (True, ?w\<lparr>room := R\<rparr>)"
      "\<forall>e\<in>set ds. R (rd_id e) = made_room files e" "\<forall>r. r \<notin> rd_id ` set ds \<longrightarrow> R r = room ?w r" by blast
  show ?case
    by (rule exI [of _ R]) (use step R Cons.prems(1) in auto)
qed

section \<open>Objects\<close>

definition same_rooms :: "world \<Rightarrow> world \<Rightarrow> bool" where
  "same_rooms w w' \<longleftrightarrow> (\<forall>r. r_name (room w' r) = r_name (room w r) \<and> r_view (room w' r) = r_view (room w r)
     \<and> r_left (room w' r) = r_left (room w r) \<and> r_enter (room w' r) = r_enter (room w r)
     \<and> r_right (room w' r) = r_right (room w r)) \<and> flags w' = flags w"

lemma same_rooms_trans: "same_rooms w w' \<Longrightarrow> same_rooms w' w'' \<Longrightarrow> same_rooms w w''"
  by (simp add: same_rooms_def)

lemma same_rooms_fixed: "fixed_part w' = fixed_part w \<Longrightarrow> same_rooms w w'"
  unfolding same_rooms_def using fixed_partD [of w' w] by blast

definition placed_as :: "obj_data_t \<Rightarrow> world \<Rightarrow> bool \<times> world \<Rightarrow> bool" where
  "placed_as d w res = (case res of (ok, w') \<Rightarrow> ok \<and> (\<exists>L. listed w' L) \<and> same_rooms w w'
     \<and> loc_of w' = (loc_of w)(od_id d := link (od_room d))
     \<and> (\<forall>k. k \<noteq> od_id d \<longrightarrow> o_name (object w' k) = o_name (object w k) \<and> o_img (object w' k) = o_img (object w k))
     \<and> o_name (object w' (od_id d)) = Some (od_name d) \<and> has_image (o_img (object w' (od_id d))))"

lemma setup_object_placed:
  assumes L: "listed w L" and id: "0 \<le> od_id d" "od_id d < 20" and fresh: "o_name (object w (od_id d)) = None"
    "loc_of w (od_id d) = None" and img: "read_obj_image (files (od_filename d)) \<noteq> None"
    and view: "od_room d \<noteq> - 1 \<Longrightarrow> r_view (room w (od_room d)) \<noteq> None"
  shows "returns (setup_object files d w) (placed_as d w)"
proof -
  let ?k = "od_id d"
  let ?w = "set_object ?k (\<lambda>t. t\<lparr>o_next := None, o_loc := None, o_x := 0, o_y := 0\<rparr>)
      (set_object ?k (\<lambda>t. t\<lparr>o_name := Some (od_name d), o_img := read_obj_image (files (od_filename d))\<rparr>) w)"
  have nxt: "next_of ?w = (next_of w)(?k := None)" by (auto simp: next_of_def)
  have loc: "loc_of ?w = loc_of w" using fresh(2) by (auto simp: loc_of_def fun_eq_iff simp del: o_loc_of)
  have room: "room ?w = room w" by simp
  have "?k \<notin> set (L r)" for r using L fresh(2) by (simp add: listed_def)
  then have L': "listed ?w L" using L unfolding listed_def nxt loc room by simp
  have names: "\<forall>k. k \<noteq> ?k \<longrightarrow> o_name (object ?w k) = o_name (object w k) \<and> o_img (object ?w k) = o_img (object w k)"
    "o_name (object ?w ?k) = Some (od_name d)" "has_image (o_img (object ?w ?k))"
    using img read_obj_image_ok by (auto simp: has_image_def)
  have fl: "flags ?w = flags w" unfolding flags_def player_flag_is_set_def by (simp add: set_object_def)
  have start: "same_rooms w ?w" unfolding same_rooms_def fl by simp
  have run: "setup_object files d w = (if od_room d \<noteq> - 1 then
           (if od_x d \<noteq> - 1
            then do { w \<leftarrow> insert_object_at ?k (od_room d) (od_x d) (od_y d) ?w; Some (True, w) }
            else do { w \<leftarrow> insert_object ?k (od_room d) ?w; Some (True, w) })
         else Some (True, ?w))"
  proof -
    obtain im where im: "read_obj_image (files (od_filename d)) = Some im" using img by blast
    show ?thesis using id fresh(1) by (simp add: setup_object_def Let_def im)
  qed
  have inserted: "placed_as d w (True, w')"
    if "listed w' M" "fixed_part w' = fixed_part ?w" "loc_of w' = (loc_of ?w)(?k := Some (od_room d))" "od_room d \<noteq> - 1" for w' M
  proof -
    have "o_name (object w' k) = o_name (object ?w k) \<and> o_img (object w' k) = o_img (object ?w k)" for k
      using fixed_partD(6,7) [OF that(2)] by blast
    moreover have "same_rooms w w'" by (rule same_rooms_trans [OF start same_rooms_fixed [OF that(2)]])
    ultimately show ?thesis using that(1,3,4) names unfolding placed_as_def loc by (auto simp: link_def)
  qed
  show ?thesis
  proof (cases "od_room d = - 1")
    case True
    have same: "(loc_of w)(?k := None) = loc_of w" using fresh(2) by (simp add: fun_upd_idem)
    have lists: "\<exists>L. listed ?w L" using L' by blast
    have "placed_as d w (True, ?w)"
      unfolding placed_as_def prod.case loc using lists start names True by (simp only: link_def same if_True simp_thms)
    then show ?thesis unfolding run using True by simp
  next
    case False
    have "returns (insert_object_at ?k (od_room d) (od_x d) (od_y d) ?w) (\<lambda>w'. placed_as d w (True, w'))"
      by (rule insert_object_at_returns [OF L']) (rule inserted [OF _ _ _ False])
    moreover have "returns (insert_object ?k (od_room d) ?w) (\<lambda>w'. placed_as d w (True, w'))"
    proof (rule insert_object_returns [OF L'])
      show "r_view (room ?w (od_room d)) \<noteq> None" using view [OF False] by simp
      show "o_img (object ?w ?k) \<noteq> None" by (rule has_there(2) [OF names(3)])
    qed (rule inserted [OF _ _ _ False])
    ultimately show ?thesis unfolding run using False by simp
  qed
qed

definition place_all :: "obj_data_t list \<Rightarrow> (int \<Rightarrow> int option) \<Rightarrow> int \<Rightarrow> int option" where
  "place_all ds loc = fold (\<lambda>d loc. loc(od_id d := link (od_room d))) ds loc"

definition placed_all :: "obj_data_t list \<Rightarrow> world \<Rightarrow> bool \<times> world \<Rightarrow> bool" where
  "placed_all ds w res = (case res of (ok, w') \<Rightarrow> ok \<and> (\<exists>L. listed w' L) \<and> same_rooms w w'
     \<and> loc_of w' = place_all ds (loc_of w)
     \<and> (\<forall>k. if k \<in> set (map od_id ds) then o_name (object w' k) \<noteq> None \<and> has_image (o_img (object w' k))
           else o_name (object w' k) = o_name (object w k) \<and> o_img (object w' k) = o_img (object w k))
     \<and> (\<forall>d\<in>set ds. o_name (object w' (od_id d)) = Some (od_name d)))"

lemma setup_objects:
  assumes "\<exists>L. listed w L" and "distinct (map od_id ds)"
    and "\<forall>d\<in>set ds. 0 \<le> od_id d \<and> od_id d < 20 \<and> o_name (object w (od_id d)) = None \<and> loc_of w (od_id d) = None
      \<and> read_obj_image (files (od_filename d)) \<noteq> None \<and> (od_room d \<noteq> - 1 \<longrightarrow> r_view (room w (od_room d)) \<noteq> None)"
  shows "returns (each (setup_object files) ds w) (placed_all ds w)"
  using assms
proof (induction ds arbitrary: w)
  case Nil
  then show ?case by (simp add: placed_all_def place_all_def same_rooms_def)
next
  case (Cons d ds)
  obtain L where L: "listed w L" using Cons.prems(1) by blast
  have "returns (setup_object files d w) (placed_as d w)"
    by (rule setup_object_placed [OF L]) (use Cons.prems(3) in auto)
  then show ?case unfolding each.simps
  proof (rule returns_then, clarify)
    fix ok w1 assume "placed_as d w (ok, w1)"
    then have w1: "ok" "\<exists>L. listed w1 L" "same_rooms w w1" "loc_of w1 = (loc_of w)(od_id d := link (od_room d))"
      "\<And>k. k \<noteq> od_id d \<Longrightarrow> o_name (object w1 k) = o_name (object w k) \<and> o_img (object w1 k) = o_img (object w k)"
      "o_name (object w1 (od_id d)) = Some (od_name d)" "has_image (o_img (object w1 (od_id d)))"
      by (auto simp: placed_as_def)
    have ids: "od_id e \<noteq> od_id d" if "e \<in> set ds" for e
      using Cons.prems(2) imageI [OF that, of od_id] by (auto simp del: imageI)
    have pre: "\<forall>e\<in>set ds. 0 \<le> od_id e \<and> od_id e < 20 \<and> o_name (object w1 (od_id e)) = None \<and> loc_of w1 (od_id e) = None
      \<and> read_obj_image (files (od_filename e)) \<noteq> None \<and> (od_room e \<noteq> - 1 \<longrightarrow> r_view (room w1 (od_room e)) \<noteq> None)"
      using Cons.prems(3) w1(3,4,5) ids by (simp add: same_rooms_def)
    have dist: "distinct (map od_id ds)" and new: "od_id d \<notin> set (map od_id ds)" using Cons.prems(2) by simp_all
    have "placed_all (d # ds) w res" if "placed_all ds w1 res" for res
    proof -
      obtain w' where res: "res = (True, w')" using \<open>placed_all ds w1 res\<close> by (cases res) (simp add: placed_all_def)
      have r: "\<exists>L. listed w' L" "same_rooms w1 w'" "loc_of w' = place_all ds (loc_of w1)"
        "\<And>k. if k \<in> set (map od_id ds) then o_name (object w' k) \<noteq> None \<and> has_image (o_img (object w' k))
           else o_name (object w' k) = o_name (object w1 k) \<and> o_img (object w' k) = o_img (object w1 k)"
        "\<forall>d\<in>set ds. o_name (object w' (od_id d)) = Some (od_name d)"
        using that unfolding res placed_all_def prod.case by blast+
      have "if k \<in> set (map od_id (d # ds)) then o_name (object w' k) \<noteq> None \<and> has_image (o_img (object w' k))
           else o_name (object w' k) = o_name (object w k) \<and> o_img (object w' k) = o_img (object w k)" for k
        using r(4) [of k] w1(5) [of k] w1(6,7) new by (cases "k = od_id d"; cases "k \<in> set (map od_id ds)") simp_all
      moreover have "o_name (object w' (od_id d)) = Some (od_name d)" using r(4) [of "od_id d"] w1(6) new by simp
      ultimately show ?thesis using r(1,3,5) same_rooms_trans [OF w1(3) r(2)] w1(4)
        unfolding res placed_all_def prod.case by (simp add: place_all_def)
    qed
    then show "returns (if ok then each (setup_object files) ds w1 else Some (False, w1)) (placed_all (d # ds) w)"
      unfolding if_P [OF w1(1)] by (rule returns_mono [OF Cons.IH [OF w1(2) dist pre]])
  qed
qed

section \<open>The whole world\<close>

lemma object_rows: "distinct (map od_id obj_data)" "set (map od_id obj_data) = {0..<20}"
  "\<forall>d\<in>set obj_data. od_room d = - 1 \<or> 0 \<le> od_room d \<and> od_room d < 64"
proof -
  have c: "distinct (map od_id obj_data) \<and> length obj_data = 20
     \<and> list_all (\<lambda>d. 0 \<le> od_id d \<and> od_id d < 20 \<and> (od_room d = - 1 \<or> 0 \<le> od_room d \<and> od_room d < 64)) obj_data"
    by code_simp
  then show "distinct (map od_id obj_data)" by simp
  show "\<forall>d\<in>set obj_data. od_room d = - 1 \<or> 0 \<le> od_room d \<and> od_room d < 64"
    using c by (auto simp: list_all_iff)
  have "set (map od_id obj_data) \<subseteq> {0..<20}" using c by (auto simp: list_all_iff)
  moreover have "card (set (map od_id obj_data)) = 20" using c distinct_card [of "map od_id obj_data"] by simp
  ultimately show "set (map od_id obj_data) = {0..<20}" by (intro card_subset_eq) auto
qed

lemma start_places:
  "place_all obj_data (\<lambda>_. None) = (\<lambda>k. if k = O_BOARD then Some R_IN_IEEE else if k = O_JETPACK then Some R_TALBOT
     else if k = O_TUX then Some R_REM_LAB else if k = O_MP2 then Some R_CSLLOUNGE else if k = O_GPS_BAD then Some R_TALBOT
     else if k = O_GPS_SPEC then Some R_CSL_UPPER else if k = O_BUNNYSUIT then Some R_ALMAMATER
     else if k = O_FISH then Some R_EAST_BONE else if k = O_ICARD then Some R_BARDEEN else if k = O_CAR_KEY then Some R_CARIBOU
     else if k = O_ROBOT_DEAD then Some R_MNTL_LAB3 else if k = O_MIMO_CARD then Some R_STATUE else None)"
  unfolding place_all_def obj_data_def by (rule ext) (simp add: link_def)

lemma closed_doors: "list_all (\<lambda>d. rd_id d = R_INVENTORY \<or> rd_id d = R_COCKPIT \<longrightarrow> rd_enter d = R_NONE) room_data"
  by code_simp

definition readable :: "files \<Rightarrow> bool" where
  "readable files \<longleftrightarrow> list_all (\<lambda>d. has_photo (read_photo (files (rd_filename d)))) room_data
     \<and> list_all (\<lambda>d. read_obj_image (files (od_filename d)) \<noteq> None) obj_data
     \<and> list_all (\<lambda>d. has_photo (read_photo (files (sd_filename d)))) swap_data"

lemma setup_swaps:
  "readable files \<Longrightarrow> swap_photo w = (\<lambda>_. None) \<Longrightarrow>
     \<exists>a b. each (setup_swap files) swap_data w = Some (True, w\<lparr>swap_photo := (\<lambda>_. None)(SWAP_CIRCLE := Some a, SWAP_CAR := Some b)\<rparr>)
       \<and> has_photo (Some a) \<and> has_photo (Some b)"
  by (auto simp: readable_def swap_data_def setup_swap_def Let_def has_photo_def split: option.splits)

lemma build_rooms:
  assumes "readable files"
  shows "\<exists>R. each (setup_room files) room_data (w\<lparr>player_flags := (\<lambda>_. 0), room := (\<lambda>_. no_room)\<rparr>)
        = Some (True, w\<lparr>player_flags := (\<lambda>_. 0), room := R\<rparr>)
     \<and> (\<forall>d\<in>set room_data. R (rd_id d) = made_room files d) \<and> (\<forall>r. r_contents (R r) = None)"
proof -
  have "\<exists>R. each (setup_room files) room_data (w\<lparr>player_flags := (\<lambda>_. 0), room := (\<lambda>_. no_room)\<rparr>)
        = Some (True, (w\<lparr>player_flags := (\<lambda>_. 0), room := (\<lambda>_. no_room)\<rparr>)\<lparr>room := R\<rparr>)
     \<and> (\<forall>d\<in>set room_data. R (rd_id d) = made_room files d)
     \<and> (\<forall>r. r \<notin> rd_id ` set room_data \<longrightarrow> R r = room (w\<lparr>player_flags := (\<lambda>_. 0), room := (\<lambda>_. no_room)\<rparr>) r)"
    by (rule setup_rooms) (use rows_ok assms in \<open>auto simp: room_rows_ok_def readable_def no_room_def list_all_iff dest!: has_there\<close>)
  then obtain R where R: "each (setup_room files) room_data (w\<lparr>player_flags := (\<lambda>_. 0), room := (\<lambda>_. no_room)\<rparr>)
        = Some (True, w\<lparr>player_flags := (\<lambda>_. 0), room := R\<rparr>)"
      "\<forall>d\<in>set room_data. R (rd_id d) = made_room files d" "\<forall>r. r \<notin> rd_id ` set room_data \<longrightarrow> R r = no_room" by auto
  have "r_contents (R r) = None" for r
    using R(2,3) by (cases "r \<in> rd_id ` set room_data") (auto simp: made_room_def no_room_def)
  with R show ?thesis by blast
qed

text \<open>The world before the first move.\<close>

definition new_world :: "world \<Rightarrow> bool" where
  "new_world w \<longleftrightarrow> loc_of w = place_all obj_data (\<lambda>_. None) \<and> flags w = (\<lambda>_. False)
     \<and> r_enter (room w R_INVENTORY) = None \<and> r_enter (room w R_COCKPIT) = None
     \<and> (\<forall>d\<in>set obj_data. o_name (object w (od_id d)) = Some (od_name d))"

lemma build_world_ok:
  assumes "readable files"
  shows "returns (build_world files w) (\<lambda>(ok, w'). ok \<and> world_inv start_in_room w' \<and> new_world w')"
proof -
  obtain R where R: "each (setup_room files) room_data (w\<lparr>player_flags := (\<lambda>_. 0), room := (\<lambda>_. no_room)\<rparr>)
        = Some (True, w\<lparr>player_flags := (\<lambda>_. 0), room := R\<rparr>)"
      "\<forall>d\<in>set room_data. R (rd_id d) = made_room files d" "\<forall>r. r_contents (R r) = None"
    using build_rooms [OF assms] by blast
  have row: "R r = made_room files d" if "room_row r = Some d" for r d
  proof -
    have "d \<in> set room_data \<and> rd_id d = r" using that unfolding room_row_def by (auto dest: map_of_SomeD)
    then show ?thesis using R(2) by auto
  qed
  let ?w = "w\<lparr>player_flags := (\<lambda>_. 0), room := R, object := (\<lambda>_. no_object)\<rparr>"
  have empty: "listed ?w (\<lambda>_. [])" "loc_of ?w = (\<lambda>_. None)" "flags ?w = (\<lambda>_. False)"
    using R(3) by (simp_all add: listed_def loc_of_def no_object_def flags_def player_flag_is_set_def del: o_loc_of flag_is)
  have view: "has_photo (r_view (R r))" if "0 \<le> r" "r < 64" for r
    using room_row_dom [of r] row that assms by (fastforce simp: is_room_def made_room_def readable_def list_all_iff)
  have "returns (each (setup_object files) obj_data ?w) (placed_all obj_data ?w)"
  proof (rule setup_objects [OF exI [of "listed ?w", OF empty(1)] object_rows(1)], intro ballI)
    fix d assume d: "d \<in> set obj_data"
    then have "od_id d \<in> {0..<20}" using object_rows(2) by auto
    then show "0 \<le> od_id d \<and> od_id d < 20 \<and> o_name (object ?w (od_id d)) = None \<and> loc_of ?w (od_id d) = None
      \<and> read_obj_image (files (od_filename d)) \<noteq> None \<and> (od_room d \<noteq> - 1 \<longrightarrow> r_view (room ?w (od_room d)) \<noteq> None)"
      using d assms object_rows(3) has_there(1) [OF view] empty(2) by (auto simp: readable_def list_all_iff no_object_def simp del: not_None_eq)
  qed
  then have "returns (each (setup_object files) obj_data ?w) (\<lambda>res. fst res \<and>
      returns (each (setup_swap files) swap_data ((snd res)\<lparr>swap_photo := (\<lambda>_. None)\<rparr>)) (\<lambda>(ok, w'). ok \<and> world_inv start_in_room w' \<and> new_world w'))"
  proof (rule returns_mono)
    fix res assume placed: "placed_all obj_data ?w res"
    then obtain w1 where res: "res = (True, w1)" by (cases res) (simp add: placed_all_def)
    note p = placed [unfolded res placed_all_def prod.case]
    obtain L where L: "listed w1 L" using p by (elim conjE exE)
    have same: "same_rooms ?w w1" by (rule p [THEN conjunct2, THEN conjunct2, THEN conjunct1])
    have loc: "loc_of w1 = place_all obj_data (loc_of ?w)" by (rule p [THEN conjunct2, THEN conjunct2, THEN conjunct2, THEN conjunct1])
    have named: "o_name (object w1 k) \<noteq> None \<and> has_image (o_img (object w1 k))" if "k \<in> set (map od_id obj_data)" for k
      using spec [OF p [THEN conjunct2, THEN conjunct2, THEN conjunct2, THEN conjunct2, THEN conjunct1], of k] unfolding if_P [OF that] .
    obtain a b where sw: "each (setup_swap files) swap_data (w1\<lparr>swap_photo := (\<lambda>_. None)\<rparr>)
        = Some (True, w1\<lparr>swap_photo := (\<lambda>_. None)(SWAP_CIRCLE := Some a, SWAP_CAR := Some b)\<rparr>)"
        and swapped: "has_photo (Some a)" "has_photo (Some b)"
      using setup_swaps [OF assms, of "w1\<lparr>swap_photo := (\<lambda>_. None)\<rparr>"] by auto
    let ?w2 = "w1\<lparr>swap_photo := (\<lambda>_. None)(SWAP_CIRCLE := Some a, SWAP_CAR := Some b)\<rparr>"
    have keep: "listed ?w2 L" "loc_of ?w2 = loc_of w1" "flags ?w2 = flags w1"
      using L by (simp_all add: listed_def next_of_def loc_of_def flags_def player_flag_is_set_def del: o_loc_of flag_is)
    have fl: "flags w1 = (\<lambda>_. False)" using same empty(3) by (simp add: same_rooms_def)
    have rooms: "r_name (room w1 r) = r_name (R r) \<and> r_view (room w1 r) = r_view (R r) \<and> r_left (room w1 r) = r_left (R r)
        \<and> r_enter (room w1 r) = r_enter (R r) \<and> r_right (room w1 r) = r_right (R r)" for r
      using same by (simp add: same_rooms_def)
    have view1: "has_photo (r_view (room w1 r))" if "room_row r = Some d" for r d
      using rooms row [OF that] that assms unfolding room_row_def
      by (auto simp: made_room_def readable_def list_all_iff dest!: map_of_SomeD)
    have "complete ?w2"
      unfolding complete_def
    proof (intro conjI allI impI)
      fix r d assume rd: "room_row r = Some d"
      show "has_photo (r_view (room ?w2 r))" using view1 [OF rd] by simp
    next
      fix k :: int assume "0 \<le> k \<and> k < 20"
      then have "k \<in> set (map od_id obj_data)" using object_rows(2) by auto
      then show "o_name (object ?w2 k) \<noteq> None" "has_image (o_img (object ?w2 k))" using named by simp_all
    qed (use rooms row swapped in \<open>simp_all add: made_room_def\<close>)
    moreover have "in_range (loc_of ?w2)" "story (loc_of ?w2) (flags ?w2)"
      unfolding keep loc empty(2) start_places fl by (simp_all add: in_range_def story_def)
    moreover have "r_enter (room ?w2 R_INVENTORY) = None" "r_enter (room ?w2 R_COCKPIT) = None"
    proof -
      have "r_enter (R r) = None" if "r = R_INVENTORY \<or> r = R_COCKPIT" for r
      proof -
        have "is_room r" using that by (auto simp: is_room_def)
        then obtain d where "room_row r = Some d" "d \<in> set room_data" "rd_id d = r" using room_row_dom by blast
        then show ?thesis using row closed_doors that by (auto simp: list_all_iff made_room_def link_def)
      qed
      then show "r_enter (room ?w2 R_INVENTORY) = None" "r_enter (room ?w2 R_COCKPIT) = None" using rooms by simp_all
    qed
    moreover from this have "new_world ?w2"
      using p [THEN conjunct2, THEN conjunct2, THEN conjunct2, THEN conjunct2, THEN conjunct2] keep(3) fl loc
      unfolding new_world_def keep(2) empty(2) by simp
    ultimately have "world_ok ?w2" "new_world ?w2" using keep(1) by (auto simp: world_ok_def ok_with_def ways_def)
    moreover have "player_ok start_in_room ?w2"
      by (simp add: player_ok_def start_in_room_def is_room_def may_be_def needs_def)
    ultimately show "fst res \<and> returns (each (setup_swap files) swap_data ((snd res)\<lparr>swap_photo := (\<lambda>_. None)\<rparr>))
        (\<lambda>(ok, w'). ok \<and> world_inv start_in_room w' \<and> new_world w')"
      by (simp add: res sw world_inv_def)
  qed
  then obtain res where res: "each (setup_object files) obj_data ?w = Some res" and fin: "fst res"
      "returns (each (setup_swap files) swap_data ((snd res)\<lparr>swap_photo := (\<lambda>_. None)\<rparr>)) (\<lambda>(ok, w'). ok \<and> world_inv start_in_room w' \<and> new_world w')"
    unfolding returns_iff [of "each (setup_object files) obj_data ?w"] by blast
  show ?thesis
    using fin by (cases res) (simp add: build_world_def Let_def R(1) res)
qed

end
