(* ===== verification/GameInv.thy ===== *)
theory GameInv
  imports Scroll CommandInv BuildWorld
begin

text \<open>
  The invariant of the game: the player is in a room of a good world, and unless a new room waits to be
  drawn, the window of the build buffer shows the picture of that room.  Every command keeps it.
\<close>

section \<open>Commands that do not ask for a redraw\<close>

text \<open>No operation on the lists changes a photo.\<close>

definition views :: "world \<Rightarrow> int \<Rightarrow> photo_t option" where
  "views w = (\<lambda>r. r_view (room w r))"

named_theorems truth

lemma views_same [truth]:
  "views (show_status s w) = views w" "views (player_set_flag n w) = views w" "views (w\<lparr>draws := c\<rparr>) = views w"
  "views (set_object k h w) = views w" "views (set_room r (r_contents_update f) w) = views w"
  "views (set_room r (r_enter_update f) w) = views w"
  by (auto simp: views_def show_status_def player_set_flag_def set_object_def set_room_def)

lemma views_write_place [truth]: "views (write_place p q w) = views w"
  by (cases p) (simp_all add: truth)

lemma unlink_views: "unlink ob p w = Some w' \<Longrightarrow> views w' = views w"
proof -
  assume run: "unlink ob p w = Some w'"
  show ?thesis
  proof (rule unlink.raw_induct [where P = "\<lambda>ob p w w'. views w' = views w", OF _ run])
    fix rec ob p w y
    assume "\<And>ob p w y. rec ob p w = Some y \<Longrightarrow> views y = views w"
      and "(case read_place p w of None \<Rightarrow> Some w
        | Some k \<Rightarrow> if ob = k then Some (write_place p (o_next (object w ob)) w) else rec ob (Next k) w) = Some y"
    then show "views y = views w" by (auto simp: truth split: option.splits if_splits)
  qed
qed

lemma remove_views: "remove_object ob w = Some w' \<Longrightarrow> views w' = views w"
  by (auto simp: remove_object_def bind_eq_Some_conv truth dest!: unlink_views split: option.splits)

lemma insert_at_views: "insert_object_at ob r x y w = Some w' \<Longrightarrow> views w' = views w"
  by (auto simp: insert_object_at_def bind_eq_Some_conv truth Let_def dest!: remove_views)

lemma pick_views: "pick n w = (v, w') \<Longrightarrow> views w' = views w"
  by (auto simp: pick_def rand_def truth split: if_splits)

lemma insert_views: "insert_object ob r w = Some w' \<Longrightarrow> views w' = views w"
proof -
  assume run: "insert_object ob r w = Some w'"
  obtain view img where vi: "r_view (room w r) = Some view" "o_img (object w ob) = Some img"
    using run by (auto simp: insert_object_def bind_eq_Some_conv)
  obtain x w1 where 1: "pick (photo_width view - image_width img) w = (x, w1)" by fastforce
  obtain y w2 where 2: "pick (photo_height view - image_height img) w1 = (y, w2)" by fastforce
  obtain z w3 where 3: "pick (photo_height view div 4 - image_height img) w1 = (z, w3)" by fastforce
  have "views w1 = views w" "views w2 = views w1" "views w3 = views w1" using 1 2 3 by (simp_all add: pick_views)
  then show ?thesis using run vi 1 2 3
    by (auto simp: insert_object_def Let_def split: if_splits dest!: insert_at_views)
qed

lemma grid_views: "grid_loop obj ps w = Some w' \<Longrightarrow> views w' = views w"
  by (induction ps) (auto simp: bind_eq_Some_conv dest!: insert_views insert_at_views split: if_splits)

lemma to_inventory_views: "move_object_to_inventory obj w = Some w' \<Longrightarrow> views w' = views w"
  by (simp add: move_object_to_inventory_def grid_views)

lemma special_get_views: "obj_special_get r arg w = Some (obj, w') \<Longrightarrow> views w' = views w"
  by (auto simp: obj_special_get_def bind_eq_Some_conv truth dest!: remove_views split: if_splits)

lemmas op_views = remove_views insert_at_views insert_views to_inventory_views special_get_views

text \<open>An outcome that does not change the room keeps the photos, and without a redraw the objects too.\<close>

definition tells_truth :: "int \<Rightarrow> world \<Rightarrow> outcome \<Rightarrow> bool" where
  "tells_truth r w m \<longleftrightarrow> (\<forall>act to w'. m = Some (act, to, w') \<longrightarrow> act \<noteq> TC_CHANGE_ROOM \<longrightarrow>
     to = Some r \<and> views w' = views w \<and> (act \<noteq> TC_REDRAW_ROOM \<longrightarrow> room w' = room w \<and> object w' = object w))"

lemma tells_Some [truth]:
  "tells_truth r w (Some (act, to, w')) \<longleftrightarrow> act = TC_CHANGE_ROOM \<or>
     to = Some r \<and> views w' = views w \<and> (act = TC_REDRAW_ROOM \<or> room w' = room w \<and> object w' = object w)"
  "tells_truth r w None"
  by (auto simp: tells_truth_def)

lemma tells_bind [truth]: "tells_truth r w (m \<bind> f) \<longleftrightarrow> (\<forall>x. m = Some x \<longrightarrow> tells_truth r w (f x))"
  by (cases m) (simp_all add: truth)

lemma tells_if [truth]: "tells_truth r w (if b then m else n) \<longleftrightarrow> (b \<longrightarrow> tells_truth r w m) \<and> (\<not> b \<longrightarrow> tells_truth r w n)"
  by simp

lemma tells_say [truth]: "tells_truth r w (say s act r' w') \<longleftrightarrow> tells_truth r w (Some (act, Some r', w'))"
  by (simp add: truth say_def)

lemma status_scene [truth]: "room (show_status s w) = room w" "object (show_status s w) = object w"
  by (simp_all add: show_status_def)

lemma flag_scene [truth]: "room (player_set_flag f w) = room w" "object (player_set_flag f w) = object w"
  by (simp_all add: player_set_flag_def)

lemma go_into_truth [truth]: "tells_truth r w (go_into r' w')"
  by (auto simp: go_into_def truth split: prod.splits)

lemma special_get_scene: "obj_special_get src arg w = Some (None, w') \<Longrightarrow> w' = w"
  "obj_special_get src arg w = Some (Some O_TUX, w') \<Longrightarrow> False"
  by (auto simp: obj_special_get_def bind_eq_Some_conv split: if_splits)

lemma move_left_truth: "tells_truth r w (try_to_move_left r w)"
  by (auto simp: try_to_move_left_def truth split: option.splits)

lemma move_right_truth: "tells_truth r w (try_to_move_right r w)"
  by (auto simp: try_to_move_right_def truth split: option.splits)

lemma enter_truth: "tells_truth r w (try_to_enter r w)"
  by (auto simp: try_to_enter_def rand_def truth split: option.splits)

lemma get_truth: "tells_truth r w (typed_cmd_get r arg w)"
proof -
  have "tells_truth r w (case obj of
       None \<Rightarrow> say s TC_ALLOW_EDIT r w'
     | Some k \<Rightarrow>
         if k = O_TUX \<and> \<not> player_flag_is_set FLAG_LURED_TUX w' then say t TC_DISCARD_TEXT r w'
         else do {
           w \<leftarrow> move_object_to_inventory k w';
           Some (TC_REDRAW_ROOM, Some r, w) })"
    if "obj_special_get src arg w = Some (obj', w')" "(if obj' = None then find_in_room src arg w' else Some obj') = Some obj"
    for obj obj' src w' s t
    using that special_get_scene [of src arg w w'] by (auto simp: truth dest!: op_views split: option.splits if_splits)
  note after = this
  show ?thesis unfolding typed_cmd_get_def tells_bind split_paired_All prod.case by (intro allI impI after)
qed

lemma run_typed_truth: "tells_truth r w (run_typed c r arg w)"
proof (cases c)
  case TC_GET
  then show ?thesis by (simp add: run_typed_def get_truth)
qed (auto simp: run_typed_def truth typed_cmd_buy_def typed_cmd_charge_def typed_cmd_do_def typed_cmd_drink_def typed_cmd_drop_def
   typed_cmd_fix_def typed_cmd_flash_def typed_cmd_go_def typed_cmd_install_def typed_cmd_inventory_def typed_cmd_sigh_def
   typed_cmd_use_def typed_cmd_wear_def Let_def dest!: op_views split: option.splits)

lemma run_typed_ok: "world_inv r w \<Longrightarrow> returns (run_typed c r arg w) outcome_ok"
  by (cases c) (simp_all add: run_typed_def commands_ok del: returns_simps)

section \<open>The invariant\<close>

text \<open>The window shows the picture \<open>f\<close> of a room whose photo is \<open>v\<close>.\<close>

definition window_shows :: "game \<Rightarrow> int \<Rightarrow> photo_t \<Rightarrow> int list \<Rightarrow> bool" where
  "window_shows g r v objs \<longleftrightarrow> cur_room g = Some r \<and> room_shows r (wld g) v objs
     \<and> show_x (scr g) = uint (map_x g) \<and> show_y (scr g) = uint (map_y g)
     \<and> uint (map_x g) + 320 \<le> photo_width v \<and> uint (map_y g) + 182 \<le> photo_height v
     \<and> painted (scr g) (picture_at (wld g) v objs)"

definition speeds_ok :: "game \<Rightarrow> bool" where
  "speeds_ok g \<longleftrightarrow> x_speed g \<in> {2, 6} \<and> y_speed g \<in> {2, 6}"

definition keys_ok :: "game \<Rightarrow> bool" where
  "keys_ok g \<longleftrightarrow> typed_ok (typing (keys g)) \<and> state (keys g) \<le> 3"

definition in_room :: "int \<Rightarrow> game \<Rightarrow> bool" where
  "in_room r g \<longleftrightarrow> player g = Some r \<and> world_inv r (wld g) \<and> fits_view (scr g) \<and> page_ok (scr g) \<and> speeds_ok g \<and> keys_ok g
     \<and> (\<not> enter_room g \<longrightarrow> (\<exists>v objs. window_shows g r v objs))"

definition game_ok :: "game \<Rightarrow> bool" where
  "game_ok g \<longleftrightarrow> (\<exists>r. in_room r g)"

definition game_won :: "game \<Rightarrow> bool" where
  "game_won g \<longleftrightarrow> player g = None \<and> all_done (wld g)"

section \<open>Scrolling\<close>

lemma word_move:
  fixes a :: "32 word"
  assumes "0 \<le> uint a + d" and "uint a + d < 2 ^ 31"
  shows "uint (a + word_of_int d) = uint a + d" and "sint (a + word_of_int d) = uint a + d"
proof -
  have "uint (a + word_of_int d) = (uint a + d) mod 2 ^ 32"
    by (simp add: uint_word_ariths(1) uint_word_of_int mod_add_right_eq)
  then show u: "uint (a + word_of_int d) = uint a + d" using assms by simp
  then show "sint (a + word_of_int d) = uint a + d"
    using sint_uint [of "a + word_of_int d"] assms by (simp add: signed_take_bit_int_eq_self)
qed

lemma sint_small: "uint (a :: 32 word) < 2 ^ 31 \<Longrightarrow> sint a = uint a"
  using word_move(2) [of a 0] by simp

lemma room_shows_size: "room_shows r w v objs \<Longrightarrow> photo_width v \<le> 1024 \<and> photo_height v \<le> 1024"
  by (simp add: room_shows_def photo_ok_def)

lemma callback_rows:
  assumes "cur_room g = Some r" and "room_shows r (wld g) v objs" and "0 \<le> y" "y < photo_height v"
  shows "horiz_line g x y = Some (map (\<lambda>k. picture_at (wld g) v objs (x + int k) y) [0..<320])"
  using assms fill_horiz_picture [of r "wld g" v objs y x] by (simp add: horiz_line_def del: upt_Suc)

lemma callback_columns:
  assumes "cur_room g = Some r" and "room_shows r (wld g) v objs" and "0 \<le> x" "x < photo_width v"
  shows "vert_line g x y = Some (map (\<lambda>k. picture_at (wld g) v objs x (y + int k)) [0..<182])"
  using assms fill_vert_picture [of r "wld g" v objs x y] by (simp add: vert_line_def del: upt_Suc)

lemma callbacks_fields [simp]:
  "horiz_line (g\<lparr>map_y := y\<rparr>) = horiz_line g" "vert_line (g\<lparr>map_x := x\<rparr>) = vert_line g"
  by (simp_all add: horiz_line_def vert_line_def fun_eq_iff)

text \<open>The word arithmetic of the distance: towards the origin, and away from it.\<close>

lemma back_delta:
  fixes a :: "32 word"
  assumes "s \<in> {2, 6}" and "uint a < 1024"
  shows "sint (if word_of_int s > a then a else word_of_int s) = min s (uint a)"
proof -
  have "sint a = uint a" by (rule sint_small) (use assms(2) in simp)
  then show ?thesis using assms by (auto simp: word_less_alt)
qed

lemma forward_delta:
  fixes a :: "32 word"
  assumes "uint a + n \<le> w" and "w \<le> 1024" and "0 \<le> n"
  shows "sint (word_of_int (w - n) - a) = w - n - uint a"
proof -
  have "word_of_int (w - n) - a = word_of_int (w - n - uint a)" by simp
  moreover have "sint (word_of_int (w - n - uint a) :: 32 word) = w - n - uint a"
  proof -
    have "0 \<le> uint a" by simp
    then have "w - n - uint a \<le> 1024" "0 \<le> w - n - uint a" using assms by linarith+
    then show ?thesis using word_move(2) [of "0 :: 32 word" "w - n - uint a"] by simp
  qed
  ultimately show ?thesis by simp
qed

definition scrolled :: "game \<Rightarrow> game \<Rightarrow> bool" where
  "scrolled g g' \<longleftrightarrow> player g' = player g \<and> wld g' = wld g \<and> cur_room g' = cur_room g \<and> enter_room g' = enter_room g
     \<and> x_speed g' = x_speed g \<and> y_speed g' = y_speed g \<and> keys g' = keys g \<and> curr_btns g' = curr_btns g
     \<and> target_img (scr g') = target_img (scr g) \<and> video (scr g') = video (scr g) \<and> fits_view (scr g')"

lemma scroll_vertical:
  assumes g: "window_shows g r v objs" "fits_view (scr g)"
    and d: "uint (map_y g) + d \<le> photo_height v - 182" "0 \<le> uint (map_y g) + d"
    and lines: "\<forall>i\<in>set is. 0 \<le> i \<and> i < 182"
    and new: "\<And>i. 0 \<le> i \<Longrightarrow> i < 182 \<Longrightarrow> i + d < 0 \<or> 182 \<le> i + d \<Longrightarrow> i \<in> set is"
  shows "\<exists>m1 m'. set_view_window (sint (map_x g)) (sint (map_y g + word_of_int d)) (scr g) = Some m1
    \<and> draw_lines (draw_horiz_line (horiz_line g)) is m1 = Some m'
    \<and> window_shows (g\<lparr>map_y := map_y g + word_of_int d, scr := m'\<rparr>) r v objs
    \<and> scrolled g (g\<lparr>map_y := map_y g + word_of_int d, scr := m'\<rparr>)"
proof -
  let ?x = "uint (map_x g)" and ?y = "uint (map_y g) + d" and ?f = "picture_at (wld g) v objs"
  have at: "show_x (scr g) = ?x" "show_y (scr g) = uint (map_y g)" "painted (scr g) ?f"
    and room: "?x + 320 \<le> photo_width v" "photo_width v \<le> 1024" "photo_height v \<le> 1024"
    using g(1) room_shows_size by (auto simp: window_shows_def)
  have y: "sint (map_y g + word_of_int d) = ?y" "uint (map_y g + word_of_int d) = ?y"
    using word_move [of "map_y g" d] d room by auto
  have x: "sint (map_x g) = ?x" by (rule sint_small) (use room in simp)
  have fill: "\<forall>i\<in>set is. 0 \<le> i \<and> i < 182 \<and> horiz_line g ?x (?y + i) = Some (map (\<lambda>k. ?f (?x + int k) (?y + i)) [0..<320])"
  proof
    fix i assume "i \<in> set is"
    then have i: "0 \<le> i" "i < 182" using lines by auto
    then have "0 \<le> ?y + i" "?y + i < photo_height v" using d by linarith+
    then show "0 \<le> i \<and> i < 182 \<and> horiz_line g ?x (?y + i) = Some (map (\<lambda>k. ?f (?x + int k) (?y + i)) [0..<320])"
      using i callback_rows g(1) unfolding window_shows_def by blast
  qed
  have "\<forall>px py. in_view ?x ?y px py \<and> \<not> in_view (show_x (scr g)) (show_y (scr g)) px py \<longrightarrow> py - ?y \<in> set is"
    by (intro allI impI, rule new) (use at(1,2) in \<open>auto simp: in_view_def\<close>)
  from scroll_by_rows [where fill = "horiz_line g" and f = ?f, OF g(2) at(3) fill this]
  obtain m1 m' where m: "set_view_window ?x ?y (scr g) = Some m1" "draw_lines (draw_horiz_line (horiz_line g)) is m1 = Some m'"
      "fits_view m'" "show_x m' = ?x" "show_y m' = ?y" "painted m' ?f" "video m' = video (scr g)" "target_img m' = target_img (scr g)"
    by blast
  have "window_shows (g\<lparr>map_y := map_y g + word_of_int d, scr := m'\<rparr>) r v objs"
    using g(1) m y(2) d(1) by (simp add: window_shows_def)
  then show ?thesis unfolding x y(1) using m by (auto simp: scrolled_def)
qed

lemma scroll_horizontal:
  assumes g: "window_shows g r v objs" "fits_view (scr g)"
    and d: "uint (map_x g) + d \<le> photo_width v - 320" "0 \<le> uint (map_x g) + d"
    and lines: "\<forall>i\<in>set is. 0 \<le> i \<and> i < 320"
    and new: "\<And>i. 0 \<le> i \<Longrightarrow> i < 320 \<Longrightarrow> i + d < 0 \<or> 320 \<le> i + d \<Longrightarrow> i \<in> set is"
  shows "\<exists>m1 m'. set_view_window (sint (map_x g + word_of_int d)) (sint (map_y g)) (scr g) = Some m1
    \<and> draw_lines (draw_vert_line (vert_line g)) is m1 = Some m'
    \<and> window_shows (g\<lparr>map_x := map_x g + word_of_int d, scr := m'\<rparr>) r v objs
    \<and> scrolled g (g\<lparr>map_x := map_x g + word_of_int d, scr := m'\<rparr>)"
proof -
  let ?x = "uint (map_x g) + d" and ?y = "uint (map_y g)" and ?f = "picture_at (wld g) v objs"
  have at: "show_x (scr g) = uint (map_x g)" "show_y (scr g) = ?y" "painted (scr g) ?f"
    and room: "?y + 182 \<le> photo_height v" "photo_width v \<le> 1024" "photo_height v \<le> 1024"
    using g(1) room_shows_size by (auto simp: window_shows_def)
  have x: "sint (map_x g + word_of_int d) = ?x" "uint (map_x g + word_of_int d) = ?x"
    using word_move [of "map_x g" d] d room by auto
  have y: "sint (map_y g) = ?y" by (rule sint_small) (use room in simp)
  have fill: "\<forall>i\<in>set is. 0 \<le> i \<and> i < 320 \<and> vert_line g (?x + i) ?y = Some (map (\<lambda>k. ?f (?x + i) (?y + int k)) [0..<182])"
  proof
    fix i assume "i \<in> set is"
    then have i: "0 \<le> i" "i < 320" using lines by auto
    then have "0 \<le> ?x + i" "?x + i < photo_width v" using d by linarith+
    then show "0 \<le> i \<and> i < 320 \<and> vert_line g (?x + i) ?y = Some (map (\<lambda>k. ?f (?x + i) (?y + int k)) [0..<182])"
      using i callback_columns g(1) unfolding window_shows_def by blast
  qed
  have "\<forall>px py. in_view ?x ?y px py \<and> \<not> in_view (show_x (scr g)) (show_y (scr g)) px py \<longrightarrow> px - ?x \<in> set is"
    by (intro allI impI, rule new) (use at(1,2) in \<open>auto simp: in_view_def\<close>)
  from scroll_by_columns [where fill = "vert_line g" and f = ?f, OF g(2) at(3) fill this]
  obtain m1 m' where m: "set_view_window ?x ?y (scr g) = Some m1" "draw_lines (draw_vert_line (vert_line g)) is m1 = Some m'"
      "fits_view m'" "show_x m' = ?x" "show_y m' = ?y" "painted m' ?f" "video m' = video (scr g)" "target_img m' = target_img (scr g)"
    by blast
  have "window_shows (g\<lparr>map_x := map_x g + word_of_int d, scr := m'\<rparr>) r v objs"
    using g(1) m x(2) d(1) by (simp add: window_shows_def)
  then show ?thesis unfolding y x(1) using m by (auto simp: scrolled_def)
qed

text \<open>The four moves keep the window; they stop at the edges of the photo.\<close>

definition scrolls_to :: "game \<Rightarrow> int \<Rightarrow> photo_t \<Rightarrow> int list \<Rightarrow> int \<Rightarrow> int \<Rightarrow> game \<Rightarrow> bool" where
  "scrolls_to g r v objs x y g' \<longleftrightarrow> window_shows g' r v objs \<and> scrolled g g' \<and> uint (map_x g') = x \<and> uint (map_y g') = y"

text \<open>The lines at the near edge, up to the distance \<open>d\<close>.\<close>

lemma near_lines:
  assumes "0 \<le> d" and "d < n"
  shows "\<forall>i\<in>set (map int [0..<nat d]). 0 \<le> i \<and> i < n"
    and "0 \<le> i \<Longrightarrow> i < n \<Longrightarrow> i + - d < 0 \<or> n \<le> i + - d \<Longrightarrow> i \<in> set (map int [0..<nat d])"
proof -
  show "\<forall>i\<in>set (map int [0..<nat d]). 0 \<le> i \<and> i < n" using assms by auto
  assume i: "0 \<le> i" "i < n" "i + - d < 0 \<or> n \<le> i + - d"
  then have "i = int (nat i)" "nat i \<in> set [0..<nat d]" using assms by auto
  then show "i \<in> set (map int [0..<nat d])" by (metis image_eqI set_map)
qed

lemma move_photo_down_scrolls:
  assumes g: "window_shows g r v objs" "fits_view (scr g)" "speeds_ok g"
  shows "\<exists>g'. move_photo_down g = Some g'
    \<and> scrolls_to g r v objs (uint (map_x g)) (max 0 (uint (map_y g) - y_speed g)) g'"
proof -
  let ?d = "min (y_speed g) (uint (map_y g))"
  have s: "y_speed g \<in> {2, 6}" "0 \<le> y_speed g" using g(3) by (auto simp: speeds_ok_def)
  have room: "uint (map_y g) + 182 \<le> photo_height v" "photo_height v \<le> 1024"
    using g(1) room_shows_size by (auto simp: window_shows_def)
  moreover have "0 \<le> uint (map_y g)" by simp
  ultimately have "182 \<le> photo_height v" by linarith
  note room = room this
  have delta: "sint (if word_of_int (y_speed g) > map_y g then map_y g else word_of_int (y_speed g)) = ?d"
    by (rule back_delta [OF s(1)]) (use room in linarith)
  have d: "uint (map_y g) + - ?d \<le> photo_height v - 182" "0 \<le> uint (map_y g) + - ?d" "0 \<le> ?d" "?d < 182"
    using room s by (auto simp: min_def)
  have m: "map_y g - word_of_int ?d = map_y g + word_of_int (- ?d)" by simp
  obtain m1 m' where 1: "set_view_window (sint (map_x g)) (sint (map_y g + word_of_int (- ?d))) (scr g) = Some m1"
      "draw_lines (draw_horiz_line (horiz_line g)) (map int [0..<nat ?d]) m1 = Some m'"
      "window_shows (g\<lparr>map_y := map_y g + word_of_int (- ?d), scr := m'\<rparr>) r v objs"
      "scrolled g (g\<lparr>map_y := map_y g + word_of_int (- ?d), scr := m'\<rparr>)"
    using scroll_vertical [OF g(1,2) d(1,2) near_lines [OF d(3,4)]] by blast
  have "move_photo_down g = Some (g\<lparr>map_y := map_y g + word_of_int (- ?d), scr := m'\<rparr>)"
    unfolding move_photo_down_def delta Let_def m using 1(1,2) by simp
  moreover have "uint (map_y g + word_of_int (- ?d)) = max 0 (uint (map_y g) - y_speed g)"
    using word_move(1) [of "map_y g" "- ?d"] d room by (simp add: min_def max_def)
  ultimately show ?thesis using 1(3,4) by (simp add: scrolls_to_def)
qed

lemma move_photo_right_scrolls:
  assumes g: "window_shows g r v objs" "fits_view (scr g)" "speeds_ok g"
  shows "\<exists>g'. move_photo_right g = Some g'
    \<and> scrolls_to g r v objs (max 0 (uint (map_x g) - x_speed g)) (uint (map_y g)) g'"
proof -
  let ?d = "min (x_speed g) (uint (map_x g))"
  have s: "x_speed g \<in> {2, 6}" "0 \<le> x_speed g" using g(3) by (auto simp: speeds_ok_def)
  have room: "uint (map_x g) + 320 \<le> photo_width v" "photo_width v \<le> 1024"
    using g(1) room_shows_size by (auto simp: window_shows_def)
  moreover have "0 \<le> uint (map_x g)" by simp
  ultimately have "320 \<le> photo_width v" by linarith
  note room = room this
  have delta: "sint (if word_of_int (x_speed g) > map_x g then map_x g else word_of_int (x_speed g)) = ?d"
    by (rule back_delta [OF s(1)]) (use room in linarith)
  have d: "uint (map_x g) + - ?d \<le> photo_width v - 320" "0 \<le> uint (map_x g) + - ?d" "0 \<le> ?d" "?d < 320"
    using room s by (auto simp: min_def)
  have m: "map_x g - word_of_int ?d = map_x g + word_of_int (- ?d)" by simp
  obtain m1 m' where 1: "set_view_window (sint (map_x g + word_of_int (- ?d))) (sint (map_y g)) (scr g) = Some m1"
      "draw_lines (draw_vert_line (vert_line g)) (map int [0..<nat ?d]) m1 = Some m'"
      "window_shows (g\<lparr>map_x := map_x g + word_of_int (- ?d), scr := m'\<rparr>) r v objs"
      "scrolled g (g\<lparr>map_x := map_x g + word_of_int (- ?d), scr := m'\<rparr>)"
    using scroll_horizontal [OF g(1,2) d(1,2) near_lines [OF d(3,4)]] by blast
  have "move_photo_right g = Some (g\<lparr>map_x := map_x g + word_of_int (- ?d), scr := m'\<rparr>)"
    unfolding move_photo_right_def delta Let_def m using 1(1,2) by simp
  moreover have "uint (map_x g + word_of_int (- ?d)) = max 0 (uint (map_x g) - x_speed g)"
    using word_move(1) [of "map_x g" "- ?d"] d room by (simp add: min_def max_def)
  ultimately show ?thesis using 1(3,4) by (simp add: scrolls_to_def)
qed

text \<open>The lines at the far edge: distances \<open>1\<close> to \<open>d\<close> from \<open>n\<close>.\<close>

lemma far_lines:
  assumes "0 \<le> d" and "d < n"
  shows "\<forall>i\<in>set (map (\<lambda>idx. n - int idx) [1..<nat (d + 1)]). 0 \<le> i \<and> i < n"
    and "0 \<le> i \<Longrightarrow> i < n \<Longrightarrow> i + d < 0 \<or> n \<le> i + d \<Longrightarrow> i \<in> set (map (\<lambda>idx. n - int idx) [1..<nat (d + 1)])"
proof -
  show "\<forall>i\<in>set (map (\<lambda>idx. n - int idx) [1..<nat (d + 1)]). 0 \<le> i \<and> i < n" using assms by auto
  assume i: "0 \<le> i" "i < n" "i + d < 0 \<or> n \<le> i + d"
  then have "i = n - int (nat (n - i))" "nat (n - i) \<in> set [1..<nat (d + 1)]" using assms by auto
  then show "i \<in> set (map (\<lambda>idx. n - int idx) [1..<nat (d + 1)])" by (metis (no_types, lifting) image_eqI set_map)
qed

lemma move_photo_up_scrolls:
  assumes g: "window_shows g r v objs" "fits_view (scr g)" "speeds_ok g" "player g = Some r"
  shows "\<exists>g'. move_photo_up g = Some g'
    \<and> scrolls_to g r v objs (uint (map_x g)) (min (photo_height v - 182) (uint (map_y g) + y_speed g)) g'"
proof -
  let ?d = "min (y_speed g) (photo_height v - 182 - uint (map_y g))"
  have s: "y_speed g \<in> {2, 6}" "0 \<le> y_speed g" using g(3) by (auto simp: speeds_ok_def)
  have room: "uint (map_y g) + 182 \<le> photo_height v" "photo_height v \<le> 1024" "r_view (room (wld g) r) = Some v"
    using g(1) room_shows_size by (auto simp: window_shows_def room_shows_def)
  have delta: "sint (word_of_int (photo_height v - 182) - map_y g) = photo_height v - 182 - uint (map_y g)"
    by (rule forward_delta [OF room(1,2)]) simp
  have pick: "(if y_speed g > photo_height v - 182 - uint (map_y g) then photo_height v - 182 - uint (map_y g) else y_speed g) = ?d"
    by (simp add: min_def)
  have d: "uint (map_y g) + ?d \<le> photo_height v - 182" "0 \<le> uint (map_y g) + ?d" "0 \<le> ?d" "?d < 182"
    using room s by (auto simp: min_def)
  obtain m1 m' where 1: "set_view_window (sint (map_x g)) (sint (map_y g + word_of_int ?d)) (scr g) = Some m1"
      "draw_lines (draw_horiz_line (horiz_line g)) (map (\<lambda>idx. 182 - int idx) [1..<nat (?d + 1)]) m1 = Some m'"
      "window_shows (g\<lparr>map_y := map_y g + word_of_int ?d, scr := m'\<rparr>) r v objs"
      "scrolled g (g\<lparr>map_y := map_y g + word_of_int ?d, scr := m'\<rparr>)"
    using scroll_vertical [OF g(1,2) d(1,2) far_lines [OF d(3,4)]] by blast
  have "move_photo_up g = Some (g\<lparr>map_y := map_y g + word_of_int ?d, scr := m'\<rparr>)"
  proof -
    have h: "room_photo_height r (wld g) = Some (photo_height v)" using room(3) by (simp add: room_photo_height_def)
    show ?thesis unfolding move_photo_up_def g(4) Option.bind.simps h Let_def delta pick
      using 1(1,2) by (simp del: upt_Suc One_nat_def)
  qed
  moreover have "uint (map_y g + word_of_int ?d) = min (photo_height v - 182) (uint (map_y g) + y_speed g)"
    using word_move(1) [of "map_y g" ?d] d room by (simp add: min_def)
  ultimately show ?thesis using 1(3,4) by (simp add: scrolls_to_def)
qed

lemma move_photo_left_scrolls:
  assumes g: "window_shows g r v objs" "fits_view (scr g)" "speeds_ok g" "player g = Some r"
  shows "\<exists>g'. move_photo_left g = Some g'
    \<and> scrolls_to g r v objs (min (photo_width v - 320) (uint (map_x g) + x_speed g)) (uint (map_y g)) g'"
proof -
  let ?d = "min (x_speed g) (photo_width v - 320 - uint (map_x g))"
  have s: "x_speed g \<in> {2, 6}" "0 \<le> x_speed g" using g(3) by (auto simp: speeds_ok_def)
  have room: "uint (map_x g) + 320 \<le> photo_width v" "photo_width v \<le> 1024" "r_view (room (wld g) r) = Some v"
    using g(1) room_shows_size by (auto simp: window_shows_def room_shows_def)
  have delta: "sint (word_of_int (photo_width v - 320) - map_x g) = photo_width v - 320 - uint (map_x g)"
    by (rule forward_delta [OF room(1,2)]) simp
  have pick: "(if x_speed g > photo_width v - 320 - uint (map_x g) then photo_width v - 320 - uint (map_x g) else x_speed g) = ?d"
    by (simp add: min_def)
  have d: "uint (map_x g) + ?d \<le> photo_width v - 320" "0 \<le> uint (map_x g) + ?d" "0 \<le> ?d" "?d < 320"
    using room s by (auto simp: min_def)
  obtain m1 m' where 1: "set_view_window (sint (map_x g + word_of_int ?d)) (sint (map_y g)) (scr g) = Some m1"
      "draw_lines (draw_vert_line (vert_line g)) (map (\<lambda>idx. 320 - int idx) [1..<nat (?d + 1)]) m1 = Some m'"
      "window_shows (g\<lparr>map_x := map_x g + word_of_int ?d, scr := m'\<rparr>) r v objs"
      "scrolled g (g\<lparr>map_x := map_x g + word_of_int ?d, scr := m'\<rparr>)"
    using scroll_horizontal [OF g(1,2) d(1,2) far_lines [OF d(3,4)]] by blast
  have "move_photo_left g = Some (g\<lparr>map_x := map_x g + word_of_int ?d, scr := m'\<rparr>)"
  proof -
    have h: "room_photo_width r (wld g) = Some (photo_width v)" using room(3) by (simp add: room_photo_width_def)
    show ?thesis unfolding move_photo_left_def g(4) Option.bind.simps h Let_def delta pick
      using 1(1,2) by (simp del: upt_Suc One_nat_def)
  qed
  moreover have "uint (map_x g + word_of_int ?d) = min (photo_width v - 320) (uint (map_x g) + x_speed g)"
    using word_move(1) [of "map_x g" ?d] d room by (simp add: min_def)
  ultimately show ?thesis using 1(3,4) by (simp add: scrolls_to_def)
qed

end
