(* ===== verification/Tale.thy ===== *)
theory Tale
  imports Adventure BuildWorld
begin

text \<open>
  The story of the game, told without screen, lists and pictures: where the player is, where the objects
  are, what has been accomplished, and whether the cockpit leads into the air.  The commands that bring
  the story forward are steps of an abstract machine; a walkthrough of the whole story runs on it.
\<close>

section \<open>Evaluation\<close>

text \<open>Comparing texts by the bits of their characters, for the evaluation of a long run.\<close>

lemma to_lower_code [code]:
  "to_lower (Char b0 b1 b2 b3 b4 b5 b6 b7) =
     (if \<not> b7 \<and> b6 \<and> \<not> b5 \<and> (b0 \<or> b1 \<or> b2 \<or> b3 \<or> b4) \<and> \<not> (b4 \<and> b3 \<and> (b2 \<or> b1 \<and> b0))
      then Char b0 b1 b2 b3 b4 True b6 b7 else Char b0 b1 b2 b3 b4 b5 b6 b7)"
  unfolding to_lower_def
  by (cases b0; cases b1; cases b2; cases b3; cases b4; cases b5; cases b6; cases b7; simp add: char_of_def bit_0)

definition typed_char :: "char \<Rightarrow> bool" where
  "typed_char c \<longleftrightarrow> valid_typing (of_char c) \<and> of_char c \<noteq> (8 :: nat) \<and> of_char c \<noteq> (127 :: nat)"

lemma typed_char_code [code]:
  "typed_char (Char b0 b1 b2 b3 b4 b5 b6 b7) \<longleftrightarrow>
     \<not> b7 \<and> (if b6 then (b0 \<or> b1 \<or> b2 \<or> b3 \<or> b4) \<and> \<not> (b4 \<and> b3 \<and> (b2 \<or> b1 \<and> b0))
       else b5 \<and> (if b4 then \<not> (b3 \<and> (b1 \<or> b2)) else \<not> (b0 \<or> b1 \<or> b2 \<or> b3)))"
  unfolding typed_char_def valid_typing_def
  by (cases b0; cases b1; cases b2; cases b3; cases b4; cases b5; cases b6; cases b7; simp)

lemma typed_ok_code [code]: "typed_ok s \<longleftrightarrow> length s \<le> MAX_TYPED_LEN \<and> list_all typed_char s"
  by (simp add: typed_ok_def typed_char_def list_all_iff)

section \<open>The abstract machine\<close>

record tale =
  t_room :: int
  t_loc :: "int \<Rightarrow> int option"
  t_done :: "int \<Rightarrow> bool"
  t_cockpit :: "int option"

definition at_hand :: "int \<Rightarrow> tale \<Rightarrow> bool" where
  "at_hand k t \<longleftrightarrow> t_loc t k = Some R_INVENTORY \<or> t_loc t k = Some (t_room t)"

definition put :: "int \<Rightarrow> int option \<Rightarrow> tale \<Rightarrow> tale" where
  "put k to t = t\<lparr>t_loc := (t_loc t)(k := to)\<rparr>"

definition accomplish :: "int \<Rightarrow> tale \<Rightarrow> tale" where
  "accomplish f t = t\<lparr>t_done := (t_done t)(f := True)\<rparr>"

text \<open>The object that \<open>arg\<close> names at a place, when there is only one.\<close>

definition the_object :: "string \<Rightarrow> int \<Rightarrow> tale \<Rightarrow> int option" where
  "the_object arg r t = (case filter (\<lambda>d. same_text arg (od_name d) \<and> t_loc t (od_id d) = Some r) obj_data of
     [d] \<Rightarrow> Some (od_id d) | _ \<Rightarrow> None)"

text \<open>The doors that the table does not have.\<close>

definition door :: "tale \<Rightarrow> int option" where
  "door t =
     (if t_room t = R_COCKPIT then t_cockpit t
      else if t_room t = R_BY_CLEANR then (if t_done t FLAG_WEARING_SUIT then Some R_IN_CLEANR else None)
      else if t_room t = R_BY_395LAB then (if t_loc t O_ICARD = Some R_INVENTORY then Some R_IN_395LAB else None)
      else if t_room t = R_CSL_DOOR then (if t_loc t O_ICARD = Some R_INVENTORY then Some R_CSL_LOBBY else None)
      else if t_room t = R_BECK_DOOR then (if t_loc t O_ROBOT_LIVE = Some R_INVENTORY then Some R_BECKLOBBY else None)
      else None)"

definition tale_move :: "cmd_t \<Rightarrow> tale \<Rightarrow> tale option" where
  "tale_move c t = do {
     d \<leftarrow> (if t_room t = R_INVENTORY then None else room_row (t_room t));
     r \<leftarrow> (if c = CMD_MOVE_LEFT then link (rd_left d)
          else if c = CMD_MOVE_RIGHT then link (rd_right d)
          else if c = CMD_ENTER then (case link (rd_enter d) of None \<Rightarrow> door t | Some r \<Rightarrow> Some r)
          else None);
     Some (t\<lparr>t_room := r\<rparr>) }"

definition tale_get :: "string \<Rightarrow> tale \<Rightarrow> tale option" where
  "tale_get arg t =
     (if t_room t = R_RESERVE then
        (if same_text ''book'' arg \<and> t_done t FLAG_HAS_EATEN \<and> t_loc t O_BOOK_C = None
         then Some (put O_BOOK_C (Some R_INVENTORY) t) else None)
      else if t_room t = R_CAR_SITE then
        (if t_loc t O_BATT_CAR = Some R_CAR_SITE
         then Some (put O_BATT_EMPTY (Some R_INVENTORY) (put O_BATT_CAR None t)) else None)
      else do {
        k \<leftarrow> the_object arg (t_room t) t;
        if k = O_TUX then None else Some (put k (Some R_INVENTORY) t) })"

definition tale_go :: "string \<Rightarrow> tale \<Rightarrow> tale option" where
  "tale_go arg t =
     (if same_text ''allerton'' arg then
        (if (t_room t = R_WILLARD \<or> t_room t = R_CAR_SITE) \<and> t_done t FLAG_CAR_FIXED \<and> t_loc t O_GPS_GOOD = Some R_INVENTORY
         then Some (t\<lparr>t_room := R_ALLERTON\<rparr>) else None)
      else if same_text ''willard'' arg then
        (if (t_room t = R_ALLERTON \<or> t_room t = R_CAR_SITE) \<and> t_done t FLAG_CAR_FIXED
         then Some (t\<lparr>t_room := R_WILLARD\<rparr>) else None)
      else if same_text ''campus'' arg then
        (if t_room t = R_ALLERTON \<or> t_room t = R_WILLARD then Some (t\<lparr>t_room := R_CAR_SITE\<rparr>) else None)
      else None)"

definition tale_install :: "string \<Rightarrow> tale \<Rightarrow> tale option" where
  "tale_install arg t =
     (if same_text ''battery'' arg then
        (if at_hand O_BATT_FULL t \<and> \<not> at_hand O_BATT_EMPTY t \<and> t_room t = R_CAR_SITE
         then Some (accomplish FLAG_CAR_FIXED (put O_BATT_FULL None t)) else None)
      else if same_text ''mimo'' arg then
        (if at_hand O_MIMO_CARD t \<and> t_room t = R_COCKPIT
         then Some ((put O_MIMO_CARD None t)\<lparr>t_cockpit := Some R_OVER_WILL\<rparr>) else None)
      else None)"

definition tale_use :: "string \<Rightarrow> tale \<Rightarrow> tale option" where
  "tale_use arg t =
     (if same_text ''car'' arg then
        (if t_room t = R_CAR_SITE \<and> \<not> t_done t FLAG_CAR_FIXED \<and> \<not> t_done t FLAG_CAR_OPEN \<and> t_loc t O_CAR_KEY = Some R_INVENTORY
         then Some (accomplish FLAG_CAR_OPEN (put O_BATT_CAR (Some R_CAR_SITE) (put O_CAR_KEY None t))) else None)
      else if same_text ''fish'' arg then
        (if at_hand O_FISH t \<and> t_room t = R_REM_LAB
         then Some (accomplish FLAG_LURED_TUX (put O_TUX (Some R_INVENTORY) (put O_FISH None t))) else None)
      else None)"

definition tale_typed :: "cmd_id_t \<Rightarrow> string \<Rightarrow> tale \<Rightarrow> tale option" where
  "tale_typed c arg t = (if t_room t = R_INVENTORY then None else case c of
     TC_CHARGE \<Rightarrow> if same_text ''battery'' arg \<and> at_hand O_BATT_EMPTY t \<and> \<not> at_hand O_BATT_FULL t \<and> t_room t = R_BECK_MRI
       then Some (put O_BATT_FULL (Some R_INVENTORY) (put O_BATT_EMPTY None t)) else None
   | TC_DROP \<Rightarrow> do { k \<leftarrow> the_object arg R_INVENTORY t; Some (put k (Some (t_room t)) t) }
   | TC_FIX \<Rightarrow> if same_text ''gps'' arg \<and> \<not> at_hand O_GPS_GOOD t \<and> at_hand O_GPS_BAD t \<and> at_hand O_GPS_SPEC t \<and> t_room t = R_IN_CLEANR
       then Some (put O_GPS_GOOD (Some R_INVENTORY) (put O_GPS_SPEC None (put O_GPS_BAD None t))) else None
   | TC_FLASH \<Rightarrow> if same_text ''robot'' arg \<and> at_hand O_ROBOT_DEAD t \<and> \<not> at_hand O_ROBOT_LIVE t \<and> t_room t = R_IN_395LAB
       then Some (put O_ROBOT_LIVE (Some R_INVENTORY) (put O_ROBOT_DEAD None t)) else None
   | TC_GET \<Rightarrow> tale_get arg t
   | TC_GO \<Rightarrow> tale_go arg t
   | TC_INSTALL \<Rightarrow> tale_install arg t
   | TC_SIGH \<Rightarrow> if t_room t = R_BY_ZAS then Some (accomplish FLAG_HAS_EATEN t) else None
   | TC_USE \<Rightarrow> tale_use arg t
   | TC_WEAR \<Rightarrow> if same_text ''bunnysuit'' arg \<and> at_hand O_BUNNYSUIT t
       then Some (accomplish FLAG_WEARING_SUIT (put O_BUNNYSUIT None t)) else None
   | _ \<Rightarrow> None)"

section \<open>Deeds\<close>

text \<open>A deed of the player is a key for a move, or a line typed and ended with return.\<close>

datatype deed = Press cmd_t | Line string

definition tale_step :: "deed \<Rightarrow> tale \<Rightarrow> tale option" where
  "tale_step d t = (case d of
     Press c \<Rightarrow> tale_move c t
   | Line s \<Rightarrow> (let (verb, arg) = split_typed s in
       if verb = [] \<or> \<not> typed_ok s then None
       else case find (verb_matches verb) cmd_list of None \<Rightarrow> None | Some e \<Rightarrow> tale_typed (tc_cmd e) arg t))"

primrec tale_run :: "deed list \<Rightarrow> tale \<Rightarrow> tale option" where
  "tale_run [] t = Some t"
| "tale_run (d # ds) t = do { t \<leftarrow> tale_step d t; tale_run ds t }"

section \<open>The beginning\<close>

definition start_tale :: tale where
  "start_tale = \<lparr>t_room = start_in_room, t_loc = place_all obj_data (\<lambda>_. None), t_done = (\<lambda>_. False), t_cockpit = None\<rparr>"

section \<open>A walkthrough\<close>

abbreviation (input) "left \<equiv> Press CMD_MOVE_LEFT"
abbreviation (input) "right \<equiv> Press CMD_MOVE_RIGHT"
abbreviation (input) "go_in \<equiv> Press CMD_ENTER"

text \<open>Lunch, the bunny suit, the fish, the broken GPS, the car key, the book, and the card.\<close>

definition chapter_1 :: "deed list" where
  "chapter_1 = [left, Line ''wear bunnysuit'', right, right, Line ''sigh'', left, left, left, right, right, left,
     Line ''get fish'', left, go_in, go_in, Line ''get gps'', go_in, right, right, go_in, Line ''get key'', go_in,
     right, right, right, go_in, Line ''get book'', go_in, right, Line ''get icard'']"

text \<open>The robot, the specification of the GPS and the MP2 in the laboratories; then back to fix the GPS and to flash the
  robot.\<close>

definition chapter_2 :: "deed list" where
  "chapter_2 = [right, right, right, right, go_in, right, left, go_in, right, go_in, Line ''get robot'', go_in, left,
     go_in, left, right, go_in, go_in, left, Line ''get spec'', go_in, Line ''get mp2'', go_in, right, go_in,
     right, left, right, left, right, right, left, left, go_in, go_in, left, go_in, Line ''fix gps'', go_in,
     left, left, go_in, Line ''flash robot'']"

text \<open>The car, its battery, the transmitter card at Allerton, and the flight to Tux.\<close>

definition chapter_3 :: "deed list" where
  "chapter_3 = [go_in, right, right, right, go_in, right, right, go_in, right, right, right, right, go_in, right, left,
     right, left, go_in, go_in, Line ''use car'', Line ''get battery'', go_in, left, left, go_in, go_in, go_in,
     Line ''charge battery'', go_in, right, right, go_in, go_in, Line ''install battery'', Line ''go allerton'',
     left, go_in, Line ''get mimo'', go_in, right, Line ''go willard'', go_in, left, left, Line ''install mimo'',
     go_in, right, right, go_in, Line ''use fish'']"

text \<open>The way home.\<close>

definition chapter_4 :: "deed list" where
  "chapter_4 = [go_in, left, left, go_in, right, right, right, Line ''go campus'', go_in, left, right, right, left,
     right, left, right, right, left, left, go_in, left, go_in, left, left, left, go_in, Line ''drop tux'']"

definition tale_won :: "tale \<Rightarrow> bool" where
  "tale_won t \<longleftrightarrow> t_room t = R_IN_391LAB \<and> t_loc t O_BOOK_C = Some R_INVENTORY \<and> t_loc t O_MP2 = Some R_INVENTORY
     \<and> t_loc t O_TUX = Some R_IN_391LAB"

lemma walkthrough_runs:
  "case tale_run (chapter_1 @ chapter_2 @ chapter_3 @ chapter_4) start_tale of None \<Rightarrow> False | Some t \<Rightarrow> tale_won t"
  by code_simp

end
