(* ===== verification/Story.thy ===== *)
theory Story
  imports GameInv Tale
begin

text \<open>
  The operations of \<open>world.c\<close> carry out the steps of the abstract story: where the machine has a step, the
  command succeeds and the world afterwards is the next state of the tale.
\<close>

section \<open>A world tells the tale\<close>

definition names :: "world \<Rightarrow> bool" where
  "names w \<longleftrightarrow> (\<forall>d\<in>set obj_data. o_name (object w (od_id d)) = Some (od_name d))"

definition state_of :: "tale \<Rightarrow> world \<Rightarrow> bool" where
  "state_of t w \<longleftrightarrow> loc_of w = t_loc t \<and> flags w = t_done t \<and> r_enter (room w R_COCKPIT) = t_cockpit t \<and> names w"

definition follows :: "tale \<Rightarrow> world \<Rightarrow> bool" where
  "follows t w \<longleftrightarrow> world_inv (t_room t) w \<and> state_of t w"

text \<open>An outcome that is the next state of the tale.\<close>

definition tells_next :: "tale \<Rightarrow> tc_action_t \<times> int option \<times> world \<Rightarrow> bool" where
  "tells_next t res = (case res of (act, to, w) \<Rightarrow> act \<noteq> TC_ALLOW_EDIT \<and> to = Some (t_room t) \<and> state_of t w)"

lemma state_steps [simp]:
  "state_of t (show_status s w) = state_of t w" "state_of t (w\<lparr>draws := n\<rparr>) = state_of t w"
  "state_of t (do_photo_swap r p w) = state_of t w"
  by (simp_all add: state_of_def names_def) (auto simp: do_photo_swap_def Let_def set_room_def)

lemma state_room [simp]: "state_of (t\<lparr>t_room := r\<rparr>) w = state_of t w"
  by (simp add: state_of_def)

lemma state_flag: "state_of t w \<Longrightarrow> 0 \<le> f \<Longrightarrow> f < 32 \<Longrightarrow> state_of (accomplish f t) (player_set_flag f w)"
proof -
  assume t: "state_of t w" and f: "0 \<le> f" "f < 32"
  have "object (player_set_flag f w) = object w" by (simp add: player_set_flag_def)
  with t f show ?thesis by (simp add: state_of_def accomplish_def names_def)
qed

lemma moved_state:
  assumes "moved w loc w'" and "state_of t w" and "loc = t_loc t'" and "t_done t' = t_done t" and "t_cockpit t' = t_cockpit t"
  shows "state_of t' w'"
proof -
  have f: "fixed_part w' = fixed_part w" and l: "loc_of w' = loc" using assms(1) by (auto simp: moved_def)
  show ?thesis using assms(2-5) unfolding state_of_def names_def fixed_partD(4,6,8) [OF f] l by simp
qed

lemma tells_next_simp [simp]:
  "tells_next t (act, Some r, w) \<longleftrightarrow> act \<noteq> TC_ALLOW_EDIT \<and> r = t_room t \<and> state_of t w"
  by (simp add: tells_next_def)

lemma next_say [simp]: "returns (say s act r w) (tells_next t) \<longleftrightarrow> act \<noteq> TC_ALLOW_EDIT \<and> r = t_room t \<and> state_of t w"
  by (simp add: say_def)

lemma put_room [simp]: "t_room (put k to t) = t_room t" "t_done (put k to t) = t_done t" "t_cockpit (put k to t) = t_cockpit t"
  "t_loc (put k to t) = (t_loc t)(k := to)" "t_room (accomplish f t) = t_room t"
  by (simp_all add: put_def accomplish_def)

lemma followsD:
  assumes "follows t w"
  shows "world_inv (t_room t) w" "state_of t w" "loc_of w = t_loc t" "flags w = t_done t"
    "r_enter (room w R_COCKPIT) = t_cockpit t" "names w" "moved w (t_loc t) w"
  using assms world_invD(8) [of "t_room t" w] by (simp_all add: follows_def state_of_def)

lemma near_at_hand: "follows t w \<Longrightarrow> near k (t_room t) w = at_hand k t"
  by (simp add: at_hand_def followsD(3))

section \<open>The commands carry out the steps\<close>

text \<open>Each command, where the machine has a step.\<close>

lemma charge_tells:
  assumes t: "follows t w" and c: "same_text ''battery'' arg" "at_hand O_BATT_EMPTY t" "\<not> at_hand O_BATT_FULL t" "t_room t = R_BECK_MRI"
  shows "returns (typed_cmd_charge (t_room t) arg w) (tells_next (put O_BATT_FULL (Some R_INVENTORY) (put O_BATT_EMPTY None t)))"
proof -
  note D = followsD [OF t]
  have "returns (do { w \<leftarrow> remove_object O_BATT_EMPTY w; w \<leftarrow> move_object_to_inventory O_BATT_FULL w;
      say s TC_REDRAW_ROOM (t_room t) w }) (tells_next (put O_BATT_FULL (Some R_INVENTORY) (put O_BATT_EMPTY None t)))" for s
    by (rule remove_then [OF D(7)], rule to_inventory_then [OF D(1)], assumption) (auto intro!: moved_state [OF _ D(2)])
  then show ?thesis using c by (simp add: typed_cmd_charge_def at_hand_def D(3) del: returns_simps(3))
qed

lemma fix_tells:
  assumes t: "follows t w" and c: "same_text ''gps'' arg" "\<not> at_hand O_GPS_GOOD t" "at_hand O_GPS_BAD t" "at_hand O_GPS_SPEC t"
    "t_room t = R_IN_CLEANR"
  shows "returns (typed_cmd_fix (t_room t) arg w)
    (tells_next (put O_GPS_GOOD (Some R_INVENTORY) (put O_GPS_SPEC None (put O_GPS_BAD None t))))"
proof -
  note D = followsD [OF t]
  have "returns (do { w \<leftarrow> remove_object O_GPS_BAD w; w \<leftarrow> remove_object O_GPS_SPEC w; w \<leftarrow> move_object_to_inventory O_GPS_GOOD w;
      say s TC_CHANGE_ROOM (t_room t) w })
      (tells_next (put O_GPS_GOOD (Some R_INVENTORY) (put O_GPS_SPEC None (put O_GPS_BAD None t))))" for s
    by (rule remove_then [OF D(7)], rule remove_then, assumption, rule to_inventory_then [OF D(1)], assumption)
      (auto intro!: moved_state [OF _ D(2)])
  then show ?thesis using c by (simp add: typed_cmd_fix_def at_hand_def D(3) del: returns_simps(3))
qed

lemma flash_tells:
  assumes t: "follows t w" and c: "same_text ''robot'' arg" "at_hand O_ROBOT_DEAD t" "\<not> at_hand O_ROBOT_LIVE t" "t_room t = R_IN_395LAB"
  shows "returns (typed_cmd_flash (t_room t) arg w) (tells_next (put O_ROBOT_LIVE (Some R_INVENTORY) (put O_ROBOT_DEAD None t)))"
proof -
  note D = followsD [OF t]
  have "returns (do { w \<leftarrow> remove_object O_ROBOT_DEAD w; w \<leftarrow> move_object_to_inventory O_ROBOT_LIVE w;
      say s TC_REDRAW_ROOM (t_room t) w }) (tells_next (put O_ROBOT_LIVE (Some R_INVENTORY) (put O_ROBOT_DEAD None t)))" for s
    by (rule remove_then [OF D(7)], rule to_inventory_then [OF D(1)], assumption) (auto intro!: moved_state [OF _ D(2)])
  then show ?thesis using c by (simp add: typed_cmd_flash_def at_hand_def D(3) del: returns_simps(3))
qed

lemma wear_tells:
  assumes t: "follows t w" and c: "same_text ''bunnysuit'' arg" "at_hand O_BUNNYSUIT t"
  shows "returns (typed_cmd_wear (t_room t) arg w) (tells_next (accomplish FLAG_WEARING_SUIT (put O_BUNNYSUIT None t)))"
proof -
  note D = followsD [OF t]
  have "returns (do { w \<leftarrow> remove_object O_BUNNYSUIT w;
      say s TC_REDRAW_ROOM (t_room t) (player_set_flag FLAG_WEARING_SUIT w) })
      (tells_next (accomplish FLAG_WEARING_SUIT (put O_BUNNYSUIT None t)))" for s
    by (rule remove_then [OF D(7)]) (auto intro!: state_flag moved_state [OF _ D(2)])
  then show ?thesis using c by (simp add: typed_cmd_wear_def at_hand_def D(3) del: returns_simps(3))
qed

lemma sigh_tells:
  assumes t: "follows t w" and c: "t_room t = R_BY_ZAS"
  shows "returns (typed_cmd_sigh (t_room t) arg w) (tells_next (accomplish FLAG_HAS_EATEN t))"
  using c followsD(2) [OF t] by (simp add: typed_cmd_sigh_def state_flag)

lemma install_tells:
  assumes t: "follows t w" and c: "tale_install arg t = Some t'"
  shows "returns (typed_cmd_install (t_room t) arg w) (tells_next t')"
proof -
  note D = followsD [OF t]
  have battery: "returns (do { w \<leftarrow> remove_object O_BATT_FULL w;
      say s TC_CHANGE_ROOM (t_room t) (do_photo_swap (t_room t) SWAP_CAR (player_set_flag FLAG_CAR_FIXED w)) })
      (tells_next (accomplish FLAG_CAR_FIXED (put O_BATT_FULL None t)))" for s
    by (rule remove_then [OF D(7)]) (auto intro!: state_flag moved_state [OF _ D(2)])
  have "state_of ((put O_MIMO_CARD None t)\<lparr>t_cockpit := Some R_OVER_WILL\<rparr>)
      (set_room R_COCKPIT (r_enter_update (\<lambda>_. Some R_OVER_WILL)) w')" if "moved w ((t_loc t)(O_MIMO_CARD := None)) w'" for w'
  proof -
    have "state_of (put O_MIMO_CARD None t) w'" by (rule moved_state [OF that D(2)]) simp_all
    moreover have "object (set_room R_COCKPIT f w') = object w'" "room (set_room R_COCKPIT f w') R_COCKPIT = f (room w' R_COCKPIT)" for f
      by (simp_all add: set_room_def)
    ultimately show ?thesis by (simp add: state_of_def names_def)
  qed
  then have card: "returns (do { w \<leftarrow> remove_object O_MIMO_CARD w;
      say s TC_REDRAW_ROOM (t_room t) (set_room R_COCKPIT (r_enter_update (\<lambda>_. Some R_OVER_WILL)) w) })
      (tells_next ((put O_MIMO_CARD None t)\<lparr>t_cockpit := Some R_OVER_WILL\<rparr>))" for s
    by - (rule remove_then [OF D(7)], simp)
  show ?thesis
  proof (cases "same_text ''battery'' arg")
    case True
    with c have b: "at_hand O_BATT_FULL t" "\<not> at_hand O_BATT_EMPTY t" "t_room t = R_CAR_SITE"
      and t': "t' = accomplish FLAG_CAR_FIXED (put O_BATT_FULL None t)"
      by (simp_all add: tale_install_def split: if_splits)
    show ?thesis using True battery b(1,2) unfolding typed_cmd_install_def near_at_hand [OF t] t'
      by (simp add: b(3) del: returns_simps(3))
  next
    case False
    with c have b: "same_text ''mimo'' arg" "at_hand O_MIMO_CARD t" "t_room t = R_COCKPIT"
      and t': "t' = (put O_MIMO_CARD None t)\<lparr>t_cockpit := Some R_OVER_WILL\<rparr>"
      by (simp_all add: tale_install_def split: if_splits)
    show ?thesis using False card b(1,2) unfolding typed_cmd_install_def near_at_hand [OF t] t'
      by (simp add: b(3) del: returns_simps(3))
  qed
qed

lemma use_tells:
  assumes t: "follows t w" and c: "tale_use arg t = Some t'"
  shows "returns (typed_cmd_use (t_room t) arg w) (tells_next t')"
proof -
  note D = followsD [OF t]
  have car: "returns (do { w \<leftarrow> remove_object O_CAR_KEY (do_photo_swap (t_room t) SWAP_CAR w);
      w \<leftarrow> insert_object_at O_BATT_CAR (t_room t) 265 122 w;
      say s TC_CHANGE_ROOM (t_room t) (player_set_flag FLAG_CAR_OPEN w) })
      (tells_next (accomplish FLAG_CAR_OPEN (put O_BATT_CAR (Some R_CAR_SITE) (put O_CAR_KEY None t))))"
    if r: "t_room t = R_CAR_SITE" for s
  proof -
    let ?w = "do_photo_swap (t_room t) SWAP_CAR w"
    have "follows t ?w" using t world_invD(1-3) [OF D(1)] by (simp add: follows_def world_inv_def world_ok_swap)
    note E = followsD [OF this]
    show ?thesis
      by (rule remove_then [OF E(7)], rule returns_then [OF insert_at_moved], assumption)
        (auto intro!: state_flag moved_state [OF _ E(2)] simp: r)
  qed
  have fish: "returns (do { w \<leftarrow> remove_object O_FISH w; w \<leftarrow> move_object_to_inventory O_TUX w;
      say s TC_REDRAW_ROOM (t_room t) (player_set_flag FLAG_LURED_TUX w) })
      (tells_next (accomplish FLAG_LURED_TUX (put O_TUX (Some R_INVENTORY) (put O_FISH None t))))" for s
    by (rule remove_then [OF D(7)], rule to_inventory_then [OF D(1)], assumption) (auto intro!: state_flag moved_state [OF _ D(2)])
  show ?thesis
  proof (cases "same_text ''car'' arg")
    case True
    with c have "t_room t = R_CAR_SITE" "\<not> t_done t FLAG_CAR_FIXED" "\<not> t_done t FLAG_CAR_OPEN" "t_loc t O_CAR_KEY = Some R_INVENTORY"
      and t': "t' = accomplish FLAG_CAR_OPEN (put O_BATT_CAR (Some R_CAR_SITE) (put O_CAR_KEY None t))"
      by (simp_all add: tale_use_def split: if_splits)
    then show ?thesis using True car
      by (simp add: typed_cmd_use_def D(3,4) Let_def del: returns_simps(3))
  next
    case False
    with c have "same_text ''fish'' arg" "at_hand O_FISH t" "t_room t = R_REM_LAB"
      and t': "t' = accomplish FLAG_LURED_TUX (put O_TUX (Some R_INVENTORY) (put O_FISH None t))"
      by (simp_all add: tale_use_def split: if_splits)
    then show ?thesis using False fish
      by (simp add: typed_cmd_use_def at_hand_def D(3,4) Let_def del: returns_simps(3))
  qed
qed

lemma go_tells:
  assumes t: "follows t w" and c: "tale_go arg t = Some t'"
  shows "returns (typed_cmd_go (t_room t) arg w) (tells_next t')"
proof -
  note D = followsD [OF t]
  consider (allerton) "same_text ''allerton'' arg" "t_room t = R_WILLARD \<or> t_room t = R_CAR_SITE" "t_done t FLAG_CAR_FIXED"
      "t_loc t O_GPS_GOOD = Some R_INVENTORY" "t' = t\<lparr>t_room := R_ALLERTON\<rparr>"
    | (willard) "\<not> same_text ''allerton'' arg" "same_text ''willard'' arg" "t_room t = R_ALLERTON \<or> t_room t = R_CAR_SITE"
      "t_done t FLAG_CAR_FIXED" "t' = t\<lparr>t_room := R_WILLARD\<rparr>"
    | (campus) "\<not> same_text ''allerton'' arg" "\<not> same_text ''willard'' arg" "same_text ''campus'' arg"
      "t_room t = R_ALLERTON \<or> t_room t = R_WILLARD" "t' = t\<lparr>t_room := R_CAR_SITE\<rparr>"
    using c by (auto simp: tale_go_def split: if_splits)
  then show ?thesis
  proof cases
    case allerton
    then show ?thesis using D(2) by (auto simp: typed_cmd_go_def D(3,4))
  next
    case willard
    then show ?thesis using D(2) by (auto simp: typed_cmd_go_def D(3,4))
  next
    case campus
    have "\<not> same_text ''willard'' arg \<and> \<not> same_text ''airport'' arg"
      using campus(3) unfolding same_text_def by auto
    with campus show ?thesis using D(2) by (auto simp: typed_cmd_go_def D(3,4))
  qed
qed

text \<open>Objects that are found by their name.\<close>

lemma find_the_object:
  assumes t: "follows t w" and k: "the_object arg r t = Some k"
  shows "find_in_room r arg w = Some (Some k)" and "t_loc t k = Some r" and "0 \<le> k \<and> k < 20"
proof -
  note D = followsD [OF t]
  obtain d where one: "filter (\<lambda>d. same_text arg (od_name d) \<and> t_loc t (od_id d) = Some r) obj_data = [d]" and dk: "k = od_id d"
    using k by (auto simp: the_object_def split: list.splits)
  have "d \<in> set (filter (\<lambda>d. same_text arg (od_name d) \<and> t_loc t (od_id d) = Some r) obj_data)" unfolding one by simp
  then have d: "d \<in> set obj_data" "same_text arg (od_name d)" "t_loc t k = Some r" unfolding dk by simp_all
  then show "t_loc t k = Some r" "0 \<le> k \<and> k < 20" using object_rows(2) unfolding dk by force+
  obtain L where L: "listed w L" using world_invD(1) [OF D(1)] by (auto simp: world_ok_def ok_with_def)
  have named: "\<exists>e\<in>set obj_data. od_id e = j \<and> o_name (object w j) = Some (od_name e)" if "j \<in> set (L r)" for j
  proof -
    have "0 \<le> j \<and> j < 20" using L that world_invD(6) [OF D(1)] by (auto simp: listed_def in_range_def)
    then have "j \<in> od_id ` set obj_data" using object_rows(2) by auto
    then show ?thesis using D(6) by (auto simp: names_def)
  qed
  have "\<forall>j\<in>set (L r). o_name (object w j) \<noteq> None" using named by fastforce
  moreover have "chain (next_of w) (r_contents (room w r)) (L r)" using L by (simp add: listed_def)
  ultimately have found: "find_in_room r arg w = Some (find (\<lambda>j. same_text arg (the (o_name (object w j)))) (L r))"
    unfolding find_in_room_def by (intro find_from_chain)
  have "find (\<lambda>j. same_text arg (the (o_name (object w j)))) (L r) = Some k"
  proof -
    have only: "j = k" if j: "j \<in> set (L r)" "same_text arg (the (o_name (object w j)))" for j
    proof -
      obtain e where e: "e \<in> set obj_data" "od_id e = j" "o_name (object w j) = Some (od_name e)" using named [OF j(1)] by blast
      moreover have "t_loc t j = Some r" using j(1) L unfolding listed_def D(3) by blast
      ultimately have "e \<in> set (filter (\<lambda>d. same_text arg (od_name d) \<and> t_loc t (od_id d) = Some r) obj_data)"
        using j(2) by simp
      then show ?thesis unfolding one dk using e(2) by simp
    qed
    have in_list: "k \<in> set (L r)" using L d(3) unfolding listed_def D(3) by blast
    have "o_name (object w k) = Some (od_name d)" using D(6) d(1) unfolding names_def dk by blast
    then have named_so: "same_text arg (the (o_name (object w k)))" using d(2) by simp
    show ?thesis
    proof (cases "find (\<lambda>j. same_text arg (the (o_name (object w j)))) (L r)")
      case None
      then show ?thesis using in_list named_so unfolding find_None_iff by blast
    next
      case (Some j)
      then have "j \<in> set (L r)" "same_text arg (the (o_name (object w j)))"
        unfolding find_Some_iff by auto
      from only [OF this] Some show ?thesis by simp
    qed
  qed
  then show "find_in_room r arg w = Some (Some k)" using found by simp
qed

lemma drop_tells:
  assumes t: "follows t w" and k: "the_object arg R_INVENTORY t = Some k" and r: "t_room t \<noteq> R_INVENTORY"
  shows "returns (typed_cmd_drop (t_room t) arg w) (tells_next (put k (Some (t_room t)) t))"
proof -
  note D = followsD [OF t]
  note f = find_the_object [OF t k]
  have "returns (do { w \<leftarrow> insert_object k (t_room t) w'; Some (TC_REDRAW_ROOM, Some (t_room t), w) }) (tells_next (put k (Some (t_room t)) t))"
    if "moved w (t_loc t) w'" for w'
    by (rule returns_then [OF insert_moved [OF that world_invD(5) [OF D(1)] world_invD(3) [OF D(1)]]])
      (use f(3) in \<open>auto intro!: moved_state [OF _ D(2)]\<close>)
  from this [OF D(7)] this [of "show_status s w" for s] show ?thesis
    using r D(7) unfolding typed_cmd_drop_def f(1) by (simp add: Let_def del: returns_simps(3))
qed

lemma get_tells:
  assumes t: "follows t w" and c: "tale_get arg t = Some t'" and r: "t_room t \<noteq> R_INVENTORY"
  shows "returns (typed_cmd_get (t_room t) arg w) (tells_next t')"
proof -
  note D = followsD [OF t]
  have pick: "returns (do { w \<leftarrow> move_object_to_inventory k w'; Some (TC_REDRAW_ROOM, Some (t_room t), w) })
      (tells_next (t\<lparr>t_loc := loc(k := Some R_INVENTORY)\<rparr>))" if "moved w loc w'" "0 \<le> k" "k < 20" for k w' loc
    by (rule to_inventory_then [OF D(1) that]) (auto intro!: moved_state [OF _ D(2)])
  consider (book) "t_room t = R_RESERVE" "same_text ''book'' arg" "t_done t FLAG_HAS_EATEN" "t_loc t O_BOOK_C = None"
      "t' = put O_BOOK_C (Some R_INVENTORY) t"
    | (battery) "t_room t = R_CAR_SITE" "t_loc t O_BATT_CAR = Some R_CAR_SITE"
      "t' = put O_BATT_EMPTY (Some R_INVENTORY) (put O_BATT_CAR None t)"
    | (other) k where "t_room t \<noteq> R_RESERVE" "t_room t \<noteq> R_CAR_SITE" "the_object arg (t_room t) t = Some k" "k \<noteq> O_TUX"
      "t' = put k (Some R_INVENTORY) t"
    using c by (auto simp: tale_get_def bind_eq_Some_conv split: if_splits)
  then show ?thesis
  proof cases
    case book
    have "returns (do { w \<leftarrow> move_object_to_inventory O_BOOK_C (show_status s w); Some (TC_REDRAW_ROOM, Some (t_room t), w) })
        (tells_next t')" for s
      using pick [of "t_loc t" "show_status s w" O_BOOK_C] D(7) book(5) by (simp add: put_def)
    then show ?thesis using book(1-4)
      by (simp add: typed_cmd_get_def obj_special_get_def D(3,4) del: returns_simps(3))
  next
    case battery
    have "returns (do { w \<leftarrow> remove_object O_BATT_CAR w; w \<leftarrow> move_object_to_inventory O_BATT_EMPTY w;
        Some (TC_REDRAW_ROOM, Some (t_room t), w) }) (tells_next t')"
      by (rule remove_then [OF D(7)]) (use pick in \<open>simp add: battery(3) put_def del: returns_simps(3)\<close>)
    then show ?thesis using battery(1,2)
      by (simp add: typed_cmd_get_def obj_special_get_def D(3) del: returns_simps(3))
  next
    case other
    note f = find_the_object [OF t other(3)]
    have "returns (do { w \<leftarrow> move_object_to_inventory k w; Some (TC_REDRAW_ROOM, Some (t_room t), w) }) (tells_next t')"
      using pick [OF D(7), of k] f(3) other(5) by (simp add: put_def)
    then show ?thesis using other(1,2,4) r f(1)
      by (simp add: typed_cmd_get_def obj_special_get_def del: returns_simps(3))
  qed
qed

text \<open>All typed commands together.\<close>

lemma typed_tells:
  assumes t: "follows t w" and c: "tale_typed c arg t = Some t'"
  shows "returns (run_typed c (t_room t) arg w) (tells_next t')"
proof -
  have r: "t_room t \<noteq> R_INVENTORY" using c by (auto simp: tale_typed_def)
  show ?thesis
  proof (cases c)
    case TC_CHARGE
    with c r charge_tells [OF t, of arg] show ?thesis by (auto simp: tale_typed_def run_typed_def split: if_splits)
  next
    case TC_DROP
    with c r drop_tells [OF t, of arg] show ?thesis by (auto simp: tale_typed_def run_typed_def bind_eq_Some_conv split: if_splits)
  next
    case TC_FIX
    with c r fix_tells [OF t, of arg] show ?thesis by (auto simp: tale_typed_def run_typed_def split: if_splits)
  next
    case TC_FLASH
    with c r flash_tells [OF t, of arg] show ?thesis by (auto simp: tale_typed_def run_typed_def split: if_splits)
  next
    case TC_GET
    with c r get_tells [OF t] show ?thesis by (simp add: tale_typed_def run_typed_def)
  next
    case TC_GO
    with c r go_tells [OF t] show ?thesis by (simp add: tale_typed_def run_typed_def)
  next
    case TC_INSTALL
    with c r install_tells [OF t] show ?thesis by (simp add: tale_typed_def run_typed_def)
  next
    case TC_SIGH
    with c r sigh_tells [OF t, of arg] show ?thesis by (auto simp: tale_typed_def run_typed_def split: if_splits)
  next
    case TC_USE
    with c r use_tells [OF t] show ?thesis by (simp add: tale_typed_def run_typed_def)
  next
    case TC_WEAR
    with c r wear_tells [OF t, of arg] show ?thesis by (auto simp: tale_typed_def run_typed_def split: if_splits)
  qed (use c in \<open>simp_all add: tale_typed_def split: if_splits\<close>)
qed

section \<open>Moving\<close>

definition mover :: "cmd_t \<Rightarrow> int \<Rightarrow> world \<Rightarrow> outcome" where
  "mover c = (case c of CMD_MOVE_LEFT \<Rightarrow> try_to_move_left | CMD_ENTER \<Rightarrow> try_to_enter | _ \<Rightarrow> try_to_move_right)"

lemma go_into_tells: "state_of t w \<Longrightarrow> returns (go_into r w) (\<lambda>res. tells_next (t\<lparr>t_room := r\<rparr>) res \<and> fst res = TC_CHANGE_ROOM)"
  by (simp add: go_into_def rand_def Let_def)

lemma door_tells:
  assumes t: "follows t w" and d: "door t = Some r" and none: "r_enter (room w (t_room t)) = None"
  shows "returns (try_to_enter (t_room t) w) (\<lambda>res. tells_next (t\<lparr>t_room := r\<rparr>) res \<and> fst res = TC_CHANGE_ROOM)"
proof -
  note D = followsD [OF t]
  have "t_room t \<noteq> R_COCKPIT" using d none D(5) by (auto simp: door_def)
  then show ?thesis using d D(2) unfolding door_def try_to_enter_def none
    by (auto simp: D(3,4) split: if_splits)
qed

lemma move_tells:
  assumes t: "follows t w" and c: "tale_move c t = Some t'"
  shows "returns (mover c (t_room t) w) (\<lambda>res. tells_next t' res \<and> fst res = TC_CHANGE_ROOM)"
    and "c \<in> {CMD_MOVE_LEFT, CMD_ENTER, CMD_MOVE_RIGHT}"
proof -
  note D = followsD [OF t]
  obtain e where e: "room_row (t_room t) = Some e" "r_left (room w (t_room t)) = link (rd_left e)"
      "r_right (room w (t_room t)) = link (rd_right e)"
      "t_room t \<noteq> R_INVENTORY \<Longrightarrow> t_room t \<noteq> R_COCKPIT \<Longrightarrow> r_enter (room w (t_room t)) = link (rd_enter e)"
    using links_of [OF D(1)] by blast
  have "e \<in> set room_data \<and> rd_id e = t_room t" using room_row_dom [OF world_invD(3) [OF D(1)]] e(1) by auto
  then have pit: "t_room t = R_COCKPIT \<Longrightarrow> link (rd_enter e) = None" using closed_doors by (auto simp: list_all_iff link_def)
  have r: "t_room t \<noteq> R_INVENTORY" using c by (auto simp: tale_move_def)
  obtain q where q: "t' = t\<lparr>t_room := q\<rparr>" and way: "c = CMD_MOVE_LEFT \<and> link (rd_left e) = Some q \<or> c = CMD_MOVE_RIGHT \<and> link (rd_right e) = Some q
      \<or> c = CMD_ENTER \<and> (case link (rd_enter e) of None \<Rightarrow> door t | Some r \<Rightarrow> Some r) = Some q"
    using c e(1) r by (auto simp: tale_move_def bind_eq_Some_conv split: if_splits)
  show "c \<in> {CMD_MOVE_LEFT, CMD_ENTER, CMD_MOVE_RIGHT}" using way by auto
  note into = go_into_tells [OF D(2), of q, folded q]
  have enter: "returns (try_to_enter (t_room t) w) (\<lambda>res. tells_next t' res \<and> fst res = TC_CHANGE_ROOM)"
    if l: "(case link (rd_enter e) of None \<Rightarrow> door t | Some r \<Rightarrow> Some r) = Some q"
  proof (cases "r_enter (room w (t_room t))")
    case None
    then have "link (rd_enter e) = None" using e(4) [OF r] pit by (cases "t_room t = R_COCKPIT") auto
    then show ?thesis using door_tells [OF t _ None, of q] l unfolding q by simp
  next
    case (Some p)
    have "p = q"
    proof (cases "t_room t = R_COCKPIT")
      case True
      then show ?thesis using pit l Some D(5) by (simp add: door_def)
    next
      case False
      then have "link (rd_enter e) = Some p" using e(4) [OF r] Some by metis
      then show ?thesis using l by simp
    qed
    then show ?thesis using into Some by (simp add: try_to_enter_def)
  qed
  show "returns (mover c (t_room t) w) (\<lambda>res. tells_next t' res \<and> fst res = TC_CHANGE_ROOM)"
    using way
  proof (elim disjE conjE)
    assume "c = CMD_MOVE_LEFT" "link (rd_left e) = Some q"
    then show ?thesis using into e(2) by (simp add: mover_def try_to_move_left_def)
  next
    assume "c = CMD_MOVE_RIGHT" "link (rd_right e) = Some q"
    then show ?thesis using into e(3) by (simp add: mover_def try_to_move_right_def)
  next
    assume "c = CMD_ENTER" "(case link (rd_enter e) of None \<Rightarrow> door t | Some r \<Rightarrow> Some r) = Some q"
    then show ?thesis using enter by (simp add: mover_def)
  qed
qed

lemma next_follows:
  assumes "returns m outcome_ok" and "returns m (\<lambda>res. tells_next t res \<and> P res)"
  shows "\<exists>act w. m = Some (act, Some (t_room t), w) \<and> act \<noteq> TC_ALLOW_EDIT \<and> follows t w \<and> P (act, Some (t_room t), w)"
  using assms unfolding returns_iff by (auto simp: tells_next_def follows_def world_inv_def)

end
