(* ===== verification/GameSteps.thy ===== *)
theory GameSteps
  imports GameInv
begin

text \<open>
  The steps of the game keep its invariant and never fail: redrawing the room, typed commands, the
  commands of the keyboard and of the Tux controller, the frame at the start of a pass, and the start.
\<close>

section \<open>Redrawing\<close>

lemma redraw_shows:
  assumes r: "cur_room g = Some r" "room_shows r (wld g) v objs" "fits_view (scr g)"
    and at: "show_x (scr g) = uint (map_x g)" "show_y (scr g) = uint (map_y g)"
    and room: "uint (map_x g) + 320 \<le> photo_width v" "uint (map_y g) + 182 \<le> photo_height v"
  shows "\<exists>m. redraw_room g = Some (g\<lparr>scr := m\<rparr>) \<and> window_shows (g\<lparr>scr := m\<rparr>) r v objs \<and> fits_view m
    \<and> target_img m = target_img (scr g) \<and> video m = video (scr g)"
proof -
  let ?f = "picture_at (wld g) v objs" and ?rows = "map int [0..<182]"
  have "\<forall>i\<in>set ?rows. 0 \<le> i \<and> i < 182 \<and> horiz_line g (show_x (scr g)) (show_y (scr g) + i)
      = Some (map (\<lambda>k. ?f (show_x (scr g) + int k) (show_y (scr g) + i)) [0..<320])"
  proof
    fix i assume "i \<in> set ?rows"
    then have i: "0 \<le> i" "i < 182" by auto
    moreover have "0 \<le> uint (map_y g)" by simp
    ultimately have "0 \<le> show_y (scr g) + i" "show_y (scr g) + i < photo_height v" using at(2) room(2) by linarith+
    from callback_rows [OF r(1,2) this] i
    show "0 \<le> i \<and> i < 182 \<and> horiz_line g (show_x (scr g)) (show_y (scr g) + i)
      = Some (map (\<lambda>k. ?f (show_x (scr g) + int k) (show_y (scr g) + i)) [0..<320])" by blast
  qed
  from draw_rows [where fill = "horiz_line g" and f = ?f, OF r(3) this]
  obtain m where m: "draw_lines (draw_horiz_line (horiz_line g)) ?rows (scr g) = Some m" "same_window (scr g) m"
      "\<forall>px py. in_view (show_x (scr g)) (show_y (scr g)) px py \<longrightarrow>
         pixel m px py = (if py - show_y (scr g) \<in> set ?rows then ?f px py else pixel (scr g) px py)" by blast
  have "painted m ?f"
    unfolding painted_def
  proof (intro allI impI)
    fix px py assume "in_view (show_x m) (show_y m) px py"
    then have v: "in_view (show_x (scr g)) (show_y (scr g)) px py" using m(2) by (simp add: same_window_def)
    then have "0 \<le> py - show_y (scr g)" "py - show_y (scr g) < 182" by (auto simp: in_view_def)
    then have "py - show_y (scr g) = int (nat (py - show_y (scr g)))" "nat (py - show_y (scr g)) \<in> set [0..<182]" by auto
    then have "py - show_y (scr g) \<in> set ?rows" by (metis image_eqI set_map)
    then show "pixel m px py = ?f px py" using m(3) v by auto
  qed
  then show ?thesis using m(1,2) r at room same_window_fits [OF m(2)]
    by (auto simp: redraw_room_def window_shows_def same_window_def simp del: upt_Suc)
qed

section \<open>Changes of the world\<close>

lemma same_scene:
  assumes "room w' = room w" and "object w' = object w"
  shows "room_shows r w' v objs = room_shows r w v objs" and "picture_at w' v objs = picture_at w v objs"
proof -
  have "object_at w' = object_at w" unfolding object_at_def assms(2) ..
  then have "over w' = over w" unfolding over_def by simp
  then show "picture_at w' v objs = picture_at w v objs" unfolding picture_at_def by simp
  show "room_shows r w' v objs = room_shows r w v objs" unfolding room_shows_def next_of_def assms ..
qed

lemma in_room_world:
  assumes "in_room r g" and "world_inv r w'" and "room w' = room (wld g)" and "object w' = object (wld g)"
  shows "in_room r (g\<lparr>wld := w'\<rparr>)"
  using assms same_scene [of w' "wld g"]
  by (auto simp: in_room_def window_shows_def speeds_ok_def keys_ok_def)

lemma world_inv_status [simp]: "world_inv r (show_status s w) = world_inv r w"
  by (simp add: world_inv_def)

lemma in_room_keys: "in_room r g \<Longrightarrow> typed_ok (typing k) \<Longrightarrow> state k \<le> 3 \<Longrightarrow> in_room r (g\<lparr>keys := k\<rparr>)"
  by (auto simp: in_room_def window_shows_def speeds_ok_def keys_ok_def)

lemma typed_ok_Nil [simp]: "typed_ok []"
  by (simp add: typed_ok_def)

lemma set_speeds_fields [simp]:
  "player (set_speeds c g) = player g" "wld (set_speeds c g) = wld g" "scr (set_speeds c g) = scr g"
  "keys (set_speeds c g) = keys g" "map_x (set_speeds c g) = map_x g" "map_y (set_speeds c g) = map_y g"
  "cur_room (set_speeds c g) = cur_room g" "enter_room (set_speeds c g) = enter_room g"
  "curr_btns (set_speeds c g) = curr_btns g"
  by (simp_all add: set_speeds_def)

lemma set_speeds_ok: "speeds_ok g \<Longrightarrow> speeds_ok (set_speeds c g)"
  by (auto simp: speeds_ok_def set_speeds_def)

lemma speeds_ok_cong: "x_speed g' = x_speed g \<Longrightarrow> y_speed g' = y_speed g \<Longrightarrow> speeds_ok g' = speeds_ok g"
  by (simp add: speeds_ok_def)

text \<open>A new room waits: only the world and the speeds matter.\<close>

lemma in_new_room:
  assumes "player g = Some r" "world_inv r (wld g)" "fits_view (scr g)" "page_ok (scr g)" "speeds_ok g" "keys_ok g" "enter_room g"
  shows "in_room r g"
  using assms by (simp add: in_room_def)

definition good_result :: "game \<Rightarrow> bool" where
  "good_result g \<longleftrightarrow> game_won g \<or> game_ok g"

section \<open>Typed commands\<close>

lemma handle_typing_ok:
  assumes g: "in_room r g" "\<not> enter_room g"
  shows "\<exists>changed g'. handle_typing g = Some (changed, g') \<and> curr_btns g' = curr_btns g
    \<and> (if changed then good_result (g'\<lparr>enter_room := True\<rparr>) else in_room r g' \<and> \<not> enter_room g')"
proof -
  obtain verb arg where split: "split_typed (get_typed_command g) = (verb, arg)" by fastforce
  have inv: "player g = Some r" "world_inv r (wld g)" "fits_view (scr g)" "page_ok (scr g)" "speeds_ok g" "keys_ok g"
    using g(1) by (simp_all add: in_room_def)
  obtain v objs where win: "window_shows g r v objs" using g by (auto simp: in_room_def)
  show ?thesis
  proof (cases "verb = []")
    case True
    then show ?thesis using g split by (auto simp: handle_typing_def)
  next
    case verb: False
    show ?thesis
    proof (cases "find (verb_matches verb) cmd_list")
      case None
      have "in_room r (g\<lparr>wld := show_status s (wld g)\<rparr>)" for s
        by (rule in_room_world [OF g(1)]) (simp_all add: inv(2) truth)
      then show ?thesis using g verb None split by (auto simp: handle_typing_def)
    next
      case (Some e)
      obtain act to w where res: "run_typed (tc_cmd e) r arg (wld g) = Some (act, to, w)" "outcome_ok (act, to, w)"
        using run_typed_ok [OF inv(2)] unfolding returns_iff by (metis prod_cases3)
      have tr: "act \<noteq> TC_CHANGE_ROOM \<Longrightarrow> to = Some r \<and> views w = views (wld g)
          \<and> (act \<noteq> TC_REDRAW_ROOM \<longrightarrow> room w = room (wld g) \<and> object w = object (wld g))"
        using run_typed_truth [of r "wld g" "tc_cmd e" arg] res(1) unfolding tells_truth_def by blast
      let ?g = "set_speeds (tc_cmd e) (g\<lparr>player := to, wld := w\<rparr>)"
      have sp: "speeds_ok ?g" by (rule set_speeds_ok) (use inv(5) in \<open>simp add: speeds_ok_def\<close>)
      have run: "handle_typing g = (if TC_CHANGE_ROOM = act then Some (True, ?g)
          else if TC_ALLOW_EDIT \<noteq> act then do {
            g \<leftarrow> (if TC_REDRAW_ROOM = act then redraw_room (reset_typed_command ?g) else Some (reset_typed_command ?g));
            Some (False, g) }
          else Some (False, ?g))"
        unfolding handle_typing_def split Let_def prod.case Some option.case inv(1) Option.bind.simps res(1)
        using verb by simp
      show ?thesis
      proof (cases "act = TC_CHANGE_ROOM")
        case True
        have "good_result (?g\<lparr>enter_room := True\<rparr>)"
        proof (cases to)
          case None
          then show ?thesis using res(2) by (simp add: good_result_def game_won_def outcome_ok_def)
        next
          case (Some r')
          have "in_room r' (?g\<lparr>enter_room := True\<rparr>)"
            by (rule in_new_room) (use Some res(2) inv sp in \<open>simp_all add: outcome_ok_def world_inv_def keys_ok_def speeds_ok_def\<close>)
          then show ?thesis by (auto simp: good_result_def game_ok_def)
        qed
        then show ?thesis using run True by auto
      next
        case False
        then have to: "to = Some r" "views w = views (wld g)" and world: "world_inv r w"
          using tr res(2) by (auto simp: outcome_ok_def world_inv_def)
        show ?thesis
        proof (cases "act = TC_REDRAW_ROOM")
          case True
          let ?h = "reset_typed_command ?g"
          have h: "player ?h = Some r" "wld ?h = w" "scr ?h = scr g" "cur_room ?h = Some r" "map_x ?h = map_x g" "map_y ?h = map_y g"
              "enter_room ?h = False" "curr_btns ?h = curr_btns g" "typing (keys ?h) = []" "state (keys ?h) = state (keys g)" "speeds_ok ?h"
            using win g(2) to sp by (simp_all add: reset_typed_command_def window_shows_def speeds_ok_def)
          obtain v' objs' where sh: "room_shows r w v' objs'"
            using world_shows [of w r thesis] world unfolding world_inv_def player_ok_def by blast
          have "v' = v" using sh win to(2) by (auto simp: room_shows_def window_shows_def views_def dest!: fun_cong [of _ _ r])
          then have "\<exists>m. redraw_room ?h = Some (?h\<lparr>scr := m\<rparr>) \<and> window_shows (?h\<lparr>scr := m\<rparr>) r v objs' \<and> fits_view m
              \<and> target_img m = target_img (scr ?h) \<and> video m = video (scr ?h)"
            by (intro redraw_shows) (use sh win h inv in \<open>simp_all add: window_shows_def\<close>)
          then obtain m where m: "redraw_room ?h = Some (?h\<lparr>scr := m\<rparr>)" "window_shows (?h\<lparr>scr := m\<rparr>) r v objs'" "fits_view m"
              "target_img m = target_img (scr g)" using h(3) by auto
          have "in_room r (?h\<lparr>scr := m\<rparr>)"
            using h m(2-4) inv world unfolding in_room_def by (auto simp: keys_ok_def speeds_ok_def page_ok_def)
          then show ?thesis using run True m(1) h by auto
        next
          case no_draw: False
          then have scene: "room w = room (wld g)" "object w = object (wld g)" using tr False by auto
          have "in_room r (g\<lparr>wld := w\<rparr>)" by (rule in_room_world [OF g(1) world scene])
          then have "in_room r ?g" "in_room r (reset_typed_command ?g)"
            using to sp inv(1) by (auto simp: in_room_def window_shows_def keys_ok_def speeds_ok_def reset_typed_command_def)
          moreover have "enter_room ?g = False" "enter_room (reset_typed_command ?g) = False" "curr_btns (reset_typed_command ?g) = curr_btns g"
            using g(2) by (simp_all add: reset_typed_command_def)
          ultimately show ?thesis using run False no_draw by auto
        qed
      qed
    qed
  qed
qed

section \<open>Commands\<close>

lemma move_player_ok:
  assumes g: "in_room r g" "\<not> enter_room g" and go: "returns (go r (wld g)) outcome_ok" "tells_truth r (wld g) (go r (wld g))"
    "\<forall>act to w'. go r (wld g) = Some (act, to, w') \<longrightarrow> act \<noteq> TC_REDRAW_ROOM"
  shows "\<exists>g'. move_player go g = Some g' \<and> curr_btns g' = curr_btns g \<and> good_result g'"
proof -
  have inv: "player g = Some r" "world_inv r (wld g)" "fits_view (scr g)" "page_ok (scr g)" "speeds_ok g" "keys_ok g"
    using g(1) by (simp_all add: in_room_def)
  obtain act to w where res: "go r (wld g) = Some (act, to, w)" "outcome_ok (act, to, w)"
    using go(1) unfolding returns_iff by (metis prod_cases3)
  let ?g = "g\<lparr>player := to, wld := w, enter_room := (TC_CHANGE_ROOM = act)\<rparr>"
  have run: "move_player go g = Some ?g" by (simp add: move_player_def inv(1) res(1))
  have "good_result ?g"
  proof (cases "act = TC_CHANGE_ROOM")
    case True
    show ?thesis
    proof (cases to)
      case None
      then show ?thesis using res(2) by (simp add: good_result_def game_won_def outcome_ok_def)
    next
      case (Some r')
      have "in_room r' ?g"
        by (rule in_new_room) (use Some True res(2) inv in \<open>simp_all add: outcome_ok_def world_inv_def keys_ok_def speeds_ok_def\<close>)
      then show ?thesis by (auto simp: good_result_def game_ok_def)
    qed
  next
    case False
    then have same: "to = Some r" "room w = room (wld g)" "object w = object (wld g)"
      using go(2,3) res(1) unfolding tells_truth_def by blast+
    have "world_inv r w" using res(2) same(1) by (simp add: outcome_ok_def world_inv_def)
    from in_room_world [OF g(1) this same(2,3)] have "in_room r ?g"
      using same(1) inv(1) False g(2) by (auto simp: in_room_def window_shows_def keys_ok_def speeds_ok_def)
    then show ?thesis by (auto simp: good_result_def game_ok_def)
  qed
  then show ?thesis using run by auto
qed

lemma move_acts:
  "try_to_move_left r w = Some (act, to, w') \<Longrightarrow> act \<noteq> TC_REDRAW_ROOM"
  "try_to_move_right r w = Some (act, to, w') \<Longrightarrow> act \<noteq> TC_REDRAW_ROOM"
  "try_to_enter r w = Some (act, to, w') \<Longrightarrow> act \<noteq> TC_REDRAW_ROOM"
  by (auto simp: try_to_move_left_def try_to_move_right_def try_to_enter_def go_into_def say_def rand_def split: option.splits if_splits)

lemma moves_never_redraw:
  "\<forall>act to w'. try_to_move_left r w = Some (act, to, w') \<longrightarrow> act \<noteq> TC_REDRAW_ROOM"
  "\<forall>act to w'. try_to_move_right r w = Some (act, to, w') \<longrightarrow> act \<noteq> TC_REDRAW_ROOM"
  "\<forall>act to w'. try_to_enter r w = Some (act, to, w') \<longrightarrow> act \<noteq> TC_REDRAW_ROOM"
  using move_acts by blast+

lemma scrolls_keep:
  assumes "in_room r g" and "\<not> enter_room g" and "scrolls_to g r v objs x y g'"
  shows "in_room r g'" and "\<not> enter_room g'" and "curr_btns g' = curr_btns g"
  using assms by (auto simp: in_room_def scrolls_to_def scrolled_def page_ok_def speeds_ok_def keys_ok_def)

text \<open>Every command returns, and the game goes on in a good state or is won.\<close>

lemma run_command_ok:
  assumes g: "in_room r g" "\<not> enter_room g"
  shows "\<exists>g'. run_command cmd g = Some g' \<and> good_result g' \<and> curr_btns g' = curr_btns g"
proof -
  obtain v objs where win: "window_shows g r v objs" using g by (auto simp: in_room_def)
  have inv: "player g = Some r" "world_inv r (wld g)" "fits_view (scr g)" "speeds_ok g" using g(1) by (simp_all add: in_room_def)
  have good: "in_room r g' \<Longrightarrow> good_result g'" for g' by (auto simp: good_result_def game_ok_def)
  have scroll: "\<exists>g'. m g = Some g' \<and> good_result g' \<and> curr_btns g' = curr_btns g"
    if "\<exists>g'. m g = Some g' \<and> scrolls_to g r v objs x y g'" for m x y
    using that good scrolls_keep [OF g] by blast
  note moves = scroll [where m = move_photo_down, OF move_photo_down_scrolls [OF win inv(3,4)]] scroll [where m = move_photo_right, OF move_photo_right_scrolls [OF win inv(3,4)]]
    scroll [where m = move_photo_up, OF move_photo_up_scrolls [OF win inv(3,4,1)]] scroll [where m = move_photo_left, OF move_photo_left_scrolls [OF win inv(3,4,1)]]
  note enters = move_player_ok [where go = try_to_move_left, OF g try_to_move_left_ok [OF inv(2)] move_left_truth moves_never_redraw(1)]
    move_player_ok [where go = try_to_move_right, OF g try_to_move_right_ok [OF inv(2)] move_right_truth moves_never_redraw(2)]
    move_player_ok [where go = try_to_enter, OF g try_to_enter_ok [OF inv(2)] enter_truth moves_never_redraw(3)]
  show ?thesis
  proof (cases cmd)
    case CMD_TYPED
    obtain changed g' where t: "handle_typing g = Some (changed, g')" "curr_btns g' = curr_btns g"
        "if changed then good_result (g'\<lparr>enter_room := True\<rparr>) else in_room r g' \<and> \<not> enter_room g'"
      using handle_typing_ok [OF g] by blast
    then show ?thesis using CMD_TYPED good by (cases changed) (auto simp: run_command_def)
  qed (use moves enters good [OF g(1)] in \<open>auto simp: run_command_def\<close>)
qed

text \<open>The keyboard and the Tux controller.\<close>

lemma keyboard_step_ok:
  assumes g: "in_room r g" "\<not> enter_room g"
  obtains cond rest g' where "keyboard_step chars g = Some (cond, rest, g')"
    "cond = GAME_QUIT \<longleftrightarrow> 96 \<in> set chars" "cond = GAME_WON \<Longrightarrow> game_won g'" "cond = Playing \<Longrightarrow> game_ok g'"
proof -
  obtain cmd rest k where read: "get_kb_cmd chars (keys g) = (cmd, rest, k)" by (metis prod_cases3)
  have ko: "typed_ok (typing (keys g))" "state (keys g) \<le> 3" using g(1) by (auto simp: in_room_def keys_ok_def)
  have k: "typed_ok (typing k)" "state k \<le> 3" "cmd = CMD_QUIT \<longleftrightarrow> 96 \<in> set chars"
    using kb_loop_ok [of "keys g\<lparr>pushed := CMD_NONE\<rparr>" chars cmd rest k] ko read by (simp_all add: get_kb_cmd_def)
  show ?thesis
  proof (cases "cmd = CMD_QUIT")
    case True
    show ?thesis by (rule that [of GAME_QUIT rest "g\<lparr>keys := k\<rparr>"]) (use True read k in \<open>simp_all add: keyboard_step_def\<close>)
  next
    case False
    have "in_room r (g\<lparr>keys := k\<rparr>)" by (rule in_room_keys [OF g(1) k(1,2)])
    then obtain g' where g': "run_command cmd (g\<lparr>keys := k\<rparr>) = Some g'" "good_result g'"
      using run_command_ok [of r "g\<lparr>keys := k\<rparr>" cmd] g(2) by auto
    have "player g' = None \<Longrightarrow> game_won g'" "player g' \<noteq> None \<Longrightarrow> game_ok g'"
      using g'(2) by (auto simp: good_result_def game_ok_def in_room_def game_won_def)
    then show ?thesis
      by (intro that [of "if player g' = None then GAME_WON else Playing" rest g']) (use False read k(3) g'(1) in \<open>auto simp: keyboard_step_def split: if_splits\<close>)
  qed
qed

lemma tux_never_types: "get_tux_cmd i btns = (cmd, btns') \<Longrightarrow> cmd \<noteq> CMD_TYPED \<and> cmd \<noteq> CMD_QUIT"
  by (auto simp: get_tux_cmd_def Let_def split: if_splits)

lemma in_room_btns: "in_room r (g\<lparr>curr_btns := b\<rparr>) = in_room r g"
  by (simp add: in_room_def window_shows_def speeds_ok_def keys_ok_def)

lemma go_into_there: "go_into r' w = Some (act, to, w') \<Longrightarrow> to = Some r'"
  by (auto simp: go_into_def rand_def split: if_splits)

lemma moves_stay_in_world:
  "try_to_move_left r w = Some (act, to, w') \<Longrightarrow> to \<noteq> None"
  "try_to_move_right r w = Some (act, to, w') \<Longrightarrow> to \<noteq> None"
  "try_to_enter r w = Some (act, to, w') \<Longrightarrow> to \<noteq> None"
  by (auto simp: try_to_move_left_def try_to_move_right_def try_to_enter_def say_def rand_def
      split: option.splits if_splits dest: go_into_there)

lemma move_player_stays:
  "(\<And>r w act to w'. go r w = Some (act, to, w') \<Longrightarrow> to \<noteq> None) \<Longrightarrow> move_player go g = Some g' \<Longrightarrow> player g' \<noteq> None"
  by (fastforce simp: move_player_def bind_eq_Some_conv)

lemma scroll_stays:
  "move_photo_down g = Some g' \<Longrightarrow> player g' = player g" "move_photo_up g = Some g' \<Longrightarrow> player g' = player g"
  "move_photo_left g = Some g' \<Longrightarrow> player g' = player g" "move_photo_right g = Some g' \<Longrightarrow> player g' = player g"
  by (auto simp: move_photo_down_def move_photo_up_def move_photo_left_def move_photo_right_def Let_def bind_eq_Some_conv)

lemma run_command_stays:
  assumes "player g \<noteq> None" and "cmd \<noteq> CMD_TYPED" and run: "run_command cmd g = Some g'"
  shows "player g' \<noteq> None"
proof (cases cmd)
  case CMD_MOVE_LEFT
  then show ?thesis using run move_player_stays [OF moves_stay_in_world(1)] by (simp add: run_command_def)
next
  case CMD_MOVE_RIGHT
  then show ?thesis using run move_player_stays [OF moves_stay_in_world(2)] by (simp add: run_command_def)
next
  case CMD_ENTER
  then show ?thesis using run move_player_stays [OF moves_stay_in_world(3)] by (simp add: run_command_def)
qed (use assms scroll_stays in \<open>auto simp: run_command_def\<close>)

lemma tux_step_ok:
  assumes g: "in_room r g" "\<not> enter_room g"
  shows "\<exists>g'. tux_step tux_input g = Some g' \<and> game_ok g'"
proof -
  obtain cmd btns where b: "get_tux_cmd tux_input (curr_btns g) = (cmd, btns)" by fastforce
  have g1: "in_room r (g\<lparr>curr_btns := btns\<rparr>)" "\<not> enter_room (g\<lparr>curr_btns := btns\<rparr>)" using g by (simp_all add: in_room_btns)
  obtain g' where g': "run_command cmd (g\<lparr>curr_btns := btns\<rparr>) = Some g'" "good_result g'"
    using run_command_ok [OF g1] by blast
  have "player g' \<noteq> None"
    using run_command_stays [OF _ _ g'(1)] tux_never_types [OF b] g(1) by (simp add: in_room_def)
  then show ?thesis using b g' by (auto simp: tux_step_def good_result_def game_won_def)
qed

end
