(* ===== verification/GameRuns.thy ===== *)
theory GameRuns
  imports GameSteps
begin

text \<open>
  Runs of the game: the frame that is drawn at the start of a pass, the start of the game, and the
  states that are reached when a frame draws each new room before the next command.  The theory \<open>FreeRuns\<close> has the
  runs without this order.
\<close>

section \<open>The frame\<close>

definition message_ok :: "string \<Rightarrow> bool" where
  "message_ok s \<longleftrightarrow> length s < 40 \<and> ascii s"

text \<open>What the display shows at \<open>(x, y)\<close>: of the page, and of the bar above it.\<close>

definition on_screen :: "modex \<Rightarrow> int \<Rightarrow> int \<Rightarrow> u8" where
  "on_screen m x y = video m (nat (x mod 4)) (uint (start_address m) + y * 80 + x div 4)"

definition on_bar :: "modex \<Rightarrow> int \<Rightarrow> int \<Rightarrow> u8" where
  "on_bar m x y = video m (nat (x mod 4)) (y * 80 + x div 4)"

lemma draw_new_room_ok:
  assumes g: "in_room r g"
  shows "\<exists>g'. draw_new_room g = Some g' \<and> in_room r g' \<and> \<not> enter_room g' \<and> wld g' = wld g
    \<and> curr_btns g' = curr_btns g"
proof (cases "enter_room g")
  case False
  then show ?thesis using g by (simp add: draw_new_room_def)
next
  case True
  have inv: "player g = Some r" "world_inv r (wld g)" "fits_view (scr g)" "page_ok (scr g)" "speeds_ok g" "keys_ok g"
    using g by (simp_all add: in_room_def)
  obtain m where m: "set_view_window 0 0 (scr g) = Some m" "fits_view m" "show_x m = 0" "show_y m = 0"
      "target_img m = target_img (scr g)"
    using set_view_window_keeps [OF inv(3)] by blast
  obtain v objs where sh: "room_shows r (wld g) v objs" "320 \<le> photo_width v" "182 \<le> photo_height v"
    using world_shows [of "wld g" r thesis] inv(2) unfolding world_inv_def player_ok_def by blast
  let ?g = "prep_room (player g) (reset_typed_command (g\<lparr>map_x := 0, map_y := 0, scr := m\<rparr>))"
  have h: "player ?g = Some r" "wld ?g = wld g" "scr ?g = m" "cur_room ?g = Some r" "map_x ?g = 0" "map_y ?g = 0"
      "curr_btns ?g = curr_btns g" "typing (keys ?g) = []" "state (keys ?g) = state (keys g)" "speeds_ok ?g"
    using inv(1,5) by (simp_all add: prep_room_def reset_typed_command_def speeds_ok_def)
  have "\<exists>m'. redraw_room ?g = Some (?g\<lparr>scr := m'\<rparr>) \<and> window_shows (?g\<lparr>scr := m'\<rparr>) r v objs \<and> fits_view m'
      \<and> target_img m' = target_img (scr ?g) \<and> video m' = video (scr ?g)"
    by (rule redraw_shows) (use h m sh in simp_all)
  then obtain m' where m': "redraw_room ?g = Some (?g\<lparr>scr := m'\<rparr>)" "window_shows (?g\<lparr>scr := m'\<rparr>) r v objs" "fits_view m'"
      "target_img m' = target_img (scr g)" using h(3) m(5) by auto
  let ?h = "?g\<lparr>scr := m', enter_room := False\<rparr>"
  have "window_shows ?h r v objs" using m'(2) by (simp add: window_shows_def)
  then have "in_room r ?h" using h m'(3,4) inv unfolding in_room_def by (auto simp: keys_ok_def speeds_ok_def page_ok_def)
  moreover have "draw_new_room g = Some ?h"
    unfolding draw_new_room_def Let_def using True m(1) m'(1) by simp
  ultimately show ?thesis using h by auto
qed

lemma window_screen:
  assumes "page_ok (scr g)" and "window_shows g r v objs" and xy: "0 \<le> x" "x < 320" "0 \<le> y" "y < 182"
  shows "on_screen (show_screen (scr g)) x y = picture_at (wld g) v objs (uint (map_x g) + x) (uint (map_y g) + y)"
proof -
  let ?m = "scr g"
  have x: "x div 4 * 4 + x mod 4 = x" "0 \<le> x mod 4" "x mod 4 < 4" by simp_all
  then have q: "0 \<le> x div 4" "x div 4 < 80" using xy(1,2) by linarith+
  have "nat (x mod 4) < 4" using x(3) by linarith
  from show_screen_shows_pixel [OF assms(1) this q xy(3,4)]
  have "on_screen (show_screen ?m) x y = pixel ?m (show_x ?m + 4 * (x div 4) + int (nat (x mod 4))) (show_y ?m + y)"
    by (simp add: on_screen_def)
  also have "show_x ?m + 4 * (x div 4) + int (nat (x mod 4)) = show_x ?m + x" using x by simp
  also have "pixel ?m (show_x ?m + x) (show_y ?m + y) = picture_at (wld g) v objs (show_x ?m + x) (show_y ?m + y)"
    using assms(2) xy by (simp add: window_shows_def painted_def in_view_def)
  finally show ?thesis using assms(2) by (simp add: window_shows_def)
qed

lemma bar_video:
  "video (add_status_bar_to_screen buff m) p a =
     (if p < 4 \<and> 0 \<le> a \<and> a < 1440 then buff (int p * 1440 + a) else video m p a)"
proof -
  have "p < 4 \<longleftrightarrow> p = 0 \<or> p = 1 \<or> p = 2 \<or> p = 3" by auto
  then show ?thesis by (auto simp: add_status_bar_to_screen_def copy_status_bar_image_def copy_plane_at)
qed

lemma bar_fields [simp]:
  "build (add_status_bar_to_screen buff m) = build m" "img3_off (add_status_bar_to_screen buff m) = img3_off m"
  "show_x (add_status_bar_to_screen buff m) = show_x m" "show_y (add_status_bar_to_screen buff m) = show_y m"
  "target_img (add_status_bar_to_screen buff m) = target_img m" "start_address (add_status_bar_to_screen buff m) = start_address m"
  by (simp_all add: add_status_bar_to_screen_def copy_status_bar_image_def)

lemma shown_in_room:
  assumes g: "in_room r g" "\<not> enter_room g"
  shows "window_shows g r v objs \<Longrightarrow>
      window_shows (g\<lparr>scr := add_status_bar_to_screen buff (show_screen (scr g)), tux_led := t\<rparr>) r v objs"
    and "in_room r (g\<lparr>scr := add_status_bar_to_screen buff (show_screen (scr g)), tux_led := t\<rparr>)"
proof -
  let ?g = "g\<lparr>scr := add_status_bar_to_screen buff (show_screen (scr g)), tux_led := t\<rparr>"
  show w: "window_shows ?g r v objs" if "window_shows g r v objs" for v objs
    using that by (simp add: window_shows_def painted_def pixel_def)
  have "page_ok (scr ?g)" using page_ok_show_screen [of "scr g"] g(1) by (simp add: in_room_def page_ok_def)
  moreover have "\<exists>v objs. window_shows ?g r v objs" using g w by (auto simp: in_room_def)
  moreover have "fits_view (scr ?g)" using g(1) by (simp add: in_room_def fits_view_def)
  ultimately show "in_room r ?g" using g(1) by (simp add: in_room_def speeds_ok_def keys_ok_def)
qed

lemma room_names: "world_inv r w \<Longrightarrow> \<exists>name. room_name r w = Some name \<and> message_ok name"
proof -
  assume inv: "world_inv r w"
  have all: "list_all (\<lambda>d. message_ok (rd_name d)) room_data" unfolding message_ok_def ascii_def by code_simp
  obtain d where d: "room_row r = Some d" "d \<in> set room_data"
    using room_row_dom [of r] world_invD(3) [OF inv] by blast
  then have "r_name (room w r) = Some (rd_name d)" using world_invD(5) [OF inv] unfolding complete_def by blast
  then show ?thesis using d(2) all by (auto simp: room_name_def list_all_iff)
qed

lemma typed_ascii: "typed_ok s \<Longrightarrow> length s \<le> 20 \<and> ascii s"
proof -
  assume s: "typed_ok s"
  have "of_char c < (128 :: int)" if "c \<in> set s" for c
  proof -
    have "of_char c < (128 :: nat)" using s that valid_small by (auto simp: typed_ok_def)
    then have "int (of_char c) < 128" by simp
    then show ?thesis by (simp only: of_nat_of_char)
  qed
  then show ?thesis using s by (simp add: typed_ok_def ascii_def)
qed

definition frame_shows :: "game \<Rightarrow> int \<Rightarrow> game \<Rightarrow> bool" where
  "frame_shows g r g' \<longleftrightarrow> (\<exists>v objs name. window_shows g' r v objs \<and> room_name r (wld g') = Some name
     \<and> (\<forall>x y. 0 \<le> x \<and> x < 320 \<and> 0 \<le> y \<and> y < 182 \<longrightarrow>
          on_screen (scr g') x y = picture_at (wld g') v objs (uint (map_x g') + x) (uint (map_y g') + y))
     \<and> (\<forall>x y. 0 \<le> x \<and> x < 320 \<and> 0 \<le> y \<and> y < 18 \<longrightarrow>
          on_bar (scr g') x y = (if text_lit (bar_text (status_msg (wld g')) name (typing (keys g'))) (bar_offset (status_msg (wld g'))) x y
             then 63 else 0)))"

lemma frame_ok:
  assumes g: "in_room r g" and msg: "message_ok (status_msg (wld g))"
  shows "\<exists>g'. frame seconds g = Some g' \<and> in_room r g' \<and> \<not> enter_room g' \<and> wld g' = wld g
    \<and> curr_btns g' = curr_btns g \<and> tux_led g' = display_time_on_tux seconds \<and> frame_shows g r g'"
proof -
  obtain g1 where 1: "draw_new_room g = Some g1" "in_room r g1" "\<not> enter_room g1" "wld g1 = wld g" "curr_btns g1 = curr_btns g"
    using draw_new_room_ok [OF g] by blast
  have inv: "player g1 = Some r" "world_inv r (wld g1)" "page_ok (scr g1)" "typed_ok (typing (keys g1))"
    using 1(2) by (simp_all add: in_room_def keys_ok_def)
  obtain v objs where win: "window_shows g1 r v objs" using 1(2,3) by (auto simp: in_room_def)
  obtain name where name: "room_name r (wld g1) = Some name" "message_ok name" using room_names [OF inv(2)] by blast
  have len: "length (status_msg (wld g)) < 40" "ascii (status_msg (wld g))" "length name < 40" "ascii name"
      "length (typing (keys g1)) \<le> 20" "ascii (typing (keys g1))"
    using msg name(2) typed_ascii [OF inv(4)] by (simp_all add: message_ok_def)
  obtain buff where b: "create_status_bar (status_msg (wld g)) name (typing (keys g1)) = Some buff"
      "\<forall>x y. 0 \<le> x \<and> x < 320 \<and> 0 \<le> y \<and> y < 18 \<longrightarrow> buff ! nat (bar_index x y) =
         (if text_lit (bar_text (status_msg (wld g)) name (typing (keys g1))) (bar_offset (status_msg (wld g))) x y then 63 else 0)"
    using create_status_bar_draws [OF len] by blast
  let ?m = "add_status_bar_to_screen (\<lambda>i. buff ! nat i) (show_screen (scr g1))"
  let ?g = "g1\<lparr>scr := ?m, tux_led := display_time_on_tux seconds\<rparr>"
  have run: "frame seconds g = Some ?g"
    using 1(1) b(1) name(1) inv(1) 1(4) by (simp add: frame_def draw_status_bar_def get_typed_command_def)
  have "window_shows ?g r v objs" by (rule shown_in_room(1) [OF 1(2,3) win])
  moreover have "in_room r ?g" by (rule shown_in_room(2) [OF 1(2,3)])
  moreover have "on_screen ?m x y = picture_at (wld g1) v objs (uint (map_x g1) + x) (uint (map_y g1) + y)"
    if "0 \<le> x" "x < 320" "0 \<le> y" "y < 182" for x y
  proof -
    have "x div 4 * 4 + x mod 4 = x" "0 \<le> x mod 4" "x mod 4 < 4" by simp_all
    then have "0 \<le> x div 4" using that by linarith
    moreover have "uint (target_img (scr g1) XOR 0x4000) \<ge> 1440" using inv(3) by (auto simp: page_ok_def)
    ultimately have "\<not> uint (start_address (show_screen (scr g1))) + y * 80 + x div 4 < 1440" using that by simp
    then have "on_screen ?m x y = on_screen (show_screen (scr g1)) x y" by (simp add: on_screen_def bar_video)
    then show ?thesis using window_screen [OF inv(3) win that] by simp
  qed
  moreover have "on_bar ?m x y = (if text_lit (bar_text (status_msg (wld g1)) name (typing (keys g1))) (bar_offset (status_msg (wld g1))) x y
      then 63 else 0)"
    if "0 \<le> x" "x < 320" "0 \<le> y" "y < 18" for x y
  proof -
    have x: "x div 4 * 4 + x mod 4 = x" "0 \<le> x mod 4" "x mod 4 < 4" by simp_all
    then have "0 \<le> x div 4" "x div 4 < 80" "nat (x mod 4) < 4" using that by linarith+
    moreover from this(1,2) have "y * 80 + x div 4 < 1440" "0 \<le> y * 80 + x div 4" using that by linarith+
    ultimately have "on_bar ?m x y = buff ! nat (bar_index x y)"
      by (simp add: on_bar_def bar_video bar_index_def add.assoc)
    then show ?thesis using b(2) that 1(4) by auto
  qed
  ultimately have "frame_shows g r ?g" using name(1) unfolding frame_shows_def by auto
  then show ?thesis using run \<open>in_room r ?g\<close> 1(3,4,5) by auto
qed

section \<open>The start\<close>

lemma start_game_ok:
  assumes "readable files" and "keys_ok g"
  shows "\<exists>g'. start_game files g = Some g' \<and> in_room start_in_room g' \<and> new_world (wld g') \<and> keys g' = keys g
    \<and> enter_room g'"
proof -
  obtain w where w: "build_world files (wld g) = Some (True, w)" "world_inv start_in_room w" "new_world w"
    using build_world_ok [OF assms(1), of "wld g"] unfolding returns_iff by auto
  obtain m where m: "setup_buffer (scr g) = Some m" "fits_view m" "page_ok m" by (rule setup_buffer_ok)
  let ?g = "(init_game (g\<lparr>wld := w\<rparr>))\<lparr>scr := clear_screens m, enter_room := True, curr_btns := replicate 8 1\<rparr>"
  have "start_game files g = Some ?g" using w(1) m(1) by (simp add: start_game_def init_game_def)
  moreover have "in_room start_in_room ?g"
    by (rule in_new_room) (use w(2) m(2,3) assms(2) in \<open>simp_all add: init_game_def clear_screens_def fits_view_def page_ok_def speeds_ok_def keys_ok_def\<close>)
  moreover have "new_world (wld ?g)" "keys ?g = keys g" "enter_room ?g" using w(3) by (simp_all add: init_game_def)
  ultimately show ?thesis by blast
qed

section \<open>Reachable states\<close>

text \<open>A command runs only when no new room waits to be drawn.  The source does not see to this: the controller's thread
  can act at any time, and the event loop handles the next key whatever it has done since the last frame.\<close>

inductive reachable :: "files \<Rightarrow> game \<Rightarrow> bool" for files where
  start: "keys_ok g \<Longrightarrow> start_game files g = Some g' \<Longrightarrow> reachable files g'"
| frame: "reachable files g \<Longrightarrow> frame seconds g = Some g' \<Longrightarrow> reachable files g'"
| keyboard: "reachable files g \<Longrightarrow> \<not> enter_room g \<Longrightarrow> keyboard_step chars g = Some (Playing, rest, g') \<Longrightarrow> reachable files g'"
| controller: "reachable files g \<Longrightarrow> \<not> enter_room g \<Longrightarrow> tux_step tux_input g = Some g' \<Longrightarrow> reachable files g'"
| timeout: "reachable files g \<Longrightarrow> reachable files (clear_status g)"

inductive_cases reachable_cases: "reachable files g"

lemma world_inv_msg: "world_inv r (w\<lparr>status_msg := s\<rparr>) = world_inv r w"
  using world_inv_status [of r s "w"]
  by (simp add: world_inv_def world_ok_def ok_with_def player_ok_def listed_def complete_def next_of_def loc_of_def
      flags_def player_flag_is_set_def del: o_loc_of flag_is)

lemma clear_status_ok: "in_room r g \<Longrightarrow> in_room r (clear_status g)"
  unfolding clear_status_def by (rule in_room_world) (simp_all add: world_inv_msg in_room_def)

lemma frame_in_room: "in_room r g \<Longrightarrow> frame seconds g = Some g' \<Longrightarrow> in_room r g'"
proof -
  assume g: "in_room r g" and run: "frame seconds g = Some g'"
  obtain g1 where 1: "draw_new_room g = Some g1" "in_room r g1" "\<not> enter_room g1" using draw_new_room_ok [OF g] by blast
  obtain buff where g': "g' = g1\<lparr>scr := add_status_bar_to_screen buff (show_screen (scr g1)), tux_led := display_time_on_tux seconds\<rparr>"
    using run 1(1) by (auto simp: frame_def draw_status_bar_def bind_eq_Some_conv)
  show ?thesis unfolding g' by (rule shown_in_room(2) [OF 1(2,3)])
qed

lemma game_reachable_ok:
  assumes "readable files"
  shows "reachable files g \<Longrightarrow> game_ok g"
proof (induction rule: reachable.induct)
  case (start g g')
  then show ?case using start_game_ok [OF assms start(1)] by (auto simp: game_ok_def)
next
  case (frame g seconds g')
  then show ?case using frame_in_room unfolding game_ok_def by blast
next
  case (keyboard g chars rest g')
  then obtain r where "in_room r g" by (auto simp: game_ok_def)
  from keyboard_step_ok [OF this keyboard(2), of chars] show ?case using keyboard(3) by (metis Pair_inject option.inject)
next
  case (controller g tux_input g')
  then obtain r where "in_room r g" by (auto simp: game_ok_def)
  from tux_step_ok [OF this controller(2)] show ?case using controller(3) by (metis option.inject)
next
  case (timeout g)
  then show ?case using clear_status_ok by (auto simp: game_ok_def)
qed

end
