(* ===== verification/Walkthrough.thy ===== *)
theory Walkthrough
  imports Story GameRuns
begin

text \<open>
  From the keyboard to the story: what a key or a typed line does to a resting game, and a walkthrough
  that wins it.
\<close>

section \<open>Deeds at the keyboard\<close>

definition deed_keys :: "deed \<Rightarrow> key list" where
  "deed_keys d = (case d of Press c \<Rightarrow> [Key_page c] | Line s \<Rightarrow> map (\<lambda>c. Key_char (of_char c)) s @ [Key_return])"

definition deed_bytes :: "deed \<Rightarrow> nat list" where
  "deed_bytes d = concat (map key_bytes (deed_keys d))"

section \<open>What the game does with a deed\<close>

lemma type_text:
  assumes "typed_ok (s @ t)"
  shows "fold key_effect (map (\<lambda>c. Key_char (of_char c)) t) (p, s) = (p, s @ t)"
  using assms
proof (induction t arbitrary: s)
  case (Cons c t)
  have "edit_text (of_char c) s = s @ [c]"
    using Cons.prems by (simp add: typed_ok_def edit_text_def)
  then show ?case using Cons.IH [of "s @ [c]"] Cons.prems by simp
qed simp

lemma keys_loop:
  assumes "\<forall>k\<in>set ks. key_ok k" and "state k = 0" and "typing k = []"
  shows "get_kb_cmd (concat (map key_bytes ks)) k =
    (fst (fold key_effect ks (CMD_NONE, [])), [], k\<lparr>pushed := fst (fold key_effect ks (CMD_NONE, [])),
       typing := snd (fold key_effect ks (CMD_NONE, []))\<rparr>)"
proof -
  let ?k = "k\<lparr>pushed := CMD_NONE\<rparr>"
  have "kb_loop (concat (map key_bytes ks) @ []) ?k = kb_loop [] (fold kb_char (concat (map key_bytes ks)) ?k)"
    by (rule kb_loop_append) (use keys_effect [OF assms(1), of ?k] assms(2) in simp)
  then show ?thesis using keys_effect [OF assms(1), of ?k] assms(2,3) by (simp add: get_kb_cmd_def)
qed

lemma press_read:
  assumes "c \<in> {CMD_MOVE_LEFT, CMD_ENTER, CMD_MOVE_RIGHT}" and "state k = 0" and "typing k = []"
  shows "get_kb_cmd (deed_bytes (Press c)) k = (c, [], k\<lparr>pushed := c\<rparr>)"
  using keys_loop [of "[Key_page c]" k] assms by (simp add: deed_bytes_def deed_keys_def)

lemma line_read:
  assumes "typed_ok s" and "state k = 0" and "typing k = []"
  shows "get_kb_cmd (deed_bytes (Line s)) k = (CMD_TYPED, [], k\<lparr>pushed := CMD_TYPED, typing := s\<rparr>)"
proof -
  have "\<forall>k\<in>set (deed_keys (Line s)). key_ok k" using assms(1) by (auto simp: deed_keys_def typed_ok_def)
  from keys_loop [OF this assms(2,3)] show ?thesis
    using type_text [of "[]" s CMD_NONE] assms(1) by (simp add: deed_bytes_def deed_keys_def)
qed

text \<open>A typed line that changes the text: what is left of the game after it.\<close>

lemma redraw_fields: "redraw_room g = Some g' \<Longrightarrow> \<exists>m. g' = g\<lparr>scr := m\<rparr>"
  by (auto simp: redraw_room_def bind_eq_Some_conv)

lemma typing_result:
  assumes "split_typed (typing (keys g)) = (verb, arg)" and "verb \<noteq> []" and "find (verb_matches verb) cmd_list = Some e"
    and "player g = Some r" and "run_typed (tc_cmd e) r arg (wld g) = Some (act, to, w)" and "act \<noteq> TC_ALLOW_EDIT"
    and run: "handle_typing g = Some (changed, g')"
  shows "player g' = to \<and> wld g' = w \<and> changed = (act = TC_CHANGE_ROOM) \<and> state (keys g') = state (keys g)
    \<and> (\<not> changed \<longrightarrow> typing (keys g') = [])"
proof -
  let ?g = "set_speeds (tc_cmd e) (g\<lparr>player := to, wld := w\<rparr>)"
  have eq: "handle_typing g = (if TC_CHANGE_ROOM = act then Some (True, ?g)
      else do { g \<leftarrow> (if TC_REDRAW_ROOM = act then redraw_room (reset_typed_command ?g) else Some (reset_typed_command ?g));
        Some (False, g) })"
    using assms(1-6) by (simp add: handle_typing_def get_typed_command_def Let_def)
  show ?thesis using run unfolding eq
    by (auto simp: bind_eq_Some_conv reset_typed_command_def split: if_splits dest!: redraw_fields)
qed

lemma in_room_is: "in_room r g \<Longrightarrow> player g = Some r"
  by (simp add: in_room_def)

text \<open>The game between two deeds.\<close>

definition resting :: "tale \<Rightarrow> game \<Rightarrow> bool" where
  "resting t g \<longleftrightarrow> in_room (t_room t) g \<and> \<not> enter_room g \<and> typing (keys g) = [] \<and> state (keys g) = 0 \<and> follows t (wld g)"

definition after_deed :: "tale \<Rightarrow> game \<Rightarrow> bool" where
  "after_deed t g \<longleftrightarrow> in_room (t_room t) g \<and> (enter_room g \<or> typing (keys g) = []) \<and> state (keys g) = 0 \<and> follows t (wld g)"

lemma press_step:
  assumes g: "resting t g" and t': "tale_move c t = Some t'"
  shows "\<exists>g'. keyboard_step (deed_bytes (Press c)) g = Some (Playing, [], g') \<and> after_deed t' g'"
proof -
  have G: "in_room (t_room t) g" "\<not> enter_room g" "typing (keys g) = []" "state (keys g) = 0" "follows t (wld g)"
    using g by (simp_all add: resting_def)
  note D = followsD [OF G(5)]
  note mt = move_tells [OF G(5) t']
  have "returns (mover c (t_room t) (wld g)) outcome_ok"
    using mt(2) try_to_move_left_ok [OF D(1)] try_to_move_right_ok [OF D(1)] try_to_enter_ok [OF D(1)] by (auto simp: mover_def)
  then obtain w where w: "mover c (t_room t) (wld g) = Some (TC_CHANGE_ROOM, Some (t_room t'), w)" "follows t' w"
    using next_follows [OF _ mt(1)] by auto
  let ?k = "(keys g)\<lparr>pushed := c\<rparr>"
  let ?g = "g\<lparr>keys := ?k, player := Some (t_room t'), wld := w, enter_room := True\<rparr>"
  have "run_command c (g\<lparr>keys := ?k\<rparr>) = move_player (mover c) (g\<lparr>keys := ?k\<rparr>)"
    using mt(2) by (auto simp: run_command_def mover_def)
  also have "\<dots> = Some ?g" using w(1) G(1) by (simp add: move_player_def in_room_def)
  finally have "run_command c (g\<lparr>keys := ?k\<rparr>) = Some ?g" .
  moreover have "c \<noteq> CMD_QUIT" using mt(2) by auto
  ultimately have "keyboard_step (deed_bytes (Press c)) g = Some (Playing, [], ?g)"
    using press_read [OF mt(2) G(4,3)] by (simp add: keyboard_step_def)
  moreover have "in_room (t_room t') ?g"
    by (rule in_new_room) (use G(1) w(2) in \<open>simp_all add: in_room_def follows_def speeds_ok_def keys_ok_def\<close>)
  then have "after_deed t' ?g" using G(4) w(2) by (simp add: after_deed_def)
  ultimately show ?thesis by blast
qed

lemma line_step:
  assumes g: "resting t g" and s: "typed_ok s" "split_typed s = (verb, arg)" "verb \<noteq> []" "find (verb_matches verb) cmd_list = Some e"
    and t': "tale_typed (tc_cmd e) arg t = Some t'"
  shows "\<exists>g'. keyboard_step (deed_bytes (Line s)) g = Some (Playing, [], g') \<and> after_deed t' g'"
proof -
  have G: "in_room (t_room t) g" "\<not> enter_room g" "typing (keys g) = []" "state (keys g) = 0" "follows t (wld g)"
    using g by (simp_all add: resting_def)
  note D = followsD [OF G(5)]
  obtain act w where w: "run_typed (tc_cmd e) (t_room t) arg (wld g) = Some (act, Some (t_room t'), w)" "act \<noteq> TC_ALLOW_EDIT" "follows t' w"
    using next_follows [OF run_typed_ok [OF D(1), of "tc_cmd e" arg], of t' "\<lambda>_. True"] typed_tells [OF G(5) t'] by auto
  let ?k = "(keys g)\<lparr>pushed := CMD_TYPED, typing := s\<rparr>"
  let ?g = "g\<lparr>keys := ?k\<rparr>"
  have "in_room (t_room t) ?g" by (rule in_room_keys [OF G(1)]) (use s(1) G(4) in simp_all)
  then obtain g' where g': "run_command CMD_TYPED ?g = Some g'" "good_result g'"
    using run_command_ok [of "t_room t" ?g CMD_TYPED] G(2) by auto
  then obtain changed h where h: "handle_typing ?g = Some (changed, h)" "g' = (if changed then h\<lparr>enter_room := True\<rparr> else h)"
    by (auto simp: run_command_def bind_eq_Some_conv)
  have "player ?g = Some (t_room t)" using G(1) by (simp add: in_room_def)
  from typing_result [OF _ s(3,4) this _ w(2) h(1), of arg "Some (t_room t')" w]
  have r: "player h = Some (t_room t')" "wld h = w" "state (keys h) = 0" "changed \<or> typing (keys h) = []"
    using s(2) w(1) G(4) by auto
  have "player g' = Some (t_room t')" using r h(2) by simp
  then have "in_room (t_room t') g'" using g'(2) by (auto simp: good_result_def game_won_def game_ok_def in_room_def)
  then have "after_deed t' g'" using r h(2) w(3) by (auto simp: after_deed_def)
  moreover have "keyboard_step (deed_bytes (Line s)) g = Some (Playing, [], g')"
    using line_read [OF s(1) G(4,3)] g'(1) \<open>player g' = Some (t_room t')\<close> by (simp add: keyboard_step_def)
  ultimately show ?thesis by blast
qed

text \<open>Every step of the abstract machine is a step of the game.\<close>

lemma deed_step:
  assumes g: "resting t g" and t': "tale_step d t = Some t'"
  shows "\<exists>g'. keyboard_step (deed_bytes d) g = Some (Playing, [], g') \<and> after_deed t' g'"
proof (cases d)
  case (Press c)
  then show ?thesis using press_step [OF g] t' by (simp add: tale_step_def)
next
  case (Line s)
  obtain verb arg where s: "split_typed s = (verb, arg)" by fastforce
  with t' Line have "verb \<noteq> []" "typed_ok s" by (auto simp: tale_step_def split: if_splits)
  moreover from this s t' Line obtain e where "find (verb_matches verb) cmd_list = Some e" "tale_typed (tc_cmd e) arg t = Some t'"
    by (auto simp: tale_step_def split: option.splits)
  ultimately show ?thesis using line_step [OF g] s Line by blast
qed

lemma draw_new_room_keys:
  "draw_new_room g = Some g' \<Longrightarrow> keys g' = (if enter_room g then (keys g)\<lparr>typing := []\<rparr> else keys g)"
  by (auto simp: draw_new_room_def bind_eq_Some_conv prep_room_def reset_typed_command_def Let_def split: if_splits dest!: redraw_fields)

lemma frame_keys:
  assumes "frame seconds g = Some g'"
  shows "keys g' = (if enter_room g then (keys g)\<lparr>typing := []\<rparr> else keys g)"
proof -
  obtain g1 where "draw_new_room g = Some g1" "keys g' = keys g1"
    using assms by (auto simp: frame_def draw_status_bar_def bind_eq_Some_conv)
  then show ?thesis using draw_new_room_keys [of g g1] by simp
qed

lemma follows_msg: "follows t (w\<lparr>status_msg := s\<rparr>) = follows t w"
  unfolding follows_def world_inv_msg state_of_def names_def
  by (simp add: loc_of_def flags_def player_flag_is_set_def del: o_loc_of flag_is)

text \<open>After a deed the status message passes, the next frame is drawn, and the game rests.\<close>

lemma deed_rests:
  assumes "reachable files g" and "after_deed t g"
  shows "\<exists>g'. reachable files g' \<and> resting t g'"
proof -
  let ?g = "clear_status g"
  have g: "in_room (t_room t) ?g" "follows t (wld ?g)" "status_msg (wld ?g) = []" "keys ?g = keys g" "enter_room ?g = enter_room g"
    using assms(2) clear_status_ok [of "t_room t" g] by (simp_all add: after_deed_def clear_status_def follows_msg)
  have "message_ok (status_msg (wld ?g))" using g(3) by (simp add: message_ok_def ascii_def)
  from frame_ok [OF g(1) this, of 0] obtain g' where g': "frame 0 ?g = Some g'" "in_room (t_room t) g'" "\<not> enter_room g'" "wld g' = wld ?g"
    by blast
  have "reachable files g'" by (rule reachable.frame [OF reachable.timeout [OF assms(1)] g'(1)])
  moreover have "resting t g'"
    using g'(2-4) g(2) frame_keys [OF g'(1)] assms(2) unfolding g(4,5) by (auto simp: resting_def after_deed_def)
  ultimately show ?thesis by blast
qed

lemma deeds_run:
  "reachable files g \<Longrightarrow> resting t g \<Longrightarrow> tale_run ds t = Some t' \<Longrightarrow> \<exists>g'. reachable files g' \<and> resting t' g'"
proof (induction ds arbitrary: t g)
  case (Cons d ds)
  then obtain t1 where t1: "tale_step d t = Some t1" "tale_run ds t1 = Some t'" by (auto simp: bind_eq_Some_conv)
  obtain g1 where g1: "keyboard_step (deed_bytes d) g = Some (Playing, [], g1)" "after_deed t1 g1"
    using deed_step [OF Cons.prems(2) t1(1)] by blast
  have "reachable files g1"
    using reachable.keyboard [OF Cons.prems(1) _ g1(1)] Cons.prems(2) by (simp add: resting_def)
  from deed_rests [OF this g1(2)] show ?case using Cons.IH t1(2) by blast
qed auto

section \<open>The start\<close>

definition fresh_game :: "game \<Rightarrow> bool" where
  "fresh_game g \<longleftrightarrow> keys g = \<lparr>state = 0, typing = [], pushed = CMD_NONE\<rparr>"

lemma start_rests:
  assumes "readable files" and "fresh_game g0"
  shows "\<exists>g. reachable files g \<and> resting start_tale g"
proof -
  have k: "keys_ok g0" using assms(2) by (simp add: fresh_game_def keys_ok_def)
  obtain g where g: "start_game files g0 = Some g" "in_room start_in_room g" "new_world (wld g)" "keys g = keys g0"
    using start_game_ok [OF assms(1) k] by blast
  have "after_deed start_tale g"
    using g(2-4) assms(2) by (simp add: after_deed_def start_tale_def fresh_game_def follows_def in_room_def state_of_def new_world_def names_def)
  then show ?thesis by (rule deed_rests [OF reachable.start [OF k g(1)]])
qed

section \<open>The last deed\<close>

lemma won_deed:
  assumes g: "resting t g" and t: "tale_won t"
  shows "\<exists>g'. keyboard_step (deed_bytes (Line ''do mp2'')) g = Some (GAME_WON, [], g')"
proof -
  have G: "in_room (t_room t) g" "\<not> enter_room g" "typing (keys g) = []" "state (keys g) = 0" "follows t (wld g)"
    using g by (simp_all add: resting_def)
  note D = followsD [OF G(5)]
  have told: "typed_ok ''do mp2''" "split_typed ''do mp2'' = (''do'', ''mp2'')"
      "find (verb_matches ''do'') cmd_list = Some (Typed_cmd ''do'' 2 TC_DO)" "same_text ''mp2'' ''mp2''"
    by code_simp+
  let ?k = "(keys g)\<lparr>pushed := CMD_TYPED, typing := ''do mp2''\<rparr>"
  have "run_typed TC_DO (t_room t) ''mp2'' (wld g) = Some (TC_CHANGE_ROOM, None, wld g)"
    using t told(4) by (simp add: run_typed_def typed_cmd_do_def tale_won_def D(3))
  then have "run_command CMD_TYPED (g\<lparr>keys := ?k\<rparr>) = Some (g\<lparr>keys := ?k, player := None, enter_room := True\<rparr>)"
    using told G(1) by (simp add: run_command_def handle_typing_def get_typed_command_def set_speeds_def in_room_def)
  then show ?thesis using line_read [OF told(1) G(4,3)] by (simp add: keyboard_step_def)
qed

end
