(* ===== verification/FreeRuns.thy ===== *)
theory FreeRuns
  imports GameRuns
begin

text \<open>
  The runs of the game without any order between its threads: a key or a button may act while a new
  room still waits to be drawn, as two commands between two frames do.  What holds of the world, the
  build buffer and the text holds in all of them; what the window shows does not, and a scroll may then
  read outside the photo.
\<close>

section \<open>All runs\<close>

inductive run :: "files \<Rightarrow> game \<Rightarrow> bool" for files where
  start: "keys_ok g \<Longrightarrow> start_game files g = Some g' \<Longrightarrow> run files g'"
| frame: "run files g \<Longrightarrow> frame seconds g = Some g' \<Longrightarrow> run files g'"
| keyboard: "run files g \<Longrightarrow> keyboard_step chars g = Some (Playing, rest, g') \<Longrightarrow> run files g'"
| controller: "run files g \<Longrightarrow> tux_step tux_input g = Some g' \<Longrightarrow> run files g'"
| timeout: "run files g \<Longrightarrow> run files (clear_status g)"

inductive_cases run_cases: "run files g"

text \<open>The runs with a frame between two commands are among them.\<close>

lemma reachable_run: "reachable files g \<Longrightarrow> run files g"
  by (induction rule: reachable.induct) (auto intro: run.intros)

definition stands :: "int \<Rightarrow> game \<Rightarrow> bool" where
  "stands r g \<longleftrightarrow> player g = Some r \<and> world_inv r (wld g) \<and> fits_view (scr g) \<and> page_ok (scr g)
     \<and> speeds_ok g \<and> keys_ok g"

lemma in_room_stands: "in_room r g \<longleftrightarrow> stands r g \<and> (\<not> enter_room g \<longrightarrow> (\<exists>v objs. window_shows g r v objs))"
  by (auto simp: in_room_def stands_def)

text \<open>No room waits, and the window shows the room the player is in.\<close>

definition window_current :: "game \<Rightarrow> bool" where
  "window_current g \<longleftrightarrow> \<not> enter_room g \<and> (\<exists>r v objs. player g = Some r \<and> window_shows g r v objs)"

lemma window_current_in_room: "stands r g \<Longrightarrow> window_current g \<Longrightarrow> in_room r g"
  by (auto simp: in_room_stands window_current_def stands_def)

lemma in_room_current: "in_room r g \<Longrightarrow> \<not> enter_room g \<Longrightarrow> window_current g"
  by (auto simp: window_current_def in_room_def)

section \<open>Drawing that returns\<close>

lemma draw_line_same:
  "draw_horiz_line fill i m = Some (z, m') \<Longrightarrow> same_window m m'"
  "draw_vert_line fill i m = Some (z, m') \<Longrightarrow> same_window m m'"
  by (auto simp: draw_horiz_line_def draw_vert_line_def same_window_def Let_def bind_eq_Some_conv split: if_splits)

lemma same_window_trans: "same_window m m1 \<Longrightarrow> same_window m1 m2 \<Longrightarrow> same_window m m2"
  by (simp add: same_window_def)

lemma draw_lines_same:
  assumes "\<forall>i m z m'. draw i m = Some (z, m') \<longrightarrow> same_window m m'"
  shows "draw_lines draw is m = Some m' \<Longrightarrow> same_window m m'"
proof (induction "is" arbitrary: m)
  case Nil
  then show ?case by (simp add: same_window_def)
next
  case (Cons i "is")
  then obtain z m1 where 1: "draw i m = Some (z, m1)" and 2: "draw_lines draw is m1 = Some m'"
    by (auto simp: bind_eq_Some_conv)
  from 1 have "same_window m m1" using assms by blast
  then show ?case using Cons.IH [OF 2] by (rule same_window_trans)
qed

lemma lines_same:
  "draw_lines (draw_horiz_line fill) is m = Some m' \<Longrightarrow> same_window m m'"
  "draw_lines (draw_vert_line fill) is m = Some m' \<Longrightarrow> same_window m m'"
  by (erule draw_lines_same [rotated], intro allI impI, erule draw_line_same)+

lemma same_window_stands: "same_window m m' \<Longrightarrow> fits_view m' = fits_view m \<and> page_ok m' = page_ok m"
  using same_window_fits [of m m'] by (simp add: same_window_def page_ok_def)

lemma stands_scr:
  "stands r g \<Longrightarrow> fits_view m \<Longrightarrow> page_ok m \<Longrightarrow> stands r (g\<lparr>map_x := x, map_y := y, scr := m\<rparr>)"
  by (simp add: stands_def speeds_ok_def keys_ok_def)

lemma set_view_window_stands:
  "fits_view m \<Longrightarrow> page_ok m \<Longrightarrow> set_view_window x y m = Some m' \<Longrightarrow> fits_view m' \<and> page_ok m'"
  using set_view_window_keeps [of m x y] by (auto simp: page_ok_def)

lemma redraw_stands:
  assumes "stands r g" and "redraw_room g = Some g'"
  shows "stands r g' \<and> enter_room g' = enter_room g \<and> curr_btns g' = curr_btns g"
proof -
  obtain m where m: "draw_lines (draw_horiz_line (horiz_line g)) (map int [0..<182]) (scr g) = Some m" "g' = g\<lparr>scr := m\<rparr>"
    using assms(2) by (auto simp: redraw_room_def bind_eq_Some_conv simp del: upt_Suc)
  from same_window_stands [OF lines_same(1) [OF m(1)]] stands_scr [OF assms(1), of m "map_y g" "map_x g"] assms(1)
  show ?thesis by (simp add: m(2) stands_def)
qed

lemma scroll_stands:
  assumes "stands r g"
  shows "move_photo_down g = Some g' \<Longrightarrow> stands r g'" and "move_photo_up g = Some g' \<Longrightarrow> stands r g'"
    and "move_photo_left g = Some g' \<Longrightarrow> stands r g'" and "move_photo_right g = Some g' \<Longrightarrow> stands r g'"
proof -
  have s: "fits_view (scr g)" "page_ok (scr g)" using assms by (simp_all add: stands_def)
  have down: "stands r (g\<lparr>map_y := y, scr := m2\<rparr>)"
    if "set_view_window u v (scr g) = Some m1" "same_window m1 m2" for u v y m1 m2
  proof -
    have "stands r (g\<lparr>map_x := map_x g, map_y := y, scr := m2\<rparr>)"
      using set_view_window_stands [OF s that(1)] same_window_stands [OF that(2)] stands_scr [OF assms] by blast
    then show ?thesis by simp
  qed
  have side: "stands r (g\<lparr>map_x := x, scr := m2\<rparr>)"
    if "set_view_window u v (scr g) = Some m1" "same_window m1 m2" for u v x m1 m2
  proof -
    have "stands r (g\<lparr>map_x := x, map_y := map_y g, scr := m2\<rparr>)"
      using set_view_window_stands [OF s that(1)] same_window_stands [OF that(2)] stands_scr [OF assms] by blast
    then show ?thesis by simp
  qed
  show "stands r g'" if "move_photo_down g = Some g'"
    using that unfolding move_photo_down_def Let_def
    by (elim bind_eq_Some_conv [THEN iffD1, elim_format] exE conjE) (auto intro: down dest: lines_same simp del: upt_Suc)
  show "stands r g'" if "move_photo_up g = Some g'"
    using that unfolding move_photo_up_def Let_def
    by (elim bind_eq_Some_conv [THEN iffD1, elim_format] exE conjE) (auto intro: down dest: lines_same simp del: upt_Suc)
  show "stands r g'" if "move_photo_left g = Some g'"
    using that unfolding move_photo_left_def Let_def
    by (elim bind_eq_Some_conv [THEN iffD1, elim_format] exE conjE) (auto intro: side dest: lines_same simp del: upt_Suc)
  show "stands r g'" if "move_photo_right g = Some g'"
    using that unfolding move_photo_right_def Let_def
    by (elim bind_eq_Some_conv [THEN iffD1, elim_format] exE conjE) (auto intro: side dest: lines_same simp del: upt_Suc)
qed

section \<open>Commands that return\<close>

definition stands_or_won :: "game \<Rightarrow> bool" where
  "stands_or_won g \<longleftrightarrow> (\<exists>r. stands r g) \<or> game_won g"

lemma stands_keys: "stands r g \<Longrightarrow> typed_ok (typing k) \<Longrightarrow> state k \<le> 3 \<Longrightarrow> stands r (g\<lparr>keys := k\<rparr>)"
  by (simp add: stands_def speeds_ok_def keys_ok_def)

lemma stands_enter [simp]: "stands r (g\<lparr>enter_room := e\<rparr>) = stands r g" "game_won (g\<lparr>enter_room := e\<rparr>) = game_won g"
  "stands_or_won (g\<lparr>enter_room := e\<rparr>) = stands_or_won g"
  by (simp_all add: stands_def speeds_ok_def keys_ok_def game_won_def stands_or_won_def)

lemma stands_outcome:
  assumes "stands r g" and "outcome_ok (act, to, w)"
  shows "stands_or_won (g\<lparr>player := to, wld := w\<rparr>)"
proof (cases to)
  case None
  then show ?thesis using assms(2) by (simp add: stands_or_won_def game_won_def outcome_ok_def)
next
  case (Some r')
  then have "stands r' (g\<lparr>player := to, wld := w\<rparr>)"
    using assms by (simp add: stands_def outcome_ok_def world_inv_def speeds_ok_def keys_ok_def)
  then show ?thesis by (auto simp: stands_or_won_def)
qed

lemma stands_set_speeds: "stands r g \<Longrightarrow> stands r (set_speeds c g)"
  using set_speeds_ok [of g c] by (simp add: stands_def keys_ok_def)

lemma reset_stands: "stands r g \<Longrightarrow> stands r (reset_typed_command g)"
  by (simp add: reset_typed_command_def stands_def keys_ok_def speeds_ok_def)

lemma won_speeds: "game_won (set_speeds c g) = game_won g"
  by (simp add: game_won_def)

lemma handle_typing_stands:
  assumes g: "stands r g" and run: "handle_typing g = Some (changed, g')"
  shows "stands_or_won g'" and "\<not> changed \<Longrightarrow> \<exists>r. stands r g'"
proof -
  obtain verb arg where split: "split_typed (get_typed_command g) = (verb, arg)" by fastforce
  have "stands_or_won g' \<and> (\<not> changed \<longrightarrow> (\<exists>r. stands r g'))"
  proof (cases "verb = [] \<or> find (verb_matches verb) cmd_list = None")
    case True
    have "stands r (g\<lparr>wld := show_status s (wld g)\<rparr>)" for s
      using g by (simp add: stands_def speeds_ok_def keys_ok_def)
    then show ?thesis using run True split g by (auto simp: handle_typing_def stands_or_won_def split: if_splits option.splits)
  next
    case False
    then obtain e where verb: "verb \<noteq> []" and e: "find (verb_matches verb) cmd_list = Some e" by auto
    have inv: "player g = Some r" "world_inv r (wld g)" "speeds_ok g" using g by (simp_all add: stands_def)
    obtain act to w where res: "run_typed (tc_cmd e) r arg (wld g) = Some (act, to, w)" "outcome_ok (act, to, w)"
      using run_typed_ok [OF inv(2)] unfolding returns_iff by (metis prod_cases3)
    let ?g = "set_speeds (tc_cmd e) (g\<lparr>player := to, wld := w\<rparr>)"
    have sp: "speeds_ok (g\<lparr>player := to, wld := w\<rparr>)" using inv(3) by (simp add: speeds_ok_def)
    have good: "stands_or_won ?g"
      using stands_outcome [OF g res(2)] stands_set_speeds [of _ "g\<lparr>player := to, wld := w\<rparr>"]
      unfolding stands_or_won_def won_speeds by blast
    have there: "act \<noteq> TC_CHANGE_ROOM \<Longrightarrow> \<exists>r. stands r ?g"
      using good run_typed_truth [of r "wld g" "tc_cmd e" arg] res(1)
      unfolding tells_truth_def by (auto simp: stands_or_won_def game_won_def)
    have step: "(if TC_CHANGE_ROOM = act then Some (True, ?g)
        else if TC_ALLOW_EDIT \<noteq> act then do {
          g \<leftarrow> (if TC_REDRAW_ROOM = act then redraw_room (reset_typed_command ?g) else Some (reset_typed_command ?g));
          Some (False, g) }
        else Some (False, ?g)) = Some (changed, g')"
      using run verb unfolding handle_typing_def split Let_def prod.case e option.case inv(1) Option.bind.simps res(1) by simp
    show ?thesis
    proof (cases "act = TC_CHANGE_ROOM")
      case True
      then show ?thesis using step good by auto
    next
      case False
      then obtain q where q: "stands q ?g" using there by blast
      have resets: "stands q g'" if "(if TC_CHANGE_ROOM = act then Some (True, h)
        else if TC_ALLOW_EDIT \<noteq> act then do {
          g \<leftarrow> (if TC_REDRAW_ROOM = act then redraw_room (reset_typed_command h) else Some (reset_typed_command h));
          Some (False, g) }
        else Some (False, h)) = Some (changed, g')" "stands q h" for h
        using that False reset_stands [OF that(2)] redraw_stands [of q "reset_typed_command h"]
        by (auto simp: bind_eq_Some_conv split: if_splits)
      have "stands q g'" by (rule resets [OF step q])
      then show ?thesis unfolding stands_or_won_def by blast
    qed
  qed
  then show "stands_or_won g'" and "\<not> changed \<Longrightarrow> \<exists>r. stands r g'" by blast+
qed

lemma move_player_stands:
  assumes g: "stands r g" and go: "returns (go r (wld g)) outcome_ok"
  shows "\<exists>g'. move_player go g = Some g' \<and> stands_or_won g'"
proof -
  obtain act to w where res: "go r (wld g) = Some (act, to, w)" "outcome_ok (act, to, w)"
    using go(1) unfolding returns_iff by (metis prod_cases3)
  have "player g = Some r" using g by (simp add: stands_def)
  then have "move_player go g = Some (g\<lparr>player := to, wld := w, enter_room := (TC_CHANGE_ROOM = act)\<rparr>)"
    by (simp add: move_player_def res(1))
  then show ?thesis using stands_outcome [OF g res(2)] by simp
qed

lemmas moves_ok = try_to_move_left_ok try_to_move_right_ok try_to_enter_ok

text \<open>The commands that neither scroll nor are typed return in every run.\<close>

lemma plain_commands_return:
  assumes g: "stands r g" and "cmd \<in> {CMD_NONE, CMD_QUIT, CMD_MOVE_LEFT, CMD_ENTER, CMD_MOVE_RIGHT}"
  shows "\<exists>g'. run_command cmd g = Some g'"
proof -
  have "world_inv r (wld g)" using g by (simp add: stands_def)
  then show ?thesis
    using assms(2) move_player_stands [OF g, of try_to_move_left] move_player_stands [OF g, of try_to_move_right]
      move_player_stands [OF g, of try_to_enter] moves_ok [of r "wld g"] by (auto simp: run_command_def)
qed

lemma run_command_stands:
  assumes g: "stands r g" and run: "run_command cmd g = Some g'"
  shows "stands_or_won g'"
proof -
  have inv: "world_inv r (wld g)" using g by (simp add: stands_def)
  have mv: "move_player go g = Some g' \<Longrightarrow> returns (go r (wld g)) outcome_ok \<Longrightarrow> stands_or_won g'" for go
    using move_player_stands [OF g, of go] by auto
  have here: "stands r g' \<Longrightarrow> stands_or_won g'" by (auto simp: stands_or_won_def)
  show ?thesis
  proof (cases cmd)
    case CMD_TYPED
    then obtain changed g1 where "handle_typing g = Some (changed, g1)" "g' = (if changed then g1\<lparr>enter_room := True\<rparr> else g1)"
      using run by (auto simp: run_command_def bind_eq_Some_conv)
    then show ?thesis using handle_typing_stands(1) [OF g] by (auto split: if_splits)
  qed (use run mv moves_ok [OF inv] here scroll_stands [OF g] g in \<open>auto simp: run_command_def\<close>)
qed

lemma keyboard_step_stands:
  assumes g: "stands r g" and run: "keyboard_step chars g = Some (cond, rest, g')"
  shows "cond = Playing \<Longrightarrow> \<exists>r. stands r g'" and "cond = GAME_WON \<Longrightarrow> game_won g'"
    and "cond = GAME_QUIT \<longleftrightarrow> 96 \<in> set chars"
proof -
  obtain cmd rest' k where read: "get_kb_cmd chars (keys g) = (cmd, rest', k)" by (metis prod_cases3)
  have ko: "typed_ok (typing (keys g))" "state (keys g) \<le> 3" using g by (auto simp: stands_def keys_ok_def)
  have k: "typed_ok (typing k)" "state k \<le> 3" "cmd = CMD_QUIT \<longleftrightarrow> 96 \<in> set chars"
    using kb_loop_ok [of "keys g\<lparr>pushed := CMD_NONE\<rparr>" chars cmd rest' k] ko read by (simp_all add: get_kb_cmd_def)
  have gk: "stands r (g\<lparr>keys := k\<rparr>)" by (rule stands_keys [OF g k(1,2)])
  have "(cond = Playing \<longrightarrow> (\<exists>r. stands r g')) \<and> (cond = GAME_WON \<longrightarrow> game_won g') \<and> (cond = GAME_QUIT \<longleftrightarrow> 96 \<in> set chars)"
  proof (cases "cmd = CMD_QUIT")
    case True
    then show ?thesis using run read k(3) by (simp add: keyboard_step_def)
  next
    case False
    then obtain g1 where 1: "run_command cmd (g\<lparr>keys := k\<rparr>) = Some g1"
        "cond = (if player g1 = None then GAME_WON else Playing)" "g' = g1"
      using run read by (auto simp: keyboard_step_def bind_eq_Some_conv)
    have "player g1 = None \<Longrightarrow> game_won g1" "player g1 \<noteq> None \<Longrightarrow> \<exists>r. stands r g1"
      using run_command_stands [OF gk 1(1)] by (auto simp: stands_or_won_def stands_def game_won_def)
    then show ?thesis using 1(2,3) False k(3) by (auto split: if_splits)
  qed
  then show "cond = Playing \<Longrightarrow> \<exists>r. stands r g'" and "cond = GAME_WON \<Longrightarrow> game_won g'"
    and "cond = GAME_QUIT \<longleftrightarrow> 96 \<in> set chars" by blast+
qed

lemma tux_step_stands:
  assumes g: "stands r g" and run: "tux_step tux_input g = Some g'"
  shows "\<exists>r. stands r g'"
proof -
  obtain cmd btns where b: "get_tux_cmd tux_input (curr_btns g) = (cmd, btns)" by fastforce
  have g1: "stands r (g\<lparr>curr_btns := btns\<rparr>)" using g by (simp add: stands_def speeds_ok_def keys_ok_def)
  have 1: "run_command cmd (g\<lparr>curr_btns := btns\<rparr>) = Some g'" using run b by (simp add: tux_step_def)
  have "player g' \<noteq> None"
    using run_command_stays [OF _ _ 1] tux_never_types [OF b] g by (simp add: stands_def)
  then show ?thesis using run_command_stands [OF g1 1] by (auto simp: stands_or_won_def game_won_def)
qed

text \<open>The keys and buttons of the commands that always return.\<close>

lemma keyboard_plain:
  assumes g: "stands r g"
    and "fst (get_kb_cmd chars (keys g)) \<in> {CMD_NONE, CMD_QUIT, CMD_MOVE_LEFT, CMD_ENTER, CMD_MOVE_RIGHT}"
  shows "\<exists>cond rest g'. keyboard_step chars g = Some (cond, rest, g')"
proof -
  obtain cmd rest k where read: "get_kb_cmd chars (keys g) = (cmd, rest, k)" by (metis prod_cases3)
  have "typed_ok (typing (keys g))" "state (keys g) \<le> 3" using g by (auto simp: stands_def keys_ok_def)
  then have "typed_ok (typing k)" "state k \<le> 3"
    using kb_loop_ok [of "keys g\<lparr>pushed := CMD_NONE\<rparr>" chars cmd rest k] read by (simp_all add: get_kb_cmd_def)
  then have "\<exists>g'. run_command cmd (g\<lparr>keys := k\<rparr>) = Some g'"
    using plain_commands_return [OF stands_keys [OF g]] assms(2) read by simp
  then show ?thesis using read by (auto simp: keyboard_step_def Let_def)
qed

lemma tux_plain:
  assumes g: "stands r g"
    and "fst (get_tux_cmd tux_input (curr_btns g)) \<in> {CMD_NONE, CMD_MOVE_LEFT, CMD_ENTER, CMD_MOVE_RIGHT}"
  shows "\<exists>g'. tux_step tux_input g = Some g'"
proof -
  obtain cmd btns where b: "get_tux_cmd tux_input (curr_btns g) = (cmd, btns)" by fastforce
  have "stands r (g\<lparr>curr_btns := btns\<rparr>)" using g by (simp add: stands_def speeds_ok_def keys_ok_def)
  from plain_commands_return [OF this, of cmd] show ?thesis using b assms(2) by (auto simp: tux_step_def)
qed

section \<open>Frames\<close>

text \<open>A frame is drawn in every run, and when a new room waits the window shows it afterwards.\<close>

lemma frame_split:
  assumes g: "stands r g"
  shows "\<exists>g1. draw_new_room g = Some g1 \<and> stands r g1 \<and> \<not> enter_room g1 \<and> wld g1 = wld g
    \<and> (enter_room g \<longrightarrow> in_room r g1)"
proof (cases "enter_room g")
  case True
  then have "in_room r g" using g by (simp add: in_room_stands)
  from draw_new_room_ok [OF this] show ?thesis by (auto simp: in_room_stands)
next
  case False
  then show ?thesis using g by (simp add: draw_new_room_def)
qed

lemma shown_stands:
  "stands r g \<Longrightarrow> stands r (g\<lparr>scr := add_status_bar_to_screen buff (show_screen (scr g)), tux_led := t\<rparr>)"
  using page_ok_show_screen [of "scr g"] by (simp add: stands_def speeds_ok_def keys_ok_def fits_view_def page_ok_def)

lemma frame_stands:
  assumes g: "stands r g"
  shows "message_ok (status_msg (wld g)) \<Longrightarrow> \<exists>g'. frame seconds g = Some g'"
    and "frame seconds g = Some g' \<Longrightarrow> stands r g' \<and> \<not> enter_room g' \<and> (enter_room g \<longrightarrow> window_current g')"
proof -
  obtain g1 where 1: "draw_new_room g = Some g1" "stands r g1" "\<not> enter_room g1" "wld g1 = wld g"
      "enter_room g \<longrightarrow> in_room r g1" using frame_split [OF g] by blast
  have inv: "player g1 = Some r" "world_inv r (wld g1)" "typed_ok (typing (keys g1))"
    using 1(2) by (simp_all add: stands_def keys_ok_def)
  obtain name where name: "room_name r (wld g1) = Some name" "message_ok name" using room_names [OF inv(2)] by blast
  show "\<exists>g'. frame seconds g = Some g'" if msg: "message_ok (status_msg (wld g))"
  proof -
    have "length (status_msg (wld g)) < 40" "ascii (status_msg (wld g))" "length name < 40" "ascii name"
      "length (typing (keys g1)) \<le> 20" "ascii (typing (keys g1))"
      using msg name(2) typed_ascii [OF inv(3)] by (simp_all add: message_ok_def)
    from create_status_bar_draws [OF this] obtain buff where
      "create_status_bar (status_msg (wld g)) name (typing (keys g1)) = Some buff" by blast
    then show ?thesis using 1(1) name(1) inv(1) 1(4) by (simp add: frame_def draw_status_bar_def get_typed_command_def)
  qed
  assume "frame seconds g = Some g'"
  then obtain buff where g': "g' = g1\<lparr>scr := add_status_bar_to_screen buff (show_screen (scr g1)), tux_led := display_time_on_tux seconds\<rparr>"
    using 1(1) by (auto simp: frame_def draw_status_bar_def bind_eq_Some_conv)
  have "stands r g'" unfolding g' by (rule shown_stands [OF 1(2)])
  moreover have "in_room r g1 \<Longrightarrow> in_room r g'" unfolding g' by (rule shown_in_room(2)) (use 1(3) in auto)
  moreover have "\<not> enter_room g'" using 1(3) by (simp add: g')
  ultimately show "stands r g' \<and> \<not> enter_room g' \<and> (enter_room g \<longrightarrow> window_current g')"
    using 1(5) in_room_current by blast
qed

section \<open>The invariant of all runs\<close>

lemma stands_clear: "stands r g \<Longrightarrow> stands r (clear_status g)"
  by (simp add: clear_status_def stands_def world_inv_msg speeds_ok_def keys_ok_def)

lemma run_stands:
  assumes "readable files"
  shows "run files g \<Longrightarrow> \<exists>r. stands r g"
proof (induction rule: run.induct)
  case (start g g')
  then show ?case using start_game_ok [OF assms start(1)] by (auto simp: in_room_stands)
qed (use frame_stands(2) keyboard_step_stands(1) tux_step_stands stands_clear in \<open>blast+\<close>)

section \<open>A scroll in the wrong room\<close>

text \<open>After a move, and before the frame that draws the new room, the height of the new room's photo
  limits a scroll while the lines still come from the old one.  When the window would end below the old
  photo, the first line that is drawn is read past its end.\<close>

lemma fill_below_photo:
  assumes "r_view (room w q) = Some v" and "length (p_img v) = nat (photo_width v * photo_height v)"
    and "0 \<le> x" and "x < photo_width v" and "photo_height v \<le> y" and "0 \<le> photo_height v"
  shows "fill_horiz_buffer q w x y = None"
proof -
  have "photo_width v * photo_height v \<le> photo_width v * y" using assms(3-5) by (intro mult_left_mono) auto
  then have "fetch (p_img v) (photo_width v * y + x + 0) = None"
    using assms(2,3) by (simp add: fetch_def)
  moreover have "(320 :: nat) = Suc 319" by simp
  ultimately have "fill_loop (\<lambda>idx. if 0 \<le> x + idx \<and> photo_width v > x + idx
      then fetch (p_img v) (photo_width v * y + x + idx) else Some 0) 0 320 = None"
    using assms(3,4) by (simp only: fill_loop.simps) simp
  then show ?thesis by (simp add: fill_horiz_buffer_def room_photo_def assms(1))
qed

lemma scroll_past_old_photo:
  assumes g: "fits_view (scr g)" "speeds_ok g" "player g = Some r" "cur_room g = Some q"
    and new: "r_view (room (wld g) r) = Some v'" "uint (map_y g) + 182 < photo_height v'" "photo_height v' \<le> 1024"
    and old: "r_view (room (wld g) q) = Some v" "length (p_img v) = nat (photo_width v * photo_height v)"
      "0 \<le> photo_height v" "uint (map_x g) < photo_width v" "photo_width v \<le> 1024"
    and below: "photo_height v \<le> uint (map_y g) + min (y_speed g) (photo_height v' - 182 - uint (map_y g)) + 181"
  shows "run_command CMD_DOWN g = None"
proof -
  define d where "d = min (y_speed g) (photo_height v' - 182 - uint (map_y g))"
  have s: "y_speed g \<in> {2, 6}" using g(2) by (auto simp: speeds_ok_def)
  have room: "uint (map_y g) + 182 \<le> photo_height v'" using new(2) by simp
  have delta: "sint (word_of_int (photo_height v' - 182) - map_y g) = photo_height v' - 182 - uint (map_y g)"
    by (rule forward_delta [OF room new(3)]) simp
  have pick: "(if y_speed g > photo_height v' - 182 - uint (map_y g) then photo_height v' - 182 - uint (map_y g) else y_speed g) = d"
    by (simp add: min_def d_def)
  have d: "1 \<le> d" "d \<le> 6" using s new(2) by (auto simp: d_def min_def)
  have y: "sint (map_y g + word_of_int d) = uint (map_y g) + d"
    using word_move(2) [of "map_y g" d] d new(3) room by simp
  have x: "sint (map_x g) = uint (map_x g)" by (rule sint_small) (use old(4,5) in simp)
  obtain m where m: "set_view_window (uint (map_x g)) (uint (map_y g) + d) (scr g) = Some m"
      "show_x m = uint (map_x g)" "show_y m = uint (map_y g) + d"
    using set_view_window_keeps [OF g(1)] by blast
  let ?g = "g\<lparr>map_y := map_y g + word_of_int d\<rparr>"
  have "fill_horiz_buffer q (wld g) (uint (map_x g)) (181 + (uint (map_y g) + d)) = None"
    by (rule fill_below_photo [OF old(1,2) _ old(4) _ old(3)]) (use below in \<open>simp_all add: d_def\<close>)
  then have "draw_horiz_line (horiz_line ?g) 181 m = None"
    by (simp add: draw_horiz_line_def horiz_line_def g(4) m(2,3) Let_def)
  moreover have "map (\<lambda>idx. 182 - int idx) [1..<nat (d + 1)] = 181 # map (\<lambda>idx. 182 - int idx) [2..<nat (d + 1)]"
    using d(1) upt_conv_Cons [of 1 "nat (d + 1)"] by (simp add: numeral_2_eq_2 del: upt_Suc)
  ultimately have "draw_lines (draw_horiz_line (horiz_line ?g)) (map (\<lambda>idx. 182 - int idx) [1..<nat (d + 1)]) m = None"
    by simp
  moreover have h: "room_photo_height r (wld g) = Some (photo_height v')" using new(1) by (simp add: room_photo_height_def)
  ultimately have "move_photo_up g = None"
    unfolding move_photo_up_def g(3) Option.bind.simps h Let_def delta pick
    using x y m(1) by (simp del: upt_Suc One_nat_def)
  then show ?thesis by (simp add: run_command_def)
qed

end
