(* ===== verification/GameProps.thy ===== *)
theory GameProps
  imports Walkthrough FreeRuns
begin

text \<open>
  What the game guarantees over all its runs: the invariant, that its steps never fail, that a won game is
  a completed one, and what a frame shows.
\<close>

section \<open>A set of files that can be read\<close>

text \<open>Black photos of the size of the window, and empty object images.\<close>

definition sample_files :: files where
  "sample_files name = Some (if last name = CHR ''j'' then header_bytes \<lparr>width = 0, height = 0\<rparr>
     else header_bytes \<lparr>width = 320, height = 182\<rparr> @ concat (map (\<lambda>ps. concat (map le16 ps)) (replicate 182 (replicate 320 0))))"

lemma sample_photo: "last name \<noteq> CHR ''j'' \<Longrightarrow> has_photo (read_photo (sample_files name))"
proof -
  assume name: "last name \<noteq> CHR ''j''"
  let ?rows = "replicate 182 (replicate 320 (0 :: 16 word))"
  have "read_photo (sample_files name) = Some \<lparr>p_hdr = \<lparr>width = 320, height = 182\<rparr>, p_img = concat (map (map color_222) (rev ?rows))\<rparr>"
    using read_photo_rows [of ?rows 320 "[]"] name by (simp add: sample_files_def)
  with read_photo_ok [OF this] show ?thesis by (simp add: has_photo_def photo_width_def photo_height_def)
qed

lemma sample_image: "last name = CHR ''j'' \<Longrightarrow> read_obj_image (sample_files name) \<noteq> None"
  using read_obj_image_rows [of "[]" 0 "[]"] by (simp add: sample_files_def)

lemma sample_readable: "readable sample_files"
proof -
  have "list_all (\<lambda>d. last (rd_filename d) \<noteq> CHR ''j'') room_data" by code_simp
  moreover have "list_all (\<lambda>d. last (od_filename d) = CHR ''j'') obj_data" by code_simp
  moreover have "list_all (\<lambda>d. last (sd_filename d) \<noteq> CHR ''j'') swap_data" by code_simp
  ultimately show ?thesis
    using sample_photo sample_image unfolding readable_def list_all_iff by blast
qed

text \<open>A game before it starts.\<close>

definition blank_game :: game where
  "blank_game = \<lparr>player = None, map_x = 0, map_y = 0, x_speed = 0, y_speed = 0, enter_room = False, cur_room = None,
     wld = \<lparr>room = (\<lambda>_. no_room), object = (\<lambda>_. no_object), player_flags = (\<lambda>_. 0), swap_photo = (\<lambda>_. None), status_msg = [],
       randoms = (\<lambda>_. 0), draws = 0\<rparr>,
     scr = \<lparr>build = (\<lambda>_. 0), img3_off = 0, show_x = 0, show_y = 0, target_img = 0, video = (\<lambda>_ _. 0), start_address = 0\<rparr>,
     keys = \<lparr>state = 0, typing = [], pushed = CMD_NONE\<rparr>, curr_btns = [], tux_led = 0\<rparr>"

lemma blank_fresh: "fresh_game blank_game" and blank_keys: "keys_ok blank_game"
  by (simp_all add: blank_game_def fresh_game_def keys_ok_def)

lemma sample_rests: "\<exists>g. reachable sample_files g \<and> resting start_tale g"
  by (rule start_rests [OF sample_readable blank_fresh])

section \<open>The invariant\<close>

text \<open>C25: In every run of the game (frames, keys, the controller and the status thread in any order), the player is in
  a room of a well-formed world: each object is in at most one place and each list of objects ends, the rooms have their
  names, photos and exits, and the story is kept (no Tux without a fish, no car without a key).  The logical
  window lies in the build buffer, the speeds are 2 or 6, and at most 20 valid characters are typed.  A frame that
  finds a new room waiting leaves the picture of the player's room in the window.  When, moreover, a frame was drawn
  between any two commands that change the room (\<open>reachable\<close>), the window holds that picture whenever no room waits;
  in the other runs it may not (C32).\<close>

theorem game_invariant:
  assumes "readable files" and "run files g"
  shows "(\<exists>r. player g = Some r \<and> is_room r \<and> world_inv r (wld g) \<and> fits_view (scr g) \<and> page_ok (scr g)
      \<and> x_speed g \<in> {2, 6} \<and> y_speed g \<in> {2, 6} \<and> typed_ok (typing (keys g)))
    \<and> (\<forall>seconds g'. enter_room g \<and> frame seconds g = Some g' \<longrightarrow>
        (\<exists>r v objs. player g' = Some r \<and> window_shows g' r v objs))
    \<and> (reachable files g \<longrightarrow> enter_room g \<or> (\<exists>r v objs. player g = Some r \<and> window_shows g r v objs))"
proof -
  obtain r where r: "stands r g" using run_stands [OF assms] by blast
  have "\<exists>r v objs. player g' = Some r \<and> window_shows g' r v objs"
    if "enter_room g" "frame seconds g = Some g'" for seconds g'
    using frame_stands(2) [OF r that(2)] that(1) by (auto simp: window_current_def)
  moreover have "enter_room g \<or> (\<exists>r v objs. player g = Some r \<and> window_shows g r v objs)" if "reachable files g"
    using game_reachable_ok [OF assms(1) that] by (auto simp: game_ok_def in_room_def)
  ultimately show ?thesis
    using r world_invD(3) [of r "wld g"] by (auto simp: stands_def speeds_ok_def keys_ok_def)
qed

theorem game_invariant_witness:
  "\<exists>g r v objs. reachable sample_files g \<and> player g = Some r \<and> r = R_EAST_EVRT \<and> world_inv r (wld g) \<and> window_shows g r v objs"
proof -
  obtain g where g: "reachable sample_files g" "resting start_tale g" using sample_rests by blast
  then have r: "player g = Some R_EAST_EVRT" "\<not> enter_room g"
    by (simp_all add: resting_def in_room_def start_tale_def start_in_room_def)
  from game_invariant [OF sample_readable reachable_run [OF g(1)]] show ?thesis using g(1) r by auto
qed

section \<open>Progress\<close>

text \<open>C27: Which steps return, in every run of the game.  A frame is drawn whenever the status message is shorter
  than 40 characters.  The commands that neither scroll nor are typed return.  All commands of the keyboard and of the
  controller return when no new room waits and the window shows the player's room, as it does in the runs with a frame
  between two commands (C25); outside these states a scroll may read past the old room's photo
  (lemma \<open>scroll_past_old_photo\<close>).  The keyboard quits exactly when a backquote is among the characters, and the
  controller never ends the game.\<close>

theorem steps_return:
  assumes "readable files" and "run files g"
  shows "(message_ok (status_msg (wld g)) \<longrightarrow> (\<exists>g'. frame seconds g = Some g' \<and> \<not> enter_room g'))
    \<and> (fst (get_kb_cmd chars (keys g)) \<in> {CMD_NONE, CMD_QUIT, CMD_MOVE_LEFT, CMD_ENTER, CMD_MOVE_RIGHT} \<or> window_current g \<longrightarrow>
        (\<exists>cond rest g'. keyboard_step chars g = Some (cond, rest, g')))
    \<and> (\<forall>cond rest g'. keyboard_step chars g = Some (cond, rest, g') \<longrightarrow> (cond = GAME_QUIT \<longleftrightarrow> 96 \<in> set chars))
    \<and> (fst (get_tux_cmd tux_input (curr_btns g)) \<in> {CMD_NONE, CMD_MOVE_LEFT, CMD_ENTER, CMD_MOVE_RIGHT} \<or> window_current g \<longrightarrow>
        (\<exists>g'. tux_step tux_input g = Some g'))
    \<and> (\<forall>g'. tux_step tux_input g = Some g' \<longrightarrow> player g' \<noteq> None)"
proof -
  obtain r where r: "stands r g" using run_stands [OF assms] by blast
  have cur: "window_current g \<Longrightarrow> in_room r g \<and> \<not> enter_room g"
    using window_current_in_room [OF r] by (simp add: window_current_def)
  have frame: "\<exists>g'. frame seconds g = Some g' \<and> \<not> enter_room g'" if "message_ok (status_msg (wld g))"
    using frame_stands [OF r] that by blast
  have kb: "\<exists>cond rest g'. keyboard_step chars g = Some (cond, rest, g')"
    if "fst (get_kb_cmd chars (keys g)) \<in> {CMD_NONE, CMD_QUIT, CMD_MOVE_LEFT, CMD_ENTER, CMD_MOVE_RIGHT} \<or> window_current g"
    using that keyboard_plain [OF r, of chars] keyboard_step_ok [of r g chars] cur by metis
  have tux: "\<exists>g'. tux_step tux_input g = Some g'"
    if "fst (get_tux_cmd tux_input (curr_btns g)) \<in> {CMD_NONE, CMD_MOVE_LEFT, CMD_ENTER, CMD_MOVE_RIGHT} \<or> window_current g"
    using that tux_plain [OF r, of tux_input] tux_step_ok [of r g tux_input] cur by blast
  have "player g' \<noteq> None" if "tux_step tux_input g = Some g'" for g'
    using tux_step_stands [OF r that] by (auto simp: stands_def)
  then show ?thesis using frame kb tux keyboard_step_stands(3) [OF r] by blast
qed

theorem steps_return_witness:
  "\<exists>g rest g' h i. keyboard_step [96] g = Some (GAME_QUIT, rest, g') \<and> tux_step 0x7F g = Some h \<and> frame 5 (clear_status g) = Some i"
proof -
  obtain g where g: "reachable sample_files g" "resting start_tale g" using sample_rests by blast
  then have "window_current g" using in_room_current by (auto simp: resting_def)
  with steps_return [OF sample_readable reachable_run [OF g(1)], of 5 "[96]" "0x7F"]
  have "\<exists>rest g'. keyboard_step [96] g = Some (GAME_QUIT, rest, g')" "\<exists>h. tux_step 0x7F g = Some h" by auto
  moreover have "message_ok (status_msg (wld (clear_status g)))" by (simp add: clear_status_def message_ok_def ascii_def)
  with steps_return [OF sample_readable run.timeout [OF reachable_run [OF g(1)]], of 5 "[]" 0]
  have "\<exists>i. frame 5 (clear_status g) = Some i" by blast
  ultimately show ?thesis by blast
qed

section \<open>Winning\<close>

lemma winning_run:
  assumes "readable files"
  shows "\<exists>g g'. reachable files g \<and> \<not> enter_room g
    \<and> keyboard_step (deed_bytes (Line ''do mp2'')) g = Some (GAME_WON, [], g')"
proof -
  obtain g where g: "reachable files g" "resting start_tale g" using start_rests [OF assms blank_fresh] by blast
  obtain t where t: "tale_run (chapter_1 @ chapter_2 @ chapter_3 @ chapter_4) start_tale = Some t" "tale_won t"
    using walkthrough_runs by (auto split: option.splits)
  obtain g' where g': "reachable files g'" "resting t g'" using deeds_run [OF g t(1)] by blast
  then have "\<not> enter_room g'" by (simp add: resting_def)
  then show ?thesis using won_deed [OF g'(2) t(2)] g'(1) by blast
qed

text \<open>C24: The game can be won: from the start, with any readable files, there is a sequence of keys, each drawn by a frame,
  after which typing \<open>do mp2\<close> wins.  The sequence is the walkthrough of the theory \<open>Tale\<close>.\<close>

theorem game_can_be_won:
  assumes "readable files"
  shows "\<exists>g g'. reachable files g \<and> keyboard_step (deed_bytes (Line ''do mp2'')) g = Some (GAME_WON, [], g')"
  using winning_run [OF assms] by blast

theorem game_can_be_won_witness:
  "\<exists>g g'. reachable sample_files g
    \<and> keyboard_step [100, 111, 32, 109, 112, 50, 10] g = Some (GAME_WON, [], g')"
proof -
  have "deed_bytes (Line ''do mp2'') = [100, 111, 32, 109, 112, 50, 10]" by code_simp
  then show ?thesis using game_can_be_won [OF sample_readable] by simp
qed

text \<open>C26: A game is won only by a player who has eaten, wears the bunny suit, has opened and repaired the car and has lured
  Tux, in whatever order the threads have acted.\<close>

theorem winning_needs_everything:
  assumes "readable files" and "run files g" and "keyboard_step chars g = Some (GAME_WON, rest, g')"
  shows "flags (wld g') FLAG_HAS_EATEN \<and> flags (wld g') FLAG_WEARING_SUIT \<and> flags (wld g') FLAG_CAR_OPEN
    \<and> flags (wld g') FLAG_CAR_FIXED \<and> flags (wld g') FLAG_LURED_TUX \<and> player g' = None"
proof -
  obtain r where r: "stands r g" using run_stands [OF assms(1,2)] by blast
  from keyboard_step_stands(2) [OF r assms(3)] show ?thesis by (simp add: game_won_def all_done_def)
qed

theorem winning_needs_everything_witness:
  "\<exists>g g'. keyboard_step (deed_bytes (Line ''do mp2'')) g = Some (GAME_WON, [], g')
    \<and> flags (wld g') FLAG_HAS_EATEN \<and> flags (wld g') FLAG_LURED_TUX"
proof -
  obtain g g' where g: "reachable sample_files g" "\<not> enter_room g"
      "keyboard_step (deed_bytes (Line ''do mp2'')) g = Some (GAME_WON, [], g')"
    using winning_run [OF sample_readable] by blast
  from winning_needs_everything [OF sample_readable reachable_run [OF g(1)] g(3)] g(3) show ?thesis by blast
qed

end
