(* ===== verification/DisplayProps.thy ===== *)
theory DisplayProps
  imports GameProps
begin

text \<open>
  What the player sees and does: scrolling, the frame, the steps of the story at the keyboard, and two
  ways in which the display goes wrong.
\<close>

section \<open>The story at the keyboard\<close>

text \<open>C28: Where the abstract story has a step, the keyboard has it too: pressing the key, or typing the line and return, in a
  resting game returns without ending the game, and then the player, the objects, the accomplishments
  and the way out of the cockpit are those of the next state of the story.\<close>

theorem story_steps:
  assumes "resting t g" and "tale_step d t = Some t'"
  shows "\<exists>g'. keyboard_step (deed_bytes d) g = Some (Playing, [], g') \<and> player g' = Some (t_room t')
    \<and> loc_of (wld g') = t_loc t' \<and> flags (wld g') = t_done t' \<and> r_enter (room (wld g') R_COCKPIT) = t_cockpit t'"
  using deed_step [OF assms] followsD(3-5) by (auto simp: after_deed_def in_room_def)

theorem story_steps_witness:
  "\<exists>g g'. reachable sample_files g \<and> keyboard_step [27, 91, 50, 126] g = Some (Playing, [], g') \<and> player g' = Some R_ALMAMATER
     \<and> loc_of (wld g') O_BUNNYSUIT = Some R_ALMAMATER"
proof -
  obtain g where g: "reachable sample_files g" "resting start_tale g" using sample_rests by blast
  have "map_option (\<lambda>t. (t_room t, t_loc t O_BUNNYSUIT)) (tale_step (Press CMD_MOVE_LEFT) start_tale) = Some (R_ALMAMATER, Some R_ALMAMATER)"
    by code_simp
  then obtain t where t: "tale_step (Press CMD_MOVE_LEFT) start_tale = Some t" "t_room t = R_ALMAMATER" "t_loc t O_BUNNYSUIT = Some R_ALMAMATER"
    by auto
  have "deed_bytes (Press CMD_MOVE_LEFT) = [27, 91, 50, 126]" by code_simp
  with story_steps [OF g(2) t(1)] g(1) t(2,3) show ?thesis by auto
qed

section \<open>Scrolling\<close>

text \<open>C30: Each of the four moves of the photo returns, keeps the window equal to the picture of the room, and moves it by the
  speed, but not past the edges of the photo; the world and the other coordinate stay.\<close>

theorem scroll_keeps_picture:
  assumes "readable files" and "reachable files g" and "\<not> enter_room g"
  shows "\<exists>r v objs. player g = Some r \<and> window_shows g r v objs
    \<and> (\<exists>g'. move_photo_down g = Some g' \<and> window_shows g' r v objs \<and> wld g' = wld g
          \<and> uint (map_x g') = uint (map_x g) \<and> uint (map_y g') = max 0 (uint (map_y g) - y_speed g))
    \<and> (\<exists>g'. move_photo_up g = Some g' \<and> window_shows g' r v objs \<and> wld g' = wld g
          \<and> uint (map_x g') = uint (map_x g) \<and> uint (map_y g') = min (photo_height v - 182) (uint (map_y g) + y_speed g))
    \<and> (\<exists>g'. move_photo_right g = Some g' \<and> window_shows g' r v objs \<and> wld g' = wld g
          \<and> uint (map_x g') = max 0 (uint (map_x g) - x_speed g) \<and> uint (map_y g') = uint (map_y g))
    \<and> (\<exists>g'. move_photo_left g = Some g' \<and> window_shows g' r v objs \<and> wld g' = wld g
          \<and> uint (map_x g') = min (photo_width v - 320) (uint (map_x g) + x_speed g) \<and> uint (map_y g') = uint (map_y g))"
proof -
  obtain r where r: "in_room r g" using game_reachable_ok [OF assms(1,2)] by (auto simp: game_ok_def)
  then obtain v objs where w: "window_shows g r v objs" using assms(3) by (auto simp: in_room_def)
  have g: "fits_view (scr g)" "speeds_ok g" "player g = Some r" using r by (simp_all add: in_room_def)
  show ?thesis
    using move_photo_down_scrolls [OF w g(1,2)] move_photo_up_scrolls [OF w g] move_photo_right_scrolls [OF w g(1,2)]
      move_photo_left_scrolls [OF w g] w g(3)
    unfolding scrolls_to_def scrolled_def by blast
qed

theorem scroll_keeps_picture_witness:
  "\<exists>g g' g''. reachable sample_files g \<and> move_photo_left g = Some g' \<and> move_photo_up g = Some g'' \<and> wld g' = wld g \<and> wld g'' = wld g"
proof -
  obtain g where g: "reachable sample_files g" "resting start_tale g" using sample_rests by blast
  then have "\<not> enter_room g" by (simp add: resting_def)
  from scroll_keeps_picture [OF sample_readable g(1) this] show ?thesis using g(1) by blast
qed

section \<open>The frame\<close>

text \<open>C29: After a frame, every pixel of the screen below the status bar shows the picture of the player's room at the
  window's place: the uppermost opaque object there, or else the photo.  The status bar above shows the status message,
  or else the room's name and the typed text, drawn with the font; and the controller displays the time.\<close>

theorem frame_displays:
  assumes "readable files" and "reachable files g" and "message_ok (status_msg (wld g))"
  shows "\<exists>g' r v objs name. frame seconds g = Some g' \<and> player g' = Some r \<and> wld g' = wld g
    \<and> room_shows r (wld g) v objs \<and> room_name r (wld g) = Some name
    \<and> (\<forall>x y. 0 \<le> x \<and> x < 320 \<and> 0 \<le> y \<and> y < 182 \<longrightarrow>
         on_screen (scr g') x y = picture_at (wld g) v objs (uint (map_x g') + x) (uint (map_y g') + y))
    \<and> (\<forall>x y. 0 \<le> x \<and> x < 320 \<and> 0 \<le> y \<and> y < 18 \<longrightarrow>
         on_bar (scr g') x y =
           (if text_lit (bar_text (status_msg (wld g)) name (typing (keys g'))) (bar_offset (status_msg (wld g))) x y then 63 else 0))
    \<and> tux_led g' = display_time_on_tux seconds"
proof -
  obtain r where r: "in_room r g" using game_reachable_ok [OF assms(1,2)] by (auto simp: game_ok_def)
  obtain g' where g': "frame seconds g = Some g'" "in_room r g'" "wld g' = wld g" "tux_led g' = display_time_on_tux seconds"
      "frame_shows g r g'" using frame_ok [OF r assms(3)] by blast
  obtain v objs name where f: "window_shows g' r v objs" "room_name r (wld g') = Some name"
     "\<forall>x y. 0 \<le> x \<and> x < 320 \<and> 0 \<le> y \<and> y < 182 \<longrightarrow>
          on_screen (scr g') x y = picture_at (wld g') v objs (uint (map_x g') + x) (uint (map_y g') + y)"
     "\<forall>x y. 0 \<le> x \<and> x < 320 \<and> 0 \<le> y \<and> y < 18 \<longrightarrow>
          on_bar (scr g') x y = (if text_lit (bar_text (status_msg (wld g')) name (typing (keys g'))) (bar_offset (status_msg (wld g'))) x y
             then 63 else 0)"
    using g'(5) unfolding frame_shows_def by blast
  have p: "player g' = Some r" "room_shows r (wld g') v objs" using g'(2) f(1) by (simp_all add: in_room_def window_shows_def)
  show ?thesis
    by (intro exI [of _ g'] exI [of _ r] exI [of _ v] exI [of _ objs] exI [of _ name] conjI)
      (fact g'(1) p(1) g'(3) p(2) [unfolded g'(3)] f(2-4) [unfolded g'(3)] g'(4))+
qed

theorem frame_displays_witness:
  "\<exists>g g' name. reachable sample_files g \<and> frame 61 g = Some g' \<and> room_name R_EAST_EVRT (wld g) = Some name
     \<and> on_bar (scr g') 0 0 = (if text_lit (bar_text (status_msg (wld g)) name (typing (keys g'))) (bar_offset (status_msg (wld g))) 0 0
          then 63 else 0)"
proof -
  obtain g where g: "reachable sample_files g" "resting start_tale g" using sample_rests by blast
  let ?g = "clear_status g"
  have m: "message_ok (status_msg (wld ?g))" by (simp add: clear_status_def message_ok_def ascii_def)
  have c: "reachable sample_files ?g" by (rule reachable.timeout [OF g(1)])
  from frame_displays [OF sample_readable c m, of 61] obtain g' r name where g':
      "frame 61 ?g = Some g'" "player g' = Some r" "room_name r (wld ?g) = Some name"
      "on_bar (scr g') 0 0 =
           (if text_lit (bar_text (status_msg (wld ?g)) name (typing (keys g'))) (bar_offset (status_msg (wld ?g))) 0 0 then 63 else 0)"
    by fastforce
  have "in_room R_EAST_EVRT ?g" using g(2) clear_status_ok by (simp add: resting_def start_tale_def start_in_room_def)
  from frame_in_room [OF this g'(1)] have "r = R_EAST_EVRT" using g'(2) by (simp add: in_room_def)
  with g' c show ?thesis by blast
qed

section \<open>A message of 40 characters\<close>

lemma bar_overflow: "40 \<le> length msg \<Longrightarrow> create_status_bar msg name typed = None"
  by (cases msg) (auto simp: create_status_bar_def print_copy_def)

text \<open>C31: A status message may have 40 characters, and the game shows messages that long, but \<open>create_status_bar\<close> copies it with
  its final NUL into an array of 40: the next frame writes past the end of the array.\<close>

theorem long_message_overflows:
  assumes "readable files" and "reachable files g" and "length (status_msg (wld g)) = 40"
  shows "frame seconds g = None"
proof -
  obtain r where r: "in_room r g" using game_reachable_ok [OF assms(1,2)] by (auto simp: game_ok_def)
  obtain g1 where 1: "draw_new_room g = Some g1" "in_room r g1" "wld g1 = wld g" using draw_new_room_ok [OF r] by blast
  have "player g1 = Some r" using 1(2) by (simp add: in_room_def)
  moreover obtain name where "room_name r (wld g1) = Some name" using room_names [of r "wld g1"] 1(2) by (auto simp: in_room_def)
  ultimately have "draw_status_bar (g1\<lparr>scr := show_screen (scr g1)\<rparr>) = None"
    using bar_overflow assms(3) 1(3) by (simp add: draw_status_bar_def)
  then show ?thesis using 1(1) by (simp add: frame_def)
qed

text \<open>Typing \<open>charge tux\<close> is enough.\<close>

lemma charge_says:
  assumes g: "resting t g"
  shows "\<exists>g'. keyboard_step (deed_bytes (Line ''charge tux'')) g = Some (Playing, [], g') \<and> length (status_msg (wld g')) = 40"
proof -
  have G: "in_room (t_room t) g" "typing (keys g) = []" "state (keys g) = 0"
    using g by (simp_all add: resting_def)
  have told: "typed_ok ''charge tux''" "split_typed ''charge tux'' = (''charge'', ''tux'')"
      "find (verb_matches ''charge'') cmd_list = Some (Typed_cmd ''charge'' 2 TC_CHARGE)" "\<not> same_text ''battery'' ''tux''"
    by code_simp+
  let ?k = "(keys g)\<lparr>pushed := CMD_TYPED, typing := ''charge tux''\<rparr>"
  let ?w = "show_status ''Electronic devices aren't (always) toys!'' (wld g)"
  have "run_typed TC_CHARGE (t_room t) ''tux'' (wld g) = Some (TC_ALLOW_EDIT, Some (t_room t), ?w)"
    using told(4) by (simp add: run_typed_def typed_cmd_charge_def say_def)
  then have "run_command CMD_TYPED (g\<lparr>keys := ?k\<rparr>) = Some (g\<lparr>keys := ?k, player := Some (t_room t), wld := ?w\<rparr>)"
    using told G(1) by (simp add: run_command_def handle_typing_def get_typed_command_def set_speeds_def in_room_def)
  then show ?thesis using line_read [OF told(1) G(3,2)] by (simp add: keyboard_step_def show_status_def)
qed

theorem long_message_overflows_witness:
  "\<exists>g g'. reachable sample_files g \<and> keyboard_step (deed_bytes (Line ''charge tux'')) g = Some (Playing, [], g') \<and> frame 0 g' = None"
proof -
  obtain g where g: "reachable sample_files g" "resting start_tale g" using sample_rests by blast
  obtain g' where g': "keyboard_step (deed_bytes (Line ''charge tux'')) g = Some (Playing, [], g')" "length (status_msg (wld g')) = 40"
    using charge_says [OF g(2)] by blast
  have "\<not> enter_room g" using g(2) by (simp add: resting_def)
  from long_message_overflows [OF sample_readable reachable.keyboard [OF g(1) this g'(1)] g'(2)] show ?thesis using g(1) g'(1) by blast
qed

section \<open>A room that is not drawn\<close>

lemma mover_runs:
  assumes "c \<in> {CMD_MOVE_LEFT, CMD_ENTER, CMD_MOVE_RIGHT}" and "player g = Some r" and "mover c r (wld g) = Some (act, to, w)"
  shows "run_command c g = Some (g\<lparr>player := to, wld := w, enter_room := (TC_CHANGE_ROOM = act)\<rparr>)"
  using assms by (auto simp: run_command_def mover_def move_player_def)

text \<open>C32: Two moves between two frames, such as one of the controller and one of the keyboard, lose the redraw: when the first
  enters another room and the second finds no way on, \<open>enter_room\<close> is cleared again, and the frame still shows the
  room that the player has left.\<close>

theorem redraw_lost:
  assumes "in_room r g" and "\<not> enter_room g" and "c \<in> {CMD_MOVE_LEFT, CMD_ENTER, CMD_MOVE_RIGHT}"
    and "c' \<in> {CMD_MOVE_LEFT, CMD_ENTER, CMD_MOVE_RIGHT}"
    and "mover c r (wld g) = Some (TC_CHANGE_ROOM, Some r', w)" and "mover c' r' w = Some (TC_ALLOW_EDIT, Some r', w')"
  shows "\<exists>g1 g2. run_command c g = Some g1 \<and> run_command c' g1 = Some g2 \<and> player g2 = Some r' \<and> cur_room g2 = Some r
    \<and> \<not> enter_room g2 \<and> draw_new_room g2 = Some g2"
proof -
  let ?g1 = "g\<lparr>player := Some r', wld := w, enter_room := True\<rparr>"
  let ?g2 = "?g1\<lparr>wld := w', enter_room := False\<rparr>"
  have "run_command c g = Some ?g1" using mover_runs [OF assms(3) _ assms(5)] assms(1) by (simp add: in_room_def)
  moreover have "run_command c' ?g1 = Some ?g2" using mover_runs [OF assms(4), of ?g1 r' TC_ALLOW_EDIT "Some r'" w'] assms(6) by simp
  moreover have "cur_room g = Some r" using assms(1,2) by (auto simp: in_room_def window_shows_def)
  ultimately show ?thesis by (auto simp: draw_new_room_def)
qed

text \<open>From \<open>R_BY_COCOMR\<close>, pressing right twice.\<close>

theorem redraw_lost_witness:
  "\<exists>g g1 g2. reachable sample_files g \<and> run_command CMD_MOVE_RIGHT g = Some g1 \<and> run_command CMD_MOVE_RIGHT g1 = Some g2
     \<and> player g2 = Some R_BY_ZAS \<and> cur_room g2 = Some R_BY_COCOMR \<and> \<not> enter_room g2"
proof -
  obtain g0 where g0: "reachable sample_files g0" "resting start_tale g0" using sample_rests by blast
  have "map_option t_room (tale_run [left, right] start_tale) = Some R_BY_COCOMR" by code_simp
  then obtain t where t: "tale_run [left, right] start_tale = Some t" "t_room t = R_BY_COCOMR" by auto
  obtain g where g: "reachable sample_files g" "resting t g" using deeds_run [OF g0 t(1)] by blast
  have R: "in_room R_BY_COCOMR g" "\<not> enter_room g" "world_inv R_BY_COCOMR (wld g)"
    using g(2) t(2) by (simp_all add: resting_def in_room_def)
  have rows: "map_option rd_right (room_row R_BY_COCOMR) = Some R_BY_ZAS" "map_option rd_right (room_row R_BY_ZAS) = Some (R_NONE)"
    by code_simp+
  have exits: "r_right (room (wld g) q) = link (rd_right d)" if "room_row q = Some d" for q d
    using world_invD(5) [OF R(3)] that unfolding complete_def by blast
  have "mover CMD_MOVE_RIGHT R_BY_COCOMR (wld g) = Some (TC_CHANGE_ROOM, Some R_BY_ZAS, wld g)"
    using rows(1) exits [of R_BY_COCOMR] by (auto simp: mover_def try_to_move_right_def go_into_def link_def)
  moreover have "mover CMD_MOVE_RIGHT R_BY_ZAS (wld g)
      = Some (TC_ALLOW_EDIT, Some R_BY_ZAS, show_status ''You can't go that way.'' (wld g))"
    using rows(2) exits [of R_BY_ZAS] by (auto simp: mover_def try_to_move_right_def link_def say_def)
  ultimately show ?thesis
    using redraw_lost [OF R(1,2), of CMD_MOVE_RIGHT CMD_MOVE_RIGHT R_BY_ZAS "wld g"] g(1) by blast
qed

end
