(* ===== verification/WorldProps.thy ===== *)
theory WorldProps
  imports GameProps
begin

text \<open>
  What the operations of the world guarantee: the commands keep it well-formed, and the linked lists of
  objects behave like lists.
\<close>

section \<open>Commands\<close>

text \<open>C33: Every typed command with any argument, and every move, returns in a well-formed world and leaves a
  well-formed world in which the player is in a room that the accomplishments so far allow; only a typed command can
  leave the player in no room, and then the game is complete.\<close>

theorem commands_keep_world:
  assumes "world_inv r w"
  shows "(\<exists>act to w'. run_typed c r arg w = Some (act, to, w') \<and> world_ok w'
        \<and> (case to of Some r' \<Rightarrow> player_ok r' w' | None \<Rightarrow> act = TC_CHANGE_ROOM \<and> all_done w'))
    \<and> (\<exists>act r' w'. try_to_move_left r w = Some (act, Some r', w') \<and> world_inv r' w')
    \<and> (\<exists>act r' w'. try_to_move_right r w = Some (act, Some r', w') \<and> world_inv r' w')
    \<and> (\<exists>act r' w'. try_to_enter r w = Some (act, Some r', w') \<and> world_inv r' w')"
proof (intro conjI)
  show "\<exists>act to w'. run_typed c r arg w = Some (act, to, w') \<and> world_ok w'
      \<and> (case to of Some r' \<Rightarrow> player_ok r' w' | None \<Rightarrow> act = TC_CHANGE_ROOM \<and> all_done w')"
    using run_typed_ok [OF assms, of c arg] by (auto simp: returns_iff outcome_ok_def)
  have stays: "\<exists>act r' w'. m = Some (act, Some r', w') \<and> world_inv r' w'"
    if "returns m outcome_ok" "\<And>act to w'. m = Some (act, to, w') \<Longrightarrow> to \<noteq> None" for m
    using that by (fastforce simp: returns_iff outcome_ok_def world_inv_def)
  show "\<exists>act r' w'. try_to_move_left r w = Some (act, Some r', w') \<and> world_inv r' w'"
    by (rule stays [OF try_to_move_left_ok [OF assms]]) (rule moves_stay_in_world)
  show "\<exists>act r' w'. try_to_move_right r w = Some (act, Some r', w') \<and> world_inv r' w'"
    by (rule stays [OF try_to_move_right_ok [OF assms]]) (rule moves_stay_in_world)
  show "\<exists>act r' w'. try_to_enter r w = Some (act, Some r', w') \<and> world_inv r' w'"
    by (rule stays [OF try_to_enter_ok [OF assms]]) (rule moves_stay_in_world)
qed

lemma sample_world: "\<exists>w L. build_world sample_files (wld blank_game) = Some (True, w) \<and> world_inv R_EAST_EVRT w \<and> new_world w
    \<and> listed w L"
proof -
  obtain w where w: "build_world sample_files (wld blank_game) = Some (True, w)" "world_inv R_EAST_EVRT w" "new_world w"
    using build_world_ok [OF sample_readable, of "wld blank_game"] unfolding returns_iff start_in_room_def by auto
  moreover obtain L where "listed w L" using world_invD(1) [OF w(2)] by (auto simp: world_ok_def ok_with_def)
  ultimately show ?thesis by blast
qed

theorem commands_keep_world_witness:
  "\<exists>w act to w' act2 r'' w''. build_world sample_files (wld blank_game) = Some (True, w)
    \<and> run_typed TC_GET R_EAST_EVRT ''fish'' w = Some (act, to, w') \<and> world_ok w'
    \<and> try_to_enter R_EAST_EVRT w = Some (act2, Some r'', w'') \<and> world_inv r'' w''"
proof -
  obtain w where w: "build_world sample_files (wld blank_game) = Some (True, w)" "world_inv R_EAST_EVRT w"
    using sample_world by blast
  from commands_keep_world [OF w(2), of TC_GET "''fish''"] w(1) show ?thesis by blast
qed

section \<open>Object lists\<close>

text \<open>The linked lists of objects are lists: when the chains of the world represent the lists \<open>L\<close>, removing an object
  returns and takes it out of the list that it is in, and inserting it puts it first in the list of the room, at the given
  coordinates and in no other list; the other objects keep their places and the rest of the world is the same.\<close>

lemma object_lists:
  assumes "listed w L"
  shows "(\<exists>w'. remove_object k w = Some w' \<and> listed w' (\<lambda>r. removeAll k (L r)) \<and> loc_of w' = (loc_of w)(k := None)
      \<and> fixed_part w' = fixed_part w)
    \<and> (\<exists>w'. insert_object_at k r x y w = Some w'
      \<and> listed w' ((\<lambda>r. removeAll k (L r))(r := k # removeAll k (L r))) \<and> loc_of w' = (loc_of w)(k := Some r)
      \<and> o_x (object w' k) = word_of_int x \<and> o_y (object w' k) = word_of_int y
      \<and> (\<forall>j. j = k \<or> o_x (object w' j) = o_x (object w j) \<and> o_y (object w' j) = o_y (object w j))
      \<and> fixed_part w' = fixed_part w)"
proof (intro conjI)
  have "returns (remove_object k w) (\<lambda>w'. listed w' (\<lambda>r. removeAll k (L r)) \<and> loc_of w' = (loc_of w)(k := None)
      \<and> fixed_part w' = fixed_part w)"
    by (rule remove_object_returns [OF assms]) simp
  then show "\<exists>w'. remove_object k w = Some w' \<and> listed w' (\<lambda>r. removeAll k (L r)) \<and> loc_of w' = (loc_of w)(k := None)
      \<and> fixed_part w' = fixed_part w" unfolding returns_iff .
  have "returns (insert_object_at k r x y w) (\<lambda>w'. listed w' ((\<lambda>r. removeAll k (L r))(r := k # removeAll k (L r)))
      \<and> loc_of w' = (loc_of w)(k := Some r) \<and> o_x (object w' k) = word_of_int x \<and> o_y (object w' k) = word_of_int y
      \<and> (\<forall>j. j = k \<or> o_x (object w' j) = o_x (object w j) \<and> o_y (object w' j) = o_y (object w j))
      \<and> fixed_part w' = fixed_part w)"
    by (rule insert_object_at_returns [OF assms]) auto
  then show "\<exists>w'. insert_object_at k r x y w = Some w'
      \<and> listed w' ((\<lambda>r. removeAll k (L r))(r := k # removeAll k (L r))) \<and> loc_of w' = (loc_of w)(k := Some r)
      \<and> o_x (object w' k) = word_of_int x \<and> o_y (object w' k) = word_of_int y
      \<and> (\<forall>j. j = k \<or> o_x (object w' j) = o_x (object w j) \<and> o_y (object w' j) = o_y (object w j))
      \<and> fixed_part w' = fixed_part w" unfolding returns_iff .
qed

lemma object_lists_witness:
  "\<exists>w L w' w''. build_world sample_files (wld blank_game) = Some (True, w) \<and> listed w L
    \<and> remove_object O_FISH w = Some w' \<and> loc_of w' O_FISH = None
    \<and> insert_object_at O_FISH R_INVENTORY 10 60 w = Some w'' \<and> loc_of w'' O_FISH = Some R_INVENTORY
    \<and> o_x (object w'' O_FISH) = 10"
proof -
  obtain w L where w: "build_world sample_files (wld blank_game) = Some (True, w)" "listed w L" using sample_world by blast
  obtain w' where "remove_object O_FISH w = Some w'" "loc_of w' = (loc_of w)(O_FISH := None)"
    using object_lists [OF w(2), of O_FISH] by blast
  moreover obtain w'' where "insert_object_at O_FISH R_INVENTORY 10 60 w = Some w''"
      "loc_of w'' = (loc_of w)(O_FISH := Some R_INVENTORY)" "o_x (object w'' O_FISH) = word_of_int 10"
    using object_lists [OF w(2), of O_FISH R_INVENTORY 10 60] by blast
  ultimately show ?thesis using w
    by (intro exI [of _ w] exI [of _ L] exI [of _ w'] exI [of _ w'']) simp
qed

end
