(* ===== verification/InputProps.thy ===== *)
theory InputProps
  imports Adventure TuxProps
begin

text \<open>
  The input side of the game: what the keys mean, the time on the controller's displays through the driver, and
  the clock of the event loop.
\<close>

section \<open>The keyboard\<close>

text \<open>C35: From the resting state of the automaton, the bytes of any sequence of keys are recognised key by key: the command is that of
  the last key that gives one, and the text is what a line of at most 20 characters is after these keys, where a letter,
  digit or space is appended when there is room and a backspace (8 or 127) takes the last character away; no character is left
  over.  Any other byte but return, escape and backquote changes nothing.  And
  whatever characters arrive, in whatever state of the automaton, the text has at most 20 characters, all of them letters,
  digits or spaces, the automaton stays in its four states, and the game is left exactly for a backquote.\<close>

theorem keys_and_typing:
  shows "((\<forall>key\<in>set ks. key_ok key) \<and> state k = 0 \<longrightarrow>
      get_kb_cmd (concat (map key_bytes ks)) k =
        (last (CMD_NONE # List.map_filter key_command ks), [],
         k\<lparr>pushed := last (CMD_NONE # List.map_filter key_command ks), typing := fold text_after ks (typing k)\<rparr>))
    \<and> (c \<notin> typing_codes \<union> {10, 13, 27, 96} \<and> state k = 0 \<longrightarrow>
      get_kb_cmd [c] k = (CMD_NONE, [], k\<lparr>pushed := CMD_NONE\<rparr>))
    \<and> (typed_ok (typing k) \<and> state k \<le> 3 \<and> get_kb_cmd chars k = (cmd, rest, k') \<longrightarrow>
      length (typing k') \<le> 20 \<and> (\<forall>c\<in>set (typing k'). of_char c \<in> {32} \<union> {48..57} \<union> {65..90} \<union> {97..122 :: nat})
      \<and> typed_ok (typing k') \<and> state k' \<le> 3 \<and> (cmd = CMD_QUIT \<longleftrightarrow> 96 \<in> set chars))"
proof (intro conjI impI)
  let ?k = "k\<lparr>pushed := CMD_NONE\<rparr>" and ?c = "last (CMD_NONE # List.map_filter key_command ks)"
  { assume a: "(\<forall>key\<in>set ks. key_ok key) \<and> state k = 0"
    then have e: "fold kb_char (concat (map key_bytes ks)) ?k = ?k\<lparr>pushed := ?c, typing := fold text_after ks (typing k)\<rparr>"
        "96 \<notin> set (concat (map key_bytes ks))"
      using keys_effect [of ks ?k] by (simp_all add: fold_key_effect)
    show "get_kb_cmd (concat (map key_bytes ks)) k = (?c, [], k\<lparr>pushed := ?c, typing := fold text_after ks (typing k)\<rparr>)"
      using kb_loop_append [OF e(2), of "[]" ?k] e(1) by (simp add: get_kb_cmd_def) }
  { assume "c \<notin> typing_codes \<union> {10, 13, 27, 96} \<and> state k = 0"
    then show "get_kb_cmd [c] k = (CMD_NONE, [], k\<lparr>pushed := CMD_NONE\<rparr>)"
      by (simp add: get_kb_cmd_def kb_char_def plain_def) }
  { assume a: "typed_ok (typing k) \<and> state k \<le> 3 \<and> get_kb_cmd chars k = (cmd, rest, k')"
    then have "typed_ok (typing k') \<and> state k' \<le> 3 \<and> (cmd = CMD_QUIT \<longleftrightarrow> 96 \<in> set chars)"
      using kb_loop_ok [of ?k chars cmd rest k'] by (auto simp: get_kb_cmd_def)
    moreover from this have "length (typing k') \<le> 20"
      and "\<forall>c\<in>set (typing k'). of_char c \<in> {32} \<union> {48..57} \<union> {65..90} \<union> {97..122 :: nat}"
      by (auto simp: typed_ok_def valid_typing_def)
    ultimately show "length (typing k') \<le> 20"
      and "\<forall>c\<in>set (typing k'). of_char c \<in> {32} \<union> {48..57} \<union> {65..90} \<union> {97..122 :: nat}"
      and "typed_ok (typing k')" and "state k' \<le> 3" and "cmd = CMD_QUIT \<longleftrightarrow> 96 \<in> set chars" by blast+ }
qed

theorem keys_and_typing_witness:
  "get_kb_cmd [103, 120, 127, 27, 91, 67] \<lparr>state = 0, typing = [], pushed = CMD_NONE\<rparr>
     = (CMD_RIGHT, [], \<lparr>state = 0, typing = ''g'', pushed = CMD_RIGHT\<rparr>)
   \<and> get_kb_cmd [33] \<lparr>state = 0, typing = [], pushed = CMD_NONE\<rparr> = (CMD_NONE, [], \<lparr>state = 0, typing = [], pushed = CMD_NONE\<rparr>)
   \<and> (\<exists>cmd rest k'. get_kb_cmd [27, 97, 96, 98] \<lparr>state = 2, typing = ''g'', pushed = CMD_NONE\<rparr> = (cmd, rest, k')
        \<and> length (typing k') \<le> 20 \<and> cmd = CMD_QUIT)"
proof (intro conjI)
  let ?ks = "[Key_char 103, Key_char 120, Key_char 127, Key_arrow CMD_RIGHT]"
  have "\<forall>key\<in>set ?ks. key_ok key" by (simp add: valid_typing_def)
  moreover have "concat (map key_bytes ?ks) = [103, 120, 127, 27, 91, 67]" by simp
  moreover have "fold text_after ?ks [] = ''g''" "last (CMD_NONE # List.map_filter key_command ?ks) = CMD_RIGHT" by code_simp+
  ultimately show "get_kb_cmd [103, 120, 127, 27, 91, 67] \<lparr>state = 0, typing = [], pushed = CMD_NONE\<rparr>
     = (CMD_RIGHT, [], \<lparr>state = 0, typing = ''g'', pushed = CMD_RIGHT\<rparr>)"
    using keys_and_typing [of ?ks "\<lparr>state = 0, typing = [], pushed = CMD_NONE\<rparr>"] by simp
  have "(33 :: nat) \<notin> typing_codes \<union> {10, 13, 27, 96}" by (simp add: valid_typing_def)
  then show "get_kb_cmd [33] \<lparr>state = 0, typing = [], pushed = CMD_NONE\<rparr> = (CMD_NONE, [], \<lparr>state = 0, typing = [], pushed = CMD_NONE\<rparr>)"
    using keys_and_typing [of "[]" "\<lparr>state = 0, typing = [], pushed = CMD_NONE\<rparr>" 33] by simp
  obtain cmd rest k' where r: "get_kb_cmd [27, 97, 96, 98] \<lparr>state = 2, typing = ''g'', pushed = CMD_NONE\<rparr> = (cmd, rest, k')"
    by (metis prod_cases3)
  have "typed_ok ''g''" by code_simp
  with keys_and_typing [of "[]" "\<lparr>state = 2, typing = ''g'', pushed = CMD_NONE\<rparr>" 0 "[27, 97, 96, 98]" cmd rest k'] r
  show "\<exists>cmd rest k'. get_kb_cmd [27, 97, 96, 98] \<lparr>state = 2, typing = ''g'', pushed = CMD_NONE\<rparr> = (cmd, rest, k')
        \<and> length (typing k') \<le> 20 \<and> cmd = CMD_QUIT" by auto
qed

section \<open>The time on the controller\<close>

lemma points: "bit (led_arg on d3 d2 d1 d0) (24 + j) \<longleftrightarrow> j = 2" if "j < 4"
proof -
  have j: "j = 0 \<or> j = 1 \<or> j = 2 \<or> j = 3" using that by auto
  show ?thesis unfolding led_arg_def using j
    by (elim disjE) (simp_all add: bit_take_bit_iff bit_or_iff bit_push_bit_iff four)
qed

lemma segment:
  assumes "j < 4"
  shows "led_segments (led_arg on d3 d2 d1 d0) j = (if bit on j then led_mapping ! unat (take_bit 4 ([d0, d1, d2, d3] ! j)) else 0)
     + (if j = 2 \<and> bit on j then 0x10 else 0)"
  unfolding led_segments_def led_digit_def Let_def led_arg_on [OF assms] points [OF assms] led_arg_digit [OF assms]
  by auto

lemma nibble: "0 \<le> i \<Longrightarrow> i < 16 \<Longrightarrow> unat (take_bit 4 (word_of_int i :: 32 word)) = nat i"
  using take_small [of i] by simp

lemma nat_16: "0 \<le> i \<Longrightarrow> i < 16 \<Longrightarrow> nat i < 16"
  by simp

text \<open>C36: The time of a game of less than 320 minutes, \<open>n\<close> seconds, gets to the controller's displays.  The ioctl
  \<open>TUX_SET_LED\<close> with the argument that the game computes puts six bytes on the wire, the command, the mask of all displays and
  four bytes of segments, and loses none, when the lock is free, the last command is acknowledged (C23 is what happens
  otherwise) and the serial driver has room for six bytes.  Drawn with the segments they light, the four bytes are, from right
  to left, the digits of the seconds, the last digit of the minutes, alone with its decimal point, and the tens of
  minutes, dark while they are zero.  The minutes count to 159, so that the tens are a hexadecimal digit.\<close>

theorem time_on_controller:
  assumes "0 \<le> n" and "n < 19200"
    and "tux_ok s" and "\<not> kernel_lock s" and "pkt_acknowledged s \<noteq> 0" and "length local = 6" and "pending (tty s) = []"
    and "takes_its_room drv (wire (tty s))" and "6 \<le> driver_room drv (wire (tty s))"
  defines "mins \<equiv> n div 60 mod 160"
  shows "\<exists>t p0 p1 p2 p3. tuxctl_ioctl drv local TUX_SET_LED (display_time_on_tux n) s = Inr (0, t)
    \<and> wire (tty t) = wire (tty s) @ [0xC6, 0xF, p0, p1, p2, p3] \<and> lost (tty t) = lost (tty s)
    \<and> drawn p0 = digit_art (nat (n mod 60 mod 10)) \<and> drawn p1 = digit_art (nat (n mod 60 div 10))
    \<and> drawn p2 = digit_art (nat (mins mod 10))
    \<and> (if mins div 10 > 0 then drawn p3 = digit_art (nat (mins div 10)) else p3 = 0)
    \<and> \<not> bit p0 4 \<and> \<not> bit p1 4 \<and> bit p2 4 \<and> \<not> bit p3 4"
proof -
  note d = display_is_led_arg [OF assms(1,2), folded mins_def]
  have m: "0 \<le> mins mod 10" "mins mod 10 < 16" "0 \<le> n mod 60 mod 10" "n mod 60 mod 10 < 16"
    using pos_mod_bound [of 10 mins] pos_mod_bound [of 10 "n mod 60"] by simp_all
  have t: "n mod 60 div 10 < 16" using d(5) by simp
  let ?on = "if mins div 10 > 0 then 0xf else 0x7 :: 32 word"
  have on: "bit ?on 0" "bit ?on (Suc 0)" "bit ?on 2" "bit ?on 3 = (mins div 10 > 0)" by simp_all
  define d0 d1 d2 d3 where "d0 = nat (n mod 60 mod 10)" and "d1 = nat (n mod 60 div 10)" and "d2 = nat (mins mod 10)"
    and "d3 = nat (mins div 10)"
  have small: "d0 < 16" "d1 < 16" "d2 < 16" "d3 < 16"
    unfolding d0_def d1_def d2_def d3_def by (rule nat_16; fact m t d)+
  define p0 p1 p2 p3 where "p0 = led_mapping ! d0" and "p1 = led_mapping ! d1" and "p2 = led_mapping ! d2 + 0x10"
    and "p3 = (if mins div 10 > 0 then led_mapping ! d3 else 0)"
  have p: "[0xC6, 0xF, led_segments (display_time_on_tux n) 0, led_segments (display_time_on_tux n) 1,
      led_segments (display_time_on_tux n) 2, led_segments (display_time_on_tux n) 3] = [0xC6, 0xF, p0, p1, p2, p3]"
    unfolding d(1) p0_def p1_def p2_def p3_def d0_def d1_def d2_def d3_def
    by (simp add: segment nibble on d(2-4) t m del: bit_numeral_simps)
  obtain u where u: "tuxctl_ioctl drv local TUX_SET_LED (display_time_on_tux n) s = Inr (0, u)"
      "wire (tty u) = wire (tty s) @ [0xC6, 0xF, p0, p1, p2, p3]" "lost (tty u) = lost (tty s)"
    using set_led_sends [OF assms(3-9), of "display_time_on_tux n"] unfolding p by auto
  have art: "drawn p0 = digit_art d0" "\<not> bit p0 4" "drawn p1 = digit_art d1" "\<not> bit p1 4" "drawn p2 = digit_art d2" "bit p2 4"
    unfolding p0_def p1_def p2_def using small by (simp_all only: led_mapping_draws not_False_eq_True)
  have top: "if mins div 10 > 0 then drawn p3 = digit_art d3 else p3 = 0" "\<not> bit p3 4"
    using led_mapping_draws(1,2) [OF small(4)] unfolding p3_def by (cases "mins div 10 > 0"; simp only: if_True if_False bit_0_eq bot_apply bot_bool_def; blast)+
  show ?thesis
    unfolding d0_def [symmetric] d1_def [symmetric] d2_def [symmetric] d3_def [symmetric] using u art top by blast
qed

text \<open>754 seconds are 12:34.\<close>

theorem time_on_controller_witness:
  "\<exists>t p0 p1 p2 p3. tuxctl_ioctl (exact_driver 6) (replicate 6 0xAA) TUX_SET_LED (display_time_on_tux 754) sample_tux = Inr (0, t)
    \<and> wire (tty t) = [0xC6, 0xF, p0, p1, p2, p3]
    \<and> map drawn [p3, p2, p1, p0] = [[''   '', ''  |'', ''  |''], ['' _ '', '' _|'', ''|_ ''],
         ['' _ '', '' _|'', '' _|''], [''   '', ''|_|'', ''  |'']]"
proof -
  have "takes_its_room (exact_driver 6) w" for w by (simp add: takes_its_room_def)
  moreover have "\<not> kernel_lock sample_tux" "pkt_acknowledged sample_tux \<noteq> 0" by (simp_all add: sample_tux_def)
  ultimately have "\<exists>t p0 p1 p2 p3.
      tuxctl_ioctl (exact_driver 6) (replicate 6 0xAA) TUX_SET_LED (display_time_on_tux 754) sample_tux = Inr (0, t)
    \<and> wire (tty t) = [0xC6, 0xF, p0, p1, p2, p3]
    \<and> drawn p0 = digit_art 4 \<and> drawn p1 = digit_art 3 \<and> drawn p2 = digit_art 2 \<and> drawn p3 = digit_art 1"
    using time_on_controller [of 754 sample_tux "replicate 6 0xAA" "exact_driver 6"] sample_tux_ok
    by (simp add: sample_tux_ok) blast
  moreover have "map digit_art [1, 2, 3, 4] = [[''   '', ''  |'', ''  |''], ['' _ '', '' _|'', ''|_ ''],
         ['' _ '', '' _|'', '' _|''], [''   '', ''|_|'', ''  |'']]" by code_simp
  ultimately show ?thesis by auto
qed

section \<open>The clock\<close>

definition micros :: "timeval \<Rightarrow> int" where
  "micros t = tv_sec t * 1000000 + tv_usec t"

lemma after_micros:
  assumes "0 \<le> tv_usec a" "tv_usec a < 1000000" "0 \<le> tv_usec b" "tv_usec b \<le> 1000000"
  shows "time_is_after a b \<longleftrightarrow> micros a \<ge> micros b"
  using assms by (auto simp: time_is_after_def micros_def)

lemma next_tick_micros: "micros (next_tick t) = micros t + 50000"
  by (simp add: next_tick_def micros_def Let_def)

lemma next_tick_usec: "0 \<le> tv_usec t \<Longrightarrow> tv_usec t \<le> 1000000 \<Longrightarrow> 0 < tv_usec (next_tick t) \<and> tv_usec (next_tick t) \<le> 1000000"
  by (simp add: next_tick_def Let_def)

lemma advance_tick_runs:
  assumes "0 \<le> tv_usec cur" "tv_usec cur < 1000000" "0 \<le> tv_usec t" "tv_usec t \<le> 1000000"
  shows "\<exists>n. micros (advance_tick cur t) = micros t + 50000 * int (Suc n)
      \<and> micros (advance_tick cur t) > micros cur \<and> (micros (advance_tick cur t) \<le> micros cur + 50000 \<or> n = 0)
      \<and> 0 < tv_usec (advance_tick cur t) \<and> tv_usec (advance_tick cur t) \<le> 1000000"
  using assms
proof (induction cur t rule: advance_tick.induct)
  case (1 cur t)
  note u = next_tick_usec [OF 1(4,5)]
  show ?case
  proof (cases "time_is_after cur (next_tick t)")
    case True
    from 1(1) [OF refl True 1(2,3)] u obtain n where n: "micros (advance_tick cur (next_tick t)) = micros (next_tick t) + 50000 * int (Suc n)"
        "micros (advance_tick cur (next_tick t)) > micros cur" "micros (advance_tick cur (next_tick t)) \<le> micros cur + 50000 \<or> n = 0"
        "0 < tv_usec (advance_tick cur (next_tick t)) \<and> tv_usec (advance_tick cur (next_tick t)) \<le> 1000000" by auto
    have "micros (next_tick t) \<le> micros cur" using True after_micros [OF 1(2,3)] u by simp
    then have "micros (advance_tick cur (next_tick t)) \<le> micros cur + 50000" using n(1,3) by auto
    moreover have "advance_tick cur t = advance_tick cur (next_tick t)" using True by (subst advance_tick.simps) (simp add: Let_def)
    ultimately show ?thesis using n(1,2,4) next_tick_micros [of t] by (intro exI [of _ "Suc n"]) simp
  next
    case False
    have "advance_tick cur t = next_tick t" using False by (subst advance_tick.simps) (simp add: Let_def)
    moreover have "micros cur < micros (next_tick t)" using False after_micros [OF 1(2,3)] u by simp
    ultimately show ?thesis using next_tick_micros [of t] u by (intro exI [of _ 0]) simp
  qed
qed

text \<open>C37: The loop that skips missed ticks ends: once the current time has reached the tick, the next tick is a whole number of
  twentieths of a second later, after the current time but by at most a twentieth; its microseconds stay between 1 and
  1000000.\<close>

theorem ticks_advance:
  assumes "0 \<le> tv_usec cur" "tv_usec cur < 1000000" "0 \<le> tv_usec t" "tv_usec t \<le> 1000000" and "time_is_after cur t"
  shows "\<exists>n. micros (advance_tick cur t) = micros t + 50000 * int (Suc n)
      \<and> micros cur < micros (advance_tick cur t) \<and> micros (advance_tick cur t) \<le> micros cur + 50000
      \<and> 0 < tv_usec (advance_tick cur t) \<and> tv_usec (advance_tick cur t) \<le> 1000000"
proof -
  have "micros t \<le> micros cur" using after_micros [OF assms(1-4)] assms(5) by simp
  then show ?thesis using advance_tick_runs [OF assms(1-4)] by fastforce
qed

theorem ticks_advance_witness:
  "advance_tick \<lparr>tv_sec = 7, tv_usec = 120000\<rparr> \<lparr>tv_sec = 6, tv_usec = 950000\<rparr> = \<lparr>tv_sec = 7, tv_usec = 150000\<rparr>
   \<and> micros \<lparr>tv_sec = 7, tv_usec = 120000\<rparr> < micros (advance_tick \<lparr>tv_sec = 7, tv_usec = 120000\<rparr> \<lparr>tv_sec = 6, tv_usec = 950000\<rparr>)"
proof
  let ?c = "\<lparr>tv_sec = 7, tv_usec = 120000\<rparr>" and ?t = "\<lparr>tv_sec = 6, tv_usec = 950000\<rparr>"
  have "time_is_after ?c ?t" by (simp add: time_is_after_def)
  then show "micros ?c < micros (advance_tick ?c ?t)" using ticks_advance [of ?c ?t] by auto
  show "advance_tick ?c ?t = \<lparr>tv_sec = 7, tv_usec = 150000\<rparr>"
    by (simp add: advance_tick.simps next_tick_def time_is_after_def Let_def)
qed

end
