(* ===== verification/Spec2Isabelle.thy ===== *)
theory Spec2Isabelle
  imports UserProps MissileProps TuxProps PhotoProps DisplayProps WorldProps InputProps
begin

text \<open>
  A verification development for the course projects of this repository: the operating system kernel of
  \<open>mp3-OS/student-distrib\<close> with its user programs (\<open>mp3-OS/syscalls\<close>), the Tux controller driver of
  \<open>mp2-uiuc-adventure/module\<close>, the adventure game \<open>mp2-uiuc-adventure\<close> with its picture converter, and the
  missile game \<open>mp1-missle-command\<close>.

  \<^bold>\<open>Conventions.\<close>  Definitions are translated from the C source and keep its names; the comments of a theory say
  where a group of definitions stands.  A byte is an \<open>8 word\<close>, other fixed-width data are words, a C \<open>int\<close> is
  Isabelle's \<open>int\<close>, and where the source computes unsigned, or a caller can drive a sum out of range, the reduction is
  written out (\<open>u32\<close>, \<open>s32\<close>, words).  State is a record passed explicitly.  An access outside an array, a
  null pointer and a loop that does not end give \<open>None\<close> (in the driver a value \<open>Inl\<close> of the fault), so that a
  theorem that an operation returns also says that it does none of these.  Code outside the repository is a
  parameter: the serial driver, the numbers of \<open>rand\<close>, the bytes of the picture files, the interrupts
  that arrive while a system call waits.

  \<^bold>\<open>The kernel.\<close>  One record \<open>kernel\<close> (\<open>KState\<close>) holds the globals, the PCBs, the terminals, the memory as a map from
  addresses to bytes, the page tables, the trace of port writes and the interrupt flag.
  \<^item> \<open>CString\<close>, \<open>MemCopy\<close>, \<open>Console\<close>: \<open>lib.c\<close>; strings and \<open>itoa\<close>, the string instructions of \<open>memset\<close>,
    \<open>memcpy\<close> and \<open>memmove\<close>, the text console, which refines an abstract screen of rows (interpretation
    \<open>console_sim\<close> of the locale \<open>simulation\<close>), and \<open>printf\<close>.
  \<^item> \<open>Devices\<close>: \<open>i8259.c\<close>, \<open>rtc.c\<close>, \<open>pit.c\<close>.  \<open>FileSys\<close>: \<open>filesys.c\<close>.  \<open>Terminal\<close>: \<open>terminal.c\<close>.  \<open>Paging\<close>:
    \<open>paging.c\<close>, with the translation of the processor as the specification.
  \<^item> \<open>SysCall\<close>, \<open>Process\<close>: \<open>systemcall.c\<close>, \<open>scheduler.c\<close>, the dispatcher of \<open>linkage.S\<close> and the exceptions of
    \<open>idt.c\<close>.  \<open>Keyboard\<close>: \<open>kb.c\<close>.  \<open>Boot\<close>: \<open>kernel.c\<close> and the interrupt descriptor table.
  \<^item> \<open>KInv\<close>, \<open>KernelSteps\<close>: the invariant of the kernel, kept by every operation, and the kernel as a transition
    system of events (interrupts, exceptions, system calls) and user writes; the interrupts that arrive while a read waits
    are the handlers of the model themselves.  \<open>KernelFaults\<close>: an event that leaves an array ends the run; the
    causes such an event can have in a reachable state are listed, and for the keyboard they are exact.  \<open>LineDisc\<close>, \<open>Descriptors\<close>, \<open>ProcLemmas\<close>: the typed line as
    an edited list, the file drivers behind one interface (locale \<open>fd_driver\<close>), halt and terminal switch.
    \<open>KernelProps\<close> states the properties of the kernel.

  \<^bold>\<open>The user programs.\<close>  A program is a function of the kernel's state, which holds its memory; what it calls
  is the dispatcher of the kernel.  The addresses of its arrays and string literals are parameters, and so is the run
  of the program a shell command starts.
  \<^item> \<open>UserLib\<close>: the call stubs and \<open>ece391support.c\<close>.  \<open>UserProgs\<close>: \<open>cat\<close>, \<open>ls\<close>, \<open>grep\<close>, \<open>hello\<close>, \<open>counter\<close>,
    \<open>testprint\<close> and the shell (whose rounds are a list: one entry for each program it starts).  \<open>SysErr\<close>: the
    repository's own tests of the error returns, \<open>ece391syserr.c\<close>.
  \<^item> \<open>UserCalls\<close>, \<open>FileProgs\<close>, \<open>FileRuns\<close>, \<open>SysErrRuns\<close>: what a call promises a program, and the loop that reads
    and prints chunk after chunk as one interface (locale \<open>pump\<close>, interpretations \<open>cat\<close> and \<open>ls\<close>); the loops of
    the programs may run for ever and are shown to return.  \<open>UserProps\<close>: \<open>cat\<close> prints the file, \<open>ls\<close> the
    directory, the tests pass, and what \<open>cat\<close> prints of a long file.

  \<^bold>\<open>The Tux controller.\<close>  \<open>TuxLdisc\<close> is \<open>tuxctl-ld.c\<close>, whose two rings are bounded queues (locale \<open>bounded_fifo\<close>);
  \<open>TuxDriver\<close> is \<open>tuxctl-ioctl.c\<close> with the callback that frames packets; \<open>TuxProps\<close> states the properties.  The serial
  driver is a pair of functions: the room it offers and the number of bytes it accepts; what it is handed and does not
  accept is kept apart (\<open>lost\<close>), since the line discipline forgets it.  The segments of the displays are specified by drawings
  of the sixteen digits.

  \<^bold>\<open>The game.\<close>  The record \<open>game\<close> (\<open>Adventure\<close>) holds the file-scope variables of \<open>adventure.c\<close> together with the parts
  it drives: the \<open>world\<close>, the build buffer and video memory (\<open>modex\<close>), and the keyboard (\<open>kb\<close>).
  \<^item> \<open>Photo\<close>, \<open>Mp2Photo\<close>, \<open>Picture\<close>: the readers of picture files (one locale \<open>pixel_body\<close> for both), the converter from
    BMP, and the callbacks of \<open>photo.c\<close> that compose a line of a room's photo and its objects.
  \<^item> \<open>World\<close>, \<open>Commands\<close>: \<open>world.c\<close>; the tables, the linked lists of objects, the moves and typed commands.
    \<open>WorldLists\<close> shows that the list operations are those of lists, \<open>WorldInv\<close>, \<open>CommandInv\<close> and \<open>BuildWorld\<close> that the
    well-formedness of a world (lists, rooms, photos, the order of the story) holds at the start and is kept.
  \<^item> \<open>Modex\<close>, \<open>ModexView\<close>: \<open>modex.c\<close>; the window in the four-plane buffer, lines, page flip, and which pixel is where.
    \<open>Font\<close>, \<open>StatusBar\<close>: \<open>text.c\<close>.  \<open>Input\<close>: \<open>input.c\<close>.
  \<^item> \<open>Adventure\<close>: \<open>adventure.c\<close>; commands, scrolling, the clock, one frame, one command of the keyboard, one of the
    controller, the status thread, the start.  \<open>Scroll\<close>, \<open>GameInv\<close>, \<open>GameSteps\<close>, \<open>GameRuns\<close>: with a frame between a change of the
    room and the next command (\<open>reachable\<close>) the window shows the picture of the room, every step keeps the
    invariant of the game and returns.  \<open>FreeRuns\<close>: the runs in any order (\<open>run\<close>), the part of the
    invariant that holds in them, the steps that return in them, and the scroll that reads past the old photo.
  \<^item> \<open>Tale\<close>, \<open>Story\<close>, \<open>Walkthrough\<close>: the story as an abstract machine, the proof that the commands carry out its
    steps and the keyboard reaches them, and a complete walkthrough, which the kernel evaluates on the machine.
  \<^item> \<open>PhotoProps\<close>, \<open>GameProps\<close>, \<open>DisplayProps\<close>, \<open>WorldProps\<close>, \<open>InputProps\<close> state the properties.

  \<^bold>\<open>The missile game.\<close>  The record \<open>mp1\<close> (\<open>Missile\<close>) holds the data of \<open>mp1.S\<close>, the missiles as a store of linked nodes and
  the text screen; the record \<open>play\<close> (\<open>MissileGame\<close>) adds the variables of \<open>missile-command.c\<close> and whether the
  clock's signal is held back.
  \<^item> \<open>Missile\<close>: \<open>mp1.S\<close> and \<open>mp1-given.c\<close>; one tick and the five calls.  \<open>MissileGame\<close>: \<open>missile-command.c\<close>, \<open>vga.c\<close> and
    \<open>mp1_userspace.c\<close>; keys, missiles, crosshairs, status, one turn of the loop.
  \<^item> \<open>MissileList\<close>, \<open>MissileTick\<close>: the tick as a walk over a list of missiles, which always ends, and the proof that
    the routines on pointers carry it out.  \<open>MissileFlight\<close>: the fixed-point flight of a lone missile reaches its cell, with the bound of 2200
    ticks from the slowest speed (10) over the longest way.  \<open>MissileRuns\<close>: the invariant of turns and clock signals
    in any order.  \<open>MissileProps\<close> states the properties.

  \<^bold>\<open>Threads.\<close>  The event loop, the Tux thread and the status thread take turns between whole steps: a frame, a command of the
  keyboard, a command of the controller, the clearing of the message, in any order (\<open>run\<close>); that no thread
  interrupts a step of another is an assumption, since the source has a lock for the message only.  Where a property
  needs a frame between a change of the room and the next command it says so (\<open>reachable\<close>, \<open>window_current\<close>);
  what happens otherwise is a property of its own.  The display of the time is recorded in the game as the argument of the
  ioctl; \<open>InputProps\<close> carries it through the driver to the wire.

  \<^bold>\<open>Not modelled.\<close>  The segment descriptors and assembly stubs of the kernel, the switch of the machine stack beyond the
  saved register values, the commented-out scheduler, and the kernel's test drivers; the registration of the
  line discipline with Linux and the constants of its protocol that nothing uses; the programming of the VGA registers, palettes and
  text mode, the allocation of memory, failing writes of the converter, the opening of the serial port and the reset of the controller when
  the game starts, the terminal settings, the clean-up handlers, and the messages and exit codes of the games; of the
  user programs the endless animation \<open>pingpong\<close>, the test of signals, which this kernel does not have, and the
  emulation library with which the programs and \<open>mp3-OS/fish\<close> run under Linux; the patch of the Linux clock driver.
\<close>

end
